(* ===== verification/NW_Prelude.thy ===== *)
theory NW_Prelude
  imports
    Complex_Main
    "HOL-Library.AList"
    "HOL-Library.Multiset"
    "HOL-Library.Sublist"
    "HOL-Library.Char_ord"
    "HOL-Library.List_Lexorder"
begin

text \<open>
  Shared vocabulary of the Northwatch development.

  \<^item> Go maps are association lists with distinct keys.  The order of the list is the order in
    which this execution's \<^verbatim>\<open>for k, v := range m\<close> visits the map; Go leaves that order open, and
    every statement below holds for every list, hence for every order.  \<open>AList.update\<close> and
    \<open>AList.delete\<close> are \<^verbatim>\<open>m[k] = v\<close> and \<^verbatim>\<open>delete(m, k)\<close>.
  \<^item> Errors are values: the sentinel errors of the program, \<^verbatim>\<open>*InputError\<close>, \<^verbatim>\<open>fmt.Errorf\<close> with and
    without \<^verbatim>\<open>%w\<close>.  Messages are kept as format string and arguments, unrendered.
  \<^item> Times and durations are integers (nanoseconds unless a name says milliseconds).
  \<^item> \<^verbatim>\<open>sort.Slice\<close> is insertion sort, which is what Go runs on slices of at most twelve elements;
    on longer slices it agrees whenever the sort keys are pairwise distinct.
  \<^item> \<^verbatim>\<open>strconv.Itoa\<close> and \<^verbatim>\<open>strconv.Atoi\<close> are written out, with the 64-bit range check of Atoi.
  \<^item> The index arithmetic of the ring buffers is developed once, for every element type.
\<close>

named_theorems gomap_simps \<open>lookup, key-set and distinctness rules of Go maps\<close>

named_theorems sort_rules \<open>what sort.Slice preserves and establishes\<close>

named_theorems ring_rules \<open>what the ring operations do to the list of entries\<close>

declare Let_def [simp]

type_synonym ('k, 'v) gomap = "('k \<times> 'v) list"

section \<open>Go maps\<close>

abbreviation gomap_ok :: "('k, 'v) gomap \<Rightarrow> bool" where
  "gomap_ok m \<equiv> distinct (map fst m)"

abbreviation gokeys :: "('k, 'v) gomap \<Rightarrow> 'k list" where
  "gokeys m \<equiv> map fst m"

lemma map_of_update [simp, gomap_simps]:
  "map_of (AList.update k v m) k' = (if k' = k then Some v else map_of m k')"
  by (simp add: update_conv')

lemma map_of_delete [simp, gomap_simps]:
  "map_of (AList.delete k m) k' = (if k' = k then None else map_of m k')"
  by (simp add: delete_conv')

lemma gomap_ok_update [simp, gomap_simps]: "gomap_ok m \<Longrightarrow> gomap_ok (AList.update k v m)"
  by (rule distinct_update)

lemma gomap_ok_delete [simp, gomap_simps]: "gomap_ok m \<Longrightarrow> gomap_ok (AList.delete k m)"
  by (rule distinct_delete)

lemma gomap_ok_filter [simp, gomap_simps]: "gomap_ok m \<Longrightarrow> gomap_ok (filter P m)"
  by (induction m) auto

lemma map_of_filter [gomap_simps]:
  assumes "gomap_ok m"
  shows "map_of (filter P m) k =
    (case map_of m k of None \<Rightarrow> None | Some v \<Rightarrow> if P (k, v) then Some v else None)"
  using assms
proof (induction m)
  case Nil
  then show ?case by simp
next
  case (Cons kv m)
  obtain k0 v0 where kv: "kv = (k0, v0)" by force
  have "map_of m k0 = None"
    using Cons.prems kv by (auto simp: map_of_eq_None_iff)
  then show ?case using Cons kv by (auto split: option.splits)
qed

lemma in_set_gomap [gomap_simps]:
  "gomap_ok m \<Longrightarrow> (k, v) \<in> set m \<longleftrightarrow> map_of m k = Some v"
  by simp

lemma set_AList_update: "(k', v') \<in> set (AList.update k v m) \<Longrightarrow> (k', v') = (k, v) \<or> (k', v') \<in> set m"
  by (induction m) (auto split: if_splits)

lemma length_update_le [gomap_simps]: "length (AList.update k v m) \<le> Suc (length m)"
  by (induction m) auto

lemma length_update_new: "k \<notin> set (gokeys m) \<Longrightarrow> length (AList.update k v m) = Suc (length m)"
  by (induction m) auto

lemma length_update_old: "k \<in> set (gokeys m) \<Longrightarrow> length (AList.update k v m) = length m"
  by (induction m) auto

lemma length_delete_in:
  assumes "gomap_ok m" "k \<in> set (gokeys m)"
  shows "Suc (length (AList.delete k m)) = length m"
  using assms
proof (induction m)
  case (Cons kv m)
  show ?case
  proof (cases "fst kv = k")
    case True
    with Cons.prems have "k \<notin> set (gokeys m)" by auto
    then have "AList.delete k m = m" by (simp add: delete_idem)
    with True show ?thesis by (auto simp: AList.delete_eq)
  next
    case False
    with Cons.prems have "Suc (length (AList.delete k m)) = length m"
      by (intro Cons.IH) auto
    with False show ?thesis by (auto simp: AList.delete_eq)
  qed
qed simp


text \<open>Counting in a map: \<^verbatim>\<open>m[k]++\<close> and \<^verbatim>\<open>m[k]\<close>, which reads zero for an absent key.\<close>

definition tally :: "'k \<Rightarrow> ('k, int) gomap \<Rightarrow> int" where
  "tally k m = (case map_of m k of None \<Rightarrow> 0 | Some n \<Rightarrow> n)"

definition bump :: "'k \<Rightarrow> ('k, int) gomap \<Rightarrow> ('k, int) gomap" where
  "bump k m = AList.update k (tally k m + 1) m"

lemma tally_bump: "tally k (bump k' m) = tally k m + (if k = k' then 1 else 0)"
  by (simp add: tally_def bump_def)

lemma gomap_ok_bump [simp]: "gomap_ok m \<Longrightarrow> gomap_ok (bump k m)"
  by (simp add: bump_def)

section \<open>Errors\<close>

datatype error =
    ErrStaleState
  | ErrRateLimited
  | ErrNotFound
  | ErrOther string
  | InputError string "arg list"
  | Errorf string "arg list"
  | Wrapf string "arg list" error
and arg = AStr string | AInt int | AErr error

text \<open>
  \<^verbatim>\<open>errors.As(err, *InputError)\<close> and \<^verbatim>\<open>errors.Is(err, sentinel)\<close> follow the \<^verbatim>\<open>%w\<close> chain only: an error
  printed with \<^verbatim>\<open>%s\<close> (\<open>AErr\<close>) is text and is not in the chain.
\<close>

fun IsInputError :: "error \<Rightarrow> bool" where
  "IsInputError (InputError f as) = True"
| "IsInputError (Wrapf f as e) = IsInputError e"
| "IsInputError _ = False"

fun errors_Is :: "error \<Rightarrow> error \<Rightarrow> bool" where
  "errors_Is (Wrapf f as e) s = (Wrapf f as e = s \<or> errors_Is e s)"
| "errors_Is e s = (e = s)"

type_synonym 'a result = "error + 'a"

abbreviation Err :: "error \<Rightarrow> 'a result" where
  "Err e \<equiv> Inl e"

abbreviation Ok :: "'a \<Rightarrow> 'a result" where
  "Ok x \<equiv> Inr x"

section \<open>Sorting\<close>

fun sort_insert :: "('a \<Rightarrow> 'a \<Rightarrow> bool) \<Rightarrow> 'a \<Rightarrow> 'a list \<Rightarrow> 'a list" where
  "sort_insert lt x [] = [x]"
| "sort_insert lt x (y # ys) =
     (if lt x y then x # y # ys else y # sort_insert lt x ys)"

definition sort_slice :: "('a \<Rightarrow> 'a \<Rightarrow> bool) \<Rightarrow> 'a list \<Rightarrow> 'a list" where
  "sort_slice lt xs = foldl (\<lambda>acc x. sort_insert lt x acc) [] xs"

lemma mset_sort_insert: "mset (sort_insert lt x ys) = add_mset x (mset ys)"
  by (induction ys) auto

lemma mset_foldl_sort_insert:
  "mset (foldl (\<lambda>acc x. sort_insert lt x acc) acc xs) = mset acc + mset xs"
  by (induction xs arbitrary: acc) (auto simp: mset_sort_insert)

lemma mset_sort_slice [simp, sort_rules]: "mset (sort_slice lt xs) = mset xs"
  by (simp add: sort_slice_def mset_foldl_sort_insert)

lemma set_sort_slice [simp, sort_rules]: "set (sort_slice lt xs) = set xs"
  by (metis mset_sort_slice set_mset_mset)

lemma length_sort_slice [simp, sort_rules]: "length (sort_slice lt xs) = length xs"
  by (metis mset_sort_slice size_mset)

lemma distinct_sort_slice [simp, sort_rules]: "distinct (sort_slice lt xs) = distinct xs"
  by (metis mset_sort_slice mset_eq_imp_distinct_iff)

lemma sort_slice_Nil [simp]: "sort_slice lt [] = []"
  by (simp add: sort_slice_def)

lemma set_sort_insert: "set (sort_insert lt x ys) = insert x (set ys)"
  by (induction ys) auto

text \<open>
  Sorting by a key, ascending or descending: the two shapes of comparison the program passes to
  \<^verbatim>\<open>sort.Slice\<close>.  Both are instances of a total preorder \<open>le\<close> whose strict part is the comparison.
\<close>

lemma sorted_sort_slice_wrt:
  assumes lt: "\<And>x y. lt x y \<longleftrightarrow> \<not> le y x"
    and tot: "\<And>x y. le x y \<or> le y x"
    and trans: "\<And>x y z. le x y \<Longrightarrow> le y z \<Longrightarrow> le x z"
  shows "sorted_wrt le (sort_slice lt xs)"
proof -
  have ins: "sorted_wrt le (sort_insert lt x ys)" if "sorted_wrt le ys" for x ys
    using that
  proof (induction ys)
    case (Cons y ys)
    then show ?case
      using tot trans by (auto simp: lt set_sort_insert) blast+
  qed simp
  have "sorted_wrt le (foldl (\<lambda>acc x. sort_insert lt x acc) acc xs)"
    if "sorted_wrt le acc" for acc
    using that by (induction xs arbitrary: acc) (auto simp: ins)
  then show ?thesis by (simp add: sort_slice_def)
qed

lemma sorted_sort_slice_asc [sort_rules]:
  fixes f :: "'a \<Rightarrow> 'b::linorder"
  shows "sorted_wrt (\<lambda>x y. f x \<le> f y) (sort_slice (\<lambda>x y. f x < f y) xs)"
  by (rule sorted_sort_slice_wrt) auto

lemma sorted_sort_slice_desc [sort_rules]:
  fixes f :: "'a \<Rightarrow> 'b::linorder"
  shows "sorted_wrt (\<lambda>x y. f x \<ge> f y) (sort_slice (\<lambda>x y. f x > f y) xs)"
  by (rule sorted_sort_slice_wrt) auto

lemma hd_sort_slice_desc:
  fixes f :: "'a \<Rightarrow> 'b::linorder"
  assumes "sort_slice (\<lambda>x y. f x > f y) xs = a # as" "x \<in> set xs"
  shows "f x \<le> f a"
proof -
  have "sorted_wrt (\<lambda>x y. f x \<ge> f y) (a # as)"
    using sorted_sort_slice_desc [of f xs] assms(1) by simp
  moreover have "x \<in> set (a # as)"
    using assms set_sort_slice [of "\<lambda>x y. f x > f y" xs] by metis
  ultimately show ?thesis by auto
qed

section \<open>Decimal integers\<close>

fun itoa_nat :: "nat \<Rightarrow> string" where
  "itoa_nat n = (if n < 10 then [char_of (n + 48)] else itoa_nat (n div 10) @ [char_of (n mod 10 + 48)])"

declare itoa_nat.simps [simp del]

definition Itoa :: "int \<Rightarrow> string" where
  "Itoa i = (if i < 0 then CHR ''-'' # itoa_nat (nat (- i)) else itoa_nat (nat i))"

definition is_digit :: "char \<Rightarrow> bool" where
  "is_digit c = (48 \<le> (of_char c :: nat) \<and> (of_char c :: nat) \<le> 57)"

definition digits_val :: "string \<Rightarrow> nat" where
  "digits_val s = foldl (\<lambda>a c. a * 10 + ((of_char c :: nat) - 48)) 0 s"

definition max_int64 :: int where
  "max_int64 = 9223372036854775807"

text \<open>\<^verbatim>\<open>strconv.Atoi\<close>: an optional sign, at least one digit, digits only, and the value in the range
  of a 64-bit int; anything else is an error (\<open>None\<close>).\<close>

definition Atoi :: "string \<Rightarrow> int option" where
  "Atoi s =
    (let (neg, ds) = (case s of [] \<Rightarrow> (False, [])
                      | c # cs \<Rightarrow> if c = CHR ''-'' then (True, cs)
                                 else if c = CHR ''+'' then (False, cs) else (False, s));
         v = (if neg then - int (digits_val ds) else int (digits_val ds))
     in if ds \<noteq> [] \<and> list_all is_digit ds \<and> - max_int64 - 1 \<le> v \<and> v \<le> max_int64
        then Some v else None)"

lemma digit_char:
  assumes "d < 10"
  shows "is_digit (char_of (d + 48))" "(of_char (char_of (d + 48) :: char) :: nat) - 48 = d"
  using assms by (auto simp: is_digit_def of_char_of)

lemma itoa_nat_digits: "list_all is_digit (itoa_nat n)"
proof (induction n rule: itoa_nat.induct)
  case (1 n)
  then show ?case
    by (subst itoa_nat.simps) (auto simp: digit_char list_all_iff)
qed

lemma itoa_nat_nonempty: "itoa_nat n \<noteq> []"
  by (subst itoa_nat.simps) simp

lemma digits_val_itoa_nat: "digits_val (itoa_nat n) = n"
proof (induction n rule: itoa_nat.induct)
  case (1 n)
  show ?case
  proof (cases "n < 10")
    case True
    then show ?thesis
      by (subst itoa_nat.simps) (simp add: digits_val_def digit_char)
  next
    case False
    then have "digits_val (itoa_nat (n div 10)) = n div 10" by (rule 1)
    with False show ?thesis
      by (subst itoa_nat.simps) (simp add: digits_val_def digit_char)
  qed
qed

lemma hd_itoa_nat: "itoa_nat n = c # cs \<Longrightarrow> c \<noteq> CHR ''-'' \<and> c \<noteq> CHR ''+''"
  using itoa_nat_digits [of n] by (auto simp: is_digit_def)

lemma Atoi_Itoa_nonneg:
  assumes "0 \<le> i" "i \<le> max_int64"
  shows "Atoi (Itoa i) = Some i"
proof -
  obtain c cs where s: "itoa_nat (nat i) = c # cs"
    using itoa_nat_nonempty by (cases "itoa_nat (nat i)") auto
  have "Atoi (c # cs) = Some (int (digits_val (c # cs)))"
    using hd_itoa_nat [OF s] itoa_nat_digits [of "nat i"] digits_val_itoa_nat [of "nat i"] s assms
    by (simp add: Atoi_def max_int64_def)
  then show ?thesis
    using assms digits_val_itoa_nat [of "nat i"] s by (simp add: Itoa_def)
qed

end
