(* ===== verification/NW_GoValues.thy ===== *)
theory NW_GoValues
  imports NW_Prelude
begin

text \<open>
  Go values behind \<^verbatim>\<open>any\<close> and the reflection the program does on OVSDB row structs.

  \<open>gval\<close> is a run-time value: the JSON-decoded values (\<^verbatim>\<open>nil\<close>, string, float64, bool, \<^verbatim>\<open>[]any\<close>,
  \<^verbatim>\<open>map[string]any\<close>) and the values of row-struct fields (int, pointers, typed slices and maps, which
  can be nil).  A float64 is the rational it denotes; NaN and the infinities never come out of a
  JSON document.  \<open>gtype\<close> is the part of \<^verbatim>\<open>reflect.Type\<close> the code inspects.  A row struct is a list
  of raw \<^verbatim>\<open>ovsdb\<close> struct tags with field types, and a row is the list of its field values.

  \<^verbatim>\<open>ModelToMap\<close> is \<^verbatim>\<open>internal/ovsdb/modelmap.go\<close>.
\<close>

datatype gval =
    GNil
  | GStr string
  | GInt int
  | GInt64 int
  | GFloat rat
  | GBool bool
  | GPtr "gval option"
  | GSlice "gval list"
  | GNilSlice
  | GMap "(string \<times> gval) list"
  | GNilMap

datatype gtype =
    TString
  | TInt
  | TInt64
  | TBool
  | TPtr gtype
  | TSlice gtype
  | TMap gtype gtype
  | TStruct "(string \<times> gtype) list"
  | TOther

type_synonym row_map = "(string, gval) gomap"

type_synonym struct_type = "(string \<times> gtype) list"

type_synonym model = "gval list"

fun zero_val :: "gtype \<Rightarrow> gval" where
  "zero_val TString = GStr ''''"
| "zero_val TInt = GInt 0"
| "zero_val TInt64 = GInt64 0"
| "zero_val TBool = GBool False"
| "zero_val (TPtr t) = GPtr None"
| "zero_val (TSlice t) = GNilSlice"
| "zero_val (TMap k t) = GNilMap"
| "zero_val _ = GNil"

text \<open>The fields of a struct type, through at most one pointer (\<^verbatim>\<open>if t.Kind() == reflect.Pointer\<close>).
  Only struct types are ever registered; \<^verbatim>\<open>NumField\<close> of anything else does not occur.\<close>

fun struct_fields :: "gtype \<Rightarrow> struct_type" where
  "struct_fields (TStruct fs) = fs"
| "struct_fields (TPtr (TStruct fs)) = fs"
| "struct_fields _ = []"

text \<open>The column name in a raw struct tag: none for an empty tag or \<^verbatim>\<open>-\<close>, and what precedes the first
  comma otherwise.\<close>

definition ovsdb_tag :: "string \<Rightarrow> string option" where
  "ovsdb_tag raw =
    (if raw = '''' \<or> raw = ''-'' then None else Some (takeWhile (\<lambda>c. c \<noteq> CHR '','') raw))"

definition ModelToMap :: "gtype \<Rightarrow> model \<Rightarrow> row_map" where
  "ModelToMap t m =
    foldl (\<lambda>result (fld, v). case ovsdb_tag (fst fld) of
             None \<Rightarrow> result
           | Some tag \<Rightarrow> AList.update tag v result)
      [] (zip (struct_fields t) m)"

definition ModelsToMaps :: "gtype \<Rightarrow> model list \<Rightarrow> row_map list" where
  "ModelsToMaps t ms = map (ModelToMap t) ms"

text \<open>\<^verbatim>\<open>DerefStr\<close>: the pointed-to string, empty for a nil pointer.\<close>

definition DerefStr :: "string option \<Rightarrow> string" where
  "DerefStr s = (case s of None \<Rightarrow> '''' | Some x \<Rightarrow> x)"

text \<open>\<^verbatim>\<open>m[k]\<close> on a \<^verbatim>\<open>map[string]any\<close>: nil for an absent key.\<close>

definition lookup_nil :: "row_map \<Rightarrow> string \<Rightarrow> gval" where
  "lookup_nil m k = (case map_of m k of None \<Rightarrow> GNil | Some v \<Rightarrow> v)"

section \<open>Values of a type\<close>

text \<open>Field types of the row structs never nest pointers, and their maps are keyed by strings.\<close>

fun is_ptr_type :: "gtype \<Rightarrow> bool" where
  "is_ptr_type (TPtr t) = True"
| "is_ptr_type _ = False"

fun has_type :: "gval \<Rightarrow> gtype \<Rightarrow> bool" where
  "has_type GNil t = False"
| "has_type (GStr s) t = (t = TString)"
| "has_type (GInt i) t = (t = TInt)"
| "has_type (GInt64 i) t = (t = TInt64)"
| "has_type (GFloat q) t = False"
| "has_type (GBool b) t = (t = TBool)"
| "has_type (GPtr None) t = (case t of TPtr u \<Rightarrow> \<not> is_ptr_type u | _ \<Rightarrow> False)"
| "has_type (GPtr (Some v)) t = (case t of TPtr u \<Rightarrow> \<not> is_ptr_type u \<and> has_type v u | _ \<Rightarrow> False)"
| "has_type GNilSlice t = (case t of TSlice u \<Rightarrow> True | _ \<Rightarrow> False)"
| "has_type (GSlice vs) t = (case t of TSlice u \<Rightarrow> \<forall>v \<in> set vs. has_type v u | _ \<Rightarrow> False)"
| "has_type GNilMap t = (case t of TMap k u \<Rightarrow> k = TString | _ \<Rightarrow> False)"
| "has_type (GMap kvs) t = (case t of
     TMap k u \<Rightarrow> k = TString \<and> gomap_ok kvs \<and> (\<forall>kv \<in> set kvs. has_type (snd kv) u) | _ \<Rightarrow> False)"

text \<open>Nil slices and maps replaced by empty ones; OVSDB has no distinction between the two.\<close>

fun empty_nil :: "gval \<Rightarrow> gval" where
  "empty_nil GNilSlice = GSlice []"
| "empty_nil GNilMap = GMap []"
| "empty_nil (GSlice vs) = GSlice (map empty_nil vs)"
| "empty_nil (GMap kvs) = GMap (map (\<lambda>kv. (fst kv, empty_nil (snd kv))) kvs)"
| "empty_nil (GPtr (Some v)) = GPtr (Some (empty_nil v))"
| "empty_nil v = v"

section \<open>Column names of a struct\<close>

definition column_names :: "struct_type \<Rightarrow> string list" where
  "column_names fs = concat (map (\<lambda>f. case ovsdb_tag (fst f) of None \<Rightarrow> [] | Some t \<Rightarrow> [t]) fs)"

definition all_tagged :: "struct_type \<Rightarrow> bool" where
  "all_tagged fs = (list_all (\<lambda>f. ovsdb_tag (fst f) \<noteq> None) fs \<and> distinct (column_names fs))"

lemma column_names_tagged:
  "list_all (\<lambda>f. ovsdb_tag (fst f) \<noteq> None) fs \<Longrightarrow>
    column_names fs = map (\<lambda>f. the (ovsdb_tag (fst f))) fs"
  by (induction fs) (auto simp: column_names_def)

lemma foldl_update_fresh:
  assumes "distinct (map f xs)" "set (map f xs) \<inter> set (gokeys acc) = {}"
  shows "foldl (\<lambda>r x. AList.update (f x) (g x) r) acc xs = acc @ map (\<lambda>x. (f x, g x)) xs"
  using assms
proof (induction xs arbitrary: acc)
  case (Cons x xs)
  have "AList.update (f x) (g x) acc = acc @ [(f x, g x)]"
    using Cons.prems by (induction acc) auto
  with Cons show ?case by auto
qed simp

lemma ModelToMap_zip:
  assumes "all_tagged (struct_fields t)" "length m = length (struct_fields t)"
  shows "ModelToMap t m = zip (column_names (struct_fields t)) m"
proof -
  let ?fs = "struct_fields t"
  let ?f = "\<lambda>p :: (string \<times> gtype) \<times> gval. the (ovsdb_tag (fst (fst p)))"
  have tagged: "list_all (\<lambda>f. ovsdb_tag (fst f) \<noteq> None) ?fs" "distinct (column_names ?fs)"
    using assms(1) by (auto simp: all_tagged_def)
  have names: "map ?f (zip ?fs m) = column_names ?fs"
  proof -
    have "map ?f (zip ?fs m) = map (\<lambda>f. the (ovsdb_tag (fst f))) (map fst (zip ?fs m))"
      by simp
    then show ?thesis
      using assms(2) by (simp add: column_names_tagged [OF tagged(1)] del: map_map)
  qed
  have "ModelToMap t m = foldl (\<lambda>r p. AList.update (?f p) (snd p) r) [] (zip ?fs m)"
    unfolding ModelToMap_def
    by (rule foldl_cong) (use tagged(1) in \<open>auto simp: list_all_iff split: option.splits dest!: set_zip_leftD\<close>)
  also have "\<dots> = map (\<lambda>p. (?f p, snd p)) (zip ?fs m)"
    using foldl_update_fresh [of ?f "zip ?fs m" "[]" snd] names tagged(2) by simp
  also have "\<dots> = zip (map ?f (zip ?fs m)) (map snd (zip ?fs m))"
    by (simp add: zip_map_map zip_same_conv_map)
  finally show ?thesis using names assms(2) by simp
qed

end
