(* ===== verification/NW_Models.thy ===== *)
theory NW_Models
  imports NW_GoValues
begin

text \<open>
  The row structs of the writable tables and of the tables impact analysis walks, field by field with their
  \<^verbatim>\<open>ovsdb\<close> tags, from \<^verbatim>\<open>internal/ovsdb/nb\<close> and \<^verbatim>\<open>internal/ovsdb/sb\<close>.  The enumerated string types
  (\<^verbatim>\<open>ACLAction\<close> and the like) are aliases of string there.
\<close>

definition nb_LogicalSwitch :: gtype where
  "nb_LogicalSwitch = TStruct
    [(''_uuid'', TString),
     (''acls'', (TSlice TString)),
     (''copp'', (TPtr TString)),
     (''dns_records'', (TSlice TString)),
     (''external_ids'', (TMap TString TString)),
     (''forwarding_groups'', (TSlice TString)),
     (''load_balancer'', (TSlice TString)),
     (''load_balancer_group'', (TSlice TString)),
     (''name'', TString),
     (''other_config'', (TMap TString TString)),
     (''ports'', (TSlice TString)),
     (''qos_rules'', (TSlice TString))]"

definition nb_LogicalSwitchPort :: gtype where
  "nb_LogicalSwitchPort = TStruct
    [(''_uuid'', TString),
     (''addresses'', (TSlice TString)),
     (''dhcpv4_options'', (TPtr TString)),
     (''dhcpv6_options'', (TPtr TString)),
     (''dynamic_addresses'', (TPtr TString)),
     (''enabled'', (TPtr TBool)),
     (''external_ids'', (TMap TString TString)),
     (''ha_chassis_group'', (TPtr TString)),
     (''mirror_rules'', (TSlice TString)),
     (''name'', TString),
     (''options'', (TMap TString TString)),
     (''parent_name'', (TPtr TString)),
     (''port_security'', (TSlice TString)),
     (''tag'', (TPtr TInt)),
     (''tag_request'', (TPtr TInt)),
     (''type'', TString),
     (''up'', (TPtr TBool))]"

definition nb_LogicalRouter :: gtype where
  "nb_LogicalRouter = TStruct
    [(''_uuid'', TString),
     (''copp'', (TPtr TString)),
     (''enabled'', (TPtr TBool)),
     (''external_ids'', (TMap TString TString)),
     (''load_balancer'', (TSlice TString)),
     (''load_balancer_group'', (TSlice TString)),
     (''name'', TString),
     (''nat'', (TSlice TString)),
     (''options'', (TMap TString TString)),
     (''policies'', (TSlice TString)),
     (''ports'', (TSlice TString)),
     (''static_routes'', (TSlice TString))]"

definition nb_LogicalRouterPort :: gtype where
  "nb_LogicalRouterPort = TStruct
    [(''_uuid'', TString),
     (''enabled'', (TPtr TBool)),
     (''external_ids'', (TMap TString TString)),
     (''gateway_chassis'', (TSlice TString)),
     (''ha_chassis_group'', (TPtr TString)),
     (''ipv6_prefix'', (TSlice TString)),
     (''ipv6_ra_configs'', (TMap TString TString)),
     (''mac'', TString),
     (''name'', TString),
     (''networks'', (TSlice TString)),
     (''options'', (TMap TString TString)),
     (''peer'', (TPtr TString)),
     (''status'', (TMap TString TString))]"

definition nb_ACL :: gtype where
  "nb_ACL = TStruct
    [(''_uuid'', TString),
     (''action'', TString),
     (''direction'', TString),
     (''external_ids'', (TMap TString TString)),
     (''label'', TInt),
     (''log'', TBool),
     (''match'', TString),
     (''meter'', (TPtr TString)),
     (''name'', (TPtr TString)),
     (''options'', (TMap TString TString)),
     (''priority'', TInt),
     (''severity'', (TPtr TString)),
     (''tier'', TInt)]"

definition nb_NAT :: gtype where
  "nb_NAT = TStruct
    [(''_uuid'', TString),
     (''allowed_ext_ips'', (TPtr TString)),
     (''exempted_ext_ips'', (TPtr TString)),
     (''external_ids'', (TMap TString TString)),
     (''external_ip'', TString),
     (''external_mac'', (TPtr TString)),
     (''external_port_range'', TString),
     (''gateway_port'', (TPtr TString)),
     (''logical_ip'', TString),
     (''logical_port'', (TPtr TString)),
     (''options'', (TMap TString TString)),
     (''type'', TString)]"

definition nb_AddressSet :: gtype where
  "nb_AddressSet = TStruct
    [(''_uuid'', TString),
     (''addresses'', (TSlice TString)),
     (''external_ids'', (TMap TString TString)),
     (''name'', TString)]"

definition nb_PortGroup :: gtype where
  "nb_PortGroup = TStruct
    [(''_uuid'', TString),
     (''acls'', (TSlice TString)),
     (''external_ids'', (TMap TString TString)),
     (''name'', TString),
     (''ports'', (TSlice TString))]"

definition nb_LoadBalancer :: gtype where
  "nb_LoadBalancer = TStruct
    [(''_uuid'', TString),
     (''external_ids'', (TMap TString TString)),
     (''health_check'', (TSlice TString)),
     (''ip_port_mappings'', (TMap TString TString)),
     (''name'', TString),
     (''options'', (TMap TString TString)),
     (''protocol'', (TPtr TString)),
     (''selection_fields'', (TSlice TString)),
     (''vips'', (TMap TString TString))]"

definition nb_LogicalRouterStaticRoute :: gtype where
  "nb_LogicalRouterStaticRoute = TStruct
    [(''_uuid'', TString),
     (''bfd'', (TPtr TString)),
     (''external_ids'', (TMap TString TString)),
     (''ip_prefix'', TString),
     (''nexthop'', TString),
     (''options'', (TMap TString TString)),
     (''output_port'', (TPtr TString)),
     (''policy'', (TPtr TString)),
     (''route_table'', TString)]"

definition nb_LogicalRouterPolicy :: gtype where
  "nb_LogicalRouterPolicy = TStruct
    [(''_uuid'', TString),
     (''action'', TString),
     (''bfd_sessions'', (TSlice TString)),
     (''external_ids'', (TMap TString TString)),
     (''match'', TString),
     (''nexthop'', (TPtr TString)),
     (''nexthops'', (TSlice TString)),
     (''options'', (TMap TString TString)),
     (''priority'', TInt)]"

definition nb_DHCPOptions :: gtype where
  "nb_DHCPOptions = TStruct
    [(''_uuid'', TString),
     (''cidr'', TString),
     (''external_ids'', (TMap TString TString)),
     (''options'', (TMap TString TString))]"

definition nb_DNS :: gtype where
  "nb_DNS = TStruct
    [(''_uuid'', TString),
     (''external_ids'', (TMap TString TString)),
     (''options'', (TMap TString TString)),
     (''records'', (TMap TString TString))]"

definition nb_StaticMACBinding :: gtype where
  "nb_StaticMACBinding = TStruct
    [(''_uuid'', TString),
     (''ip'', TString),
     (''logical_port'', TString),
     (''mac'', TString),
     (''override_dynamic_mac'', TBool)]"

definition nb_HAChassis :: gtype where
  "nb_HAChassis = TStruct
    [(''_uuid'', TString),
     (''chassis_name'', TString),
     (''external_ids'', (TMap TString TString)),
     (''priority'', TInt)]"

definition nb_GatewayChassis :: gtype where
  "nb_GatewayChassis = TStruct
    [(''_uuid'', TString),
     (''chassis_name'', TString),
     (''external_ids'', (TMap TString TString)),
     (''name'', TString),
     (''options'', (TMap TString TString)),
     (''priority'', TInt)]"

definition nb_HAChassisGroup :: gtype where
  "nb_HAChassisGroup = TStruct
    [(''_uuid'', TString),
     (''external_ids'', (TMap TString TString)),
     (''ha_chassis'', (TSlice TString)),
     (''name'', TString)]"

definition nb_LoadBalancerGroup :: gtype where
  "nb_LoadBalancerGroup = TStruct
    [(''_uuid'', TString),
     (''load_balancer'', (TSlice TString)),
     (''name'', TString)]"

definition nb_LoadBalancerHealthCheck :: gtype where
  "nb_LoadBalancerHealthCheck = TStruct
    [(''_uuid'', TString),
     (''external_ids'', (TMap TString TString)),
     (''options'', (TMap TString TString)),
     (''vip'', TString)]"

definition nb_QoS :: gtype where
  "nb_QoS = TStruct
    [(''_uuid'', TString),
     (''action'', (TMap TString TInt)),
     (''bandwidth'', (TMap TString TInt)),
     (''direction'', TString),
     (''external_ids'', (TMap TString TString)),
     (''match'', TString),
     (''priority'', TInt)]"

definition nb_ForwardingGroup :: gtype where
  "nb_ForwardingGroup = TStruct
    [(''_uuid'', TString),
     (''child_port'', (TSlice TString)),
     (''external_ids'', (TMap TString TString)),
     (''liveness'', TBool),
     (''name'', TString),
     (''vip'', TString),
     (''vmac'', TString)]"

definition nb_Copp :: gtype where
  "nb_Copp = TStruct
    [(''_uuid'', TString),
     (''external_ids'', (TMap TString TString)),
     (''meters'', (TMap TString TString)),
     (''name'', TString)]"

definition sb_MACBinding :: gtype where
  "sb_MACBinding = TStruct
    [(''_uuid'', TString),
     (''datapath'', TString),
     (''ip'', TString),
     (''logical_port'', TString),
     (''mac'', TString),
     (''timestamp'', TInt)]"

definition sb_FDB :: gtype where
  "sb_FDB = TStruct
    [(''_uuid'', TString),
     (''dp_key'', TInt),
     (''mac'', TString),
     (''port_key'', TInt),
     (''timestamp'', TInt)]"

definition sb_PortBinding :: gtype where
  "sb_PortBinding = TStruct
    [(''_uuid'', TString),
     (''additional_chassis'', (TSlice TString)),
     (''additional_encap'', (TSlice TString)),
     (''chassis'', (TPtr TString)),
     (''datapath'', TString),
     (''encap'', (TPtr TString)),
     (''external_ids'', (TMap TString TString)),
     (''gateway_chassis'', (TSlice TString)),
     (''ha_chassis_group'', (TPtr TString)),
     (''logical_port'', TString),
     (''mac'', (TSlice TString)),
     (''mirror_rules'', (TSlice TString)),
     (''nat_addresses'', (TSlice TString)),
     (''options'', (TMap TString TString)),
     (''parent_port'', (TPtr TString)),
     (''port_security'', (TSlice TString)),
     (''requested_additional_chassis'', (TSlice TString)),
     (''requested_chassis'', (TPtr TString)),
     (''tag'', (TPtr TInt)),
     (''tunnel_key'', TInt),
     (''type'', TString),
     (''up'', (TPtr TBool)),
     (''virtual_parent'', (TPtr TString))]"

definition sb_DatapathBinding :: gtype where
  "sb_DatapathBinding = TStruct
    [(''_uuid'', TString),
     (''external_ids'', (TMap TString TString)),
     (''load_balancers'', (TSlice TString)),
     (''tunnel_key'', TInt)]"

lemmas model_structs =
  nb_LogicalSwitch_def nb_LogicalSwitchPort_def nb_LogicalRouter_def nb_LogicalRouterPort_def nb_ACL_def nb_NAT_def nb_AddressSet_def nb_PortGroup_def nb_LoadBalancer_def nb_LogicalRouterStaticRoute_def nb_LogicalRouterPolicy_def nb_DHCPOptions_def nb_DNS_def nb_StaticMACBinding_def nb_HAChassis_def nb_GatewayChassis_def nb_HAChassisGroup_def nb_LoadBalancerGroup_def nb_LoadBalancerHealthCheck_def nb_QoS_def nb_ForwardingGroup_def nb_Copp_def sb_MACBinding_def sb_FDB_def sb_PortBinding_def sb_DatapathBinding_def

end
