(* ===== verification/Write_Hydrate.thy ===== *)
theory Write_Hydrate
  imports NW_Models
begin

text \<open>
  \<^verbatim>\<open>internal/write/hydrate.go\<close>: building a typed row struct from a JSON map.  \<open>setField\<close> converts one
  value to the type of one field, \<open>MapToModel\<close> a whole map, and \<open>fieldPointersByTag\<close> selects fields
  by column (a field pointer is the index of the field).  The theorems say that \<open>MapToModel\<close> is the
  inverse of \<open>ModelToMap\<close> whatever order the map is visited in, that what it builds is well typed,
  and exactly which maps it refuses.
\<close>

named_theorems hydrate_rules \<open>what setField and MapToModel return\<close>

section \<open>Conversion of one value\<close>

text \<open>
  \<^verbatim>\<open>int64(v)\<close> of a float64: truncation towards zero when the result fits.  Go leaves the other case
  to the implementation; this is what amd64 computes (the "integer indefinite" value).
\<close>

definition int_of_float :: "rat \<Rightarrow> int" where
  "int_of_float q =
    (let i = (if 0 \<le> q then \<lfloor>q\<rfloor> else \<lceil>q\<rceil>)
     in if - max_int64 - 1 \<le> i \<and> i \<le> max_int64 then i else - max_int64 - 1)"

fun setInt :: "(int \<Rightarrow> gval) \<Rightarrow> gval \<Rightarrow> gval result" where
  "setInt mk (GFloat q) = Ok (mk (int_of_float q))"
| "setInt mk (GInt i) = Ok (mk i)"
| "setInt mk (GInt64 i) = Ok (mk i)"
| "setInt mk _ = Err (Errorf ''expected number, got %T'' [])"

text \<open>A map key is always a Go string here, so \<open>setField\<close> on it is a plain case distinction.  (A
  pointer key type, which no row struct has, is refused.)\<close>

definition setKey :: "gtype \<Rightarrow> string \<Rightarrow> string result" where
  "setKey kt k = (case kt of
      TString \<Rightarrow> Ok k
    | TInt \<Rightarrow> Err (Errorf ''expected number, got %T'' [])
    | TInt64 \<Rightarrow> Err (Errorf ''expected number, got %T'' [])
    | TBool \<Rightarrow> Err (Errorf ''expected bool, got %T'' [])
    | TSlice _ \<Rightarrow> Err (Errorf ''expected slice, got %T'' [])
    | TMap _ _ \<Rightarrow> Err (Errorf ''expected map, got %T'' [])
    | _ \<Rightarrow> Err (Errorf ''unsupported field type %s'' []))"

text \<open>
  \<open>setField t raw cur\<close> is the new value of a field of type \<open>t\<close> that held \<open>cur\<close>.  A nil or a nil
  pointer leaves the field as it was; pointer inputs are dereferenced first.
\<close>

function (sequential) setField :: "gtype \<Rightarrow> gval \<Rightarrow> gval \<Rightarrow> gval result"
  and setElems :: "gtype \<Rightarrow> int \<Rightarrow> gval list \<Rightarrow> gval list result"
  and setEntries :: "gtype \<Rightarrow> gtype \<Rightarrow> (string \<times> gval) list \<Rightarrow> (string \<times> gval) list result"
where
  "setField t raw cur =
    (case raw of
       GNil \<Rightarrow> Ok cur
     | GPtr None \<Rightarrow> Ok cur
     | GPtr (Some v) \<Rightarrow> setField t v cur
     | _ \<Rightarrow>
       (case t of
          TPtr u \<Rightarrow>
            (case setField u raw (zero_val u) of Err e \<Rightarrow> Err e | Ok v \<Rightarrow> Ok (GPtr (Some v)))
        | TString \<Rightarrow>
            (case raw of GStr s \<Rightarrow> Ok (GStr s) | _ \<Rightarrow> Err (Errorf ''expected string, got %T'' []))
        | TInt \<Rightarrow> setInt GInt raw
        | TInt64 \<Rightarrow> setInt GInt64 raw
        | TBool \<Rightarrow>
            (case raw of GBool b \<Rightarrow> Ok (GBool b) | _ \<Rightarrow> Err (Errorf ''expected bool, got %T'' []))
        | TSlice u \<Rightarrow>
            (case raw of
               GSlice vs \<Rightarrow> (case setElems u 0 vs of Err e \<Rightarrow> Err e | Ok ws \<Rightarrow> Ok (GSlice ws))
             | GNilSlice \<Rightarrow> Ok (GSlice [])
             | _ \<Rightarrow> Err (Errorf ''expected slice, got %T'' []))
        | TMap kt u \<Rightarrow>
            (case raw of
               GMap kvs \<Rightarrow> (case setEntries kt u kvs of Err e \<Rightarrow> Err e | Ok ws \<Rightarrow> Ok (GMap ws))
             | GNilMap \<Rightarrow> Ok (GMap [])
             | _ \<Rightarrow> Err (Errorf ''expected map, got %T'' []))
        | _ \<Rightarrow> Err (Errorf ''unsupported field type %s'' [])))"
| "setElems u i [] = Ok []"
| "setElems u i (v # vs) =
    (case setField u v (zero_val u) of
       Err e \<Rightarrow> Err (Wrapf ''index %d: %w'' [AInt i] e)
     | Ok w \<Rightarrow> (case setElems u (i + 1) vs of Err e \<Rightarrow> Err e | Ok ws \<Rightarrow> Ok (w # ws)))"
| "setEntries kt u [] = Ok []"
| "setEntries kt u (kv # kvs) =
    (case setKey kt (fst kv) of
       Err e \<Rightarrow> Err (Wrapf ''map key: %w'' [] e)
     | Ok k \<Rightarrow>
       (case setField u (snd kv) (zero_val u) of
          Err e \<Rightarrow> Err (Wrapf ''map value for key %v: %w'' [AStr k] e)
        | Ok w \<Rightarrow> (case setEntries kt u kvs of Err e \<Rightarrow> Err e | Ok ws \<Rightarrow> Ok ((k, w) # ws))))"
  by pat_completeness auto
termination
  by (relation "measure (\<lambda>x. case x of
        Inl (t, raw, cur) \<Rightarrow> size t + 2 * size raw
      | Inr (Inl (u, i, vs)) \<Rightarrow> size u + 2 * size_list size vs
      | Inr (Inr (kt, u, kvs)) \<Rightarrow> size u + 2 * size_list (size_prod (\<lambda>_. 0) size) kvs)")
    (auto simp: size_list_map)

declare setField.simps [simp del]


section \<open>Facts about one conversion\<close>

lemma setField_nil [hydrate_rules]: "setField t GNil cur = Ok cur" "setField t (GPtr None) cur = Ok cur"
  by (simp_all add: setField.simps [of t])

lemma setField_deref [hydrate_rules]: "setField t (GPtr (Some v)) cur = setField t v cur"
  by (simp add: setField.simps [of t "GPtr (Some v)"])

lemma setField_ptr [hydrate_rules]:
  assumes "v \<noteq> GNil" "\<And>p. v \<noteq> GPtr p"
  shows "setField (TPtr u) v cur =
    (case setField u v (zero_val u) of Err e \<Rightarrow> Err e | Ok w \<Rightarrow> Ok (GPtr (Some w)))"
  using assms by (cases v) (auto simp: setField.simps [of "TPtr u"])

lemma setField_slice [hydrate_rules]:
  "setField (TSlice u) (GSlice vs) cur =
    (case setElems u 0 vs of Err e \<Rightarrow> Err e | Ok ws \<Rightarrow> Ok (GSlice ws))"
  "setField (TSlice u) GNilSlice cur = Ok (GSlice [])"
  by (simp_all add: setField.simps [of "TSlice u"])

lemma setField_map [hydrate_rules]:
  "setField (TMap kt u) (GMap kvs) cur =
    (case setEntries kt u kvs of Err e \<Rightarrow> Err e | Ok ws \<Rightarrow> Ok (GMap ws))"
  "setField (TMap kt u) GNilMap cur = Ok (GMap [])"
  by (simp_all add: setField.simps [of "TMap kt u"])

lemma setField_scalar [hydrate_rules]:
  "setField TString (GStr s) cur = Ok (GStr s)"
  "setField TInt (GInt i) cur = Ok (GInt i)"
  "setField TInt64 (GInt64 i) cur = Ok (GInt64 i)"
  "setField TBool (GBool b) cur = Ok (GBool b)"
  by (simp_all add: setField.simps [of TString] setField.simps [of TInt] setField.simps [of TInt64]
      setField.simps [of TBool])

lemma setElems_map:
  "(\<And>v. v \<in> set vs \<Longrightarrow> setField u v (zero_val u) = Ok (f v)) \<Longrightarrow> setElems u i vs = Ok (map f vs)"
  by (induction vs arbitrary: i) auto

lemma setEntries_map:
  "(\<And>kv. kv \<in> set kvs \<Longrightarrow> setField u (snd kv) (zero_val u) = Ok (f (snd kv))) \<Longrightarrow>
    setEntries TString u kvs = Ok (map (\<lambda>kv. (fst kv, f (snd kv))) kvs)"
  by (induction kvs) (auto simp: setKey_def)

text \<open>A value that already has the field's type survives, up to nil slices and maps.\<close>

lemma setField_typed:
  assumes "has_type v t" "v = GPtr None \<Longrightarrow> cur = GPtr None"
  shows "setField t v cur = Ok (empty_nil v)"
  using assms
proof (induction v t arbitrary: cur rule: has_type.induct)
  case (8 v t)
  then obtain u where t: "t = TPtr u" "\<not> is_ptr_type u" "has_type v u"
    by (auto split: gtype.splits)
  then have "v \<noteq> GNil" "\<And>p. v \<noteq> GPtr p"
    by (auto elim: has_type.elims split: gtype.splits)
  moreover have "setField u v (zero_val u) = Ok (empty_nil v)"
    using 8 t calculation(2) by blast
  ultimately show ?case by (simp add: t hydrate_rules)
next
  case (10 vs t)
  then obtain u where t: "t = TSlice u" "\<forall>v\<in>set vs. has_type v u"
    by (auto split: gtype.splits)
  have "setField u v (zero_val u) = Ok (empty_nil v)" if "v \<in> set vs" for v
    using 10(1) [OF t(1) that] t(2) that by (cases v rule: empty_nil.cases) (auto split: gtype.splits)
  then show ?case by (simp add: t hydrate_rules setElems_map [of vs u empty_nil])
next
  case (12 kvs t)
  then obtain u where t: "t = TMap TString u" "\<forall>kv\<in>set kvs. has_type (snd kv) u"
    by (auto split: gtype.splits)
  have "setField u (snd kv) (zero_val u) = Ok (empty_nil (snd kv))" if "kv \<in> set kvs" for kv
    using 12(1) [OF t(1) that] t(2) that
    by (cases "snd kv" rule: empty_nil.cases) (auto split: gtype.splits)
  then show ?case by (simp add: t hydrate_rules setEntries_map [of kvs u empty_nil])
qed (auto simp: hydrate_rules split: gtype.splits)


section \<open>Whole rows\<close>

definition tagIndex :: "struct_type \<Rightarrow> (string, nat) gomap" where
  "tagIndex fs =
    foldl (\<lambda>m (i, f). case ovsdb_tag (fst f) of None \<Rightarrow> m | Some tag \<Rightarrow> AList.update tag i m)
      [] (enumerate 0 fs)"

fun setFields :: "struct_type \<Rightarrow> (string, nat) gomap \<Rightarrow> row_map \<Rightarrow> model \<Rightarrow> model result" where
  "setFields fs ti [] val = Ok val"
| "setFields fs ti ((key, rawVal) # rest) val =
    (case map_of ti key of
       None \<Rightarrow> Err (Errorf ''unknown field %q'' [AStr key])
     | Some idx \<Rightarrow>
       (case setField (snd (fs ! idx)) rawVal (val ! idx) of
          Err e \<Rightarrow> Err (Wrapf ''field %q: %w'' [AStr key] e)
        | Ok v \<Rightarrow> setFields fs ti rest (val[idx := v])))"

definition MapToModel :: "row_map \<Rightarrow> gtype \<Rightarrow> model result" where
  "MapToModel fields t =
    (let fs = struct_fields t
     in setFields fs (tagIndex fs) fields (map (zero_val \<circ> snd) fs))"

fun fieldPointers :: "(string, nat) gomap \<Rightarrow> string list \<Rightarrow> nat list result" where
  "fieldPointers ti [] = Ok []"
| "fieldPointers ti (tag # tags) =
    (case map_of ti tag of
       None \<Rightarrow> Err (Errorf ''unknown field %q'' [AStr tag])
     | Some i \<Rightarrow> (case fieldPointers ti tags of Err e \<Rightarrow> Err e | Ok ps \<Rightarrow> Ok (i # ps)))"

definition fieldPointersByTag :: "gtype \<Rightarrow> string list \<Rightarrow> nat list result" where
  "fieldPointersByTag t tags = fieldPointers (tagIndex (struct_fields t)) tags"

text \<open>The tag index of a struct in which every field has a column of its own.\<close>

lemma tagIndex_zip:
  assumes "all_tagged fs"
  shows "tagIndex fs = zip (column_names fs) [0..<length fs]"
proof -
  let ?f = "\<lambda>p :: nat \<times> string \<times> gtype. the (ovsdb_tag (fst (snd p)))"
  have tagged: "list_all (\<lambda>f. ovsdb_tag (fst f) \<noteq> None) fs" "distinct (column_names fs)"
    using assms by (auto simp: all_tagged_def)
  have names: "map ?f (enumerate 0 fs) = column_names fs"
    unfolding column_names_tagged [OF tagged(1)]
    by (rule nth_equalityI) (auto simp: nth_enumerate_eq)
  have "tagIndex fs = foldl (\<lambda>r p. AList.update (?f p) (fst p) r) [] (enumerate 0 fs)"
    unfolding tagIndex_def
    by (rule foldl_cong)
      (use tagged(1) in \<open>auto simp: list_all_iff enumerate_eq_zip split: option.splits dest!: set_zip_rightD\<close>)
  also have "\<dots> = map (\<lambda>p. (?f p, fst p)) (enumerate 0 fs)"
    using foldl_update_fresh [of ?f "enumerate 0 fs" "[]" fst] names tagged(2) by simp
  also have "\<dots> = zip (map ?f (enumerate 0 fs)) (map fst (enumerate 0 fs))"
    by (simp only: zip_map_map zip_same_conv_map) simp
  finally show ?thesis by (simp add: names)
qed

lemma map_of_tagIndex:
  assumes "all_tagged fs"
  shows "map_of (tagIndex fs) key = Some i \<longleftrightarrow> i < length fs \<and> column_names fs ! i = key"
proof -
  have tagged: "list_all (\<lambda>f. ovsdb_tag (fst f) \<noteq> None) fs" "distinct (column_names fs)"
    using assms by (auto simp: all_tagged_def)
  have len: "length (column_names fs) = length fs"
    by (simp add: column_names_tagged [OF tagged(1)])
  show ?thesis
    using tagged(2) len
    by (auto simp: tagIndex_zip [OF assms] map_of_zip_is_Some map_of_eq_Some_iff in_set_zip)
qed

lemma map_of_tagIndex_None:
  assumes "all_tagged fs"
  shows "map_of (tagIndex fs) key = None \<longleftrightarrow> key \<notin> set (column_names fs)"
proof -
  have "list_all (\<lambda>f. ovsdb_tag (fst f) \<noteq> None) fs"
    using assms by (auto simp: all_tagged_def)
  then have "length (column_names fs) = length fs"
    by (simp add: column_names_tagged)
  then show ?thesis by (simp add: tagIndex_zip [OF assms] map_of_zip_is_None)
qed

text \<open>What a successful loop leaves in each field: the fields named by the map are converted, the
  others keep their value.\<close>

lemma setFields_Ok:
  assumes "all_tagged fs" "gomap_ok fields" "length val = length fs"
    and "\<And>key raw i. map_of fields key = Some raw \<Longrightarrow> i < length fs \<Longrightarrow> column_names fs ! i = key \<Longrightarrow>
           setField (snd (fs ! i)) raw (val ! i) = Ok (g i)"
    and "set (gokeys fields) \<subseteq> set (column_names fs)"
  shows "setFields fs (tagIndex fs) fields val =
    Ok (map (\<lambda>i. if column_names fs ! i \<in> set (gokeys fields) then g i else val ! i) [0..<length fs])"
  using assms(2-)
proof (induction fields arbitrary: val)
  case Nil
  then show ?case by (auto intro: nth_equalityI)
next
  case (Cons kr fields)
  obtain key raw where kr: "kr = (key, raw)" by force
  have len: "length (column_names fs) = length fs"
    using assms(1) by (auto simp: all_tagged_def column_names_tagged)
  obtain i where i: "i < length fs" "column_names fs ! i = key"
    using Cons.prems(4) kr len by (auto simp: in_set_conv_nth)
  then have ti: "map_of (tagIndex fs) key = Some i" by (simp add: map_of_tagIndex [OF assms(1)])
  have gi: "setField (snd (fs ! i)) raw (val ! i) = Ok (g i)"
    using Cons.prems(3) [of key raw i] kr i by simp
  have uniq: "column_names fs ! j = key \<longleftrightarrow> j = i" if "j < length fs" for j
    using assms(1) i that len by (auto simp: all_tagged_def nth_eq_iff_index_eq)
  let ?val = "val[i := g i]"
  have "setFields fs (tagIndex fs) fields ?val =
    Ok (map (\<lambda>j. if column_names fs ! j \<in> set (gokeys fields) then g j else ?val ! j) [0..<length fs])"
  proof (rule Cons.IH)
    fix k r j
    assume k: "map_of fields k = Some r" "j < length fs" "column_names fs ! j = k"
    then have "k \<noteq> key" using Cons.prems(1) kr by (force dest: map_of_SomeD)
    then show "setField (snd (fs ! j)) r (?val ! j) = Ok (g j)"
      using Cons.prems(3) [of k r j] k kr i by (cases "j = i") auto
  qed (use Cons.prems kr in auto)
  moreover have "(if column_names fs ! j \<in> set (gokeys fields) then g j else ?val ! j) =
      (if column_names fs ! j \<in> set (gokeys (kr # fields)) then g j else val ! j)" if "j < length fs" for j
    using uniq [OF that] Cons.prems(2) that kr by (auto simp: nth_list_update)
  ultimately show ?case using ti gi kr by simp
qed

text \<open>A map with a key that is no column is refused, in whatever order it is visited.\<close>

lemma setFields_unknown:
  assumes "all_tagged fs" "setFields fs (tagIndex fs) fields val = Ok m"
  shows "set (gokeys fields) \<subseteq> set (column_names fs)"
  using assms(2)
proof (induction fields arbitrary: val)
  case (Cons kr fields)
  obtain key raw where kr: "kr = (key, raw)" by force
  from Cons.prems kr obtain i v where "map_of (tagIndex fs) key = Some i"
    "setFields fs (tagIndex fs) fields (val[i := v]) = Ok m"
    by (auto split: option.splits sum.splits)
  with Cons.IH have "set (gokeys fields) \<subseteq> set (column_names fs)"
    "map_of (tagIndex fs) key \<noteq> None" by auto
  with kr show ?case by (simp add: map_of_tagIndex_None [OF assms(1)])
qed simp

text \<open>What one successful run did to one field.\<close>

lemma setFields_untouched:
  assumes "all_tagged fs" "setFields fs (tagIndex fs) fields val = Ok m"
    and "i < length fs" "column_names fs ! i \<notin> set (gokeys fields)"
  shows "m ! i = val ! i"
  using assms(2,4)
proof (induction fields arbitrary: val)
  case (Cons kr fields)
  obtain key raw where kr: "kr = (key, raw)" by force
  from Cons.prems(1) kr obtain j v where j: "map_of (tagIndex fs) key = Some j"
    "setFields fs (tagIndex fs) fields (val[j := v]) = Ok m"
    by (auto split: option.splits sum.splits)
  then have "column_names fs ! j = key" by (simp add: map_of_tagIndex [OF assms(1)])
  with Cons.prems(2) kr have "i \<noteq> j" by auto
  with Cons.IH [OF j(2)] Cons.prems(2) show ?case by simp
qed simp

lemma setFields_nth:
  assumes "all_tagged fs" "gomap_ok fields" "setFields fs (tagIndex fs) fields val = Ok m"
    and "length val = length fs" "i < length fs" "map_of fields (column_names fs ! i) = Some raw"
  shows "setField (snd (fs ! i)) raw (val ! i) = Ok (m ! i)"
  using assms(2-4,6)
proof (induction fields arbitrary: val)
  case (Cons kr fields)
  obtain key r where kr: "kr = (key, r)" by force
  from Cons.prems(2) kr obtain j v where j: "map_of (tagIndex fs) key = Some j"
    "setField (snd (fs ! j)) r (val ! j) = Ok v" "setFields fs (tagIndex fs) fields (val[j := v]) = Ok m"
    by (auto split: option.splits sum.splits)
  have col: "column_names fs ! j = key" "j < length fs"
    using j(1) by (simp_all add: map_of_tagIndex [OF assms(1)])
  show ?case
  proof (cases "column_names fs ! i = key")
    case True
    have "length (column_names fs) = length fs"
      using assms(1) by (auto simp: all_tagged_def column_names_tagged)
    with True col assms(1,5) have ij: "i = j" by (auto simp: all_tagged_def nth_eq_iff_index_eq)
    have "m ! i = val[j := v] ! i"
      using setFields_untouched [OF assms(1) j(3) assms(5)] True Cons.prems(1) kr by simp
    with ij j(2) col(2) Cons.prems(3,4) kr True show ?thesis by simp
  next
    case False
    with col have "i \<noteq> j" by auto
    moreover have "setField (snd (fs ! i)) raw (val[j := v] ! i) = Ok (m ! i)"
      using Cons.IH [OF _ j(3)] Cons.prems kr False by simp
    ultimately show ?thesis by simp
  qed
qed simp

text \<open>A column given a value of its own type holds that value.\<close>

lemma MapToModel_column:
  assumes "all_tagged (struct_fields t)" "gomap_ok fields" "MapToModel fields t = Ok m"
    and "i < length (struct_fields t)" "map_of fields (column_names (struct_fields t) ! i) = Some v"
    and "has_type v (snd (struct_fields t ! i))"
  shows "m ! i = empty_nil v"
proof -
  let ?fs = "struct_fields t" and ?zero = "map (zero_val \<circ> snd) (struct_fields t)"
  have "setField (snd (?fs ! i)) v (?zero ! i) = Ok (m ! i)"
    using setFields_nth [OF assms(1,2) _ _ assms(4,5), of ?zero m] assms(3) by (simp add: MapToModel_def)
  moreover have "setField (snd (?fs ! i)) v (?zero ! i) = Ok (empty_nil v)"
  proof (rule setField_typed [OF assms(6)])
    assume "v = GPtr None"
    with assms(4,6) show "?zero ! i = GPtr None" by (auto split: gtype.splits)
  qed
  ultimately show ?thesis by (metis sum.inject(2))
qed

lemma setFields_length: "setFields fs ti fields val = Ok m \<Longrightarrow> length m = length val"
proof (induction fields arbitrary: val)
  case (Cons kr fields)
  obtain key raw where "kr = (key, raw)" by force
  with Cons.prems obtain j v where "setFields fs ti fields (val[j := v]) = Ok m"
    by (auto split: option.splits sum.splits)
  from Cons.IH [OF this] show ?case by simp
qed simp

lemma MapToModel_length: "MapToModel fields t = Ok m \<Longrightarrow> length m = length (struct_fields t)"
  unfolding MapToModel_def Let_def by (drule setFields_length) simp

lemma fieldPointers_set:
  assumes "all_tagged fs" "fieldPointers (tagIndex fs) tags = Ok ps"
  shows "set ps = {i. i < length fs \<and> column_names fs ! i \<in> set tags}"
  using assms(2)
proof (induction tags arbitrary: ps)
  case (Cons tag tags)
  then obtain i qs where i: "map_of (tagIndex fs) tag = Some i" and
    qs: "fieldPointers (tagIndex fs) tags = Ok qs" "ps = i # qs"
    by (auto split: option.splits sum.splits)
  have "map_of (tagIndex fs) tag = Some j \<longleftrightarrow> j < length fs \<and> column_names fs ! j = tag" for j
    by (rule map_of_tagIndex [OF assms(1)])
  then have "{j. j < length fs \<and> column_names fs ! j = tag} = {i}" using i by force
  moreover have "{j. j < length fs \<and> column_names fs ! j \<in> set (tag # tags)} =
      {j. j < length fs \<and> column_names fs ! j = tag} \<union> {j. j < length fs \<and> column_names fs ! j \<in> set tags}"
    by auto
  ultimately show ?case using Cons.IH [OF qs(1)] qs(2) by simp
qed simp

lemma fieldPointers_ok:
  assumes "all_tagged fs"
  shows "(\<exists>ps. fieldPointers (tagIndex fs) tags = Ok ps) \<longleftrightarrow> set tags \<subseteq> set (column_names fs)"
proof (induction tags)
  case (Cons tag tags)
  then show ?case
    using map_of_tagIndex_None [OF assms, of tag] by (auto split: option.splits sum.splits)
qed simp


section \<open>Type safety\<close>

text \<open>The field types row structs are made of, and the raw values that can occur (every Go map has
  distinct keys).\<close>

fun good_type :: "gtype \<Rightarrow> bool" where
  "good_type (TPtr t) = (\<not> is_ptr_type t \<and> good_type t)"
| "good_type (TSlice t) = good_type t"
| "good_type (TMap k t) = (k = TString \<and> good_type t)"
| "good_type (TStruct fs) = False"
| "good_type TOther = False"
| "good_type _ = True"

fun wf_val :: "gval \<Rightarrow> bool" where
  "wf_val (GPtr (Some v)) = wf_val v"
| "wf_val (GSlice vs) = (\<forall>v \<in> set vs. wf_val v)"
| "wf_val (GMap kvs) = (gomap_ok kvs \<and> (\<forall>kv \<in> set kvs. wf_val (snd kv)))"
| "wf_val _ = True"

lemma zero_val_type: "good_type t \<Longrightarrow> has_type (zero_val t) t"
  by (cases t) auto

lemma setInt_Ok:
  "setInt GInt raw = Ok v \<Longrightarrow> has_type v TInt"
  "setInt GInt64 raw = Ok v \<Longrightarrow> has_type v TInt64"
  by (cases raw; auto)+

lemma setEntries_keys: "setEntries kt u kvs = Ok ws \<Longrightarrow> map fst ws = map fst kvs"
proof (induction kvs arbitrary: ws)
  case (Cons kv kvs)
  then show ?case by (auto simp: setKey_def split: sum.splits gtype.splits)
qed simp

text \<open>One lemma per kind of field: what a successful conversion of a value that is neither nil nor a
  pointer stores there.\<close>

lemma setField_scalar_Ok:
  assumes "t = TString \<or> t = TInt \<or> t = TInt64 \<or> t = TBool"
    and "raw \<noteq> GNil" "\<And>p. raw \<noteq> GPtr p" "setField t raw cur = Ok v"
  shows "has_type v t"
  using assms
  by (cases raw)
    (auto simp: setField.simps [of TString] setField.simps [of TInt] setField.simps [of TInt64]
      setField.simps [of TBool])

lemma setField_slice_Ok:
  assumes "raw \<noteq> GNil" "\<And>p. raw \<noteq> GPtr p" "setField (TSlice u) raw cur = Ok v"
  shows "v = GSlice [] \<or> (\<exists>vs ws. raw = GSlice vs \<and> setElems u 0 vs = Ok ws \<and> v = GSlice ws)"
  using assms by (cases raw) (auto simp: setField.simps [of "TSlice u"] split: sum.splits)

lemma setField_map_Ok:
  assumes "raw \<noteq> GNil" "\<And>p. raw \<noteq> GPtr p" "setField (TMap kt u) raw cur = Ok v"
  shows "v = GMap [] \<or> (\<exists>kvs ws. raw = GMap kvs \<and> setEntries kt u kvs = Ok ws \<and> v = GMap ws)"
  using assms by (cases raw) (auto simp: setField.simps [of "TMap kt u"] split: sum.splits)

lemma setElems_all:
  "setElems u i vs = Ok ws \<Longrightarrow> (\<forall>v\<in>set vs. \<forall>w. setField u v (zero_val u) = Ok w \<longrightarrow> P w) \<Longrightarrow>
    (\<forall>w\<in>set ws. P w)"
  by (induction vs arbitrary: i ws) (auto split: sum.splits)

lemma setEntries_all:
  "setEntries kt u kvs = Ok ws \<Longrightarrow>
    (\<forall>kv\<in>set kvs. \<forall>w. setField u (snd kv) (zero_val u) = Ok w \<longrightarrow> P w) \<Longrightarrow> (\<forall>w\<in>set ws. P (snd w))"
  by (induction kvs arbitrary: ws) (auto split: sum.splits)

lemma setField_nonptr_type_safe:
  assumes "good_type t" "\<not> is_ptr_type t" "raw \<noteq> GNil" "\<And>p. raw \<noteq> GPtr p"
    and ok: "setField t raw cur = Ok v" and wf: "wf_val raw"
    and slice: "\<And>vs x u w. raw = GSlice vs \<Longrightarrow> x \<in> set vs \<Longrightarrow> good_type u \<Longrightarrow>
           setField u x (zero_val u) = Ok w \<Longrightarrow> has_type w u"
    and map: "\<And>kvs x u w. raw = GMap kvs \<Longrightarrow> x \<in> set kvs \<Longrightarrow> good_type u \<Longrightarrow>
           setField u (snd x) (zero_val u) = Ok w \<Longrightarrow> has_type w u"
  shows "has_type v t"
proof (cases t)
  case (TSlice u)
  with assms have "v = GSlice [] \<or> (\<exists>vs ws. raw = GSlice vs \<and> setElems u 0 vs = Ok ws \<and> v = GSlice ws)"
    by (intro setField_slice_Ok) auto
  then show ?thesis
  proof
    assume "\<exists>vs ws. raw = GSlice vs \<and> setElems u 0 vs = Ok ws \<and> v = GSlice ws"
    then obtain vs ws where vs: "raw = GSlice vs" "setElems u 0 vs = Ok ws" "v = GSlice ws" by blast
    have "\<forall>x\<in>set vs. \<forall>w. setField u x (zero_val u) = Ok w \<longrightarrow> has_type w u"
      using slice [OF vs(1)] assms(1) TSlice by simp
    then have "\<forall>w\<in>set ws. has_type w u" by (rule setElems_all [OF vs(2)])
    with TSlice vs show ?thesis by simp
  qed (simp add: TSlice)
next
  case (TMap kt u)
  with assms have "v = GMap [] \<or> (\<exists>kvs ws. raw = GMap kvs \<and> setEntries kt u kvs = Ok ws \<and> v = GMap ws)"
    by (intro setField_map_Ok) auto
  then show ?thesis
  proof
    assume "\<exists>kvs ws. raw = GMap kvs \<and> setEntries kt u kvs = Ok ws \<and> v = GMap ws"
    then obtain kvs ws where kvs: "raw = GMap kvs" "setEntries kt u kvs = Ok ws" "v = GMap ws" by blast
    have "\<forall>x\<in>set kvs. \<forall>w. setField u (snd x) (zero_val u) = Ok w \<longrightarrow> has_type w u"
      using map [OF kvs(1)] assms(1) TMap by simp
    then have "\<forall>w\<in>set ws. has_type (snd w) u" by (rule setEntries_all [OF kvs(2)])
    moreover have "gomap_ok ws" using setEntries_keys [OF kvs(2)] wf kvs(1) by simp
    ultimately show ?thesis using TMap kvs assms(1) by simp
  qed (use TMap assms(1) in simp)
next
  case (TPtr u)
  with assms show ?thesis by simp
qed (use assms setField_scalar_Ok [of t raw cur v] in auto)

lemma setField_any_type_safe:
  assumes "setField t raw cur = Ok v" "good_type t" "wf_val raw" "raw \<noteq> GNil" "\<And>p. raw \<noteq> GPtr p"
    and "\<And>vs x u w. raw = GSlice vs \<Longrightarrow> x \<in> set vs \<Longrightarrow> good_type u \<Longrightarrow>
           setField u x (zero_val u) = Ok w \<Longrightarrow> has_type w u"
    and "\<And>kvs x u w. raw = GMap kvs \<Longrightarrow> x \<in> set kvs \<Longrightarrow> good_type u \<Longrightarrow>
           setField u (snd x) (zero_val u) = Ok w \<Longrightarrow> has_type w u"
  shows "has_type v t"
proof (cases "is_ptr_type t")
  case False
  with assms show ?thesis by (intro setField_nonptr_type_safe [of t raw cur v]) auto
next
  case True
  then obtain u where t: "t = TPtr u" by (cases t) auto
  with assms obtain w where w: "setField u raw (zero_val u) = Ok w" "v = GPtr (Some w)"
    by (auto simp: setField_ptr split: sum.splits)
  have "has_type w u"
    by (rule setField_nonptr_type_safe [of u raw "zero_val u" w]) (use assms t w in auto)
  with w t assms(2) show ?thesis by simp
qed

text \<open>Whatever is written into a field has the field's type.\<close>

lemma setField_type_safe:
  assumes "setField t raw cur = Ok v" "good_type t" "wf_val raw" "has_type cur t"
  shows "has_type v t"
  using assms
proof (induction raw arbitrary: t cur v)
  case (GPtr p)
  then show ?case by (cases p) (auto simp: hydrate_rules)
next
  case (GSlice vs)
  have "has_type w u" if "x \<in> set vs" "good_type u" "setField u x (zero_val u) = Ok w" for x u w
    using GSlice.IH [OF that(1,3,2)] that GSlice.prems(3) by (simp add: zero_val_type)
  then show ?case
    by (intro setField_any_type_safe [OF GSlice.prems(1-3)]) auto
next
  case (GMap kvs)
  have "has_type w u" if "x \<in> set kvs" "good_type u" "setField u (snd x) (zero_val u) = Ok w" for x u w
    using GMap.IH [OF that(1), of "snd x" u "zero_val u" w] that GMap.prems(3)
    by (cases x) (fastforce simp: zero_val_type)
  then show ?case
    by (intro setField_any_type_safe [OF GMap.prems(1-3)]) auto
qed (simp add: hydrate_rules, (erule setField_any_type_safe; simp)+)

lemma setFields_type_safe:
  assumes "all_tagged fs" "\<forall>f\<in>set fs. good_type (snd f)" "\<forall>kv\<in>set fields. wf_val (snd kv)"
    and "setFields fs (tagIndex fs) fields val = Ok m" "list_all2 has_type val (map snd fs)"
  shows "list_all2 has_type m (map snd fs)"
  using assms(3-)
proof (induction fields arbitrary: val)
  case (Cons kr fields)
  obtain key raw where kr: "kr = (key, raw)" by force
  from Cons.prems kr obtain i v where i: "map_of (tagIndex fs) key = Some i"
    "setField (snd (fs ! i)) raw (val ! i) = Ok v"
    "setFields fs (tagIndex fs) fields (val[i := v]) = Ok m"
    by (auto split: option.splits sum.splits)
  have lt: "i < length fs" using i(1) by (simp add: map_of_tagIndex [OF assms(1)])
  have "good_type (snd (fs ! i))" "wf_val raw" using assms(2) lt Cons.prems(1) kr by simp_all
  moreover have "has_type (val ! i) (snd (fs ! i))"
    using list_all2_nthD2 [OF Cons.prems(3), of i] lt by simp
  ultimately have "has_type v (snd (fs ! i))" by (rule setField_type_safe [OF i(2)])
  then have "list_all2 has_type (val[i := v]) (map snd fs)"
    using list_all2_update_cong [OF Cons.prems(3), of v "snd (fs ! i)" i] lt by (simp flip: map_update)
  with Cons i(3) show ?case by simp
qed simp


section \<open>The theorems\<close>

text \<open>C32. \<open>MapToModel\<close> is the inverse of \<open>ModelToMap\<close>, as its comment says: for a row struct whose
  fields have distinct columns, hydrating the map of a well-typed row, visited in any order, gives
  the row back, with nil slices and maps turned into empty ones.\<close>

theorem MapToModel_ModelToMap:
  assumes "all_tagged (struct_fields t)" "list_all2 has_type m (map snd (struct_fields t))"
    and "mset fields = mset (ModelToMap t m)"
  shows "MapToModel fields t = Ok (map empty_nil m)"
proof -
  let ?fs = "struct_fields t" and ?zero = "map (zero_val \<circ> snd) (struct_fields t)"
  have len: "length m = length ?fs" "length (column_names ?fs) = length ?fs"
    using assms(1,2) by (auto simp: all_tagged_def column_names_tagged dest: list_all2_lengthD)
  have zip: "ModelToMap t m = zip (column_names ?fs) m"
    by (rule ModelToMap_zip [OF assms(1) len(1)])
  have keys: "mset (gokeys fields) = mset (column_names ?fs)"
    using arg_cong [OF assms(3), of "image_mset fst"] len by (simp add: zip flip: mset_map)
  have ok: "gomap_ok fields" "set (gokeys fields) = set (column_names ?fs)"
    using mset_eq_imp_distinct_iff [OF keys] mset_eq_setD [OF keys] assms(1)
    by (simp_all add: all_tagged_def)
  have conv: "setField (snd (?fs ! i)) raw (?zero ! i) = Ok (empty_nil (m ! i))"
    if "map_of fields key = Some raw" "i < length ?fs" "column_names ?fs ! i = key" for key raw i
  proof -
    have "(key, raw) \<in> set (zip (column_names ?fs) m)"
      using map_of_SomeD [OF that(1)] mset_eq_setD [OF assms(3)] zip by simp
    then obtain j where "j < length ?fs" "column_names ?fs ! j = key" "m ! j = raw"
      using len by (auto simp: in_set_zip)
    then have "raw = m ! i"
      using that(2,3) assms(1) len by (auto simp: all_tagged_def nth_eq_iff_index_eq)
    moreover have ty: "has_type (m ! i) (snd (?fs ! i))"
      using list_all2_nthD2 [OF assms(2), of i] that(2) by simp
    moreover have "m ! i = GPtr None \<Longrightarrow> ?zero ! i = GPtr None"
      using ty that(2) by (auto split: gtype.splits)
    ultimately show ?thesis by (simp add: setField_typed)
  qed
  have "setFields ?fs (tagIndex ?fs) fields ?zero =
    Ok (map (\<lambda>i. if column_names ?fs ! i \<in> set (gokeys fields) then empty_nil (m ! i) else ?zero ! i)
      [0..<length ?fs])"
    by (rule setFields_Ok [OF assms(1) ok(1)]) (use conv ok(2) in auto)
  also have "\<dots> = Ok (map empty_nil m)"
    using ok(2) len by (auto intro!: nth_equalityI)
  finally show ?thesis by (simp add: MapToModel_def Let_def)
qed

text \<open>An \<open>HA_Chassis\<close> row, used by the witnesses of this theory.\<close>

definition ha_chassis_row :: model where
  "ha_chassis_row = [GStr ''u1'', GStr ''gw1'', GNilMap, GInt 20]"

theorem MapToModel_ModelToMap_witness:
  "MapToModel [(''priority'', GInt 20), (''_uuid'', GStr ''u1''), (''external_ids'', GNilMap),
      (''chassis_name'', GStr ''gw1'')] nb_HAChassis = Ok [GStr ''u1'', GStr ''gw1'', GMap [], GInt 20]"
  using MapToModel_ModelToMap [of nb_HAChassis ha_chassis_row
      "[(''priority'', GInt 20), (''_uuid'', GStr ''u1''), (''external_ids'', GNilMap),
        (''chassis_name'', GStr ''gw1'')]"]
  by (simp add: nb_HAChassis_def ha_chassis_row_def all_tagged_def column_names_def ovsdb_tag_def
      ModelToMap_def add_mset_commute)

text \<open>C33. Type safety of hydration: whatever JSON values an operation carries, the row \<open>MapToModel\<close>
  builds from them has one value per struct field, each of that field's type, and every key of the
  map was a column of the struct.\<close>

theorem MapToModel_type_safe:
  assumes "all_tagged (struct_fields t)" "\<forall>f\<in>set (struct_fields t). good_type (snd f)"
    and "\<forall>kv\<in>set fields. wf_val (snd kv)" "MapToModel fields t = Ok m"
  shows "list_all2 has_type m (map snd (struct_fields t)) \<and>
    set (gokeys fields) \<subseteq> set (column_names (struct_fields t))"
proof
  let ?fs = "struct_fields t"
  have ok: "setFields ?fs (tagIndex ?fs) fields (map (zero_val \<circ> snd) ?fs) = Ok m"
    using assms(4) by (simp add: MapToModel_def Let_def)
  have "list_all2 has_type (map (zero_val \<circ> snd) ?fs) (map snd ?fs)"
    using assms(2) by (auto simp: list_all2_conv_all_nth zero_val_type)
  then show "list_all2 has_type m (map snd ?fs)"
    by (rule setFields_type_safe [OF assms(1-3) ok])
  show "set (gokeys fields) \<subseteq> set (column_names ?fs)"
    by (rule setFields_unknown [OF assms(1) ok])
qed

theorem MapToModel_type_safe_witness:
  "list_all2 has_type [GStr [], GStr [], GNilMap, GInt 7] (map snd (struct_fields nb_HAChassis)) \<and>
    set (gokeys [(''priority'', GFloat 7)]) \<subseteq> set (column_names (struct_fields nb_HAChassis))"
proof (rule MapToModel_type_safe)
  show "MapToModel [(''priority'', GFloat 7)] nb_HAChassis = Ok [GStr [], GStr [], GNilMap, GInt 7]"
    by (simp add: MapToModel_def nb_HAChassis_def tagIndex_def ovsdb_tag_def setField.simps [of TInt]
        int_of_float_def max_int64_def)
qed (simp_all add: nb_HAChassis_def all_tagged_def column_names_def ovsdb_tag_def)

end
