(* ===== verification/Impact.thy ===== *)
theory Impact
  imports NW_Models
begin

text \<open>
  \<^verbatim>\<open>internal/impact\<close>: the impact tree of a row about to be deleted, obtained by walking the reference
  graph of the northbound database, then looking for rows that refer to the deleted one and for
  the southbound rows that realise it.

  The row caches of the OVSDB clients are parameters: \<open>db_cache\<close> answers \<^verbatim>\<open>Get\<close> by table and UUID and
  \<^verbatim>\<open>List\<close> by table.  \<^verbatim>\<open>visited\<close> is the list of its keys.  Nothing is assumed of the caches: they may be
  cyclic, inconsistent, or fail.
\<close>

section \<open>Data\<close>

record db_cache =
  dc_get :: "string \<Rightarrow> string \<Rightarrow> model result"
  dc_list :: "string \<Rightarrow> model list result"

datatype RefType = RefStrong | RefWeak | RefReverse | RefCorrelation | RefRoot

definition ref_string :: "RefType \<Rightarrow> string" where
  "ref_string r = (case r of RefStrong \<Rightarrow> ''strong'' | RefWeak \<Rightarrow> ''weak'' | RefReverse \<Rightarrow> ''reverse''
     | RefCorrelation \<Rightarrow> ''correlation'' | RefRoot \<Rightarrow> ''root'')"

record RefEdge =
  re_Column :: string
  re_TargetTable :: string
  re_Type :: RefType

record ReverseRefEdge =
  rr_SourceTable :: string
  rr_Column :: string

datatype ImpactNode = ImpactNode
  (in_Database: string) (in_Table: string) (in_UUID: string) (in_Name: string)
  (in_RefType: RefType) (in_Column: string) (in_Children: "ImpactNode list")

record ImpactSummary =
  is_TotalAffected :: int
  is_ByTable :: "(string, int) gomap"
  is_ByRefType :: "(string, int) gomap"
  is_MaxDepth :: int
  is_Truncated :: bool

record ImpactResult =
  ir_Root :: ImpactNode
  ir_Summary :: ImpactSummary

record Resolver =
  rs_nbClient :: db_cache
  rs_sbClient :: "db_cache option"
  rs_maxDepth :: int
  rs_maxEntities :: int

section \<open>The reference graph\<close>

text \<open>\<^verbatim>\<open>SBCorrelations\<close> maps a table to its \<^verbatim>\<open>DatapathKey\<close>, the only field of \<^verbatim>\<open>SBCorrelationDef\<close>.\<close>

definition NBRefs :: "(string, RefEdge list) gomap" where
  "NBRefs =
    [(''Logical_Switch'',
      [\<lparr>re_Column = ''ports'', re_TargetTable = ''Logical_Switch_Port'', re_Type = RefStrong\<rparr>,
       \<lparr>re_Column = ''acls'', re_TargetTable = ''ACL'', re_Type = RefStrong\<rparr>,
       \<lparr>re_Column = ''qos_rules'', re_TargetTable = ''QoS'', re_Type = RefStrong\<rparr>,
       \<lparr>re_Column = ''forwarding_groups'', re_TargetTable = ''Forwarding_Group'', re_Type = RefStrong\<rparr>,
       \<lparr>re_Column = ''load_balancer_group'', re_TargetTable = ''Load_Balancer_Group'', re_Type = RefStrong\<rparr>,
       \<lparr>re_Column = ''load_balancer'', re_TargetTable = ''Load_Balancer'', re_Type = RefWeak\<rparr>,
       \<lparr>re_Column = ''dns_records'', re_TargetTable = ''DNS'', re_Type = RefWeak\<rparr>,
       \<lparr>re_Column = ''copp'', re_TargetTable = ''Copp'', re_Type = RefWeak\<rparr>]),
     (''Logical_Router'',
      [\<lparr>re_Column = ''ports'', re_TargetTable = ''Logical_Router_Port'', re_Type = RefStrong\<rparr>,
       \<lparr>re_Column = ''nat'', re_TargetTable = ''NAT'', re_Type = RefStrong\<rparr>,
       \<lparr>re_Column = ''policies'', re_TargetTable = ''Logical_Router_Policy'', re_Type = RefStrong\<rparr>,
       \<lparr>re_Column = ''static_routes'', re_TargetTable = ''Logical_Router_Static_Route'', re_Type = RefStrong\<rparr>,
       \<lparr>re_Column = ''load_balancer_group'', re_TargetTable = ''Load_Balancer_Group'', re_Type = RefStrong\<rparr>,
       \<lparr>re_Column = ''load_balancer'', re_TargetTable = ''Load_Balancer'', re_Type = RefWeak\<rparr>,
       \<lparr>re_Column = ''copp'', re_TargetTable = ''Copp'', re_Type = RefWeak\<rparr>]),
     (''Logical_Switch_Port'',
      [\<lparr>re_Column = ''ha_chassis_group'', re_TargetTable = ''HA_Chassis_Group'', re_Type = RefStrong\<rparr>]),
     (''Logical_Router_Port'',
      [\<lparr>re_Column = ''gateway_chassis'', re_TargetTable = ''Gateway_Chassis'', re_Type = RefStrong\<rparr>,
       \<lparr>re_Column = ''ha_chassis_group'', re_TargetTable = ''HA_Chassis_Group'', re_Type = RefStrong\<rparr>]),
     (''HA_Chassis_Group'',
      [\<lparr>re_Column = ''ha_chassis'', re_TargetTable = ''HA_Chassis'', re_Type = RefStrong\<rparr>]),
     (''Port_Group'',
      [\<lparr>re_Column = ''acls'', re_TargetTable = ''ACL'', re_Type = RefStrong\<rparr>,
       \<lparr>re_Column = ''ports'', re_TargetTable = ''Logical_Switch_Port'', re_Type = RefWeak\<rparr>]),
     (''Load_Balancer'',
      [\<lparr>re_Column = ''health_check'', re_TargetTable = ''Load_Balancer_Health_Check'', re_Type = RefStrong\<rparr>]),
     (''Load_Balancer_Group'',
      [\<lparr>re_Column = ''load_balancer'', re_TargetTable = ''Load_Balancer'', re_Type = RefWeak\<rparr>])]"

definition ReverseRefs :: "(string, ReverseRefEdge list) gomap" where
  "ReverseRefs =
    [(''Logical_Switch_Port'', [\<lparr>rr_SourceTable = ''Port_Group'', rr_Column = ''ports''\<rparr>]),
     (''Load_Balancer'', [\<lparr>rr_SourceTable = ''Logical_Switch'', rr_Column = ''load_balancer''\<rparr>,
       \<lparr>rr_SourceTable = ''Logical_Router'', rr_Column = ''load_balancer''\<rparr>,
       \<lparr>rr_SourceTable = ''Load_Balancer_Group'', rr_Column = ''load_balancer''\<rparr>]),
     (''DHCP_Options'', [\<lparr>rr_SourceTable = ''Logical_Switch_Port'', rr_Column = ''dhcpv4_options''\<rparr>,
       \<lparr>rr_SourceTable = ''Logical_Switch_Port'', rr_Column = ''dhcpv6_options''\<rparr>]),
     (''Address_Set'', [\<lparr>rr_SourceTable = ''NAT'', rr_Column = ''allowed_ext_ips''\<rparr>,
       \<lparr>rr_SourceTable = ''NAT'', rr_Column = ''exempted_ext_ips''\<rparr>]),
     (''DNS'', [\<lparr>rr_SourceTable = ''Logical_Switch'', rr_Column = ''dns_records''\<rparr>])]"

definition SBCorrelations :: "(string, string) gomap" where
  "SBCorrelations = [(''Logical_Switch'', ''logical-switch''), (''Logical_Router'', ''logical-router'')]"

definition NBModelTypes :: "(string, gtype) gomap" where
  "NBModelTypes =
    [(''Logical_Switch'', nb_LogicalSwitch),
     (''Logical_Switch_Port'', nb_LogicalSwitchPort),
     (''Logical_Router'', nb_LogicalRouter),
     (''Logical_Router_Port'', nb_LogicalRouterPort),
     (''ACL'', nb_ACL),
     (''NAT'', nb_NAT),
     (''Address_Set'', nb_AddressSet),
     (''Port_Group'', nb_PortGroup),
     (''Load_Balancer'', nb_LoadBalancer),
     (''Load_Balancer_Group'', nb_LoadBalancerGroup),
     (''Load_Balancer_Health_Check'', nb_LoadBalancerHealthCheck),
     (''Logical_Router_Static_Route'', nb_LogicalRouterStaticRoute),
     (''Logical_Router_Policy'', nb_LogicalRouterPolicy),
     (''DHCP_Options'', nb_DHCPOptions),
     (''DNS'', nb_DNS),
     (''QoS'', nb_QoS),
     (''Forwarding_Group'', nb_ForwardingGroup),
     (''Gateway_Chassis'', nb_GatewayChassis),
     (''HA_Chassis_Group'', nb_HAChassisGroup),
     (''HA_Chassis'', nb_HAChassis),
     (''Static_MAC_Binding'', nb_StaticMACBinding),
     (''Copp'', nb_Copp)]"

definition SBModelTypes :: "(string, gtype) gomap" where
  "SBModelTypes =
    [(''Datapath_Binding'', sb_DatapathBinding),
     (''Port_Binding'', sb_PortBinding)]"

section \<open>Reading rows\<close>

definition NewResolver :: "db_cache \<Rightarrow> db_cache option \<Rightarrow> Resolver" where
  "NewResolver nbClient sbClient =
    \<lparr>rs_nbClient = nbClient, rs_sbClient = sbClient, rs_maxDepth = 5, rs_maxEntities = 1000\<rparr>"

definition SetLimits :: "int \<Rightarrow> int \<Rightarrow> Resolver \<Rightarrow> Resolver" where
  "SetLimits maxDepth maxEntities r =
    (let r = (if maxDepth > 0 then r\<lparr>rs_maxDepth := maxDepth\<rparr> else r)
     in if maxEntities > 0 then r\<lparr>rs_maxEntities := maxEntities\<rparr> else r)"

definition modelAndClient :: "Resolver \<Rightarrow> string \<Rightarrow> string \<Rightarrow> (gtype \<times> db_cache) result" where
  "modelAndClient r db table =
    (if db = ''nb'' then
       (case map_of NBModelTypes table of
          None \<Rightarrow> Err (Errorf ''unknown NB table %q'' [AStr table])
        | Some t \<Rightarrow> Ok (t, rs_nbClient r))
     else if db = ''sb'' then
       (case map_of SBModelTypes table of
          None \<Rightarrow> Err (Errorf ''unknown SB table %q'' [AStr table])
        | Some t \<Rightarrow> (case rs_sbClient r of
             None \<Rightarrow> Err (Errorf ''SB client not available'' [])
           | Some c \<Rightarrow> Ok (t, c)))
     else Err (Errorf ''unknown database %q'' [AStr db]))"

definition readEntity :: "Resolver \<Rightarrow> string \<Rightarrow> string \<Rightarrow> string \<Rightarrow> row_map result" where
  "readEntity r db table uuid =
    (case modelAndClient r db table of
       Err e \<Rightarrow> Err e
     | Ok (t, c) \<Rightarrow>
         (case dc_get c table uuid of
            Err e \<Rightarrow> Err (Wrapf ''row not found: %w'' [] e)
          | Ok m \<Rightarrow> Ok (ModelToMap t m)))"

text \<open>A \<^verbatim>\<open>[]string\<close> is a \<open>GSlice\<close> of strings.\<close>

definition str_elems :: "gval list \<Rightarrow> string list" where
  "str_elems vs = concat (map (\<lambda>v. case v of GStr s \<Rightarrow> [s] | _ \<Rightarrow> []) vs)"

definition extractUUIDs :: "row_map \<Rightarrow> string \<Rightarrow> string list" where
  "extractUUIDs flds column =
    (case map_of flds column of
       Some (GSlice vs) \<Rightarrow> str_elems vs
     | Some (GPtr (Some (GStr s))) \<Rightarrow> if s \<noteq> [] then [s] else []
     | Some (GStr s) \<Rightarrow> if s \<noteq> [] then [s] else []
     | _ \<Rightarrow> [])"

definition valueContainsUUID :: "gval \<Rightarrow> string \<Rightarrow> bool" where
  "valueContainsUUID v uuid =
    (case v of
       GSlice vs \<Rightarrow> list_ex (\<lambda>s. s = uuid) (str_elems vs)
     | GPtr (Some (GStr s)) \<Rightarrow> s = uuid
     | GStr s \<Rightarrow> s = uuid
     | _ \<Rightarrow> False)"

definition extractName :: "row_map \<Rightarrow> string" where
  "extractName flds =
    (case map_of flds ''name'' of
       Some (GStr s) \<Rightarrow> s
     | Some (GPtr (Some (GStr s))) \<Rightarrow> s
     | _ \<Rightarrow> [])"

text \<open>The index of the first field whose tag is the column.\<close>

fun columnIndex :: "struct_type \<Rightarrow> string \<Rightarrow> nat option" where
  "columnIndex [] column = None"
| "columnIndex (f # fs) column =
    (if takeWhile (\<lambda>c. c \<noteq> CHR '','') (fst f) = column then Some 0
     else map_option Suc (columnIndex fs column))"

definition listEntitiesReferencing ::
    "Resolver \<Rightarrow> string \<Rightarrow> string \<Rightarrow> string \<Rightarrow> string \<Rightarrow> row_map list result" where
  "listEntitiesReferencing r db sourceTable column targetUUID =
    (case modelAndClient r db sourceTable of
       Err e \<Rightarrow> Err e
     | Ok (t, c) \<Rightarrow>
         (case dc_list c sourceTable of
            Err e \<Rightarrow> Err e
          | Ok rows \<Rightarrow>
              (case columnIndex (struct_fields t) column of
                 None \<Rightarrow> Ok []
               | Some i \<Rightarrow> Ok (map (ModelToMap t)
                   (filter (\<lambda>row. valueContainsUUID (row ! i) targetUUID) rows)))))"

section \<open>The walk\<close>

text \<open>What a step returns: the children appended to the node, \<^verbatim>\<open>visited\<close> and \<^verbatim>\<open>truncated\<close>.\<close>

type_synonym walk = "ImpactNode list \<times> string list \<times> bool"

text \<open>The two nested loops of \<^verbatim>\<open>resolveForward\<close> visit the pairs of an edge and a child UUID in this order.\<close>

definition forwardWork :: "RefEdge list \<Rightarrow> row_map \<Rightarrow> (RefEdge \<times> string) list" where
  "forwardWork edges flds = concat (map (\<lambda>edge. map (Pair edge) (extractUUIDs flds (re_Column edge))) edges)"

function (sequential) resolveForward ::
    "Resolver \<Rightarrow> string \<Rightarrow> row_map \<Rightarrow> int \<Rightarrow> string list \<Rightarrow> bool \<Rightarrow> walk"
  and forwardLoop :: "Resolver \<Rightarrow> (RefEdge \<times> string) list \<Rightarrow> int \<Rightarrow> string list \<Rightarrow> bool \<Rightarrow> walk"
where
  "resolveForward r table flds depth visited truncated =
    (if depth \<ge> rs_maxDepth r then ([], visited, True)
     else case map_of NBRefs table of
         None \<Rightarrow> ([], visited, truncated)
       | Some edges \<Rightarrow> forwardLoop r (forwardWork edges flds) depth visited truncated)"
| "forwardLoop r [] depth visited truncated = ([], visited, truncated)"
| "forwardLoop r ((edge, childUUID) # work) depth visited truncated =
    (if childUUID \<in> set visited \<or> int (length visited) \<ge> rs_maxEntities r
     then forwardLoop r work depth visited (truncated \<or> int (length visited) \<ge> rs_maxEntities r)
     else
       (let visited = List.insert childUUID visited
        in case readEntity r ''nb'' (re_TargetTable edge) childUUID of
             Err e \<Rightarrow> forwardLoop r work depth visited truncated
           | Ok childFields \<Rightarrow>
               (let (grandchildren, visited, truncated) =
                      resolveForward r (re_TargetTable edge) childFields (depth + 1) visited truncated;
                    child = ImpactNode ''nb'' (re_TargetTable edge) childUUID (extractName childFields)
                      (re_Type edge) (re_Column edge) grandchildren;
                    (children, visited, truncated) = forwardLoop r work depth visited truncated
                in (child # children, visited, truncated))))"
  by pat_completeness auto
termination
  by (relation "measures [\<lambda>x. case x of
        Inl (r, table, flds, depth, visited, truncated) \<Rightarrow> 2 * nat (rs_maxDepth r - depth)
      | Inr (r, work, depth, visited, truncated) \<Rightarrow> max 1 (2 * nat (rs_maxDepth r - depth) - 1),
      \<lambda>x. case x of Inl _ \<Rightarrow> 0 | Inr (r, work, depth, visited, truncated) \<Rightarrow> length work]")
    auto

declare resolveForward.simps [simp del] forwardLoop.simps [simp del]

text \<open>The rows one reverse edge contributes; an exhausted budget returns from the whole function, which
  the last component of the result says.\<close>

fun reverseRows :: "Resolver \<Rightarrow> ReverseRefEdge \<Rightarrow> row_map list \<Rightarrow> string list \<Rightarrow> bool \<Rightarrow> walk \<times> bool" where
  "reverseRows r edge [] visited truncated = (([], visited, truncated), False)"
| "reverseRows r edge (m # matches) visited truncated =
    (let mUUID = (case map_of m ''_uuid'' of Some (GStr s) \<Rightarrow> s | _ \<Rightarrow> [])
     in if mUUID = [] \<or> mUUID \<in> set visited then reverseRows r edge matches visited truncated
        else if int (length visited) \<ge> rs_maxEntities r then (([], visited, True), True)
        else
          (let visited = List.insert mUUID visited;
               child = ImpactNode ''nb'' (rr_SourceTable edge) mUUID (extractName m) RefReverse (rr_Column edge) [];
               ((children, visited, truncated), stop) = reverseRows r edge matches visited truncated
           in ((child # children, visited, truncated), stop)))"

fun reverseEdges :: "Resolver \<Rightarrow> string \<Rightarrow> ReverseRefEdge list \<Rightarrow> string list \<Rightarrow> bool \<Rightarrow> walk" where
  "reverseEdges r uuid [] visited truncated = ([], visited, truncated)"
| "reverseEdges r uuid (edge # edges) visited truncated =
    (case listEntitiesReferencing r ''nb'' (rr_SourceTable edge) (rr_Column edge) uuid of
       Err e \<Rightarrow> reverseEdges r uuid edges visited truncated
     | Ok matches \<Rightarrow>
         (let ((children, visited, truncated), stop) = reverseRows r edge matches visited truncated
          in if stop then (children, visited, truncated)
             else let (more, visited, truncated) = reverseEdges r uuid edges visited truncated
                  in (children @ more, visited, truncated)))"

definition resolveReverse :: "Resolver \<Rightarrow> string \<Rightarrow> string \<Rightarrow> string list \<Rightarrow> bool \<Rightarrow> walk" where
  "resolveReverse r table uuid visited truncated =
    (case map_of ReverseRefs table of
       None \<Rightarrow> ([], visited, truncated)
     | Some edges \<Rightarrow> reverseEdges r uuid edges visited truncated)"

text \<open>Columns of the southbound rows: a string, and an entry of a string map (absent keys and nil maps
  read as the empty string).\<close>

definition row_str :: "gtype \<Rightarrow> model \<Rightarrow> string \<Rightarrow> string" where
  "row_str t m column = (case map_of (ModelToMap t m) column of Some (GStr s) \<Rightarrow> s | _ \<Rightarrow> [])"

definition row_map_str :: "gtype \<Rightarrow> model \<Rightarrow> string \<Rightarrow> string \<Rightarrow> string" where
  "row_map_str t m column key = (case map_of (ModelToMap t m) column of
      Some (GMap kvs) \<Rightarrow> (case map_of kvs key of Some (GStr s) \<Rightarrow> s | _ \<Rightarrow> [])
    | _ \<Rightarrow> [])"

fun bindingNodes :: "Resolver \<Rightarrow> model list \<Rightarrow> string list \<Rightarrow> bool \<Rightarrow> walk" where
  "bindingNodes r [] visited truncated = ([], visited, truncated)"
| "bindingNodes r (pb # pbs) visited truncated =
    (if int (length visited) \<ge> rs_maxEntities r then ([], visited, True)
     else
       (let uuid = row_str sb_PortBinding pb ''_uuid'';
            node = ImpactNode ''sb'' ''Port_Binding'' uuid (row_str sb_PortBinding pb ''logical_port'')
              RefCorrelation [] [];
            (nodes, visited, truncated) = bindingNodes r pbs (List.insert uuid visited) truncated
        in (node # nodes, visited, truncated)))"

fun datapathNodes :: "Resolver \<Rightarrow> db_cache \<Rightarrow> model list \<Rightarrow> string list \<Rightarrow> bool \<Rightarrow> walk" where
  "datapathNodes r sb [] visited truncated = ([], visited, truncated)"
| "datapathNodes r sb (dp # dps) visited truncated =
    (if int (length visited) \<ge> rs_maxEntities r then ([], visited, True)
     else
       (let dpUUID = row_str sb_DatapathBinding dp ''_uuid'';
            visited = List.insert dpUUID visited;
            (bindings, visited, truncated) =
              (case dc_list sb ''Port_Binding'' of
                 Err e \<Rightarrow> ([], visited, truncated)
               | Ok pbs \<Rightarrow> bindingNodes r (filter (\<lambda>pb. row_str sb_PortBinding pb ''datapath'' = dpUUID) pbs)
                             visited truncated);
            node = ImpactNode ''sb'' ''Datapath_Binding'' dpUUID [] RefCorrelation [] bindings;
            (nodes, visited, truncated) = datapathNodes r sb dps visited truncated
        in (node # nodes, visited, truncated)))"

definition resolveSBCorrelation :: "Resolver \<Rightarrow> string \<Rightarrow> string \<Rightarrow> string list \<Rightarrow> bool \<Rightarrow> walk" where
  "resolveSBCorrelation r table uuid visited truncated =
    (case rs_sbClient r of
       None \<Rightarrow> ([], visited, truncated)
     | Some sb \<Rightarrow>
         (case map_of SBCorrelations table of
            None \<Rightarrow> ([], visited, truncated)
          | Some dpKey \<Rightarrow>
              (case dc_list sb ''Datapath_Binding'' of
                 Err e \<Rightarrow> ([], visited, truncated)
               | Ok dps \<Rightarrow> datapathNodes r sb
                   (filter (\<lambda>dp. row_map_str sb_DatapathBinding dp ''external_ids'' dpKey = uuid) dps)
                   visited truncated)))"

section \<open>The summary and the whole analysis\<close>

fun walkSummary :: "ImpactNode \<Rightarrow> int \<Rightarrow> ImpactSummary \<Rightarrow> ImpactSummary" where
  "walkSummary (ImpactNode db table uuid name ref column children) depth s =
    (let s = (if depth > is_MaxDepth s then s\<lparr>is_MaxDepth := depth\<rparr> else s);
         s = (if ref \<noteq> RefRoot
              then s\<lparr>is_TotalAffected := is_TotalAffected s + 1, is_ByTable := bump table (is_ByTable s),
                     is_ByRefType := bump (ref_string ref) (is_ByRefType s)\<rparr>
              else s)
     in fold (\<lambda>child. walkSummary child (depth + 1)) children s)"

definition computeSummary :: "ImpactNode \<Rightarrow> bool \<Rightarrow> ImpactSummary" where
  "computeSummary rootNode truncated =
    walkSummary rootNode 0 \<lparr>is_TotalAffected = 0, is_ByTable = [], is_ByRefType = [], is_MaxDepth = 0,
      is_Truncated = truncated\<rparr>"

definition ErrUnsupportedDB :: error where
  "ErrUnsupportedDB = ErrOther ''impact analysis is only supported for NB entities''"

definition ErrUnknownTable :: error where
  "ErrUnknownTable = ErrOther ''unknown table''"

text \<open>The walk of \<open>Resolve\<close> below the root: forward, reverse, then southbound, threading \<^verbatim>\<open>visited\<close>.\<close>

definition resolveChildren :: "Resolver \<Rightarrow> string \<Rightarrow> string \<Rightarrow> row_map \<Rightarrow> walk" where
  "resolveChildren r table uuid flds =
    (let (forward, visited, truncated) = resolveForward r table flds 0 [uuid] False;
         (reverse, visited, truncated) = resolveReverse r table uuid visited truncated;
         (southbound, visited, truncated) = resolveSBCorrelation r table uuid visited truncated
     in (forward @ reverse @ southbound, visited, truncated))"

definition Resolve :: "Resolver \<Rightarrow> string \<Rightarrow> string \<Rightarrow> string \<Rightarrow> ImpactResult result" where
  "Resolve r db table uuid =
    (if db \<noteq> ''nb'' then Err ErrUnsupportedDB
     else case map_of NBModelTypes table of
         None \<Rightarrow> Err (Wrapf ''%w: %q'' [AStr table] ErrUnknownTable)
       | Some _ \<Rightarrow>
           (case readEntity r db table uuid of
              Err e \<Rightarrow> Err (Wrapf ''entity not found: %w'' [] e)
            | Ok flds \<Rightarrow>
                (let (children, visited, truncated) = resolveChildren r table uuid flds;
                     rootNode = ImpactNode db table uuid (extractName flds) RefRoot [] children
                 in Ok \<lparr>ir_Root = rootNode, ir_Summary = computeSummary rootNode truncated\<rparr>)))"

section \<open>The walk is bounded and visits each row once\<close>

fun nodes :: "ImpactNode \<Rightarrow> ImpactNode list" where
  "nodes (ImpactNode db table uuid name ref column children) =
    ImpactNode db table uuid name ref column children # concat (map nodes children)"

abbreviation tree_nodes :: "ImpactNode list \<Rightarrow> ImpactNode list" where
  "tree_nodes ns \<equiv> concat (map nodes ns)"

abbreviation tree_uuids :: "ImpactNode list \<Rightarrow> string list" where
  "tree_uuids ns \<equiv> map in_UUID (tree_nodes ns)"

text \<open>What a northbound step of the walk does: \<^verbatim>\<open>visited\<close> only grows, never beyond the budget, every new
  node is a newly visited row, no row becomes a node twice, and truncation is never forgotten.\<close>

definition walk_ok :: "Resolver \<Rightarrow> string list \<Rightarrow> bool \<Rightarrow> walk \<Rightarrow> bool" where
  "walk_ok r v tr w = (case w of (cs, v', tr') \<Rightarrow>
     distinct v' \<and> set v \<subseteq> set v' \<and> int (length v') \<le> max (int (length v)) (rs_maxEntities r) \<and>
     distinct (tree_uuids cs) \<and> set (tree_uuids cs) \<subseteq> set v' - set v \<and>
     (\<forall>n \<in> set (tree_nodes cs). in_Database n = ''nb'') \<and> (tr \<longrightarrow> tr'))"

lemma walk_ok_Nil: "distinct v \<Longrightarrow> (tr \<longrightarrow> tr') \<Longrightarrow> walk_ok r v tr ([], v, tr')"
  by (simp add: walk_ok_def)

lemma walk_ok_append:
  assumes "walk_ok r v tr (cs, v', tr')" "walk_ok r v' tr' (ds, v'', tr'')"
  shows "walk_ok r v tr (cs @ ds, v'', tr'')"
proof -
  have a: "set v \<subseteq> set v'" "int (length v') \<le> max (int (length v)) (rs_maxEntities r)"
    "distinct (tree_uuids cs)" "set (tree_uuids cs) \<subseteq> set v' - set v"
    "\<forall>n \<in> set (tree_nodes cs). in_Database n = ''nb''" "tr \<longrightarrow> tr'"
    using assms(1) unfolding walk_ok_def prod.case by blast+
  have b: "distinct v''" "set v' \<subseteq> set v''" "int (length v'') \<le> max (int (length v')) (rs_maxEntities r)"
    "distinct (tree_uuids ds)" "set (tree_uuids ds) \<subseteq> set v'' - set v'"
    "\<forall>n \<in> set (tree_nodes ds). in_Database n = ''nb''" "tr' \<longrightarrow> tr''"
    using assms(2) unfolding walk_ok_def prod.case by blast+
  have "distinct (tree_uuids (cs @ ds))" "set (tree_uuids (cs @ ds)) \<subseteq> set v'' - set v"
    unfolding map_append concat_append distinct_append set_append using a(1,3,4) b(2,4,5) by blast+
  moreover have "\<forall>n \<in> set (tree_nodes (cs @ ds)). in_Database n = ''nb''"
    unfolding map_append concat_append set_append using a(5) b(6) by blast
  moreover have "set v \<subseteq> set v''" "int (length v'') \<le> max (int (length v)) (rs_maxEntities r)" "tr \<longrightarrow> tr''"
    using a(1,2,6) b(2,3,7) by auto
  ultimately show ?thesis using b(1) by (simp only: walk_ok_def prod.case)
qed

lemma walk_ok_skip:
  assumes "u \<notin> set v" "int (length v) < rs_maxEntities r" "walk_ok r (List.insert u v) tr w"
  shows "walk_ok r v tr w"
  using assms by (auto simp: walk_ok_def List.insert_def)

lemma walk_ok_node:
  assumes "u \<notin> set v" "int (length v) < rs_maxEntities r" "walk_ok r (List.insert u v) tr (cs, v', tr')"
  shows "walk_ok r v tr ([ImpactNode ''nb'' t u n rf c cs], v', tr')"
  using assms by (auto simp: walk_ok_def List.insert_def)

lemma walk_ok_Cons:
  assumes "walk_ok r v tr ([c], v', tr')" "walk_ok r v' tr' (ds, v'', tr'')"
  shows "walk_ok r v tr (c # ds, v'', tr'')"
  using walk_ok_append [OF assms] by simp

lemma walk_ok_distinct: "walk_ok r v tr (cs, v', tr') \<Longrightarrow> distinct v'"
  by (simp add: walk_ok_def)

lemma forward_walk_ok:
  "distinct v \<Longrightarrow> walk_ok r v tr (resolveForward r table flds depth v tr)"
  "distinct v \<Longrightarrow> walk_ok r v tr (forwardLoop r work depth v tr)"
proof (induction r table flds depth v tr and r work depth v tr rule: resolveForward_forwardLoop.induct)
  case (1 r table flds depth visited truncated)
  then show ?case
    by (auto simp: resolveForward.simps [of r table] walk_ok_Nil split: option.splits)
next
  case (2 r depth visited truncated)
  then show ?case by (simp add: forwardLoop.simps walk_ok_Nil)
next
  case (3 r edge u work depth v tr)
  show ?case
  proof (cases "u \<in> set v \<or> int (length v) \<ge> rs_maxEntities r")
    case True
    with 3 show ?thesis
      by (auto simp: forwardLoop.simps walk_ok_def split: prod.splits)
  next
    case False
    let ?v = "List.insert u v"
    show ?thesis
    proof (cases "readEntity r ''nb'' (re_TargetTable edge) u")
      case (Inl e)
      have "walk_ok r ?v tr (forwardLoop r work depth ?v tr)"
        using 3(2) [OF False refl Inl] 3(5) by simp
      with False Inl show ?thesis
        using walk_ok_skip [of u v r tr] by (simp add: forwardLoop.simps)
    next
      case (Inr f)
      obtain gcs v1 tr1 where g: "resolveForward r (re_TargetTable edge) f (depth + 1) ?v tr = (gcs, v1, tr1)"
        by (metis prod_cases3)
      obtain cs v2 tr2 where c: "forwardLoop r work depth v1 tr1 = (cs, v2, tr2)"
        by (metis prod_cases3)
      have "walk_ok r ?v tr (gcs, v1, tr1)"
        using 3(3) [OF False refl Inr] 3(5) g by simp
      then have node: "walk_ok r v tr ([ImpactNode ''nb'' (re_TargetTable edge) u (extractName f) (re_Type edge)
          (re_Column edge) gcs], v1, tr1)" and v1: "distinct v1"
        using False by (auto intro: walk_ok_node walk_ok_distinct)
      have "walk_ok r v1 tr1 (cs, v2, tr2)"
        using 3(4) [OF False refl Inr g [symmetric] refl refl refl] v1 c by simp
      from walk_ok_Cons [OF node this] show ?thesis
        using False Inr g c by (simp add: forwardLoop.simps)
    qed
  qed
qed

lemma reverseRows_walk_ok:
  "distinct v \<Longrightarrow> walk_ok r v tr (fst (reverseRows r edge ms v tr))"
proof (induction r edge ms v tr rule: reverseRows.induct)
  case (2 r edge m ms v tr)
  let ?u = "case map_of m ''_uuid'' of Some (GStr s) \<Rightarrow> s | _ \<Rightarrow> []"
  show ?case
  proof (cases "?u = [] \<or> ?u \<in> set v \<or> int (length v) \<ge> rs_maxEntities r")
    case True
    with 2 show ?thesis by (auto simp: walk_ok_Nil)
  next
    case False
    obtain cs v' tr' stop where c: "reverseRows r edge ms (List.insert ?u v) tr = ((cs, v', tr'), stop)"
      by (metis prod.exhaust)
    have "walk_ok r v tr ([ImpactNode ''nb'' (rr_SourceTable edge) ?u (extractName m) RefReverse
        (rr_Column edge) []], List.insert ?u v, tr)"
      using False 2(3) by (intro walk_ok_node walk_ok_Nil) auto
    moreover have "walk_ok r (List.insert ?u v) tr (cs, v', tr')"
      using 2(2) [OF refl, of "List.insert ?u v"] False 2(3) c by simp
    ultimately have "walk_ok r v tr (ImpactNode ''nb'' (rr_SourceTable edge) ?u (extractName m) RefReverse
        (rr_Column edge) [] # cs, v', tr')"
      by (rule walk_ok_Cons)
    then show ?thesis using False c by simp
  qed
qed (simp add: walk_ok_Nil)

lemma reverseEdges_walk_ok:
  "distinct v \<Longrightarrow> walk_ok r v tr (reverseEdges r uuid edges v tr)"
proof (induction edges arbitrary: v tr)
  case (Cons edge edges)
  show ?case
  proof (cases "listEntitiesReferencing r ''nb'' (rr_SourceTable edge) (rr_Column edge) uuid")
    case (Inr ms)
    obtain cs v' tr' stop where c: "reverseRows r edge ms v tr = ((cs, v', tr'), stop)"
      by (metis prod.exhaust)
    obtain ds v'' tr'' where d: "reverseEdges r uuid edges v' tr' = (ds, v'', tr'')"
      by (metis prod_cases3)
    have w: "walk_ok r v tr (cs, v', tr')"
      using reverseRows_walk_ok [OF Cons.prems, of r tr edge ms] c by simp
    then have "walk_ok r v' tr' (ds, v'', tr'')"
      using Cons.IH [OF walk_ok_distinct [OF w], of tr'] d by simp
    from walk_ok_append [OF w this] w show ?thesis
      using Inr c d by simp
  qed (use Cons in simp)
qed (simp add: walk_ok_Nil)

lemma resolveReverse_walk_ok: "distinct v \<Longrightarrow> walk_ok r v tr (resolveReverse r table uuid v tr)"
  by (simp add: resolveReverse_def walk_ok_Nil reverseEdges_walk_ok split: option.splits)

section \<open>Where the nodes come from\<close>

text \<open>A forward child is a row of a column that \<open>NBRefs\<close> lists for its parent's table.\<close>

definition forward_child :: "string \<Rightarrow> row_map \<Rightarrow> ImpactNode \<Rightarrow> bool" where
  "forward_child table flds c = (\<exists>edges e. map_of NBRefs table = Some edges \<and> e \<in> set edges \<and>
     in_UUID c \<in> set (extractUUIDs flds (re_Column e)) \<and> in_Table c = re_TargetTable e \<and>
     in_RefType c = re_Type e \<and> in_Column c = re_Column e)"

definition node_sound :: "Resolver \<Rightarrow> ImpactNode \<Rightarrow> bool" where
  "node_sound r n = (\<exists>flds. readEntity r ''nb'' (in_Table n) (in_UUID n) = Ok flds \<and>
     in_Name n = extractName flds \<and> (\<forall>c \<in> set (in_Children n). forward_child (in_Table n) flds c))"

definition work_child :: "(RefEdge \<times> string) list \<Rightarrow> ImpactNode \<Rightarrow> bool" where
  "work_child work c = (\<exists>e. (e, in_UUID c) \<in> set work \<and> in_Table c = re_TargetTable e \<and>
     in_RefType c = re_Type e \<and> in_Column c = re_Column e)"

lemma work_forward_child:
  "map_of NBRefs table = Some edges \<Longrightarrow> work_child (forwardWork edges flds) c \<Longrightarrow> forward_child table flds c"
  by (auto simp: work_child_def forwardWork_def forward_child_def)

lemma forward_sound:
  "(\<forall>c \<in> set (fst (resolveForward r table flds depth v tr)). forward_child table flds c) \<and>
   (\<forall>n \<in> set (tree_nodes (fst (resolveForward r table flds depth v tr))). node_sound r n)"
  "(\<forall>c \<in> set (fst (forwardLoop r work depth v tr)). work_child work c) \<and>
   (\<forall>n \<in> set (tree_nodes (fst (forwardLoop r work depth v tr))). node_sound r n)"
proof (induction r table flds depth v tr and r work depth v tr rule: resolveForward_forwardLoop.induct)
  case (1 r table flds depth visited truncated)
  then show ?case
    by (auto simp: resolveForward.simps [of r table] work_forward_child split: option.splits)
next
  case (2 r depth visited truncated)
  show ?case by (simp add: forwardLoop.simps)
next
  case (3 r edge u work depth v tr)
  have mono: "work_child work c \<Longrightarrow> work_child ((edge, u) # work) c" for c
    by (auto simp: work_child_def)
  show "(\<forall>c \<in> set (fst (forwardLoop r ((edge, u) # work) depth v tr)). work_child ((edge, u) # work) c) \<and>
    (\<forall>n \<in> set (tree_nodes (fst (forwardLoop r ((edge, u) # work) depth v tr))). node_sound r n)"
  proof (cases "u \<in> set v \<or> int (length v) \<ge> rs_maxEntities r")
    case True
    with 3(1) mono show ?thesis by (auto simp: forwardLoop.simps)
  next
    case False
    let ?v = "List.insert u v"
    show ?thesis
    proof (cases "readEntity r ''nb'' (re_TargetTable edge) u")
      case (Inl e)
      with 3(2) [OF False refl Inl] False mono show ?thesis by (auto simp: forwardLoop.simps)
    next
      case (Inr f)
      obtain gcs v1 tr1 where g: "resolveForward r (re_TargetTable edge) f (depth + 1) ?v tr = (gcs, v1, tr1)"
        by (metis prod_cases3)
      obtain cs v2 tr2 where c: "forwardLoop r work depth v1 tr1 = (cs, v2, tr2)"
        by (metis prod_cases3)
      note gcs = 3(3) [OF False refl Inr, unfolded g fst_conv]
      note cs = 3(4) [OF False refl Inr g [symmetric] refl refl refl, unfolded c fst_conv]
      let ?n = "ImpactNode ''nb'' (re_TargetTable edge) u (extractName f) (re_Type edge) (re_Column edge) gcs"
      have "fst (forwardLoop r ((edge, u) # work) depth v tr) = ?n # cs"
        using False Inr g c by (simp add: forwardLoop.simps)
      moreover have "node_sound r ?n" "work_child ((edge, u) # work) ?n"
        using gcs Inr by (auto simp: node_sound_def work_child_def)
      ultimately show ?thesis using gcs cs mono by auto
    qed
  qed
qed

section \<open>What an untruncated walk leaves out\<close>

definition refs_closed :: "string list \<Rightarrow> string \<Rightarrow> row_map \<Rightarrow> bool" where
  "refs_closed v table flds = (\<forall>edges. map_of NBRefs table = Some edges \<longrightarrow> snd ` set (forwardWork edges flds) \<subseteq> set v)"

definition walk_complete :: "Resolver \<Rightarrow> string list \<Rightarrow> walk \<Rightarrow> bool" where
  "walk_complete r v w = (case w of (cs, v', tr') \<Rightarrow> \<not> tr' \<longrightarrow>
     (\<forall>n \<in> set (tree_nodes cs). \<forall>flds. readEntity r ''nb'' (in_Table n) (in_UUID n) = Ok flds \<longrightarrow>
        refs_closed v' (in_Table n) flds) \<and>
     (\<forall>u \<in> set v' - set v. u \<in> set (tree_uuids cs) \<or> (\<exists>t e. readEntity r ''nb'' t u = Err e)))"

lemma refs_closed_mono: "refs_closed v t f \<Longrightarrow> set v \<subseteq> set v' \<Longrightarrow> refs_closed v' t f"
  by (auto simp: refs_closed_def)

lemma complete_node:
  assumes "walk_complete r (List.insert u v) (gcs, v1, tr1)" "readEntity r ''nb'' t u = Ok f" "\<not> tr1 \<longrightarrow> refs_closed v1 t f"
  shows "walk_complete r v ([ImpactNode ''nb'' t u n rf c gcs], v1, tr1)"
proof (cases tr1)
  case False
  with assms(1) have
    "\<forall>n \<in> set (tree_nodes gcs). \<forall>f. readEntity r ''nb'' (in_Table n) (in_UUID n) = Ok f \<longrightarrow> refs_closed v1 (in_Table n) f"
    "\<forall>x \<in> set v1 - set (List.insert u v). x \<in> set (tree_uuids gcs) \<or> (\<exists>t e. readEntity r ''nb'' t x = Err e)"
    unfolding walk_complete_def prod.case by blast+
  moreover have "refs_closed v1 t f'" if "readEntity r ''nb'' t u = Ok f'" for f'
    using that assms(2,3) False by simp
  moreover have "set (tree_nodes [ImpactNode ''nb'' t u n rf c gcs]) =
      insert (ImpactNode ''nb'' t u n rf c gcs) (set (tree_nodes gcs))"
    "set (tree_uuids [ImpactNode ''nb'' t u n rf c gcs]) = insert u (set (tree_uuids gcs))"
    by simp_all
  ultimately show ?thesis
    unfolding walk_complete_def prod.case set_insert
    by (simp only: ball_simps insert_iff ImpactNode.sel) blast
qed (simp add: walk_complete_def)

lemma complete_append:
  assumes "walk_complete r v (cs, v1, tr1)" "walk_complete r v1 (ds, v2, tr2)" "set v1 \<subseteq> set v2" "tr1 \<longrightarrow> tr2"
  shows "walk_complete r v (cs @ ds, v2, tr2)"
proof (cases tr2)
  case False
  with assms(1,2,4) have
    "\<forall>n \<in> set (tree_nodes cs). \<forall>f. readEntity r ''nb'' (in_Table n) (in_UUID n) = Ok f \<longrightarrow> refs_closed v1 (in_Table n) f"
    "\<forall>n \<in> set (tree_nodes ds). \<forall>f. readEntity r ''nb'' (in_Table n) (in_UUID n) = Ok f \<longrightarrow> refs_closed v2 (in_Table n) f"
    "\<forall>u \<in> set v1 - set v. u \<in> set (tree_uuids cs) \<or> (\<exists>t e. readEntity r ''nb'' t u = Err e)"
    "\<forall>u \<in> set v2 - set v1. u \<in> set (tree_uuids ds) \<or> (\<exists>t e. readEntity r ''nb'' t u = Err e)"
    unfolding walk_complete_def prod.case by blast+
  with refs_closed_mono [OF _ assms(3)] show ?thesis
    unfolding walk_complete_def prod.case map_append concat_append set_append Un_iff by blast
qed (simp add: walk_complete_def)

lemma complete_skip:
  assumes "walk_complete r (List.insert u v) w" "readEntity r ''nb'' t u = Err e"
  shows "walk_complete r v w"
proof -
  obtain cs v' tr' where w: "w = (cs, v', tr')" by (metis prod_cases3)
  show ?thesis
    using assms unfolding w walk_complete_def prod.case set_insert by blast
qed

lemma walk_ok_mono: "walk_ok r v tr (cs, v', tr') \<Longrightarrow> set v \<subseteq> set v' \<and> (tr \<longrightarrow> tr')"
  by (simp add: walk_ok_def)

lemma forward_complete:
  "distinct v \<Longrightarrow> resolveForward r table flds depth v tr = (cs, v', tr') \<Longrightarrow>
    walk_complete r v (cs, v', tr') \<and> (\<not> tr' \<longrightarrow> refs_closed v' table flds)"
  "distinct v \<Longrightarrow> forwardLoop r work depth v tr = (cs, v', tr') \<Longrightarrow>
    walk_complete r v (cs, v', tr') \<and> (\<not> tr' \<longrightarrow> snd ` set work \<subseteq> set v')"
proof (induction r table flds depth v tr and r work depth v tr arbitrary: cs v' tr' and cs v' tr'
    rule: resolveForward_forwardLoop.induct)
  case (1 r table flds depth visited truncated)
  then show ?case
    by (auto simp: resolveForward.simps [of r table] refs_closed_def walk_complete_def split: option.splits if_splits)
next
  case (2 r depth visited truncated)
  then show ?case by (simp add: forwardLoop.simps walk_complete_def)
next
  case (3 r edge u work depth v tr)
  show ?case
  proof (cases "u \<in> set v \<or> int (length v) \<ge> rs_maxEntities r")
    case True
    let ?tr = "tr \<or> int (length v) \<ge> rs_maxEntities r"
    have loop: "forwardLoop r work depth v ?tr = (cs, v', tr')"
      using 3(6) True by (simp add: forwardLoop.simps)
    have "set v \<subseteq> set v' \<and> (?tr \<longrightarrow> tr')"
      using forward_walk_ok(2) [OF 3(5), of r ?tr work depth] unfolding loop by (rule walk_ok_mono)
    with 3(1) [OF True 3(5) loop] True show ?thesis by auto
  next
    case False
    let ?v = "List.insert u v"
    have dv: "distinct ?v" using 3(5) by simp
    show ?thesis
    proof (cases "readEntity r ''nb'' (re_TargetTable edge) u")
      case (Inl e)
      then have loop: "forwardLoop r work depth ?v tr = (cs, v', tr')"
        using 3(6) False by (simp add: forwardLoop.simps)
      have "set ?v \<subseteq> set v'"
        using walk_ok_mono [OF forward_walk_ok(2) [OF dv, of r tr work depth, unfolded loop]] by simp
      with 3(2) [OF False refl Inl dv loop] complete_skip [OF _ Inl] show ?thesis by auto
    next
      case (Inr f)
      obtain gcs v1 tr1 where g: "resolveForward r (re_TargetTable edge) f (depth + 1) ?v tr = (gcs, v1, tr1)"
        by (metis prod_cases3)
      obtain ds v2 tr2 where c: "forwardLoop r work depth v1 tr1 = (ds, v2, tr2)"
        by (metis prod_cases3)
      note gw = forward_walk_ok(1) [OF dv, of r tr "re_TargetTable edge" f "depth + 1", unfolded g]
      note d1 = walk_ok_distinct [OF gw]
      note cw = walk_ok_mono [OF forward_walk_ok(2) [OF d1, of r tr1 work depth, unfolded c]]
      note gc = 3(3) [OF False refl Inr dv g]
      note cc = 3(4) [OF False refl Inr g [symmetric] refl refl refl d1 c]
      let ?n = "ImpactNode ''nb'' (re_TargetTable edge) u (extractName f) (re_Type edge) (re_Column edge) gcs"
      have out: "cs = ?n # ds" "v' = v2" "tr' = tr2"
        using 3(6) False Inr g c by (simp_all add: forwardLoop.simps)
      have "walk_complete r v ([?n], v1, tr1)"
        using gc Inr by (intro complete_node) auto
      then have "walk_complete r v (?n # ds, v2, tr2)"
        using complete_append [of r v "[?n]" v1 tr1 ds v2 tr2] cc cw by simp
      moreover have "u \<in> set v2" using walk_ok_mono [OF gw] cw by auto
      ultimately show ?thesis using out cc by auto
    qed
  qed
qed

section \<open>Reverse and southbound nodes\<close>

lemma reverseRows_nodes:
  "\<forall>n \<in> set (fst (fst (reverseRows r edge ms v tr))). in_RefType n = RefReverse \<and> in_Children n = []"
  by (induction r edge ms v tr rule: reverseRows.induct) (auto split: prod.splits)

lemma reverseEdges_nodes:
  "\<forall>n \<in> set (fst (reverseEdges r uuid edges v tr)). in_RefType n = RefReverse \<and> in_Children n = []"
proof (induction edges arbitrary: v tr)
  case (Cons edge edges)
  show ?case
  proof (cases "listEntitiesReferencing r ''nb'' (rr_SourceTable edge) (rr_Column edge) uuid")
    case (Inr ms)
    then show ?thesis
      using reverseRows_nodes [of r edge ms v tr] Cons.IH
      by (auto split: prod.splits) (metis fst_conv)+
  qed (use Cons in simp)
qed simp

lemma resolveReverse_nodes:
  "\<forall>n \<in> set (fst (resolveReverse r table uuid v tr)). in_RefType n = RefReverse \<and> in_Children n = []"
  by (simp add: resolveReverse_def reverseEdges_nodes split: option.splits)

lemma bindingNodes_nodes:
  "\<forall>n \<in> set (tree_nodes (fst (bindingNodes r pbs v tr))). in_Database n = ''sb'' \<and> in_RefType n = RefCorrelation"
  by (induction r pbs v tr rule: bindingNodes.induct) (auto split: prod.splits)

lemma datapathNodes_nodes:
  "\<forall>n \<in> set (tree_nodes (fst (datapathNodes r sb dps v tr))). in_Database n = ''sb'' \<and> in_RefType n = RefCorrelation"
proof (induction dps arbitrary: v tr)
  case (Cons dp dps)
  let ?u = "row_str sb_DatapathBinding dp ''_uuid''"
  obtain bs v1 tr1 where b: "(case dc_list sb ''Port_Binding'' of
        Err e \<Rightarrow> ([], List.insert ?u v, tr)
      | Ok pbs \<Rightarrow> bindingNodes r (filter (\<lambda>pb. row_str sb_PortBinding pb ''datapath'' = ?u) pbs)
                    (List.insert ?u v) tr) = (bs, v1, tr1)"
    by (metis prod_cases3)
  have "\<forall>n \<in> set (tree_nodes bs). in_Database n = ''sb'' \<and> in_RefType n = RefCorrelation"
  proof (cases "dc_list sb ''Port_Binding''")
    case (Inr pbs)
    with b show ?thesis
      using bindingNodes_nodes [of r "filter (\<lambda>pb. row_str sb_PortBinding pb ''datapath'' = ?u) pbs" "List.insert ?u v" tr]
      by simp
  qed (use b in simp)
  moreover obtain ns v2 tr2 where n: "datapathNodes r sb dps v1 tr1 = (ns, v2, tr2)"
    by (metis prod_cases3)
  ultimately show ?case
    using Cons.IH [of v1 tr1] b by simp
qed simp

lemma resolveSBCorrelation_nodes:
  "\<forall>n \<in> set (tree_nodes (fst (resolveSBCorrelation r table uuid v tr))).
     in_Database n = ''sb'' \<and> in_RefType n = RefCorrelation"
  using datapathNodes_nodes
  by (simp add: resolveSBCorrelation_def split: option.splits sum.splits del: set_concat)

text \<open>Southbound steps keep what was visited and do not forget a truncation.\<close>

lemma bindingNodes_mono: "snd (snd (bindingNodes r pbs v True))"
  by (induction pbs arbitrary: v) (auto split: prod.splits, metis snd_conv)

lemma datapathNodes_mono: "snd (snd (datapathNodes r sb dps v True))"
proof (induction dps arbitrary: v)
  case (Cons dp dps)
  let ?u = "row_str sb_DatapathBinding dp ''_uuid''"
  obtain bs v1 tr1 where b: "(case dc_list sb ''Port_Binding'' of
        Err e \<Rightarrow> ([], List.insert ?u v, True)
      | Ok pbs \<Rightarrow> bindingNodes r (filter (\<lambda>pb. row_str sb_PortBinding pb ''datapath'' = ?u) pbs)
                    (List.insert ?u v) True) = (bs, v1, tr1)"
    by (metis prod_cases3)
  then have tr1: "tr1"
    using bindingNodes_mono [of r _ "List.insert ?u v"] by (auto split: sum.splits) (metis snd_conv)
  obtain ns v2 tr2 where n: "datapathNodes r sb dps v1 tr1 = (ns, v2, tr2)"
    by (metis prod_cases3)
  then show ?case
    using Cons.IH [of v1] b tr1 by simp
qed simp

lemma resolveSBCorrelation_mono: "tr \<Longrightarrow> snd (snd (resolveSBCorrelation r table uuid v tr))"
  using datapathNodes_mono by (auto simp: resolveSBCorrelation_def split: option.splits sum.splits)

section \<open>Counting\<close>

lemma fold_additive:
  fixes g :: "'s \<Rightarrow> int"
  assumes "\<And>c s. c \<in> set cs \<Longrightarrow> g (h c s) = g s + int (length (filter P (k c)))"
  shows "g (fold h cs s) = g s + int (length (filter P (concat (map k cs))))"
  using assms by (induction cs arbitrary: s) auto

lemma walkSummary_total:
  "is_TotalAffected (walkSummary n depth s) =
    is_TotalAffected s + int (length (filter (\<lambda>x. in_RefType x \<noteq> RefRoot) (nodes n)))"
proof (induction n arbitrary: depth s)
  case (ImpactNode db table uuid name ref column children)
  then show ?case by (auto simp: fold_additive [where g = is_TotalAffected and k = nodes])
qed

lemma walkSummary_by_table:
  "tally t (is_ByTable (walkSummary n depth s)) =
    tally t (is_ByTable s) + int (length (filter (\<lambda>x. in_RefType x \<noteq> RefRoot \<and> in_Table x = t) (nodes n)))"
proof (induction n arbitrary: depth s)
  case (ImpactNode db table uuid name ref column children)
  then show ?case
    by (auto simp: fold_additive [where g = "\<lambda>s. tally t (is_ByTable s)" and k = nodes] tally_bump)
qed

lemma walkSummary_by_ref:
  "tally t (is_ByRefType (walkSummary n depth s)) =
    tally t (is_ByRefType s) + int (length (filter (\<lambda>x. in_RefType x \<noteq> RefRoot \<and> ref_string (in_RefType x) = t) (nodes n)))"
proof (induction n arbitrary: depth s)
  case (ImpactNode db table uuid name ref column children)
  then show ?case
    by (auto simp: fold_additive [where g = "\<lambda>s. tally t (is_ByRefType s)" and k = nodes] tally_bump)
qed

lemma walkSummary_truncated: "is_Truncated (walkSummary n depth s) = is_Truncated s"
proof (induction n arbitrary: depth s)
  case (ImpactNode db table uuid name ref column children)
  have "is_Truncated (fold (\<lambda>child. walkSummary child (depth + 1)) children s') = is_Truncated s'" for s'
    using ImpactNode by (induction children arbitrary: s') auto
  then show ?case by simp
qed

section \<open>The theorems\<close>

lemma Resolve_Ok:
  assumes "Resolve r db table uuid = Ok res"
  obtains flds fs v1 tr1 rs v2 tr2 ss v3 tr3 where
    "db = ''nb''" "readEntity r ''nb'' table uuid = Ok flds"
    "resolveForward r table flds 0 [uuid] False = (fs, v1, tr1)"
    "resolveReverse r table uuid v1 tr1 = (rs, v2, tr2)"
    "resolveSBCorrelation r table uuid v2 tr2 = (ss, v3, tr3)"
    "ir_Root res = ImpactNode ''nb'' table uuid (extractName flds) RefRoot [] (fs @ rs @ ss)"
    "ir_Summary res = computeSummary (ir_Root res) tr3"
proof -
  obtain flds where db: "db = ''nb''" and flds: "readEntity r ''nb'' table uuid = Ok flds"
    using assms by (auto simp: Resolve_def split: if_splits option.splits sum.splits)
  obtain fs v1 tr1 where f: "resolveForward r table flds 0 [uuid] False = (fs, v1, tr1)"
    by (metis prod_cases3)
  obtain rs v2 tr2 where r: "resolveReverse r table uuid v1 tr1 = (rs, v2, tr2)"
    by (metis prod_cases3)
  obtain ss v3 tr3 where s: "resolveSBCorrelation r table uuid v2 tr2 = (ss, v3, tr3)"
    by (metis prod_cases3)
  show ?thesis
    by (rule that [OF db flds f r s])
      (use assms db flds in \<open>auto simp: Resolve_def resolveChildren_def f r s split: option.splits\<close>)
qed

lemma nodes_self: "n \<in> set (nodes n)"
  by (cases n) simp

lemma refs_closed_in:
  "refs_closed v t f \<Longrightarrow> map_of NBRefs t = Some edges \<Longrightarrow> e \<in> set edges \<Longrightarrow>
    u \<in> set (extractUUIDs f (re_Column e)) \<Longrightarrow> u \<in> set v"
  by (force simp: refs_closed_def forwardWork_def)

text \<open>The tree as the forward walk and the rest, which is reverse and southbound nodes only.\<close>

lemma Resolve_shape:
  assumes "Resolve r db table uuid = Ok res"
  obtains flds fs v1 tr1 rest where
    "readEntity r ''nb'' table uuid = Ok flds"
    "resolveForward r table flds 0 [uuid] False = (fs, v1, tr1)"
    "ir_Root res = ImpactNode ''nb'' table uuid (extractName flds) RefRoot [] (fs @ rest)"
    "\<forall>c \<in> set (tree_nodes rest). in_RefType c \<in> {RefReverse, RefCorrelation}"
    "tr1 \<longrightarrow> is_Truncated (ir_Summary res)"
proof -
  obtain flds fs v1 tr1 rs v2 tr2 ss v3 tr3 where
    rd: "readEntity r ''nb'' table uuid = Ok flds" and
    f: "resolveForward r table flds 0 [uuid] False = (fs, v1, tr1)" and
    rv: "resolveReverse r table uuid v1 tr1 = (rs, v2, tr2)" and
    sb: "resolveSBCorrelation r table uuid v2 tr2 = (ss, v3, tr3)" and
    root: "ir_Root res = ImpactNode ''nb'' table uuid (extractName flds) RefRoot [] (fs @ rs @ ss)" and
    sm: "ir_Summary res = computeSummary (ir_Root res) tr3"
    using assms by (rule Resolve_Ok)
  have rs: "\<forall>c \<in> set rs. in_RefType c = RefReverse \<and> in_Children c = []"
    using resolveReverse_nodes [of r table uuid v1 tr1] rv by simp
  then have "tree_nodes rs = rs"
    by (induction rs) (auto, metis nodes.simps concat.simps(1) ImpactNode.collapse list.simps(8))
  moreover have "\<forall>c \<in> set (tree_nodes ss). in_RefType c = RefCorrelation"
    using resolveSBCorrelation_nodes [of r table uuid v2 tr2] unfolding sb fst_conv by blast
  ultimately have "\<forall>c \<in> set (tree_nodes (rs @ ss)). in_RefType c \<in> {RefReverse, RefCorrelation}"
    using rs by auto
  moreover have "tr1 \<longrightarrow> tr2"
    using walk_ok_mono resolveReverse_walk_ok [of v1 r tr1 table uuid] rv
      walk_ok_distinct [of r "[uuid]" False fs v1 tr1] forward_walk_ok(1) [of "[uuid]" r False table flds 0] f
    by fastforce
  then have "tr1 \<longrightarrow> is_Truncated (ir_Summary res)"
    using resolveSBCorrelation_mono [of tr2 r table uuid v2] sb
    by (auto simp: sm computeSummary_def walkSummary_truncated)
  ultimately show ?thesis by (intro that [OF rd f, of "rs @ ss"]) (simp_all add: root)
qed

text \<open>Impact analysis is bounded and walks each row once, whatever the database looks like (cycles
  included): the northbound rows of the tree are pairwise distinct and at most the configured number
  of entities.\<close>

theorem Resolve_bounded:
  assumes "Resolve r db table uuid = Ok res"
  shows "distinct (map in_UUID (filter (\<lambda>n. in_Database n = ''nb'') (nodes (ir_Root res)))) \<and>
    int (length (filter (\<lambda>n. in_Database n = ''nb'') (nodes (ir_Root res)))) \<le> max 1 (rs_maxEntities r)"
proof -
  obtain flds fs v1 tr1 rs v2 tr2 ss v3 tr3 where
    f: "resolveForward r table flds 0 [uuid] False = (fs, v1, tr1)" and
    rv: "resolveReverse r table uuid v1 tr1 = (rs, v2, tr2)" and
    sb: "resolveSBCorrelation r table uuid v2 tr2 = (ss, v3, tr3)" and
    root: "ir_Root res = ImpactNode ''nb'' table uuid (extractName flds) RefRoot [] (fs @ rs @ ss)"
    using assms by (rule Resolve_Ok)
  have fw: "walk_ok r [uuid] False (fs, v1, tr1)"
    using forward_walk_ok(1) [of "[uuid]" r False table flds 0] f by simp
  moreover have "walk_ok r v1 tr1 (rs, v2, tr2)"
    using resolveReverse_walk_ok [OF walk_ok_distinct [OF fw], of r tr1 table uuid] rv by simp
  ultimately have w: "walk_ok r [uuid] False (fs @ rs, v2, tr2)" by (rule walk_ok_append)
  let ?nb = "filter (\<lambda>n. in_Database n = ''nb'')"
  have "?nb (tree_nodes ss) = []"
    using resolveSBCorrelation_nodes [of r table uuid v2 tr2] sb by (auto simp: filter_empty_conv)
  moreover have "?nb (tree_nodes (fs @ rs)) = tree_nodes (fs @ rs)"
    using w unfolding walk_ok_def prod.case by (intro filter_True) blast
  ultimately have nb: "?nb (nodes (ir_Root res)) = ImpactNode ''nb'' table uuid (extractName flds) RefRoot []
      (fs @ rs @ ss) # tree_nodes (fs @ rs)"
    by (simp add: root)
  define us where "us = tree_uuids (fs @ rs)"
  have "distinct us" "set us \<subseteq> set v2 - set [uuid]" "set [uuid] \<subseteq> set v2" "distinct v2"
    "int (length v2) \<le> max (int (length [uuid])) (rs_maxEntities r)"
    using w unfolding walk_ok_def prod.case us_def by blast+
  then have us: "distinct (uuid # us)" "set (uuid # us) \<subseteq> set v2" "distinct v2"
    "int (length v2) \<le> max 1 (rs_maxEntities r)"
    by auto
  then have "length (uuid # us) \<le> length v2"
    by (metis card_mono distinct_card finite_set)
  with us(1,4) show ?thesis unfolding nb us_def by simp
qed

text \<open>Test data: an HA chassis group \<open>h1\<close> whose members are the row \<open>c1\<close> and a missing row \<open>c2\<close>.\<close>

definition sample_nb :: db_cache where
  "sample_nb = \<lparr>dc_get = (\<lambda>t u.
      if t = ''HA_Chassis_Group'' \<and> u = ''h1''
      then Ok [GStr ''h1'', GMap [], GSlice [GStr ''c1'', GStr ''c2''], GStr ''ha'']
      else if t = ''HA_Chassis'' \<and> u = ''c1'' then Ok [GStr ''c1'', GStr ''gw1'', GNilMap, GInt 20]
      else Err ErrNotFound),
    dc_list = (\<lambda>t. Ok [])\<rparr>"

definition sample_result :: ImpactResult where
  "sample_result =
    \<lparr>ir_Root = ImpactNode ''nb'' ''HA_Chassis_Group'' ''h1'' ''ha'' RefRoot []
       [ImpactNode ''nb'' ''HA_Chassis'' ''c1'' [] RefStrong ''ha_chassis'' []],
     ir_Summary = \<lparr>is_TotalAffected = 1, is_ByTable = [(''HA_Chassis'', 1)], is_ByRefType = [(''strong'', 1)],
       is_MaxDepth = 1, is_Truncated = False\<rparr>\<rparr>"

lemma sample_Resolve: "Resolve (NewResolver sample_nb None) ''nb'' ''HA_Chassis_Group'' ''h1'' = Ok sample_result"
  by (simp add: Resolve_def readEntity_def modelAndClient_def NewResolver_def NBModelTypes_def sample_nb_def
      nb_HAChassisGroup_def nb_HAChassis_def ModelToMap_def ovsdb_tag_def resolveChildren_def resolveForward.simps
      forwardLoop.simps NBRefs_def forwardWork_def extractUUIDs_def str_elems_def extractName_def
      resolveReverse_def ReverseRefs_def resolveSBCorrelation_def computeSummary_def bump_def tally_def ref_string_def
      sample_result_def)

theorem Resolve_bounded_witness:
  "distinct (map in_UUID (filter (\<lambda>n. in_Database n = ''nb'') (nodes (ir_Root sample_result)))) \<and>
    int (length (filter (\<lambda>n. in_Database n = ''nb'') (nodes (ir_Root sample_result)))) \<le> max 1 1000"
  using Resolve_bounded [OF sample_Resolve] by (simp add: NewResolver_def)



text \<open>The summary counts the tree: \<^verbatim>\<open>TotalAffected\<close> is the number of nodes below the root, and the
  counts by table and by kind of reference are the numbers of such nodes.\<close>

theorem computeSummary_counts:
  "is_TotalAffected (computeSummary t tr) = int (length (filter (\<lambda>n. in_RefType n \<noteq> RefRoot) (nodes t))) \<and>
   tally k (is_ByTable (computeSummary t tr)) =
     int (length (filter (\<lambda>n. in_RefType n \<noteq> RefRoot \<and> in_Table n = k) (nodes t))) \<and>
   tally k (is_ByRefType (computeSummary t tr)) =
     int (length (filter (\<lambda>n. in_RefType n \<noteq> RefRoot \<and> ref_string (in_RefType n) = k) (nodes t))) \<and>
   is_Truncated (computeSummary t tr) = tr"
  by (simp add: computeSummary_def walkSummary_total walkSummary_by_table walkSummary_by_ref
      walkSummary_truncated, simp add: tally_def)

end
