(* ===== verification/Write_Registry.thy ===== *)
theory Write_Registry
  imports Write_Hydrate Impact
begin

text \<open>
  The data of the write path (\<^verbatim>\<open>internal/write/types.go\<close>) and the registry of writable tables
  (\<^verbatim>\<open>internal/write/registry.go\<close>): which tables may be written, in which database they live, which
  columns are read-only and which tables accept deletions only.  The theorems say what a registry
  returns after a registration and that the default registry is fit for hydration: every
  registered struct has one distinct column per field and only field types \<open>setField\<close> can build.
\<close>

section \<open>Operations and plans\<close>

record WriteOperation =
  op_Action :: string
  op_Table :: string
  op_UUID :: string
  op_Fields :: row_map
  op_Reason :: string

record FieldChange =
  fc_Field :: string
  fc_OldValue :: gval
  fc_NewValue :: gval

record PlanDiff =
  pd_Action :: string
  pd_Table :: string
  pd_UUID :: string
  pd_Before :: row_map
  pd_After :: row_map
  pd_Fields :: "FieldChange list"

record ImpactEntry =
  ie_OperationIndex :: nat
  ie_Result :: ImpactResult

record Plan =
  plan_ID :: string
  plan_CreatedAt :: int
  plan_ExpiresAt :: int
  plan_Operations :: "WriteOperation list"
  plan_Diffs :: "PlanDiff list"
  plan_SnapshotID :: int
  plan_Status :: string
  plan_ApplyToken :: string
  plan_Impact :: "ImpactEntry list"
  plan_Warnings :: "string list"

record AuditEntry =
  ae_ID :: int
  ae_Timestamp :: int
  ae_PlanID :: string
  ae_Actor :: string
  ae_Reason :: string
  ae_Operations :: "WriteOperation list"
  ae_SnapshotID :: int
  ae_Result :: string
  ae_Error :: "error option"

section \<open>The registry\<close>

text \<open>\<^verbatim>\<open>ReadOnlyFields map[string]bool\<close> only ever holds true, so it is the list of its keys.\<close>

record TableSpec =
  ts_Table :: string
  ts_Database :: string
  ts_ModelType :: gtype
  ts_ReadOnlyFields :: "string list"
  ts_DeleteOnly :: bool

type_synonym Registry = "(string, TableSpec) gomap"

definition NewRegistry :: Registry where
  "NewRegistry = []"

definition Register :: "Registry \<Rightarrow> TableSpec \<Rightarrow> Registry" where
  "Register r spec = AList.update (ts_Table spec) spec r"

definition reg_Get :: "Registry \<Rightarrow> string \<Rightarrow> TableSpec result" where
  "reg_Get r table = (case map_of r table of
      None \<Rightarrow> Err (Errorf ''table %q is not writable'' [AStr table])
    | Some spec \<Rightarrow> Ok spec)"

definition reg_Tables :: "Registry \<Rightarrow> string list" where
  "reg_Tables r = gokeys r"

definition RegisterModel :: "gtype \<Rightarrow> Registry \<Rightarrow> string \<Rightarrow> string list \<Rightarrow> Registry" where
  "RegisterModel t r table extraReadOnly =
    Register r \<lparr>ts_Table = table, ts_Database = ''nb'', ts_ModelType = t,
      ts_ReadOnlyFields = ''_uuid'' # extraReadOnly, ts_DeleteOnly = False\<rparr>"

definition RegisterSBModel :: "gtype \<Rightarrow> Registry \<Rightarrow> string \<Rightarrow> Registry" where
  "RegisterSBModel t r table =
    Register r \<lparr>ts_Table = table, ts_Database = ''sb'', ts_ModelType = t,
      ts_ReadOnlyFields = [''_uuid''], ts_DeleteOnly = True\<rparr>"

section \<open>Schemas\<close>

record FieldInfo =
  fi_Name :: string
  fi_Type :: string
  fi_Optional :: bool
  fi_ReadOnly :: bool

record TableSchema =
  sch_Table :: string
  sch_Database :: string
  sch_DeleteOnly :: bool
  sch_Fields :: "FieldInfo list"

fun goTypeToOVSDB :: "gtype \<Rightarrow> string" where
  "goTypeToOVSDB (TPtr t) = goTypeToOVSDB t"
| "goTypeToOVSDB TString = ''string''"
| "goTypeToOVSDB TInt = ''integer''"
| "goTypeToOVSDB TInt64 = ''integer''"
| "goTypeToOVSDB TBool = ''boolean''"
| "goTypeToOVSDB (TSlice t) = ''set<'' @ goTypeToOVSDB t @ ''>''"
| "goTypeToOVSDB (TMap k t) = ''map<'' @ goTypeToOVSDB k @ '','' @ goTypeToOVSDB t @ ''>''"
| "goTypeToOVSDB _ = ''string''"

definition tableSchema :: "TableSpec \<Rightarrow> TableSchema" where
  "tableSchema spec =
    \<lparr>sch_Table = ts_Table spec, sch_Database = ts_Database spec, sch_DeleteOnly = ts_DeleteOnly spec,
     sch_Fields = concat (map (\<lambda>(raw, t). case ovsdb_tag raw of
         None \<Rightarrow> []
       | Some tag \<Rightarrow> [\<lparr>fi_Name = tag, fi_Type = goTypeToOVSDB t, fi_Optional = is_ptr_type t,
                       fi_ReadOnly = (tag \<in> set (ts_ReadOnlyFields spec))\<rparr>])
       (struct_fields (ts_ModelType spec)))\<rparr>"

definition reg_Schema :: "Registry \<Rightarrow> TableSchema list" where
  "reg_Schema r = sort_slice (\<lambda>a b. sch_Table a < sch_Table b) (map (tableSchema \<circ> snd) r)"

definition OVSDBFieldNames :: "gtype \<Rightarrow> string list" where
  "OVSDBFieldNames t = column_names (struct_fields t)"

definition DefaultRegistry :: Registry where
  "DefaultRegistry =
    (let r = NewRegistry;
         r = RegisterModel nb_LogicalSwitch r ''Logical_Switch'' [];
         r = RegisterModel nb_LogicalSwitchPort r ''Logical_Switch_Port'' [];
         r = RegisterModel nb_LogicalRouter r ''Logical_Router'' [];
         r = RegisterModel nb_LogicalRouterPort r ''Logical_Router_Port'' [];
         r = RegisterModel nb_ACL r ''ACL'' [];
         r = RegisterModel nb_NAT r ''NAT'' [];
         r = RegisterModel nb_AddressSet r ''Address_Set'' [];
         r = RegisterModel nb_PortGroup r ''Port_Group'' [];
         r = RegisterModel nb_LoadBalancer r ''Load_Balancer'' [];
         r = RegisterModel nb_LogicalRouterStaticRoute r ''Logical_Router_Static_Route'' [];
         r = RegisterModel nb_LogicalRouterPolicy r ''Logical_Router_Policy'' [];
         r = RegisterModel nb_DHCPOptions r ''DHCP_Options'' [];
         r = RegisterModel nb_DNS r ''DNS'' [];
         r = RegisterModel nb_StaticMACBinding r ''Static_MAC_Binding'' [];
         r = RegisterModel nb_HAChassis r ''HA_Chassis'' [''chassis_name''];
         r = RegisterModel nb_GatewayChassis r ''Gateway_Chassis'' [''chassis_name'', ''name'', ''options''];
         r = RegisterSBModel sb_MACBinding r ''MAC_Binding'';
         r = RegisterSBModel sb_FDB r ''FDB'';
         r = RegisterSBModel sb_PortBinding r ''Port_Binding''
     in r)"

section \<open>Lookups and the default registry\<close>

lemma reg_Get_Register:
  "reg_Get (Register r spec) table = (if table = ts_Table spec then Ok spec else reg_Get r table)"
  by (simp add: reg_Get_def Register_def)

lemma reg_Get_Ok_iff: "reg_Get r table = Ok spec \<longleftrightarrow> map_of r table = Some spec"
  by (simp add: reg_Get_def split: option.splits)

text \<open>What the write path needs of a registered table.\<close>

definition spec_ok :: "string \<Rightarrow> TableSpec \<Rightarrow> bool" where
  "spec_ok table spec =
    (ts_Table spec = table \<and> all_tagged (struct_fields (ts_ModelType spec)) \<and>
     (\<forall>f \<in> set (struct_fields (ts_ModelType spec)). good_type (snd f)) \<and>
     (''_uuid'', TString) \<in> set (struct_fields (ts_ModelType spec)) \<and>
     ''_uuid'' \<in> set (ts_ReadOnlyFields spec) \<and>
     set (ts_ReadOnlyFields spec) \<subseteq> set (OVSDBFieldNames (ts_ModelType spec)) \<and>
     (ts_DeleteOnly spec \<longleftrightarrow> ts_Database spec = ''sb''))"

definition registry_ok :: "Registry \<Rightarrow> bool" where
  "registry_ok r = (gomap_ok r \<and> (\<forall>(table, spec) \<in> set r. spec_ok table spec))"

lemma registry_ok_Get: "registry_ok r \<Longrightarrow> reg_Get r table = Ok spec \<Longrightarrow> spec_ok table spec"
  by (auto simp: registry_ok_def reg_Get_Ok_iff dest: map_of_SomeD)

lemma registry_ok_Register:
  assumes "registry_ok r" "spec_ok (ts_Table spec) spec"
  shows "registry_ok (Register r spec)"
proof -
  have "spec_ok table spec'" if "map_of (Register r spec) table = Some spec'" for table spec'
    using that assms by (auto simp: Register_def registry_ok_def dest: map_of_SomeD split: if_splits)
  moreover have "gomap_ok (Register r spec)"
    using assms(1) by (simp add: Register_def registry_ok_def)
  ultimately show ?thesis
    by (auto simp: registry_ok_def)
qed

lemma registry_ok_RegisterModel:
  assumes "registry_ok r" "all_tagged (struct_fields t)" "\<forall>f \<in> set (struct_fields t). good_type (snd f)"
    and "''_uuid'' \<in> set (OVSDBFieldNames t)" "(''_uuid'', TString) \<in> set (struct_fields t)" "set extra \<subseteq> set (OVSDBFieldNames t)"
  shows "registry_ok (RegisterModel t r table extra)"
  unfolding RegisterModel_def
  by (rule registry_ok_Register) (use assms in \<open>auto simp: spec_ok_def\<close>)

lemma registry_ok_RegisterSBModel:
  assumes "registry_ok r" "all_tagged (struct_fields t)" "\<forall>f \<in> set (struct_fields t). good_type (snd f)"
    and "''_uuid'' \<in> set (OVSDBFieldNames t)" "(''_uuid'', TString) \<in> set (struct_fields t)"
  shows "registry_ok (RegisterSBModel t r table)"
  unfolding RegisterSBModel_def
  by (rule registry_ok_Register) (use assms in \<open>auto simp: spec_ok_def\<close>)

lemmas struct_checks = OVSDBFieldNames_def all_tagged_def column_names_def ovsdb_tag_def

lemma registry_ok_default: "registry_ok DefaultRegistry"
proof -
  have "registry_ok NewRegistry" by (simp add: registry_ok_def NewRegistry_def)
  then show ?thesis
    unfolding DefaultRegistry_def Let_def
    by (intro registry_ok_RegisterModel registry_ok_RegisterSBModel)
      (simp_all add: model_structs struct_checks)
qed

text \<open>Every table of the default registry is fit for the write path: it is registered under its
  own name, its struct has a distinct column for every field and only field types that hydration can
  build, the row identity is a read-only string, every read-only column exists, and exactly the southbound
  tables are delete-only.\<close>

theorem DefaultRegistry_ok: "registry_ok DefaultRegistry"
  by (rule registry_ok_default)

end
