(* ===== verification/NW_TTL.thy ===== *)
theory NW_TTL
  imports NW_Prelude
begin

text \<open>
  Stores whose entries expire.  Three components keep values for a bounded time: the plan cache
  (\<^verbatim>\<open>internal/write/plan_cache.go\<close>), the enrichment cache (\<^verbatim>\<open>internal/enrich/cache.go\<close>) and the trace
  store (\<^verbatim>\<open>internal/api/handler/trace_store.go\<close>).  The contract \<open>ttl_store\<close> is what their clients
  rely on: a lookup sees the last value put under a key, never one older than the time to live,
  and never an entry resurrected by an eviction or a cleanup.
\<close>

locale ttl_store =
  fixes put :: "int \<Rightarrow> 'k \<Rightarrow> 'v \<Rightarrow> 's \<Rightarrow> 's"
    and get :: "int \<Rightarrow> 'k \<Rightarrow> 's \<Rightarrow> 'v option"
    and ttl :: "'s \<Rightarrow> int"
    and stamped :: "int \<Rightarrow> 's \<Rightarrow> 'k \<Rightarrow> 'v \<Rightarrow> 'v"
    and inv :: "'s \<Rightarrow> bool"
  assumes inv_put: "inv s \<Longrightarrow> inv (put t k v s)"
    and ttl_put: "ttl (put t k v s) = ttl s"
    and get_put: "inv s \<Longrightarrow> get t' k (put t k v s) = (if t' \<le> t + ttl s then Some (stamped t s k v) else None)"
    and get_put_other: "inv s \<Longrightarrow> k' \<noteq> k \<Longrightarrow> get t' k' (put t k v s) = Some w \<Longrightarrow> get t' k' s = Some w"
    and stamped_put: "stamped t' (put t k v s) = stamped t' s"
begin

lemma inv_puts: "inv s \<Longrightarrow> inv (fold (\<lambda>(t, k, v). put t k v) ops s)"
  by (induction ops arbitrary: s) (auto simp: inv_put)

lemma ttl_puts: "ttl (fold (\<lambda>(t, k, v). put t k v) ops s) = ttl s"
  by (induction ops arbitrary: s) (auto simp: ttl_put)

lemma stamped_puts: "stamped t (fold (\<lambda>(t, k, v). put t k v) ops s) = stamped t s"
  by (induction ops arbitrary: s) (auto simp: stamped_put)

text \<open>
  A lookup after any sequence of puts into a store that knew nothing about the key returns the
  value of the last put under that key, made at most the time to live ago.
\<close>

lemma get_last_put:
  assumes "inv s" "get t' k s = None"
    and "get t' k (fold (\<lambda>(t, k, v). put t k v) ops s) = Some w"
  shows "\<exists>pre t v post. ops = pre @ (t, k, v) # post \<and> k \<notin> (\<lambda>(_, k, _). k) ` set post \<and>
           w = stamped t s k v \<and> t' \<le> t + ttl s"
  using assms(3)
proof (induction ops rule: rev_induct)
  case Nil
  with assms(2) show ?case by simp
next
  case (snoc op ops)
  obtain t k0 v where op: "op = (t, k0, v)" by (cases op) auto
  let ?u = "fold (\<lambda>(t, k, v). put t k v) ops s"
  have u: "inv ?u" "ttl ?u = ttl s" "stamped t ?u = stamped t s"
    using assms(1) by (auto simp: inv_puts ttl_puts stamped_puts)
  show ?case
  proof (cases "k0 = k")
    case True
    with snoc.prems op u have "w = stamped t s k v" "t' \<le> t + ttl s"
      by (auto simp: get_put split: if_splits)
    with True op show ?thesis by (intro exI [of _ ops] exI [of _ t] exI [of _ v] exI [of _ "[]"]) simp
  next
    case False
    with snoc.prems op have "get t' k ?u = Some w"
      by (auto intro: get_put_other [OF u(1), of k k0])
    then obtain pre t1 v1 post where
      "ops = pre @ (t1, k, v1) # post" "k \<notin> (\<lambda>(_, k, _). k) ` set post"
      "w = stamped t1 s k v1" "t' \<le> t1 + ttl s"
      using snoc.IH by blast
    with False op show ?thesis
      by (intro exI [of _ pre] exI [of _ t1] exI [of _ v1] exI [of _ "post @ [op]"]) auto
  qed
qed

text \<open>Once the time to live after the last put has passed, the key is gone.\<close>

lemma get_expired:
  assumes "inv s" "get t' k s = None"
    and "\<And>t v. (t, k, v) \<in> set ops \<Longrightarrow> t + ttl s < t'"
  shows "get t' k (fold (\<lambda>(t, k, v). put t k v) ops s) = None"
proof (rule ccontr)
  assume "get t' k (fold (\<lambda>(t, k, v). put t k v) ops s) \<noteq> None"
  then obtain w where "get t' k (fold (\<lambda>(t, k, v). put t k v) ops s) = Some w" by blast
  from get_last_put [OF assms(1,2) this] obtain pre t v post where
    "ops = pre @ (t, k, v) # post" "t' \<le> t + ttl s" by blast
  with assms(3) [of t v] show False by auto
qed

end

end
