(* ===== verification/Write_PlanCache.thy ===== *)
theory Write_PlanCache
  imports Write_Registry NW_TTL
begin

text \<open>
  \<^verbatim>\<open>internal/write/plan_cache.go\<close> and \<^verbatim>\<open>internal/write/rate_limit.go\<close>: the cache of pending plans and
  the token bucket in front of the write engine.  The clock is an argument of every operation that
  reads it.  The plan cache is an instance of \<open>ttl_store\<close>; the bucket is bounded and admits at most
  its size plus what the elapsed time refills.

  \<^verbatim>\<open>elapsed.Minutes() * float64(refillRate)\<close> is computed exactly here; the float64 product differs
  from it by less than one part in \<open>2^52\<close>.
\<close>

section \<open>The plan cache\<close>

record PlanCache =
  pc_plans :: "(string, Plan) gomap"
  pc_ttl :: int

definition NewPlanCache :: "int \<Rightarrow> PlanCache" where
  "NewPlanCache ttl = \<lparr>pc_plans = [], pc_ttl = ttl\<rparr>"

text \<open>\<open>Store\<close> sets the expiry on the caller's plan and caches that same plan: both are returned.\<close>

definition pc_Store :: "int \<Rightarrow> Plan \<Rightarrow> PlanCache \<Rightarrow> Plan \<times> PlanCache" where
  "pc_Store now plan c =
    (let plan = plan\<lparr>plan_ExpiresAt := now + pc_ttl c\<rparr>
     in (plan, c\<lparr>pc_plans := AList.update (plan_ID plan) plan (pc_plans c)\<rparr>))"

definition pc_Get :: "int \<Rightarrow> string \<Rightarrow> PlanCache \<Rightarrow> Plan option \<times> PlanCache" where
  "pc_Get now pid c =
    (case map_of (pc_plans c) pid of
       None \<Rightarrow> (None, c)
     | Some plan \<Rightarrow>
         if now > plan_ExpiresAt plan then (None, c\<lparr>pc_plans := AList.delete pid (pc_plans c)\<rparr>)
         else (Some plan, c))"

definition pc_Delete :: "string \<Rightarrow> PlanCache \<Rightarrow> PlanCache" where
  "pc_Delete pid c = c\<lparr>pc_plans := AList.delete pid (pc_plans c)\<rparr>"

definition pc_Cleanup :: "int \<Rightarrow> PlanCache \<Rightarrow> PlanCache" where
  "pc_Cleanup now c = c\<lparr>pc_plans := filter (\<lambda>(pid, plan). \<not> now > plan_ExpiresAt plan) (pc_plans c)\<rparr>"

text \<open>\<^verbatim>\<open>StartCleanup\<close> runs \<open>Cleanup\<close> at every tick until it is cancelled.\<close>

definition pc_StartCleanup :: "int list \<Rightarrow> PlanCache \<Rightarrow> PlanCache" where
  "pc_StartCleanup ticks c = fold pc_Cleanup ticks c"

text \<open>Plans are keyed by their own id.\<close>

definition pc_inv :: "PlanCache \<Rightarrow> bool" where
  "pc_inv c = (gomap_ok (pc_plans c) \<and> (\<forall>(pid, plan) \<in> set (pc_plans c). plan_ID plan = pid))"

lemma pc_inv_lookup: "pc_inv c \<Longrightarrow> map_of (pc_plans c) pid = Some plan \<Longrightarrow> plan_ID plan = pid"
  by (auto simp: pc_inv_def dest: map_of_SomeD)

lemma pc_invI:
  "gomap_ok (pc_plans c) \<Longrightarrow> (\<And>pid plan. map_of (pc_plans c) pid = Some plan \<Longrightarrow> plan_ID plan = pid) \<Longrightarrow> pc_inv c"
  by (auto simp: pc_inv_def)

lemma pc_inv_New [simp]: "pc_inv (NewPlanCache ttl)"
  by (simp add: pc_inv_def NewPlanCache_def)

lemma pc_inv_Store [simp]: "pc_inv c \<Longrightarrow> pc_inv (snd (pc_Store now plan c))"
  by (rule pc_invI) (auto simp: pc_Store_def pc_inv_def split: if_splits dest: map_of_SomeD)

lemma pc_inv_Delete [simp]: "pc_inv c \<Longrightarrow> pc_inv (pc_Delete pid c)"
  by (rule pc_invI) (auto simp: pc_Delete_def pc_inv_def split: if_splits dest: map_of_SomeD)

lemma pc_inv_Get [simp]: "pc_inv c \<Longrightarrow> pc_inv (snd (pc_Get now pid c))"
  using pc_inv_Delete [of c pid] by (auto simp: pc_Get_def pc_Delete_def split: option.splits)

lemma pc_inv_Cleanup [simp]: "pc_inv c \<Longrightarrow> pc_inv (pc_Cleanup now c)"
  by (auto simp: pc_Cleanup_def pc_inv_def)

lemma pc_Get_Some_iff:
  "fst (pc_Get now pid c) = Some plan \<longleftrightarrow>
    map_of (pc_plans c) pid = Some plan \<and> now \<le> plan_ExpiresAt plan"
  by (auto simp: pc_Get_def split: option.splits)

lemma pc_Get_Delete [simp]: "fst (pc_Get now pid (pc_Delete pid c)) = None"
  by (simp add: pc_Get_def pc_Delete_def)

lemma map_of_pc_Get:
  "map_of (pc_plans (snd (pc_Get now pid c))) k =
    (if k = pid \<and> fst (pc_Get now pid c) = None then None else map_of (pc_plans c) k)"
  by (auto simp: pc_Get_def split: option.splits)

lemma pc_ttl_simps [simp]:
  "pc_ttl (snd (pc_Store now plan c)) = pc_ttl c" "pc_ttl (pc_Delete pid c) = pc_ttl c"
  "pc_ttl (pc_Cleanup now c) = pc_ttl c" "pc_ttl (snd (pc_Get now pid c)) = pc_ttl c"
  by (auto simp: pc_Store_def pc_Delete_def pc_Cleanup_def pc_Get_def split: option.splits)

interpretation plan_ttl: ttl_store
  "\<lambda>t k v c. snd (pc_Store t (v\<lparr>plan_ID := k\<rparr>) c)" "\<lambda>t k c. fst (pc_Get t k c)" pc_ttl
  "\<lambda>t c k v. v\<lparr>plan_ID := k, plan_ExpiresAt := t + pc_ttl c\<rparr>" pc_inv
proof (unfold_locales, goal_cases)
  case (1 c t k v)
  then show ?case by simp
qed (auto simp: pc_Get_def pc_Store_def fun_eq_iff split: option.splits if_splits)

section \<open>The token bucket\<close>

record rateLimiter =
  rl_tokens :: int
  rl_maxTokens :: int
  rl_refillRate :: int
  rl_lastRefill :: int

definition newRateLimiter :: "int \<Rightarrow> int \<Rightarrow> rateLimiter" where
  "newRateLimiter now opsPerMinute =
    \<lparr>rl_tokens = opsPerMinute, rl_maxTokens = opsPerMinute, rl_refillRate = opsPerMinute,
     rl_lastRefill = now\<rparr>"

definition minute_ns :: int where
  "minute_ns = 60000000000"

definition rl_refill :: "int \<Rightarrow> rateLimiter \<Rightarrow> rateLimiter" where
  "rl_refill now rl =
    (let elapsed = now - rl_lastRefill rl
     in if elapsed > 0
        then let refill = (elapsed * rl_refillRate rl) div minute_ns
             in if refill > 0
                then rl\<lparr>rl_tokens := min (rl_tokens rl + refill) (rl_maxTokens rl), rl_lastRefill := now\<rparr>
                else rl
        else rl)"

definition rl_allow :: "int \<Rightarrow> rateLimiter \<Rightarrow> bool \<times> rateLimiter" where
  "rl_allow now rl =
    (let rl = rl_refill now rl
     in if rl_tokens rl \<le> 0 then (False, rl) else (True, rl\<lparr>rl_tokens := rl_tokens rl - 1\<rparr>))"

text \<open>A history of calls: how many were allowed, and the bucket afterwards.\<close>

fun rl_run :: "int list \<Rightarrow> rateLimiter \<Rightarrow> int \<times> rateLimiter" where
  "rl_run [] rl = (0, rl)"
| "rl_run (t # ts) rl =
    (let (ok, rl') = rl_allow t rl; (n, rl'') = rl_run ts rl'
     in ((if ok then 1 else 0) + n, rl''))"

definition rl_inv :: "rateLimiter \<Rightarrow> bool" where
  "rl_inv rl = (0 \<le> rl_tokens rl \<and> rl_tokens rl \<le> rl_maxTokens rl \<and> rl_refillRate rl = rl_maxTokens rl)"

lemma rl_inv_refill: "rl_inv rl \<Longrightarrow> rl_inv (rl_refill now rl)"
  by (auto simp: rl_inv_def rl_refill_def Let_def)

lemma rl_inv_allow: "rl_inv rl \<Longrightarrow> rl_inv (snd (rl_allow now rl))"
  using rl_inv_refill [of rl now] by (auto simp: rl_inv_def rl_allow_def Let_def)

lemma rl_refill_credit:
  assumes "rl_inv rl" "now \<le> T" "rl_lastRefill rl \<le> T"
  shows "minute_ns * rl_tokens (rl_refill now rl) - rl_refillRate rl * rl_lastRefill (rl_refill now rl)
      \<le> minute_ns * rl_tokens rl - rl_refillRate rl * rl_lastRefill rl"
    and "rl_lastRefill (rl_refill now rl) \<le> T" "rl_refillRate (rl_refill now rl) = rl_refillRate rl"
proof -
  let ?e = "now - rl_lastRefill rl" and ?r = "rl_refillRate rl"
  have "minute_ns * ((?e * ?r) div minute_ns) \<le> ?e * ?r"
    by (simp add: minute_ns_def mult.commute [of 60000000000] div_times_less_eq_dividend)
  then show "minute_ns * rl_tokens (rl_refill now rl) - ?r * rl_lastRefill (rl_refill now rl)
      \<le> minute_ns * rl_tokens rl - ?r * rl_lastRefill rl"
    by (auto simp: rl_refill_def Let_def minute_ns_def algebra_simps min_def)
qed (use assms in \<open>auto simp: rl_refill_def Let_def\<close>)

lemma rl_run_credit:
  assumes "rl_inv rl" "\<forall>t \<in> set ts. t \<le> T" "rl_lastRefill rl \<le> T"
  shows "minute_ns * fst (rl_run ts rl) \<le> minute_ns * rl_tokens rl + rl_refillRate rl * (T - rl_lastRefill rl)"
  using assms
proof (induction ts arbitrary: rl)
  case Nil
  then show ?case by (simp add: rl_inv_def minute_ns_def)
next
  case (Cons t ts)
  let ?f = "rl_refill t rl" and ?rl = "snd (rl_allow t rl)"
  note credit = rl_refill_credit [OF Cons.prems(1), of t T]
  have inv: "rl_inv ?rl" by (rule rl_inv_allow [OF Cons.prems(1)])
  have rl: "rl_lastRefill ?rl = rl_lastRefill ?f" "rl_refillRate ?rl = rl_refillRate rl"
    "rl_tokens ?rl = rl_tokens ?f - (if fst (rl_allow t rl) then 1 else 0)"
    using credit(3) Cons.prems by (auto simp: rl_allow_def Let_def)
  have "minute_ns * fst (rl_run ts ?rl) \<le> minute_ns * rl_tokens ?rl + rl_refillRate ?rl * (T - rl_lastRefill ?rl)"
    using credit(2) Cons.prems rl by (intro Cons.IH) (auto simp: inv)
  moreover have "fst (rl_run (t # ts) rl) = (if fst (rl_allow t rl) then 1 else 0) + fst (rl_run ts ?rl)"
    by (simp add: Let_def split: prod.splits)
  ultimately show ?case
    using credit(1) Cons.prems rl by (auto simp: algebra_simps)
qed

section \<open>The theorems\<close>

text \<open>A plan is served only while it is fresh: after any sequence of stores into an empty cache, a
  lookup returns the plan last stored under that id, carrying the expiry of that store, at most the
  time to live after it; nothing older and nothing else.\<close>

theorem plan_cache_serves_last_store:
  assumes "fst (pc_Get now pid (fold (\<lambda>(t, k, v). \<lambda>c. snd (pc_Store t (v\<lparr>plan_ID := k\<rparr>) c)) ops
             (NewPlanCache ttl))) = Some plan"
  shows "\<exists>pre t v post. ops = pre @ (t, pid, v) # post \<and> pid \<notin> (\<lambda>(_, k, _). k) ` set post \<and>
    plan = v\<lparr>plan_ID := pid, plan_ExpiresAt := t + ttl\<rparr> \<and> now \<le> t + ttl"
proof -
  have "fst (pc_Get now pid (NewPlanCache ttl)) = None" "pc_ttl (NewPlanCache ttl) = ttl"
    by (simp_all add: pc_Get_def NewPlanCache_def)
  with plan_ttl.get_last_put [OF pc_inv_New this(1) assms] show ?thesis by simp
qed

definition sample_plan :: Plan where
  "sample_plan = \<lparr>plan_ID = ''p1'', plan_CreatedAt = 0, plan_ExpiresAt = 0, plan_Operations = [],
     plan_Diffs = [], plan_SnapshotID = 3, plan_Status = ''pending'', plan_ApplyToken = [],
     plan_Impact = [], plan_Warnings = []\<rparr>"

theorem plan_cache_serves_last_store_witness:
  "\<exists>pre t v post. [(5, ''p1'', sample_plan)] = pre @ (t, ''p1'', v) # post \<and>
    ''p1'' \<notin> (\<lambda>(_, k, _). k) ` set post \<and>
    sample_plan\<lparr>plan_ExpiresAt := 15\<rparr> = v\<lparr>plan_ID := ''p1'', plan_ExpiresAt := t + 10\<rparr> \<and> 12 \<le> t + (10::int)"
  by (rule plan_cache_serves_last_store [of 12 "''p1''" "[(5, ''p1'', sample_plan)]" 10])
    (simp add: pc_Get_def pc_Store_def NewPlanCache_def sample_plan_def)

text \<open>The background cleanup is invisible to lookups made at or after it, and leaves no expired
  plan in memory.\<close>

theorem plan_cache_cleanup:
  assumes "pc_inv c" "now \<le> now'"
  shows "fst (pc_Get now' pid (pc_Cleanup now c)) = fst (pc_Get now' pid c) \<and>
    (\<forall>(k, plan) \<in> set (pc_plans (pc_Cleanup now c)). now \<le> plan_ExpiresAt plan) \<and>
    set (pc_plans (pc_Cleanup now c)) \<subseteq> set (pc_plans c)"
  using assms
  by (auto simp: pc_Get_def pc_Cleanup_def pc_inv_def map_of_filter split: option.splits)

theorem plan_cache_cleanup_witness:
  "fst (pc_Get 30 ''p1'' (pc_Cleanup 20 (snd (pc_Store 5 sample_plan (NewPlanCache 10))))) =
    fst (pc_Get 30 ''p1'' (snd (pc_Store 5 sample_plan (NewPlanCache 10))))"
  using plan_cache_cleanup [of "snd (pc_Store 5 sample_plan (NewPlanCache 10))" 20 30 "''p1''"] by simp

text \<open>The rate limit holds over every window: starting from a full bucket of \<open>n\<close> tokens at time
  \<open>t0\<close>, however the calls are spaced, the number allowed up to time \<open>T\<close> is at most \<open>n\<close> plus \<open>n\<close> per
  elapsed minute.\<close>

theorem rate_limit_bound:
  assumes "0 \<le> n" "t0 \<le> T" "\<forall>t \<in> set ts. t \<le> T"
  shows "minute_ns * fst (rl_run ts (newRateLimiter t0 n)) \<le> minute_ns * n + n * (T - t0)"
  using rl_run_credit [of "newRateLimiter t0 n" ts T] assms
  by (simp add: rl_inv_def newRateLimiter_def)

theorem rate_limit_bound_witness:
  "minute_ns * fst (rl_run [0, 0, 0, 30000000000] (newRateLimiter 0 2)) \<le> minute_ns * 2 + 2 * (30000000000 - 0) \<and>
    fst (rl_run [0, 0, 0, 30000000000] (newRateLimiter 0 2)) = 3"
  using rate_limit_bound [of 2 0 30000000000 "[0, 0, 0, 30000000000]"]
  by (simp add: newRateLimiter_def rl_allow_def rl_refill_def minute_ns_def Let_def)

text \<open>The limiter recovers: with a positive limit, a call made a minute or more after the last refill
  is allowed, whatever happened before.\<close>

theorem rate_limit_recovers:
  assumes "rl_inv rl" "0 < rl_maxTokens rl" "rl_lastRefill rl + minute_ns \<le> now"
  shows "fst (rl_allow now rl)"
proof -
  let ?refill = "((now - rl_lastRefill rl) * rl_refillRate rl) div minute_ns"
  have "minute_ns * rl_refillRate rl \<le> (now - rl_lastRefill rl) * rl_refillRate rl"
    using assms by (intro mult_right_mono) (auto simp: rl_inv_def)
  then have "rl_refillRate rl \<le> ?refill"
    by (simp add: minute_ns_def zdiv_mono1 [of "60000000000 * _" _ 60000000000, simplified])
  moreover have "0 < rl_refillRate rl" using assms by (simp add: rl_inv_def)
  ultimately have "0 < rl_tokens (rl_refill now rl)"
    using assms by (auto simp: rl_refill_def rl_inv_def Let_def minute_ns_def)
  then show ?thesis by (simp add: rl_allow_def Let_def)
qed

theorem rate_limit_recovers_witness:
  "fst (rl_allow 60000000000 (snd (rl_run [0, 0, 0] (newRateLimiter 0 2))))"
  using rate_limit_recovers [of "snd (rl_run [0, 0, 0] (newRateLimiter 0 2))" 60000000000]
  by (simp add: newRateLimiter_def rl_allow_def rl_refill_def minute_ns_def rl_inv_def Let_def)

end
