(* ===== verification/Write_Validate.thy ===== *)
theory Write_Validate
  imports Write_Registry
begin

text \<open>
  \<^verbatim>\<open>internal/write/validate.go\<close> and \<^verbatim>\<open>Engine.validateOps\<close>: the checks an operation passes before it
  is planned and again before it is applied.  A check returns \<open>None\<close> for success and \<open>Some e\<close> for an
  error.

  The northbound schema (parsed by libovsdb) and the client's row cache are outside this
  repository.  They are parameters: \<open>nb_schema\<close> gives the key and value base types of a column, and
  \<open>nb_view\<close> answers the three questions the checks put to the cache.
\<close>

section \<open>Structural checks\<close>

definition validActions :: "string list" where
  "validActions = [''create'', ''update'', ''delete'']"

definition ValidateFields :: "row_map \<Rightarrow> TableSpec \<Rightarrow> error option" where
  "ValidateFields flds spec =
    (let validFields = OVSDBFieldNames (ts_ModelType spec);
         errs = concat (map (\<lambda>(name, _).
           if name \<in> set (ts_ReadOnlyFields spec) then [AErr (Errorf ''field %q is read-only'' [AStr name])]
           else if name \<notin> set validFields
           then [AErr (Errorf ''field %q does not exist on table %s'' [AStr name, AStr (ts_Table spec)])]
           else []) flds)
     in if errs \<noteq> [] then Some (Errorf ''field validation errors: %s'' errs) else None)"

definition checkAction :: "WriteOperation \<Rightarrow> error option" where
  "checkAction op =
    (if op_Action op = ''create'' then
       (if op_UUID op \<noteq> [] then Some (Errorf ''create operations must not specify a UUID'' [])
        else if op_Fields op = [] then Some (Errorf ''create operations require at least one field'' [])
        else None)
     else if op_Action op = ''update'' then
       (if op_UUID op = [] then Some (Errorf ''update operations require a UUID'' [])
        else if op_Fields op = [] then Some (Errorf ''update operations require at least one field'' [])
        else None)
     else if op_Action op = ''delete'' then
       (if op_UUID op = [] then Some (Errorf ''delete operations require a UUID'' []) else None)
     else None)"

definition ValidateOperation :: "WriteOperation \<Rightarrow> Registry \<Rightarrow> error option" where
  "ValidateOperation op reg =
    (if op_Action op \<notin> set validActions
     then Some (Errorf ''invalid action %q: must be create, update, or delete'' [AStr (op_Action op)])
     else case reg_Get reg (op_Table op) of
       Err e \<Rightarrow> Some e
     | Ok spec \<Rightarrow>
         if ts_DeleteOnly spec \<and> op_Action op \<noteq> ''delete''
         then Some (Errorf ''table %q only supports delete operations'' [AStr (op_Table op)])
         else case checkAction op of
           Some e \<Rightarrow> Some e
         | None \<Rightarrow> if op_Fields op \<noteq> [] then ValidateFields (op_Fields op) spec else None)"

fun singleDatabase :: "bool \<Rightarrow> bool \<Rightarrow> WriteOperation list \<Rightarrow> Registry \<Rightarrow> error option" where
  "singleDatabase hasNB hasSB [] reg = None"
| "singleDatabase hasNB hasSB (op # ops) reg =
    (case reg_Get reg (op_Table op) of
       Err e \<Rightarrow> Some e
     | Ok spec \<Rightarrow>
         let sb = (ts_Database spec = ''sb''); hasSB = (hasSB \<or> sb); hasNB = (hasNB \<or> \<not> sb)
         in if hasNB \<and> hasSB
            then Some (Errorf ''plans cannot mix NB and SB operations; submit separate plans for each database'' [])
            else singleDatabase hasNB hasSB ops reg)"

definition ValidateSingleDatabase :: "WriteOperation list \<Rightarrow> Registry \<Rightarrow> error option" where
  "ValidateSingleDatabase ops reg = singleDatabase False False ops reg"

section \<open>Reference checks\<close>

text \<open>\<^verbatim>\<open>ovsdb.BaseType\<close>: its type name and the result of its \<^verbatim>\<open>RefTable\<close> method.\<close>

record BaseType =
  bt_Type :: string
  bt_RefTable :: "string result"

text \<open>Columns of the tables in the northbound schema: a column whose \<^verbatim>\<open>TypeObj\<close> is set has a key type
  and possibly a value type.\<close>

type_synonym nb_schema = "string \<Rightarrow> (string \<Rightarrow> (BaseType option \<times> BaseType option) option) option"

text \<open>The client's cache: whether a table has a row (\<^verbatim>\<open>Cache().Table(t)\<close> is non-nil and \<^verbatim>\<open>HasRow\<close>), the
  names of the logical router ports, and the external IP and type of the NAT rows.\<close>

record nb_view =
  v_has_row :: "string \<Rightarrow> string \<Rightarrow> bool"
  v_lrp_names :: "string list result"
  v_nats :: "(string \<times> string) list result"

definition columnRefTable :: "BaseType option \<Rightarrow> string" where
  "columnRefTable bt = (case bt of
      None \<Rightarrow> []
    | Some b \<Rightarrow> if bt_Type b \<noteq> ''uuid'' then []
                else case bt_RefTable b of Err _ \<Rightarrow> [] | Ok rt \<Rightarrow> rt)"

definition checkRefExists :: "nb_view \<Rightarrow> string \<Rightarrow> string \<Rightarrow> string \<Rightarrow> error option" where
  "checkRefExists view refTable uuid col =
    (if refTable = [] \<or> uuid = [] then None
     else if \<not> v_has_row view refTable uuid
     then Some (InputError ''referenced %s %q in column %q does not exist'' [AStr refTable, AStr uuid, AStr col])
     else None)"

text \<open>The first error of a list of checks made in order (an early return).\<close>

fun first_error :: "error option list \<Rightarrow> error option" where
  "first_error [] = None"
| "first_error (e # es) = (case e of None \<Rightarrow> first_error es | Some x \<Rightarrow> Some x)"

definition checkColumnRefs :: "nb_view \<Rightarrow> string \<Rightarrow> string \<Rightarrow> string \<Rightarrow> gval \<Rightarrow> error option" where
  "checkColumnRefs view keyRef valRef col val =
    (if keyRef = [] \<and> valRef = [] then None
     else case val of
       GStr v \<Rightarrow> checkRefExists view keyRef v col
     | GSlice vs \<Rightarrow>
         if keyRef = [] then None
         else first_error (map (\<lambda>e. case e of GStr s \<Rightarrow> checkRefExists view keyRef s col | _ \<Rightarrow> None) vs)
     | GMap kvs \<Rightarrow>
         first_error (concat (map (\<lambda>(mk, mv).
           [checkRefExists view keyRef mk col,
            case mv of GStr s \<Rightarrow> checkRefExists view valRef s col | _ \<Rightarrow> None]) kvs))
     | _ \<Rightarrow> None)"

definition validateUUIDReferences :: "nb_schema \<Rightarrow> WriteOperation \<Rightarrow> TableSpec \<Rightarrow> nb_view \<Rightarrow> error option" where
  "validateUUIDReferences schema op spec view =
    (case schema (ts_Table spec) of
       None \<Rightarrow> None
     | Some ts \<Rightarrow> first_error (map (\<lambda>(col, val).
         case ts col of
           None \<Rightarrow> None
         | Some (key, value) \<Rightarrow> checkColumnRefs view (columnRefTable key) (columnRefTable value) col val)
         (op_Fields op)))"

text \<open>\<^verbatim>\<open>v, ok := m[k].(T)\<close> on a map of Go values.\<close>

definition str_field :: "row_map \<Rightarrow> string \<Rightarrow> string" where
  "str_field m k = (case map_of m k of Some (GStr s) \<Rightarrow> s | _ \<Rightarrow> [])"

definition validateLSPReferences :: "WriteOperation \<Rightarrow> nb_view \<Rightarrow> error option" where
  "validateLSPReferences op view =
    (case map_of (op_Fields op) ''options'' of
       Some (GMap options) \<Rightarrow>
         (let routerPort = str_field options ''router-port''
          in if routerPort = [] then None
             else case v_lrp_names view of
               Err e \<Rightarrow> Some (Wrapf ''listing logical router ports: %w'' [] e)
             | Ok names \<Rightarrow>
                 if filter (\<lambda>n. n = routerPort) names = []
                 then Some (InputError ''referenced router-port %q does not exist'' [AStr routerPort])
                 else None)
     | _ \<Rightarrow> None)"

definition validateNATReferences :: "WriteOperation \<Rightarrow> nb_view \<Rightarrow> error option" where
  "validateNATReferences op view =
    (if op_Action op \<noteq> ''create'' then None
     else let externalIP = str_field (op_Fields op) ''external_ip'';
              natType = str_field (op_Fields op) ''type''
          in if externalIP \<noteq> [] \<and> (natType = ''dnat'' \<or> natType = ''dnat_and_snat'')
             then case v_nats view of
                 Err e \<Rightarrow> Some (Wrapf ''listing NAT entries: %w'' [] e)
               | Ok nats \<Rightarrow>
                   if filter (\<lambda>(ip, ty). ip = externalIP \<and> ty = natType) nats \<noteq> []
                   then Some (InputError ''NAT entry with external_ip %q and type %q already exists''
                          [AStr externalIP, AStr natType])
                   else None
             else None)"

definition validateACLReferences :: "WriteOperation \<Rightarrow> error option" where
  "validateACLReferences op =
    (case map_of (op_Fields op) ''priority'' of
       None \<Rightarrow> None
     | Some priority \<Rightarrow>
         let p = (case priority of GFloat q \<Rightarrow> int_of_float q | GInt i \<Rightarrow> i | _ \<Rightarrow> 0)
         in if p < 0 \<or> p > 32767
            then Some (InputError ''ACL priority must be between 0 and 32767, got %d'' [AInt p])
            else None)"

definition ValidateReferences ::
    "nb_schema \<Rightarrow> WriteOperation \<Rightarrow> TableSpec \<Rightarrow> nb_view \<Rightarrow> bool \<Rightarrow> error option" where
  "ValidateReferences schema op spec view cacheAuthoritative =
    (case (if cacheAuthoritative then validateUUIDReferences schema op spec view else None) of
       Some e \<Rightarrow> Some e
     | None \<Rightarrow>
         if op_Table op = ''Logical_Switch_Port''
         then (if cacheAuthoritative then validateLSPReferences op view else None)
         else if op_Table op = ''NAT''
         then (if cacheAuthoritative then validateNATReferences op view else None)
         else if op_Table op = ''ACL'' then validateACLReferences op
         else None)"

section \<open>All checks of a plan\<close>

fun validateEach :: "nat \<Rightarrow> WriteOperation list \<Rightarrow> Registry \<Rightarrow> error option" where
  "validateEach i [] reg = None"
| "validateEach i (op # ops) reg =
    (case ValidateOperation op reg of
       Some e \<Rightarrow> Some (InputError ''operation %d: %s'' [AInt (int i), AErr e])
     | None \<Rightarrow> validateEach (Suc i) ops reg)"

fun validateRefsEach ::
    "nb_schema \<Rightarrow> nb_view \<Rightarrow> bool \<Rightarrow> nat \<Rightarrow> WriteOperation list \<Rightarrow> Registry \<Rightarrow> error option" where
  "validateRefsEach schema view auth i [] reg = None"
| "validateRefsEach schema view auth i (op # ops) reg =
    (case reg_Get reg (op_Table op) of
       Err e \<Rightarrow> Some (InputError ''operation %d: %s'' [AInt (int i), AErr e])
     | Ok spec \<Rightarrow>
         if ts_Database spec = ''sb'' then validateRefsEach schema view auth (Suc i) ops reg
         else case ValidateReferences schema op spec view auth of
             Some e \<Rightarrow> Some (Wrapf ''operation %d: %w'' [AInt (int i)] e)
           | None \<Rightarrow> validateRefsEach schema view auth (Suc i) ops reg)"

text \<open>\<open>nbReady\<close> is the engine's readiness predicate: \<open>None\<close> when none is installed.\<close>

definition validateOps ::
    "nb_schema \<Rightarrow> nb_view \<Rightarrow> bool option \<Rightarrow> WriteOperation list \<Rightarrow> Registry \<Rightarrow> error option" where
  "validateOps schema view nbReady ops reg =
    (case validateEach 0 ops reg of
       Some e \<Rightarrow> Some e
     | None \<Rightarrow>
         (case ValidateSingleDatabase ops reg of
            Some e \<Rightarrow> Some (InputError ''%s'' [AErr e])
          | None \<Rightarrow>
              let cacheAuthoritative = (case nbReady of None \<Rightarrow> True | Some b \<Rightarrow> b)
              in validateRefsEach schema view cacheAuthoritative 0 ops reg))"

section \<open>What acceptance means\<close>

lemma first_error_None [simp]: "first_error es = None \<longleftrightarrow> (\<forall>e \<in> set es. e = None)"
  by (induction es) (auto split: option.splits)

lemma ValidateFields_None:
  "ValidateFields flds spec = None \<longleftrightarrow>
    (\<forall>name \<in> set (gokeys flds). name \<notin> set (ts_ReadOnlyFields spec) \<and>
       name \<in> set (OVSDBFieldNames (ts_ModelType spec)))"
  by (auto simp: ValidateFields_def Let_def split: if_splits) force+

definition action_ok :: "WriteOperation \<Rightarrow> bool" where
  "action_ok op =
    (op_Action op = ''create'' \<and> op_UUID op = [] \<and> op_Fields op \<noteq> [] \<or>
     op_Action op = ''update'' \<and> op_UUID op \<noteq> [] \<and> op_Fields op \<noteq> [] \<or>
     op_Action op = ''delete'' \<and> op_UUID op \<noteq> [])"

definition op_ok :: "Registry \<Rightarrow> WriteOperation \<Rightarrow> bool" where
  "op_ok reg op =
    (action_ok op \<and>
     (\<exists>spec. reg_Get reg (op_Table op) = Ok spec \<and> (ts_DeleteOnly spec \<longrightarrow> op_Action op = ''delete'') \<and>
       (\<forall>name \<in> set (gokeys (op_Fields op)). name \<notin> set (ts_ReadOnlyFields spec) \<and>
         name \<in> set (OVSDBFieldNames (ts_ModelType spec)))))"

lemma checkAction_None: "op_Action op \<in> set validActions \<Longrightarrow> checkAction op = None \<longleftrightarrow> action_ok op"
  by (auto simp: checkAction_def action_ok_def validActions_def)

lemma ValidateOperation_None: "ValidateOperation op reg = None \<longleftrightarrow> op_ok reg op"
proof (cases "op_Action op \<in> set validActions")
  case False
  then show ?thesis by (auto simp: ValidateOperation_def op_ok_def action_ok_def validActions_def)
next
  case True
  then show ?thesis
    using checkAction_None [OF True]
    by (auto simp: ValidateOperation_def op_ok_def ValidateFields_None split: sum.splits option.splits)
qed

lemma validateEach_None: "validateEach i ops reg = None \<longleftrightarrow> (\<forall>op \<in> set ops. op_ok reg op)"
  by (induction ops arbitrary: i) (auto simp: ValidateOperation_None [symmetric] split: option.splits)

definition op_database :: "Registry \<Rightarrow> WriteOperation \<Rightarrow> string option" where
  "op_database reg op = (case reg_Get reg (op_Table op) of Err _ \<Rightarrow> None | Ok spec \<Rightarrow>
     Some (if ts_Database spec = ''sb'' then ''sb'' else ''nb''))"

lemma singleDatabase_None:
  assumes "\<not> (hasNB \<and> hasSB)"
  shows "singleDatabase hasNB hasSB ops reg = None \<longleftrightarrow>
    (\<exists>db. (hasNB \<longrightarrow> db = ''nb'') \<and> (hasSB \<longrightarrow> db = ''sb'') \<and>
      (\<forall>op \<in> set ops. op_database reg op = Some db))"
  using assms
proof (induction ops arbitrary: hasNB hasSB)
  case Nil
  then show ?case by auto
next
  case (Cons op ops)
  show ?case
  proof (cases "reg_Get reg (op_Table op)")
    case (Inl e)
    then show ?thesis by (simp add: op_database_def)
  next
    case (Inr spec)
    then show ?thesis
      using Cons.IH [of True False] Cons.IH [of False True] Cons.prems
      by (cases "ts_Database spec = ''sb''"; cases hasNB; cases hasSB)
        (auto simp: op_database_def Let_def)
  qed
qed

lemma ValidateSingleDatabase_None:
  "ValidateSingleDatabase ops reg = None \<longleftrightarrow> (\<exists>db. \<forall>op \<in> set ops. op_database reg op = Some db)"
  by (simp add: ValidateSingleDatabase_def singleDatabase_None)

lemma validateRefsEach_None:
  "validateRefsEach schema view auth i ops reg = None \<longleftrightarrow>
    (\<forall>op \<in> set ops. \<exists>spec. reg_Get reg (op_Table op) = Ok spec \<and>
      (ts_Database spec = ''sb'' \<or> ValidateReferences schema op spec view auth = None))"
  by (induction ops arbitrary: i) (auto split: sum.splits option.splits)

lemma validateOps_None:
  "validateOps schema view nbReady ops reg = None \<longleftrightarrow>
    (\<forall>op \<in> set ops. op_ok reg op) \<and> (\<exists>db. \<forall>op \<in> set ops. op_database reg op = Some db) \<and>
    (\<forall>op \<in> set ops. \<exists>spec. reg_Get reg (op_Table op) = Ok spec \<and> (ts_Database spec = ''sb'' \<or>
       ValidateReferences schema op spec view (nbReady = None \<or> nbReady = Some True) = None))"
proof -
  have auth: "(case nbReady of None \<Rightarrow> True | Some b \<Rightarrow> b) = (nbReady = None \<or> nbReady = Some True)"
    by (cases nbReady) auto
  show ?thesis
    unfolding validateOps_def Let_def auth
    by (auto simp: validateEach_None [of 0 ops reg, symmetric] ValidateSingleDatabase_None [symmetric]
        validateRefsEach_None split: option.splits)
qed

lemma first_error_in: "first_error es = Some e \<Longrightarrow> Some e \<in> set es"
  by (induction es) (auto split: option.splits)

lemma checkRefExists_input: "checkRefExists view r u col = Some e \<Longrightarrow> IsInputError e"
  by (auto simp: checkRefExists_def split: if_splits)

lemma first_error_input:
  "first_error es = Some e \<Longrightarrow> (\<And>x. Some x \<in> set es \<Longrightarrow> IsInputError x) \<Longrightarrow> IsInputError e"
  by (blast dest: first_error_in)

lemma checkColumnRefs_input:
  assumes "checkColumnRefs view kr vr col val = Some e"
  shows "IsInputError e"
proof (cases val)
  case (GStr v)
  with assms show ?thesis
    by (auto simp: checkColumnRefs_def split: if_splits dest: checkRefExists_input)
next
  case (GSlice vs)
  with assms have
    "first_error (map (\<lambda>e. case e of GStr s \<Rightarrow> checkRefExists view kr s col | _ \<Rightarrow> None) vs) = Some e"
    by (auto simp: checkColumnRefs_def split: if_splits)
  then show ?thesis
    by (rule first_error_input) (auto split: gval.splits dest: checkRefExists_input [OF sym])
next
  case (GMap kvs)
  with assms have "first_error (concat (map (\<lambda>(mk, mv). [checkRefExists view kr mk col,
      case mv of GStr s \<Rightarrow> checkRefExists view vr s col | _ \<Rightarrow> None]) kvs)) = Some e"
    by (auto simp: checkColumnRefs_def split: if_splits)
  then show ?thesis
  proof (rule first_error_input)
    fix x
    assume "Some x \<in> set (concat (map (\<lambda>(mk, mv). [checkRefExists view kr mk col,
      case mv of GStr s \<Rightarrow> checkRefExists view vr s col | _ \<Rightarrow> None]) kvs))"
    then obtain mk mv where "Some x = checkRefExists view kr mk col \<or>
        Some x = (case mv of GStr s \<Rightarrow> checkRefExists view vr s col | _ \<Rightarrow> None)"
      by auto
    then show "IsInputError x"
      by (cases mv) (auto dest: checkRefExists_input [OF sym])
  qed
qed (use assms in \<open>auto simp: checkColumnRefs_def split: if_splits\<close>)

lemma validateUUIDReferences_input:
  assumes "validateUUIDReferences schema op spec view = Some e"
  shows "IsInputError e"
proof -
  obtain ts where "schema (ts_Table spec) = Some ts"
    using assms by (auto simp: validateUUIDReferences_def split: option.splits)
  with assms have "first_error (map (\<lambda>(col, val). case ts col of None \<Rightarrow> None
      | Some (key, v) \<Rightarrow> checkColumnRefs view (columnRefTable key) (columnRefTable v) col val)
      (op_Fields op)) = Some e"
    by (simp add: validateUUIDReferences_def)
  then show ?thesis
    by (rule first_error_input) (auto split: option.splits dest: checkColumnRefs_input [OF sym])
qed

lemma ValidateReferences_input:
  assumes "ValidateReferences schema op spec view auth = Some e"
    and "v_lrp_names view = Ok names" "v_nats view = Ok nats"
  shows "IsInputError e"
  using assms
  by (auto simp: ValidateReferences_def validateLSPReferences_def validateNATReferences_def
      validateACLReferences_def Let_def split: if_splits option.splits gval.splits
      dest: validateUUIDReferences_input)

lemma validateEach_input: "validateEach i ops reg = Some e \<Longrightarrow> IsInputError e"
  by (induction ops arbitrary: i) (auto split: option.splits)

lemma validateRefsEach_input:
  "validateRefsEach schema view auth i ops reg = Some e \<Longrightarrow>
    v_lrp_names view = Ok names \<Longrightarrow> v_nats view = Ok nats \<Longrightarrow> IsInputError e"
  by (induction ops arbitrary: i)
    (auto split: option.splits sum.splits if_splits dest: ValidateReferences_input)

lemma ValidateReferences_no_cache:
  "ValidateReferences schema op spec view False = ValidateReferences schema op spec view' False"
  by (simp add: ValidateReferences_def)

lemma validateRefsEach_no_cache:
  "validateRefsEach schema view False i ops reg = validateRefsEach schema view' False i ops reg"
  by (induction ops arbitrary: i)
    (auto simp: ValidateReferences_no_cache [of _ _ _ view view'] split: sum.splits option.splits)

section \<open>The theorems\<close>


text \<open>The objects of the witnesses below: one update of an \<open>HA_Chassis\<close> priority and an empty cache.\<close>

definition sample_op :: WriteOperation where
  "sample_op = \<lparr>op_Action = ''update'', op_Table = ''HA_Chassis'', op_UUID = ''u1'',
     op_Fields = [(''priority'', GInt 20)], op_Reason = []\<rparr>"

definition sample_lsp :: WriteOperation where
  "sample_lsp = \<lparr>op_Action = ''update'', op_Table = ''Logical_Switch_Port'', op_UUID = ''p1'',
     op_Fields = [(''dhcpv4_options'', GStr ''d1'')], op_Reason = []\<rparr>"

definition sample_schema :: nb_schema where
  "sample_schema t = (if t = ''Logical_Switch_Port''
     then Some (\<lambda>c. if c = ''dhcpv4_options''
       then Some (Some \<lparr>bt_Type = ''uuid'', bt_RefTable = Ok ''DHCP_Options''\<rparr>, None) else None)
     else None)"

definition empty_view :: nb_view where
  "empty_view = \<lparr>v_has_row = (\<lambda>_ _. False), v_lrp_names = Ok [], v_nats = Ok []\<rparr>"


text \<open>Rejections are the caller's fault unless the cache cannot be read: as long as the cache
  listings succeed, every error of validation is an \<open>InputError\<close> in its chain, which the handlers
  answer with status 400.\<close>

theorem validateOps_input_error:
  assumes "validateOps schema view nbReady ops reg = Some e"
    and "v_lrp_names view = Ok names" "v_nats view = Ok nats"
  shows "IsInputError e"
  using assms
  by (auto simp: validateOps_def Let_def split: option.splits
      dest: validateEach_input validateRefsEach_input)

theorem validateOps_input_error_witness:
  "\<exists>e. validateOps sample_schema empty_view None [sample_lsp] DefaultRegistry = Some e \<and> IsInputError e"
proof -
  have "validateOps sample_schema empty_view None [sample_lsp] DefaultRegistry \<noteq> None"
    by code_simp
  then obtain e where e: "validateOps sample_schema empty_view None [sample_lsp] DefaultRegistry = Some e"
    by blast
  show ?thesis
    using e validateOps_input_error [OF e, of "[]" "[]"] by (simp add: empty_view_def)
qed

text \<open>While the northbound cache is not authoritative (a reconnect, a suspended snapshot session)
  the verdict does not depend on the cache at all, so a purged cache cannot produce a false
  rejection.\<close>

theorem validateOps_not_ready:
  "validateOps schema view (Some False) ops reg = validateOps schema view' (Some False) ops reg"
  by (simp add: validateOps_def Let_def validateRefsEach_no_cache [of _ view _ _ _ view'] split: option.splits)

text \<open>With an authoritative cache, an accepted operation on a northbound table references only
  rows that exist: every non-empty UUID it puts into a reference column, alone or in a set, names a
  row of the referenced table.\<close>

theorem validateOps_references_exist:
  assumes "validateOps schema view nbReady ops reg = None" "nbReady \<noteq> Some False"
    and "op \<in> set ops" "reg_Get reg (op_Table op) = Ok spec" "ts_Database spec \<noteq> ''sb''"
    and "schema (ts_Table spec) = Some ts" "(col, val) \<in> set (op_Fields op)" "ts col = Some (key, vtype)"
    and "val = GStr uuid \<or> (\<exists>vs. val = GSlice vs \<and> GStr uuid \<in> set vs)"
    and "columnRefTable key \<noteq> []" "uuid \<noteq> []"
  shows "v_has_row view (columnRefTable key) uuid"
proof -
  have "ValidateReferences schema op spec view True = None"
    using assms(1-5) by (cases nbReady) (auto simp: validateOps_None)
  then have "validateUUIDReferences schema op spec view = None"
    by (simp add: ValidateReferences_def split: option.splits)
  then have "checkColumnRefs view (columnRefTable key) (columnRefTable vtype) col val = None"
    using assms(6-8) by (force simp: validateUUIDReferences_def)
  then have "checkRefExists view (columnRefTable key) uuid col = None"
    using assms(9,10) by (force simp: checkColumnRefs_def)
  with assms(10,11) show ?thesis
    by (simp add: checkRefExists_def split: if_splits)
qed

definition dhcp_view :: nb_view where
  "dhcp_view = empty_view\<lparr>v_has_row := (\<lambda>t u. t = ''DHCP_Options'' \<and> u = ''d1'')\<rparr>"

theorem validateOps_references_exist_witness: "v_has_row dhcp_view ''DHCP_Options'' ''d1''"
proof -
  let ?key = "Some \<lparr>bt_Type = ''uuid'', bt_RefTable = Ok ''DHCP_Options''\<rparr>"
  obtain spec where spec: "reg_Get DefaultRegistry ''Logical_Switch_Port'' = Ok spec"
    "ts_Database spec = ''nb''" "ts_Table spec = ''Logical_Switch_Port''"
    by (simp add: DefaultRegistry_def RegisterModel_def RegisterSBModel_def reg_Get_Register)
  have ok: "validateOps sample_schema dhcp_view None [sample_lsp] DefaultRegistry = None"
    by code_simp
  have ref: "columnRefTable ?key = ''DHCP_Options''" by (simp add: columnRefTable_def)
  have "v_has_row dhcp_view (columnRefTable ?key) ''d1''"
    by (rule validateOps_references_exist [OF ok, where op = sample_lsp and spec = spec
          and ts = "the (sample_schema ''Logical_Switch_Port'')" and col = "''dhcpv4_options''"
          and val = "GStr ''d1''" and vtype = None])
      (use spec ref in \<open>simp_all add: sample_lsp_def sample_schema_def\<close>)
  then show ?thesis by (simp add: ref)
qed

end
