(* ===== verification/NW_Json.thy ===== *)
theory NW_Json
  imports NW_GoValues
begin

text \<open>
  \<^verbatim>\<open>encoding/json\<close> as far as the program relies on it.  \<open>json_of\<close> is \<^verbatim>\<open>json.Marshal\<close> and \<open>of_json\<close> is
  \<^verbatim>\<open>json.Unmarshal\<close> into \<^verbatim>\<open>any\<close>.  A document is kept as a tree instead of text: object keys are sorted
  (as Marshal sorts them) and an integral float64 of magnitude at most \<open>2^53\<close> is the same number as the
  integer (Marshal prints both with the same digits), so two values have the same text exactly when
  their trees are equal.  Beyond \<open>2^53\<close> the digits Marshal prints for a float64 need not be those of
  the integer, and the tree keeps the two apart.
\<close>

datatype json =
    JNull
  | JBool bool
  | JInt int
  | JFloat rat
  | JStr string
  | JArr "json list"
  | JObj "(string \<times> json) list"

definition safe_int :: int where
  "safe_int = 9007199254740992"

text \<open>The float64 nearest to an integer, ties to even.\<close>

fun bit_len :: "nat \<Rightarrow> nat" where
  "bit_len n = (if n = 0 then 0 else Suc (bit_len (n div 2)))"

declare bit_len.simps [simp del]

definition float64_of_int :: "int \<Rightarrow> rat" where
  "float64_of_int i =
    (if \<bar>i\<bar> \<le> safe_int then of_int i
     else let m = \<bar>i\<bar>; e = bit_len (nat m) - 53; q = m div 2 ^ e; r = m mod 2 ^ e; half = 2 ^ (e - 1);
              q = (if r > half \<or> r = half \<and> odd q then q + 1 else q)
          in of_int (sgn i * (q * 2 ^ e)))"

definition json_num :: "rat \<Rightarrow> json" where
  "json_num q = (if of_int \<lfloor>q\<rfloor> = q \<and> \<bar>\<lfloor>q\<rfloor>\<bar> \<le> safe_int then JInt \<lfloor>q\<rfloor> else JFloat q)"

abbreviation key_less :: "string \<times> 'a \<Rightarrow> string \<times> 'a \<Rightarrow> bool" where
  "key_less \<equiv> (\<lambda>a b. fst a < fst b)"

fun json_of :: "gval \<Rightarrow> json" where
  "json_of GNil = JNull"
| "json_of (GStr s) = JStr s"
| "json_of (GInt i) = JInt i"
| "json_of (GInt64 i) = JInt i"
| "json_of (GFloat q) = json_num q"
| "json_of (GBool b) = JBool b"
| "json_of (GPtr None) = JNull"
| "json_of (GPtr (Some v)) = json_of v"
| "json_of GNilSlice = JNull"
| "json_of (GSlice vs) = JArr (map json_of vs)"
| "json_of GNilMap = JNull"
| "json_of (GMap kvs) = JObj (sort_slice key_less (map (\<lambda>kv. (fst kv, json_of (snd kv))) kvs))"

fun of_json :: "json \<Rightarrow> gval" where
  "of_json JNull = GNil"
| "of_json (JBool b) = GBool b"
| "of_json (JInt i) = GFloat (float64_of_int i)"
| "of_json (JFloat q) = GFloat q"
| "of_json (JStr s) = GStr s"
| "of_json (JArr js) = GSlice (map of_json js)"
| "of_json (JObj kvs) = GMap (map (\<lambda>kv. (fst kv, of_json (snd kv))) kvs)"

text \<open>A \<^verbatim>\<open>map[string]any\<close> stored as JSON and read back.\<close>

definition marshal_row :: "row_map \<Rightarrow> json" where
  "marshal_row m = json_of (GMap m)"

definition unmarshal_row :: "json \<Rightarrow> row_map" where
  "unmarshal_row j = (case of_json j of GMap kvs \<Rightarrow> kvs | _ \<Rightarrow> [])"

definition row_through_json :: "row_map \<Rightarrow> row_map" where
  "row_through_json m = unmarshal_row (marshal_row m)"

section \<open>Round trips\<close>

text \<open>Documents Marshal produces for values whose integers a float64 holds exactly.\<close>

fun canonical :: "json \<Rightarrow> bool" where
  "canonical (JInt i) = (\<bar>i\<bar> \<le> safe_int)"
| "canonical (JFloat q) = (json_num q = JFloat q)"
| "canonical (JArr js) = (\<forall>j \<in> set js. canonical j)"
| "canonical (JObj kvs) = (sorted_wrt (\<lambda>a b. fst a < fst b) kvs \<and> (\<forall>kv \<in> set kvs. canonical (snd kv)))"
| "canonical _ = True"

fun safe_val :: "gval \<Rightarrow> bool" where
  "safe_val (GInt i) = (\<bar>i\<bar> \<le> safe_int)"
| "safe_val (GInt64 i) = (\<bar>i\<bar> \<le> safe_int)"
| "safe_val (GPtr (Some v)) = safe_val v"
| "safe_val (GSlice vs) = (\<forall>v \<in> set vs. safe_val v)"
| "safe_val (GMap kvs) = (gomap_ok kvs \<and> (\<forall>kv \<in> set kvs. safe_val (snd kv)))"
| "safe_val _ = True"

lemma sorted_strict_keys:
  assumes "sorted_wrt (\<lambda>a b. fst a \<le> fst b) kvs" "gomap_ok kvs"
  shows "sorted_wrt (\<lambda>a b. fst a < (fst b :: string)) kvs"
  using assms by (induction kvs) (auto simp: order.strict_iff_order image_iff)

lemma sort_keys:
  assumes "gomap_ok kvs"
  shows "sorted_wrt (\<lambda>a b. fst a < fst b) (sort_slice key_less (kvs :: (string \<times> 'a) list))"
proof -
  have "mset (map fst (sort_slice key_less kvs)) = mset (map fst kvs)" by simp
  then have "gomap_ok (sort_slice key_less kvs)"
    using assms by (metis mset_eq_imp_distinct_iff)
  then show ?thesis by (intro sorted_strict_keys sorted_sort_slice_asc)
qed

lemma sort_slice_snoc: "sort_slice lt (xs @ [x]) = sort_insert lt x (sort_slice lt xs)"
  by (simp add: sort_slice_def)

lemma sort_insert_last: "(\<And>y. y \<in> set ys \<Longrightarrow> \<not> lt x y) \<Longrightarrow> sort_insert lt x ys = ys @ [x]"
  by (induction ys) auto

lemma sort_slice_sorted:
  assumes "sorted_wrt lt xs" "\<And>x y. lt x y \<Longrightarrow> \<not> lt y x"
  shows "sort_slice lt xs = xs"
  using assms(1)
proof (induction xs rule: rev_induct)
  case (snoc x xs)
  then show ?case
    using assms(2) by (simp add: sort_slice_snoc sorted_wrt_append sort_insert_last)
qed simp

lemma json_num_cases: "json_num q = JInt \<lfloor>q\<rfloor> \<and> \<bar>\<lfloor>q\<rfloor>\<bar> \<le> safe_int \<and> of_int \<lfloor>q\<rfloor> = q \<or> json_num q = JFloat q"
  by (auto simp: json_num_def)

lemma canonical_json_of: "safe_val v \<Longrightarrow> canonical (json_of v)"
proof (induction v rule: json_of.induct)
  case (5 q)
  show ?case using json_num_cases [of q] by auto
next
  case (12 kvs)
  let ?js = "map (\<lambda>kv. (fst kv, json_of (snd kv))) kvs"
  have "map fst ?js = map fst kvs" by simp
  then have "sorted_wrt (\<lambda>a b. fst a < fst b) (sort_slice key_less ?js)"
    using 12(2) by (intro sort_keys) (simp add: comp_def)
  with 12 show ?case by auto
qed auto

lemma json_of_of_json: "canonical j \<Longrightarrow> json_of (of_json j) = j"
proof (induction j rule: of_json.induct)
  case (3 i)
  then show ?case by (simp add: float64_of_int_def json_num_def)
next
  case (6 js)
  then show ?case by (simp add: map_idI)
next
  case (7 kvs)
  have "map (\<lambda>kv. (fst kv, json_of (snd kv))) (map (\<lambda>kv. (fst kv, of_json (snd kv))) kvs) = kvs"
    using 7 by (auto intro!: map_idI)
  moreover have "sort_slice key_less kvs = kvs"
    using 7(2) by (intro sort_slice_sorted) (auto dest: less_asym)
  ultimately show ?case by (simp del: map_map)
qed auto

text \<open>Storing a value as JSON and reading it back does not change its JSON.\<close>

lemma json_of_stored: "safe_val v \<Longrightarrow> json_of (of_json (json_of v)) = json_of v"
  by (simp add: canonical_json_of json_of_of_json)

lemma map_of_sort_slice:
  assumes "gomap_ok m"
  shows "map_of (sort_slice lt m) = map_of m"
proof (rule map_of_eqI)
  fix k
  show "set (map fst (sort_slice lt m)) = set (map fst m)" by simp
  have "gomap_ok (sort_slice lt m)"
    using assms mset_sort_slice [of lt m] by (metis mset_eq_imp_distinct_iff mset_map)
  then show "\<forall>k \<in> set (map fst (sort_slice lt m)). map_of (sort_slice lt m) k = map_of m k"
    using assms by (auto simp: map_of_eq_Some_iff)
qed

lemma map_of_map_snd: "map_of (map (\<lambda>kv. (fst kv, f (snd kv))) m) k = map_option f (map_of m k)"
  by (induction m) auto

lemma row_through_json_lookup:
  assumes "gomap_ok m"
  shows "map_of (row_through_json m) k = map_option (of_json \<circ> json_of) (map_of m k)"
proof -
  let ?js = "map (\<lambda>kv. (fst kv, json_of (snd kv))) m"
  have "gomap_ok ?js" using assms by (simp add: comp_def)
  then show ?thesis
    by (simp add: row_through_json_def unmarshal_row_def marshal_row_def map_of_map_snd
        map_of_sort_slice option.map_comp comp_def)
qed

lemma row_through_json_ok: "gomap_ok m \<Longrightarrow> gomap_ok (row_through_json m)"
proof -
  assume "gomap_ok m"
  moreover have "mset (map fst (row_through_json m)) = mset (map fst m)"
    by (simp add: row_through_json_def unmarshal_row_def marshal_row_def comp_def flip: mset_map)
       (metis (no_types, lifting) mset_map mset_sort_slice map_map comp_def fst_conv map_eq_conv)
  ultimately show ?thesis by (metis mset_eq_imp_distinct_iff)
qed

end
