(* ===== verification/History_Store.thy ===== *)
theory History_Store
  imports NW_Json
begin

text \<open>
  \<^verbatim>\<open>internal/history\<close>: snapshots of both databases in SQLite (\<^verbatim>\<open>snapshot.go\<close>, \<^verbatim>\<open>compress.go\<close>), the event log
  (\<^verbatim>\<open>events.go\<close>), the collector's snapshot operations (\<^verbatim>\<open>collector.go\<close>) and the comparison of two
  snapshots (\<^verbatim>\<open>diff.go\<close>).

  SQLite is outside the repository.  Its tables are lists of rows, a statement does to them what its
  text says, and \<open>fault\<close> is the error a call's statements run into, with the message the code puts in
  front of it; a faulty transaction is rolled back.  Queries without \<^verbatim>\<open>ORDER BY\<close> return rows in
  insertion order here; nothing below depends on it.  \<open>codec\<close> holds the text of a JSON document, the
  size of its gzip form and SHA-256.
\<close>

record codec =
  co_text :: "json \<Rightarrow> string"
  co_gzip :: "string \<Rightarrow> int"
  co_sha :: "string \<Rightarrow> string"

type_synonym fault = "(string \<times> error) option"

definition maxDecompressedSize :: int where
  "maxDecompressedSize = 10 * 2 ^ 20"

section \<open>Snapshots\<close>

record SnapshotMeta =
  sm_ID :: int
  sm_Timestamp :: int
  sm_Trigger :: string
  sm_Label :: string
  sm_RowCounts :: "(string, int) gomap"
  sm_SizeBytes :: int

record SnapshotRow =
  sr_Database :: string
  sr_Table :: string
  sr_UUID :: string
  sr_Data :: row_map

text \<open>A row of \<^verbatim>\<open>snapshot_rows\<close>: its snapshot, its unique key, and the (compressed) document.\<close>

record stored_row =
  st_snapshot :: int
  st_database :: string
  st_table :: string
  st_uuid :: string
  st_data :: json

record EventRecord =
  er_ID :: int
  er_Timestamp :: int
  er_Type :: string
  er_Database :: string
  er_Table :: string
  er_UUID :: string
  er_Row :: "row_map option"
  er_OldRow :: "row_map option"

text \<open>A row of \<^verbatim>\<open>events\<close>; the two documents are null when the event had no such row.\<close>

record stored_event =
  se_ID :: int
  se_Timestamp :: int
  se_Type :: string
  se_Database :: string
  se_Table :: string
  se_UUID :: string
  se_Row :: "json option"
  se_OldRow :: "json option"

record HStore =
  hs_nextID :: int
  hs_snapshots :: "(SnapshotMeta \<times> string) list"
  hs_rows :: "stored_row list"
  hs_nextEvent :: int
  hs_events :: "stored_event list"

definition emptyStore :: HStore where
  "emptyStore = \<lparr>hs_nextID = 1, hs_snapshots = [], hs_rows = [], hs_nextEvent = 1, hs_events = []\<rparr>"

definition row_key :: "SnapshotRow \<Rightarrow> string" where
  "row_key r = sr_Database r @ ''.'' @ sr_Table r @ ''.'' @ sr_UUID r"

definition computeContentHash :: "codec \<Rightarrow> SnapshotRow list \<Rightarrow> string" where
  "computeContentHash co rows =
    (let sorted = sort_slice (\<lambda>a b. fst a < fst b) (map (\<lambda>r. (row_key r, co_text co (marshal_row (sr_Data r)))) rows)
     in co_sha co (concat (map (\<lambda>(key, dat). key @ dat) sorted)))"

definition rowCounts :: "SnapshotRow list \<Rightarrow> (string, int) gomap" where
  "rowCounts rows = fold (\<lambda>r. bump (sr_Database r @ ''.'' @ sr_Table r)) rows []"

definition store_row :: "int \<Rightarrow> SnapshotRow \<Rightarrow> stored_row" where
  "store_row snapshotID r = \<lparr>st_snapshot = snapshotID, st_database = sr_Database r, st_table = sr_Table r,
     st_uuid = sr_UUID r, st_data = marshal_row (sr_Data r)\<rparr>"

text \<open>The unique index over snapshot, database, table and UUID refuses a second row with the same key.\<close>

definition CreateSnapshot ::
    "codec \<Rightarrow> fault \<Rightarrow> int \<Rightarrow> string \<Rightarrow> string \<Rightarrow> SnapshotRow list \<Rightarrow> HStore \<Rightarrow> SnapshotMeta result \<times> HStore" where
  "CreateSnapshot co fault now trigger label rows s =
    (case fault of
       Some (msg, e) \<Rightarrow> (Err (Wrapf msg [] e), s)
     | None \<Rightarrow>
         if \<not> distinct (map (\<lambda>r. (sr_Database r, sr_Table r, sr_UUID r)) rows)
         then (Err (Wrapf ''inserting row: %w'' [] (ErrOther ''UNIQUE constraint failed'')), s)
         else
           (let snapshotID = hs_nextID s;
                stored = map (store_row snapshotID) rows;
                totalSize = sum_list (map (\<lambda>r. co_gzip co (co_text co (st_data r))) stored);
                meta = \<lparr>sm_ID = snapshotID, sm_Timestamp = now, sm_Trigger = trigger, sm_Label = label,
                  sm_RowCounts = rowCounts rows, sm_SizeBytes = totalSize\<rparr>
            in (Ok meta, s\<lparr>hs_nextID := snapshotID + 1,
                  hs_snapshots := hs_snapshots s @ [(meta, computeContentHash co rows)],
                  hs_rows := hs_rows s @ stored\<rparr>)))"

definition ListSnapshots :: "fault \<Rightarrow> HStore \<Rightarrow> SnapshotMeta list result" where
  "ListSnapshots fault s = (case fault of
      Some (msg, e) \<Rightarrow> Err (Wrapf msg [] e)
    | None \<Rightarrow> Ok (sort_slice (\<lambda>a b. sm_Timestamp a > sm_Timestamp b) (map fst (hs_snapshots s))))"

definition GetSnapshot :: "fault \<Rightarrow> int \<Rightarrow> HStore \<Rightarrow> SnapshotMeta result" where
  "GetSnapshot fault sid s = (case fault of
      Some (msg, e) \<Rightarrow> Err (Wrapf msg [AInt sid] e)
    | None \<Rightarrow> (case find (\<lambda>m. sm_ID m = sid) (map fst (hs_snapshots s)) of
         None \<Rightarrow> Err (Wrapf ''snapshot %d: %w'' [AInt sid] ErrNotFound)
       | Some m \<Rightarrow> Ok m))"

fun decodeRows :: "codec \<Rightarrow> stored_row list \<Rightarrow> SnapshotRow list result" where
  "decodeRows co [] = Ok []"
| "decodeRows co (r # rs) =
    (if int (length (co_text co (st_data r))) > maxDecompressedSize
     then Err (Wrapf ''decompressing row: %w'' []
       (Errorf ''gzip read: decompressed row exceeds %d bytes'' [AInt maxDecompressedSize]))
     else case decodeRows co rs of
         Err e \<Rightarrow> Err e
       | Ok rows \<Rightarrow> Ok (\<lparr>sr_Database = st_database r, sr_Table = st_table r, sr_UUID = st_uuid r,
             sr_Data = unmarshal_row (st_data r)\<rparr> # rows))"

definition GetSnapshotRows ::
    "codec \<Rightarrow> fault \<Rightarrow> int \<Rightarrow> string \<Rightarrow> string \<Rightarrow> HStore \<Rightarrow> SnapshotRow list result" where
  "GetSnapshotRows co fault sid database table s = (case fault of
      Some (msg, e) \<Rightarrow> Err (Wrapf msg [] e)
    | None \<Rightarrow> decodeRows co (filter (\<lambda>r. st_snapshot r = sid \<and> (database \<noteq> [] \<longrightarrow> st_database r = database) \<and>
         (table \<noteq> [] \<longrightarrow> st_table r = table)) (hs_rows s)))"

text \<open>Deleting from \<^verbatim>\<open>snapshots\<close> deletes the rows that refer to what was deleted (\<^verbatim>\<open>ON DELETE CASCADE\<close>).\<close>

definition deleteWhere :: "(SnapshotMeta \<Rightarrow> bool) \<Rightarrow> HStore \<Rightarrow> int \<times> HStore" where
  "deleteWhere P s =
    (let gone = map sm_ID (filter P (map fst (hs_snapshots s)))
     in (int (length gone), s\<lparr>hs_snapshots := filter (\<lambda>(m, h). \<not> P m) (hs_snapshots s),
          hs_rows := filter (\<lambda>r. st_snapshot r \<notin> set gone) (hs_rows s)\<rparr>))"

definition DeleteSnapshot :: "fault \<Rightarrow> int \<Rightarrow> HStore \<Rightarrow> error option \<times> HStore" where
  "DeleteSnapshot fault sid s = (case fault of
      Some (msg, e) \<Rightarrow> (Some (Wrapf msg [AInt sid] e), s)
    | None \<Rightarrow> (let (n, s') = deleteWhere (\<lambda>m. sm_ID m = sid) s
               in if n = 0 then (Some (Wrapf ''snapshot %d: %w'' [AInt sid] ErrNotFound), s') else (None, s')))"

definition is_auto :: "SnapshotMeta \<Rightarrow> bool" where
  "is_auto m = (sm_Trigger m = ''auto'' \<and> sm_Label m = [])"

definition newest_auto :: "int \<Rightarrow> HStore \<Rightarrow> int list" where
  "newest_auto keep s =
    take (nat keep) (sort_slice (\<lambda>a b. a > b) (map sm_ID (filter is_auto (map fst (hs_snapshots s)))))"

definition PruneAutoSnapshots :: "fault \<Rightarrow> int \<Rightarrow> HStore \<Rightarrow> int result \<times> HStore" where
  "PruneAutoSnapshots fault keep s =
    (if keep \<le> 0 then (Ok 0, s)
     else case fault of
         Some (msg, e) \<Rightarrow> (Err (Wrapf msg [] e), s)
       | None \<Rightarrow> (let (n, s') = deleteWhere (\<lambda>m. is_auto m \<and> sm_ID m \<notin> set (newest_auto keep s)) s
                  in (Ok n, s')))"

definition ExportSnapshot ::
    "codec \<Rightarrow> fault \<Rightarrow> fault \<Rightarrow> int \<Rightarrow> HStore \<Rightarrow> (SnapshotMeta \<times> SnapshotRow list) result" where
  "ExportSnapshot co fault fault' sid s = (case GetSnapshot fault sid s of
      Err e \<Rightarrow> Err (Wrapf ''getting snapshot metadata: %w'' [] e)
    | Ok meta \<Rightarrow> (case GetSnapshotRows co fault' sid [] [] s of
         Err e \<Rightarrow> Err (Wrapf ''getting snapshot rows: %w'' [] e)
       | Ok rows \<Rightarrow> Ok (meta, rows)))"

definition ImportSnapshot ::
    "codec \<Rightarrow> fault \<Rightarrow> int \<Rightarrow> SnapshotMeta \<times> SnapshotRow list \<Rightarrow> HStore \<Rightarrow> SnapshotMeta result \<times> HStore" where
  "ImportSnapshot co fault now export s =
    CreateSnapshot co fault now ''import'' (sm_Label (fst export)) (snd export) s"

definition LatestSnapshotContentHash :: "fault \<Rightarrow> HStore \<Rightarrow> string result" where
  "LatestSnapshotContentHash fault s = (case fault of
      Some (msg, e) \<Rightarrow> Err (Wrapf msg [] e)
    | None \<Rightarrow> (case sort_slice (\<lambda>a b. sm_ID (fst a) > sm_ID (fst b)) (hs_snapshots s) of
         [] \<Rightarrow> Ok []
       | (m, h) # _ \<Rightarrow> Ok h))"

section \<open>The collector's snapshots\<close>

text \<open>A source lists a table of the world \<open>'w\<close> (a client's cache).\<close>

record 'w TableSource =
  src_Database :: string
  src_Table :: string
  src_ListFunc :: "'w \<Rightarrow> row_map list result"

definition source_rows :: "'w TableSource \<Rightarrow> row_map list \<Rightarrow> SnapshotRow list" where
  "source_rows src dat = map (\<lambda>d. \<lparr>sr_Database = src_Database src, sr_Table = src_Table src,
     sr_UUID = (case map_of d ''_uuid'' of Some (GStr u) \<Rightarrow> u | _ \<Rightarrow> []), sr_Data = d\<rparr>) dat"

definition collectRows :: "'w TableSource list \<Rightarrow> 'w \<Rightarrow> SnapshotRow list" where
  "collectRows sources w = concat (map (\<lambda>src. case src_ListFunc src w of
      Err e \<Rightarrow> []
    | Ok dat \<Rightarrow> source_rows src dat) sources)"

definition TakeSnapshot ::
    "codec \<Rightarrow> fault \<Rightarrow> int \<Rightarrow> 'w TableSource list \<Rightarrow> 'w \<Rightarrow> string \<Rightarrow> string \<Rightarrow> HStore \<Rightarrow> SnapshotMeta result \<times> HStore" where
  "TakeSnapshot co fault now sources w trigger label s =
    CreateSnapshot co fault now trigger label (collectRows sources w) s"

text \<open>\<open>Ok None\<close> is the nil result without an error: nothing was recorded.\<close>

definition TakeSnapshotIfChanged ::
    "codec \<Rightarrow> fault \<Rightarrow> fault \<Rightarrow> int \<Rightarrow> bool \<Rightarrow> 'w TableSource list \<Rightarrow> 'w \<Rightarrow> string \<Rightarrow> string \<Rightarrow> HStore \<Rightarrow>
      SnapshotMeta option result \<times> HStore" where
  "TakeSnapshotIfChanged co hashFault fault now paused sources w trigger label s =
    (if paused then (Ok None, s)
     else let rows = collectRows sources w;
              create = (case CreateSnapshot co fault now trigger label rows s of
                          (Err e, s') \<Rightarrow> (Err e, s') | (Ok m, s') \<Rightarrow> (Ok (Some m), s'))
          in case LatestSnapshotContentHash hashFault s of
               Err e \<Rightarrow> create
             | Ok lastHash \<Rightarrow> if lastHash = computeContentHash co rows then (Ok None, s) else create)"

definition pruneSnapshots :: "fault \<Rightarrow> int \<Rightarrow> HStore \<Rightarrow> HStore" where
  "pruneSnapshots fault snapshotMaxCount s =
    (if snapshotMaxCount \<le> 0 then s else snd (PruneAutoSnapshots fault snapshotMaxCount s))"

section \<open>The event log\<close>

definition zero_time :: int where
  "zero_time = - 62135596800000000000"

definition insertEvent :: "int \<Rightarrow> EventRecord \<Rightarrow> HStore \<Rightarrow> HStore" where
  "insertEvent now e s =
    s\<lparr>hs_nextEvent := hs_nextEvent s + 1,
      hs_events := hs_events s @ [\<lparr>se_ID = hs_nextEvent s,
        se_Timestamp = (if er_Timestamp e = zero_time then now else er_Timestamp e),
        se_Type = er_Type e, se_Database = er_Database e, se_Table = er_Table e, se_UUID = er_UUID e,
        se_Row = map_option marshal_row (er_Row e), se_OldRow = map_option marshal_row (er_OldRow e)\<rparr>]\<rparr>"

definition InsertEvents :: "fault \<Rightarrow> int \<Rightarrow> EventRecord list \<Rightarrow> HStore \<Rightarrow> error option \<times> HStore" where
  "InsertEvents fault now events s =
    (if events = [] then (None, s)
     else case fault of
         Some (msg, e) \<Rightarrow> (Some (Wrapf msg [] e), s)
       | None \<Rightarrow> (None, fold (insertEvent now) events s))"

record EventQueryOpts =
  eq_Since :: "int option"
  eq_Until :: "int option"
  eq_Database :: string
  eq_Table :: string
  eq_Type :: string
  eq_Limit :: int

definition event_matches :: "EventQueryOpts \<Rightarrow> stored_event \<Rightarrow> bool" where
  "event_matches opts e =
    ((case eq_Since opts of None \<Rightarrow> True | Some t \<Rightarrow> se_Timestamp e \<ge> t) \<and>
     (case eq_Until opts of None \<Rightarrow> True | Some t \<Rightarrow> se_Timestamp e \<le> t) \<and>
     (eq_Database opts \<noteq> [] \<longrightarrow> se_Database e = eq_Database opts) \<and>
     (eq_Table opts \<noteq> [] \<longrightarrow> se_Table e = eq_Table opts) \<and>
     (eq_Type opts \<noteq> [] \<longrightarrow> se_Type e = eq_Type opts))"

definition query_limit :: "int \<Rightarrow> int" where
  "query_limit n = (let n = (if n \<le> 0 then 1000 else n) in if n > 10000 then 10000 else n)"

definition decodeDoc :: "codec \<Rightarrow> string \<Rightarrow> json option \<Rightarrow> row_map option result" where
  "decodeDoc co msg doc = (case doc of
      None \<Rightarrow> Ok None
    | Some j \<Rightarrow> if int (length (co_text co j)) > maxDecompressedSize
        then Err (Wrapf msg [] (Errorf ''gzip read: decompressed row exceeds %d bytes'' [AInt maxDecompressedSize]))
        else Ok (Some (unmarshal_row j)))"

fun decodeEvents :: "codec \<Rightarrow> stored_event list \<Rightarrow> EventRecord list result" where
  "decodeEvents co [] = Ok []"
| "decodeEvents co (e # es) =
    (case decodeDoc co ''decompressing row: %w'' (se_Row e) of
       Err err \<Rightarrow> Err err
     | Ok row \<Rightarrow> (case decodeDoc co ''decompressing old_row: %w'' (se_OldRow e) of
          Err err \<Rightarrow> Err err
        | Ok oldRow \<Rightarrow> (case decodeEvents co es of
             Err err \<Rightarrow> Err err
           | Ok rest \<Rightarrow> Ok (\<lparr>er_ID = se_ID e, er_Timestamp = se_Timestamp e, er_Type = se_Type e,
               er_Database = se_Database e, er_Table = se_Table e, er_UUID = se_UUID e,
               er_Row = row, er_OldRow = oldRow\<rparr> # rest))))"

definition QueryEvents :: "codec \<Rightarrow> fault \<Rightarrow> EventQueryOpts \<Rightarrow> HStore \<Rightarrow> EventRecord list result" where
  "QueryEvents co fault opts s = (case fault of
      Some (msg, e) \<Rightarrow> Err (Wrapf msg [] e)
    | None \<Rightarrow> decodeEvents co (take (nat (query_limit (eq_Limit opts)))
        (sort_slice (\<lambda>a b. se_Timestamp a > se_Timestamp b) (filter (event_matches opts) (hs_events s)))))"

definition PruneEvents :: "fault \<Rightarrow> int \<Rightarrow> int \<Rightarrow> HStore \<Rightarrow> int result \<times> HStore" where
  "PruneEvents fault now retention s =
    (let cutoff = now - retention
     in case fault of
          Some (msg, e) \<Rightarrow> (Err (Wrapf msg [] e), s)
        | None \<Rightarrow> (Ok (int (length (filter (\<lambda>e. se_Timestamp e < cutoff) (hs_events s)))),
            s\<lparr>hs_events := filter (\<lambda>e. \<not> se_Timestamp e < cutoff) (hs_events s)\<rparr>))"

definition PruneEventsByCount :: "fault \<Rightarrow> int \<Rightarrow> HStore \<Rightarrow> int result \<times> HStore" where
  "PruneEventsByCount fault maxCount s =
    (if maxCount \<le> 0 then (Ok 0, s)
     else case fault of
         Some (msg, e) \<Rightarrow> (Err (Wrapf msg [] e), s)
       | None \<Rightarrow> (let kept = take (nat maxCount) (sort_slice (\<lambda>a b. a > b) (map se_ID (hs_events s)))
                  in (Ok (int (length (filter (\<lambda>e. se_ID e \<notin> set kept) (hs_events s)))),
                      s\<lparr>hs_events := filter (\<lambda>e. se_ID e \<in> set kept) (hs_events s)\<rparr>)))"

section \<open>The store's invariant\<close>

abbreviation snapshot_ids :: "HStore \<Rightarrow> int list" where
  "snapshot_ids s \<equiv> map (\<lambda>x. sm_ID (fst x)) (hs_snapshots s)"

text \<open>Snapshot ids are assigned once, in order, and every row belongs to a snapshot that exists.\<close>

definition hs_inv :: "HStore \<Rightarrow> bool" where
  "hs_inv s = (sorted_wrt (<) (snapshot_ids s) \<and> (\<forall>i \<in> set (snapshot_ids s). i < hs_nextID s) \<and>
     (\<forall>r \<in> set (hs_rows s). st_snapshot r \<in> set (snapshot_ids s)))"

lemma hs_inv_empty [simp]: "hs_inv emptyStore"
  by (simp add: hs_inv_def emptyStore_def)

lemma CreateSnapshot_Ok:
  assumes "CreateSnapshot co fault now trigger label rows s = (Ok meta, s')"
  shows "fault = None" "distinct (map (\<lambda>r. (sr_Database r, sr_Table r, sr_UUID r)) rows)"
    "sm_ID meta = hs_nextID s" "sm_Trigger meta = trigger" "sm_Label meta = label"
    "hs_nextID s' = hs_nextID s + 1"
    "hs_snapshots s' = hs_snapshots s @ [(meta, computeContentHash co rows)]"
    "hs_rows s' = hs_rows s @ map (store_row (hs_nextID s)) rows"
  using assms by (auto simp: CreateSnapshot_def split: option.splits if_splits)

lemma CreateSnapshot_Err:
  "CreateSnapshot co fault now trigger label rows s = (Err e, s') \<Longrightarrow> s' = s"
  by (auto simp: CreateSnapshot_def split: option.splits if_splits)

lemma hs_inv_CreateSnapshot:
  assumes "hs_inv s"
  shows "hs_inv (snd (CreateSnapshot co fault now trigger label rows s))"
proof (cases "CreateSnapshot co fault now trigger label rows s")
  case (Pair r s')
  show ?thesis
  proof (cases r)
    case (Inl e)
    with Pair assms show ?thesis by (auto dest: CreateSnapshot_Err)
  next
    case (Inr meta)
    note ok = CreateSnapshot_Ok [OF Pair [unfolded Inr]]
    show ?thesis
      using assms unfolding Pair snd_conv hs_inv_def
      by (auto simp: ok sorted_wrt_append store_row_def)
  qed
qed

lemma sorted_wrt_map_filter: "sorted_wrt R (map f xs) \<Longrightarrow> sorted_wrt R (map f (filter P xs))"
  by (induction xs) auto

lemma hs_inv_deleteWhere:
  assumes "hs_inv s"
  shows "hs_inv (snd (deleteWhere P s))"
proof -
  have "st_snapshot r \<in> set (snapshot_ids (snd (deleteWhere P s)))"
    if "r \<in> set (hs_rows (snd (deleteWhere P s)))" for r
  proof -
    from that assms obtain m h where "(m, h) \<in> set (hs_snapshots s)" "sm_ID m = st_snapshot r"
      by (auto simp: deleteWhere_def hs_inv_def)
    moreover from this that have "\<not> P m" by (force simp: deleteWhere_def)
    ultimately show ?thesis by (force simp: deleteWhere_def)
  qed
  with assms show ?thesis
    unfolding hs_inv_def by (auto simp: deleteWhere_def intro: sorted_wrt_map_filter)
qed

text \<open>Rows of one snapshot, before decoding.\<close>

definition rows_of :: "int \<Rightarrow> HStore \<Rightarrow> stored_row list" where
  "rows_of sid s = filter (\<lambda>r. st_snapshot r = sid) (hs_rows s)"

lemma GetSnapshotRows_cong:
  assumes "rows_of sid s = rows_of sid s'"
  shows "GetSnapshotRows co fault sid db t s = GetSnapshotRows co fault sid db t s'"
proof -
  have "filter (\<lambda>r. st_snapshot r = sid \<and> Q r) (hs_rows x) = filter Q (rows_of sid x)" for Q x
    by (simp add: rows_of_def conj_commute)
  then show ?thesis unfolding GetSnapshotRows_def by (simp only: assms)
qed

lemma rows_of_create:
  assumes "hs_inv s" "CreateSnapshot co fault now trigger label rows s = (Ok meta, s')"
  shows "rows_of (sm_ID meta) s' = map (store_row (sm_ID meta)) rows"
    "sid \<noteq> sm_ID meta \<Longrightarrow> rows_of sid s' = rows_of sid s"
proof -
  note ok = CreateSnapshot_Ok [OF assms(2)]
  have "st_snapshot r \<noteq> hs_nextID s" if "r \<in> set (hs_rows s)" for r
    using assms(1) that by (fastforce simp: hs_inv_def)
  then show "rows_of (sm_ID meta) s' = map (store_row (sm_ID meta)) rows"
    by (simp add: rows_of_def ok filter_empty_conv store_row_def comp_def)
  show "rows_of sid s' = rows_of sid s" if "sid \<noteq> sm_ID meta"
    using that by (simp add: rows_of_def ok filter_empty_conv store_row_def comp_def)
qed

lemma rows_of_deleteWhere:
  assumes "hs_inv s" "(m, h) \<in> set (hs_snapshots s)" "\<not> P m"
  shows "rows_of (sm_ID m) (snd (deleteWhere P s)) = rows_of (sm_ID m) s"
proof -
  have "sm_ID m \<noteq> sm_ID m'" if "(m', h') \<in> set (hs_snapshots s)" "P m'" for m' h'
  proof
    assume eq: "sm_ID m = sm_ID m'"
    have "distinct (snapshot_ids s)"
      using assms(1) by (simp add: hs_inv_def strict_sorted_iff)
    then have "inj_on (\<lambda>x. sm_ID (fst x)) (set (hs_snapshots s))" by (simp add: distinct_map)
    from inj_onD [OF this, of "(m, h)" "(m', h')"] that assms(2) eq have "(m, h) = (m', h')" by simp
    with that assms(3) show False by simp
  qed
  then have gone: "\<not> (st_snapshot r = sm_ID m \<and> st_snapshot r \<in> set (map sm_ID (filter P (map fst (hs_snapshots s)))))" for r
    by fastforce
  moreover have "hs_rows (snd (deleteWhere P s)) =
      filter (\<lambda>r. st_snapshot r \<notin> set (map sm_ID (filter P (map fst (hs_snapshots s))))) (hs_rows s)"
    by (simp add: deleteWhere_def)
  ultimately show ?thesis
    unfolding rows_of_def by (simp only: filter_filter, intro filter_cong refl) blast
qed

lemma decodeRows_map:
  assumes "\<forall>r \<in> set rows. int (length (co_text co (marshal_row (sr_Data r)))) \<le> maxDecompressedSize"
  shows "decodeRows co (map (store_row sid) rows) = Ok (map (\<lambda>r. r\<lparr>sr_Data := row_through_json (sr_Data r)\<rparr>) rows)"
  using assms by (induction rows) (auto simp: store_row_def row_through_json_def)

lemma decodeRows_Ok_limit:
  "decodeRows co (map (store_row sid) rows) = Ok out \<Longrightarrow>
    \<forall>r \<in> set rows. int (length (co_text co (marshal_row (sr_Data r)))) \<le> maxDecompressedSize"
  by (induction rows arbitrary: out) (auto simp: store_row_def split: if_splits sum.splits)

lemma decodeRows_cong:
  "map (\<lambda>r. (st_database r, st_table r, st_uuid r, st_data r)) rs =
    map (\<lambda>r. (st_database r, st_table r, st_uuid r, st_data r)) rs' \<Longrightarrow> decodeRows co rs = decodeRows co rs'"
proof (induction rs arbitrary: rs')
  case (Cons r rs)
  then obtain r' rs'' where "rs' = r' # rs''" by (cases rs') auto
  with Cons show ?case by (auto split: sum.splits)
qed simp

lemma find_append_None: "find P xs = None \<Longrightarrow> find P (xs @ ys) = find P ys"
  by (induction xs) (auto split: if_splits)

section \<open>The theorems\<close>

text \<open>A snapshot that was recorded can be read back: its rows come out as they went in, with their
  data as JSON decodes it, provided no row exceeds the decompression limit; the rows of every other
  snapshot are unaffected.\<close>

theorem snapshot_roundtrip:
  assumes "hs_inv s" "CreateSnapshot co fault now trigger label rows s = (Ok meta, s')"
    and "\<forall>r \<in> set rows. int (length (co_text co (marshal_row (sr_Data r)))) \<le> maxDecompressedSize"
  shows "GetSnapshotRows co None (sm_ID meta) [] [] s' =
      Ok (map (\<lambda>r. r\<lparr>sr_Data := row_through_json (sr_Data r)\<rparr>) rows) \<and>
    (\<forall>sid db t. sid \<noteq> sm_ID meta \<longrightarrow> GetSnapshotRows co None sid db t s' = GetSnapshotRows co None sid db t s) \<and>
    hs_inv s'"
proof -
  have "GetSnapshotRows co None (sm_ID meta) [] [] s' = decodeRows co (rows_of (sm_ID meta) s')"
    by (simp add: GetSnapshotRows_def rows_of_def)
  moreover have "hs_inv s'"
    using hs_inv_CreateSnapshot [OF assms(1), of co fault now trigger label rows] assms(2) by simp
  ultimately show ?thesis
    using rows_of_create [OF assms(1,2)] decodeRows_map [OF assms(3)] by (auto intro: GetSnapshotRows_cong)
qed

text \<open>A codec for the examples: every document has a short text.\<close>

definition sample_codec :: codec where
  "sample_codec = \<lparr>co_text = (\<lambda>j. ''{}''), co_gzip = (\<lambda>t. 20), co_sha = (\<lambda>t. t)\<rparr>"

definition sample_row :: SnapshotRow where
  "sample_row = \<lparr>sr_Database = ''nb'', sr_Table = ''ACL'', sr_UUID = ''u1'', sr_Data = [(''priority'', GInt 7)]\<rparr>"

theorem snapshot_roundtrip_witness:
  "GetSnapshotRows sample_codec None 1 [] [] (snd (CreateSnapshot sample_codec None 0 ''auto'' [] [sample_row] emptyStore)) =
    Ok [sample_row\<lparr>sr_Data := [(''priority'', GFloat 7)]\<rparr>]"
proof -
  obtain meta where m: "CreateSnapshot sample_codec None 0 ''auto'' [] [sample_row] emptyStore =
      (Ok meta, snd (CreateSnapshot sample_codec None 0 ''auto'' [] [sample_row] emptyStore))" "sm_ID meta = 1"
    by (simp add: CreateSnapshot_def emptyStore_def)
  have "row_through_json [(''priority'', GInt 7)] = [(''priority'', GFloat 7)]"
    by (simp add: row_through_json_def marshal_row_def unmarshal_row_def sort_slice_def float64_of_int_def safe_int_def)
  with snapshot_roundtrip [OF hs_inv_empty m(1)] m(2) show ?thesis
    by (simp add: sample_codec_def maxDecompressedSize_def sample_row_def)
qed

lemma newest_auto_spec:
  assumes "hs_inv s" "0 < keep"
  shows "set (newest_auto keep s) \<subseteq> sm_ID ` {m. m \<in> fst ` set (hs_snapshots s) \<and> is_auto m}"
    and "length (newest_auto keep s) = min (nat keep) (length (filter is_auto (map fst (hs_snapshots s))))"
    and "distinct (newest_auto keep s)"
    and "m \<in> fst ` set (hs_snapshots s) \<Longrightarrow> is_auto m \<Longrightarrow> sm_ID m \<notin> set (newest_auto keep s) \<Longrightarrow>
      \<forall>i \<in> set (newest_auto keep s). sm_ID m < i"
proof -
  let ?ids = "map sm_ID (filter is_auto (map fst (hs_snapshots s)))"
  let ?sorted = "sort_slice (\<lambda>a b. a > b) ?ids"
  have "distinct (map sm_ID (map fst (hs_snapshots s)))"
    using assms(1) by (simp add: hs_inv_def strict_sorted_iff comp_def)
  then have d: "distinct ?sorted" by (simp add: distinct_map_filter)
  have srt: "sorted_wrt (\<ge>) ?sorted"
    using sorted_sort_slice_desc [of "\<lambda>x. x" ?ids] by simp
  have t: "newest_auto keep s = take (nat keep) ?sorted" by (simp add: newest_auto_def)
  show "set (newest_auto keep s) \<subseteq> sm_ID ` {m. m \<in> fst ` set (hs_snapshots s) \<and> is_auto m}"
    unfolding t using set_take_subset [of "nat keep" ?sorted] by auto
  show "length (newest_auto keep s) = min (nat keep) (length (filter is_auto (map fst (hs_snapshots s))))"
    unfolding t by simp
  show "distinct (newest_auto keep s)" unfolding t using d by simp
  show "\<forall>i \<in> set (newest_auto keep s). sm_ID m < i"
    if m: "m \<in> fst ` set (hs_snapshots s)" "is_auto m" "sm_ID m \<notin> set (newest_auto keep s)"
  proof
    fix i assume i: "i \<in> set (newest_auto keep s)"
    define xs where "xs = ?sorted"
    have "sm_ID m \<in> set xs" using m(1,2) by (auto simp: xs_def)
    moreover have "set xs = set (take (nat keep) xs) \<union> set (drop (nat keep) xs)"
      by (metis append_take_drop_id set_append)
    moreover have tk: "newest_auto keep s = take (nat keep) xs" using t by (simp add: xs_def)
    ultimately have "sm_ID m \<in> set (drop (nat keep) xs)" using m(3) by simp
    moreover have "sorted_wrt (\<ge>) (take (nat keep) xs @ drop (nat keep) xs)" using srt by (simp add: xs_def)
    ultimately have "sm_ID m \<le> i"
      using i unfolding tk sorted_wrt_append by blast
    then show "sm_ID m < i" using i m(3) by (cases "sm_ID m = i") auto
  qed
qed

text \<open>C36. Retention only reclaims old automatic snapshots: pruning to \<open>keep\<close> leaves every manual, labelled
  or imported snapshot, leaves exactly the \<open>keep\<close> newest automatic ones (or all, if there are fewer),
  and does not touch the rows of any snapshot it leaves.\<close>

theorem prune_auto_snapshots:
  assumes "hs_inv s" "0 < keep" "PruneAutoSnapshots None keep s = (Ok n, s')"
  shows "hs_inv s' \<and>
    filter (\<lambda>(m, h). \<not> is_auto m) (hs_snapshots s') = filter (\<lambda>(m, h). \<not> is_auto m) (hs_snapshots s) \<and>
    card {m \<in> fst ` set (hs_snapshots s'). is_auto m} =
      min (nat keep) (length (filter is_auto (map fst (hs_snapshots s)))) \<and>
    (\<forall>old \<in> fst ` set (hs_snapshots s) - fst ` set (hs_snapshots s').
       is_auto old \<and> (\<forall>m \<in> fst ` set (hs_snapshots s'). is_auto m \<longrightarrow> sm_ID old < sm_ID m)) \<and>
    (\<forall>m \<in> fst ` set (hs_snapshots s'). \<forall>co db t.
       GetSnapshotRows co None (sm_ID m) db t s' = GetSnapshotRows co None (sm_ID m) db t s)"
proof -
  let ?P = "\<lambda>m. is_auto m \<and> sm_ID m \<notin> set (newest_auto keep s)"
  note spec = newest_auto_spec [OF assms(1,2)]
  have s': "s' = snd (deleteWhere ?P s)"
    using assms(2,3) by (auto simp: PruneAutoSnapshots_def split: prod.splits)
  have snaps: "hs_snapshots s' = filter (\<lambda>(m, h). \<not> ?P m) (hs_snapshots s)"
    by (simp add: s' deleteWhere_def)
  have kept: "m \<in> fst ` set (hs_snapshots s') \<longleftrightarrow> m \<in> fst ` set (hs_snapshots s) \<and> \<not> ?P m" for m
    by (force simp: snaps)
  have "distinct (snapshot_ids s)" using assms(1) by (simp add: hs_inv_def strict_sorted_iff)
  then have inj: "inj_on sm_ID (fst ` set (hs_snapshots s))"
    by (auto simp: inj_on_def distinct_map)
  have "sm_ID ` {m \<in> fst ` set (hs_snapshots s'). is_auto m} = set (newest_auto keep s)"
    using spec(1) by (auto simp: kept) blast
  moreover have "inj_on sm_ID {m \<in> fst ` set (hs_snapshots s'). is_auto m}"
    using inj kept by (auto simp: inj_on_def)
  ultimately have count: "card {m \<in> fst ` set (hs_snapshots s'). is_auto m} =
      min (nat keep) (length (filter is_auto (map fst (hs_snapshots s))))"
    using spec(2,3) by (metis card_image distinct_card)
  have "filter (\<lambda>(m, h). \<not> is_auto m) (hs_snapshots s') = filter (\<lambda>(m, h). \<not> is_auto m) (hs_snapshots s)"
    unfolding snaps filter_filter by (rule filter_cong) auto
  moreover have "hs_inv s'" unfolding s' by (rule hs_inv_deleteWhere [OF assms(1)])
  moreover have "GetSnapshotRows co None (sm_ID m) db t s' = GetSnapshotRows co None (sm_ID m) db t s"
    if "m \<in> fst ` set (hs_snapshots s')" for m co db t
  proof -
    from that obtain h where "(m, h) \<in> set (hs_snapshots s)" "\<not> ?P m" by (auto simp: snaps)
    then show ?thesis
      unfolding s' by (intro GetSnapshotRows_cong rows_of_deleteWhere [OF assms(1)])
  qed
  moreover have "\<forall>old \<in> fst ` set (hs_snapshots s) - fst ` set (hs_snapshots s').
       is_auto old \<and> (\<forall>m \<in> fst ` set (hs_snapshots s'). is_auto m \<longrightarrow> sm_ID old < sm_ID m)"
  proof (intro ballI conjI impI)
    fix old assume "old \<in> fst ` set (hs_snapshots s) - fst ` set (hs_snapshots s')"
    then have old: "old \<in> fst ` set (hs_snapshots s)" "?P old" unfolding Diff_iff kept by blast+
    then show "is_auto old" by blast
    fix m assume "m \<in> fst ` set (hs_snapshots s')" "is_auto m"
    then show "sm_ID old < sm_ID m" using spec(4) [OF old(1)] old(2) unfolding kept by blast
  qed
  ultimately show ?thesis using count by blast
qed

definition sample_store :: HStore where
  "sample_store = (let mk = \<lambda>t s. snd (CreateSnapshot sample_codec None 0 t [] [sample_row] s)
     in mk ''auto'' (mk ''manual'' (mk ''auto'' emptyStore)))"

theorem prune_auto_snapshots_witness:
  "card {m \<in> fst ` set (hs_snapshots (snd (PruneAutoSnapshots None 1 sample_store))). is_auto m} = 1"
proof -
  have inv: "hs_inv sample_store" by (simp add: sample_store_def hs_inv_CreateSnapshot)
  have "\<exists>n s'. PruneAutoSnapshots None 1 sample_store = (Ok n, s')"
    by (simp add: PruneAutoSnapshots_def split: prod.splits)
  then obtain n s' where p: "PruneAutoSnapshots None 1 sample_store = (Ok n, s')" by blast
  have "length (filter is_auto (map fst (hs_snapshots sample_store))) = 2"
    by (simp add: sample_store_def CreateSnapshot_def emptyStore_def is_auto_def)
  with prune_auto_snapshots [OF inv _ p] p show ?thesis by simp
qed

text \<open>What a store hands out is unchanged by another pass through JSON.\<close>

definition safe_row :: "row_map \<Rightarrow> bool" where
  "safe_row m = safe_val (GMap m)"

lemma marshal_stored: "safe_row m \<Longrightarrow> marshal_row (row_through_json m) = marshal_row m"
proof -
  assume "safe_row m"
  then have "json_of (of_json (json_of (GMap m))) = json_of (GMap m)"
    unfolding safe_row_def by (rule json_of_stored)
  then show ?thesis by (simp add: marshal_row_def row_through_json_def unmarshal_row_def)
qed

text \<open>C37. Exporting a snapshot and importing it, into any store, gives a snapshot with the same rows and
  the same label, marked as imported and hence exempt from retention.\<close>

theorem export_import_roundtrip:
  assumes "hs_inv s" "CreateSnapshot co fault now trigger label rows s = (Ok meta, s')"
    and "\<forall>r \<in> set rows. safe_row (sr_Data r)"
    and "ExportSnapshot co None None (sm_ID meta) s' = Ok export"
    and "hs_inv t" "ImportSnapshot co None now' export t = (Ok meta', t')"
  shows "GetSnapshotRows co None (sm_ID meta') [] [] t' = GetSnapshotRows co None (sm_ID meta) [] [] s' \<and>
    sm_Label meta' = label \<and> \<not> is_auto meta'"
proof -
  note ok = CreateSnapshot_Ok [OF assms(2)]
  have ids: "sm_ID m \<noteq> sm_ID meta" if "m \<in> fst ` set (hs_snapshots s)" for m
    using assms(1) that ok(3) by (force simp: hs_inv_def)
  have "find (\<lambda>m. sm_ID m = sm_ID meta) (map fst (hs_snapshots s')) = Some meta"
    unfolding ok(7) using ids by (auto simp: find_append_None find_None_iff)
  then have "GetSnapshot None (sm_ID meta) s' = Ok meta" by (simp add: GetSnapshot_def)
  with assms(4) obtain rows' where ex: "export = (meta, rows')" "GetSnapshotRows co None (sm_ID meta) [] [] s' = Ok rows'"
    by (auto simp: ExportSnapshot_def split: sum.splits)
  have dec: "decodeRows co (map (store_row (sm_ID meta)) rows) = Ok rows'"
    using ex(2) rows_of_create(1) [OF assms(1,2)] by (simp add: GetSnapshotRows_def rows_of_def)
  note lim = decodeRows_Ok_limit [OF dec]
  have rows': "rows' = map (\<lambda>r. r\<lparr>sr_Data := row_through_json (sr_Data r)\<rparr>) rows"
    using dec decodeRows_map [OF lim] by simp
  have imp: "CreateSnapshot co None now' ''import'' (sm_Label meta) rows' t = (Ok meta', t')"
    using assms(6) by (simp add: ImportSnapshot_def ex(1))
  have "GetSnapshotRows co None (sm_ID meta') [] [] t' = decodeRows co (map (store_row (sm_ID meta')) rows')"
    using rows_of_create(1) [OF assms(5) imp] by (simp add: GetSnapshotRows_def rows_of_def)
  also have "\<dots> = decodeRows co (map (store_row (sm_ID meta)) rows)"
    using assms(3) unfolding rows' by (intro decodeRows_cong) (simp add: store_row_def marshal_stored comp_def)
  finally show ?thesis
    using dec ex(2) CreateSnapshot_Ok(4,5) [OF imp] ok(5) by (simp add: is_auto_def)
qed

theorem export_import_roundtrip_witness:
  "\<exists>meta' t'. ImportSnapshot sample_codec None 5 (the (case ExportSnapshot sample_codec None None 1 sample_store of
      Err e \<Rightarrow> None | Ok x \<Rightarrow> Some x)) emptyStore = (Ok meta', t') \<and> \<not> is_auto meta'"
proof -
  let ?c = "CreateSnapshot sample_codec None 0 ''auto'' [] [sample_row] emptyStore"
  obtain meta where c: "?c = (Ok meta, snd ?c)" "sm_ID meta = 1"
    by (simp add: CreateSnapshot_def emptyStore_def)
  obtain export where e: "ExportSnapshot sample_codec None None (sm_ID meta) (snd ?c) = Ok export"
    "ExportSnapshot sample_codec None None 1 sample_store = Ok export" "snd export = [sample_row\<lparr>sr_Data := row_through_json (sr_Data sample_row)\<rparr>]"
    by (simp add: c(2) ExportSnapshot_def GetSnapshot_def GetSnapshotRows_def sample_store_def CreateSnapshot_def
        emptyStore_def store_row_def sample_codec_def maxDecompressedSize_def sample_row_def row_through_json_def)
  obtain meta' where i: "ImportSnapshot sample_codec None 5 export emptyStore =
      (Ok meta', snd (ImportSnapshot sample_codec None 5 export emptyStore))"
    by (simp add: ImportSnapshot_def CreateSnapshot_def emptyStore_def e(3))
  have "\<not> is_auto meta'"
    using export_import_roundtrip [OF hs_inv_empty c(1) _ e(1) hs_inv_empty i]
    by (simp add: sample_row_def safe_row_def safe_int_def)
  with e(2) i show ?thesis by (metis option.sel sum.simps(6))
qed

end
