(* ===== verification/Write_Audit.thy ===== *)
theory Write_Audit
  imports Write_Registry History_Store
begin

text \<open>
  \<^verbatim>\<open>internal/write/audit.go\<close>: the audit log of applied plans, in SQLite.  Operations are stored as gzipped
  JSON and read back through it; reading stops at ten megabytes, and a longer document is then no
  JSON any more.  The error column holds the error's text; here it keeps the error.
\<close>

section \<open>Operations as JSON\<close>

text \<open>Empty \<^verbatim>\<open>uuid\<close>, \<^verbatim>\<open>fields\<close> and \<^verbatim>\<open>reason\<close> are omitted (\<^verbatim>\<open>omitempty\<close>).\<close>

definition op_json :: "WriteOperation \<Rightarrow> json" where
  "op_json op = JObj ([(''action'', JStr (op_Action op)), (''table'', JStr (op_Table op))] @
     (if op_UUID op = [] then [] else [(''uuid'', JStr (op_UUID op))]) @
     (if op_Fields op = [] then [] else [(''fields'', marshal_row (op_Fields op))]) @
     (if op_Reason op = [] then [] else [(''reason'', JStr (op_Reason op))]))"

definition ops_json :: "WriteOperation list \<Rightarrow> json" where
  "ops_json ops = JArr (map op_json ops)"

definition json_str :: "(string \<times> json) list \<Rightarrow> string \<Rightarrow> string" where
  "json_str kvs k = (case map_of kvs k of Some (JStr s) \<Rightarrow> s | _ \<Rightarrow> [])"

definition op_of_json :: "json \<Rightarrow> WriteOperation" where
  "op_of_json j = (case j of
      JObj kvs \<Rightarrow> \<lparr>op_Action = json_str kvs ''action'', op_Table = json_str kvs ''table'',
        op_UUID = json_str kvs ''uuid'',
        op_Fields = (case map_of kvs ''fields'' of Some f \<Rightarrow> unmarshal_row f | None \<Rightarrow> []),
        op_Reason = json_str kvs ''reason''\<rparr>
    | _ \<Rightarrow> \<lparr>op_Action = [], op_Table = [], op_UUID = [], op_Fields = [], op_Reason = []\<rparr>)"

definition ops_of_json :: "json \<Rightarrow> WriteOperation list" where
  "ops_of_json j = (case j of JArr js \<Rightarrow> map op_of_json js | _ \<Rightarrow> [])"

section \<open>The store\<close>

text \<open>A row of \<^verbatim>\<open>write_audit\<close>: the entry without its operations, and their document.\<close>

record AuditStore =
  as_next :: int
  as_rows :: "(AuditEntry \<times> json) list"

definition NewAuditStore :: AuditStore where
  "NewAuditStore = \<lparr>as_next = 1, as_rows = []\<rparr>"

definition as_Insert :: "fault \<Rightarrow> AuditEntry \<Rightarrow> AuditStore \<Rightarrow> error option \<times> AuditStore" where
  "as_Insert fault entry s = (case fault of
      Some (msg, e) \<Rightarrow> (Some (Wrapf msg [] e), s)
    | None \<Rightarrow> (None, s\<lparr>as_next := as_next s + 1,
        as_rows := as_rows s @ [(entry\<lparr>ae_ID := as_next s, ae_Operations := []\<rparr>, ops_json (ae_Operations entry))]\<rparr>))"

definition scanAuditRow :: "codec \<Rightarrow> AuditEntry \<times> json \<Rightarrow> AuditEntry result" where
  "scanAuditRow co row =
    (if int (length (co_text co (snd row))) > maxDecompressedSize
     then Err (Wrapf ''unmarshalling operations: %w'' [] (ErrOther ''unexpected end of JSON input''))
     else Ok ((fst row)\<lparr>ae_Operations := ops_of_json (snd row)\<rparr>))"

fun scanRows :: "codec \<Rightarrow> (AuditEntry \<times> json) list \<Rightarrow> AuditEntry list result" where
  "scanRows co [] = Ok []"
| "scanRows co (row # rows) = (case scanAuditRow co row of
      Err e \<Rightarrow> Err e
    | Ok entry \<Rightarrow> (case scanRows co rows of Err e \<Rightarrow> Err e | Ok entries \<Rightarrow> Ok (entry # entries)))"

definition as_Query :: "codec \<Rightarrow> fault \<Rightarrow> int \<Rightarrow> AuditStore \<Rightarrow> AuditEntry list result" where
  "as_Query co fault limit s =
    (let limit = (if limit \<le> 0 then 100 else limit)
     in case fault of
          Some (msg, e) \<Rightarrow> Err (Wrapf msg [] e)
        | None \<Rightarrow> scanRows co (take (nat limit) (sort_slice (\<lambda>a b. ae_ID (fst a) > ae_ID (fst b)) (as_rows s))))"

definition as_GetByID :: "codec \<Rightarrow> fault \<Rightarrow> int \<Rightarrow> AuditStore \<Rightarrow> AuditEntry result" where
  "as_GetByID co fault eid s = (case fault of
      Some (msg, e) \<Rightarrow> Err (Wrapf msg [] e)
    | None \<Rightarrow> (case find (\<lambda>r. ae_ID (fst r) = eid) (as_rows s) of
         None \<Rightarrow> Err (Errorf ''audit entry %d not found'' [AInt eid])
       | Some row \<Rightarrow> scanAuditRow co row))"

section \<open>What is recorded can be read\<close>

definition as_inv :: "AuditStore \<Rightarrow> bool" where
  "as_inv s = (\<forall>r \<in> set (as_rows s). ae_ID (fst r) < as_next s)"

lemma as_inv_New [simp]: "as_inv NewAuditStore"
  by (simp add: as_inv_def NewAuditStore_def)

lemma as_inv_Insert [simp]: "as_inv s \<Longrightarrow> as_inv (snd (as_Insert fault entry s))"
  by (auto simp: as_inv_def as_Insert_def split: option.splits)

definition stored_op :: "WriteOperation \<Rightarrow> WriteOperation" where
  "stored_op op = op\<lparr>op_Fields := row_through_json (op_Fields op)\<rparr>"

lemma row_through_json_Nil [simp]: "row_through_json [] = []"
  by (simp add: row_through_json_def marshal_row_def unmarshal_row_def)

lemma op_json_roundtrip: "op_of_json (op_json op) = stored_op op"
  by (cases op) (simp add: op_of_json_def op_json_def json_str_def stored_op_def flip: row_through_json_def)

lemma ops_json_roundtrip: "ops_of_json (ops_json ops) = map stored_op ops"
  by (simp add: ops_of_json_def ops_json_def op_json_roundtrip)

lemma find_snoc_other: "\<not> P x \<Longrightarrow> find P (xs @ [x]) = find P xs"
  by (induction xs) auto

lemma sort_slice_max_last:
  assumes "\<And>y. y \<in> set xs \<Longrightarrow> f y < (f x :: int)"
  shows "sort_slice (\<lambda>a b. f a > f b) (xs @ [x]) = x # sort_slice (\<lambda>a b. f a > f b) xs"
proof -
  have "sort_insert (\<lambda>a b. f a > f b) x ys = x # ys" if "set ys \<subseteq> set xs" for ys
    using that assms by (cases ys) auto
  from this [of "sort_slice (\<lambda>a b. f a > f b) xs"] show ?thesis
    by (simp add: sort_slice_snoc)
qed

text \<open>The audit log gives back what was recorded: the entry just inserted has a fresh id, is the first
  result of a query and the result of a lookup by that id, with every attribute as recorded and the
  operations' field values as JSON decodes them; earlier entries keep their place and content.\<close>

theorem audit_roundtrip:
  assumes "as_inv s" "as_Insert None entry s = (None, s')"
    and "int (length (co_text co (ops_json (ae_Operations entry)))) \<le> maxDecompressedSize"
  shows "as_GetByID co None (as_next s) s' = Ok (entry\<lparr>ae_ID := as_next s, ae_Operations := map stored_op (ae_Operations entry)\<rparr>) \<and>
    as_Query co None 1 s' = Ok [entry\<lparr>ae_ID := as_next s, ae_Operations := map stored_op (ae_Operations entry)\<rparr>] \<and>
    (\<forall>eid. eid \<noteq> as_next s \<longrightarrow> as_GetByID co None eid s' = as_GetByID co None eid s) \<and> as_inv s'"
proof -
  let ?row = "(entry\<lparr>ae_ID := as_next s, ae_Operations := []\<rparr>, ops_json (ae_Operations entry))"
  have s': "s' = s\<lparr>as_next := as_next s + 1, as_rows := as_rows s @ [?row]\<rparr>"
    using assms(2) by (simp add: as_Insert_def)
  have scan: "scanAuditRow co ?row = Ok (entry\<lparr>ae_ID := as_next s, ae_Operations := map stored_op (ae_Operations entry)\<rparr>)"
    using assms(3) by (simp add: scanAuditRow_def ops_json_roundtrip)
  have "sort_slice (\<lambda>a b. ae_ID (fst a) > ae_ID (fst b)) (as_rows s @ [?row]) =
      ?row # sort_slice (\<lambda>a b. ae_ID (fst a) > ae_ID (fst b)) (as_rows s)"
    using assms(1) by (intro sort_slice_max_last) (auto simp: as_inv_def)
  then have "as_Query co None 1 s' = Ok [entry\<lparr>ae_ID := as_next s, ae_Operations := map stored_op (ae_Operations entry)\<rparr>]"
    by (simp add: as_Query_def s' scan)
  moreover have "find (\<lambda>r. ae_ID (fst r) = as_next s) (as_rows s) = None"
    using assms(1) by (auto simp: as_inv_def find_None_iff)
  then have "as_GetByID co None (as_next s) s' = Ok (entry\<lparr>ae_ID := as_next s, ae_Operations := map stored_op (ae_Operations entry)\<rparr>)"
    by (simp add: as_GetByID_def s' find_append_None scan)
  moreover have "as_GetByID co None eid s' = as_GetByID co None eid s" if "eid \<noteq> as_next s" for eid
  proof -
    have "find (\<lambda>r. ae_ID (fst r) = eid) (as_rows s @ [?row]) = find (\<lambda>r. ae_ID (fst r) = eid) (as_rows s)"
      using that by (intro find_snoc_other) simp
    then show ?thesis by (simp add: as_GetByID_def s')
  qed
  moreover have "as_inv s'" using as_inv_Insert [OF assms(1), of None entry] assms(2) by simp
  ultimately show ?thesis by blast
qed

theorem audit_roundtrip_witness:
  "as_Query sample_codec None 1 (snd (as_Insert None \<lparr>ae_ID = 0, ae_Timestamp = 7, ae_PlanID = ''p'', ae_Actor = ''ops'',
      ae_Reason = [], ae_Operations = [], ae_SnapshotID = 3, ae_Result = ''success'', ae_Error = None\<rparr> NewAuditStore)) =
    Ok [\<lparr>ae_ID = 1, ae_Timestamp = 7, ae_PlanID = ''p'', ae_Actor = ''ops'', ae_Reason = [], ae_Operations = [],
      ae_SnapshotID = 3, ae_Result = ''success'', ae_Error = None\<rparr>]"
  using audit_roundtrip [OF as_inv_New, of "\<lparr>ae_ID = 0, ae_Timestamp = 7, ae_PlanID = ''p'', ae_Actor = ''ops'',
      ae_Reason = [], ae_Operations = [], ae_SnapshotID = 3, ae_Result = ''success'', ae_Error = None\<rparr>" _ sample_codec]
  by (simp add: as_Insert_def sample_codec_def maxDecompressedSize_def NewAuditStore_def)

end
