(* ===== verification/Write_Engine.thy ===== *)
theory Write_Engine
  imports Write_PlanCache Write_Validate Write_Audit
begin

text \<open>
  \<^verbatim>\<open>internal/write/engine.go\<close>: preview, apply, dry run and rollback of write plans.

  \<^item> \<open>'w\<close> is everything the OVSDB clients see (the servers and their caches) and \<open>'op\<close> an RFC 7047
    operation.  libovsdb's \<^verbatim>\<open>client.Client\<close> is the parameter record \<open>client\<close>: reading a row by UUID,
    encoding a create, an update of some fields, a delete and a wait, and \<^verbatim>\<open>Transact\<close>.  Field pointers
    are field indices, as in \<^verbatim>\<open>fieldPointersByTag\<close>.
  \<^item> \<open>Engine\<close> has the fields of the Go struct; its secret enters through \<open>e_hmac\<close>, the hex-encoded
    HMAC-SHA256 under that secret.  The history store and the audit store are part of it.
  \<^item> Every operation takes an \<open>env\<close>: the clock readings, the id that \<^verbatim>\<open>generateID\<close> draws, the faults
    SQLite answers with, and what other clients do to the world just before \<^verbatim>\<open>Transact\<close> runs.
  \<^item> \<^verbatim>\<open>Apply\<close> holds \<^verbatim>\<open>e.mu\<close>, so one call is one step.  A nil collector makes Go panic; here that is an
    error value.
\<close>

section \<open>The engine and its surroundings\<close>

record opresult =
  or_Error :: string

record ('w, 'op) client =
  cl_get :: "'w \<Rightarrow> string \<Rightarrow> string \<Rightarrow> model result"
  cl_create :: "string \<Rightarrow> model \<Rightarrow> 'op list result"
  cl_update :: "string \<Rightarrow> model \<Rightarrow> nat list \<Rightarrow> 'op list result"
  cl_delete :: "string \<Rightarrow> model \<Rightarrow> 'op list result"
  cl_wait :: "string \<Rightarrow> model \<Rightarrow> nat list \<Rightarrow> 'op list result"
  cl_transact :: "'op list \<Rightarrow> 'w \<Rightarrow> opresult list result \<times> 'w"

record ('w, 'op) Engine =
  e_nbClient :: "('w, 'op) client"
  e_sbClient :: "('w, 'op) client option"
  e_schema :: nb_schema
  e_view :: "'w \<Rightarrow> nb_view"
  e_check :: "opresult list \<Rightarrow> 'op list \<Rightarrow> error option"
  e_codec :: codec
  e_hmac :: "string \<Rightarrow> string"
  e_registry :: Registry
  e_collector :: "'w TableSource list option"
  e_resolver :: "('w \<Rightarrow> Resolver) option"
  e_nbReady :: "('w \<Rightarrow> bool) option"
  e_planTTL :: int
  e_plans :: PlanCache
  e_rateLimiter :: "rateLimiter option"
  e_history :: HStore
  e_auditStore :: AuditStore

record 'w env =
  ev_limit :: int
  ev_now :: int
  ev_id :: string
  ev_snapshot :: fault
  ev_rows :: fault
  ev_audit :: fault
  ev_drift :: "'w \<Rightarrow> 'w"

text \<open>\<^verbatim>\<open>NewEngine\<close> starts with an empty plan cache and, for a positive limit, a full bucket.\<close>

definition NewEngine ::
    "('w, 'op) Engine \<Rightarrow> int \<Rightarrow> int \<Rightarrow> int \<Rightarrow> ('w, 'op) Engine" where
  "NewEngine parts now planTTL rateLimit =
    parts\<lparr>e_plans := NewPlanCache planTTL, e_planTTL := planTTL, e_resolver := None, e_nbReady := None,
      e_rateLimiter := (if rateLimit > 0 then Some (newRateLimiter now rateLimit) else None)\<rparr>"

definition eng_SetResolver :: "('w \<Rightarrow> Resolver) \<Rightarrow> ('w, 'op) Engine \<Rightarrow> ('w, 'op) Engine" where
  "eng_SetResolver r e = e\<lparr>e_resolver := Some r\<rparr>"

definition eng_SetReadyFunc :: "('w \<Rightarrow> bool) \<Rightarrow> ('w, 'op) Engine \<Rightarrow> ('w, 'op) Engine" where
  "eng_SetReadyFunc f e = e\<lparr>e_nbReady := Some f\<rparr>"

definition eng_Schema :: "('w, 'op) Engine \<Rightarrow> TableSchema list" where
  "eng_Schema e = reg_Schema (e_registry e)"

text \<open>\<^verbatim>\<open>e.rateLimiter != nil && !e.rateLimiter.allow()\<close>.\<close>

definition admit :: "int \<Rightarrow> ('w, 'op) Engine \<Rightarrow> bool \<times> ('w, 'op) Engine" where
  "admit now e = (case e_rateLimiter e of
      None \<Rightarrow> (True, e)
    | Some rl \<Rightarrow> (let (ok, rl) = rl_allow now rl in (ok, e\<lparr>e_rateLimiter := Some rl\<rparr>)))"

section \<open>Reading and diffing\<close>

definition clientForTable :: "('w, 'op) Engine \<Rightarrow> string \<Rightarrow> ('w, 'op) client result" where
  "clientForTable e table = (case reg_Get (e_registry e) table of
      Err err \<Rightarrow> Err err
    | Ok spec \<Rightarrow>
        if ts_Database spec = ''sb'' then
          (case e_sbClient e of
             None \<Rightarrow> Err (Errorf ''SB client not available for table %q'' [AStr table])
           | Some c \<Rightarrow> Ok c)
        else Ok (e_nbClient e))"

definition readCurrentState :: "('w, 'op) Engine \<Rightarrow> 'w \<Rightarrow> string \<Rightarrow> string \<Rightarrow> row_map result" where
  "readCurrentState e w table uuid = (case reg_Get (e_registry e) table of
      Err err \<Rightarrow> Err err
    | Ok spec \<Rightarrow> (case clientForTable e table of
         Err err \<Rightarrow> Err err
       | Ok c \<Rightarrow> (case cl_get c w table uuid of
            Err err \<Rightarrow> Err (Wrapf ''row not found: %w'' [] err)
          | Ok m \<Rightarrow> Ok (ModelToMap (ts_ModelType spec) m))))"

definition overlay :: "row_map \<Rightarrow> row_map \<Rightarrow> row_map" where
  "overlay current flds = fold (\<lambda>(k, v). AList.update k v) flds current"

definition computeDiff :: "('w, 'op) Engine \<Rightarrow> 'w \<Rightarrow> WriteOperation \<Rightarrow> PlanDiff result" where
  "computeDiff e w op =
    (let diff = \<lparr>pd_Action = op_Action op, pd_Table = op_Table op, pd_UUID = op_UUID op,
           pd_Before = [], pd_After = [], pd_Fields = []\<rparr>;
         failed = (\<lambda>err. Err (Wrapf ''reading current state for %s/%s: %w''
           [AStr (op_Table op), AStr (op_UUID op)] err))
     in if op_Action op = ''create'' then Ok (diff\<lparr>pd_After := op_Fields op\<rparr>)
        else if op_Action op = ''update'' then
          (case readCurrentState e w (op_Table op) (op_UUID op) of
             Err err \<Rightarrow> failed err
           | Ok current \<Rightarrow>
               (let changes = map (\<lambda>(field, newVal). \<lparr>fc_Field = field, fc_OldValue = lookup_nil current field,
                      fc_NewValue = newVal\<rparr>) (op_Fields op)
                in Ok (diff\<lparr>pd_Before := current, pd_After := overlay current (op_Fields op),
                     pd_Fields := sort_slice (\<lambda>a b. fc_Field a < fc_Field b) changes\<rparr>)))
        else if op_Action op = ''delete'' then
          (case readCurrentState e w (op_Table op) (op_UUID op) of
             Err err \<Rightarrow> failed err
           | Ok current \<Rightarrow> Ok (diff\<lparr>pd_Before := current\<rparr>))
        else Ok diff)"

fun computeDiffs :: "('w, 'op) Engine \<Rightarrow> 'w \<Rightarrow> WriteOperation list \<Rightarrow> PlanDiff list result" where
  "computeDiffs e w [] = Ok []"
| "computeDiffs e w (op # ops) = (case computeDiff e w op of
      Err err \<Rightarrow> Err err
    | Ok d \<Rightarrow> (case computeDiffs e w ops of Err err \<Rightarrow> Err err | Ok ds \<Rightarrow> Ok (d # ds)))"

definition computeImpact :: "('w, 'op) Engine \<Rightarrow> 'w \<Rightarrow> WriteOperation list \<Rightarrow> ImpactEntry list" where
  "computeImpact e w ops = (case e_resolver e of
      None \<Rightarrow> []
    | Some resolver \<Rightarrow> concat (map (\<lambda>(i, op).
        if op_Action op \<noteq> ''delete'' \<or> op_UUID op = [] then []
        else case reg_Get (e_registry e) (op_Table op) of
            Err err \<Rightarrow> []
          | Ok spec \<Rightarrow> (case Resolve (resolver w) (ts_Database spec) (op_Table op) (op_UUID op) of
               Err err \<Rightarrow> []
             | Ok res \<Rightarrow> if is_TotalAffected (ir_Summary res) = 0 then []
                        else [\<lparr>ie_OperationIndex = i, ie_Result = res\<rparr>])) (enumerate 0 ops)))"

section \<open>Building transactions\<close>

definition hydrateWithUUID :: "row_map \<Rightarrow> string \<Rightarrow> gtype \<Rightarrow> model result" where
  "hydrateWithUUID flds uuid t = MapToModel (AList.update ''_uuid'' (GStr uuid) flds) t"

definition fieldTags :: "row_map \<Rightarrow> string list" where
  "fieldTags flds = gokeys flds"

definition buildOp :: "('w, 'op) client \<Rightarrow> TableSpec \<Rightarrow> WriteOperation \<Rightarrow> 'op list result" where
  "buildOp c spec op =
    (let t = ts_ModelType spec; row = AStr (op_Table op);
         building = (\<lambda>err. Err (Wrapf ''building %s row: %w'' [row] err))
     in if op_Action op = ''create'' then
          (case MapToModel (op_Fields op) t of
             Err err \<Rightarrow> building err
           | Ok m \<Rightarrow> (case cl_create c (op_Table op) m of
                Err err \<Rightarrow> Err (Wrapf ''encoding create for %s: %w'' [row] err)
              | Ok ops \<Rightarrow> Ok ops))
        else if op_Action op = ''update'' then
          (case hydrateWithUUID (op_Fields op) (op_UUID op) t of
             Err err \<Rightarrow> building err
           | Ok m \<Rightarrow> (case fieldPointersByTag t (fieldTags (op_Fields op)) of
                Err err \<Rightarrow> Err (Wrapf ''resolving update fields for %s: %w'' [row] err)
              | Ok ptrs \<Rightarrow> (case cl_update c (op_Table op) m ptrs of
                   Err err \<Rightarrow> Err (Wrapf ''encoding update for %s/%s: %w'' [row, AStr (op_UUID op)] err)
                 | Ok ops \<Rightarrow> Ok ops)))
        else if op_Action op = ''delete'' then
          (case hydrateWithUUID [] (op_UUID op) t of
             Err err \<Rightarrow> building err
           | Ok m \<Rightarrow> (case cl_delete c (op_Table op) m of
                Err err \<Rightarrow> Err (Wrapf ''encoding delete for %s/%s: %w'' [row, AStr (op_UUID op)] err)
              | Ok ops \<Rightarrow> Ok ops))
        else Err (Errorf ''unknown action %q'' [AStr (op_Action op)]))"

fun buildOVSDBOps :: "Registry \<Rightarrow> ('w, 'op) client \<Rightarrow> WriteOperation list \<Rightarrow> 'op list result" where
  "buildOVSDBOps reg c [] = Ok []"
| "buildOVSDBOps reg c (op # ops) = (case reg_Get reg (op_Table op) of
      Err err \<Rightarrow> Err err
    | Ok spec \<Rightarrow> (case buildOp c spec op of
         Err err \<Rightarrow> Err err
       | Ok os \<Rightarrow> (case buildOVSDBOps reg c ops of Err err \<Rightarrow> Err err | Ok rest \<Rightarrow> Ok (os @ rest))))"

definition waitSubset :: "WriteOperation \<Rightarrow> row_map \<Rightarrow> row_map" where
  "waitSubset op bef =
    fold (\<lambda>(k, v). AList.update k (lookup_nil bef k)) (op_Fields op) [(''_uuid'', GStr (op_UUID op))]"

definition buildWaitOp :: "('w, 'op) client \<Rightarrow> TableSpec \<Rightarrow> WriteOperation \<Rightarrow> row_map \<Rightarrow> 'op list result" where
  "buildWaitOp c spec op bef =
    (let t = ts_ModelType spec; args = [AStr (op_Table op), AStr (op_UUID op)];
         wait = (\<lambda>hydrated tags. case hydrated of
             Err err \<Rightarrow> Err (Wrapf ''hydrating wait row for %s/%s: %w'' args err)
           | Ok m \<Rightarrow> (case fieldPointersByTag t tags of
                Err err \<Rightarrow> Err err
              | Ok ptrs \<Rightarrow> (case cl_wait c (op_Table op) m ptrs of
                   Err err \<Rightarrow> Err (Wrapf ''building wait op for %s/%s: %w'' args err)
                 | Ok ops \<Rightarrow> Ok ops)))
     in if op_Action op = ''update'' then wait (MapToModel (waitSubset op bef) t) (gokeys (op_Fields op))
        else if op_Action op = ''delete'' then wait (hydrateWithUUID [] (op_UUID op) t) [''_uuid'']
        else Ok [])"

text \<open>The diffs are walked in step with the operations; a missing diff has no \<^verbatim>\<open>Before\<close>.\<close>

fun buildWaitOps :: "Registry \<Rightarrow> ('w, 'op) client \<Rightarrow> WriteOperation list \<Rightarrow> PlanDiff list \<Rightarrow> 'op list result" where
  "buildWaitOps reg c [] pdiffs = Ok []"
| "buildWaitOps reg c (op # ops) pdiffs = (case reg_Get reg (op_Table op) of
      Err err \<Rightarrow> Err err
    | Ok spec \<Rightarrow>
        (let bef = (case pdiffs of [] \<Rightarrow> [] | d # _ \<Rightarrow> pd_Before d)
         in case buildWaitOp c spec op bef of
              Err err \<Rightarrow> Err err
            | Ok os \<Rightarrow> (case buildWaitOps reg c ops (tl pdiffs) of Err err \<Rightarrow> Err err | Ok rest \<Rightarrow> Ok (os @ rest))))"

definition staleWait :: "nat \<Rightarrow> opresult list \<Rightarrow> opresult option" where
  "staleWait n reply = find (\<lambda>r. or_Error r \<noteq> []) (take n reply)"

definition transactOps ::
    "('w, 'op) Engine \<Rightarrow> ('w \<Rightarrow> 'w) \<Rightarrow> ('w, 'op) client \<Rightarrow> Plan \<Rightarrow> 'w \<Rightarrow> error option \<times> 'w" where
  "transactOps e drift c plan w =
    (case buildWaitOps (e_registry e) c (plan_Operations plan) (plan_Diffs plan) of
       Err err \<Rightarrow> (Some (Wrapf ''building wait operations: %w'' [] err), w)
     | Ok waitOps \<Rightarrow>
         (case buildOVSDBOps (e_registry e) c (plan_Operations plan) of
            Err err \<Rightarrow> (Some (Wrapf ''building OVSDB operations: %w'' [] err), w)
          | Ok mutationOps \<Rightarrow>
              (let allOps = waitOps @ mutationOps
               in case cl_transact c allOps (drift w) of
                    (Err err, w) \<Rightarrow> (Some (Wrapf ''transact: %w'' [] err), w)
                  | (Ok reply, w) \<Rightarrow>
                      (case staleWait (length waitOps) reply of
                         Some r \<Rightarrow> (Some (Wrapf ''%w: %s'' [AStr (or_Error r)] ErrStaleState), w)
                       | None \<Rightarrow>
                           (case e_check e reply allOps of
                              Some err \<Rightarrow> (Some (Wrapf ''operation failed: %w'' [] err), w)
                            | None \<Rightarrow> (None, w))))))"

section \<open>Tokens and audit\<close>

definition generateToken :: "('w, 'op) Engine \<Rightarrow> string \<Rightarrow> int \<Rightarrow> string" where
  "generateToken e planID snapshotID = e_hmac e (planID @ Itoa snapshotID)"

definition plan_reason :: "Plan \<Rightarrow> string" where
  "plan_reason plan = (case find (\<lambda>op. op_Reason op \<noteq> []) (plan_Operations plan) of
      None \<Rightarrow> [] | Some op \<Rightarrow> op_Reason op)"

definition recordAudit ::
    "'w env \<Rightarrow> Plan \<Rightarrow> string \<Rightarrow> int \<Rightarrow> string \<Rightarrow> error option \<Rightarrow> ('w, 'op) Engine \<Rightarrow> AuditEntry \<times> ('w, 'op) Engine" where
  "recordAudit env plan actor snapshotID res err e =
    (let entry = \<lparr>ae_ID = 0, ae_Timestamp = ev_now env, ae_PlanID = plan_ID plan, ae_Actor = actor,
           ae_Reason = plan_reason plan, ae_Operations = plan_Operations plan, ae_SnapshotID = snapshotID,
           ae_Result = res, ae_Error = err\<rparr>
     in (entry, e\<lparr>e_auditStore := snd (as_Insert (ev_audit env) entry (e_auditStore e))\<rparr>))"

definition engineValidateOps :: "('w, 'op) Engine \<Rightarrow> 'w \<Rightarrow> WriteOperation list \<Rightarrow> error option" where
  "engineValidateOps e w ops =
    validateOps (e_schema e) (e_view e w) (map_option (\<lambda>f. f w) (e_nbReady e)) ops (e_registry e)"

definition engineSnapshot ::
    "'w env \<Rightarrow> string \<Rightarrow> 'w \<Rightarrow> ('w, 'op) Engine \<Rightarrow> SnapshotMeta result \<times> ('w, 'op) Engine" where
  "engineSnapshot env trigger w e = (case e_collector e of
      None \<Rightarrow> (Err (ErrOther ''nil pointer dereference''), e)
    | Some sources \<Rightarrow>
        (let (r, h) = TakeSnapshot (e_codec e) (ev_snapshot env) (ev_now env) sources w trigger [] (e_history e)
         in (r, e\<lparr>e_history := h\<rparr>)))"

definition clientForOps :: "('w, 'op) Engine \<Rightarrow> WriteOperation list \<Rightarrow> ('w, 'op) client result" where
  "clientForOps e ops = (case ops of [] \<Rightarrow> Ok (e_nbClient e) | op # _ \<Rightarrow> clientForTable e (op_Table op))"

section \<open>The operations\<close>

definition Preview ::
    "'w env \<Rightarrow> WriteOperation list \<Rightarrow> 'w \<Rightarrow> ('w, 'op) Engine \<Rightarrow> Plan result \<times> ('w, 'op) Engine" where
  "Preview env ops w e =
    (let (ok, e) = admit (ev_limit env) e
     in if \<not> ok then (Err ErrRateLimited, e)
        else case engineValidateOps e w ops of
            Some err \<Rightarrow> (Err err, e)
          | None \<Rightarrow>
              (case computeDiffs e w ops of
                 Err err \<Rightarrow> (Err (Wrapf ''computing diffs: %w'' [] err), e)
               | Ok pdiffs \<Rightarrow>
                   (case engineSnapshot env ''write-preview'' w e of
                      (Err err, e) \<Rightarrow> (Err (Wrapf ''taking snapshot: %w'' [] err), e)
                    | (Ok snap, e) \<Rightarrow>
                        (let plan = \<lparr>plan_ID = ev_id env, plan_CreatedAt = ev_now env, plan_ExpiresAt = zero_time,
                               plan_Operations = ops, plan_Diffs = pdiffs, plan_SnapshotID = sm_ID snap,
                               plan_Status = ''pending'', plan_ApplyToken = generateToken e (ev_id env) (sm_ID snap),
                               plan_Impact = computeImpact e w ops, plan_Warnings = []\<rparr>;
                             (plan, plans) = pc_Store (ev_now env) plan (e_plans e)
                         in (Ok plan, e\<lparr>e_plans := plans\<rparr>)))))"

definition failPlan ::
    "'w env \<Rightarrow> Plan \<Rightarrow> string \<Rightarrow> int \<Rightarrow> error \<Rightarrow> ('w, 'op) Engine \<Rightarrow>
      (AuditEntry option \<times> error option) \<times> ('w, 'op) Engine" where
  "failPlan env plan actor snapshotID err e =
    (let (entry, e) = recordAudit env (plan\<lparr>plan_Status := ''failed''\<rparr>) actor snapshotID ''error'' (Some err) e
     in ((Some entry, Some err), e))"

definition Apply ::
    "'w env \<Rightarrow> string \<Rightarrow> string \<Rightarrow> string \<Rightarrow> 'w \<Rightarrow> ('w, 'op) Engine \<Rightarrow>
      (AuditEntry option \<times> error option) \<times> ('w, 'op) Engine \<times> 'w" where
  "Apply env planID token actor w e =
    (let (ok, e) = admit (ev_limit env) e
     in if \<not> ok then ((None, Some ErrRateLimited), e, w)
        else let (found, plans) = pc_Get (ev_now env) planID (e_plans e); e = e\<lparr>e_plans := plans\<rparr>
          in case found of
            None \<Rightarrow> ((None, Some (Errorf ''plan %q not found or expired'' [AStr planID])), e, w)
          | Some plan \<Rightarrow>
              (let e = e\<lparr>e_plans := pc_Delete planID (e_plans e)\<rparr>
               in if token \<noteq> generateToken e (plan_ID plan) (plan_SnapshotID plan)
                  then ((None, Some (Errorf ''invalid apply token'' [])), e, w)
                  else case engineValidateOps e w (plan_Operations plan) of
                      Some err \<Rightarrow> (let (r, e) = failPlan env plan actor 0 err e in (r, e, w))
                    | None \<Rightarrow>
                        (case engineSnapshot env ''write-apply'' w e of
                           (Err err, e) \<Rightarrow> ((None, Some (Wrapf ''taking pre-apply snapshot: %w'' [] err)), e, w)
                         | (Ok snap, e) \<Rightarrow>
                             (case clientForOps e (plan_Operations plan) of
                                Err err \<Rightarrow> (let (r, e) = failPlan env plan actor (sm_ID snap) err e in (r, e, w))
                              | Ok c \<Rightarrow>
                                  (case transactOps e (ev_drift env) c plan w of
                                     (Some err, w) \<Rightarrow> (let (r, e) = failPlan env plan actor (sm_ID snap) err e in (r, e, w))
                                   | (None, w) \<Rightarrow>
                                       (let (entry, e) = recordAudit env (plan\<lparr>plan_Status := ''applied''\<rparr>) actor
                                              (sm_ID snap) ''success'' None e
                                        in ((Some entry, None), e, w)))))))"

definition DryRun ::
    "'w env \<Rightarrow> WriteOperation list \<Rightarrow> 'w \<Rightarrow> ('w, 'op) Engine \<Rightarrow> Plan result \<times> ('w, 'op) Engine" where
  "DryRun env ops w e =
    (let (ok, e) = admit (ev_limit env) e
     in if \<not> ok then (Err ErrRateLimited, e)
        else case engineValidateOps e w ops of
            Some err \<Rightarrow> (Err err, e)
          | None \<Rightarrow>
              (case computeDiffs e w ops of
                 Err err \<Rightarrow> (Err (Wrapf ''computing diffs: %w'' [] err), e)
               | Ok pdiffs \<Rightarrow>
                   (Ok \<lparr>plan_ID = ev_id env, plan_CreatedAt = ev_now env, plan_ExpiresAt = zero_time,
                      plan_Operations = ops, plan_Diffs = pdiffs, plan_SnapshotID = 0, plan_Status = ''dry-run'',
                      plan_ApplyToken = [], plan_Impact = computeImpact e w ops, plan_Warnings = []\<rparr>, e)))"

definition eng_GetPlan :: "int \<Rightarrow> string \<Rightarrow> ('w, 'op) Engine \<Rightarrow> Plan option \<times> ('w, 'op) Engine" where
  "eng_GetPlan now pid e = (let (p, plans) = pc_Get now pid (e_plans e) in (p, e\<lparr>e_plans := plans\<rparr>))"

definition CancelPlan :: "int \<Rightarrow> string \<Rightarrow> ('w, 'op) Engine \<Rightarrow> bool \<times> ('w, 'op) Engine" where
  "CancelPlan now pid e =
    (let (p, plans) = pc_Get now pid (e_plans e); e = e\<lparr>e_plans := plans\<rparr>
     in case p of None \<Rightarrow> (False, e) | Some plan \<Rightarrow> (True, e\<lparr>e_plans := pc_Delete pid (e_plans e)\<rparr>))"

definition QueryAudit :: "fault \<Rightarrow> int \<Rightarrow> ('w, 'op) Engine \<Rightarrow> AuditEntry list result" where
  "QueryAudit fault limit e = as_Query (e_codec e) fault limit (e_auditStore e)"

definition GetAuditEntry :: "fault \<Rightarrow> int \<Rightarrow> ('w, 'op) Engine \<Rightarrow> AuditEntry result" where
  "GetAuditEntry fault eid e = as_GetByID (e_codec e) fault eid (e_auditStore e)"

text \<open>The background cleanup started by \<^verbatim>\<open>Start\<close>, for the ticks that fire.\<close>

definition eng_Start :: "int list \<Rightarrow> ('w, 'op) Engine \<Rightarrow> ('w, 'op) Engine" where
  "eng_Start ticks e = e\<lparr>e_plans := pc_StartCleanup ticks (e_plans e)\<rparr>"

section \<open>Rollback\<close>

definition jsonEqual :: "gval \<Rightarrow> gval \<Rightarrow> bool" where
  "jsonEqual a b = (json_of a = json_of b)"

definition groupByTable :: "SnapshotRow list \<Rightarrow> (string, (string, row_map) gomap) gomap" where
  "groupByTable rows = fold (\<lambda>r m.
      AList.update (sr_Table r) (AList.update (sr_UUID r) (sr_Data r)
        (case map_of m (sr_Table r) of None \<Rightarrow> [] | Some g \<Rightarrow> g)) m) rows []"

definition changedFields :: "row_map \<Rightarrow> row_map \<Rightarrow> row_map" where
  "changedFields snapData current =
    filter (\<lambda>(k, v). k \<noteq> ''_uuid'' \<and> \<not> jsonEqual v (lookup_nil current k)) snapData"

text \<open>One row of the snapshot: the operations and the warnings it adds.\<close>

definition rollbackRow ::
    "('w, 'op) Engine \<Rightarrow> 'w \<Rightarrow> int \<Rightarrow> string \<Rightarrow> string \<times> row_map \<Rightarrow> (WriteOperation list \<times> string list) result" where
  "rollbackRow e w snapshotID table row =
    (let (uuid, snapData) = row
     in case readCurrentState e w table uuid of
          Err err \<Rightarrow>
            if errors_Is err ErrNotFound
            then Ok ([], [''Rollback: '' @ table @ ''/'' @ uuid @ '' no longer exists; row recreation is not supported''])
            else Err (Wrapf ''reading current state for %s/%s: %w'' [AStr table, AStr uuid] err)
        | Ok current \<Rightarrow>
            (let flds = changedFields snapData current
             in Ok (if flds \<noteq> [] then [\<lparr>op_Action = ''update'', op_Table = table, op_UUID = uuid, op_Fields = flds,
                      op_Reason = ''Rollback: restore '' @ table @ ''/'' @ uuid @ '' from snapshot '' @ Itoa snapshotID\<rparr>]
                    else [], [])))"

fun collect2 :: "('a \<Rightarrow> ('b list \<times> 'c list) result) \<Rightarrow> 'a list \<Rightarrow> ('b list \<times> 'c list) result" where
  "collect2 f [] = Ok ([], [])"
| "collect2 f (x # xs) = (case f x of
      Err e \<Rightarrow> Err e
    | Ok (bs, cs) \<Rightarrow> (case collect2 f xs of Err e \<Rightarrow> Err e | Ok (bs', cs') \<Rightarrow> Ok (bs @ bs', cs @ cs')))"

definition rollbackTable ::
    "('w, 'op) Engine \<Rightarrow> 'w \<Rightarrow> int \<Rightarrow> string \<times> (string, row_map) gomap \<Rightarrow> (WriteOperation list \<times> string list) result" where
  "rollbackTable e w snapshotID tbl = (case reg_Get (e_registry e) (fst tbl) of
      Err err \<Rightarrow> Ok ([], [])
    | Ok _ \<Rightarrow> collect2 (rollbackRow e w snapshotID (fst tbl)) (snd tbl))"

definition rollbackOps ::
    "('w, 'op) Engine \<Rightarrow> 'w \<Rightarrow> int \<Rightarrow> SnapshotRow list \<Rightarrow> (WriteOperation list \<times> string list) result" where
  "rollbackOps e w snapshotID rows = collect2 (rollbackTable e w snapshotID) (groupByTable rows)"

text \<open>The plan returned by \<open>Preview\<close> is the cached one, so its warnings are set in both places.\<close>

definition Rollback ::
    "'w env \<Rightarrow> 'w env \<Rightarrow> int \<Rightarrow> 'w \<Rightarrow> ('w, 'op) Engine \<Rightarrow> Plan result \<times> ('w, 'op) Engine" where
  "Rollback env env' snapshotID w e =
    (let (ok, e) = admit (ev_limit env) e
     in if \<not> ok then (Err ErrRateLimited, e)
        else case e_collector e of
            None \<Rightarrow> (Err (Errorf ''rollback requires history collector'' []), e)
          | Some sources \<Rightarrow>
              (case GetSnapshotRows (e_codec e) (ev_rows env) snapshotID ''nb'' [] (e_history e) of
                 Err err \<Rightarrow> (Err (Wrapf ''loading snapshot rows: %w'' [] err), e)
               | Ok rows \<Rightarrow>
                   if rows = [] then (Err (Errorf ''snapshot %d not found or has no NB data'' [AInt snapshotID]), e)
                   else case rollbackOps e w snapshotID rows of
                       Err err \<Rightarrow> (Err err, e)
                     | Ok (ops, warnings) \<Rightarrow>
                         if ops = []
                         then (Ok \<lparr>plan_ID = ev_id env, plan_CreatedAt = ev_now env, plan_ExpiresAt = zero_time,
                                plan_Operations = [], plan_Diffs = [], plan_SnapshotID = 0, plan_Status = ''no-changes'',
                                plan_ApplyToken = [], plan_Impact = [], plan_Warnings = warnings\<rparr>, e)
                         else case Preview env' ops w e of
                             (Err err, e) \<Rightarrow> (Err err, e)
                           | (Ok plan, e) \<Rightarrow>
                               (let plan = plan\<lparr>plan_Warnings := warnings\<rparr>
                                in (Ok plan, e\<lparr>e_plans := (e_plans e)\<lparr>pc_plans :=
                                      AList.update (plan_ID plan) plan (pc_plans (e_plans e))\<rparr>\<rparr>))))"

section \<open>What each step leaves alone\<close>

lemma admit_keeps [simp]:
  "e_plans (snd (admit t e)) = e_plans e" "e_history (snd (admit t e)) = e_history e"
  "e_auditStore (snd (admit t e)) = e_auditStore e" "e_registry (snd (admit t e)) = e_registry e"
  "e_hmac (snd (admit t e)) = e_hmac e" "e_nbClient (snd (admit t e)) = e_nbClient e"
  "e_sbClient (snd (admit t e)) = e_sbClient e" "e_schema (snd (admit t e)) = e_schema e"
  "e_view (snd (admit t e)) = e_view e" "e_check (snd (admit t e)) = e_check e"
  "e_codec (snd (admit t e)) = e_codec e" "e_collector (snd (admit t e)) = e_collector e"
  "e_resolver (snd (admit t e)) = e_resolver e" "e_nbReady (snd (admit t e)) = e_nbReady e"
  "e_planTTL (snd (admit t e)) = e_planTTL e"
  by (simp_all add: admit_def split: option.splits prod.splits)

lemma engineSnapshot_keeps:
  assumes "engineSnapshot env trigger w e = (r, e')"
  shows "\<exists>h. e' = e\<lparr>e_history := h\<rparr>"
proof (cases "e_collector e")
  case None
  with assms have "e' = e\<lparr>e_history := e_history e\<rparr>" by (simp add: engineSnapshot_def)
  then show ?thesis by blast
qed (use assms in \<open>auto simp: engineSnapshot_def split: prod.splits\<close>)

text \<open>Which fields of the engine an expression depends on.\<close>

lemma reads_config [simp]:
  "engineValidateOps (e\<lparr>e_plans := p\<rparr>) w ops = engineValidateOps e w ops"
  "engineValidateOps (e\<lparr>e_history := h\<rparr>) w ops = engineValidateOps e w ops"
  "generateToken (e\<lparr>e_plans := p\<rparr>) = generateToken e"
  "generateToken (e\<lparr>e_history := h\<rparr>) = generateToken e"
  "clientForTable (e\<lparr>e_plans := p\<rparr>) t = clientForTable e t"
  "clientForTable (e\<lparr>e_history := h\<rparr>) t = clientForTable e t"
  "clientForOps (e\<lparr>e_plans := p\<rparr>) ops = clientForOps e ops"
  "clientForOps (e\<lparr>e_history := h\<rparr>) ops = clientForOps e ops"
  "transactOps (e\<lparr>e_plans := p\<rparr>) d c plan w = transactOps e d c plan w"
  "transactOps (e\<lparr>e_history := h\<rparr>) d c plan w = transactOps e d c plan w"
  by (simp_all add: engineValidateOps_def generateToken_def clientForTable_def clientForOps_def transactOps_def
      fun_eq_iff split: sum.splits option.splits list.splits prod.splits)

lemma admit_config [simp]:
  "engineValidateOps (snd (admit t e)) w ops = engineValidateOps e w ops"
  "generateToken (snd (admit t e)) = generateToken e"
  "clientForTable (snd (admit t e)) tbl = clientForTable e tbl"
  "clientForOps (snd (admit t e)) ops = clientForOps e ops"
  "transactOps (snd (admit t e)) d c plan w = transactOps e d c plan w"
  by (simp_all add: engineValidateOps_def generateToken_def clientForTable_def clientForOps_def transactOps_def
      fun_eq_iff split: sum.splits option.splits list.splits prod.splits)

text \<open>The outcomes of \<open>Apply\<close>, one lemma per phase.\<close>

lemma Apply_rate_limited:
  assumes "admit (ev_limit env) e = (False, e1)"
  shows "Apply env pid token actor w e = ((None, Some ErrRateLimited), e1, w)"
  using assms by (simp add: Apply_def)

lemma Apply_not_found:
  assumes "admit (ev_limit env) e = (True, e1)" "pc_Get (ev_now env) pid (e_plans e) = (None, plans)"
  shows "Apply env pid token actor w e =
    ((None, Some (Errorf ''plan %q not found or expired'' [AStr pid])), e1\<lparr>e_plans := plans\<rparr>, w)"
proof -
  have "e_plans e1 = e_plans e" using admit_keeps(1) [of "ev_limit env" e] assms(1) by simp
  with assms show ?thesis by (simp add: Apply_def)
qed

text \<open>The engine once a plan has been taken out of the cache.\<close>

definition consumed :: "'w env \<Rightarrow> string \<Rightarrow> ('w, 'op) Engine \<Rightarrow> ('w, 'op) Engine" where
  "consumed env pid e =
    (snd (admit (ev_limit env) e))\<lparr>e_plans := pc_Delete pid (snd (pc_Get (ev_now env) pid (e_plans e)))\<rparr>"

lemma consumed_keeps [simp]:
  "e_history (consumed env pid e) = e_history e" "e_auditStore (consumed env pid e) = e_auditStore e"
  "e_registry (consumed env pid e) = e_registry e" "e_hmac (consumed env pid e) = e_hmac e"
  "e_codec (consumed env pid e) = e_codec e"
  "engineValidateOps (consumed env pid e) w ops = engineValidateOps e w ops"
  "generateToken (consumed env pid e) = generateToken e"
  "clientForOps (consumed env pid e) ops = clientForOps e ops"
  "transactOps (consumed env pid e) d c plan w = transactOps e d c plan w"
  by (simp_all add: consumed_def)

lemma Apply_found:
  assumes "fst (admit (ev_limit env) e)" "fst (pc_Get (ev_now env) pid (e_plans e)) = Some plan"
  shows "Apply env pid token actor w e =
    (if token \<noteq> generateToken e (plan_ID plan) (plan_SnapshotID plan)
     then ((None, Some (Errorf ''invalid apply token'' [])), consumed env pid e, w)
     else case engineValidateOps e w (plan_Operations plan) of
         Some err \<Rightarrow> (let (r, e') = failPlan env plan actor 0 err (consumed env pid e) in (r, e', w))
       | None \<Rightarrow>
           (case engineSnapshot env ''write-apply'' w (consumed env pid e) of
              (Err err, e') \<Rightarrow> ((None, Some (Wrapf ''taking pre-apply snapshot: %w'' [] err)), e', w)
            | (Ok snap, e') \<Rightarrow>
                (case clientForOps e' (plan_Operations plan) of
                   Err err \<Rightarrow> (let (r, e'') = failPlan env plan actor (sm_ID snap) err e' in (r, e'', w))
                 | Ok c \<Rightarrow>
                     (case transactOps e' (ev_drift env) c plan w of
                        (Some err, w') \<Rightarrow> (let (r, e'') = failPlan env plan actor (sm_ID snap) err e' in (r, e'', w'))
                      | (None, w') \<Rightarrow>
                          (let (entry, e'') = recordAudit env (plan\<lparr>plan_Status := ''applied''\<rparr>) actor
                                 (sm_ID snap) ''success'' None e'
                           in ((Some entry, None), e'', w'))))))"
proof -
  obtain e1 where a: "admit (ev_limit env) e = (True, e1)" using assms(1) by (metis prod.collapse)
  obtain plans where g: "pc_Get (ev_now env) pid (e_plans e) = (Some plan, plans)"
    using assms(2) by (metis prod.collapse)
  have e1: "e_plans e1 = e_plans e" "generateToken e1 = generateToken e"
    "engineValidateOps e1 w (plan_Operations plan) = engineValidateOps e w (plan_Operations plan)"
    using admit_keeps(1) [of "ev_limit env" e] admit_config(1,2) [of "ev_limit env" e] a by simp_all
  have "consumed env pid e = e1\<lparr>e_plans := pc_Delete pid plans\<rparr>"
    by (simp add: consumed_def a g)
  then show ?thesis
    unfolding Apply_def by (cases "engineValidateOps e w (plan_Operations plan)") (simp_all add: a g e1)
qed

text \<open>Every successful apply passed each phase.\<close>

lemma Apply_success:
  assumes "Apply env pid token actor w e = ((r, None), e', w')"
  obtains plan snap c e1 entry where
    "fst (admit (ev_limit env) e)" "fst (pc_Get (ev_now env) pid (e_plans e)) = Some plan"
    "token = generateToken e (plan_ID plan) (plan_SnapshotID plan)"
    "engineValidateOps e w (plan_Operations plan) = None"
    "engineSnapshot env ''write-apply'' w (consumed env pid e) = (Ok snap, e1)"
    "clientForOps e (plan_Operations plan) = Ok c"
    "transactOps e (ev_drift env) c plan w = (None, w')"
    "recordAudit env (plan\<lparr>plan_Status := ''applied''\<rparr>) actor (sm_ID snap) ''success'' None e1 = (entry, e')"
    "r = Some entry"
proof -
  have ok: "fst (admit (ev_limit env) e)"
  proof (rule ccontr)
    assume "\<not> fst (admit (ev_limit env) e)"
    then obtain e1 where "admit (ev_limit env) e = (False, e1)" by (cases "admit (ev_limit env) e") auto
    from Apply_rate_limited [OF this, of pid token actor w] assms show False by simp
  qed
  then obtain e0 where e0: "admit (ev_limit env) e = (True, e0)" by (cases "admit (ev_limit env) e") auto
  have "fst (pc_Get (ev_now env) pid (e_plans e)) \<noteq> None"
  proof
    assume "fst (pc_Get (ev_now env) pid (e_plans e)) = None"
    then obtain p where "pc_Get (ev_now env) pid (e_plans e) = (None, p)"
      by (cases "pc_Get (ev_now env) pid (e_plans e)") auto
    from Apply_not_found [OF e0 this, of token actor w] assms show False by simp
  qed
  then obtain plan where plan: "fst (pc_Get (ev_now env) pid (e_plans e)) = Some plan" by blast
  note run = assms [unfolded Apply_found [OF ok plan]]
  then have tok: "token = generateToken e (plan_ID plan) (plan_SnapshotID plan)"
    and val: "engineValidateOps e w (plan_Operations plan) = None"
    by (auto simp: failPlan_def split: if_splits option.splits prod.splits)
  obtain sr e1 where snap: "engineSnapshot env ''write-apply'' w (consumed env pid e) = (sr, e1)" by force
  from engineSnapshot_keeps [OF snap] obtain h where e1: "e1 = (consumed env pid e)\<lparr>e_history := h\<rparr>" by blast
  from run tok val snap obtain meta where sr: "sr = Ok meta" by (cases sr) auto
  from run tok val snap sr obtain c where c: "clientForOps e (plan_Operations plan) = Ok c"
    by (cases "clientForOps e (plan_Operations plan)") (auto simp: e1 failPlan_def split: prod.splits)
  obtain te w2 where t: "transactOps e (ev_drift env) c plan w = (te, w2)" by force
  from run tok val snap sr c t have te: "te = None" "w2 = w'"
    by (cases te; auto simp: e1 failPlan_def split: prod.splits)+
  obtain entry e2 where a: "recordAudit env (plan\<lparr>plan_Status := ''applied''\<rparr>) actor (sm_ID meta) ''success'' None e1 = (entry, e2)"
    by force
  from run tok val snap sr c t te a have "r = Some entry" "e2 = e'"
    by (auto simp: e1 split: prod.splits)
  with ok plan tok val snap sr c t te a show ?thesis using that by blast
qed

end
