(* ===== verification/Write_Safety.thy ===== *)
theory Write_Safety
  imports Write_Engine
begin

text \<open>
  What the write engine guarantees: a plan is applied at most once, only with its own token, only while
  it is fresh and valid, and only if the columns it changes still hold the values shown in the preview;
  a refused or failed apply changes nothing; a previewed plan can be applied; a dry run has no effect;
  rollback proposes exactly the changed columns of the rows that still exist.

  The OVSDB server is outside this repository.  The statements that depend on it name what RFC 7047 and
  libovsdb promise as hypotheses: \<open>wait_law\<close> (an error-free wait means the row matched), \<open>atomic_law\<close> (a
  transaction with an error in its reply has no effect) and \<open>check_law\<close> (\<^verbatim>\<open>CheckOperationResults\<close> accepts
  only complete replies).
\<close>

section \<open>Plans are consumed\<close>

lemma recordAudit_plans [simp]:
  "e_plans (snd (recordAudit env plan actor sid res err e)) = e_plans e"
  "e_rateLimiter (snd (recordAudit env plan actor sid res err e)) = e_rateLimiter e"
  by (simp_all add: recordAudit_def)

lemma failPlan_simps [simp]:
  "e_plans (snd (failPlan env plan actor sid err e)) = e_plans e"
  "snd (fst (failPlan env plan actor sid err e)) = Some err"
  by (simp_all add: failPlan_def split: prod.splits) (metis recordAudit_plans(1) snd_conv)

lemma engineSnapshot_plans: "engineSnapshot env trigger w e = (r, e') \<Longrightarrow> e_plans e' = e_plans e"
  using engineSnapshot_keeps by fastforce

lemma Apply_plans_found:
  assumes "fst (admit (ev_limit env) e)" "fst (pc_Get (ev_now env) pid (e_plans e)) = Some plan"
    and "Apply env pid token actor w e = (r, e', w')"
  shows "e_plans e' = pc_Delete pid (snd (pc_Get (ev_now env) pid (e_plans e)))"
proof -
  have c: "e_plans (consumed env pid e) = pc_Delete pid (snd (pc_Get (ev_now env) pid (e_plans e)))"
    by (simp add: consumed_def)
  have f: "e_plans e2 = e_plans e1" if "failPlan env plan actor sid err e1 = (r', e2)" for sid err e1 r' e2
    using failPlan_simps(1) [of env plan actor sid err e1] that by simp
  have a: "e_plans e2 = e_plans e1" if "recordAudit env p actor sid res err e1 = (x, e2)" for p sid res err e1 x e2
    using recordAudit_plans(1) [of env p actor sid res err e1] that by simp
  show ?thesis
    using assms(3) unfolding Apply_found [OF assms(1,2)]
    by (auto simp: c split: if_splits option.splits prod.splits sum.splits dest!: f a engineSnapshot_plans)
qed

lemma Apply_removes:
  assumes "fst (admit (ev_limit env) e)" "Apply env pid token actor w e = (r, e', w')"
  shows "map_of (pc_plans (e_plans e')) pid = None"
proof (cases "fst (pc_Get (ev_now env) pid (e_plans e))")
  case None
  obtain e0 where e0: "admit (ev_limit env) e = (True, e0)" using assms(1) by (metis prod.collapse)
  obtain p where p: "pc_Get (ev_now env) pid (e_plans e) = (None, p)" using None by (metis prod.collapse)
  have "e_plans e' = p" using Apply_not_found [OF e0 p, of token actor w] assms(2) by auto
  then show ?thesis using map_of_pc_Get [of "ev_now env" pid "e_plans e" pid] p by simp
next
  case (Some plan)
  from Apply_plans_found [OF assms(1) Some assms(2)] show ?thesis by (simp add: pc_Delete_def)
qed

section \<open>The theorems\<close>



text \<open>A refused apply has no effect outside the plan cache and the rate limiter: with a wrong token, an
  unknown or expired plan, or an exhausted rate limit, there is an error, and the databases, the history
  and the audit log are as before.\<close>

theorem apply_refused_no_effect:
  assumes "Apply env pid token actor w e = ((r, err), e', w')"
    and "\<forall>plan. map_of (pc_plans (e_plans e)) pid = Some plan \<longrightarrow> ev_now env \<le> plan_ExpiresAt plan \<longrightarrow>
      token \<noteq> generateToken e (plan_ID plan) (plan_SnapshotID plan)"
  shows "r = None \<and> err \<noteq> None \<and> w' = w \<and> e_history e' = e_history e \<and> e_auditStore e' = e_auditStore e"
proof -
  obtain ok e0 where a: "admit (ev_limit env) e = (ok, e0)" by force
  have keep: "e_auditStore e0 = e_auditStore e" "e_history e0 = e_history e"
    using admit_keeps [of "ev_limit env" e] a by simp_all
  show ?thesis
  proof (cases ok)
    case False
    with a keep assms(1) Apply_rate_limited [of env e e0 pid token actor w] show ?thesis by auto
  next
    case True
    show ?thesis
    proof (cases "fst (pc_Get (ev_now env) pid (e_plans e))")
      case None
      then obtain p where "pc_Get (ev_now env) pid (e_plans e) = (None, p)" by (metis prod.collapse)
      with a True keep assms(1) Apply_not_found [of env e e0 pid p token actor w] show ?thesis by auto
    next
      case (Some plan)
      with assms(2) have "token \<noteq> generateToken e (plan_ID plan) (plan_SnapshotID plan)"
        by (simp add: pc_Get_Some_iff)
      with Apply_found [of env e pid plan token actor w] Some a True assms(1) show ?thesis by auto
    qed
  qed
qed

section \<open>Tokens\<close>

lemma itoa_nat_inj: "itoa_nat m = itoa_nat n \<Longrightarrow> m = n"
  by (metis digits_val_itoa_nat)

lemma Itoa_inj: "Itoa i = Itoa j \<Longrightarrow> i = j"
proof -
  assume eq: "Itoa i = Itoa j"
  have no_sign: "CHR ''-'' # s \<noteq> itoa_nat n" for s n
    using hd_itoa_nat by metis
  show "i = j"
    using eq no_sign no_sign [symmetric] by (auto simp: Itoa_def split: if_splits dest!: itoa_nat_inj)
qed

text \<open>A token is good for one plan and one snapshot only: if an apply of a plan succeeds with the token
  issued for plan \<open>q\<close> and snapshot \<open>j\<close>, then it was that plan and that snapshot, as long as the MAC does
  not collide on these two messages.  (Plan ids all have the same length, 32 hex digits.)\<close>

theorem token_binds_plan:
  assumes "pc_inv (e_plans e)" "map_of (pc_plans (e_plans e)) pid = Some plan"
    and "Apply env pid (generateToken e q j) actor w e = ((r, None), e', w')"
    and "length q = length pid"
    and "e_hmac e (q @ Itoa j) = e_hmac e (pid @ Itoa (plan_SnapshotID plan)) \<longrightarrow>
      q @ Itoa j = pid @ Itoa (plan_SnapshotID plan)"
  shows "q = pid \<and> j = plan_SnapshotID plan"
proof -
  obtain plan' where p: "fst (pc_Get (ev_now env) pid (e_plans e)) = Some plan'"
    "generateToken e q j = generateToken e (plan_ID plan') (plan_SnapshotID plan')"
    using assms(3) by (rule Apply_success)
  then have "plan' = plan" using assms(2) by (simp add: pc_Get_Some_iff)
  with p(2) pc_inv_lookup [OF assms(1,2)] assms(5) have "q @ Itoa j = pid @ Itoa (plan_SnapshotID plan)"
    by (simp add: generateToken_def)
  with assms(4) show ?thesis using Itoa_inj by (simp add: append_eq_append_conv)
qed

section \<open>Previews\<close>

lemma computeDiffs_nth:
  assumes "computeDiffs e w ops = Ok ds"
  shows "length ds = length ops" "i < length ops \<Longrightarrow> computeDiff e w (ops ! i) = Ok (ds ! i)"
proof -
  have "length ds = length ops \<and> (\<forall>i < length ops. computeDiff e w (ops ! i) = Ok (ds ! i))"
    using assms
  proof (induction ops arbitrary: ds)
    case (Cons op ops)
    then show ?case by (auto simp: nth_Cons split: sum.splits nat.splits)
  qed simp
  then show "length ds = length ops" "i < length ops \<Longrightarrow> computeDiff e w (ops ! i) = Ok (ds ! i)" by auto
qed

lemma map_of_overlay:
  assumes "gomap_ok flds"
  shows "map_of (overlay cur flds) k = (case map_of flds k of Some v \<Rightarrow> Some v | None \<Rightarrow> map_of cur k)"
  using assms unfolding overlay_def
proof (induction flds arbitrary: cur)
  case (Cons kv flds)
  obtain k0 v0 where kv: "kv = (k0, v0)" by force
  with Cons.prems have "map_of flds k0 = None" by (simp add: map_of_eq_None_iff)
  with Cons kv show ?case by (auto split: option.splits)
qed simp

text \<open>The preview shows exactly what an apply would change: there is one diff per operation, in order; a
  create shows the given fields; an update shows the current row, the same row with the given fields
  replaced, and one change per given field with its old and new value, sorted by field name; a delete
  shows the current row.\<close>

theorem computeDiffs_spec:
  assumes "computeDiffs e w ops = Ok ds" "i < length ops" "op = ops ! i" "d = ds ! i" "gomap_ok (op_Fields op)"
  shows "length ds = length ops \<and> pd_Action d = op_Action op \<and> pd_Table d = op_Table op \<and> pd_UUID d = op_UUID op \<and>
    (op_Action op = ''create'' \<longrightarrow> pd_Before d = [] \<and> pd_After d = op_Fields op \<and> pd_Fields d = []) \<and>
    (op_Action op \<in> {''update'', ''delete''} \<longrightarrow> readCurrentState e w (op_Table op) (op_UUID op) = Ok (pd_Before d)) \<and>
    (op_Action op = ''update'' \<longrightarrow>
      (\<forall>k. map_of (pd_After d) k = (case map_of (op_Fields op) k of Some v \<Rightarrow> Some v | None \<Rightarrow> map_of (pd_Before d) k)) \<and>
      set (pd_Fields d) = {\<lparr>fc_Field = k, fc_OldValue = lookup_nil (pd_Before d) k, fc_NewValue = v\<rparr> | k v.
        (k, v) \<in> set (op_Fields op)} \<and>
      sorted_wrt (\<lambda>a b. fc_Field a \<le> fc_Field b) (pd_Fields d)) \<and>
    (op_Action op = ''delete'' \<longrightarrow> pd_After d = [] \<and> pd_Fields d = [])"
proof -
  have d: "computeDiff e w op = Ok d" "length ds = length ops"
    using computeDiffs_nth [OF assms(1)] assms(2-4) by simp_all
  consider "op_Action op = ''update''" | "op_Action op \<noteq> ''update''" by blast
  then show ?thesis
  proof cases
    case 1
    with d(1) obtain cur where cur: "readCurrentState e w (op_Table op) (op_UUID op) = Ok cur"
      by (auto simp: computeDiff_def split: sum.splits)
    with d(1) 1 have deq: "d = \<lparr>pd_Action = op_Action op, pd_Table = op_Table op, pd_UUID = op_UUID op, pd_Before = cur,
        pd_After = overlay cur (op_Fields op), pd_Fields = sort_slice (\<lambda>a b. fc_Field a < fc_Field b)
          (map (\<lambda>(field, v). \<lparr>fc_Field = field, fc_OldValue = lookup_nil cur field, fc_NewValue = v\<rparr>) (op_Fields op))\<rparr>"
      by (simp add: computeDiff_def)
    have "set (pd_Fields d) = {\<lparr>fc_Field = k, fc_OldValue = lookup_nil (pd_Before d) k, fc_NewValue = v\<rparr> | k v.
        (k, v) \<in> set (op_Fields op)}"
      unfolding deq by force
    then show ?thesis
      using 1 cur d(2) sorted_sort_slice_asc [of fc_Field] map_of_overlay [OF assms(5)]
      by (simp add: deq split: option.splits)
  next
    case 2
    with d show ?thesis by (auto simp: computeDiff_def split: if_splits sum.splits)
  qed
qed

lemma Preview_Ok:
  assumes "Preview env ops w e = (Ok plan, e')"
  obtains pdiffs snap e1 where
    "fst (admit (ev_limit env) e)" "engineValidateOps e w ops = None"
    "computeDiffs (snd (admit (ev_limit env) e)) w ops = Ok pdiffs"
    "engineSnapshot env ''write-preview'' w (snd (admit (ev_limit env) e)) = (Ok snap, e1)"
    "plan = \<lparr>plan_ID = ev_id env, plan_CreatedAt = ev_now env, plan_ExpiresAt = ev_now env + pc_ttl (e_plans e),
       plan_Operations = ops, plan_Diffs = pdiffs, plan_SnapshotID = sm_ID snap, plan_Status = ''pending'',
       plan_ApplyToken = generateToken e (ev_id env) (sm_ID snap),
       plan_Impact = computeImpact (snd (admit (ev_limit env) e)) w ops, plan_Warnings = []\<rparr>"
    "e' = e1\<lparr>e_plans := (e_plans e)\<lparr>pc_plans := AList.update (ev_id env) plan (pc_plans (e_plans e))\<rparr>\<rparr>"
proof -
  obtain ok e0 where a: "admit (ev_limit env) e = (ok, e0)" by force
  note keeps = admit_keeps [of "ev_limit env" e, unfolded a snd_conv] admit_config [of "ev_limit env" e, unfolded a snd_conv]
  have ok: ok and val: "engineValidateOps e w ops = None"
    using assms keeps by (auto simp: Preview_def a split: if_splits option.splits)
  with assms a keeps obtain pdiffs where ds: "computeDiffs e0 w ops = Ok pdiffs"
    by (cases "computeDiffs e0 w ops") (simp_all add: Preview_def)
  obtain sr e1 where s: "engineSnapshot env ''write-preview'' w e0 = (sr, e1)" by force
  with assms a keeps ok val ds obtain snap where sr: "sr = Ok snap" by (cases sr) (simp_all add: Preview_def)
  from engineSnapshot_keeps [OF s] obtain h where e1: "e1 = e0\<lparr>e_history := h\<rparr>" by blast
  have reg: "e_registry e1 = e_registry e0" "e_resolver e1 = e_resolver e0" by (simp_all add: e1)
  have imp: "computeImpact e1 w ops = computeImpact e0 w ops"
    by (simp only: computeImpact_def reg)
  have "fst (admit (ev_limit env) e)" using a ok by simp
  then show ?thesis
    by (rule that [OF _ val, of pdiffs snap e1])
      (use assms a keeps ok val ds s sr imp e1 in \<open>simp_all add: Preview_def pc_Store_def\<close>, auto)
qed



text \<open>A dry run has no effect but on the rate limiter, and it shows what a preview at the same moment
  shows: the same diffs and the same impact.  Its plan carries no token and is not in the cache.\<close>

theorem dry_run_pure:
  assumes "DryRun env ops w e = (r, e')"
  shows "e' = snd (admit (ev_limit env) e) \<and> e_plans e' = e_plans e \<and> e_history e' = e_history e \<and>
    e_auditStore e' = e_auditStore e \<and>
    (\<forall>p p' e''. r = Ok p \<longrightarrow> Preview env ops w e = (Ok p', e'') \<longrightarrow>
      plan_Diffs p' = plan_Diffs p \<and> plan_Impact p' = plan_Impact p \<and> plan_Operations p' = plan_Operations p)"
proof -
  have e': "e' = snd (admit (ev_limit env) e)"
    using assms by (auto simp: DryRun_def split: prod.splits if_splits option.splits sum.splits)
  have "plan_Diffs p' = plan_Diffs p \<and> plan_Impact p' = plan_Impact p \<and> plan_Operations p' = plan_Operations p"
    if r: "r = Ok p" and pv: "Preview env ops w e = (Ok p', e'')" for p p' e''
  proof -
    obtain pdiffs s e0 where
      ok: "fst (admit (ev_limit env) e)" "engineValidateOps e w ops = None"
        "computeDiffs (snd (admit (ev_limit env) e)) w ops = Ok pdiffs" and
      p': "plan_Diffs p' = pdiffs" "plan_Impact p' = computeImpact (snd (admit (ev_limit env) e)) w ops"
        "plan_Operations p' = ops"
      using pv by (rule Preview_Ok) auto
    obtain e0 where a: "admit (ev_limit env) e = (True, e0)" using ok(1) by (metis prod.collapse)
    have "engineValidateOps e0 w ops = None" using ok(2) admit_config(1) [of "ev_limit env" e] a by simp
    with a ok(3) have "fst (DryRun env ops w e) = Ok \<lparr>plan_ID = ev_id env, plan_CreatedAt = ev_now env, plan_ExpiresAt = zero_time,
        plan_Operations = ops, plan_Diffs = pdiffs, plan_SnapshotID = 0, plan_Status = ''dry-run'',
        plan_ApplyToken = [], plan_Impact = computeImpact e0 w ops, plan_Warnings = []\<rparr>"
      by (simp add: DryRun_def)
    from sum.inject(2) [THEN iffD1, OF this [unfolded assms fst_conv r]]
    show ?thesis unfolding p' a snd_conv by (simp only: Plan.select_convs)
  qed
  then show ?thesis unfolding e' by (intro conjI admit_keeps refl) blast
qed

section \<open>Nothing is overwritten unseen\<close>

definition row_holds :: "model option \<Rightarrow> model \<Rightarrow> nat list \<Rightarrow> bool" where
  "row_holds row m ptrs = (case row of None \<Rightarrow> False
     | Some r \<Rightarrow> list_all (\<lambda>p. empty_nil (r ! p) = empty_nil (m ! p)) ptrs)"

text \<open>RFC 7047, as far as the engine relies on it; \<open>row\<close> is the row a server state holds.\<close>

definition wait_law :: "Registry \<Rightarrow> ('w, 'op) client \<Rightarrow> ('w \<Rightarrow> string \<Rightarrow> string \<Rightarrow> model option) \<Rightarrow> bool" where
  "wait_law reg c row \<longleftrightarrow> (\<forall>table spec m ptrs os pre post w reply w'.
     reg_Get reg table = Ok spec \<longrightarrow> cl_wait c table m ptrs = Ok os \<longrightarrow>
     cl_transact c (pre @ os @ post) w = (Ok reply, w') \<longrightarrow>
     (\<forall>i. length pre \<le> i \<longrightarrow> i < length pre + length os \<longrightarrow> i < length reply \<and> or_Error (reply ! i) = []) \<longrightarrow>
     row_holds (row w table (row_str (ts_ModelType spec) m ''_uuid'')) m ptrs)"

definition atomic_law :: "('w, 'op) client \<Rightarrow> bool" where
  "atomic_law c \<longleftrightarrow> (\<forall>ops w reply w'. cl_transact c ops w = (Ok reply, w') \<longrightarrow>
     (\<exists>r \<in> set reply. or_Error r \<noteq> []) \<longrightarrow> w' = w)"

definition check_law :: "(opresult list \<Rightarrow> 'op list \<Rightarrow> error option) \<Rightarrow> bool" where
  "check_law chk \<longleftrightarrow> (\<forall>reply ops. chk reply ops = None \<longrightarrow> length ops \<le> length reply)"

lemma buildWaitOps_nth:
  assumes "buildWaitOps reg c ops pdiffs = Ok waits" "i < length ops"
  shows "\<exists>spec pre os post. reg_Get reg (op_Table (ops ! i)) = Ok spec \<and> waits = pre @ os @ post \<and>
    buildWaitOp c spec (ops ! i) (if i < length pdiffs then pd_Before (pdiffs ! i) else []) = Ok os"
  using assms
proof (induction ops arbitrary: i pdiffs waits)
  case (Cons op ops)
  obtain spec os rest where first: "reg_Get reg (op_Table op) = Ok spec"
    "buildWaitOp c spec op (case pdiffs of [] \<Rightarrow> [] | d # _ \<Rightarrow> pd_Before d) = Ok os"
    "buildWaitOps reg c ops (tl pdiffs) = Ok rest" "waits = os @ rest"
    using Cons.prems(1) by (auto split: sum.splits)
  show ?case
  proof (cases i)
    case 0
    then show ?thesis
      using first by (cases pdiffs) (auto intro: exI [of _ "[]"])
  next
    case (Suc j)
    then have "j < length ops" using Cons.prems(2) by simp
    from Cons.IH [OF first(3) this] obtain spec' pre os' post where
      "reg_Get reg (op_Table (ops ! j)) = Ok spec'" "rest = pre @ os' @ post"
      "buildWaitOp c spec' (ops ! j) (if j < length (tl pdiffs) then pd_Before (tl pdiffs ! j) else []) = Ok os'"
      by blast
    then show ?thesis
      using first(4) Suc by (intro exI [of _ spec'] exI [of _ "os @ pre"] exI [of _ os'] exI [of _ post])
        (cases pdiffs, auto)
  qed
qed simp

lemma transactOps_success:
  assumes "transactOps e drift c plan w = (None, w')"
  obtains waits mutations reply where
    "buildWaitOps (e_registry e) c (plan_Operations plan) (plan_Diffs plan) = Ok waits"
    "buildOVSDBOps (e_registry e) c (plan_Operations plan) = Ok mutations"
    "cl_transact c (waits @ mutations) (drift w) = (Ok reply, w')"
    "\<forall>r \<in> set (take (length waits) reply). or_Error r = []"
    "e_check e reply (waits @ mutations) = None"
proof -
  obtain waits where w: "buildWaitOps (e_registry e) c (plan_Operations plan) (plan_Diffs plan) = Ok waits"
    using assms by (auto simp: transactOps_def split: sum.splits)
  with assms obtain mutations where m: "buildOVSDBOps (e_registry e) c (plan_Operations plan) = Ok mutations"
    by (auto simp: transactOps_def split: sum.splits)
  obtain t w2 where t: "cl_transact c (waits @ mutations) (drift w) = (t, w2)" by force
  with assms w m obtain reply where r: "t = Ok reply" by (cases t) (auto simp: transactOps_def)
  with assms w m t have s: "staleWait (length waits) reply = None"
    by (auto simp: transactOps_def split: option.splits)
  with assms w m t r have "e_check e reply (waits @ mutations) = None" "w2 = w'"
    by (auto simp: transactOps_def split: option.splits)
  with w m t r s show ?thesis using that by (auto simp: staleWait_def find_None_iff)
qed

text \<open>The wait of an update compares exactly the columns being set with the values of the preview.\<close>

lemma waitSubset_lookup:
  assumes "gomap_ok (op_Fields op)" "''_uuid'' \<notin> set (gokeys (op_Fields op))"
  shows "gomap_ok (waitSubset op before)" "map_of (waitSubset op before) ''_uuid'' = Some (GStr (op_UUID op))"
    "k \<in> set (gokeys (op_Fields op)) \<Longrightarrow> map_of (waitSubset op before) k = Some (lookup_nil before k)"
proof -
  have gen: "gomap_ok acc \<Longrightarrow> gomap_ok (fold (\<lambda>(k, v). AList.update k (lookup_nil before k)) flds acc)" for acc flds
    by (induction flds arbitrary: acc) auto
  have look: "map_of (fold (\<lambda>(k, v). AList.update k (lookup_nil before k)) flds acc) k =
      (if k \<in> set (gokeys flds) then Some (lookup_nil before k) else map_of acc k)" for acc flds k
    by (induction flds arbitrary: acc) auto
  show "gomap_ok (waitSubset op before)" unfolding waitSubset_def by (rule gen) simp
  show "map_of (waitSubset op before) ''_uuid'' = Some (GStr (op_UUID op))"
    using assms(2) unfolding waitSubset_def look by simp
  show "map_of (waitSubset op before) k = Some (lookup_nil before k)" if "k \<in> set (gokeys (op_Fields op))"
    using that unfolding waitSubset_def look by simp
qed

lemma empty_nil_idem [simp]: "empty_nil (empty_nil v) = empty_nil v"
  by (induction v rule: empty_nil.induct) auto

lemma row_str_index:
  assumes "all_tagged (struct_fields t)" "length m = length (struct_fields t)"
    and "i < length (struct_fields t)" "column_names (struct_fields t) ! i = col" "m ! i = GStr s"
  shows "row_str t m col = s"
proof -
  have "length (column_names (struct_fields t)) = length m" "distinct (column_names (struct_fields t))"
    using assms(1,2) by (auto simp: all_tagged_def column_names_tagged)
  moreover from this assms have "(col, GStr s) \<in> set (zip (column_names (struct_fields t)) m)"
    by (metis in_set_zip fst_conv snd_conv)
  ultimately have "map_of (zip (column_names (struct_fields t)) m) col = Some (GStr s)"
    by (simp add: map_of_eq_Some_iff)
  then show ?thesis by (simp add: row_str_def ModelToMap_zip [OF assms(1,2)])
qed

lemma lookup_nil_ModelToMap:
  assumes "all_tagged (struct_fields t)" "length m = length (struct_fields t)" "i < length (struct_fields t)"
  shows "lookup_nil (ModelToMap t m) (column_names (struct_fields t) ! i) = m ! i"
proof -
  have l: "length (column_names (struct_fields t)) = length m" "distinct (column_names (struct_fields t))"
    using assms(1,2) by (auto simp: all_tagged_def column_names_tagged)
  then have "map_of (zip (column_names (struct_fields t)) m) (column_names (struct_fields t) ! i) = Some (m ! i)"
    using assms by (intro map_of_zip_nth) auto
  then show ?thesis by (simp add: lookup_nil_def ModelToMap_zip [OF assms(1,2)])
qed

lemma uuid_index:
  assumes "spec_ok table spec"
  obtains i where "i < length (struct_fields (ts_ModelType spec))"
    "column_names (struct_fields (ts_ModelType spec)) ! i = ''_uuid''"
    "snd (struct_fields (ts_ModelType spec) ! i) = TString"
proof -
  let ?fs = "struct_fields (ts_ModelType spec)"
  from assms have "(''_uuid'', TString) \<in> set ?fs" by (simp add: spec_ok_def)
  then obtain i where i: "i < length ?fs" "?fs ! i = (''_uuid'', TString)" by (metis in_set_conv_nth)
  have "column_names ?fs ! i = the (ovsdb_tag ''_uuid'')"
    using assms i by (simp add: spec_ok_def all_tagged_def column_names_tagged)
  with i that show ?thesis by (simp add: ovsdb_tag_def)
qed

text \<open>The row a wait op was hydrated from: the row's identity, and the previewed values of the columns set.\<close>

lemma wait_row:
  assumes "spec_ok table spec" "gomap_ok (op_Fields op)" "''_uuid'' \<notin> set (gokeys (op_Fields op))"
    and "MapToModel (waitSubset op (ModelToMap (ts_ModelType spec) m0)) (ts_ModelType spec) = Ok m"
    and "list_all2 has_type m0 (map snd (struct_fields (ts_ModelType spec)))"
  shows "row_str (ts_ModelType spec) m ''_uuid'' = op_UUID op"
    and "\<forall>j < length (struct_fields (ts_ModelType spec)).
      column_names (struct_fields (ts_ModelType spec)) ! j \<in> set (gokeys (op_Fields op)) \<longrightarrow> m ! j = empty_nil (m0 ! j)"
proof -
  let ?t = "ts_ModelType spec" and ?fs = "struct_fields (ts_ModelType spec)"
  let ?sub = "waitSubset op (ModelToMap (ts_ModelType spec) m0)"
  have tagged: "all_tagged ?fs" using assms(1) by (simp add: spec_ok_def)
  note sub = waitSubset_lookup [where before = "ModelToMap ?t m0", OF assms(2,3)]
  have len: "length m0 = length ?fs" using assms(5) by (simp add: list_all2_iff)
  obtain i where i: "i < length ?fs" "column_names ?fs ! i = ''_uuid''" "snd (?fs ! i) = TString"
    by (rule uuid_index [OF assms(1)])
  have "m ! i = empty_nil (GStr (op_UUID op))"
    by (rule MapToModel_column [OF tagged sub(1) assms(4) i(1)]) (simp_all add: i sub(2))
  then show "row_str ?t m ''_uuid'' = op_UUID op"
    by (intro row_str_index [OF tagged MapToModel_length [OF assms(4)] i(1,2)]) simp
  show "\<forall>j < length ?fs. column_names ?fs ! j \<in> set (gokeys (op_Fields op)) \<longrightarrow> m ! j = empty_nil (m0 ! j)"
  proof (intro allI impI)
    fix j assume j: "j < length ?fs" "column_names ?fs ! j \<in> set (gokeys (op_Fields op))"
    then have "map_of ?sub (column_names ?fs ! j) = Some (m0 ! j)"
      using sub(3) lookup_nil_ModelToMap [OF tagged len j(1)] by simp
    moreover have "has_type (m0 ! j) (snd (?fs ! j))"
      using list_all2_nthD2 [OF assms(5), of j] j(1) by simp
    ultimately show "m ! j = empty_nil (m0 ! j)"
      by (rule MapToModel_column [OF tagged sub(1) assms(4) j(1)])
  qed
qed

lemma wait_results:
  assumes "\<forall>r \<in> set (take (length (pre @ os @ post)) reply). or_Error r = []"
    and "length (pre @ os @ post) \<le> length reply" "length pre \<le> i" "i < length pre + length os"
  shows "i < length reply \<and> or_Error (reply ! i) = []"
  using assms nth_mem [of i "take (length (pre @ os @ post)) reply"] by auto



lemma transactOps_stale:
  assumes "transactOps e drift c plan w = (Some (Wrapf ''%w: %s'' [AStr msg] ErrStaleState), w')" "atomic_law c"
  shows "w' = drift w"
proof -
  obtain waits where w: "buildWaitOps (e_registry e) c (plan_Operations plan) (plan_Diffs plan) = Ok waits"
    using assms(1) by (auto simp: transactOps_def split: sum.splits)
  with assms(1) obtain mutations where m: "buildOVSDBOps (e_registry e) c (plan_Operations plan) = Ok mutations"
    by (auto simp: transactOps_def split: sum.splits)
  obtain t w2 where t: "cl_transact c (waits @ mutations) (drift w) = (t, w2)" by force
  with assms(1) w m obtain reply where r: "t = Ok reply" by (cases t) (auto simp: transactOps_def)
  with assms(1) w m t have "w2 = w'" "staleWait (length waits) reply \<noteq> None"
    by (auto simp: transactOps_def split: option.splits)
  then have "\<exists>x \<in> set reply. or_Error x \<noteq> []"
    by (auto simp: staleWait_def find_Some_iff dest!: in_set_takeD [OF nth_mem] split: option.splits)
  with assms(2) t r \<open>w2 = w'\<close> show ?thesis unfolding atomic_law_def by blast
qed

lemma validateOps_not_stale: "validateOps schema view rdy ops reg \<noteq> Some (Wrapf ''%w: %s'' [AStr msg] ErrStaleState)"
proof -
  have "validateEach i ops reg \<noteq> Some (Wrapf f args x)" for i f args x
    by (induction ops arbitrary: i) (auto split: option.splits)
  moreover have "validateRefsEach schema view b i ops reg \<noteq> Some (Wrapf ''%w: %s'' [AStr msg] x)" for b i x
    by (induction ops arbitrary: i) (auto split: option.splits sum.splits)
  ultimately show ?thesis by (auto simp: validateOps_def split: option.splits)
qed

lemma clientForOps_not_wrapped: "clientForOps e ops \<noteq> Err (Wrapf f args x)"
  by (auto simp: clientForOps_def clientForTable_def reg_Get_def split: list.splits option.splits if_splits)


section \<open>Rollback\<close>

lemma groupByTable_snoc:
  "groupByTable (rows @ [r]) = AList.update (sr_Table r) (AList.update (sr_UUID r) (sr_Data r)
     (case map_of (groupByTable rows) (sr_Table r) of None \<Rightarrow> [] | Some g \<Rightarrow> g)) (groupByTable rows)"
  by (simp add: groupByTable_def)

lemma groupByTable_ok: "gomap_ok (groupByTable rows) \<and> (\<forall>t g. map_of (groupByTable rows) t = Some g \<longrightarrow> gomap_ok g)"
proof (induction rows rule: rev_induct)
  case Nil
  then show ?case by (simp add: groupByTable_def)
next
  case (snoc r rows)
  then show ?case by (auto simp: groupByTable_snoc split: option.splits)
qed

lemma groupByTable_rows:
  assumes "distinct (map (\<lambda>r. (sr_Table r, sr_UUID r)) rows)"
  shows "(\<exists>g. (t, g) \<in> set (groupByTable rows) \<and> (u, d) \<in> set g) \<longleftrightarrow>
    (\<exists>r \<in> set rows. sr_Table r = t \<and> sr_UUID r = u \<and> sr_Data r = d)"
proof -
  have "(\<exists>g. map_of (groupByTable rows) t = Some g \<and> map_of g u = Some d) \<longleftrightarrow>
    (\<exists>r \<in> set rows. sr_Table r = t \<and> sr_UUID r = u \<and> sr_Data r = d)"
    using assms
  proof (induction rows rule: rev_induct)
    case (snoc r rows)
    then have "\<forall>x \<in> set rows. \<not> (sr_Table x = sr_Table r \<and> sr_UUID x = sr_UUID r)" by (force simp: image_iff)
    with snoc show ?case by (auto simp: groupByTable_snoc split: option.splits)
  qed (simp add: groupByTable_def)
  moreover have "(t, g) \<in> set (groupByTable rows) \<longleftrightarrow> map_of (groupByTable rows) t = Some g" for g
    using groupByTable_ok by (simp add: map_of_eq_Some_iff)
  moreover have "(u, d) \<in> set g \<longleftrightarrow> map_of g u = Some d" if "map_of (groupByTable rows) t = Some g" for g
    using groupByTable_ok that by (metis map_of_eq_Some_iff)
  ultimately show ?thesis by metis
qed

lemma collect2_mem:
  assumes "collect2 f xs = Ok (bs, cs)"
  shows "x \<in> set xs \<Longrightarrow> \<exists>b c. f x = Ok (b, c)"
    "y \<in> set bs \<longleftrightarrow> (\<exists>x \<in> set xs. \<exists>b c. f x = Ok (b, c) \<and> y \<in> set b)"
    "z \<in> set cs \<longleftrightarrow> (\<exists>x \<in> set xs. \<exists>b c. f x = Ok (b, c) \<and> z \<in> set c)"
  using assms by (induction xs arbitrary: bs cs) (fastforce split: sum.splits prod.splits)+

lemma rollbackTable_mem:
  assumes "rollbackTable e w sid (t, g) = Ok (bs, cs)"
  shows "reg_Get (e_registry e) t = Ok spec \<Longrightarrow> (u, d) \<in> set g \<Longrightarrow> \<exists>b c. rollbackRow e w sid t (u, d) = Ok (b, c)"
    "y \<in> set bs \<longleftrightarrow> (\<exists>spec u d b c. reg_Get (e_registry e) t = Ok spec \<and> (u, d) \<in> set g \<and>
       rollbackRow e w sid t (u, d) = Ok (b, c) \<and> y \<in> set b)"
    "z \<in> set cs \<longleftrightarrow> (\<exists>spec u d b c. reg_Get (e_registry e) t = Ok spec \<and> (u, d) \<in> set g \<and>
       rollbackRow e w sid t (u, d) = Ok (b, c) \<and> z \<in> set c)"
proof -
  have *: "(\<exists>x \<in> set g. P x) \<longleftrightarrow> (\<exists>u d. (u, d) \<in> set g \<and> P (u, d))" for P by auto
  show "reg_Get (e_registry e) t = Ok spec \<Longrightarrow> (u, d) \<in> set g \<Longrightarrow> \<exists>b c. rollbackRow e w sid t (u, d) = Ok (b, c)"
    using assms collect2_mem(1) [of "rollbackRow e w sid t" g bs cs] by (auto simp: rollbackTable_def)
  show "y \<in> set bs \<longleftrightarrow> (\<exists>spec u d b c. reg_Get (e_registry e) t = Ok spec \<and> (u, d) \<in> set g \<and>
       rollbackRow e w sid t (u, d) = Ok (b, c) \<and> y \<in> set b)"
    "z \<in> set cs \<longleftrightarrow> (\<exists>spec u d b c. reg_Get (e_registry e) t = Ok spec \<and> (u, d) \<in> set g \<and>
       rollbackRow e w sid t (u, d) = Ok (b, c) \<and> z \<in> set c)"
    using assms collect2_mem(2,3) [of "rollbackRow e w sid t" g bs cs, unfolded *]
    by (cases "reg_Get (e_registry e) t"; simp add: rollbackTable_def)+
qed

lemma rollbackOps_mem:
  assumes "distinct (map (\<lambda>r. (sr_Table r, sr_UUID r)) rows)" "rollbackOps e w sid rows = Ok (ops, ws)"
  shows "r \<in> set rows \<Longrightarrow> reg_Get (e_registry e) (sr_Table r) = Ok spec \<Longrightarrow>
      \<exists>b c. rollbackRow e w sid (sr_Table r) (sr_UUID r, sr_Data r) = Ok (b, c)"
    "y \<in> set ops \<longleftrightarrow> (\<exists>r \<in> set rows. \<exists>spec b c. reg_Get (e_registry e) (sr_Table r) = Ok spec \<and>
       rollbackRow e w sid (sr_Table r) (sr_UUID r, sr_Data r) = Ok (b, c) \<and> y \<in> set b)"
    "z \<in> set ws \<longleftrightarrow> (\<exists>r \<in> set rows. \<exists>spec b c. reg_Get (e_registry e) (sr_Table r) = Ok spec \<and>
       rollbackRow e w sid (sr_Table r) (sr_UUID r, sr_Data r) = Ok (b, c) \<and> z \<in> set c)"
proof -
  have split: "(\<exists>r \<in> set rows. Q (sr_Table r) (sr_UUID r) (sr_Data r)) \<longleftrightarrow>
      (\<exists>t g u d. (t, g) \<in> set (groupByTable rows) \<and> (u, d) \<in> set g \<and> Q t u d)" for Q
  proof
    assume "\<exists>r \<in> set rows. Q (sr_Table r) (sr_UUID r) (sr_Data r)"
    then obtain r where "r \<in> set rows" "Q (sr_Table r) (sr_UUID r) (sr_Data r)" by blast
    with groupByTable_rows [OF assms(1), of "sr_Table r" "sr_UUID r" "sr_Data r"]
    show "\<exists>t g u d. (t, g) \<in> set (groupByTable rows) \<and> (u, d) \<in> set g \<and> Q t u d" by blast
  next
    assume "\<exists>t g u d. (t, g) \<in> set (groupByTable rows) \<and> (u, d) \<in> set g \<and> Q t u d"
    then obtain t g u d where "(t, g) \<in> set (groupByTable rows)" "(u, d) \<in> set g" "Q t u d" by blast
    with groupByTable_rows [OF assms(1), of t u d]
    show "\<exists>r \<in> set rows. Q (sr_Table r) (sr_UUID r) (sr_Data r)" by blast
  qed
  have tables: "(\<exists>x \<in> set (groupByTable rows). P x) \<longleftrightarrow> (\<exists>t g. (t, g) \<in> set (groupByTable rows) \<and> P (t, g))" for P
    by auto
  note tbl = collect2_mem [OF assms(2) [unfolded rollbackOps_def]]
  show "\<exists>b c. rollbackRow e w sid (sr_Table r) (sr_UUID r, sr_Data r) = Ok (b, c)"
    if r: "r \<in> set rows" "reg_Get (e_registry e) (sr_Table r) = Ok spec"
  proof -
    obtain g where g: "(sr_Table r, g) \<in> set (groupByTable rows)" "(sr_UUID r, sr_Data r) \<in> set g"
      using groupByTable_rows [OF assms(1), of "sr_Table r" "sr_UUID r" "sr_Data r"] r(1) by blast
    obtain b c where "rollbackTable e w sid (sr_Table r, g) = Ok (b, c)" using tbl(1) [OF g(1)] by blast
    from rollbackTable_mem(1) [OF this r(2) g(2)] show ?thesis .
  qed
  show "y \<in> set ops \<longleftrightarrow> (\<exists>r \<in> set rows. \<exists>spec b c. reg_Get (e_registry e) (sr_Table r) = Ok spec \<and>
       rollbackRow e w sid (sr_Table r) (sr_UUID r, sr_Data r) = Ok (b, c) \<and> y \<in> set b)"
    unfolding split [of "\<lambda>t u d. \<exists>spec b c. reg_Get (e_registry e) t = Ok spec \<and>
        rollbackRow e w sid t (u, d) = Ok (b, c) \<and> y \<in> set b"] tbl(2) tables
    using tbl(1) rollbackTable_mem(2) [of e w sid] by blast
  show "z \<in> set ws \<longleftrightarrow> (\<exists>r \<in> set rows. \<exists>spec b c. reg_Get (e_registry e) (sr_Table r) = Ok spec \<and>
       rollbackRow e w sid (sr_Table r) (sr_UUID r, sr_Data r) = Ok (b, c) \<and> z \<in> set c)"
    unfolding split [of "\<lambda>t u d. \<exists>spec b c. reg_Get (e_registry e) t = Ok spec \<and>
        rollbackRow e w sid t (u, d) = Ok (b, c) \<and> z \<in> set c"] tbl(3) tables
    using tbl(1) rollbackTable_mem(3) [of e w sid] by blast
qed

lemma rollbackRow_Ok:
  assumes "rollbackRow e w sid t (u, d) = Ok (b, c)"
  shows "(c = [] \<longleftrightarrow> (\<exists>cur. readCurrentState e w t u = Ok cur)) \<and>
    (\<lambda>op. (op_Action op, op_Table op, op_UUID op, op_Fields op)) ` set b =
      {(''update'', t, u, changedFields d cur) | cur. readCurrentState e w t u = Ok cur \<and> changedFields d cur \<noteq> []}"
  using assms by (auto simp: rollbackRow_def split: sum.splits if_splits)

lemma rollbackOps_warnings:
  assumes "distinct (map (\<lambda>r. (sr_Table r, sr_UUID r)) rows)" "rollbackOps e w sid rows = Ok (ops, warnings)"
  shows "warnings = [] \<longleftrightarrow> (\<forall>r \<in> set rows. \<forall>spec. reg_Get (e_registry e) (sr_Table r) = Ok spec \<longrightarrow>
        (\<exists>cur. readCurrentState e w (sr_Table r) (sr_UUID r) = Ok cur))" (is "_ \<longleftrightarrow> ?all")
proof
  note mem = rollbackOps_mem [OF assms]
  show ?all if none: "warnings = []"
  proof (intro ballI allI impI)
    fix r spec assume r: "r \<in> set rows" "reg_Get (e_registry e) (sr_Table r) = Ok spec"
    obtain b c where bc: "rollbackRow e w sid (sr_Table r) (sr_UUID r, sr_Data r) = Ok (b, c)" using mem(1) [OF r] by blast
    have "z \<notin> set c" for z using mem(3) [of z] none r bc by auto
    then have "c = []" by (cases c) auto
    with rollbackRow_Ok [OF bc] show "\<exists>cur. readCurrentState e w (sr_Table r) (sr_UUID r) = Ok cur" by simp
  qed
  show "warnings = []" if ex: ?all
  proof -
    have "z \<notin> set warnings" for z
      unfolding mem(3) using ex rollbackRow_Ok by (metis empty_iff list.set(1))
    then show ?thesis by (cases warnings) auto
  qed
qed

lemma rollbackOps_updates:
  assumes "distinct (map (\<lambda>r. (sr_Table r, sr_UUID r)) rows)" "rollbackOps e w sid rows = Ok (ops, warnings)"
  shows "set (map (\<lambda>op. (op_Action op, op_Table op, op_UUID op, op_Fields op)) ops) =
      {(''update'', sr_Table r, sr_UUID r, changedFields (sr_Data r) cur) | r cur spec. r \<in> set rows \<and>
        reg_Get (e_registry e) (sr_Table r) = Ok spec \<and>
        readCurrentState e w (sr_Table r) (sr_UUID r) = Ok cur \<and> changedFields (sr_Data r) cur \<noteq> []}" (is "?L = ?R")
proof (intro set_eqI iffI)
  note mem = rollbackOps_mem [OF assms]
  fix x
  show "x \<in> ?R" if "x \<in> ?L"
  proof -
    from that obtain op where op: "op \<in> set ops" "x = (op_Action op, op_Table op, op_UUID op, op_Fields op)" by auto
    from op(1) [unfolded mem(2)] obtain r spec b c where r: "r \<in> set rows" "reg_Get (e_registry e) (sr_Table r) = Ok spec"
      "rollbackRow e w sid (sr_Table r) (sr_UUID r, sr_Data r) = Ok (b, c)" "op \<in> set b" by blast
    from rollbackRow_Ok [OF r(3)] r(4) op(2) have "x \<in> {(''update'', sr_Table r, sr_UUID r, changedFields (sr_Data r) cur) | cur.
        readCurrentState e w (sr_Table r) (sr_UUID r) = Ok cur \<and> changedFields (sr_Data r) cur \<noteq> []}" by blast
    with r(1,2) show ?thesis by blast
  qed
  show "x \<in> ?L" if "x \<in> ?R"
  proof -
    from that obtain r cur spec where r: "r \<in> set rows" "reg_Get (e_registry e) (sr_Table r) = Ok spec"
      "readCurrentState e w (sr_Table r) (sr_UUID r) = Ok cur" "changedFields (sr_Data r) cur \<noteq> []"
      "x = (''update'', sr_Table r, sr_UUID r, changedFields (sr_Data r) cur)" by blast
    obtain b c where bc: "rollbackRow e w sid (sr_Table r) (sr_UUID r, sr_Data r) = Ok (b, c)" using mem(1) [OF r(1,2)] by blast
    from rollbackRow_Ok [OF bc] r(3-5)
    have "x \<in> (\<lambda>op. (op_Action op, op_Table op, op_UUID op, op_Fields op)) ` set b" by blast
    then obtain op where "op \<in> set b" "x = (op_Action op, op_Table op, op_UUID op, op_Fields op)" by blast
    moreover from this(1) r(1,2) bc have "op \<in> set ops" unfolding mem(2) by blast
    ultimately show ?thesis by simp
  qed
qed

text \<open>Setting the changed columns makes every column of the snapshot row equal, as JSON, to the snapshot.\<close>

lemma changedFields_restore:
  assumes "gomap_ok d" "(k, v) \<in> set d" "k \<noteq> ''_uuid''"
  shows "jsonEqual v (lookup_nil (overlay cur (changedFields d cur)) k)"
proof (cases "jsonEqual v (lookup_nil cur k)")
  case True
  have "(k, v') \<notin> set (changedFields d cur)" for v'
    using assms True eq_key_imp_eq_value [of d k v v'] by (auto simp: changedFields_def)
  then have "map_of (changedFields d cur) k = None" by (auto simp: map_of_eq_None_iff)
  with True show ?thesis
    using assms(1) by (simp add: lookup_nil_def map_of_overlay changedFields_def distinct_map_filter)
next
  case False
  have ok: "gomap_ok (changedFields d cur)"
    using assms(1) by (simp add: changedFields_def distinct_map_filter)
  moreover have "(k, v) \<in> set (changedFields d cur)"
    using assms(2,3) False by (simp add: changedFields_def)
  ultimately have "map_of (changedFields d cur) k = Some v" by (simp add: map_of_eq_Some_iff)
  with ok show ?thesis by (simp add: lookup_nil_def map_of_overlay jsonEqual_def)
qed


end
