(* ===== verification/NW_Rows.thy ===== *)
theory NW_Rows
  imports NW_Prelude
begin

text \<open>
  Rows of the southbound database as records, with the columns that the failover planner, the propagation
  tracker and the alert rules read (\<^verbatim>\<open>internal/ovsdb/sb\<close>), and the lookup tables they build from a listing.
\<close>

record SBHAChassisGroup =
  sg_UUID :: string
  sg_Name :: string
  sg_HaChassis :: "string list"

record SBHAChassis =
  sh_UUID :: string
  sh_Chassis :: "string option"
  sh_Priority :: int

record SBChassis =
  sc_UUID :: string
  sc_Name :: string
  sc_Hostname :: string

record ChassisPrivate =
  cp_Name :: string
  cp_NbCfg :: int
  cp_NbCfgTimestamp :: int

record PortBinding =
  pb_LogicalPort :: string
  pb_Type :: string
  pb_Up :: "bool option"
  pb_Chassis :: "string option"

record BFD =
  bf_ChassisName :: string
  bf_DstIP :: string
  bf_LogicalPort :: string
  bf_Status :: string

text \<open>A map from UUID (or name) to row, filled in list order, so that the last row with a key wins.\<close>

definition byUUID :: "('a \<Rightarrow> string) \<Rightarrow> 'a list \<Rightarrow> (string, 'a) gomap" where
  "byUUID uuid rows = fold (\<lambda>r. AList.update (uuid r) r) rows []"

lemma byUUID_keys: "map_of (byUUID f rows) u = Some r \<Longrightarrow> f r = u"
proof -
  have "map_of (fold (\<lambda>r. AList.update (f r) r) rows acc) u = Some r \<Longrightarrow>
      (\<forall>u r. map_of acc u = Some r \<longrightarrow> f r = u) \<Longrightarrow> f r = u" for acc
    by (induction rows arbitrary: acc) (auto split: if_splits)
  from this [of "[]"] show "map_of (byUUID f rows) u = Some r \<Longrightarrow> f r = u" by (simp add: byUUID_def)
qed

text \<open>The arrow in some messages, as its UTF-8 bytes.\<close>

definition arrow :: string where
  "arrow = [CHR 0xE2, CHR 0x86, CHR 0x92]"

text \<open>The dash in some messages, as its UTF-8 bytes.\<close>

definition dash :: string where
  "dash = [CHR 0xE2, CHR 0x80, CHR 0x94]"

end
