(* ===== verification/Write_Failover.thy ===== *)
theory Write_Failover
  imports Write_Safety NW_Rows
begin

text \<open>
  \<^verbatim>\<open>internal/write/failover.go\<close>: HA failover, evacuation and restoration of chassis as write plans.

  \<^item> The rows are records with the columns this file reads; \<open>ha_view\<close> is what listing the northbound and
    southbound caches returns (\<open>None\<close> stands for a client that is not configured).
  \<^item> \<^verbatim>\<open>collectAllGroups\<close> returns a Go map, and its callers range over it in an order Go does not fix: the
    parameter \<open>order\<close> is that order, any rearrangement of the entries.
  \<^item> The reasons of the operations contain an em dash and an arrow, which are byte sequences here.
\<close>

section \<open>Rows\<close>

record HAChassisGroup =
  hg_UUID :: string
  hg_Name :: string
  hg_HaChassis :: "string list"

record HAChassis =
  hc_UUID :: string
  hc_ChassisName :: string
  hc_Priority :: int
  hc_ExternalIDs :: "(string, string) gomap"

record LogicalRouterPort =
  lrp_UUID :: string
  lrp_Name :: string
  lrp_GatewayChassis :: "string list"

record GatewayChassis =
  gc_UUID :: string
  gc_ChassisName :: string
  gc_Priority :: int
  gc_ExternalIDs :: "(string, string) gomap"

record nb_lists =
  nl_haGroups :: "HAChassisGroup list result"
  nl_haChassis :: "HAChassis list result"
  nl_lrps :: "LogicalRouterPort list result"
  nl_gwChassis :: "GatewayChassis list result"

record sb_lists =
  sl_groups :: "SBHAChassisGroup list result"
  sl_haChassis :: "SBHAChassis list result"
  sl_chassis :: "SBChassis list result"

record ha_view =
  hv_nb :: "nb_lists option"
  hv_sb :: "sb_lists option"

section \<open>Groups\<close>

definition drainPriorityKey :: string where
  "drainPriorityKey = ''northwatch:pre-drain-priority''"

record chassisMember =
  cm_UUID :: string
  cm_Table :: string
  cm_ChassisName :: string
  cm_Priority :: int
  cm_ExternalIDs :: "(string, string) gomap"

record resolvedGroup =
  rg_Name :: string
  rg_Members :: "chassisMember list"

type_synonym groups = "(string, resolvedGroup) gomap"

definition haMember :: "HAChassis \<Rightarrow> chassisMember" where
  "haMember hc = \<lparr>cm_UUID = hc_UUID hc, cm_Table = ''HA_Chassis'', cm_ChassisName = hc_ChassisName hc,
     cm_Priority = hc_Priority hc, cm_ExternalIDs = hc_ExternalIDs hc\<rparr>"

definition gwMember :: "GatewayChassis \<Rightarrow> chassisMember" where
  "gwMember gw = \<lparr>cm_UUID = gc_UUID gw, cm_Table = ''Gateway_Chassis'', cm_ChassisName = gc_ChassisName gw,
     cm_Priority = gc_Priority gw, cm_ExternalIDs = gc_ExternalIDs gw\<rparr>"

definition membersOf :: "('a \<Rightarrow> chassisMember) \<Rightarrow> (string, 'a) gomap \<Rightarrow> string list \<Rightarrow> chassisMember list" where
  "membersOf conv rows uuids = List.map_filter (\<lambda>u. map_option conv (map_of rows u)) uuids"

definition collectHAGroups :: "HAChassisGroup list \<Rightarrow> HAChassis list \<Rightarrow> groups \<Rightarrow> groups" where
  "collectHAGroups haGroups haChassis result = fold (\<lambda>g. AList.update (hg_UUID g)
     \<lparr>rg_Name = hg_Name g, rg_Members = membersOf haMember (byUUID hc_UUID haChassis) (hg_HaChassis g)\<rparr>) haGroups result"

definition collectGateways :: "LogicalRouterPort list \<Rightarrow> GatewayChassis list \<Rightarrow> groups \<Rightarrow> groups" where
  "collectGateways lrps gwChassis result = fold (\<lambda>lrp acc.
     let members = membersOf gwMember (byUUID gc_UUID gwChassis) (lrp_GatewayChassis lrp)
     in if lrp_GatewayChassis lrp = [] \<or> members = [] then acc
        else AList.update (lrp_UUID lrp) \<lparr>rg_Name = lrp_Name lrp, rg_Members = members\<rparr> acc) lrps result"

definition collectAllGroups :: "ha_view \<Rightarrow> groups result" where
  "collectAllGroups view = (case hv_nb view of
     None \<Rightarrow> Err (Errorf ''NB client not available'' [])
   | Some nb \<Rightarrow> (case nl_haGroups nb of
       Err err \<Rightarrow> Err (Wrapf ''listing HA_Chassis_Groups: %w'' [] err)
     | Ok haGroups \<Rightarrow> (case nl_haChassis nb of
         Err err \<Rightarrow> Err (Wrapf ''listing HA_Chassis: %w'' [] err)
       | Ok haChassis \<Rightarrow> (case nl_lrps nb of
           Err err \<Rightarrow> Err (Wrapf ''listing Logical_Router_Ports: %w'' [] err)
         | Ok lrps \<Rightarrow> (case nl_gwChassis nb of
             Err err \<Rightarrow> Err (Wrapf ''listing Gateway_Chassis: %w'' [] err)
           | Ok gwChassis \<Rightarrow> Ok (collectGateways lrps gwChassis (collectHAGroups haGroups haChassis [])))))))"

section \<open>Finding a group by name\<close>

text \<open>\<^verbatim>\<open>strings.Join\<close> with a separator of one byte.\<close>

fun join_with :: "char \<Rightarrow> string list \<Rightarrow> string" where
  "join_with c [] = []"
| "join_with c [s] = s"
| "join_with c (s # ss) = s @ c # join_with c ss"

definition nameKey :: "string list \<Rightarrow> string" where
  "nameKey names = (let names = filter (\<lambda>n. n \<noteq> []) names in
     if names = [] then [] else join_with (CHR 0x00) (sort_slice (<) names))"

definition chassisNameKey :: "string list \<Rightarrow> (string \<Rightarrow> string) \<Rightarrow> string" where
  "chassisNameKey uuids resolve = nameKey (map resolve uuids)"

definition chassisNameKeyFromMembers :: "chassisMember list \<Rightarrow> string" where
  "chassisNameKeyFromMembers members = nameKey (map cm_ChassisName members)"

text \<open>The chassis name of a southbound HA_Chassis row; \<open>''''\<close> when the row or its chassis is missing.\<close>

definition sbChassisName :: "SBHAChassis list \<Rightarrow> SBChassis list \<Rightarrow> string \<Rightarrow> string" where
  "sbChassisName haChassis chassis uuid = (case map_of (byUUID sh_UUID haChassis) uuid of
     None \<Rightarrow> []
   | Some hc \<Rightarrow> (case sh_Chassis hc of
       None \<Rightarrow> []
     | Some c \<Rightarrow> (case map_of (byUUID sc_UUID chassis) c of None \<Rightarrow> [] | Some ch \<Rightarrow> sc_Name ch)))"

definition disambiguateViaSBUnified :: "sb_lists \<Rightarrow> string \<Rightarrow> resolvedGroup list \<Rightarrow> resolvedGroup option" where
  "disambiguateViaSBUnified sb sbGroupName candidates = (case sl_groups sb of
     Err _ \<Rightarrow> None
   | Ok sbGroups \<Rightarrow> (case find (\<lambda>g. sg_Name g = sbGroupName) sbGroups of
       None \<Rightarrow> None
     | Some sbGroup \<Rightarrow> (case sl_haChassis sb of
         Err _ \<Rightarrow> None
       | Ok haChassis \<Rightarrow> (case sl_chassis sb of
           Err _ \<Rightarrow> None
         | Ok chassis \<Rightarrow>
             (let sbKey = chassisNameKey (sg_HaChassis sbGroup) (sbChassisName haChassis chassis)
              in if sbKey = [] then None
                 else find (\<lambda>c. chassisNameKeyFromMembers (rg_Members c) = sbKey) candidates)))))"

definition resolveGroupUnified ::
    "(groups \<Rightarrow> groups) \<Rightarrow> ha_view \<Rightarrow> string \<Rightarrow> string \<Rightarrow> resolvedGroup result" where
  "resolveGroupUnified order view groupName targetChassisName = (case collectAllGroups view of
     Err err \<Rightarrow> Err err
   | Ok allGroups \<Rightarrow>
       (let rgs = map snd (order allGroups);
            notFound = Err (InputError ''HA_Chassis_Group %q not found'' [AStr groupName])
        in case find (\<lambda>rg. rg_Name rg = groupName) rgs of
             Some rg \<Rightarrow> Ok rg
           | None \<Rightarrow>
               if targetChassisName = [] then notFound
               else (let candidates = filter (\<lambda>rg. \<exists>m \<in> set (rg_Members rg). cm_ChassisName m = targetChassisName) rgs
                     in case candidates of
                          [] \<Rightarrow> notFound
                        | [c] \<Rightarrow> Ok c
                        | _ \<Rightarrow> (case (case hv_sb view of None \<Rightarrow> None
                                     | Some sb \<Rightarrow> disambiguateViaSBUnified sb groupName candidates) of
                                Some found \<Rightarrow> Ok found
                              | None \<Rightarrow> Err (InputError ''HA_Chassis_Group %q not found; chassis %q appears in %d groups''
                                  [AStr groupName, AStr targetChassisName, AInt (int (length candidates))])))))"

section \<open>Failover\<close>

definition swapMemberPriorityOps :: "chassisMember \<Rightarrow> chassisMember \<Rightarrow> string \<Rightarrow> WriteOperation list" where
  "swapMemberPriorityOps a b reason =
    [\<lparr>op_Action = ''update'', op_Table = cm_Table a, op_UUID = cm_UUID a,
       op_Fields = [(''priority'', GInt (cm_Priority b))], op_Reason = reason\<rparr>,
     \<lparr>op_Action = ''update'', op_Table = cm_Table b, op_UUID = cm_UUID b,
       op_Fields = [(''priority'', GInt (cm_Priority a))], op_Reason = reason\<rparr>]"

definition quoted :: "string \<Rightarrow> string" where
  "quoted s = [CHR 0x27] @ s @ [CHR 0x27]"

definition em_dash :: string where
  "em_dash = [CHR 0xE2, CHR 0x80, CHR 0x94]"

definition bumpPriority :: "int \<Rightarrow> int" where
  "bumpPriority p = (let newPrio = p + 1 in if newPrio > 32767 then p - 1 else newPrio)"

definition failoverOps :: "resolvedGroup \<Rightarrow> string \<Rightarrow> WriteOperation list result" where
  "failoverOps rg targetChassisName =
    (if length (rg_Members rg) < 2
     then Err (InputError ''group %q has fewer than 2 chassis entries'' [AStr (rg_Name rg)])
     else let members = sort_slice (\<lambda>a b. cm_Priority a > cm_Priority b) (rg_Members rg);
              active = hd members
          in case find (\<lambda>m. cm_ChassisName m = targetChassisName) members of
               None \<Rightarrow> Err (InputError ''chassis %q not found in group %q'' [AStr targetChassisName, AStr (rg_Name rg)])
             | Some target \<Rightarrow>
                 if cm_UUID target = cm_UUID active
                 then Ok [\<lparr>op_Action = ''update'', op_Table = cm_Table target, op_UUID = cm_UUID target,
                   op_Fields = [(''priority'', GInt (bumpPriority (cm_Priority target)))],
                   op_Reason = ''HA Failover: bump priority for '' @ quoted (cm_ChassisName target) @ '' in group '' @
                     quoted (rg_Name rg) @ '' to trigger ovn-northd re-sync''\<rparr>]
                 else Ok (swapMemberPriorityOps active target
                   (''HA Failover: group '' @ quoted (rg_Name rg) @ '' '' @ em_dash @ '' '' @
                    cm_ChassisName active @ '' '' @ arrow @ '' '' @ cm_ChassisName target)))"

definition Failover ::
    "'w env \<Rightarrow> (groups \<Rightarrow> groups) \<Rightarrow> ('w \<Rightarrow> ha_view) \<Rightarrow> string \<Rightarrow> string \<Rightarrow> 'w \<Rightarrow> ('w, 'op) Engine \<Rightarrow>
      Plan result \<times> ('w, 'op) Engine" where
  "Failover env order view groupName targetChassisName w e =
    (case resolveGroupUnified order (view w) groupName targetChassisName of
       Err err \<Rightarrow> (Err err, e)
     | Ok rg \<Rightarrow> (case failoverOps rg targetChassisName of
         Err err \<Rightarrow> (Err err, e)
       | Ok ops \<Rightarrow> Preview env ops w e))"

section \<open>Evacuation and restoration\<close>

definition mergeExternalIDs :: "(string, string) gomap \<Rightarrow> string \<Rightarrow> string \<Rightarrow> (string, string) gomap" where
  "mergeExternalIDs existing key val = AList.update key val existing"

definition removeExternalID :: "(string, string) gomap \<Rightarrow> string \<Rightarrow> (string, string) gomap" where
  "removeExternalID existing key = filter (\<lambda>(k, v). k \<noteq> key) existing"

definition sortOpsByUUID :: "WriteOperation list \<Rightarrow> WriteOperation list" where
  "sortOpsByUUID ops = sort_slice (\<lambda>a b. op_UUID a < op_UUID b) ops"

definition strMap :: "(string, string) gomap \<Rightarrow> gval" where
  "strMap m = GMap (map (\<lambda>(k, v). (k, GStr v)) m)"

definition drainOp :: "string \<Rightarrow> string \<Rightarrow> chassisMember \<Rightarrow> WriteOperation" where
  "drainOp chassisName groupName m =
    \<lparr>op_Action = ''update'', op_Table = cm_Table m, op_UUID = cm_UUID m,
      op_Fields = [(''priority'', GInt 0),
        (''external_ids'', strMap (mergeExternalIDs (cm_ExternalIDs m) drainPriorityKey (Itoa (cm_Priority m))))],
      op_Reason = ''Drain '' @ quoted chassisName @ '': set priority to 0 in group '' @ quoted groupName @
        '' (was '' @ Itoa (cm_Priority m) @ '')''\<rparr>"

definition restorePriority :: "chassisMember \<Rightarrow> int" where
  "restorePriority m = (case map_of (cm_ExternalIDs m) drainPriorityKey of
     None \<Rightarrow> 1
   | Some orig \<Rightarrow> (case Atoi orig of None \<Rightarrow> 1 | Some parsed \<Rightarrow> if parsed > 0 then parsed else 1))"

definition restoreOp :: "string \<Rightarrow> string \<Rightarrow> chassisMember \<Rightarrow> WriteOperation" where
  "restoreOp chassisName groupName m =
    \<lparr>op_Action = ''update'', op_Table = cm_Table m, op_UUID = cm_UUID m,
      op_Fields = [(''priority'', GInt (restorePriority m)),
        (''external_ids'', strMap (removeExternalID (cm_ExternalIDs m) drainPriorityKey))],
      op_Reason = ''Restore '' @ quoted chassisName @ '': set priority to '' @ Itoa (restorePriority m) @
        '' in group '' @ quoted groupName\<rparr>"

text \<open>The loop both operations share: over the groups in map order and over the members of each.\<close>

definition memberOps ::
    "(chassisMember \<Rightarrow> bool) \<Rightarrow> (string \<Rightarrow> chassisMember \<Rightarrow> WriteOperation) \<Rightarrow> groups \<Rightarrow> WriteOperation list" where
  "memberOps sel mk gs = concat (map (\<lambda>(u, rg). map (mk (rg_Name rg)) (filter sel (rg_Members rg))) gs)"

definition evacuateOps :: "string \<Rightarrow> groups \<Rightarrow> WriteOperation list" where
  "evacuateOps chassisName =
    memberOps (\<lambda>m. cm_ChassisName m = chassisName \<and> cm_Priority m \<noteq> 0) (drainOp chassisName)"

definition restoreOps :: "string \<Rightarrow> groups \<Rightarrow> WriteOperation list" where
  "restoreOps chassisName =
    memberOps (\<lambda>m. cm_ChassisName m = chassisName \<and> cm_Priority m = 0) (restoreOp chassisName)"

definition Evacuate ::
    "'w env \<Rightarrow> (groups \<Rightarrow> groups) \<Rightarrow> ('w \<Rightarrow> ha_view) \<Rightarrow> string \<Rightarrow> 'w \<Rightarrow> ('w, 'op) Engine \<Rightarrow>
      Plan result \<times> ('w, 'op) Engine" where
  "Evacuate env order view chassisName w e = (case collectAllGroups (view w) of
     Err err \<Rightarrow> (Err err, e)
   | Ok allGroups \<Rightarrow>
       (let ops = evacuateOps chassisName (order allGroups)
        in if ops = []
           then (Err (InputError ''chassis %q has no entries to drain (not found or already drained)'' [AStr chassisName]), e)
           else Preview env (sortOpsByUUID ops) w e))"

definition Restore ::
    "'w env \<Rightarrow> (groups \<Rightarrow> groups) \<Rightarrow> ('w \<Rightarrow> ha_view) \<Rightarrow> string \<Rightarrow> 'w \<Rightarrow> ('w, 'op) Engine \<Rightarrow>
      Plan result \<times> ('w, 'op) Engine" where
  "Restore env order view chassisName w e = (case collectAllGroups (view w) of
     Err err \<Rightarrow> (Err err, e)
   | Ok allGroups \<Rightarrow>
       (let ops = restoreOps chassisName (order allGroups)
        in if ops = []
           then (Err (InputError ''chassis %q has no drained entries to restore'' [AStr chassisName]), e)
           else Preview env (sortOpsByUUID ops) w e))"

section \<open>The effect of a plan on the members\<close>

fun set_column :: "string \<times> gval \<Rightarrow> chassisMember \<Rightarrow> chassisMember" where
  "set_column (col, GInt p) m = (if col = ''priority'' then m\<lparr>cm_Priority := p\<rparr> else m)"
| "set_column (col, GMap kvs) m = (if col = ''external_ids''
     then m\<lparr>cm_ExternalIDs := map (\<lambda>(k, v). (k, case v of GStr s \<Rightarrow> s | _ \<Rightarrow> [])) kvs\<rparr> else m)"
| "set_column _ m = m"

definition targets :: "WriteOperation \<Rightarrow> chassisMember \<Rightarrow> bool" where
  "targets op m = (op_Action op = ''update'' \<and> op_Table op = cm_Table m \<and> op_UUID op = cm_UUID m)"

definition patched :: "WriteOperation list \<Rightarrow> chassisMember \<Rightarrow> chassisMember" where
  "patched ops m = fold (\<lambda>op m. if targets op m then fold set_column (op_Fields op) m else m) ops m"

definition allMembers :: "groups \<Rightarrow> chassisMember set" where
  "allMembers gs = (\<Union>(u, rg) \<in> set gs. set (rg_Members rg))"

lemma patched_Nil [simp]: "patched [] m = m"
  by (simp add: patched_def)

lemma patched_Cons: "patched (op # ops) m = patched ops (if targets op m then fold set_column (op_Fields op) m else m)"
  by (simp add: patched_def)

lemma set_column_strMap [simp]: "set_column (''external_ids'', strMap x) m = m\<lparr>cm_ExternalIDs := x\<rparr>"
  by (simp add: strMap_def case_prod_unfold comp_def)

text \<open>Operations that agree on the fields they set for a row set them once, in whatever order they come.\<close>

lemma patched_uniform:
  assumes "\<forall>op \<in> set ops. targets op m \<longrightarrow> op_Fields op = [(''priority'', GInt p), (''external_ids'', strMap x)]"
  shows "patched ops m = (if \<exists>op \<in> set ops. targets op m then m\<lparr>cm_Priority := p, cm_ExternalIDs := x\<rparr> else m)"
  using assms
proof (induction ops arbitrary: m)
  case (Cons op ops)
  let ?m = "m\<lparr>cm_Priority := p, cm_ExternalIDs := x\<rparr>"
  have t: "targets o' ?m = targets o' m" for o' by (simp add: targets_def)
  show ?case
  proof (cases "targets op m")
    case True
    then have "patched (op # ops) m = patched ops ?m" using Cons.prems by (simp add: patched_Cons)
    also have "\<dots> = ?m" using Cons.IH [of ?m] Cons.prems by (simp add: t)
    finally show ?thesis using True by simp
  next
    case False
    then show ?thesis using Cons.IH [of m] Cons.prems by (simp add: patched_Cons)
  qed
qed simp

section \<open>Groups are consistent\<close>

lemma membersOf_subset: "set (membersOf conv rows uuids) \<subseteq> {conv r | u r. map_of rows u = Some r}"
  by (fastforce simp: membersOf_def List.map_filter_def)

lemma allMembers_update:
  "allMembers (AList.update u rg gs) \<subseteq> set (rg_Members rg) \<union> allMembers gs"
  by (induction gs) (auto simp: allMembers_def split: if_splits)

lemma collectHAGroups_members:
  "allMembers (collectHAGroups gs hs acc) \<subseteq> allMembers acc \<union> {haMember r | u r. map_of (byUUID hc_UUID hs) u = Some r}"
proof (induction gs arbitrary: acc)
  case (Cons g gs)
  let ?rg = "\<lparr>rg_Name = hg_Name g, rg_Members = membersOf haMember (byUUID hc_UUID hs) (hg_HaChassis g)\<rparr>"
  have "collectHAGroups (g # gs) hs acc = collectHAGroups gs hs (AList.update (hg_UUID g) ?rg acc)"
    by (simp add: collectHAGroups_def)
  with Cons [of "AList.update (hg_UUID g) ?rg acc"] allMembers_update [of "hg_UUID g" ?rg acc]
    membersOf_subset [of haMember "byUUID hc_UUID hs" "hg_HaChassis g"]
  show ?case by (simp only: resolvedGroup.select_convs) blast
qed (simp add: collectHAGroups_def)

lemma collectGateways_members:
  "allMembers (collectGateways ls gws acc) \<subseteq> allMembers acc \<union> {gwMember r | u r. map_of (byUUID gc_UUID gws) u = Some r}"
proof (induction ls arbitrary: acc)
  case (Cons l ls)
  let ?ms = "membersOf gwMember (byUUID gc_UUID gws) (lrp_GatewayChassis l)"
  let ?acc = "if lrp_GatewayChassis l = [] \<or> ?ms = [] then acc
    else AList.update (lrp_UUID l) \<lparr>rg_Name = lrp_Name l, rg_Members = ?ms\<rparr> acc"
  have eq: "collectGateways (l # ls) gws acc = collectGateways ls gws ?acc"
    by (simp add: collectGateways_def)
  have "allMembers ?acc \<subseteq> set ?ms \<union> allMembers acc"
    using allMembers_update [of "lrp_UUID l" "\<lparr>rg_Name = lrp_Name l, rg_Members = ?ms\<rparr>" acc] by simp
  with Cons [of ?acc] membersOf_subset [of gwMember "byUUID gc_UUID gws" "lrp_GatewayChassis l"]
  show ?case unfolding eq by blast
qed (simp add: collectGateways_def)

lemma collectAllGroups_members:
  assumes "collectAllGroups view = Ok gs"
  obtains hs gws where
    "allMembers gs \<subseteq> {haMember r | u r. map_of (byUUID hc_UUID hs) u = Some r} \<union>
      {gwMember r | u r. map_of (byUUID gc_UUID gws) u = Some r}"
proof -
  from assms obtain hgs hs ls gws where "gs = collectGateways ls gws (collectHAGroups hgs hs [])"
    by (auto simp: collectAllGroups_def split: option.splits sum.splits)
  with collectGateways_members [of ls gws "collectHAGroups hgs hs []"] collectHAGroups_members [of hgs hs "[]"]
  show ?thesis by (intro that [of hs gws]) (auto simp: allMembers_def [of "[]"])
qed

text \<open>The table and the UUID of a member determine it, in whichever groups it appears.\<close>

lemma collectAllGroups_consistent:
  assumes "collectAllGroups view = Ok gs" "m \<in> allMembers gs" "n \<in> allMembers gs"
    and "cm_Table m = cm_Table n" "cm_UUID m = cm_UUID n"
  shows "m = n"
  using assms(1)
proof (rule collectAllGroups_members)
  fix hs gws
  assume "allMembers gs \<subseteq> {haMember r | u r. map_of (byUUID hc_UUID hs) u = Some r} \<union>
      {gwMember r | u r. map_of (byUUID gc_UUID gws) u = Some r}" (is "_ \<subseteq> ?H \<union> ?G")
  with assms(2,3) have "m \<in> ?H \<union> ?G" "n \<in> ?H \<union> ?G" by blast+
  with assms(4,5) show "m = n"
    using byUUID_keys [of hc_UUID hs] byUUID_keys [of gc_UUID gws]
    by (fastforce simp: haMember_def gwMember_def)
qed

section \<open>Evacuation and restoration are inverse\<close>

lemma memberOps_targets:
  "(\<exists>op \<in> set (memberOps sel mk gs). P op) \<longleftrightarrow> (\<exists>(u, rg) \<in> set gs. \<exists>m \<in> set (rg_Members rg). sel m \<and> P (mk (rg_Name rg) m))"
  by (fastforce simp: memberOps_def)

lemma removeExternalID_merge: "removeExternalID (mergeExternalIDs x k v) k = removeExternalID x k"
  unfolding removeExternalID_def mergeExternalIDs_def by (induction x) auto

lemma restorePriority_merge:
  assumes "0 < p" "p \<le> max_int64" "map_of (cm_ExternalIDs m) drainPriorityKey = Some (Itoa p)"
  shows "restorePriority m = p"
  using assms by (simp add: restorePriority_def Atoi_Itoa_nonneg)

text \<open>What the operations of an evacuation or restoration do to a member.\<close>

lemma patched_memberOps:
  assumes consistent: "\<And>n. n \<in> allMembers gs \<Longrightarrow> cm_Table n = cm_Table m \<Longrightarrow> cm_UUID n = cm_UUID m \<Longrightarrow> n = m"
    and mem: "m \<in> allMembers gs" and order: "set ops = set (memberOps sel mk gs)"
    and mk: "\<And>g n. op_Action (mk g n) = ''update'' \<and> op_Table (mk g n) = cm_Table n \<and> op_UUID (mk g n) = cm_UUID n \<and>
      op_Fields (mk g n) = [(''priority'', GInt (p n)), (''external_ids'', strMap (x n))]"
  shows "patched ops m = (if sel m then m\<lparr>cm_Priority := p m, cm_ExternalIDs := x m\<rparr> else m)"
proof -
  have same: "n = m" if "(u, rg) \<in> set gs" "n \<in> set (rg_Members rg)" "targets (mk g n) m" for u rg n g
    using that mk by (intro consistent) (auto simp: allMembers_def targets_def)
  have "\<forall>op \<in> set ops. targets op m \<longrightarrow> op_Fields op = [(''priority'', GInt (p m)), (''external_ids'', strMap (x m))]"
    unfolding order using same mk by (fastforce simp: memberOps_def)
  moreover have "(\<exists>op \<in> set ops. targets op m) \<longleftrightarrow> sel m"
  proof -
    have "targets (mk g m) m" for g using mk by (simp add: targets_def)
    then show ?thesis using mem same unfolding order memberOps_targets by (fastforce simp: allMembers_def)
  qed
  ultimately show ?thesis by (simp add: patched_uniform)
qed

lemma patched_evacuate:
  assumes "collectAllGroups view = Ok gs" "set (order gs) = set gs" "m \<in> allMembers gs"
    and "set ops = set (evacuateOps c (order gs))"
  shows "patched ops m = (if cm_ChassisName m = c \<and> cm_Priority m \<noteq> 0
    then m\<lparr>cm_Priority := 0, cm_ExternalIDs := mergeExternalIDs (cm_ExternalIDs m) drainPriorityKey (Itoa (cm_Priority m))\<rparr> else m)"
proof -
  have "allMembers (order gs) = allMembers gs" using assms(2) by (simp add: allMembers_def)
  then show ?thesis
    using assms collectAllGroups_consistent [OF assms(1) _ assms(3)] unfolding evacuateOps_def
    by (intro patched_memberOps [of "order gs"]) (auto simp: drainOp_def)
qed

lemma patched_restore:
  assumes "collectAllGroups view = Ok gs" "set (order gs) = set gs" "m \<in> allMembers gs"
    and "set ops = set (restoreOps c (order gs))"
  shows "patched ops m = (if cm_ChassisName m = c \<and> cm_Priority m = 0
    then m\<lparr>cm_Priority := restorePriority m, cm_ExternalIDs := removeExternalID (cm_ExternalIDs m) drainPriorityKey\<rparr> else m)"
proof -
  have "allMembers (order gs) = allMembers gs" using assms(2) by (simp add: allMembers_def)
  then show ?thesis
    using assms collectAllGroups_consistent [OF assms(1) _ assms(3)] unfolding restoreOps_def
    by (intro patched_memberOps [of "order gs"]) (auto simp: restoreOp_def)
qed

lemma Evacuate_Ok:
  assumes "Evacuate env order view c w e = (Ok plan, e')"
  obtains gs where "collectAllGroups (view w) = Ok gs" "set (plan_Operations plan) = set (evacuateOps c (order gs))"
  using assms by (auto simp: Evacuate_def sortOpsByUUID_def split: sum.splits if_splits elim!: Preview_Ok)

lemma Restore_Ok:
  assumes "Restore env order view c w e = (Ok plan, e')"
  obtains gs where "collectAllGroups (view w) = Ok gs" "set (plan_Operations plan) = set (restoreOps c (order gs))"
  using assms by (auto simp: Restore_def sortOpsByUUID_def split: sum.splits if_splits elim!: Preview_Ok)


section \<open>Failover promotes the target\<close>

lemma targets_member:
  assumes "distinct (map cm_UUID ms)" "a \<in> set ms" "m \<in> set ms"
  shows "op_Action op = ''update'' \<Longrightarrow> op_Table op = cm_Table a \<Longrightarrow> op_UUID op = cm_UUID a \<Longrightarrow> targets op m \<longleftrightarrow> m = a"
  using assms by (auto simp: targets_def distinct_map inj_on_def)

lemma patched_swap:
  assumes "distinct (map cm_UUID ms)" "a \<in> set ms" "b \<in> set ms" "a \<noteq> b" "m \<in> set ms"
  shows "patched (swapMemberPriorityOps a b reason) m =
    (if m = a then m\<lparr>cm_Priority := cm_Priority b\<rparr> else if m = b then m\<lparr>cm_Priority := cm_Priority a\<rparr> else m)"
proof -
  have "cm_UUID a \<noteq> cm_UUID b" using assms(1-4) by (auto simp: distinct_map inj_on_def)
  moreover have "cm_UUID m = cm_UUID a \<longleftrightarrow> m = a" "cm_UUID m = cm_UUID b \<longleftrightarrow> m = b"
    using assms by (auto simp: distinct_map inj_on_def)
  ultimately show ?thesis
    by (auto simp: swapMemberPriorityOps_def patched_Cons targets_def)
qed

lemma failoverOps_Ok:
  assumes "failoverOps rg t = Ok ops"
  obtains active target where "active \<in> set (rg_Members rg)" "target \<in> set (rg_Members rg)" "cm_ChassisName target = t"
    "\<forall>m \<in> set (rg_Members rg). cm_Priority m \<le> cm_Priority active"
    "cm_UUID target = cm_UUID active \<Longrightarrow> \<exists>reason. ops = [\<lparr>op_Action = ''update'', op_Table = cm_Table target,
       op_UUID = cm_UUID target, op_Fields = [(''priority'', GInt (bumpPriority (cm_Priority target)))], op_Reason = reason\<rparr>]"
    "cm_UUID target \<noteq> cm_UUID active \<Longrightarrow> \<exists>reason. ops = swapMemberPriorityOps active target reason"
proof -
  let ?ms = "sort_slice (\<lambda>a b. cm_Priority a > cm_Priority b) (rg_Members rg)"
  have len: "2 \<le> length (rg_Members rg)" using assms by (auto simp: failoverOps_def split: if_splits)
  then have "?ms \<noteq> []" by (metis length_sort_slice list.size(3) not_numeral_le_zero)
  then obtain active rest where ms: "?ms = active # rest" by (cases ?ms) auto
  have act: "active \<in> set (rg_Members rg)" using ms set_sort_slice [of _ "rg_Members rg"] by (metis list.set_intros(1))
  have top: "\<forall>m \<in> set (rg_Members rg). cm_Priority m \<le> cm_Priority active"
    using hd_sort_slice_desc [OF ms] by blast
  obtain target where t: "find (\<lambda>m. cm_ChassisName m = t) ?ms = Some target"
    using assms len by (auto simp: failoverOps_def split: option.splits)
  then obtain i where "i < length ?ms" "?ms ! i = target" "cm_ChassisName target = t" by (auto simp: find_Some_iff)
  then have tgt: "target \<in> set (rg_Members rg)" "cm_ChassisName target = t" by (metis nth_mem set_sort_slice)+
  have hd: "hd ?ms = active" using ms by simp
  show ?thesis
    by (rule that [OF act tgt top]) (use assms len in \<open>simp_all add: failoverOps_def t hd, blast+\<close>)
qed


text \<open>A failover between members of equal priority changes nothing: their priorities are swapped.\<close>

definition tied_group :: resolvedGroup where
  "tied_group = \<lparr>rg_Name = ''g'', rg_Members =
     [\<lparr>cm_UUID = ''u1'', cm_Table = ''HA_Chassis'', cm_ChassisName = ''a'', cm_Priority = 10, cm_ExternalIDs = []\<rparr>,
      \<lparr>cm_UUID = ''u2'', cm_Table = ''HA_Chassis'', cm_ChassisName = ''b'', cm_Priority = 10, cm_ExternalIDs = []\<rparr>]\<rparr>"

lemma failover_tie_no_effect:
  "\<exists>ops. failoverOps tied_group ''b'' = Ok ops \<and> map (patched ops) (rg_Members tied_group) = rg_Members tied_group"
  by (intro exI [of _ "projr (failoverOps tied_group ''b'')"]) code_simp

section \<open>An example\<close>

definition sample_group :: resolvedGroup where
  "sample_group = \<lparr>rg_Name = ''g'', rg_Members =
     [\<lparr>cm_UUID = ''u1'', cm_Table = ''HA_Chassis'', cm_ChassisName = ''a'', cm_Priority = 20, cm_ExternalIDs = []\<rparr>,
      \<lparr>cm_UUID = ''u2'', cm_Table = ''HA_Chassis'', cm_ChassisName = ''b'', cm_Priority = 10, cm_ExternalIDs = []\<rparr>]\<rparr>"


end
