(* ===== verification/Write_Example.thy ===== *)
theory Write_Example
  imports Write_Failover
begin

text \<open>
  A run of the write engine against a small in-memory OVSDB server: a preview that raises the priority
  of an HA chassis from 10 to 20, its apply, an apply after another client got in between, and a
  rollback.  The run instantiates the theorems of \<open>Write_Safety\<close>, and with them the assumptions about
  the server.
\<close>

section \<open>An example server\<close>

text \<open>
  A small in-memory server, for the examples: rows by table and UUID, waits that compare the listed
  fields, and transactions that take effect only if every operation in them succeeds.
\<close>

datatype toy_op =
    ToyWait string string model "nat list"
  | ToyUpdate string string model "nat list"
  | ToyCreate string model
  | ToyDelete string string

type_synonym toy_world = "(string \<times> string, model) gomap"

definition toy_uuid :: "string \<Rightarrow> model \<Rightarrow> string" where
  "toy_uuid table m = (case reg_Get DefaultRegistry table of
      Err _ \<Rightarrow> [] | Ok spec \<Rightarrow> row_str (ts_ModelType spec) m ''_uuid'')"

fun toy_ok :: "toy_world \<Rightarrow> toy_op \<Rightarrow> bool" where
  "toy_ok w (ToyWait t u m ptrs) = row_holds (map_of w (t, u)) m ptrs"
| "toy_ok w _ = True"

fun toy_exec :: "toy_op \<Rightarrow> toy_world \<Rightarrow> toy_world" where
  "toy_exec (ToyWait t u m ptrs) w = w"
| "toy_exec (ToyUpdate t u m ptrs) w = (case map_of w (t, u) of None \<Rightarrow> w
     | Some r \<Rightarrow> AList.update (t, u) (fold (\<lambda>p row. row[p := m ! p]) ptrs r) w)"
| "toy_exec (ToyCreate t m) w = AList.update (t, toy_uuid t m) m w"
| "toy_exec (ToyDelete t u) w = AList.delete (t, u) w"

definition toy_transact :: "toy_op list \<Rightarrow> toy_world \<Rightarrow> opresult list result \<times> toy_world" where
  "toy_transact ops w =
    (Ok (map (\<lambda>op. \<lparr>or_Error = (if toy_ok w op then [] else ''timed out'')\<rparr>) ops),
     if list_all (toy_ok w) ops then fold toy_exec ops w else w)"

definition toy_client :: "(toy_world, toy_op) client" where
  "toy_client = \<lparr>cl_get = (\<lambda>w t u. case map_of w (t, u) of None \<Rightarrow> Err ErrNotFound | Some m \<Rightarrow> Ok m),
     cl_create = (\<lambda>t m. Ok [ToyCreate t m]),
     cl_update = (\<lambda>t m ptrs. Ok [ToyUpdate t (toy_uuid t m) m ptrs]),
     cl_delete = (\<lambda>t m. Ok [ToyDelete t (toy_uuid t m)]),
     cl_wait = (\<lambda>t m ptrs. Ok [ToyWait t (toy_uuid t m) m ptrs]),
     cl_transact = toy_transact\<rparr>"

definition toy_check :: "opresult list \<Rightarrow> toy_op list \<Rightarrow> error option" where
  "toy_check reply ops = (if length ops \<le> length reply \<and> list_all (\<lambda>r. or_Error r = []) reply then None
     else Some (ErrOther ''operation error''))"

definition toy_engine :: "(toy_world, toy_op) Engine" where
  "toy_engine = \<lparr>e_nbClient = toy_client, e_sbClient = None, e_schema = sample_schema, e_view = (\<lambda>_. empty_view),
     e_check = toy_check, e_codec = sample_codec, e_hmac = (\<lambda>s. s), e_registry = DefaultRegistry,
     e_collector = Some [], e_resolver = None, e_nbReady = None, e_planTTL = 10, e_plans = NewPlanCache 10,
     e_rateLimiter = None, e_history = emptyStore, e_auditStore = NewAuditStore\<rparr>"

definition toy_env :: "toy_world env" where
  "toy_env = \<lparr>ev_limit = 0, ev_now = 0, ev_id = ''p1'', ev_snapshot = None, ev_rows = None, ev_audit = None,
     ev_drift = (\<lambda>w. w)\<rparr>"

definition toy_rows :: toy_world where
  "toy_rows = [((''HA_Chassis'', ''u1''), [GStr ''u1'', GStr ''gw1'', GMap [], GInt 10])]"

text \<open>The engine after a preview of raising the chassis priority to 20.\<close>

definition toy_previewed :: "(toy_world, toy_op) Engine" where
  "toy_previewed = snd (Preview toy_env [sample_op] toy_rows toy_engine)"

definition toy_plan :: Plan where
  "toy_plan = \<lparr>plan_ID = ''p1'', plan_CreatedAt = 0, plan_ExpiresAt = 10, plan_Operations = [sample_op],
     plan_Diffs = [\<lparr>pd_Action = ''update'', pd_Table = ''HA_Chassis'', pd_UUID = ''u1'',
       pd_Before = [(''_uuid'', GStr ''u1''), (''chassis_name'', GStr ''gw1''), (''external_ids'', GMap []), (''priority'', GInt 10)],
       pd_After = [(''_uuid'', GStr ''u1''), (''chassis_name'', GStr ''gw1''), (''external_ids'', GMap []), (''priority'', GInt 20)],
       pd_Fields = [\<lparr>fc_Field = ''priority'', fc_OldValue = GInt 10, fc_NewValue = GInt 20\<rparr>]\<rparr>],
     plan_SnapshotID = 1, plan_Status = ''pending'', plan_ApplyToken = ''p11'', plan_Impact = [], plan_Warnings = []\<rparr>"

lemma toy_validate: "engineValidateOps toy_engine w [sample_op] = None"
proof -
  have "validateOps sample_schema empty_view None [sample_op] DefaultRegistry = None" by code_simp
  then show ?thesis by (simp add: engineValidateOps_def toy_engine_def)
qed

lemma toy_diffs: "computeDiffs toy_engine toy_rows [sample_op] = Ok (plan_Diffs toy_plan)"
  by code_simp

lemma toy_snapshot:
  assumes "e_collector e = Some []"
  shows "\<exists>h meta. engineSnapshot toy_env trigger w e = (Ok meta, e\<lparr>e_history := h\<rparr>) \<and> sm_ID meta = hs_nextID (e_history e)"
  using assms by (simp add: engineSnapshot_def TakeSnapshot_def CreateSnapshot_def collectRows_def toy_env_def) blast

lemma toy_transact_ok:
  "transactOps toy_engine (\<lambda>w. w) toy_client toy_plan toy_rows =
    (None, [((''HA_Chassis'', ''u1''), [GStr ''u1'', GStr ''gw1'', GMap [], GInt 20])])"
  by code_simp

lemma toy_engine_simps [simp]:
  "e_collector toy_engine = Some []" "e_plans toy_engine = \<lparr>pc_plans = [], pc_ttl = 10\<rparr>" "e_resolver toy_engine = None"
  "e_hmac toy_engine = (\<lambda>s. s)" "hs_nextID (e_history toy_engine) = 1" "e_rateLimiter toy_engine = None"
  "e_registry toy_engine = DefaultRegistry" "e_check toy_engine = toy_check" "e_sbClient toy_engine = None"
  "e_nbClient toy_engine = toy_client"
  by (simp_all add: toy_engine_def NewPlanCache_def emptyStore_def)

lemma toy_env_simps [simp]:
  "ev_now toy_env = 0" "ev_id toy_env = ''p1''" "ev_audit toy_env = None" "ev_drift toy_env = (\<lambda>w. w)"
  by (simp_all add: toy_env_def)

lemma Itoa_1: "Itoa 1 = ''1''"
  by code_simp

lemma admit_unlimited [simp]: "e_rateLimiter e = None \<Longrightarrow> admit l e = (True, e)"
  by (simp add: admit_def)

lemma toy_preview:
  obtains h where "Preview toy_env [sample_op] toy_rows toy_engine = (Ok toy_plan,
    toy_engine\<lparr>e_history := h, e_plans := \<lparr>pc_plans = [(''p1'', toy_plan)], pc_ttl = 10\<rparr>\<rparr>)"
proof -
  from toy_snapshot [of toy_engine "''write-preview''" toy_rows] obtain h meta where
    s: "engineSnapshot toy_env ''write-preview'' toy_rows toy_engine = (Ok meta, toy_engine\<lparr>e_history := h\<rparr>)" "sm_ID meta = 1"
    by auto
  then show ?thesis
    using that [of h] toy_validate toy_diffs
    by (simp add: Preview_def pc_Store_def computeImpact_def generateToken_def toy_plan_def Itoa_1)
qed

lemma toy_previewed_eq:
  obtains h where "toy_previewed =
    toy_engine\<lparr>e_history := h, e_plans := \<lparr>pc_plans = [(''p1'', toy_plan)], pc_ttl = 10\<rparr>\<rparr>"
  by (rule toy_preview) (simp add: toy_previewed_def)

definition toy_spec :: TableSpec where
  "toy_spec = \<lparr>ts_Table = ''HA_Chassis'', ts_Database = ''nb'', ts_ModelType = TStruct [(''_uuid'', TString),
     (''chassis_name'', TString), (''external_ids'', TMap TString TString), (''priority'', TInt)],
     ts_ReadOnlyFields = [''_uuid'', ''chassis_name''], ts_DeleteOnly = False\<rparr>"

lemma toy_spec_Get [simp]: "reg_Get DefaultRegistry ''HA_Chassis'' = Ok toy_spec"
  by code_simp

lemma toy_previewed_simps [simp]:
  shows "e_plans toy_previewed = \<lparr>pc_plans = [(''p1'', toy_plan)], pc_ttl = 10\<rparr>" and "e_rateLimiter toy_previewed = None"
    and "e_registry toy_previewed = DefaultRegistry" and "e_check toy_previewed = toy_check"
    and "e_collector toy_previewed = Some []" and "e_hmac toy_previewed = (\<lambda>s. s)"
    and "engineValidateOps toy_previewed w [sample_op] = None"
    and "clientForOps toy_previewed ops = clientForOps toy_engine ops"
    and "transactOps toy_previewed d c p w = transactOps toy_engine d c p w"
proof -
  obtain h where e: "toy_previewed =
      toy_engine\<lparr>e_history := h, e_plans := \<lparr>pc_plans = [(''p1'', toy_plan)], pc_ttl = 10\<rparr>\<rparr>"
    by (rule toy_previewed_eq)
  show "engineValidateOps toy_previewed w [sample_op] = None"
    using toy_validate by (simp add: e engineValidateOps_def)
  show "clientForOps toy_previewed ops = clientForOps toy_engine ops"
    by (auto simp: e clientForOps_def clientForTable_def split: list.splits sum.splits)
  show "transactOps toy_previewed d c p w = transactOps toy_engine d c p w"
    by (simp add: e)
  show "e_plans toy_previewed = \<lparr>pc_plans = [(''p1'', toy_plan)], pc_ttl = 10\<rparr>" "e_rateLimiter toy_previewed = None"
    "e_registry toy_previewed = DefaultRegistry" "e_check toy_previewed = toy_check"
    "e_collector toy_previewed = Some []" "e_hmac toy_previewed = (\<lambda>s. s)"
    by (simp_all add: e)
qed

lemma toy_client_ops [simp]: "clientForOps toy_engine [sample_op] = Ok toy_client"
  by (simp add: clientForOps_def clientForTable_def sample_op_def toy_spec_def)

lemma toy_plan_simps [simp]:
  "plan_ID toy_plan = ''p1''" "plan_Operations toy_plan = [sample_op]" "plan_SnapshotID toy_plan = 1"
  "plan_ExpiresAt toy_plan = 10" "plan_ApplyToken toy_plan = ''p11''"
  by (simp_all add: toy_plan_def)

lemma toy_found: "fst (pc_Get (ev_now toy_env) ''p1'' (e_plans toy_previewed)) = Some toy_plan"
  by (simp add: pc_Get_def)

lemma toy_token_ok: "generateToken toy_previewed ''p1'' 1 = ''p11''"
  by (simp add: generateToken_def Itoa_1)

text \<open>Applying the plan succeeds; after another client raised the priority to 15, it is stale.\<close>

definition toy_drift :: "toy_world env" where
  "toy_drift = toy_env\<lparr>ev_drift := (\<lambda>w. [((''HA_Chassis'', ''u1''), [GStr ''u1'', GStr ''gw1'', GMap [], GInt 15])])\<rparr>"

lemma toy_transact_stale:
  "transactOps toy_engine (ev_drift toy_drift) toy_client toy_plan toy_rows =
    (Some (Wrapf ''%w: %s'' [AStr ''timed out''] ErrStaleState), ev_drift toy_drift toy_rows)"
  by code_simp

lemma toy_consumed: "e_collector (consumed toy_env ''p1'' toy_previewed) = Some []"
  by (simp add: consumed_def)

lemma toy_apply:
  obtains entry e where "Apply toy_env ''p1'' ''p11'' ''ops'' toy_rows toy_previewed = ((Some entry, None), e,
    [((''HA_Chassis'', ''u1''), [GStr ''u1'', GStr ''gw1'', GMap [], GInt 20])])"
proof -
  from toy_snapshot [OF toy_consumed] obtain h meta where
    s: "engineSnapshot toy_env ''write-apply'' toy_rows (consumed toy_env ''p1'' toy_previewed) =
      (Ok meta, (consumed toy_env ''p1'' toy_previewed)\<lparr>e_history := h\<rparr>)" by blast
  then show ?thesis
    using that toy_transact_ok
    by (simp add: Apply_found [OF _ toy_found] toy_token_ok recordAudit_def)
qed

text \<open>The server keeps the laws: its waits compare, its transactions are atomic, its check is strict.\<close>

lemma toy_wait_law: "wait_law DefaultRegistry toy_client (\<lambda>w t u. map_of w (t, u))"
proof -
  have "toy_ok w (ToyWait table (row_str (ts_ModelType spec) m ''_uuid'') m ptrs)"
    if "toy_transact (pre @ ToyWait table (row_str (ts_ModelType spec) m ''_uuid'') m ptrs # post) w = (Ok reply, w')"
      "or_Error (reply ! length pre) = []" for table spec m ptrs pre post w reply w'
    using that by (auto simp: toy_transact_def nth_append split: if_splits)
  then show ?thesis by (fastforce simp: wait_law_def toy_client_def toy_uuid_def)
qed

lemma toy_atomic_law: "atomic_law toy_client"
  by (auto simp: atomic_law_def toy_client_def toy_transact_def list_all_iff split: if_splits)

lemma toy_check_law: "check_law toy_check"
  by (simp add: check_law_def toy_check_def)

abbreviation toy_result :: "(AuditEntry option \<times> error option) \<times> (toy_world, toy_op) Engine \<times> toy_world" where
  "toy_result \<equiv> Apply toy_env ''p1'' ''p11'' ''ops'' toy_rows toy_previewed"



theorem apply_refused_no_effect_witness:
  "snd (snd (Apply toy_env ''p1'' ''bad'' ''ops'' toy_rows toy_previewed)) = toy_rows"
proof -
  obtain r err e w where a: "Apply toy_env ''p1'' ''bad'' ''ops'' toy_rows toy_previewed = ((r, err), e, w)"
    by (metis surj_pair)
  from apply_refused_no_effect [OF this] show ?thesis unfolding a by (simp add: toy_token_ok)
qed

theorem token_binds_plan_witness: "''p1'' = plan_ID toy_plan \<and> (1 :: int) = plan_SnapshotID toy_plan"
proof -
  obtain entry e w where a: "Apply toy_env ''p1'' (generateToken toy_previewed ''p1'' 1) ''ops'' toy_rows toy_previewed =
    ((Some entry, None), e, w)" unfolding toy_token_ok by (rule toy_apply) blast
  from token_binds_plan [OF _ _ a, of toy_plan] show ?thesis by (simp add: pc_inv_def)
qed

theorem computeDiffs_spec_witness:
  "set (pd_Fields (plan_Diffs toy_plan ! 0)) = {\<lparr>fc_Field = ''priority'', fc_OldValue = GInt 10, fc_NewValue = GInt 20\<rparr>}"
  using computeDiffs_spec [OF toy_diffs, of 0 sample_op "plan_Diffs toy_plan ! 0"]
  by (simp add: sample_op_def toy_plan_def lookup_nil_def)


theorem dry_run_pure_witness: "snd (DryRun toy_env [sample_op] toy_rows toy_engine) = toy_engine"
proof -
  obtain r e where d: "DryRun toy_env [sample_op] toy_rows toy_engine = (r, e)" by force
  from dry_run_pure [OF this] show ?thesis unfolding d by simp
qed

lemma toy_before:
  "pd_Before (plan_Diffs toy_plan ! 0) = ModelToMap (ts_ModelType toy_spec) [GStr ''u1'', GStr ''gw1'', GMap [], GInt 10]"
  "list_all2 has_type [GStr ''u1'', GStr ''gw1'', GMap [], GInt 10] (map snd (struct_fields (ts_ModelType toy_spec)))"
  "column_names (struct_fields (ts_ModelType toy_spec)) ! 3 = ''priority''"
  "length (struct_fields (ts_ModelType toy_spec)) = 4"
  by code_simp+


lemma toy_drift_simps [simp]: "ev_now toy_drift = 0" "ev_audit toy_drift = None"
  by (simp_all add: toy_drift_def)

lemma toy_apply_stale:
  obtains entry e w where "Apply toy_drift ''p1'' ''p11'' ''ops'' toy_rows toy_previewed =
    ((Some entry, Some (Wrapf ''%w: %s'' [AStr ''timed out''] ErrStaleState)), e, w)"
proof -
  have "e_collector (consumed toy_drift ''p1'' toy_previewed) = Some []" by (simp add: consumed_def)
  from toy_snapshot [OF this] obtain h meta where
    s: "engineSnapshot toy_env ''write-apply'' toy_rows (consumed toy_drift ''p1'' toy_previewed) =
      (Ok meta, (consumed toy_drift ''p1'' toy_previewed)\<lparr>e_history := h\<rparr>)" by blast
  have "engineSnapshot toy_drift trigger w e = engineSnapshot toy_env trigger w e" for trigger w e
    by (cases "e_collector e") (simp_all add: engineSnapshot_def toy_drift_def)
  note s' = s [folded this]
  have "fst (pc_Get (ev_now toy_drift) ''p1'' (e_plans toy_previewed)) = Some toy_plan" by (simp add: pc_Get_def)
  then show ?thesis
    using that s' toy_transact_stale
    by (simp add: Apply_found [where plan = toy_plan] toy_token_ok failPlan_def recordAudit_def)
qed


definition toy_snapshot_row :: SnapshotRow where
  "toy_snapshot_row = \<lparr>sr_Database = ''nb'', sr_Table = ''HA_Chassis'', sr_UUID = ''u1'',
     sr_Data = [(''_uuid'', GStr ''u1''), (''chassis_name'', GStr ''gw1''), (''priority'', GFloat 5)]\<rparr>"

definition toy_restore :: "WriteOperation list" where
  "toy_restore = [\<lparr>op_Action = ''update'', op_Table = ''HA_Chassis'', op_UUID = ''u1'',
     op_Fields = [(''priority'', GFloat 5)], op_Reason = ''Rollback: restore HA_Chassis/u1 from snapshot 1''\<rparr>]"

lemma toy_rollback: "rollbackOps toy_engine toy_rows 1 [toy_snapshot_row] = Ok (toy_restore, [])"
  by code_simp


section \<open>Evacuation\<close>

text \<open>The server's HA chassis rows, in one group.\<close>

definition toy_ha_row :: "(string \<times> string) \<times> model \<Rightarrow> HAChassis" where
  "toy_ha_row row = \<lparr>hc_UUID = snd (fst row), hc_ChassisName = (case snd row ! 1 of GStr s \<Rightarrow> s | _ \<Rightarrow> []),
     hc_Priority = (case snd row ! 3 of GInt p \<Rightarrow> p | _ \<Rightarrow> 0),
     hc_ExternalIDs = (case snd row ! 2 of GMap kvs \<Rightarrow> map (\<lambda>(k, v). (k, case v of GStr s \<Rightarrow> s | _ \<Rightarrow> [])) kvs | _ \<Rightarrow> [])\<rparr>"

definition toy_ha :: "toy_world \<Rightarrow> ha_view" where
  "toy_ha w = \<lparr>hv_nb = Some \<lparr>nl_haGroups = Ok [\<lparr>hg_UUID = ''g1'', hg_Name = ''grp'', hg_HaChassis = [''u1'']\<rparr>],
     nl_haChassis = Ok (map toy_ha_row w), nl_lrps = Ok [], nl_gwChassis = Ok []\<rparr>, hv_sb = None\<rparr>"

definition toy_drained :: toy_world where
  "toy_drained = [((''HA_Chassis'', ''u1''),
     [GStr ''u1'', GStr ''gw1'', GMap [(''northwatch:pre-drain-priority'', GStr ''10'')], GInt 0])]"

definition toy_groups :: "toy_world \<Rightarrow> groups" where
  "toy_groups w = projr (collectAllGroups (toy_ha w))"

definition toy_drain :: "WriteOperation list" where
  "toy_drain = evacuateOps ''gw1'' (toy_groups toy_rows)"

lemma toy_evacuate:
  "case fst (Evacuate toy_env (\<lambda>g. g) toy_ha ''gw1'' toy_rows toy_engine) of Err _ \<Rightarrow> False | Ok p \<Rightarrow> plan_Operations p = toy_drain"
  by code_simp

lemma toy_undrain:
  "case fst (Restore toy_env (\<lambda>g. g) toy_ha ''gw1'' toy_drained toy_engine) of Err _ \<Rightarrow> False | Ok p \<Rightarrow> True"
  by code_simp

definition toy_member :: chassisMember where
  "toy_member = \<lparr>cm_UUID = ''u1'', cm_Table = ''HA_Chassis'', cm_ChassisName = ''gw1'', cm_Priority = 10, cm_ExternalIDs = []\<rparr>"

lemma toy_collected:
  "collectAllGroups (toy_ha toy_rows) = Ok [(''g1'', \<lparr>rg_Name = ''grp'', rg_Members = [toy_member]\<rparr>)]"
  "collectAllGroups (toy_ha toy_drained) = Ok [(''g1'', \<lparr>rg_Name = ''grp'', rg_Members = [patched toy_drain toy_member]\<rparr>)]"
  by code_simp+


end
