(* ===== verification/History_Diff.thy ===== *)
theory History_Diff
  imports History_Store "HOL-Library.Product_Lexorder"
begin

text \<open>
  \<^verbatim>\<open>internal/history/diff.go\<close>: the field-level comparison of two snapshots.  Row data comes out of JSON
  with its object keys in one canonical order, so \<^verbatim>\<open>reflect.DeepEqual\<close> of two values is equality.
\<close>

record HFieldChange =
  hf_Field :: string
  hf_OldValue :: gval
  hf_NewValue :: gval

record RowDiff =
  rd_UUID :: string
  rd_Fields :: "HFieldChange list"

record TableDiff =
  td_Database :: string
  td_Table :: string
  td_Added :: "row_map list"
  td_Removed :: "row_map list"
  td_Modified :: "RowDiff list"

record DiffResult =
  dr_FromID :: int
  dr_ToID :: int
  dr_Tables :: "TableDiff list"

definition fieldChange :: "row_map \<Rightarrow> row_map \<Rightarrow> string \<Rightarrow> HFieldChange list" where
  "fieldChange old new k =
    (case map_of old k of
       None \<Rightarrow> [\<lparr>hf_Field = k, hf_OldValue = GNil, hf_NewValue = lookup_nil new k\<rparr>]
     | Some oldVal \<Rightarrow>
         (case map_of new k of
            None \<Rightarrow> [\<lparr>hf_Field = k, hf_OldValue = oldVal, hf_NewValue = GNil\<rparr>]
          | Some newVal \<Rightarrow>
              if oldVal \<noteq> newVal then [\<lparr>hf_Field = k, hf_OldValue = oldVal, hf_NewValue = newVal\<rparr>] else []))"

definition diffFields :: "row_map \<Rightarrow> row_map \<Rightarrow> HFieldChange list" where
  "diffFields old new =
    (let keys = remdups (gokeys old @ gokeys new); sortedKeys = sort_slice (<) keys
     in concat (map (fieldChange old new) sortedKeys))"

type_synonym row_group = "(string \<times> string, (string, row_map) gomap) gomap"

definition groupRows :: "SnapshotRow list \<Rightarrow> row_group" where
  "groupRows rows = fold (\<lambda>r m.
      let k = (sr_Database r, sr_Table r)
      in AList.update k (AList.update (sr_UUID r) (sr_Data r) (case map_of m k of None \<Rightarrow> [] | Some g \<Rightarrow> g)) m)
    rows []"

definition group_get :: "row_group \<Rightarrow> string \<times> string \<Rightarrow> (string, row_map) gomap" where
  "group_get m k = (case map_of m k of None \<Rightarrow> [] | Some g \<Rightarrow> g)"

definition diffTable :: "string \<times> string \<Rightarrow> (string, row_map) gomap \<Rightarrow> (string, row_map) gomap \<Rightarrow> TableDiff" where
  "diffTable k fromUUIDs toUUIDs =
    \<lparr>td_Database = fst k, td_Table = snd k,
     td_Added = concat (map (\<lambda>(uuid, toData). case map_of fromUUIDs uuid of None \<Rightarrow> [toData] | Some _ \<Rightarrow> []) toUUIDs),
     td_Removed = concat (map (\<lambda>(uuid, fromData). case map_of toUUIDs uuid of None \<Rightarrow> [fromData] | Some _ \<Rightarrow> []) fromUUIDs),
     td_Modified = concat (map (\<lambda>(uuid, toData). case map_of fromUUIDs uuid of
         None \<Rightarrow> []
       | Some fromData \<Rightarrow>
           (let changes = diffFields fromData toData
            in if changes \<noteq> [] then [\<lparr>rd_UUID = uuid, rd_Fields = changes\<rparr>] else [])) toUUIDs)\<rparr>"

definition diffTables :: "SnapshotRow list \<Rightarrow> SnapshotRow list \<Rightarrow> TableDiff list" where
  "diffTables fromRows toRows =
    (let fromMap = groupRows fromRows;
         toMap = groupRows toRows;
         allTables = remdups (gokeys fromMap @ gokeys toMap);
         tableKeys = sort_slice (<) allTables
     in concat (map (\<lambda>k.
          let td = diffTable k (group_get fromMap k) (group_get toMap k)
          in if td_Added td \<noteq> [] \<or> td_Removed td \<noteq> [] \<or> td_Modified td \<noteq> [] then [td] else [])
        tableKeys))"

text \<open>The filter is split at its first dot; without one (or with a leading one) nothing is filtered.\<close>

definition splitFilter :: "string \<Rightarrow> string \<times> string" where
  "splitFilter tableFilter =
    (let db = takeWhile (\<lambda>c. c \<noteq> CHR ''.'') tableFilter; rest = dropWhile (\<lambda>c. c \<noteq> CHR ''.'') tableFilter
     in if rest \<noteq> [] \<and> db \<noteq> [] then (db, tl rest) else ([], []))"

definition DiffSnapshots ::
    "codec \<Rightarrow> fault \<Rightarrow> fault \<Rightarrow> int \<Rightarrow> int \<Rightarrow> string \<Rightarrow> HStore \<Rightarrow> DiffResult result" where
  "DiffSnapshots co fault fault' fromID toID tableFilter s =
    (let (filterDB, filterTable) = splitFilter tableFilter
     in case GetSnapshotRows co fault fromID filterDB filterTable s of
          Err e \<Rightarrow> Err (Wrapf ''loading from-snapshot rows: %w'' [] e)
        | Ok fromRows \<Rightarrow> (case GetSnapshotRows co fault' toID filterDB filterTable s of
             Err e \<Rightarrow> Err (Wrapf ''loading to-snapshot rows: %w'' [] e)
           | Ok toRows \<Rightarrow> Ok \<lparr>dr_FromID = fromID, dr_ToID = toID, dr_Tables = diffTables fromRows toRows\<rparr>))"

section \<open>Field changes\<close>

lemma sort_less_strict:
  fixes xs :: "'a :: linorder list"
  assumes "distinct xs"
  shows "sorted_wrt (<) (sort_slice (<) xs)"
proof -
  have "sorted_wrt (\<le>) (sort_slice (<) xs)"
    using sorted_sort_slice_asc [of "\<lambda>x. x" xs] by simp
  moreover have "distinct (sort_slice (<) xs)" using assms by simp
  ultimately show ?thesis by (simp add: strict_sorted_iff)
qed

text \<open>The fields reported are exactly the ones on which the rows differ, with both values, in order.\<close>

lemma in_fieldChange:
  assumes "map_of old k \<noteq> None \<or> map_of new k \<noteq> None"
  shows "c \<in> set (fieldChange old new k) \<longleftrightarrow> map_of old k \<noteq> map_of new k \<and>
    c = \<lparr>hf_Field = k, hf_OldValue = lookup_nil old k, hf_NewValue = lookup_nil new k\<rparr>"
  using assms by (auto simp: fieldChange_def lookup_nil_def split: option.splits)

lemma diffFields_iff:
  "c \<in> set (diffFields old new) \<longleftrightarrow>
    map_of old (hf_Field c) \<noteq> map_of new (hf_Field c) \<and>
    c = \<lparr>hf_Field = hf_Field c, hf_OldValue = lookup_nil old (hf_Field c), hf_NewValue = lookup_nil new (hf_Field c)\<rparr>"
  (is "_ \<longleftrightarrow> ?rhs")
proof -
  let ?K = "{k. map_of old k \<noteq> None \<or> map_of new k \<noteq> None}"
  have "?K = set (gokeys old @ gokeys new)"
    by (simp add: map_of_eq_None_iff Collect_disj_eq)
  then have "c \<in> set (diffFields old new) \<longleftrightarrow> (\<exists>k \<in> ?K. c \<in> set (fieldChange old new k))"
    by (simp add: diffFields_def bex_Un)
  also have "\<dots> \<longleftrightarrow> (\<exists>k \<in> ?K. map_of old k \<noteq> map_of new k \<and>
      c = \<lparr>hf_Field = k, hf_OldValue = lookup_nil old k, hf_NewValue = lookup_nil new k\<rparr>)"
    by (simp add: in_fieldChange cong: conj_cong)
  also have "\<dots> \<longleftrightarrow> ?rhs"
    by (metis (mono_tags, lifting) HFieldChange.select_convs(1) mem_Collect_eq)
  finally show ?thesis .
qed

lemma diffFields_Nil: "diffFields old new = [] \<longleftrightarrow> map_of old = map_of new"
proof
  assume nil: "diffFields old new = []"
  show "map_of old = map_of new"
  proof
    fix k
    show "map_of old k = map_of new k"
      using nil diffFields_iff [of "\<lparr>hf_Field = k, hf_OldValue = lookup_nil old k, hf_NewValue = lookup_nil new k\<rparr>" old new]
      by auto
  qed
next
  assume "map_of old = map_of new"
  then show "diffFields old new = []"
    using diffFields_iff [of _ old new] by (metis list.set_intros(1) neq_Nil_conv)
qed

lemma sorted_concat_at_most_one:
  assumes "sorted_wrt (<) ks" "\<And>k. f k = [] \<or> (\<exists>c. f k = [c] \<and> g c = (k :: 'k :: linorder))"
  shows "sorted_wrt (\<lambda>a b. g a < g b) (concat (map f ks))"
  using assms(1)
proof (induction ks)
  case (Cons k ks)
  have "\<forall>c \<in> set (concat (map f ks)). g c \<in> set ks"
  proof
    fix c assume "c \<in> set (concat (map f ks))"
    then obtain k' where "k' \<in> set ks" "c \<in> set (f k')" by auto
    with assms(2) [of k'] show "g c \<in> set ks" by auto
  qed
  with Cons assms(2) [of k] show ?case by (auto simp: sorted_wrt_append)
qed simp

lemma diffFields_sorted: "sorted_wrt (\<lambda>a b. hf_Field a < hf_Field b) (diffFields old new)"
  unfolding diffFields_def Let_def
  by (rule sorted_concat_at_most_one) (auto simp: sort_less_strict fieldChange_def split: option.splits)

section \<open>Rows of a snapshot\<close>

text \<open>The data a snapshot holds for a row (the last one listed, should a key be listed twice).\<close>

definition snapshot_row :: "SnapshotRow list \<Rightarrow> string \<times> string \<Rightarrow> string \<Rightarrow> row_map option" where
  "snapshot_row rows k u =
    map_option sr_Data (find (\<lambda>r. (sr_Database r, sr_Table r) = k \<and> sr_UUID r = u) (rev rows))"

lemma groupRows_snoc:
  "groupRows (rows @ [r]) =
    AList.update (sr_Database r, sr_Table r)
      (AList.update (sr_UUID r) (sr_Data r) (group_get (groupRows rows) (sr_Database r, sr_Table r))) (groupRows rows)"
  by (simp add: groupRows_def group_get_def)

lemma group_get_snoc:
  "group_get (groupRows (rows @ [r])) k =
    (if k = (sr_Database r, sr_Table r)
     then AList.update (sr_UUID r) (sr_Data r) (group_get (groupRows rows) k)
     else group_get (groupRows rows) k)"
  unfolding groupRows_snoc by (simp add: group_get_def)

lemma group_get_ok: "gomap_ok (group_get (groupRows rows) k)"
proof (induction rows rule: rev_induct)
  case Nil
  then show ?case by (simp add: groupRows_def group_get_def)
qed (auto simp: group_get_snoc)

lemma group_lookup: "map_of (group_get (groupRows rows) k) u = snapshot_row rows k u"
proof (induction rows rule: rev_induct)
  case Nil
  then show ?case by (simp add: groupRows_def group_get_def snapshot_row_def)
next
  case (snoc r rows)
  then show ?case by (auto simp: group_get_snoc snapshot_row_def)
qed

lemma group_key: "k \<notin> set (gokeys (groupRows rows)) \<Longrightarrow> group_get (groupRows rows) k = []"
  by (simp add: group_get_def map_of_eq_None_iff [THEN iffD2])

lemma in_group: "(u, d) \<in> set (group_get (groupRows rows) k) \<longleftrightarrow> snapshot_row rows k u = Some d"
  using group_get_ok [of rows k] by (simp flip: group_lookup add: map_of_eq_Some_iff)

section \<open>The theorems\<close>

definition row_differs :: "row_map option \<Rightarrow> row_map option \<Rightarrow> bool" where
  "row_differs f t = (case (f, t) of
      (None, None) \<Rightarrow> False
    | (Some a, Some b) \<Rightarrow> map_of a \<noteq> map_of b
    | _ \<Rightarrow> True)"

lemma table_rows:
  assumes "td = diffTable k (group_get (groupRows older) k) (group_get (groupRows newer) k)"
  shows "set (td_Added td) = {d. \<exists>u. snapshot_row newer k u = Some d \<and> snapshot_row older k u = None}"
    "set (td_Removed td) = {d. \<exists>u. snapshot_row older k u = Some d \<and> snapshot_row newer k u = None}"
    "set (td_Modified td) = {\<lparr>rd_UUID = u, rd_Fields = diffFields f t\<rparr> | u f t.
       snapshot_row older k u = Some f \<and> snapshot_row newer k u = Some t \<and> map_of f \<noteq> map_of t}"
proof -
  have split: "(\<exists>x \<in> set (group_get (groupRows rows) k). P x) \<longleftrightarrow> (\<exists>u d. snapshot_row rows k u = Some d \<and> P (u, d))"
    for rows P
    using in_group [of _ _ rows k] by (metis surj_pair)
  show "set (td_Added td) = {d. \<exists>u. snapshot_row newer k u = Some d \<and> snapshot_row older k u = None}"
    "set (td_Removed td) = {d. \<exists>u. snapshot_row older k u = Some d \<and> snapshot_row newer k u = None}"
    unfolding set_eq_iff mem_Collect_eq assms diffTable_def TableDiff.select_convs set_concat set_map UN_iff bex_simps split
    by (auto simp: group_lookup split: option.splits)
  show "set (td_Modified td) = {\<lparr>rd_UUID = u, rd_Fields = diffFields f t\<rparr> | u f t.
       snapshot_row older k u = Some f \<and> snapshot_row newer k u = Some t \<and> map_of f \<noteq> map_of t}"
    unfolding set_eq_iff mem_Collect_eq assms diffTable_def TableDiff.select_convs set_concat set_map UN_iff bex_simps split
    by (auto simp: group_lookup diffFields_Nil split: option.splits if_splits)
qed

lemma table_empty:
  assumes "td = diffTable k (group_get (groupRows older) k) (group_get (groupRows newer) k)"
  shows "(td_Added td \<noteq> [] \<or> td_Removed td \<noteq> [] \<or> td_Modified td \<noteq> []) \<longleftrightarrow>
    (\<exists>u. row_differs (snapshot_row older k u) (snapshot_row newer k u))"
proof -
  have "(td_Added td \<noteq> [] \<or> td_Removed td \<noteq> [] \<or> td_Modified td \<noteq> []) \<longleftrightarrow>
    (set (td_Added td) \<noteq> {} \<or> set (td_Removed td) \<noteq> {} \<or> set (td_Modified td) \<noteq> {})"
    by simp
  also have "\<dots> \<longleftrightarrow> (\<exists>u. row_differs (snapshot_row older k u) (snapshot_row newer k u))"
    unfolding table_rows [OF assms] row_differs_def
    by (auto split: option.splits) (metis not_None_eq option.inject)+
  finally show ?thesis .
qed

lemma in_diffTables:
  "td \<in> set (diffTables older newer) \<longleftrightarrow>
    (\<exists>k. td = diffTable k (group_get (groupRows older) k) (group_get (groupRows newer) k) \<and>
      (\<exists>u. row_differs (snapshot_row older k u) (snapshot_row newer k u)))"
proof -
  have key: "k \<in> set (remdups (gokeys (groupRows older) @ gokeys (groupRows newer)))"
    if "row_differs (snapshot_row older k u) (snapshot_row newer k u)" for k u
    using that group_key [of k older] group_key [of k newer]
    by (auto simp: row_differs_def simp flip: group_lookup split: option.splits)
  let ?D = "\<lambda>k. diffTable k (group_get (groupRows older) k) (group_get (groupRows newer) k)"
  have "td \<in> set (diffTables older newer) \<longleftrightarrow>
    (\<exists>k \<in> set (remdups (gokeys (groupRows older) @ gokeys (groupRows newer))). td = ?D k \<and>
      (td_Added (?D k) \<noteq> [] \<or> td_Removed (?D k) \<noteq> [] \<or> td_Modified (?D k) \<noteq> []))"
    unfolding diffTables_def Let_def set_concat set_map set_sort_slice UN_iff bex_simps
    by (rule bex_cong [OF refl]) simp
  also have "\<dots> \<longleftrightarrow> (\<exists>k. td = ?D k \<and> (\<exists>u. row_differs (snapshot_row older k u) (snapshot_row newer k u)))"
    unfolding table_empty [OF refl] using key by metis
  finally show ?thesis .
qed

text \<open>A snapshot comparison reports a table if and only if some row of it was added, removed or
  changed, each table once, in order of database and name.\<close>

theorem diffTables_reports:
  "((\<exists>td \<in> set (diffTables older newer). td_Database td = db \<and> td_Table td = tbl) \<longleftrightarrow>
     (\<exists>u. row_differs (snapshot_row older (db, tbl) u) (snapshot_row newer (db, tbl) u))) \<and>
   sorted_wrt (\<lambda>a b. (td_Database a, td_Table a) < (td_Database b, td_Table b)) (diffTables older newer)"
proof
  show "(\<exists>td \<in> set (diffTables older newer). td_Database td = db \<and> td_Table td = tbl) \<longleftrightarrow>
     (\<exists>u. row_differs (snapshot_row older (db, tbl) u) (snapshot_row newer (db, tbl) u))"
    by (force simp: in_diffTables diffTable_def)
  show "sorted_wrt (\<lambda>a b. (td_Database a, td_Table a) < (td_Database b, td_Table b)) (diffTables older newer)"
    unfolding diffTables_def Let_def
    by (rule sorted_concat_at_most_one [where g = "\<lambda>td. (td_Database td, td_Table td)"])
      (auto simp: sort_less_strict diffTable_def)
qed

text \<open>What a reported table says: the rows added and removed are those held by one snapshot only; a
  row is modified exactly when both snapshots hold it with different contents, and the fields listed
  for it are exactly those whose values differ, with the old and the new value, sorted by name.\<close>

theorem diffTables_rows:
  assumes "td \<in> set (diffTables older newer)"
  shows "set (td_Added td) = {d. \<exists>u. snapshot_row newer (td_Database td, td_Table td) u = Some d \<and>
        snapshot_row older (td_Database td, td_Table td) u = None} \<and>
    set (td_Removed td) = {d. \<exists>u. snapshot_row older (td_Database td, td_Table td) u = Some d \<and>
        snapshot_row newer (td_Database td, td_Table td) u = None} \<and>
    (\<forall>f t u. snapshot_row older (td_Database td, td_Table td) u = Some f \<longrightarrow>
      snapshot_row newer (td_Database td, td_Table td) u = Some t \<longrightarrow>
      ((\<exists>rd \<in> set (td_Modified td). rd_UUID rd = u) \<longleftrightarrow> map_of f \<noteq> map_of t)) \<and>
    (\<forall>rd \<in> set (td_Modified td). \<exists>f t.
      snapshot_row older (td_Database td, td_Table td) (rd_UUID rd) = Some f \<and>
      snapshot_row newer (td_Database td, td_Table td) (rd_UUID rd) = Some t \<and>
      sorted_wrt (\<lambda>a b. hf_Field a < hf_Field b) (rd_Fields rd) \<and>
      hf_Field ` set (rd_Fields rd) = {k. map_of f k \<noteq> map_of t k} \<and>
      (\<forall>c \<in> set (rd_Fields rd). hf_OldValue c = lookup_nil f (hf_Field c) \<and> hf_NewValue c = lookup_nil t (hf_Field c)))"
proof -
  obtain k where td: "td = diffTable k (group_get (groupRows older) k) (group_get (groupRows newer) k)"
    using assms by (auto simp: in_diffTables)
  have k: "(td_Database td, td_Table td) = k" by (simp add: td diffTable_def)
  have flds: "hf_Field ` set (diffFields f t) = {k. map_of f k \<noteq> map_of t k}"
    "\<forall>c \<in> set (diffFields f t). hf_OldValue c = lookup_nil f (hf_Field c) \<and> hf_NewValue c = lookup_nil t (hf_Field c)"
    for f t
  proof -
    show "\<forall>c \<in> set (diffFields f t). hf_OldValue c = lookup_nil f (hf_Field c) \<and> hf_NewValue c = lookup_nil t (hf_Field c)"
      by (metis HFieldChange.select_convs(2,3) diffFields_iff)
    have "x \<in> hf_Field ` set (diffFields f t)" if "map_of f x \<noteq> map_of t x" for x
      using diffFields_iff [of "\<lparr>hf_Field = x, hf_OldValue = lookup_nil f x, hf_NewValue = lookup_nil t x\<rparr>" f t] that
      by (force simp: image_iff)
    moreover have "map_of f (hf_Field c) \<noteq> map_of t (hf_Field c)" if "c \<in> set (diffFields f t)" for c
      using diffFields_iff [of c f t] that by simp
    ultimately show "hf_Field ` set (diffFields f t) = {k. map_of f k \<noteq> map_of t k}"
      by (intro set_eqI iffI) (elim imageE, simp_all)
  qed
  note rows = table_rows [OF td]
  have m1: "\<exists>f t. snapshot_row older k (rd_UUID rd) = Some f \<and>
      snapshot_row newer k (rd_UUID rd) = Some t \<and>
      sorted_wrt (\<lambda>a b. hf_Field a < hf_Field b) (rd_Fields rd) \<and>
      hf_Field ` set (rd_Fields rd) = {k. map_of f k \<noteq> map_of t k} \<and>
      (\<forall>c \<in> set (rd_Fields rd). hf_OldValue c = lookup_nil f (hf_Field c) \<and> hf_NewValue c = lookup_nil t (hf_Field c))"
    if "rd \<in> set (td_Modified td)" for rd
  proof -
    from that obtain f t where "snapshot_row older k (rd_UUID rd) = Some f"
      "snapshot_row newer k (rd_UUID rd) = Some t" "rd_Fields rd = diffFields f t"
      unfolding rows(3) by auto
    then show ?thesis using flds [of f t] diffFields_sorted [of f t] by simp
  qed
  have m2: "(\<exists>rd \<in> set (td_Modified td). rd_UUID rd = u) \<longleftrightarrow> map_of f \<noteq> map_of t"
    if "snapshot_row older k u = Some f" "snapshot_row newer k u = Some t" for f t u
    using that unfolding rows(3) by (auto, intro exI [of _ "\<lparr>rd_UUID = u, rd_Fields = diffFields f t\<rparr>"], auto)
  show ?thesis unfolding k by (intro conjI allI impI ballI rows(1,2) m1 m2)
qed

definition sample_from :: "SnapshotRow list" where
  "sample_from = [\<lparr>sr_Database = ''nb'', sr_Table = ''ACL'', sr_UUID = ''u1'', sr_Data = [(''priority'', GFloat 1)]\<rparr>]"

definition sample_to :: "SnapshotRow list" where
  "sample_to = [\<lparr>sr_Database = ''nb'', sr_Table = ''ACL'', sr_UUID = ''u1'', sr_Data = [(''priority'', GFloat 2)]\<rparr>,
    \<lparr>sr_Database = ''nb'', sr_Table = ''ACL'', sr_UUID = ''u2'', sr_Data = [(''priority'', GFloat 3)]\<rparr>]"

theorem diffTables_rows_witness:
  "\<exists>td \<in> set (diffTables sample_from sample_to).
     set (td_Added td) = {d. \<exists>u. snapshot_row sample_to (td_Database td, td_Table td) u = Some d \<and>
        snapshot_row sample_from (td_Database td, td_Table td) u = None}"
proof -
  have "row_differs (snapshot_row sample_from (''nb'', ''ACL'') ''u2'') (snapshot_row sample_to (''nb'', ''ACL'') ''u2'')"
    by (simp add: row_differs_def snapshot_row_def sample_from_def sample_to_def)
  then obtain td where td: "td \<in> set (diffTables sample_from sample_to)"
    using in_diffTables [of _ sample_from sample_to] by blast
  with diffTables_rows [OF td] show ?thesis by (intro bexI [of _ td]) (elim conjE, assumption)
qed

end
