(* ===== verification/Events_Hub.thy ===== *)
theory Events_Hub
  imports NW_GoValues "HOL-Library.Word" "HOL-Library.Sublist"
begin

text \<open>
  \<^verbatim>\<open>internal/events\<close>: the hub that fans OVSDB changes out to WebSocket clients and to the collectors
  (\<^verbatim>\<open>hub.go\<close>, \<^verbatim>\<open>message.go\<close>), and the bridge that feeds it from the OVSDB caches (\<^verbatim>\<open>bridge.go\<close>).

  \<^item> A subscriber's channel is the list of events waiting in its buffer; a send to a full buffer takes the
    \<^verbatim>\<open>default\<close> branch of the \<^verbatim>\<open>select\<close>.  A subscriber that left the hub is not part of the state: nothing
    is sent to it any more, and its channel is closed.
  \<^item> Every exported method holds the mutex of the hub or of the subscriber, so a run is a sequence of
    whole operations, \<open>hub_op\<close>; what the subscriber with a given id took from its channel is the
    result of its receive operations.
  \<^item> Subscriber ids and the drop counter are 64-bit words, as in the code.
\<close>

section \<open>Messages\<close>

datatype EventType = EventInsert | EventUpdate | EventDelete

definition EventType_text :: "EventType \<Rightarrow> string" where
  "EventType_text t = (case t of EventInsert \<Rightarrow> ''insert'' | EventUpdate \<Rightarrow> ''update'' | EventDelete \<Rightarrow> ''delete'')"

record Event =
  ev_Type :: EventType
  ev_Database :: string
  ev_Table :: string
  ev_UUID :: string
  ev_Row :: row_map
  ev_OldRow :: row_map
  ev_Ts :: int

record Filter =
  f_Database :: string
  f_Tables :: "string list"

definition Matches :: "Filter \<Rightarrow> Event \<Rightarrow> bool" where
  "Matches f e =
    (if f_Database f \<noteq> ''*'' \<and> f_Database f \<noteq> ev_Database e then False
     else case f_Tables f of
         [] \<Rightarrow> False
       | t # _ \<Rightarrow> if t = ''*'' then True else List.member (f_Tables f) (ev_Table e))"

definition NewEvent :: "int \<Rightarrow> EventType \<Rightarrow> string \<Rightarrow> string \<Rightarrow> string \<Rightarrow> row_map \<Rightarrow> row_map \<Rightarrow> Event" where
  "NewEvent now eventType database table uuid row oldRow =
    \<lparr>ev_Type = eventType, ev_Database = database, ev_Table = table, ev_UUID = uuid, ev_Row = row,
      ev_OldRow = oldRow, ev_Ts = now\<rparr>"

section \<open>Subscribers\<close>

definition subscriberBufferSize :: nat where
  "subscriberBufferSize = 256"

definition dropLogInterval :: int where
  "dropLogInterval = 10000000000"

text \<open>\<open>s_lastDropLog\<close> is \<open>None\<close> for the zero time.\<close>

record Subscriber =
  s_C :: "Event list"
  s_id :: "64 word"
  s_filters :: "Filter list"
  s_dropped :: "64 word"
  s_lastDropLog :: "int option"

definition recordDrop :: "int \<Rightarrow> Subscriber \<Rightarrow> (64 word \<times> bool) \<times> Subscriber" where
  "recordDrop now s =
    (let s = s\<lparr>s_dropped := s_dropped s + 1\<rparr>
     in if (case s_lastDropLog s of None \<Rightarrow> True | Some t \<Rightarrow> now - t \<ge> dropLogInterval)
        then ((s_dropped s, True), s\<lparr>s_dropped := 0, s_lastDropLog := Some now\<rparr>)
        else ((0, False), s))"

definition AddFilter :: "Filter \<Rightarrow> Subscriber \<Rightarrow> Subscriber" where
  "AddFilter f s = s\<lparr>s_filters := s_filters s @ [f]\<rparr>"

text \<open>\<^verbatim>\<open>b\<close> is a map with the value true under every key, so its length is the number of distinct names.\<close>

definition matchesTables :: "string list \<Rightarrow> string list \<Rightarrow> bool" where
  "matchesTables a b = (length a = length b \<and> list_all (\<lambda>t. t \<in> set b) a)"

definition RemoveFilter :: "string \<Rightarrow> string list \<Rightarrow> Subscriber \<Rightarrow> Subscriber" where
  "RemoveFilter database tables s =
    (let tableSet = remdups tables
     in s\<lparr>s_filters := filter (\<lambda>f. \<not> (f_Database f = database \<and> matchesTables (f_Tables f) tableSet)) (s_filters s)\<rparr>)"

definition sub_matches :: "Subscriber \<Rightarrow> Event \<Rightarrow> bool" where
  "sub_matches s e = list_ex (\<lambda>f. Matches f e) (s_filters s)"

section \<open>The hub\<close>

record Hub =
  h_subscribers :: "(64 word, Subscriber) gomap"
  h_nextID :: "64 word"

definition NewHub :: Hub where
  "NewHub = \<lparr>h_subscribers = [], h_nextID = 0\<rparr>"

definition Subscribe :: "Hub \<Rightarrow> 64 word \<times> Hub" where
  "Subscribe h =
    (let i = h_nextID h + 1
     in (i, h\<lparr>h_nextID := i, h_subscribers := AList.update i
       \<lparr>s_C = [], s_id = i, s_filters = [], s_dropped = 0, s_lastDropLog = None\<rparr> (h_subscribers h)\<rparr>))"

definition Unsubscribe :: "64 word \<Rightarrow> Hub \<Rightarrow> Hub" where
  "Unsubscribe i h = h\<lparr>h_subscribers := AList.delete i (h_subscribers h)\<rparr>"

text \<open>One round of the loop in \<^verbatim>\<open>Publish\<close>; \<open>now\<close> is the clock read when the buffer is full.\<close>

definition offer :: "int \<Rightarrow> Event \<Rightarrow> Subscriber \<Rightarrow> Subscriber" where
  "offer now e s =
    (if \<not> sub_matches s e then s
     else if length (s_C s) < subscriberBufferSize then s\<lparr>s_C := s_C s @ [e]\<rparr>
     else snd (recordDrop now s))"

definition Publish :: "(64 word \<Rightarrow> int) \<Rightarrow> Event \<Rightarrow> Hub \<Rightarrow> Hub" where
  "Publish clock e h = h\<lparr>h_subscribers := map (\<lambda>(i, s). (i, offer (clock i) e s)) (h_subscribers h)\<rparr>"

definition HasSubscriberFor :: "string \<Rightarrow> string \<Rightarrow> Hub \<Rightarrow> bool" where
  "HasSubscriberFor database table h =
    (let probe = \<lparr>ev_Type = EventInsert, ev_Database = database, ev_Table = table, ev_UUID = [], ev_Row = [],
       ev_OldRow = [], ev_Ts = 0\<rparr>
     in list_ex (\<lambda>(i, s). sub_matches s probe) (h_subscribers h))"

definition with_sub :: "64 word \<Rightarrow> (Subscriber \<Rightarrow> Subscriber) \<Rightarrow> Hub \<Rightarrow> Hub" where
  "with_sub i f h = h\<lparr>h_subscribers := map (\<lambda>(j, s). (j, if j = i then f s else s)) (h_subscribers h)\<rparr>"

section \<open>The bridge\<close>

definition extractUUID :: "row_map \<Rightarrow> string" where
  "extractUUID row = (case map_of row ''_uuid'' of Some (GStr s) \<Rightarrow> s | _ \<Rightarrow> [])"

record Bridge =
  b_database :: string

definition OnAdd :: "int \<Rightarrow> (64 word \<Rightarrow> int) \<Rightarrow> Bridge \<Rightarrow> string \<Rightarrow> gtype \<Rightarrow> model \<Rightarrow> Hub \<Rightarrow> Hub" where
  "OnAdd now clock b table t m h =
    (if \<not> HasSubscriberFor (b_database b) table h then h
     else let row = ModelToMap t m; uuid = extractUUID row
          in Publish clock (NewEvent now EventInsert (b_database b) table uuid row []) h)"

definition OnUpdate ::
    "int \<Rightarrow> (64 word \<Rightarrow> int) \<Rightarrow> Bridge \<Rightarrow> string \<Rightarrow> gtype \<Rightarrow> model \<Rightarrow> model \<Rightarrow> Hub \<Rightarrow> Hub" where
  "OnUpdate now clock b table t old new h =
    (if \<not> HasSubscriberFor (b_database b) table h then h
     else let row = ModelToMap t new; oldRow = ModelToMap t old; uuid = extractUUID row
          in Publish clock (NewEvent now EventUpdate (b_database b) table uuid row oldRow) h)"

definition OnDelete :: "int \<Rightarrow> (64 word \<Rightarrow> int) \<Rightarrow> Bridge \<Rightarrow> string \<Rightarrow> gtype \<Rightarrow> model \<Rightarrow> Hub \<Rightarrow> Hub" where
  "OnDelete now clock b table t m h =
    (if \<not> HasSubscriberFor (b_database b) table h then h
     else let row = ModelToMap t m; uuid = extractUUID row
          in Publish clock (NewEvent now EventDelete (b_database b) table uuid row []) h)"

section \<open>Runs\<close>

datatype hub_op =
    HSubscribe
  | HUnsubscribe "64 word"
  | HAddFilter "64 word" Filter
  | HRemoveFilter "64 word" string "string list"
  | HPublish "64 word \<Rightarrow> int" Event
  | HReceive "64 word"

fun hub_step :: "hub_op \<Rightarrow> Hub \<Rightarrow> Hub" where
  "hub_step HSubscribe h = snd (Subscribe h)"
| "hub_step (HUnsubscribe i) h = Unsubscribe i h"
| "hub_step (HAddFilter i f) h = with_sub i (AddFilter f) h"
| "hub_step (HRemoveFilter i db tables) h = with_sub i (RemoveFilter db tables) h"
| "hub_step (HPublish clock e) h = Publish clock e h"
| "hub_step (HReceive i) h = with_sub i (\<lambda>s. s\<lparr>s_C := tl (s_C s)\<rparr>) h"

abbreviation hub_run :: "hub_op list \<Rightarrow> Hub \<Rightarrow> Hub" where
  "hub_run ops h \<equiv> fold hub_step ops h"

abbreviation sub_of :: "64 word \<Rightarrow> Hub \<Rightarrow> Subscriber option" where
  "sub_of i h \<equiv> map_of (h_subscribers h) i"

definition waiting :: "64 word \<Rightarrow> Hub \<Rightarrow> Event list" where
  "waiting i h = (case sub_of i h of None \<Rightarrow> [] | Some s \<Rightarrow> s_C s)"

definition wants :: "64 word \<Rightarrow> Event \<Rightarrow> Hub \<Rightarrow> bool" where
  "wants i e h = (case sub_of i h of None \<Rightarrow> False | Some s \<Rightarrow> sub_matches s e)"

text \<open>What the subscriber \<open>i\<close> takes from its channel, what it is meant to get, and what it had room for.\<close>

fun received :: "64 word \<Rightarrow> hub_op list \<Rightarrow> Hub \<Rightarrow> Event list" where
  "received i [] h = []"
| "received i (op # ops) h =
    (case op of HReceive j \<Rightarrow> if j = i then take 1 (waiting i h) else [] | _ \<Rightarrow> []) @ received i ops (hub_step op h)"

fun published :: "64 word \<Rightarrow> hub_op list \<Rightarrow> Hub \<Rightarrow> Event list" where
  "published i [] h = []"
| "published i (op # ops) h =
    (case op of HPublish c e \<Rightarrow> if wants i e h then [e] else [] | _ \<Rightarrow> []) @ published i ops (hub_step op h)"

fun accepted :: "64 word \<Rightarrow> hub_op list \<Rightarrow> Hub \<Rightarrow> Event list" where
  "accepted i [] h = []"
| "accepted i (op # ops) h =
    (case op of HPublish c e \<Rightarrow> if wants i e h \<and> length (waiting i h) < subscriberBufferSize then [e] else [] | _ \<Rightarrow> []) @
    accepted i ops (hub_step op h)"

section \<open>Delivery\<close>

lemma map_of_map_entries: "map_of (map (\<lambda>(k, v). (k, f k v)) m) i = map_option (f i) (map_of m i)"
  by (induction m) auto

lemma sub_of_simps [simp]:
  "sub_of i (with_sub j f h) = map_option (\<lambda>s. if i = j then f s else s) (sub_of i h)"
  "sub_of i (Publish clock e h) = map_option (offer (clock i) e) (sub_of i h)"
  by (simp_all add: with_sub_def Publish_def map_of_map_entries)

lemma recordDrop_C [simp]: "s_C (snd (recordDrop now s)) = s_C s" "s_filters (snd (recordDrop now s)) = s_filters s"
  by (simp_all add: recordDrop_def)

lemma filters_C [simp]: "s_C (AddFilter f s) = s_C s" "s_C (RemoveFilter db ts s) = s_C s"
  by (simp_all add: AddFilter_def RemoveFilter_def)

lemma take1_tl [simp]: "take (Suc 0) xs @ tl xs = xs"
  by (cases xs) auto

lemma waiting_step:
  assumes "op \<noteq> HUnsubscribe i" "op = HSubscribe \<Longrightarrow> i \<noteq> h_nextID h + 1"
  shows "received i [op] h @ waiting i (hub_step op h) = waiting i h @ accepted i [op] h"
  using assms
  by (cases op) (auto simp: waiting_def wants_def offer_def Subscribe_def Unsubscribe_def AList.delete_conv' update_conv'
      split: option.splits)

lemma run_append:
  "received i (xs @ ys) h = received i xs h @ received i ys (hub_run xs h)"
  "published i (xs @ ys) h = published i xs h @ published i ys (hub_run xs h)"
  "accepted i (xs @ ys) h = accepted i xs h @ accepted i ys (hub_run xs h)"
  by (induction xs arbitrary: h) auto

lemma accepted_subseq: "subseq (accepted i ops h) (published i ops h)"
proof (induction ops arbitrary: h)
  case (Cons op ops)
  have "subseq (accepted i [op] h) (published i [op] h)" by (auto split: hub_op.splits)
  with Cons have "subseq (accepted i [op] h @ accepted i ops (hub_step op h)) (published i [op] h @ published i ops (hub_step op h))"
    by (intro list_emb_append_mono)
  then show ?case by simp
qed simp

fun subscriptions :: "hub_op list \<Rightarrow> nat" where
  "subscriptions [] = 0"
| "subscriptions (HSubscribe # ops) = Suc (subscriptions ops)"
| "subscriptions (op # ops) = subscriptions ops"

lemma nextID_step: "h_nextID (hub_step op h) = (if op = HSubscribe then h_nextID h + 1 else h_nextID h)"
  by (cases op) (auto simp: Subscribe_def Unsubscribe_def with_sub_def Publish_def)

lemma subscriptions_Cons: "subscriptions (op # ops) = (if op = HSubscribe then 1 else 0) + subscriptions ops"
  by (cases op) auto

lemma id_not_reused:
  assumes "k + subscriptions (op # ops) < 2 ^ 64" "op = HSubscribe"
  shows "i \<noteq> i + of_nat k + (1 :: 64 word)"
proof
  assume "i = i + of_nat k + (1 :: 64 word)"
  then have "of_nat (Suc k) = (0 :: 64 word)" by (simp add: algebra_simps)
  then have "unat (of_nat (Suc k) :: 64 word) = 0" by simp
  moreover have "Suc k < 2 ^ LENGTH(64)" using assms by (simp add: subscriptions_Cons)
  ultimately show False by (simp only: unat_of_nat mod_less)
qed

lemma delivery:
  assumes "h_nextID h = i + of_nat k" "k + subscriptions ops < 2 ^ 64" "HUnsubscribe i \<notin> set ops"
  shows "received i ops h @ waiting i (hub_run ops h) = waiting i h @ accepted i ops h"
  using assms
proof (induction ops arbitrary: h k)
  case (Cons op ops)
  let ?k = "if op = HSubscribe then Suc k else k"
  have "h_nextID (hub_step op h) = i + of_nat ?k" using Cons.prems(1) by (simp add: nextID_step)
  then have "received i ops (hub_step op h) @ waiting i (hub_run ops (hub_step op h)) =
      waiting i (hub_step op h) @ accepted i ops (hub_step op h)"
    by (rule Cons.IH) (use Cons.prems in \<open>auto simp: subscriptions_Cons\<close>)
  moreover have "received i [op] h @ waiting i (hub_step op h) = waiting i h @ accepted i [op] h"
    using Cons.prems id_not_reused [of k op ops i] by (intro waiting_step) auto
  ultimately show ?case by simp
qed simp

definition buffers_bounded :: "Hub \<Rightarrow> bool" where
  "buffers_bounded h = list_all (\<lambda>(i, s). length (s_C s) \<le> subscriberBufferSize) (h_subscribers h)"

lemma offer_bounded: "length (s_C s) \<le> subscriberBufferSize \<Longrightarrow> length (s_C (offer now e s)) \<le> subscriberBufferSize"
  by (simp add: offer_def)

lemma buffers_bounded_step: "buffers_bounded h \<Longrightarrow> buffers_bounded (hub_step op h)"
proof (cases op)
  case (HPublish clock e)
  assume "buffers_bounded h"
  with HPublish show ?thesis using offer_bounded by (auto simp: buffers_bounded_def Publish_def list_all_iff)
next
  case HSubscribe
  assume "buffers_bounded h"
  with HSubscribe show ?thesis
    by (auto simp: buffers_bounded_def Subscribe_def list_all_iff dest!: set_AList_update)
next
  case (HUnsubscribe i)
  assume "buffers_bounded h"
  with HUnsubscribe show ?thesis
    by (auto simp: buffers_bounded_def Unsubscribe_def list_all_iff AList.delete_eq)
next
  case (HReceive i)
  assume "buffers_bounded h"
  with HReceive show ?thesis by (fastforce simp: buffers_bounded_def with_sub_def list_all_iff)
qed (auto simp: buffers_bounded_def with_sub_def list_all_iff)

lemma buffers_bounded_run: "buffers_bounded h \<Longrightarrow> buffers_bounded (hub_run ops h)"
  by (induction ops arbitrary: h) (auto intro: buffers_bounded_step)

lemma lossless:
  assumes "h_nextID h = i" "waiting i h = []" "subscriptions ops < 2 ^ 64" "HUnsubscribe i \<notin> set ops"
    and "\<forall>pre post. ops = pre @ post \<longrightarrow> length (published i pre h) \<le> length (received i pre h) + subscriberBufferSize"
  shows "accepted i ops h = published i ops h"
  using assms(3-5)
proof (induction ops rule: rev_induct)
  case (snoc op ops)
  have sub: "subscriptions (ops @ [op]) = subscriptions ops + subscriptions [op]" for ops
    by (induction ops) (auto simp: subscriptions_Cons)
  have "\<forall>pre post. ops = pre @ post \<longrightarrow> length (published i pre h) \<le> length (received i pre h) + subscriberBufferSize"
    using snoc.prems(3) by (metis append.assoc)
  with snoc.prems have eq: "accepted i ops h = published i ops h" by (intro snoc.IH) (simp_all add: sub)
  have "received i ops h @ waiting i (hub_run ops h) = waiting i h @ accepted i ops h"
    using assms(1) snoc.prems by (intro delivery [of h i 0]) (auto simp: sub)
  then have "length (received i ops h) + length (waiting i (hub_run ops h)) = length (published i ops h)"
    using eq assms(2) by (metis append_Nil length_append)
  moreover have "length (published i (ops @ [op]) h) \<le> length (received i (ops @ [op]) h) + subscriberBufferSize"
    using snoc.prems(3) by (metis append_Nil2)
  ultimately have "accepted i [op] (hub_run ops h) = published i [op] (hub_run ops h)"
    by (auto simp: run_append split: hub_op.splits)
  with eq show ?case by (simp add: run_append)
qed simp

text \<open>C23. Event delivery.  From the moment a client subscribes, whatever the other clients do, what it has
  received together with what is waiting in its buffer is exactly the sequence of events that matched its
  filters when they were published, in order and without duplicates, less those that found the buffer
  full; the buffer never holds more than 256 events; and a client that is never more than 256 events
  behind misses nothing.  (Ids are 64-bit, hence the bound on the number of subscriptions.)\<close>

theorem hub_delivery:
  assumes "Subscribe h0 = (i, h)" "HUnsubscribe i \<notin> set ops" "subscriptions ops < 2 ^ 64" "buffers_bounded h0"
  shows "received i ops h @ waiting i (hub_run ops h) = accepted i ops h \<and>
    subseq (accepted i ops h) (published i ops h) \<and>
    length (waiting i (hub_run ops h)) \<le> 256 \<and>
    ((\<forall>pre post. ops = pre @ post \<longrightarrow> length (published i pre h) \<le> length (received i pre h) + 256) \<longrightarrow>
      accepted i ops h = published i ops h)"
proof -
  have h: "h = hub_step HSubscribe h0" "h_nextID h = i" "waiting i h = []"
    using assms(1) by (auto simp: Subscribe_def waiting_def)
  have "buffers_bounded (hub_run ops h)" unfolding h(1) using assms(4) buffers_bounded_run [of h0 "HSubscribe # ops"] by simp
  then have "length (waiting i (hub_run ops h)) \<le> 256"
    by (auto simp: waiting_def buffers_bounded_def list_all_iff subscriberBufferSize_def split: option.splits dest!: map_of_SomeD)
  moreover have "received i ops h @ waiting i (hub_run ops h) = accepted i ops h"
    using delivery [of h i 0 ops] h assms(2,3) by simp
  ultimately show ?thesis
    using accepted_subseq [of i ops h] lossless [OF h(2,3) assms(3,2)] by (simp add: subscriberBufferSize_def)
qed

section \<open>The bridge's shortcut\<close>

lemma Matches_cong: "ev_Database e = ev_Database e' \<Longrightarrow> ev_Table e = ev_Table e' \<Longrightarrow> Matches f e = Matches f e'"
  by (cases "f_Tables f") (simp_all add: Matches_def)

lemma Publish_unwanted:
  assumes "\<not> HasSubscriberFor (ev_Database e) (ev_Table e) h"
  shows "Publish clock e h = h"
proof -
  let ?probe = "\<lparr>ev_Type = EventInsert, ev_Database = ev_Database e, ev_Table = ev_Table e, ev_UUID = [], ev_Row = [],
       ev_OldRow = [], ev_Ts = 0\<rparr>"
  have "Matches f ?probe = Matches f e" for f by (rule Matches_cong) simp_all
  then have "\<forall>(i, s) \<in> set (h_subscribers h). \<not> sub_matches s e"
    using assms by (auto simp: HasSubscriberFor_def sub_matches_def list_ex_iff)
  then have "map (\<lambda>(i, s). (i, offer (clock i) e s)) (h_subscribers h) = h_subscribers h"
    by (intro map_idI) (auto simp: offer_def)
  then show ?thesis by (simp add: Publish_def)
qed

text \<open>The bridge's shortcut is sound: skipping the conversion of a row when no subscriber asks for its
  table has the same effect as always publishing the event.\<close>

theorem bridge_shortcut:
  "OnAdd now clock b table t m h =
     Publish clock (NewEvent now EventInsert (b_database b) table (extractUUID (ModelToMap t m)) (ModelToMap t m) []) h \<and>
   OnUpdate now clock b table t m m' h =
     Publish clock (NewEvent now EventUpdate (b_database b) table (extractUUID (ModelToMap t m')) (ModelToMap t m') (ModelToMap t m)) h \<and>
   OnDelete now clock b table t m h =
     Publish clock (NewEvent now EventDelete (b_database b) table (extractUUID (ModelToMap t m)) (ModelToMap t m) []) h"
  using Publish_unwanted [where h = h]
  by (auto simp: OnAdd_def OnUpdate_def OnDelete_def NewEvent_def)

section \<open>Examples\<close>

definition sample_event :: Event where
  "sample_event = NewEvent 5 EventInsert ''sb'' ''Logical_Flow'' ''u1'' [(''_uuid'', GStr ''u1'')] []"

definition sample_run :: "hub_op list" where
  "sample_run = [HAddFilter 1 \<lparr>f_Database = ''sb'', f_Tables = [''Logical_Flow'']\<rparr>, HPublish (\<lambda>_. 0) sample_event,
     HSubscribe, HReceive 1]"

theorem hub_delivery_witness:
  "received 1 sample_run (snd (Subscribe NewHub)) @ waiting 1 (hub_run sample_run (snd (Subscribe NewHub))) =
     accepted 1 sample_run (snd (Subscribe NewHub))"
proof -
  have s: "Subscribe NewHub = (1, snd (Subscribe NewHub))" by (simp add: Subscribe_def NewHub_def)
  have "HUnsubscribe 1 \<notin> set sample_run" "subscriptions sample_run < 2 ^ 64" "buffers_bounded NewHub"
    by (simp_all add: sample_run_def buffers_bounded_def NewHub_def)
  from hub_delivery [OF s this] show ?thesis by blast
qed

text \<open>Subscribing twice to one table and unsubscribing from it once with the same message leaves the
  subscription in place: the table set has one name, the filter's list has two.\<close>

lemma RemoveFilter_duplicate_names:
  "\<lparr>f_Database = ''nb'', f_Tables = [''ACL'', ''ACL'']\<rparr> \<in> set (s_filters (RemoveFilter ''nb'' [''ACL'', ''ACL'']
     (AddFilter \<lparr>f_Database = ''nb'', f_Tables = [''ACL'', ''ACL'']\<rparr> s)))"
  by (simp add: RemoveFilter_def AddFilter_def matchesTables_def)

end
