(* ===== verification/Alert_Engine.thy ===== *)
theory Alert_Engine
  imports Events_Hub
begin

text \<open>
  \<^verbatim>\<open>internal/alert/engine.go\<close>, \<^verbatim>\<open>rule.go\<close> and \<^verbatim>\<open>silence.go\<close>: the life of an alert, from firing to resolution
  and removal, silences, and who gets paged.

  \<^item> An evaluation is one step.  Its inputs are what the pause check says, the clock readings (one for the
    evaluation, and one for every time a silence is consulted, indexed by the fingerprint of the alert it
    is consulted for), and what the check of each rule returns in this round; rules with memory are in
    \<open>Alert_Rules\<close>.  Its outputs are the alerts handed to the notifier and the events published.
  \<^item> Messages are kept as the format and the arguments given to \<^verbatim>\<open>fmt.Sprintf\<close>.
  \<^item> The maps \<^verbatim>\<open>active\<close> and \<^verbatim>\<open>silences\<close> are ranged over in an order Go does not fix; only the order of the
    notifications depends on it.
\<close>

section \<open>Rules, alerts and silences\<close>

datatype Severity = SeverityWarning | SeverityCritical

datatype AlertState = StateFiring | StateResolved

datatype marg = MStr string | MInt int | MRat rat

record Alert =
  al_Rule :: string
  al_Severity :: Severity
  al_State :: AlertState
  al_Message :: "string \<times> marg list"
  al_Labels :: "(string, string) gomap"
  al_FiredAt :: int
  al_ResolvedAt :: "int option"
  al_notified :: bool

record Rule =
  r_Name :: string
  r_Description :: string
  r_Severity :: Severity

record RuleSummary =
  rs_Name :: string
  rs_Description :: string
  rs_Severity :: Severity
  rs_Enabled :: bool

fun join_slash :: "string list \<Rightarrow> string" where
  "join_slash [] = []"
| "join_slash [s] = s"
| "join_slash (s # ss) = s @ CHR ''/'' # join_slash ss"

definition label_or :: "(string, string) gomap \<Rightarrow> string \<Rightarrow> string" where
  "label_or labels k = (case map_of labels k of None \<Rightarrow> [] | Some v \<Rightarrow> v)"

definition fingerprint :: "Alert \<Rightarrow> string" where
  "fingerprint a =
    (if al_Labels a = [] then al_Rule a
     else let keys = sort_slice (<) (gokeys (al_Labels a))
          in join_slash (al_Rule a # map (\<lambda>k. k @ CHR ''='' # label_or (al_Labels a) k) keys))"

record Silence =
  sl_ID :: string
  sl_CreatedAt :: "int option"
  sl_ExpiresAt :: int
  sl_Rule :: string
  sl_Matchers :: "(string, string) gomap"
  sl_Comment :: string

definition sl_Matches :: "Silence \<Rightarrow> Alert \<Rightarrow> bool" where
  "sl_Matches s a =
    (if sl_Rule s \<noteq> [] \<and> sl_Rule s \<noteq> al_Rule a then False
     else list_all (\<lambda>(k, v). label_or (al_Labels a) k = v) (sl_Matchers s))"

definition IsExpired :: "Silence \<Rightarrow> int \<Rightarrow> bool" where
  "IsExpired s now = (now > sl_ExpiresAt s)"

section \<open>The engine\<close>

definition resolvedAlertTTL :: int where
  "resolvedAlertTTL = 300000000000"

definition defaultEvalInterval :: int where
  "defaultEvalInterval = 30000000000"

record AlertEngine =
  ae_rules :: "Rule list"
  ae_disabled :: "string list"
  ae_active :: "(string, Alert) gomap"
  ae_silences :: "(string, Silence) gomap"
  ae_interval :: int

definition NewAlertEngine :: "int \<Rightarrow> AlertEngine" where
  "NewAlertEngine interval =
    \<lparr>ae_rules = [], ae_disabled = [], ae_active = [], ae_silences = [],
      ae_interval = (if interval \<le> 0 then defaultEvalInterval else interval)\<rparr>"

definition RegisterRule :: "Rule \<Rightarrow> AlertEngine \<Rightarrow> AlertEngine" where
  "RegisterRule r e = e\<lparr>ae_rules := ae_rules e @ [r]\<rparr>"

definition SetRuleEnabled :: "string \<Rightarrow> bool \<Rightarrow> AlertEngine \<Rightarrow> error option \<times> AlertEngine" where
  "SetRuleEnabled name enabled e =
    (if \<not> list_ex (\<lambda>r. r_Name r = name) (ae_rules e) then (Some (Errorf ''rule %q: not found'' [AStr name]), e)
     else if enabled then (None, e\<lparr>ae_disabled := removeAll name (ae_disabled e)\<rparr>)
     else (None, e\<lparr>ae_disabled := List.insert name (ae_disabled e)\<rparr>))"

definition AddSilence :: "int \<Rightarrow> Silence \<Rightarrow> AlertEngine \<Rightarrow> string \<times> AlertEngine" where
  "AddSilence now s e =
    (let s = (if sl_ID s = [] then s\<lparr>sl_ID := ''silence-'' @ Itoa now\<rparr> else s);
         s = (if sl_CreatedAt s = None then s\<lparr>sl_CreatedAt := Some now\<rparr> else s)
     in (sl_ID s, e\<lparr>ae_silences := AList.update (sl_ID s) s (ae_silences e)\<rparr>))"

definition RemoveSilence :: "string \<Rightarrow> AlertEngine \<Rightarrow> error option \<times> AlertEngine" where
  "RemoveSilence sid e = (case map_of (ae_silences e) sid of
     None \<Rightarrow> (Some (Errorf ''silence %q: not found'' [AStr sid]), e)
   | Some _ \<Rightarrow> (None, e\<lparr>ae_silences := AList.delete sid (ae_silences e)\<rparr>))"

definition ListSilences :: "int \<Rightarrow> AlertEngine \<Rightarrow> Silence list" where
  "ListSilences now e = filter (\<lambda>s. \<not> IsExpired s now) (map snd (ae_silences e))"

definition isSilenced :: "int \<Rightarrow> (string, Silence) gomap \<Rightarrow> Alert \<Rightarrow> bool" where
  "isSilenced now silences a = list_ex (\<lambda>(i, s). \<not> IsExpired s now \<and> sl_Matches s a) silences"

definition ActiveAlerts :: "int \<Rightarrow> AlertEngine \<Rightarrow> Alert list" where
  "ActiveAlerts now e =
    filter (\<lambda>a. al_State a = StateFiring \<and> \<not> isSilenced now (ae_silences e) a) (map snd (ae_active e))"

definition ruleSummaries :: "AlertEngine \<Rightarrow> RuleSummary list" where
  "ruleSummaries e = map (\<lambda>r. \<lparr>rs_Name = r_Name r, rs_Description = r_Description r, rs_Severity = r_Severity r,
     rs_Enabled = (r_Name r \<notin> set (ae_disabled e))\<rparr>) (ae_rules e)"

section \<open>Evaluation\<close>

definition Severity_text :: "Severity \<Rightarrow> string" where
  "Severity_text s = (case s of SeverityWarning \<Rightarrow> ''warning'' | SeverityCritical \<Rightarrow> ''critical'')"

definition AlertState_text :: "AlertState \<Rightarrow> string" where
  "AlertState_text s = (case s of StateFiring \<Rightarrow> ''firing'' | StateResolved \<Rightarrow> ''resolved'')"

text \<open>The event of an alert; \<open>sprintf\<close> stands for the text of its message.\<close>

definition alertEvent :: "(string \<times> marg list \<Rightarrow> string) \<Rightarrow> int \<Rightarrow> Alert \<Rightarrow> EventType \<Rightarrow> Event" where
  "alertEvent sprintf now a eventType = NewEvent now eventType ''alert'' (al_Rule a) (fingerprint a)
     [(''rule'', GStr (al_Rule a)), (''severity'', GStr (Severity_text (al_Severity a))),
      (''state'', GStr (AlertState_text (al_State a))), (''message'', GStr (sprintf (al_Message a))),
      (''labels'', GMap (map (\<lambda>(k, v). (k, GStr v)) (al_Labels a)))] []"

record tick =
  tk_active :: "(string, Alert) gomap"
  tk_seen :: "string list"
  tk_failed :: "string list"
  tk_notes :: "Alert list"

text \<open>One alert reported by a rule.\<close>

definition fireAlert :: "int \<Rightarrow> (string \<Rightarrow> int) \<Rightarrow> (string, Silence) gomap \<Rightarrow> Alert \<Rightarrow> tick \<Rightarrow> tick" where
  "fireAlert now clock silences a t =
    (let fp = fingerprint a;
         stored = (case map_of (tk_active t) fp of
                     Some s \<Rightarrow> s | None \<Rightarrow> a\<lparr>al_State := StateFiring, al_FiredAt := now\<rparr>);
         silenced = isSilenced (clock fp) silences a;
         notify = (\<not> al_notified stored \<and> \<not> silenced);
         stored = (if notify then stored\<lparr>al_notified := True\<rparr> else stored)
     in t\<lparr>tk_seen := fp # tk_seen t,
          tk_active := (if map_of (tk_active t) fp = None \<or> notify then AList.update fp stored (tk_active t) else tk_active t),
          tk_notes := (if notify then tk_notes t @ [stored] else tk_notes t)\<rparr>)"

definition runRule ::
    "int \<Rightarrow> (string \<Rightarrow> int) \<Rightarrow> (Rule \<Rightarrow> Alert list result) \<Rightarrow> AlertEngine \<Rightarrow> Rule \<Rightarrow> tick \<Rightarrow> tick" where
  "runRule now clock check e rule t =
    (if r_Name rule \<in> set (ae_disabled e) then t
     else case check rule of
         Err err \<Rightarrow> t\<lparr>tk_failed := r_Name rule # tk_failed t\<rparr>
       | Ok alerts \<Rightarrow> fold (fireAlert now clock (ae_silences e)) alerts t)"

definition resolves :: "tick \<Rightarrow> string \<times> Alert \<Rightarrow> bool" where
  "resolves t entry = (let (fp, a) = entry
     in al_State a = StateFiring \<and> fp \<notin> set (tk_seen t) \<and> al_Rule a \<notin> set (tk_failed t))"

definition resolved :: "int \<Rightarrow> Alert \<Rightarrow> Alert" where
  "resolved now a = a\<lparr>al_State := StateResolved, al_ResolvedAt := Some now\<rparr>"

definition forgotten :: "int \<Rightarrow> Alert \<Rightarrow> bool" where
  "forgotten now a = (al_State a = StateResolved \<and>
     (case al_ResolvedAt a of None \<Rightarrow> False | Some t \<Rightarrow> now - t > resolvedAlertTTL))"

text \<open>The result: the alerts that page because they fire, those reported as resolved, and the new engine.  The
  notifier gets both lists, the hub the events of \<open>alertEvents\<close>.\<close>

definition evaluate ::
    "bool \<Rightarrow> int \<Rightarrow> (string \<Rightarrow> int) \<Rightarrow> (Rule \<Rightarrow> Alert list result) \<Rightarrow> AlertEngine \<Rightarrow> (Alert list \<times> Alert list) \<times> AlertEngine" where
  "evaluate paused now clock check e =
    (if paused then (([], []), e)
     else let t = fold (runRule now clock check e) (ae_rules e)
                    \<lparr>tk_active = ae_active e, tk_seen = [], tk_failed = [], tk_notes = []\<rparr>;
              active = map (\<lambda>(fp, a). (fp, if resolves t (fp, a) then resolved now a else a)) (tk_active t);
              over = filter (\<lambda>a. \<not> isSilenced (clock (fingerprint a)) (ae_silences e) a)
                       (map (\<lambda>(fp, a). resolved now a) (filter (resolves t) (tk_active t)));
              active = filter (\<lambda>(fp, a). \<not> forgotten now a) active;
              silences = filter (\<lambda>(i, s). \<not> IsExpired s now) (ae_silences e)
          in ((tk_notes t, over), e\<lparr>ae_active := active, ae_silences := silences\<rparr>))"

definition alertEvents :: "(string \<times> marg list \<Rightarrow> string) \<Rightarrow> int \<Rightarrow> Alert list \<times> Alert list \<Rightarrow> Event list" where
  "alertEvents sprintf now notes =
    map (\<lambda>a. alertEvent sprintf now a EventInsert) (fst notes) @ map (\<lambda>a. alertEvent sprintf now a EventUpdate) (snd notes)"

section \<open>The invariant\<close>

definition engine_ok :: "AlertEngine \<Rightarrow> bool" where
  "engine_ok e = (gomap_ok (ae_active e) \<and>
     list_all (\<lambda>(fp, a). fingerprint a = fp \<and> (al_State a = StateResolved \<longrightarrow> al_ResolvedAt a \<noteq> None)) (ae_active e))"

text \<open>The alerts the enabled rules report, in order, and the names of the enabled rules that fail.\<close>

definition reports :: "(Rule \<Rightarrow> Alert list result) \<Rightarrow> AlertEngine \<Rightarrow> Alert list" where
  "reports check e = concat (map (\<lambda>r. if r_Name r \<in> set (ae_disabled e) then [] else case check r of Err _ \<Rightarrow> [] | Ok as \<Rightarrow> as)
     (ae_rules e))"

definition failures :: "(Rule \<Rightarrow> Alert list result) \<Rightarrow> AlertEngine \<Rightarrow> string set" where
  "failures check e = {r_Name r | r err. r \<in> set (ae_rules e) \<and> r_Name r \<notin> set (ae_disabled e) \<and> check r = Err err}"

lemma fireAlert_failed [simp]: "tk_failed (fireAlert now clock sil a t) = tk_failed t"
  by (simp add: fireAlert_def)

lemma fold_fireAlert_failed [simp]: "tk_failed (fold (fireAlert now clock sil) as t) = tk_failed t"
  by (induction as arbitrary: t) simp_all

lemma fireAlert_failed_update:
  "fold (fireAlert now clock sil) as (t\<lparr>tk_failed := f\<rparr>) = (fold (fireAlert now clock sil) as t)\<lparr>tk_failed := f\<rparr>"
proof (induction as arbitrary: t)
  case (Cons a as)
  have "fireAlert now clock sil a (t\<lparr>tk_failed := f\<rparr>) = (fireAlert now clock sil a t)\<lparr>tk_failed := f\<rparr>"
    by (simp add: fireAlert_def)
  with Cons show ?case by simp
qed simp

text \<open>The rule loop fires the reported alerts one after the other.\<close>

lemma runRules:
  fixes t :: tick
  shows "\<exists>f. fold (runRule now clock check e) rules t =
      (fold (fireAlert now clock (ae_silences e)) (reports check (e\<lparr>ae_rules := rules\<rparr>)) t)\<lparr>tk_failed := f\<rparr> \<and>
    set f = failures check (e\<lparr>ae_rules := rules\<rparr>) \<union> set (tk_failed t)"
proof (induction rules arbitrary: t)
  case Nil
  show ?case by (intro exI [of _ "tk_failed t"]) (simp add: reports_def failures_def)
next
  case (Cons r rules)
  let ?fire = "fold (fireAlert now clock (ae_silences e))"
  from Cons [of "runRule now clock check e r t"] obtain f where
    f: "fold (runRule now clock check e) (r # rules) t =
        (?fire (reports check (e\<lparr>ae_rules := rules\<rparr>)) (runRule now clock check e r t))\<lparr>tk_failed := f\<rparr>"
      "set f = failures check (e\<lparr>ae_rules := rules\<rparr>) \<union> set (tk_failed (runRule now clock check e r t))" by auto
  have "set f = failures check (e\<lparr>ae_rules := r # rules\<rparr>) \<union> set (tk_failed t)"
    unfolding f(2) by (auto simp: failures_def runRule_def split: sum.splits)
  moreover have "(?fire (reports check (e\<lparr>ae_rules := rules\<rparr>)) (runRule now clock check e r t))\<lparr>tk_failed := f\<rparr> =
      (?fire (reports check (e\<lparr>ae_rules := r # rules\<rparr>)) t)\<lparr>tk_failed := f\<rparr>"
    by (auto simp: reports_def runRule_def fireAlert_failed_update split: sum.splits)
  ultimately show ?case using f(1) by auto
qed

text \<open>The entry an alert has once it is reported, before paging is decided.\<close>

definition entry :: "int \<Rightarrow> (string, Alert) gomap \<Rightarrow> Alert list \<Rightarrow> string \<Rightarrow> Alert option" where
  "entry now active rs fp = (case map_of active fp of
     Some s \<Rightarrow> Some s
   | None \<Rightarrow> (case filter (\<lambda>a. fingerprint a = fp) rs of
       [] \<Rightarrow> None | a # _ \<Rightarrow> Some (a\<lparr>al_State := StateFiring, al_FiredAt := now\<rparr>)))"

definition audible :: "(string \<Rightarrow> int) \<Rightarrow> (string, Silence) gomap \<Rightarrow> Alert list \<Rightarrow> string \<Rightarrow> bool" where
  "audible clock sil rs fp = (\<exists>a \<in> set rs. fingerprint a = fp \<and> \<not> isSilenced (clock fp) sil a)"

definition keyed :: "(string, Alert) gomap \<Rightarrow> bool" where
  "keyed m = (\<forall>fp a. map_of m fp = Some a \<longrightarrow> fingerprint a = fp)"

lemma fingerprint_cong: "al_Rule a = al_Rule b \<Longrightarrow> al_Labels a = al_Labels b \<Longrightarrow> fingerprint a = fingerprint b"
  by (simp add: fingerprint_def)

lemma fingerprint_updates [simp]:
  "fingerprint (a\<lparr>al_State := s\<rparr>) = fingerprint a" "fingerprint (a\<lparr>al_FiredAt := f\<rparr>) = fingerprint a"
  "fingerprint (a\<lparr>al_notified := n\<rparr>) = fingerprint a" "fingerprint (a\<lparr>al_ResolvedAt := r\<rparr>) = fingerprint a"
  by (auto intro: fingerprint_cong)

lemma notified_id: "al_notified s \<Longrightarrow> s\<lparr>al_notified := True\<rparr> = s"
  by simp

lemma entry_snoc:
  "entry now m (rs @ [a]) fp =
    (if fingerprint a = fp \<and> entry now m rs fp = None then Some (a\<lparr>al_State := StateFiring, al_FiredAt := now\<rparr>) else entry now m rs fp)"
  by (auto simp: entry_def split: option.splits list.splits)

lemma audible_snoc:
  "audible clock sil (rs @ [a]) fp \<longleftrightarrow> audible clock sil rs fp \<or> (fingerprint a = fp \<and> \<not> isSilenced (clock fp) sil a)"
  by (auto simp: audible_def)

lemma audible_entry: "audible clock sil rs fp \<Longrightarrow> \<exists>s. entry now m rs fp = Some s"
  by (auto simp: audible_def entry_def filter_empty_conv split: option.splits list.splits)

lemma fire_active:
  fixes t :: tick
  shows "map_of (tk_active (fold (fireAlert now clock sil) rs t)) fp =
    map_option (\<lambda>s. if audible clock sil rs fp then s\<lparr>al_notified := True\<rparr> else s) (entry now (tk_active t) rs fp)"
proof (induction rs rule: rev_induct)
  case Nil
  then show ?case by (simp add: entry_def audible_def split: option.splits)
next
  case (snoc a rs)
  let ?t = "fold (fireAlert now clock sil) rs t"
  show ?case
  proof (cases "fingerprint a = fp")
    case False
    then have "map_of (tk_active (fireAlert now clock sil a ?t)) fp = map_of (tk_active ?t) fp"
      by (simp add: fireAlert_def)
    with snoc False show ?thesis by (simp add: entry_snoc audible_snoc)
  next
    case True
    then show ?thesis
    proof (cases "entry now (tk_active t) rs fp")
      case None
      then have "\<not> audible clock sil rs fp" using audible_entry [of clock sil rs fp now "tk_active t"] by auto
      with None True snoc show ?thesis by (auto simp: fireAlert_def entry_snoc audible_snoc)
    next
      case (Some s)
      with True snoc show ?thesis
        by (cases "al_notified s") (auto simp: fireAlert_def entry_snoc audible_snoc notified_id simp del: map_of_eq_Some_iff)
    qed
  qed
qed

lemma fire_seen:
  fixes t :: tick
  shows "set (tk_seen (fold (fireAlert now clock sil) rs t)) = fingerprint ` set rs \<union> set (tk_seen t)"
  by (induction rs arbitrary: t) (auto simp: fireAlert_def)

lemma fire_ok:
  fixes t :: tick
  shows "gomap_ok (tk_active t) \<Longrightarrow> gomap_ok (tk_active (fold (fireAlert now clock sil) rs t))"
  by (induction rs arbitrary: t) (auto simp: fireAlert_def)

lemma entry_keyed: "keyed m \<Longrightarrow> entry now m rs fp = Some s \<Longrightarrow> fingerprint s = fp"
  by (auto simp: entry_def keyed_def filter_eq_Cons_iff simp del: map_of_eq_Some_iff split: option.splits list.splits)

text \<open>An alert pages exactly when it is reported and audible and has not paged yet.\<close>

lemma fire_notes:
  fixes t :: tick
  assumes "keyed (tk_active t)"
  shows "(\<exists>x \<in> set (tk_notes (fold (fireAlert now clock sil) rs t)). fingerprint x = fp) \<longleftrightarrow>
    (\<exists>x \<in> set (tk_notes t). fingerprint x = fp) \<or>
    (audible clock sil rs fp \<and> (\<exists>s. entry now (tk_active t) rs fp = Some s \<and> \<not> al_notified s))"
proof (induction rs rule: rev_induct)
  case Nil
  then show ?case by (simp add: audible_def)
next
  case (snoc a rs)
  let ?t = "fold (fireAlert now clock sil) rs t"
  let ?stored = "case map_of (tk_active ?t) (fingerprint a) of Some s \<Rightarrow> s | None \<Rightarrow> a\<lparr>al_State := StateFiring, al_FiredAt := now\<rparr>"
  have key: "fingerprint ?stored = fingerprint a"
    using fire_active [of now clock sil rs t "fingerprint a"] entry_keyed [OF assms, of now rs "fingerprint a"]
    by (auto split: option.splits)
  have new: "set (tk_notes (fireAlert now clock sil a ?t)) = set (tk_notes ?t) \<union>
      (if \<not> al_notified ?stored \<and> \<not> isSilenced (clock (fingerprint a)) sil a then {?stored\<lparr>al_notified := True\<rparr>} else {})"
    by (simp add: fireAlert_def)
  show ?case
  proof (cases "fingerprint a = fp")
    case False
    with snoc key show ?thesis by (simp add: new entry_snoc audible_snoc)
  next
    case True
    have "al_notified ?stored \<longleftrightarrow> audible clock sil rs fp \<or> (\<exists>s. entry now (tk_active t) (rs @ [a]) fp = Some s \<and> al_notified s)"
      using fire_active [of now clock sil rs t fp] audible_entry [of clock sil rs fp now "tk_active t"] True
      by (cases "entry now (tk_active t) rs fp") (auto simp: entry_snoc)
    moreover obtain s where "entry now (tk_active t) (rs @ [a]) fp = Some s"
      using True by (cases "entry now (tk_active t) rs fp") (auto simp: entry_snoc)
    moreover have "audible clock sil rs fp \<Longrightarrow> entry now (tk_active t) (rs @ [a]) fp = entry now (tk_active t) rs fp"
      using audible_entry [of clock sil rs fp now "tk_active t"] by (auto simp: entry_snoc)
    ultimately show ?thesis using snoc key True by (auto simp: new audible_snoc)
  qed
qed

section \<open>One evaluation\<close>

lemma engine_ok_keyed: "engine_ok e \<Longrightarrow> keyed (ae_active e)"
  by (auto simp: engine_ok_def keyed_def list_all_iff)

lemma engine_ok_resolved: "engine_ok e \<Longrightarrow> map_of (ae_active e) fp = Some a \<Longrightarrow> al_State a = StateResolved \<Longrightarrow> \<exists>r. al_ResolvedAt a = Some r"
  by (fastforce simp: engine_ok_def list_all_iff)

lemma engine_okI:
  assumes "gomap_ok (ae_active e)" "\<And>fp a. map_of (ae_active e) fp = Some a \<Longrightarrow>
    fingerprint a = fp \<and> (al_State a = StateResolved \<longrightarrow> al_ResolvedAt a \<noteq> None)"
  shows "engine_ok e"
  using assms by (auto simp: engine_ok_def list_all_iff)

text \<open>The entry of an alert after an evaluation.\<close>

lemma evaluate_entry:
  assumes "engine_ok e" "evaluate False now clock check e = ((fired, over), e')"
  defines "rs \<equiv> reports check e"
  shows "gomap_ok (ae_active e')"
    and "map_of (ae_active e') fp = (case entry now (ae_active e) rs fp of
      None \<Rightarrow> None
    | Some s \<Rightarrow> (let s = (if audible clock (ae_silences e) rs fp then s\<lparr>al_notified := True\<rparr> else s);
                     s = (if al_State s = StateFiring \<and> fp \<notin> fingerprint ` set rs \<and> al_Rule s \<notin> failures check e
                          then resolved now s else s)
                 in if forgotten now s then None else Some s))"
    and "(\<exists>x \<in> set fired. fingerprint x = fp) \<longleftrightarrow>
      audible clock (ae_silences e) rs fp \<and> (\<exists>s. entry now (ae_active e) rs fp = Some s \<and> \<not> al_notified s)"
proof -
  let ?t = "\<lparr>tk_active = ae_active e, tk_seen = [], tk_failed = [], tk_notes = []\<rparr>"
  let ?fire = "fold (fireAlert now clock (ae_silences e)) rs ?t"
  obtain f where f: "fold (runRule now clock check e) (ae_rules e) ?t = ?fire\<lparr>tk_failed := f\<rparr>" "set f = failures check e"
    using runRules [of now clock check e "ae_rules e" ?t] by (auto simp: rs_def)
  have ok: "gomap_ok (ae_active e)" using assms(1) by (simp add: engine_ok_def)
  let ?res = "\<lambda>fp a. if resolves (?fire\<lparr>tk_failed := f\<rparr>) (fp, a) then resolved now a else a"
  have e': "fired = tk_notes ?fire"
    "ae_active e' = filter (\<lambda>(fp, a). \<not> forgotten now a) (map (\<lambda>(fp, a). (fp, ?res fp a)) (tk_active ?fire))"
    using assms(2) by (auto simp: evaluate_def f)
  have okt: "gomap_ok (tk_active ?fire)" using fire_ok [of ?t] ok by simp
  then have okm: "gomap_ok (map (\<lambda>(fp, a). (fp, ?res fp a)) (tk_active ?fire))" by (simp add: comp_def case_prod_unfold)
  then show "gomap_ok (ae_active e')" unfolding e' by (rule gomap_ok_filter)
  have "map_of (ae_active e') fp = (case map_of (tk_active ?fire) fp of None \<Rightarrow> None
      | Some a \<Rightarrow> if forgotten now (?res fp a) then None else Some (?res fp a))"
    using okm unfolding e' by (simp add: map_of_filter map_of_map_entries split: option.splits)
  moreover have "resolves (?fire\<lparr>tk_failed := f\<rparr>) (fp, a) \<longleftrightarrow>
      al_State a = StateFiring \<and> fp \<notin> fingerprint ` set rs \<and> al_Rule a \<notin> failures check e" for a
    by (simp add: resolves_def fire_seen f(2))
  ultimately show "map_of (ae_active e') fp = (case entry now (ae_active e) rs fp of
      None \<Rightarrow> None
    | Some s \<Rightarrow> (let s = (if audible clock (ae_silences e) rs fp then s\<lparr>al_notified := True\<rparr> else s);
                     s = (if al_State s = StateFiring \<and> fp \<notin> fingerprint ` set rs \<and> al_Rule s \<notin> failures check e
                          then resolved now s else s)
                 in if forgotten now s then None else Some s))"
    by (simp add: fire_active split: option.splits)
  show "(\<exists>x \<in> set fired. fingerprint x = fp) \<longleftrightarrow>
      audible clock (ae_silences e) rs fp \<and> (\<exists>s. entry now (ae_active e) rs fp = Some s \<and> \<not> al_notified s)"
    unfolding e' using fire_notes [of ?t now clock "ae_silences e" rs fp] engine_ok_keyed [OF assms(1)] by simp
qed

lemma entry_None: "map_of m fp = None \<Longrightarrow> entry now m rs fp = None \<longleftrightarrow> fp \<notin> fingerprint ` set rs"
  by (fastforce simp: entry_def filter_empty_conv filter_eq_Cons_iff split: list.splits)

lemma entry_new:
  assumes "map_of m fp = None" "entry now m rs fp = Some s"
  obtains a where "a \<in> set rs" "fingerprint a = fp" "s = a\<lparr>al_State := StateFiring, al_FiredAt := now\<rparr>"
proof -
  from assms obtain a as where "filter (\<lambda>a. fingerprint a = fp) rs = a # as" "s = a\<lparr>al_State := StateFiring, al_FiredAt := now\<rparr>"
    by (auto simp: entry_def split: list.splits)
  then show ?thesis using that [of a] by (auto simp: filter_eq_Cons_iff)
qed

lemma entry_Some [simp]: "map_of m fp = Some s \<Longrightarrow> entry now m rs fp = Some s"
  by (simp add: entry_def)

lemma audible_seen: "audible clock sil rs fp \<Longrightarrow> fp \<in> fingerprint ` set rs"
  by (auto simp: audible_def)

lemma forgotten_simps [simp]:
  "al_State a = StateFiring \<Longrightarrow> \<not> forgotten now a" "\<not> forgotten now (resolved now a)"
  "forgotten now (a\<lparr>al_notified := b\<rparr>) = forgotten now a"
  by (simp_all add: forgotten_def resolved_def resolvedAlertTTL_def)

lemma resolved_simps [simp]: "al_State (resolved now a) = StateResolved" "fingerprint (resolved now a) = fingerprint a"
  "al_notified (resolved now a) = al_notified a" "al_ResolvedAt (resolved now a) = Some now"
  by (simp_all add: resolved_def)

lemma evaluate_ok:
  assumes "engine_ok e" "evaluate False now clock check e = ((fired, over), e')"
  shows "engine_ok e'"
proof (rule engine_okI)
  show "gomap_ok (ae_active e')" by (rule evaluate_entry(1) [OF assms])
  fix fp a assume a: "map_of (ae_active e') fp = Some a"
  then obtain s where s: "entry now (ae_active e) (reports check e) fp = Some s"
    using evaluate_entry(2) [OF assms, of fp] by (auto split: option.splits)
  have "fingerprint s = fp" by (rule entry_keyed [OF engine_ok_keyed [OF assms(1)] s])
  moreover have "al_State s = StateResolved \<longrightarrow> al_ResolvedAt s \<noteq> None"
  proof (cases "map_of (ae_active e) fp")
    case None
    with s show ?thesis by (auto elim: entry_new)
  next
    case (Some x)
    with s show ?thesis using engine_ok_resolved [OF assms(1) Some] by auto
  qed
  ultimately show "fingerprint a = fp \<and> (al_State a = StateResolved \<longrightarrow> al_ResolvedAt a \<noteq> None)"
    using a evaluate_entry(2) [OF assms, of fp] s by (auto split: if_splits)
qed

text \<open>C20. The life of an alert, as a state machine over evaluations.  An unknown alert starts firing exactly when
  a rule reports it; a firing alert keeps firing while it is reported or its rule cannot be checked, and
  is marked resolved at the first evaluation without either; a resolved alert is kept for five minutes
  and then forgotten, whether or not it is reported again.  The invariant of the engine is kept.\<close>

theorem alert_lifecycle:
  assumes "engine_ok e" "evaluate False now clock check e = ((fired, over), e')"
  shows "engine_ok e' \<and>
    (map_of (ae_active e) fp = None \<longrightarrow>
      map_option al_State (map_of (ae_active e') fp) =
        (if fp \<in> fingerprint ` set (reports check e) then Some StateFiring else None)) \<and>
    (\<forall>a. map_of (ae_active e) fp = Some a \<longrightarrow> al_State a = StateFiring \<longrightarrow>
      (if fp \<in> fingerprint ` set (reports check e) \<or> al_Rule a \<in> failures check e
       then \<exists>b. map_of (ae_active e') fp = Some (a\<lparr>al_notified := b\<rparr>)
       else map_of (ae_active e') fp = Some (resolved now a))) \<and>
    (\<forall>a r. map_of (ae_active e) fp = Some a \<longrightarrow> al_State a = StateResolved \<longrightarrow> al_ResolvedAt a = Some r \<longrightarrow>
      map_option al_State (map_of (ae_active e') fp) = (if now - r > 300000000000 then None else Some StateResolved))"
proof (intro conjI impI allI)
  note ent = evaluate_entry(2) [OF assms, of fp]
  show "engine_ok e'" by (rule evaluate_ok [OF assms])
  show "map_option al_State (map_of (ae_active e') fp) =
      (if fp \<in> fingerprint ` set (reports check e) then Some StateFiring else None)" if new: "map_of (ae_active e) fp = None"
  proof (cases "entry now (ae_active e) (reports check e) fp")
    case None
    then show ?thesis using entry_None [OF new, of now "reports check e"] by (simp add: ent)
  next
    case (Some s)
    moreover from new this have "al_State s = StateFiring" by (auto elim: entry_new)
    moreover have "fp \<in> fingerprint ` set (reports check e)" using entry_None [OF new, of now "reports check e"] Some by simp
    ultimately show ?thesis by (simp add: ent)
  qed
  show "if fp \<in> fingerprint ` set (reports check e) \<or> al_Rule a \<in> failures check e
       then \<exists>b. map_of (ae_active e') fp = Some (a\<lparr>al_notified := b\<rparr>)
       else map_of (ae_active e') fp = Some (resolved now a)"
    if a: "map_of (ae_active e) fp = Some a" "al_State a = StateFiring" for a
  proof -
    have "\<exists>b. a = a\<lparr>al_notified := b\<rparr>" by (rule exI [of _ "al_notified a"]) simp
    then show ?thesis
      using a audible_seen [of clock "ae_silences e" "reports check e" fp]
      by (auto simp: ent simp del: map_of_eq_Some_iff intro: exI [of _ True])
  qed
  show "map_option al_State (map_of (ae_active e') fp) = (if now - r > 300000000000 then None else Some StateResolved)"
    if a: "map_of (ae_active e) fp = Some a" "al_State a = StateResolved" "al_ResolvedAt a = Some r" for a r
    using a by (simp add: ent forgotten_def resolvedAlertTTL_def)
qed

text \<open>C21. Who gets paged: an evaluation pages for an alert exactly when a rule reports it without a silence in
  force and no page was sent for it before, so a silence delays a page instead of losing it; and as long
  as the alert stays known, it is marked as paged from then on.\<close>

theorem alert_paging_rule:
  assumes "engine_ok e" "evaluate False now clock check e = ((fired, over), e')"
    and "\<forall>a \<in> set (reports check e). \<not> al_notified a"
  shows "((\<exists>x \<in> set fired. fingerprint x = fp) \<longleftrightarrow>
      (\<exists>a \<in> set (reports check e). fingerprint a = fp \<and> \<not> isSilenced (clock fp) (ae_silences e) a) \<and>
      (\<forall>s. map_of (ae_active e) fp = Some s \<longrightarrow> \<not> al_notified s)) \<and>
    (\<forall>s. map_of (ae_active e') fp = Some s \<longrightarrow>
      (al_notified s \<longleftrightarrow> (\<exists>x \<in> set fired. fingerprint x = fp) \<or> (\<exists>s. map_of (ae_active e) fp = Some s \<and> al_notified s)))"
proof -
  note page = evaluate_entry(3) [OF assms(1,2), of fp]
  have fresh: "\<not> al_notified s" if "map_of (ae_active e) fp = None" "entry now (ae_active e) (reports check e) fp = Some s" for s
    using that assms(3) by (auto elim!: entry_new)
  have "(\<exists>x \<in> set fired. fingerprint x = fp) \<longleftrightarrow> audible clock (ae_silences e) (reports check e) fp \<and>
      (\<forall>s. map_of (ae_active e) fp = Some s \<longrightarrow> \<not> al_notified s)"
  proof (cases "map_of (ae_active e) fp")
    case None
    with fresh audible_entry [of clock "ae_silences e" "reports check e" fp now "ae_active e"]
    show ?thesis unfolding page None by blast
  next
    case (Some s)
    then show ?thesis unfolding page by (simp only: entry_Some) blast
  qed
  moreover have "al_notified s \<longleftrightarrow> (\<exists>x \<in> set fired. fingerprint x = fp) \<or> (\<exists>s. map_of (ae_active e) fp = Some s \<and> al_notified s)"
    if s: "map_of (ae_active e') fp = Some s" for s
  proof -
    from s obtain x where x: "entry now (ae_active e) (reports check e) fp = Some x"
      using evaluate_entry(2) [OF assms(1,2), of fp] by (auto simp del: map_of_eq_Some_iff split: option.splits)
    with s have "al_notified s \<longleftrightarrow> audible clock (ae_silences e) (reports check e) fp \<or> al_notified x"
      using evaluate_entry(2) [OF assms(1,2), of fp]
      by (auto simp: Let_def simp del: map_of_eq_Some_iff split: if_splits)
    moreover have "al_notified x \<longleftrightarrow> (\<exists>s. map_of (ae_active e) fp = Some s \<and> al_notified s)"
    proof (cases "map_of (ae_active e) fp")
      case None
      from fresh [OF this x] None show ?thesis by simp
    next
      case (Some y)
      from entry_Some [OF this, of now "reports check e"] x have "x = y" by simp
      with Some show ?thesis by simp
    qed
    ultimately show ?thesis unfolding page x by auto
  qed
  ultimately show ?thesis unfolding audible_def by blast
qed

section \<open>Examples\<close>

definition sample_rule :: Rule where
  "sample_rule = \<lparr>r_Name = ''port_down'', r_Description = [], r_Severity = SeverityWarning\<rparr>"

definition sample_alert :: Alert where
  "sample_alert = \<lparr>al_Rule = ''port_down'', al_Severity = SeverityWarning, al_State = StateFiring,
     al_Message = (''Port %s is down'', [MStr ''p1'']), al_Labels = [(''port'', ''p1'')], al_FiredAt = 0,
     al_ResolvedAt = None, al_notified = False\<rparr>"

definition sample_engine :: AlertEngine where
  "sample_engine = RegisterRule sample_rule (NewAlertEngine 0)"

abbreviation reporting :: "int \<Rightarrow> AlertEngine \<Rightarrow> (Alert list \<times> Alert list) \<times> AlertEngine" where
  "reporting now e \<equiv> evaluate False now (\<lambda>_. now) (\<lambda>_. Ok [sample_alert]) e"

lemma sample_engine_ok: "engine_ok sample_engine" "map_of (ae_active sample_engine) fp = None"
  "reports (\<lambda>_. Ok [sample_alert]) sample_engine = [sample_alert]" "ae_silences sample_engine = []"
  by (simp_all add: engine_ok_def sample_engine_def RegisterRule_def NewAlertEngine_def reports_def)

theorem alert_lifecycle_witness:
  "map_option al_State (map_of (ae_active (snd (reporting 7 sample_engine))) (fingerprint sample_alert)) = Some StateFiring"
proof -
  obtain f r e where ev: "reporting 7 sample_engine = ((f, r), e)" by (metis surj_pair)
  from alert_lifecycle [OF sample_engine_ok(1) this, of "fingerprint sample_alert"] show ?thesis
    unfolding ev by (simp add: sample_engine_ok)
qed

theorem alert_paging_rule_witness:
  "\<exists>x \<in> set (fst (fst (reporting 7 sample_engine))). fingerprint x = fingerprint sample_alert"
proof -
  obtain f r e where ev: "reporting 7 sample_engine = ((f, r), e)" by (metis surj_pair)
  from alert_paging_rule [OF sample_engine_ok(1) this, of "fingerprint sample_alert"] show ?thesis
    unfolding ev by (simp add: sample_engine_ok isSilenced_def) (simp add: sample_alert_def)
qed

text \<open>An alert that fires, is resolved, and fires again a minute later stays resolved and pages nobody.\<close>

lemma alert_refire_ignored:
  "let e1 = snd (reporting 0 sample_engine);
       e2 = snd (evaluate False 1 (\<lambda>_. 1) (\<lambda>_. Ok []) e1);
       ((fired, over), e3) = reporting 60000000001 e2
   in fired = [] \<and> map (al_State \<circ> snd) (ae_active e3) = [StateResolved]"
  by code_simp

end
