(* ===== verification/Inventory_Liveness.thy ===== *)
theory Inventory_Liveness
  imports NW_Rows
begin

text \<open>
  \<^verbatim>\<open>internal/inventory/liveness.go\<close>: whether a chassis is in sync, alive or stale, decided in one place for the
  alert rules, the inventory and the gateway analyzer.
\<close>

record Liveness =
  lv_InSync :: bool
  lv_Alive :: bool
  lv_Stale :: bool
  lv_NbCfg :: int
  lv_SBNbCfg :: int
  lv_NbCfgTimestamp :: int
  lv_AgeMs :: int

text \<open>\<open>now\<close> is in milliseconds, \<open>staleThreshold\<close> in nanoseconds.\<close>

definition ComputeLiveness :: "ChassisPrivate option \<Rightarrow> int \<Rightarrow> int \<Rightarrow> int \<Rightarrow> Liveness" where
  "ComputeLiveness priv sbNbCfg now staleThreshold =
    (let l = \<lparr>lv_InSync = False, lv_Alive = False, lv_Stale = False, lv_NbCfg = 0, lv_SBNbCfg = sbNbCfg,
               lv_NbCfgTimestamp = 0, lv_AgeMs = 0\<rparr>
     in case priv of
          None \<Rightarrow> l
        | Some p \<Rightarrow>
            (let l = l\<lparr>lv_NbCfg := cp_NbCfg p, lv_NbCfgTimestamp := cp_NbCfgTimestamp p, lv_InSync := (cp_NbCfg p = sbNbCfg)\<rparr>;
                 l = l\<lparr>lv_Alive := lv_InSync l\<rparr>
             in if cp_NbCfgTimestamp p > 0
                then let age = now - cp_NbCfgTimestamp p;
                         l = (if age > 0 then l\<lparr>lv_AgeMs := age\<rparr> else l)
                     in l\<lparr>lv_Stale := (\<not> lv_InSync l \<and> lv_AgeMs l > staleThreshold div 1000000)\<rparr>
                else l))"

text \<open>A chassis that is in sync is never stale, and a missing heartbeat row is neither alive nor stale.\<close>

lemma ComputeLiveness_simps:
  "lv_Alive (ComputeLiveness priv n now th) \<longleftrightarrow> (\<exists>p. priv = Some p \<and> cp_NbCfg p = n)"
  "lv_Stale (ComputeLiveness priv n now th) \<longleftrightarrow>
    (\<exists>p. priv = Some p \<and> cp_NbCfg p \<noteq> n \<and> cp_NbCfgTimestamp p > 0 \<and> max 0 (now - cp_NbCfgTimestamp p) > th div 1000000)"
  by (auto simp: ComputeLiveness_def max_def split: option.splits)

end
