(* ===== verification/Alert_Rules.thy ===== *)
theory Alert_Rules
  imports Alert_Engine Inventory_Liveness
begin

text \<open>
  \<^verbatim>\<open>internal/alert/rules.go\<close>: the built-in rules.

  \<^item> The check of a rule is a function of what the listings of the southbound cache return.  The two rules
    with memory (flow count and HA failover) take and return the state their closure captures.
  \<^item> The flow count percentage is a rational; the code computes it in \<^verbatim>\<open>float64\<close>.
  \<^item> \<^verbatim>\<open>shortID\<close> cuts by runes; identifiers are UUIDs, hence ASCII, where runes are bytes.
\<close>

section \<open>The rules\<close>

definition new_alert :: "string \<Rightarrow> Severity \<Rightarrow> string \<times> marg list \<Rightarrow> (string, string) gomap \<Rightarrow> Alert" where
  "new_alert rule sev msg labels = \<lparr>al_Rule = rule, al_Severity = sev, al_State = StateFiring, al_Message = msg,
     al_Labels = labels, al_FiredAt = 0, al_ResolvedAt = None, al_notified = False\<rparr>"

definition staleAlert :: "ChassisPrivate list \<Rightarrow> int \<Rightarrow> int \<Rightarrow> int \<Rightarrow> SBChassis \<Rightarrow> Alert list" where
  "staleAlert privates sbNbCfg now staleThreshold ch =
    (let priv = map_of (byUUID cp_Name privates) (sc_Name ch);
         lv = ComputeLiveness priv sbNbCfg now staleThreshold;
         missing = (priv = None \<and> sbNbCfg > 0)
     in if \<not> lv_Stale lv \<and> \<not> missing then []
        else [new_alert ''stale_chassis_config'' SeverityWarning
               (if missing then (''Chassis %s (%s) has no Chassis_Private row (no ovn-controller heartbeat)'',
                                 [MStr (sc_Name ch), MStr (sc_Hostname ch)])
                else (''Chassis %s (%s) is stale: acknowledged nb_cfg=%d, current=%d'',
                      [MStr (sc_Name ch), MStr (sc_Hostname ch), MInt (lv_NbCfg lv), MInt sbNbCfg]))
               [(''chassis'', sc_Name ch), (''hostname'', sc_Hostname ch)]])"

definition StaleChassis ::
    "int list result \<Rightarrow> ChassisPrivate list result \<Rightarrow> SBChassis list result \<Rightarrow> int \<Rightarrow> int \<Rightarrow> Alert list result" where
  "StaleChassis sbGlobals privates chassisList now staleThreshold = (case sbGlobals of
     Err err \<Rightarrow> Err (Wrapf ''listing sb_global: %w'' [] err)
   | Ok [] \<Rightarrow> Ok []
   | Ok (sbNbCfg # _) \<Rightarrow> (case privates of
       Err err \<Rightarrow> Err (Wrapf ''listing chassis_private: %w'' [] err)
     | Ok ps \<Rightarrow> (case chassisList of
         Err err \<Rightarrow> Err (Wrapf ''listing chassis: %w'' [] err)
       | Ok cs \<Rightarrow> Ok (concat (map (staleAlert ps sbNbCfg now staleThreshold) cs)))))"

definition portType :: "string \<Rightarrow> string" where
  "portType t = (if t = [] then ''VIF'' else t)"

definition PortDown :: "PortBinding list result \<Rightarrow> Alert list result" where
  "PortDown ports = (case ports of
     Err err \<Rightarrow> Err (Wrapf ''listing port bindings: %w'' [] err)
   | Ok ps \<Rightarrow> Ok (concat (map (\<lambda>p.
       if pb_Type p = ''virtual'' then []
       else if pb_Up p = Some False
       then [new_alert ''port_down'' SeverityWarning (''Port %s is down'', [MStr (pb_LogicalPort p)])
               [(''port'', pb_LogicalPort p), (''type'', portType (pb_Type p))]]
       else []) ps)))"

definition UnboundPort :: "PortBinding list result \<Rightarrow> Alert list result" where
  "UnboundPort ports = (case ports of
     Err err \<Rightarrow> Err (Wrapf ''listing port bindings: %w'' [] err)
   | Ok ps \<Rightarrow> Ok (concat (map (\<lambda>p.
       if pb_Type p \<noteq> [] then []
       else if pb_Chassis p = None \<or> pb_Chassis p = Some []
       then [new_alert ''unbound_port'' SeverityWarning (''VIF port %s has no chassis binding'', [MStr (pb_LogicalPort p)])
               [(''port'', pb_LogicalPort p)]]
       else []) ps)))"

definition BFDStatusDown :: string where
  "BFDStatusDown = ''down''"

definition BFDDown :: "BFD list result \<Rightarrow> Alert list result" where
  "BFDDown sessions = (case sessions of
     Err err \<Rightarrow> Err (Wrapf ''listing bfd sessions: %w'' [] err)
   | Ok ss \<Rightarrow> Ok (concat (map (\<lambda>s.
       if bf_Status s = BFDStatusDown
       then [new_alert ''bfd_down'' SeverityCritical (''BFD session to %s on %s is down'', [MStr (bf_DstIP s), MStr (bf_LogicalPort s)])
               [(''dst_ip'', bf_DstIP s), (''logical_port'', bf_LogicalPort s), (''chassis'', bf_ChassisName s)]]
       else []) ss)))"

record flow_memory =
  fm_lastCount :: int
  fm_firstRun :: bool

definition new_flow_memory :: flow_memory where
  "new_flow_memory = \<lparr>fm_lastCount = 0, fm_firstRun = True\<rparr>"

text \<open>\<open>n\<close> is the number of logical flows listed.\<close>

definition FlowCountAnomaly :: "rat \<Rightarrow> int result \<Rightarrow> flow_memory \<Rightarrow> Alert list result \<times> flow_memory" where
  "FlowCountAnomaly thresholdPct flows m = (case flows of
     Err err \<Rightarrow> (Err (Wrapf ''listing logical flows: %w'' [] err), m)
   | Ok n \<Rightarrow>
       if n = 0 then (Ok [], m)
       else if fm_firstRun m then (Ok [], m\<lparr>fm_lastCount := n, fm_firstRun := False\<rparr>)
       else if fm_lastCount m = 0 then (Ok [], m\<lparr>fm_lastCount := n\<rparr>)
       else let pctChange = of_int \<bar>n - fm_lastCount m\<bar> / of_int (fm_lastCount m) * 100;
                prev = fm_lastCount m
            in (if pctChange > thresholdPct
                then Ok [new_alert ''flow_count_anomaly'' SeverityWarning
                           (''Logical flow count changed by %.1f%% (%d '' @ arrow @ '' %d)'', [MRat pctChange, MInt prev, MInt n]) []]
                else Ok [],
                m\<lparr>fm_lastCount := n\<rparr>))"

section \<open>HA failover\<close>

definition shortID :: "string \<Rightarrow> string" where
  "shortID s = (if length s \<le> 8 then s else take 8 s)"

record ha_memory =
  hm_lastActive :: "(string, string) gomap"
  hm_initialized :: bool

definition new_ha_memory :: ha_memory where
  "new_ha_memory = \<lparr>hm_lastActive = [], hm_initialized = False\<rparr>"

text \<open>The chassis of highest priority in a group, among the entries that exist and name a chassis.\<close>

definition bestStep :: "(string, SBHAChassis) gomap \<Rightarrow> string \<Rightarrow> int \<times> string \<Rightarrow> int \<times> string" where
  "bestStep haChassisMap u = (\<lambda>(bestPriority, best).
     case map_of haChassisMap u of
       None \<Rightarrow> (bestPriority, best)
     | Some hac \<Rightarrow> (case sh_Chassis hac of
         None \<Rightarrow> (bestPriority, best)
       | Some c \<Rightarrow> if c = [] then (bestPriority, best)
                  else if sh_Priority hac > bestPriority \<or> best = [] then (sh_Priority hac, c)
                  else (bestPriority, best)))"

definition bestChassis :: "(string, SBHAChassis) gomap \<Rightarrow> string list \<Rightarrow> string" where
  "bestChassis haChassisMap uuids = snd (fold (bestStep haChassisMap) uuids (0, []))"

definition activeByGroup :: "SBHAChassisGroup list \<Rightarrow> SBHAChassis list \<Rightarrow> (string, string) gomap" where
  "activeByGroup groups haChassis = fold (\<lambda>g m.
     let best = bestChassis (byUUID sh_UUID haChassis) (sg_HaChassis g)
     in if best \<noteq> [] then AList.update (sg_UUID g) best m else m) groups []"

definition chassisDisplay :: "SBChassis list \<Rightarrow> string \<Rightarrow> string" where
  "chassisDisplay chassis uuid = (case map_of (byUUID sc_UUID chassis) uuid of
     None \<Rightarrow> shortID uuid | Some c \<Rightarrow> if sc_Name c = [] then shortID uuid else sc_Name c)"

definition failoverAlert :: "SBHAChassisGroup list \<Rightarrow> SBChassis list \<Rightarrow> string \<Rightarrow> string \<Rightarrow> string \<Rightarrow> Alert" where
  "failoverAlert groups chassis groupUUID prevChassis currentChassis =
    (let groupName = (case find (\<lambda>g. sg_UUID g = groupUUID) groups of None \<Rightarrow> shortID groupUUID | Some g \<Rightarrow> sg_Name g);
         prevName = chassisDisplay chassis prevChassis; currentName = chassisDisplay chassis currentChassis
     in new_alert ''ha_failover'' SeverityCritical
          (''HA group %s failover: %s -> %s'', [MStr groupName, MStr prevName, MStr currentName])
          [(''ha_group'', groupUUID), (''ha_group_name'', groupName), (''previous_chassis'', prevName),
           (''current_chassis'', currentName)])"

text \<open>\<open>order\<close> is the order in which the map of active chassis is ranged over.\<close>

definition HAFailover ::
    "((string, string) gomap \<Rightarrow> (string, string) gomap) \<Rightarrow> SBHAChassisGroup list result \<Rightarrow> SBHAChassis list result \<Rightarrow>
      SBChassis list result \<Rightarrow> ha_memory \<Rightarrow> Alert list result \<times> ha_memory" where
  "HAFailover order groups haChassis chassis m = (case groups of
     Err err \<Rightarrow> (Err (Wrapf ''listing ha_chassis_group: %w'' [] err), m)
   | Ok gs \<Rightarrow> (case haChassis of
       Err err \<Rightarrow> (Err (Wrapf ''listing ha_chassis: %w'' [] err), m)
     | Ok hs \<Rightarrow> (case chassis of
         Err err \<Rightarrow> (Err (Wrapf ''listing chassis: %w'' [] err), m)
       | Ok cs \<Rightarrow>
           (let currentActive = activeByGroup gs hs
            in if \<not> hm_initialized m then (Ok [], m\<lparr>hm_lastActive := currentActive, hm_initialized := True\<rparr>)
               else (Ok (concat (map (\<lambda>(g, current). case map_of (hm_lastActive m) g of
                         None \<Rightarrow> []
                       | Some prev \<Rightarrow> if prev \<noteq> current then [failoverAlert gs cs g prev current] else [])
                       (order currentActive))),
                     m\<lparr>hm_lastActive := currentActive\<rparr>)))))"

section \<open>What the rules detect\<close>

text \<open>The flow count rule over a sequence of evaluations.\<close>

fun flow_run :: "rat \<Rightarrow> int result list \<Rightarrow> flow_memory \<Rightarrow> Alert list result list" where
  "flow_run pct [] m = []"
| "flow_run pct (c # cs) m = (let (r, m) = FlowCountAnomaly pct c m in r # flow_run pct cs m)"

definition alerts_of :: "Alert list result list \<Rightarrow> Alert list" where
  "alerts_of rs = concat (map (\<lambda>r. case r of Err _ \<Rightarrow> [] | Ok as \<Rightarrow> as) rs)"

text \<open>A purged or unreadable cache is invisible to the flow count rule: over any sequence of evaluations it
  raises exactly the alerts it would raise if the evaluations that saw no flows or failed had not taken
  place, so neither the drop to zero nor the repopulation counts as an anomaly.\<close>

theorem flow_anomaly_ignores_gaps:
  "alerts_of (flow_run pct counts m) =
    alerts_of (flow_run pct (filter (\<lambda>c. case c of Err _ \<Rightarrow> False | Ok n \<Rightarrow> n \<noteq> 0) counts) m)"
proof (induction counts arbitrary: m)
  case (Cons c counts)
  have "alerts_of (r # rs) = (case r of Err _ \<Rightarrow> [] | Ok as \<Rightarrow> as) @ alerts_of rs" for r rs
    by (simp add: alerts_of_def)
  with Cons show ?case
    by (cases c) (auto simp: FlowCountAnomaly_def split: prod.splits)
qed simp

text \<open>The rule only speaks up beyond the threshold, relative to the last count it saw.\<close>

lemma flow_anomaly_threshold:
  assumes "FlowCountAnomaly pct (Ok n) m = (Ok as, m')" "as \<noteq> []"
  shows "fm_lastCount m \<noteq> 0 \<and> of_int \<bar>n - fm_lastCount m\<bar> / of_int (fm_lastCount m) * 100 > pct \<and> fm_lastCount m' = n"
  using assms by (auto simp: FlowCountAnomaly_def split: if_splits)

text \<open>\<^verbatim>\<open>bestChassis\<close> finds an entry of highest priority.\<close>

definition candidate :: "(string, SBHAChassis) gomap \<Rightarrow> string \<Rightarrow> int \<Rightarrow> string \<Rightarrow> bool" where
  "candidate hm u p c = (\<exists>h. map_of hm u = Some h \<and> sh_Chassis h = Some c \<and> sh_Priority h = p \<and> c \<noteq> [])"

lemma bestStep_no_candidate:
  "\<forall>q c. \<not> candidate hm u q c \<Longrightarrow> bestStep hm u (p, best) = (p, best)"
  by (auto simp: bestStep_def candidate_def split: option.splits)

lemma bestStep_candidate:
  "candidate hm u q c \<Longrightarrow> bestStep hm u (p, best) = (if q > p \<or> best = [] then (q, c) else (p, best))"
  by (auto simp: bestStep_def candidate_def)

lemma candidate_unique:
  "candidate hm u q c \<Longrightarrow> candidate hm u q' c' \<Longrightarrow> q' = q \<and> c' = c"
  by (auto simp: candidate_def)

definition best_ok :: "(string, SBHAChassis) gomap \<Rightarrow> string set \<Rightarrow> int \<times> string \<Rightarrow> bool" where
  "best_ok hm U = (\<lambda>(p, best).
     if best = [] then \<forall>u \<in> U. \<forall>q c. \<not> candidate hm u q c
     else (\<exists>u \<in> U. candidate hm u p best) \<and> (\<forall>v \<in> U. \<forall>q c. candidate hm v q c \<longrightarrow> q \<le> p))"

lemma best_ok_step:
  assumes "best_ok hm U (p, best)"
  shows "best_ok hm (insert u U) (bestStep hm u (p, best))"
proof (cases "\<exists>q c. candidate hm u q c")
  case False
  then have "bestStep hm u (p, best) = (p, best)" by (intro bestStep_no_candidate) blast
  with assms False show ?thesis by (auto simp: best_ok_def split: if_splits)
next
  case True
  then obtain q c where c: "candidate hm u q c" by blast
  then have ne: "c \<noteq> []" by (auto simp: candidate_def)
  have upper: "q' \<le> max p q" if "candidate hm v q' c'" "v \<in> insert u U" "best \<noteq> []" for v q' c'
    using that assms candidate_unique [OF c, of q' c'] by (cases "v = u") (fastforce simp: best_ok_def)+
  have none: "best = [] \<Longrightarrow> candidate hm v q' c' \<Longrightarrow> v \<in> insert u U \<Longrightarrow> q' = q" for v q' c'
    using assms candidate_unique [OF c, of q' c'] by (auto simp: best_ok_def)
  show ?thesis
  proof (cases "q > p \<or> best = []")
    case True
    then have "\<forall>v \<in> insert u U. \<forall>q' c'. candidate hm v q' c' \<longrightarrow> q' \<le> q"
      using upper none by (metis max.absorb2 less_imp_le order_refl)
    with True c ne show ?thesis by (auto simp: bestStep_candidate [OF c] best_ok_def)
  next
    case False
    then have "\<forall>v \<in> insert u U. \<forall>q' c'. candidate hm v q' c' \<longrightarrow> q' \<le> p"
      using upper by (metis max.absorb1 not_less)
    with False assms show ?thesis by (auto simp: bestStep_candidate [OF c] best_ok_def)
  qed
qed

lemma best_ok_fold:
  "best_ok hm U acc \<Longrightarrow> best_ok hm (U \<union> set us) (fold (bestStep hm) us acc)"
proof (induction us arbitrary: U acc)
  case (Cons u us)
  then have "best_ok hm (insert u U) (bestStep hm u acc)" by (cases acc) (simp add: best_ok_step)
  from Cons.IH [OF this] show ?case by simp
qed simp

lemma bestChassis_spec:
  "if bestChassis hm us = [] then \<forall>u \<in> set us. \<forall>p c. \<not> candidate hm u p c
   else \<exists>u \<in> set us. \<exists>p. candidate hm u p (bestChassis hm us) \<and>
     (\<forall>v \<in> set us. \<forall>q c. candidate hm v q c \<longrightarrow> q \<le> p)"
proof -
  have "best_ok hm {} (0, [])" by (simp add: best_ok_def)
  from best_ok_fold [OF this, of us] show ?thesis
    unfolding bestChassis_def by (auto simp: best_ok_def split: prod.splits if_splits)
qed

text \<open>The failover rule reports exactly the groups whose active chassis changed since the last evaluation.\<close>

lemma set_concat_changes:
  "a \<in> set (concat (map (\<lambda>(g, current). case f g of None \<Rightarrow> [] | Some prev \<Rightarrow> if prev \<noteq> current then [h g prev current] else []) xs))
    \<longleftrightarrow> (\<exists>g cur prev. (g, cur) \<in> set xs \<and> f g = Some prev \<and> prev \<noteq> cur \<and> a = h g prev cur)"
proof (induction xs)
  case (Cons x xs)
  obtain g cur where x: "x = (g, cur)" by force
  show ?case
    unfolding x list.map concat.simps set_append Un_iff Cons.IH by (cases "f g") auto
qed simp

lemma ha_failover_detects:
  assumes "HAFailover order (Ok gs) (Ok hs) (Ok cs) m = (Ok as, m')" "hm_initialized m"
    and "set (order (activeByGroup gs hs)) = set (activeByGroup gs hs)"
  shows "(\<exists>a \<in> set as. map_of (al_Labels a) ''ha_group'' = Some g) \<longleftrightarrow>
    (\<exists>prev cur. map_of (hm_lastActive m) g = Some prev \<and> map_of (activeByGroup gs hs) g = Some cur \<and> prev \<noteq> cur)"
proof -
  have "gomap_ok (fold (\<lambda>g m. let best = bestChassis hm (sg_HaChassis g) in if best \<noteq> [] then AList.update (sg_UUID g) best m else m) gs acc)"
    if "gomap_ok acc" for hm acc
    using that by (induction gs arbitrary: acc) (auto simp: Let_def)
  then have ok: "gomap_ok (activeByGroup gs hs)" by (simp add: activeByGroup_def)
  have "as = concat (map (\<lambda>(g, current). case map_of (hm_lastActive m) g of
       None \<Rightarrow> [] | Some prev \<Rightarrow> if prev \<noteq> current then [failoverAlert gs cs g prev current] else []) (order (activeByGroup gs hs)))"
    using assms(1,2) by (simp add: HAFailover_def)
  then have as: "a \<in> set as \<longleftrightarrow> (\<exists>g cur prev. (g, cur) \<in> set (activeByGroup gs hs) \<and>
      map_of (hm_lastActive m) g = Some prev \<and> prev \<noteq> cur \<and> a = failoverAlert gs cs g prev cur)" for a
    using assms(3) by (simp only: set_concat_changes)
  have "map_of (al_Labels (failoverAlert gs cs g' prev cur)) ''ha_group'' = Some g'" for g' prev cur
    by (simp add: failoverAlert_def new_alert_def Let_def)
  with as have "(\<exists>a \<in> set as. map_of (al_Labels a) ''ha_group'' = Some g) \<longleftrightarrow>
    (\<exists>prev cur. map_of (hm_lastActive m) g = Some prev \<and> (g, cur) \<in> set (activeByGroup gs hs) \<and> prev \<noteq> cur)"
    by (metis option.inject)
  then show ?thesis using ok by (simp add: map_of_eq_Some_iff)
qed

end
