(* ===== verification/NW_Strings.thy ===== *)
theory NW_Strings
  imports NW_Prelude
begin

text \<open>
  The functions of Go's \<^verbatim>\<open>strings\<close>, \<^verbatim>\<open>bytes\<close> and \<^verbatim>\<open>net\<close> packages that the components share, on ASCII
  input, where bytes and runes agree.
\<close>

definition isSpaceByte :: "char \<Rightarrow> bool" where
  "isSpaceByte ch = (ch \<in> {CHR 0x09, CHR 0x0A, CHR 0x0B, CHR 0x0C, CHR 0x0D, CHR 0x20})"

definition TrimSpace :: "string \<Rightarrow> string" where
  "TrimSpace s = rev (dropWhile isSpaceByte (rev (dropWhile isSpaceByte s)))"

fun splitByte :: "char \<Rightarrow> string \<Rightarrow> string list" where
  "splitByte sep [] = [[]]"
| "splitByte sep (ch # s) = (if ch = sep then [] # splitByte sep s
     else case splitByte sep s of [] \<Rightarrow> [[ch]] | p # ps \<Rightarrow> (ch # p) # ps)"

text \<open>\<^verbatim>\<open>strings.Cut\<close> at a single byte: what stands before and after its first occurrence.\<close>

definition cutByte :: "char \<Rightarrow> string \<Rightarrow> (string \<times> string) option" where
  "cutByte sep s = (if sep \<in> set s then Some (takeWhile (\<lambda>c. c \<noteq> sep) s, tl (dropWhile (\<lambda>c. c \<noteq> sep) s)) else None)"

definition toLowerByte :: "char \<Rightarrow> char" where
  "toLowerByte ch = (let n = (of_char ch :: nat) in if 65 \<le> n \<and> n \<le> 90 then char_of (n + 32) else ch)"

definition Contains_str :: "string \<Rightarrow> string \<Rightarrow> bool" where
  "Contains_str s sub = list_ex (\<lambda>i. take (length sub) (drop i s) = sub) [0..<Suc (length s)]"

definition ToLower :: "string \<Rightarrow> string" where
  "ToLower s = map toLowerByte s"

definition EqualFold :: "string \<Rightarrow> string \<Rightarrow> bool" where
  "EqualFold s t = (ToLower s = ToLower t)"

definition HasPrefix :: "string \<Rightarrow> string \<Rightarrow> bool" where
  "HasPrefix s p = (take (length p) s = p)"

text \<open>\<^verbatim>\<open>net.SplitHostPort\<close>, of which only the host and the success are used.\<close>

definition SplitHostPort :: "string \<Rightarrow> string option" where
  "SplitHostPort hostport =
    (if CHR '':'' \<notin> set hostport then None
     else if hd hostport = CHR ''[''
     then let host = takeWhile (\<lambda>c. c \<noteq> CHR '']'') (tl hostport); rest = dropWhile (\<lambda>c. c \<noteq> CHR '']'') (tl hostport)
          in case rest of
               [] \<Rightarrow> None
             | _ # after \<Rightarrow> (case after of
                   [] \<Rightarrow> None
                 | c # port \<Rightarrow>
                     if c \<noteq> CHR '':'' \<or> CHR '':'' \<in> set port then None
                     else if CHR ''['' \<in> set host \<or> CHR ''['' \<in> set port \<or> CHR '']'' \<in> set port then None
                     else Some host)
     else let host = rev (tl (dropWhile (\<lambda>c. c \<noteq> CHR '':'') (rev hostport)))
          in if CHR '':'' \<in> set host then None
             else if CHR ''['' \<in> set hostport \<or> CHR '']'' \<in> set hostport then None
             else Some host)"

lemma splitByte_last: "sep \<notin> set s \<Longrightarrow> splitByte sep s = [s]"
  by (induction s) auto

lemma splitByte_append: "sep \<notin> set s \<Longrightarrow> splitByte sep (s @ sep # t) = s # splitByte sep t"
  by (induction s) auto

lemma cutByte_append: "sep \<notin> set s \<Longrightarrow> cutByte sep (s @ sep # t) = Some (s, t)"
  by (induction s) (auto simp: cutByte_def)

lemma TrimSpace_Nil [simp]: "TrimSpace [] = []"
  by (simp add: TrimSpace_def)

end
