(* ===== verification/Alert_Monitor.thy ===== *)
theory Alert_Monitor
  imports Alert_Rules NW_Strings
begin

text \<open>
  The alert engine with the built-in rules, as \<^verbatim>\<open>cmd/northwatch/main.go\<close> wires it up: the rules as the
  engine registers them, one evaluation as a step over the engine and the memories of the two rules that
  have one, and the webhook notifier (\<^verbatim>\<open>internal/alert/webhook.go\<close>) that receives the pages.

  \<^item> What the listings of the southbound cache return in an evaluation is a record \<open>SBView\<close>; each listing
    may fail on its own.
  \<^item> The contract of a rule is the locale \<open>alert_rule\<close>; it is interpreted on each of the six rules.
  \<^item> \<^verbatim>\<open>bytes.TrimSpace\<close> is modelled on ASCII input; the body of a webhook is a parameter.
\<close>

section \<open>The rules as registered\<close>

definition StaleChassisRule :: Rule where
  "StaleChassisRule = \<lparr>r_Name = ''stale_chassis_config'',
     r_Description = ''Chassis has not acknowledged the current nb_cfg generation'', r_Severity = SeverityWarning\<rparr>"

definition PortDownRule :: Rule where
  "PortDownRule = \<lparr>r_Name = ''port_down'', r_Description = ''Non-virtual port binding is down'', r_Severity = SeverityWarning\<rparr>"

definition UnboundPortRule :: Rule where
  "UnboundPortRule = \<lparr>r_Name = ''unbound_port'', r_Description = ''VIF port binding has no chassis'', r_Severity = SeverityWarning\<rparr>"

definition BFDDownRule :: Rule where
  "BFDDownRule = \<lparr>r_Name = ''bfd_down'', r_Description = ''BFD session is down'', r_Severity = SeverityCritical\<rparr>"

text \<open>With the threshold of 20 percent that \<^verbatim>\<open>main.go\<close> passes.\<close>

definition FlowCountRule :: Rule where
  "FlowCountRule = \<lparr>r_Name = ''flow_count_anomaly'', r_Description = ''Logical flow count changed by more than 20%'',
     r_Severity = SeverityWarning\<rparr>"

definition HAFailoverRule :: Rule where
  "HAFailoverRule = \<lparr>r_Name = ''ha_failover'',
     r_Description = ''HA chassis group active chassis changed (gateway failover)'', r_Severity = SeverityCritical\<rparr>"

lemmas builtin_rule_defs = StaleChassisRule_def PortDownRule_def UnboundPortRule_def BFDDownRule_def FlowCountRule_def
  HAFailoverRule_def

definition builtinEngine :: AlertEngine where
  "builtinEngine = RegisterRule HAFailoverRule (RegisterRule FlowCountRule (RegisterRule BFDDownRule (RegisterRule UnboundPortRule
     (RegisterRule PortDownRule (RegisterRule StaleChassisRule (NewAlertEngine 30000000000))))))"

section \<open>One evaluation\<close>

record SBView =
  sv_Global :: "int list result"
  sv_Private :: "ChassisPrivate list result"
  sv_Chassis :: "SBChassis list result"
  sv_Ports :: "PortBinding list result"
  sv_BFD :: "BFD list result"
  sv_Flows :: "int result"
  sv_Groups :: "SBHAChassisGroup list result"
  sv_HaChassis :: "SBHAChassis list result"

record rule_memory =
  rm_flow :: flow_memory
  rm_ha :: ha_memory

text \<open>What does not change between evaluations: the stale threshold of the configuration and the order in
  which Go ranges over a map of active chassis.\<close>

record monitor_config =
  mc_stale :: int
  mc_order :: "(string, string) gomap \<Rightarrow> (string, string) gomap"

definition builtinCheck :: "monitor_config \<Rightarrow> int \<Rightarrow> SBView \<Rightarrow> rule_memory \<Rightarrow> Rule \<Rightarrow> Alert list result" where
  "builtinCheck c ms v m rule =
    (if rule = StaleChassisRule then StaleChassis (sv_Global v) (sv_Private v) (sv_Chassis v) ms (mc_stale c)
     else if rule = PortDownRule then PortDown (sv_Ports v)
     else if rule = UnboundPortRule then UnboundPort (sv_Ports v)
     else if rule = BFDDownRule then BFDDown (sv_BFD v)
     else if rule = FlowCountRule then fst (FlowCountAnomaly 20 (sv_Flows v) (rm_flow m))
     else if rule = HAFailoverRule then fst (HAFailover (mc_order c) (sv_Groups v) (sv_HaChassis v) (sv_Chassis v) (rm_ha m))
     else Ok [])"

definition builtinMemory :: "monitor_config \<Rightarrow> SBView \<Rightarrow> AlertEngine \<Rightarrow> rule_memory \<Rightarrow> rule_memory" where
  "builtinMemory c v e m =
    \<lparr>rm_flow = (if r_Name FlowCountRule \<in> set (ae_disabled e) then rm_flow m
                else snd (FlowCountAnomaly 20 (sv_Flows v) (rm_flow m))),
     rm_ha = (if r_Name HAFailoverRule \<in> set (ae_disabled e) then rm_ha m
              else snd (HAFailover (mc_order c) (sv_Groups v) (sv_HaChassis v) (sv_Chassis v) (rm_ha m)))\<rparr>"

definition monitorTick ::
    "monitor_config \<Rightarrow> bool \<Rightarrow> int \<Rightarrow> (string \<Rightarrow> int) \<Rightarrow> int \<Rightarrow> SBView \<Rightarrow> rule_memory \<times> AlertEngine \<Rightarrow>
      (Alert list \<times> Alert list) \<times> rule_memory \<times> AlertEngine" where
  "monitorTick c paused now clock ms v s =
    (let (m, e) = s; (notes', e') = evaluate paused now clock (builtinCheck c ms v m) e
     in (notes', if paused then m else builtinMemory c v e m, e'))"

text \<open>The states the monitor goes through, under evaluations and the calls of the API, in any order.\<close>

inductive monitor_reach :: "monitor_config \<Rightarrow> rule_memory \<times> AlertEngine \<Rightarrow> bool" for c :: monitor_config where
  start: "monitor_reach c (\<lparr>rm_flow = new_flow_memory, rm_ha = new_ha_memory\<rparr>, builtinEngine)"
| tick: "monitor_reach c s \<Longrightarrow> monitor_reach c (snd (monitorTick c paused now clock ms v s))"
| enable: "monitor_reach c (m, e) \<Longrightarrow> monitor_reach c (m, snd (SetRuleEnabled name enabled e))"
| silence: "monitor_reach c (m, e) \<Longrightarrow> monitor_reach c (m, snd (AddSilence now sl e))"
| unsilence: "monitor_reach c (m, e) \<Longrightarrow> monitor_reach c (m, snd (RemoveSilence sid e))"

section \<open>The webhook notifier\<close>

record WebhookPayload =
  wp_Status :: string
  wp_Alerts :: "Alert list"

text \<open>The requests sent, as URL and body in order; \<open>marshal\<close> is the JSON encoding of a payload.\<close>

definition webhookPayloads :: "Alert list \<Rightarrow> WebhookPayload list" where
  "webhookPayloads alerts =
    (let firing = filter (\<lambda>a. al_State a = StateFiring) alerts; over = filter (\<lambda>a. al_State a = StateResolved) alerts
     in (if firing \<noteq> [] then [\<lparr>wp_Status = ''firing'', wp_Alerts = firing\<rparr>] else []) @
        (if over \<noteq> [] then [\<lparr>wp_Status = ''resolved'', wp_Alerts = over\<rparr>] else []))"

definition Notify :: "(WebhookPayload \<Rightarrow> 'b result) \<Rightarrow> string list \<Rightarrow> Alert list \<Rightarrow> (string \<times> 'b) list" where
  "Notify marshal urls alerts =
    (if urls = [] \<or> alerts = [] then []
     else concat (map (\<lambda>p. case marshal p of Err _ \<Rightarrow> [] | Ok body \<Rightarrow> map (\<lambda>url. (url, body)) urls) (webhookPayloads alerts)))"

definition splitTrimmed :: "string \<Rightarrow> char \<Rightarrow> string list" where
  "splitTrimmed s sep = filter (\<lambda>t. t \<noteq> []) (map TrimSpace (splitByte sep s))"

definition ParseWebhookURLs :: "string \<Rightarrow> string list" where
  "ParseWebhookURLs s = (if s = [] then [] else filter (\<lambda>u. u \<noteq> []) (splitTrimmed s (CHR '','')))"

section \<open>What the webhooks get\<close>

text \<open>Every URL is told about every alert, in a payload whose status is the state of the alert.\<close>

lemma webhook_complete:
  "{(url, a). \<exists>p. (url, p) \<in> set (Notify Ok urls alerts) \<and> a \<in> set (wp_Alerts p)} = set urls \<times> set alerts"
  "(url, p) \<in> set (Notify Ok urls alerts) \<Longrightarrow> a \<in> set (wp_Alerts p) \<Longrightarrow> wp_Status p = AlertState_text (al_State a)"
proof -
  have cases_state: "al_State a = StateFiring \<or> al_State a = StateResolved" for a :: Alert by (cases "al_State a") auto
  have mem: "(url, p) \<in> set (Notify Ok urls alerts) \<longleftrightarrow> url \<in> set urls \<and> p \<in> set (webhookPayloads alerts)" for url p
    by (auto simp: Notify_def webhookPayloads_def)
  have "a \<in> set alerts \<longleftrightarrow> (\<exists>p \<in> set (webhookPayloads alerts). a \<in> set (wp_Alerts p))" for a
    using cases_state [of a] by (auto simp: webhookPayloads_def Let_def filter_empty_conv bex_Un)
  then show "{(url, a). \<exists>p. (url, p) \<in> set (Notify Ok urls alerts) \<and> a \<in> set (wp_Alerts p)} = set urls \<times> set alerts"
    unfolding mem by auto
  show "(url, p) \<in> set (Notify Ok urls alerts) \<Longrightarrow> a \<in> set (wp_Alerts p) \<Longrightarrow> wp_Status p = AlertState_text (al_State a)"
    unfolding mem by (auto simp: webhookPayloads_def Let_def AlertState_text_def split: if_splits)
qed

text \<open>A comma-separated list of trimmed URLs is read back as those URLs.\<close>

fun join_comma :: "string list \<Rightarrow> string" where
  "join_comma [] = []"
| "join_comma [s] = s"
| "join_comma (s # ss) = s @ CHR '','' # join_comma ss"

lemma splitByte_join: "us \<noteq> [] \<Longrightarrow> \<forall>u \<in> set us. CHR '','' \<notin> set u \<Longrightarrow> splitByte (CHR '','') (join_comma us) = us"
  by (induction us rule: join_comma.induct) (simp_all add: splitByte_last splitByte_append)

lemma ParseWebhookURLs_join:
  assumes "\<forall>u \<in> set us. u \<noteq> [] \<and> CHR '','' \<notin> set u \<and> TrimSpace u = u"
  shows "ParseWebhookURLs (join_comma us) = us"
proof (cases us)
  case (Cons u us')
  then have "join_comma us \<noteq> []" using assms by (cases us') auto
  moreover have "map TrimSpace us = us" using assms by (simp add: map_idI)
  moreover have "filter (\<lambda>u. u \<noteq> []) us = us" using assms by (simp add: filter_id_conv)
  ultimately show ?thesis using assms Cons by (simp add: ParseWebhookURLs_def splitTrimmed_def splitByte_join)
qed (simp add: ParseWebhookURLs_def)

section \<open>The contract of a rule\<close>

text \<open>Alerts carry the name and severity of the rule that raised them, and come unmarked.  The check runs on
  some input, which for a rule with memory includes the memory.\<close>

locale alert_rule =
  fixes rule :: Rule
    and check :: "'i \<Rightarrow> Alert list result"
  assumes slash: "CHR ''/'' \<notin> set (r_Name rule)"
    and named: "check i = Ok as \<Longrightarrow> a \<in> set as \<Longrightarrow> al_Rule a = r_Name rule \<and> al_Severity a = r_Severity rule"
    and fresh: "check i = Ok as \<Longrightarrow> a \<in> set as \<Longrightarrow> \<not> al_notified a"
begin

text \<open>The fingerprint of an alert tells which rule raised it.\<close>

lemma fingerprint_rule:
  assumes "check i = Ok as" "a \<in> set as"
  shows "takeWhile (\<lambda>c. c \<noteq> CHR ''/'') (fingerprint a) = r_Name rule"
proof -
  have "takeWhile (\<lambda>c. c \<noteq> CHR ''/'') (join_slash (r # ps)) = r" if "CHR ''/'' \<notin> set r" for r ps
    using that by (cases ps) (auto simp: takeWhile_tail takeWhile_eq_all_conv)
  moreover have "CHR ''/'' \<notin> set (al_Rule a)" using named [OF assms] slash by simp
  ultimately show ?thesis using named [OF assms] by (auto simp: fingerprint_def Let_def takeWhile_eq_all_conv)
qed

end

lemma new_alert_simps [simp]:
  "al_Rule (new_alert r s msg ls) = r" "al_Severity (new_alert r s msg ls) = s" "\<not> al_notified (new_alert r s msg ls)"
  by (simp_all add: new_alert_def)

lemma failoverAlert_simps [simp]:
  "al_Rule (failoverAlert gs cs g p q) = ''ha_failover''" "al_Severity (failoverAlert gs cs g p q) = SeverityCritical"
  "\<not> al_notified (failoverAlert gs cs g p q)"
  by (simp_all add: failoverAlert_def Let_def)

interpretation stale_rule: alert_rule StaleChassisRule "\<lambda>(g, p, cs, ms, th). StaleChassis g p cs ms th"
  by unfold_locales (auto simp: StaleChassis_def staleAlert_def StaleChassisRule_def Let_def split: sum.splits list.splits if_splits)

interpretation port_rule: alert_rule PortDownRule PortDown
  by unfold_locales (auto simp: PortDown_def PortDownRule_def split: sum.splits if_splits)

interpretation unbound_rule: alert_rule UnboundPortRule UnboundPort
  by unfold_locales (auto simp: UnboundPort_def UnboundPortRule_def split: sum.splits if_splits)

interpretation bfd_rule: alert_rule BFDDownRule BFDDown
  by unfold_locales (auto simp: BFDDown_def BFDDownRule_def split: sum.splits if_splits)

interpretation flow_rule: alert_rule FlowCountRule "\<lambda>(n, m). fst (FlowCountAnomaly 20 n m)"
  by unfold_locales (auto simp: FlowCountAnomaly_def FlowCountRule_def Let_def split: sum.splits if_splits)

lemma HAFailover_alerts:
  "fst (HAFailover order gs hs cs m) = Ok as \<Longrightarrow> a \<in> set as \<Longrightarrow> \<exists>gs cs g p q. a = failoverAlert gs cs g p q"
  by (auto simp: HAFailover_def Let_def set_concat_changes simp del: set_concat split: sum.splits if_splits) blast

interpretation ha_rule: alert_rule HAFailoverRule "\<lambda>(order, gs, hs, cs, m). fst (HAFailover order gs hs cs m)"
  by unfold_locales (auto simp: HAFailoverRule_def dest!: HAFailover_alerts)

text \<open>What the six contracts say of the dispatch to the rules.\<close>

abbreviation rule_part :: "string \<Rightarrow> string" where
  "rule_part \<equiv> takeWhile (\<lambda>c. c \<noteq> CHR ''/'')"

lemmas rule_contracts = stale_rule.named stale_rule.fresh stale_rule.fingerprint_rule port_rule.named port_rule.fresh
  port_rule.fingerprint_rule unbound_rule.named unbound_rule.fresh unbound_rule.fingerprint_rule bfd_rule.named bfd_rule.fresh
  bfd_rule.fingerprint_rule flow_rule.named flow_rule.fresh flow_rule.fingerprint_rule ha_rule.named ha_rule.fresh
  ha_rule.fingerprint_rule

lemma builtinCheck_contract:
  assumes "builtinCheck c ms v m r = Ok as" "a \<in> set as"
  shows "al_Rule a = r_Name r" "\<not> al_notified a" "rule_part (fingerprint a) = r_Name r"
proof -
  consider "r = StaleChassisRule" "StaleChassis (sv_Global v) (sv_Private v) (sv_Chassis v) ms (mc_stale c) = Ok as"
    | "r = PortDownRule" "PortDown (sv_Ports v) = Ok as" | "r = UnboundPortRule" "UnboundPort (sv_Ports v) = Ok as"
    | "r = BFDDownRule" "BFDDown (sv_BFD v) = Ok as" | "r = FlowCountRule" "fst (FlowCountAnomaly 20 (sv_Flows v) (rm_flow m)) = Ok as"
    | "r = HAFailoverRule" "fst (HAFailover (mc_order c) (sv_Groups v) (sv_HaChassis v) (sv_Chassis v) (rm_ha m)) = Ok as"
    using assms by (auto simp: builtinCheck_def split: if_splits)
  then have "al_Rule a = r_Name r \<and> \<not> al_notified a \<and> rule_part (fingerprint a) = r_Name r"
  proof cases
    case 1
    with stale_rule.named [of "(_, _, _, _, _)"] stale_rule.fresh [of "(_, _, _, _, _)"]
      stale_rule.fingerprint_rule [of "(_, _, _, _, _)"] assms(2) show ?thesis by auto
  next
    case 5
    with flow_rule.named [of "(_, _)"] flow_rule.fresh [of "(_, _)"] flow_rule.fingerprint_rule [of "(_, _)"] assms(2)
    show ?thesis by auto
  next
    case 6
    with ha_rule.named [of "(_, _, _, _, _)"] ha_rule.fresh [of "(_, _, _, _, _)"]
      ha_rule.fingerprint_rule [of "(_, _, _, _, _)"] assms(2) show ?thesis by auto
  qed (use assms(2) rule_contracts in auto)
  then show "al_Rule a = r_Name r" "\<not> al_notified a" "rule_part (fingerprint a) = r_Name r" by auto
qed

lemma in_reports:
  "x \<in> set (reports check e) \<longleftrightarrow>
    (\<exists>r as. r \<in> set (ae_rules e) \<and> r_Name r \<notin> set (ae_disabled e) \<and> check r = Ok as \<and> x \<in> set as)"
proof -
  have "x \<in> set (if b then [] else case y of Err err \<Rightarrow> [] | Ok as \<Rightarrow> as) \<longleftrightarrow> \<not> b \<and> (\<exists>as. y = Ok as \<and> x \<in> set as)"
    for b and y :: "Alert list result"
    by (cases y) auto
  then show ?thesis unfolding reports_def set_concat set_map image_image UN_iff Bex_def by simp
qed

section \<open>The invariant\<close>

text \<open>The registered rules are the built-in ones, with different names, and every known alert is attributed to
  the rule that its key names.\<close>

definition monitor_ok :: "rule_memory \<times> AlertEngine \<Rightarrow> bool" where
  "monitor_ok s = (let (m, e) = s in engine_ok e \<and> ae_rules e = ae_rules builtinEngine \<and>
     list_all (\<lambda>(fp, a). rule_part fp = al_Rule a) (ae_active e))"

lemma builtin_names: "inj_on r_Name (set (ae_rules builtinEngine))"
  by (simp add: builtinEngine_def RegisterRule_def NewAlertEngine_def builtin_rule_defs)

lemma monitor_okD:
  assumes "monitor_ok (m, e)"
  shows "engine_ok e" "ae_rules e = ae_rules builtinEngine" "map_of (ae_active e) fp = Some a \<Longrightarrow> rule_part fp = al_Rule a"
  using assms by (auto simp: monitor_ok_def list_all_iff dest: map_of_SomeD)

lemma monitor_ok_start: "monitor_ok (m, builtinEngine)"
  by (simp add: monitor_ok_def engine_ok_def builtinEngine_def RegisterRule_def NewAlertEngine_def)

lemma monitor_ok_evaluate:
  assumes "monitor_ok (m, e)" "evaluate paused now clock (builtinCheck c ms v m) e = ((fired, over), e')"
  shows "monitor_ok (m', e')"
proof (cases paused)
  case True
  with assms show ?thesis by (simp add: evaluate_def monitor_ok_def)
next
  case False
  let ?rs = "reports (builtinCheck c ms v m) e"
  note ok = monitor_okD [OF assms(1)]
  have ev: "evaluate False now clock (builtinCheck c ms v m) e = ((fired, over), e')" using assms(2) False by simp
  have "rule_part fp = al_Rule a" if "map_of (ae_active e') fp = Some a" for fp a
  proof -
    from that obtain s where s: "entry now (ae_active e) ?rs fp = Some s" "al_Rule a = al_Rule s"
      unfolding evaluate_entry(2) [OF ok(1) ev]
      by (auto simp: Let_def resolved_def simp del: map_of_eq_Some_iff split: option.splits if_splits)
    show ?thesis
    proof (cases "map_of (ae_active e) fp")
      case None
      with s(1) obtain x where "x \<in> set ?rs" "fingerprint x = fp" "al_Rule s = al_Rule x" by (auto elim: entry_new)
      moreover from this(1) obtain r as where "builtinCheck c ms v m r = Ok as" "x \<in> set as" unfolding in_reports by blast
      ultimately show ?thesis using builtinCheck_contract(1,3) s(2) by metis
    next
      case (Some y)
      with s ok(3) [OF Some] show ?thesis by simp
    qed
  qed
  moreover have "ae_rules e' = ae_rules e" using assms(2) by (auto simp: evaluate_def Let_def split: if_splits)
  moreover have "engine_ok e'" by (rule evaluate_ok [OF ok(1) ev])
  ultimately show ?thesis using ok(2) by (auto simp: monitor_ok_def list_all_iff engine_ok_def)
qed

lemma monitor_invariant: "monitor_reach c s \<Longrightarrow> monitor_ok s"
proof (induction rule: monitor_reach.induct)
  case start
  show ?case by (rule monitor_ok_start)
next
  case (tick s paused now clock ms v)
  obtain m e where s: "s = (m, e)" by force
  obtain fired over e' where ev: "evaluate paused now clock (builtinCheck c ms v m) e = ((fired, over), e')" by (metis surj_pair)
  from monitor_ok_evaluate [OF tick.IH [unfolded s] ev] show ?case by (simp add: monitorTick_def s ev)
next
  case (enable m e name enabled)
  then show ?case by (auto simp: monitor_ok_def engine_ok_def SetRuleEnabled_def)
next
  case (silence m e now sl)
  then show ?case by (auto simp: monitor_ok_def engine_ok_def AddSilence_def Let_def)
next
  case (unsilence m e sid)
  then show ?case by (auto simp: monitor_ok_def engine_ok_def RemoveSilence_def split: option.splits)
qed

lemma over_not_failed:
  assumes "evaluate False now clock check e = ((fired, over), e')" "x \<in> set over"
  shows "al_Rule x \<notin> failures check e"
proof -
  let ?t = "\<lparr>tk_active = ae_active e, tk_seen = [], tk_failed = [], tk_notes = []\<rparr>"
  obtain f where f: "fold (runRule now clock check e) (ae_rules e) ?t =
      (fold (fireAlert now clock (ae_silences e)) (reports check e) ?t)\<lparr>tk_failed := f\<rparr>" "set f = failures check e"
    using runRules [of now clock check e "ae_rules e" ?t] by auto
  with assms show ?thesis by (auto simp: evaluate_def resolves_def resolved_def)
qed

text \<open>A rule that cannot be checked never looks like recovery.  In every state the monitor can reach, when
  the check of an enabled built-in rule fails in an evaluation, each firing alert of that rule is kept as
  it is and nobody is paged about it, neither as firing nor as resolved, whatever the other rules report.\<close>

theorem failed_rule_keeps_alerts:
  assumes "monitor_reach c (m, e)" "monitorTick c False now clock ms v (m, e) = ((fired, over), m', e')"
    and "r \<in> set (ae_rules e)" "r_Name r \<notin> set (ae_disabled e)" "builtinCheck c ms v m r = Err err"
    and "map_of (ae_active e) fp = Some a" "al_Rule a = r_Name r" "al_State a = StateFiring"
  shows "map_of (ae_active e') fp = Some a \<and> (\<forall>x \<in> set fired. fingerprint x \<noteq> fp) \<and> (\<forall>x \<in> set over. al_Rule x \<noteq> al_Rule a)"
proof -
  let ?ch = "builtinCheck c ms v m"
  note ok = monitor_okD [OF monitor_invariant [OF assms(1)]]
  have ev: "evaluate False now clock ?ch e = ((fired, over), e')"
    using assms(2) by (auto simp: monitorTick_def split: prod.splits)
  have failed: "al_Rule a \<in> failures ?ch e" using assms(3-5,7) by (auto simp: failures_def)
  have unseen: "fp \<notin> fingerprint ` set (reports ?ch e)"
  proof
    assume "fp \<in> fingerprint ` set (reports ?ch e)"
    then obtain q as x where q: "q \<in> set (ae_rules e)" "?ch q = Ok as" "x \<in> set as" "fingerprint x = fp"
      by (auto simp: in_reports)
    from builtinCheck_contract(3) [OF q(2,3)] q(4) have "r_Name q = r_Name r" using ok(3) [OF assms(6)] assms(7) by simp
    with q(1) assms(3) have "q = r" using builtin_names unfolding ok(2) by (auto dest: inj_onD)
    with q(2) assms(5) show False by simp
  qed
  have quiet: "\<not> audible clock (ae_silences e) (reports ?ch e) fp" using unseen audible_seen by blast
  have "map_of (ae_active e') fp = Some a"
    unfolding evaluate_entry(2) [OF ok(1) ev] entry_Some [OF assms(6)] using quiet failed assms(8) by simp
  moreover have "\<forall>x \<in> set fired. fingerprint x \<noteq> fp" using evaluate_entry(3) [OF ok(1) ev, of fp] quiet by blast
  moreover have "\<forall>x \<in> set over. al_Rule x \<noteq> al_Rule a" using over_not_failed [OF ev] failed by metis
  ultimately show ?thesis by blast
qed

text \<open>A port goes down, and then its listing fails.\<close>

definition sample_config :: monitor_config where
  "sample_config = \<lparr>mc_stale = 60000000000, mc_order = (\<lambda>m. m)\<rparr>"

definition sample_view :: "PortBinding list result \<Rightarrow> SBView" where
  "sample_view ports = \<lparr>sv_Global = Ok [], sv_Private = Ok [], sv_Chassis = Ok [], sv_Ports = ports, sv_BFD = Ok [],
     sv_Flows = Ok 5, sv_Groups = Ok [], sv_HaChassis = Ok []\<rparr>"

definition sample_state :: "rule_memory \<times> AlertEngine" where
  "sample_state = snd (monitorTick sample_config False 1 (\<lambda>_. 1) 0
     (sample_view (Ok [\<lparr>pb_LogicalPort = ''p1'', pb_Type = [], pb_Up = Some False, pb_Chassis = Some ''c1''\<rparr>]))
     (\<lparr>rm_flow = new_flow_memory, rm_ha = new_ha_memory\<rparr>, builtinEngine))"

lemma sample_state_active:
  "case map_of (ae_active (snd sample_state)) ''port_down/port=p1/type=VIF'' of
     None \<Rightarrow> False | Some a \<Rightarrow> al_Rule a = ''port_down'' \<and> al_State a = StateFiring"
  "PortDownRule \<in> set (ae_rules (snd sample_state))" "r_Name PortDownRule \<notin> set (ae_disabled (snd sample_state))"
  "builtinCheck sample_config 0 (sample_view (Err err)) (fst sample_state) PortDownRule =
     Err (Wrapf ''listing port bindings: %w'' [] err)"
  by code_simp+

theorem failed_rule_keeps_alerts_witness:
  "map_of (ae_active (snd (snd (monitorTick sample_config False 2 (\<lambda>_. 2) 0
       (sample_view (Err (Errorf ''not connected'' []))) sample_state)))) ''port_down/port=p1/type=VIF'' \<noteq> None"
proof -
  let ?v = "sample_view (Err (Errorf ''not connected'' []))"
  obtain m e where s: "sample_state = (m, e)" by force
  have reach: "monitor_reach sample_config (m, e)"
    unfolding s [symmetric] sample_state_def by (rule monitor_reach.tick [OF monitor_reach.start])
  obtain fired over m' e' where ev: "monitorTick sample_config False 2 (\<lambda>_. 2) 0 ?v (m, e) = ((fired, over), m', e')"
    by (metis surj_pair)
  obtain a where "map_of (ae_active e) ''port_down/port=p1/type=VIF'' = Some a" "al_Rule a = r_Name PortDownRule" "al_State a = StateFiring"
    using sample_state_active(1) by (auto simp: s PortDownRule_def simp del: map_of_eq_Some_iff split: option.splits)
  from failed_rule_keeps_alerts [OF reach ev sample_state_active(2-4) [unfolded s fst_conv snd_conv] this]
  show ?thesis by (simp add: s ev)
qed

end
