(* ===== verification/Api_Auth.thy ===== *)
theory Api_Auth
  imports NW_Strings
begin

text \<open>
  \<^verbatim>\<open>internal/api/auth.go\<close>: the middleware that gates every mutating API request behind a bearer token, and
  the throttle that locks out an address after repeated failures.

  \<^item> \<open>sha\<close> is SHA-256, a parameter.
  \<^item> A request is a record of what the middleware reads; the outcome says whether the next handler runs and
    with which actor, or which error is written.
  \<^item> The clock is read once by \<^verbatim>\<open>blocked\<close> and once by \<^verbatim>\<open>fail\<close>; both readings are arguments.
\<close>

section \<open>The throttle\<close>

definition authFailureLimit :: int where
  "authFailureLimit = 5"

definition authFailureWindow :: int where
  "authFailureWindow = 60000000000"

definition authThrottleMaxIPs :: nat where
  "authThrottleMaxIPs = 4096"

record throttleEntry =
  te_count :: int
  te_resets :: int

type_synonym authThrottle = "(string, throttleEntry) gomap"

definition newAuthThrottle :: authThrottle where
  "newAuthThrottle = []"

definition at_blocked :: "int \<Rightarrow> string \<Rightarrow> authThrottle \<Rightarrow> bool \<times> authThrottle" where
  "at_blocked now ip t = (case map_of t ip of
     None \<Rightarrow> (False, t)
   | Some e \<Rightarrow> if \<not> now < te_resets e then (False, AList.delete ip t)
              else (te_count e \<ge> authFailureLimit, t))"

definition at_sweep :: "int \<Rightarrow> authThrottle \<Rightarrow> bool \<times> authThrottle" where
  "at_sweep now t = (let t' = filter (\<lambda>(ip, e). now < te_resets e) t in (length t' < length t, t'))"

definition at_fail :: "int \<Rightarrow> string \<Rightarrow> authThrottle \<Rightarrow> authThrottle" where
  "at_fail now ip t =
    (let count_one = (\<lambda>e t. AList.update ip (e\<lparr>te_count := te_count e + 1\<rparr>) t);
         fresh = \<lparr>te_count = 0, te_resets = now + authFailureWindow\<rparr>
     in case map_of t ip of
          Some e \<Rightarrow>
            if now < te_resets e then count_one e t
            else if length t \<ge> authThrottleMaxIPs
            then (let (freed, t') = at_sweep now t in if freed then count_one fresh t' else t')
            else count_one fresh t
        | None \<Rightarrow>
            if length t \<ge> authThrottleMaxIPs
            then (let (freed, t') = at_sweep now t in if freed then count_one fresh t' else t')
            else count_one fresh t)"

definition at_succeed :: "string \<Rightarrow> authThrottle \<Rightarrow> authThrottle" where
  "at_succeed ip t = AList.delete ip t"

section \<open>The middleware\<close>

record Request =
  rq_Method :: string
  rq_Path :: string
  rq_RemoteAddr :: string
  rq_Authorization :: string

definition clientIP :: "string \<Rightarrow> string" where
  "clientIP remoteAddr = (case SplitHostPort remoteAddr of Some host \<Rightarrow> host | None \<Rightarrow> remoteAddr)"

definition requiresAuth :: "Request \<Rightarrow> bool" where
  "requiresAuth r =
    (if rq_Method r \<in> {''GET'', ''HEAD'', ''OPTIONS''} then False else HasPrefix (rq_Path r) ''/api/'')"

definition bearerToken :: "string \<Rightarrow> string" where
  "bearerToken header = (case cutByte (CHR '' '') header of
     None \<Rightarrow> []
   | Some (scheme, token) \<Rightarrow> if \<not> EqualFold scheme ''Bearer'' then [] else TrimSpace token)"

definition tokenDigests :: "(string \<Rightarrow> 'd) \<Rightarrow> (string, string) gomap \<Rightarrow> (string, 'd) gomap" where
  "tokenDigests sha tokens = map (\<lambda>(name, token). (name, sha token)) tokens"

definition lookupActor :: "(string \<Rightarrow> 'd) \<Rightarrow> (string, 'd) gomap \<Rightarrow> string \<Rightarrow> string option" where
  "lookupActor sha digests presented =
    (if presented = [] then None
     else let match = fold (\<lambda>(name, want) match. if sha presented = want then name else match) digests []
          in if match \<noteq> [] then Some match else None)"

datatype authOutcome = Served "string option" | Throttled int | Unauthorized

definition AuthMiddleware ::
    "(string \<Rightarrow> 'd) \<Rightarrow> (string, string) gomap \<Rightarrow> int \<Rightarrow> int \<Rightarrow> Request \<Rightarrow> authThrottle \<Rightarrow> authOutcome \<times> authThrottle" where
  "AuthMiddleware sha tokens now now' r t =
    (if \<not> requiresAuth r then (Served None, t)
     else let ip = clientIP (rq_RemoteAddr r); (locked, t) = at_blocked now ip t
          in if locked then (Throttled (authFailureWindow div 1000000000), t)
             else case lookupActor sha (tokenDigests sha tokens) (bearerToken (rq_Authorization r)) of
                    None \<Rightarrow> (Unauthorized, at_fail now' ip t)
                  | Some name \<Rightarrow> (Served (Some name), at_succeed ip t))"

section \<open>The gate\<close>

lemma lookupActor_fold:
  "fold (\<lambda>(name, want) match. if d = want then name else match) ds m = n \<Longrightarrow> n = m \<or> (n, d) \<in> set ds"
  by (induction ds arbitrary: m) (auto split: if_splits)

lemma lookupActor_sound:
  assumes "lookupActor sha (tokenDigests sha tokens) p = Some name"
  shows "name \<noteq> [] \<and> p \<noteq> [] \<and> (\<exists>token. (name, token) \<in> set tokens \<and> sha p = sha token)"
proof -
  let ?n = "fold (\<lambda>(name, want) match. if sha p = want then name else match) (tokenDigests sha tokens) []"
  have "p \<noteq> []" "name = ?n" "name \<noteq> []" using assms by (auto simp: lookupActor_def split: if_splits)
  moreover from this lookupActor_fold [of "sha p" "tokenDigests sha tokens" "[]" ?n] have "(name, sha p) \<in> set (tokenDigests sha tokens)" by auto
  ultimately show ?thesis by (auto simp: tokenDigests_def)
qed

lemma lookupActor_complete:
  assumes "(name, p) \<in> set tokens" "name \<noteq> []" "p \<noteq> []" "\<And>n q. (n, q) \<in> set tokens \<Longrightarrow> sha q = sha p \<Longrightarrow> n = name"
  shows "lookupActor sha (tokenDigests sha tokens) p = Some name"
proof -
  have "fold (\<lambda>(name, want) match. if sha p = want then name else match) (tokenDigests sha ts) m = name"
    if "(name, p) \<in> set ts \<or> m = name" "set ts \<subseteq> set tokens" for ts m
    using that
  proof (induction ts arbitrary: m)
    case (Cons x ts)
    obtain n q where x: "x = (n, q)" by force
    have "sha p = sha q \<Longrightarrow> n = name" using assms(4) [of n q] Cons.prems x by auto
    with Cons x show ?case by (auto simp: tokenDigests_def)
  qed (simp add: tokenDigests_def)
  with assms(1-3) show ?thesis by (simp add: lookupActor_def)
qed

lemma bearerToken_header: "TrimSpace token = token \<Longrightarrow> bearerToken (''Bearer '' @ token) = token"
  using cutByte_append [of "CHR '' ''" "''Bearer''" token] by (simp add: bearerToken_def EqualFold_def)

text \<open>C8. The gate on state changes.  A request that mutates state reaches its handler only from an address that
  is not locked out and with a bearer token whose digest is that of a configured token, and the handler
  sees the name of that token as the actor; conversely a configured token presented in the header of a
  request from such an address is accepted under its name; and a request that reads is always served and
  leaves no trace in the throttle.\<close>

theorem auth_gate:
  "(requiresAuth r \<longrightarrow> (\<forall>actor t'. AuthMiddleware sha tokens now now' r t = (Served actor, t') \<longrightarrow>
      \<not> fst (at_blocked now (clientIP (rq_RemoteAddr r)) t) \<and>
      (\<exists>name token. actor = Some name \<and> name \<noteq> [] \<and> (name, token) \<in> set tokens \<and>
        sha (bearerToken (rq_Authorization r)) = sha token))) \<and>
   (\<forall>name token. requiresAuth r \<and> (name, token) \<in> set tokens \<and> name \<noteq> [] \<and> token \<noteq> [] \<and> TrimSpace token = token \<and>
      (\<forall>n q. (n, q) \<in> set tokens \<and> sha q = sha token \<longrightarrow> n = name) \<and>
      rq_Authorization r = ''Bearer '' @ token \<and> \<not> fst (at_blocked now (clientIP (rq_RemoteAddr r)) t) \<longrightarrow>
      fst (AuthMiddleware sha tokens now now' r t) = Served (Some name)) \<and>
   (\<not> requiresAuth r \<longrightarrow> AuthMiddleware sha tokens now now' r t = (Served None, t))"
proof (intro conjI allI impI)
  let ?found = "lookupActor sha (tokenDigests sha tokens) (bearerToken (rq_Authorization r))"
  fix actor t' assume r: "requiresAuth r" and s: "AuthMiddleware sha tokens now now' r t = (Served actor, t')"
  then show "\<not> fst (at_blocked now (clientIP (rq_RemoteAddr r)) t)"
    by (auto simp: AuthMiddleware_def split: prod.splits if_splits)
  from r s obtain name where "?found = Some name" "actor = Some name"
    by (cases ?found) (auto simp: AuthMiddleware_def split: prod.splits if_splits)
  then show "\<exists>name token. actor = Some name \<and> name \<noteq> [] \<and> (name, token) \<in> set tokens \<and>
      sha (bearerToken (rq_Authorization r)) = sha token"
    using lookupActor_sound by metis
next
  fix name token
  assume a: "requiresAuth r \<and> (name, token) \<in> set tokens \<and> name \<noteq> [] \<and> token \<noteq> [] \<and> TrimSpace token = token \<and>
      (\<forall>n q. (n, q) \<in> set tokens \<and> sha q = sha token \<longrightarrow> n = name) \<and>
      rq_Authorization r = ''Bearer '' @ token \<and> \<not> fst (at_blocked now (clientIP (rq_RemoteAddr r)) t)"
  then have "lookupActor sha (tokenDigests sha tokens) token = Some name" by (intro lookupActor_complete) auto
  with a bearerToken_header [of token] show "fst (AuthMiddleware sha tokens now now' r t) = Served (Some name)"
    by (auto simp: AuthMiddleware_def split: prod.splits)
qed (simp add: AuthMiddleware_def)

text \<open>A configured token is accepted; SHA-256 is replaced by the identity.\<close>

definition sample_request :: Request where
  "sample_request = \<lparr>rq_Method = ''POST'', rq_Path = ''/api/v1/write/apply'', rq_RemoteAddr = ''10.0.0.1:4711'',
     rq_Authorization = ''Bearer s3cret''\<rparr>"

theorem auth_gate_witness:
  "fst (AuthMiddleware (\<lambda>s. s) [(''ci'', ''other''), (''ops'', ''s3cret'')] 0 0 sample_request newAuthThrottle) = Served (Some ''ops'')"
proof -
  have "requiresAuth sample_request" "TrimSpace ''s3cret'' = ''s3cret''" by code_simp+
  moreover have "rq_Authorization sample_request = ''Bearer '' @ ''s3cret''" by (simp add: sample_request_def)
  moreover have "\<not> fst (at_blocked 0 (clientIP (rq_RemoteAddr sample_request)) newAuthThrottle)"
    by (simp add: at_blocked_def newAuthThrottle_def)
  moreover have "\<forall>n q. (n, q) \<in> set [(''ci'', ''other''), (''ops'', ''s3cret'')] \<and> q = ''s3cret'' \<longrightarrow> n = ''ops''" by auto
  ultimately show ?thesis
    by (intro auth_gate [THEN conjunct2, THEN conjunct1, THEN spec, THEN spec, THEN mp, of _ "''ops''" "''s3cret''"] conjI) simp_all
qed

section \<open>The lockout\<close>

text \<open>Requests in order, each with the two readings of the clock; the outcomes with the address they are for.\<close>

fun auth_run ::
    "(string \<Rightarrow> 'd) \<Rightarrow> (string, string) gomap \<Rightarrow> (int \<times> int \<times> Request) list \<Rightarrow> authThrottle \<Rightarrow>
      (string \<times> authOutcome) list \<times> authThrottle" where
  "auth_run sha tokens [] t = ([], t)"
| "auth_run sha tokens ((now, now', r) # rs) t =
    (let (out, t) = AuthMiddleware sha tokens now now' r t; (outs, t) = auth_run sha tokens rs t
     in ((clientIP (rq_RemoteAddr r), out) # outs, t))"

fun chronological :: "int \<Rightarrow> (int \<times> int \<times> Request) list \<Rightarrow> int \<Rightarrow> bool" where
  "chronological t0 [] t1 = (t0 \<le> t1)"
| "chronological t0 ((now, now', r) # rs) t1 = (t0 \<le> now \<and> now \<le> now' \<and> chronological now' rs t1)"

definition sources :: "(int \<times> int \<times> Request) list \<Rightarrow> string set" where
  "sources reqs = (\<lambda>(_, _, r). clientIP (rq_RemoteAddr r)) ` set reqs"

definition guesses :: "string \<Rightarrow> (string \<times> authOutcome) list \<Rightarrow> int" where
  "guesses ip outs = int (length (filter (\<lambda>x. x = (ip, Unauthorized)) outs))"

text \<open>What the operations of the throttle do to one entry and to the size of the table.\<close>

lemma sweep_entry:
  "gomap_ok t \<Longrightarrow> map_of (snd (at_sweep now t)) ip =
    (case map_of t ip of None \<Rightarrow> None | Some e \<Rightarrow> if now < te_resets e then Some e else None)"
  by (simp add: at_sweep_def map_of_filter split: option.splits)

lemma sweep_frees:
  assumes "gomap_ok t" "map_of t ip = Some e" "te_resets e \<le> now"
  shows "fst (at_sweep now t)"
proof -
  have "(ip, e) \<in> set t" using assms(2) by (rule map_of_SomeD)
  with assms(3) show ?thesis by (auto simp: at_sweep_def intro!: length_filter_less)
qed

definition failed_entry :: "int \<Rightarrow> throttleEntry option \<Rightarrow> throttleEntry" where
  "failed_entry now e = (case e of
      None \<Rightarrow> \<lparr>te_count = 1, te_resets = now + authFailureWindow\<rparr>
    | Some e \<Rightarrow> if now < te_resets e then e\<lparr>te_count := te_count e + 1\<rparr>
                else \<lparr>te_count = 1, te_resets = now + authFailureWindow\<rparr>)"

lemma fail_own:
  assumes "gomap_ok t" "map_of t ip = None \<Longrightarrow> length t < authThrottleMaxIPs"
  shows "map_of (at_fail now ip t) ip = Some (failed_entry now (map_of t ip))"
proof (cases "map_of t ip")
  case None
  with assms show ?thesis by (simp add: at_fail_def failed_entry_def)
next
  case (Some e)
  with sweep_frees [OF assms(1) Some, of now] show ?thesis
    by (auto simp: at_fail_def failed_entry_def case_prod_unfold simp del: map_of_eq_Some_iff)
qed

lemma fail_other:
  assumes "gomap_ok t" "ip' \<noteq> ip"
  shows "map_of (at_fail now ip t) ip' = map_of t ip' \<or>
    (map_of (at_fail now ip t) ip' = None \<and> (\<exists>e. map_of t ip' = Some e \<and> te_resets e \<le> now))"
proof -
  have "map_of (snd (at_sweep now t)) ip' = map_of t ip' \<or>
    (map_of (snd (at_sweep now t)) ip' = None \<and> (\<exists>e. map_of t ip' = Some e \<and> te_resets e \<le> now))"
    using assms(1) by (auto simp: sweep_entry simp del: map_of_eq_Some_iff split: option.splits)
  with assms(2) show ?thesis
    by (cases "map_of t ip") (auto simp: at_fail_def case_prod_unfold simp del: map_of_eq_Some_iff)
qed

lemma throttle_ops_ok:
  assumes "gomap_ok t" "length t \<le> authThrottleMaxIPs"
  shows "gomap_ok (snd (at_blocked now ip t)) \<and> length (snd (at_blocked now ip t)) \<le> authThrottleMaxIPs"
    "gomap_ok (at_fail now ip t) \<and> length (at_fail now ip t) \<le> authThrottleMaxIPs"
    "gomap_ok (at_succeed ip t) \<and> length (at_succeed ip t) \<le> authThrottleMaxIPs"
proof -
  have del: "length (AList.delete ip t) \<le> authThrottleMaxIPs"
    using assms(2) length_delete_le [of ip t] by linarith
  show "gomap_ok (snd (at_blocked now ip t)) \<and> length (snd (at_blocked now ip t)) \<le> authThrottleMaxIPs"
    using assms del by (auto simp: at_blocked_def simp del: map_of_eq_Some_iff split: option.splits)
  show "gomap_ok (at_succeed ip t) \<and> length (at_succeed ip t) \<le> authThrottleMaxIPs"
    using assms del by (simp add: at_succeed_def)
  have sw: "gomap_ok (snd (at_sweep now t))" "fst (at_sweep now t) \<Longrightarrow> length (snd (at_sweep now t)) < length t"
      "length (snd (at_sweep now t)) \<le> length t"
    using assms(1) by (auto simp: at_sweep_def)
  have upd: "length (AList.update ip e u) \<le> authThrottleMaxIPs" if "length u < authThrottleMaxIPs" for e :: throttleEntry and u
    using length_update_le [of ip e u] that by linarith
  have old: "length (AList.update ip e t) \<le> authThrottleMaxIPs" if "map_of t ip \<noteq> None" for e
    using length_update_old [of ip t e] that assms(2) by (auto simp: map_of_eq_None_iff)
  show "gomap_ok (at_fail now ip t) \<and> length (at_fail now ip t) \<le> authThrottleMaxIPs"
    using assms sw upd old
    by (cases "map_of t ip") (auto simp: at_fail_def case_prod_unfold not_le simp del: map_of_eq_Some_iff)
qed

text \<open>The account of an address: how the guesses it has made so far compare with the windows that have begun.\<close>

definition account :: "int \<Rightarrow> int \<Rightarrow> int \<Rightarrow> throttleEntry option \<Rightarrow> bool" where
  "account t0 now n e = (case e of
     None \<Rightarrow> n \<le> 5 * ((now - t0) div authFailureWindow)
   | Some e \<Rightarrow> t0 \<le> te_resets e - authFailureWindow \<and> te_resets e - authFailureWindow \<le> now \<and> te_count e \<le> 5 \<and>
       n \<le> 5 * ((te_resets e - authFailureWindow - t0) div authFailureWindow) + te_count e)"

lemma account_mono: "account t0 now n e \<Longrightarrow> now \<le> now' \<Longrightarrow> account t0 now' n e"
proof -
  assume a: "account t0 now n e" "now \<le> now'"
  have "(now - t0) div authFailureWindow \<le> (now' - t0) div authFailureWindow"
    using a(2) by (intro zdiv_mono1) (simp_all add: authFailureWindow_def)
  with a show ?thesis by (auto simp: account_def split: option.splits)
qed

lemma account_stale:
  assumes "account t0 now n (Some e)" "te_resets e \<le> now'"
  shows "account t0 now' n None"
proof -
  let ?w = authFailureWindow
  have "(te_resets e - ?w - t0) div ?w + 1 = (te_resets e - t0) div ?w" by (simp add: authFailureWindow_def)
  also have "\<dots> \<le> (now' - t0) div ?w" using assms(2) by (intro zdiv_mono1) (simp_all add: authFailureWindow_def)
  finally show ?thesis using assms(1) by (simp add: account_def)
qed

lemma account_end:
  assumes "account t0 now n e" "t0 \<le> now"
  shows "n \<le> 5 * ((now - t0) div authFailureWindow + 1)"
proof (cases e)
  case None
  with assms show ?thesis by (simp add: account_def)
next
  case (Some x)
  have "(te_resets x - authFailureWindow - t0) div authFailureWindow \<le> (now - t0) div authFailureWindow"
    using assms(1) Some by (intro zdiv_mono1) (simp_all add: authFailureWindow_def account_def)
  with assms(1) Some show ?thesis by (simp add: account_def)
qed

lemma account_blocked:
  assumes "gomap_ok t" "account t0 tau n (map_of t ip)" "tau \<le> now"
  shows "account t0 now n (map_of (snd (at_blocked now ip' t)) ip)"
proof (cases "map_of t ip'")
  case None
  then show ?thesis using account_mono [OF assms(2,3)] by (simp add: at_blocked_def)
next
  case (Some e)
  with assms account_mono [OF assms(2,3)] account_stale [of t0 tau n e now] show ?thesis
    by (auto simp: at_blocked_def simp del: map_of_eq_Some_iff)
qed

lemma account_fail_own:
  assumes "gomap_ok t" "map_of t ip = None \<Longrightarrow> length t < authThrottleMaxIPs" "account t0 tau n (map_of t ip)" "t0 \<le> tau" "tau \<le> now"
    and "\<And>e. map_of t ip = Some e \<Longrightarrow> now < te_resets e \<Longrightarrow> te_count e < 5"
  shows "account t0 now (n + 1) (map_of (at_fail now ip t) ip)"
proof -
  have new: "account t0 now (n + 1) (Some \<lparr>te_count = 1, te_resets = now + authFailureWindow\<rparr>)" if "account t0 now n None"
    using that assms(4,5) by (simp add: account_def)
  have own: "map_of (at_fail now ip t) ip = Some (failed_entry now (map_of t ip))" by (rule fail_own) (use assms(1,2) in auto)
  show ?thesis
  proof (cases "map_of t ip")
    case None
    with new account_mono [OF assms(3,5)] show ?thesis by (simp add: own failed_entry_def)
  next
    case (Some e)
    show ?thesis
    proof (cases "now < te_resets e")
      case True
      with Some account_mono [OF assms(3,5)] assms(6) [OF Some] show ?thesis
        unfolding own Some by (simp add: account_def failed_entry_def)
    next
      case False
      with Some assms(3) new account_stale [of t0 tau n e now] show ?thesis
        unfolding own Some by (simp add: failed_entry_def)
    qed
  qed
qed

lemma account_fail_other:
  assumes "gomap_ok t" "account t0 tau n (map_of t ip')" "tau \<le> now" "ip' \<noteq> ip"
  shows "account t0 now n (map_of (at_fail now ip t) ip')"
  using fail_other [OF assms(1,4), of now] account_mono [OF assms(2,3)] assms(2) account_stale [of t0 tau n _ now] by auto

definition throttle_ok :: "string set \<Rightarrow> authThrottle \<Rightarrow> bool" where
  "throttle_ok ips t = (gomap_ok t \<and> length t \<le> authThrottleMaxIPs \<and> set (gokeys t) \<subseteq> ips)"

lemma keys_map_of: "ip \<in> set (gokeys t) \<longleftrightarrow> map_of t ip \<noteq> None"
  by (simp add: map_of_eq_None_iff)

lemma throttle_ok_room:
  assumes "throttle_ok ips t" "finite ips" "card ips \<le> authThrottleMaxIPs" "ip \<in> ips" "map_of t ip = None"
  shows "length t < authThrottleMaxIPs"
proof -
  have "set (gokeys t) \<subset> ips" using assms(1,4,5) by (auto simp: throttle_ok_def map_of_eq_None_iff)
  then have "card (set (gokeys t)) < card ips" using assms(2) by (rule psubset_card_mono [rotated])
  moreover have "card (set (gokeys t)) = length t" using assms(1) by (simp add: throttle_ok_def distinct_card [of "gokeys t", simplified])
  ultimately show ?thesis using assms(3) by simp
qed

lemma AuthMiddleware_ok:
  assumes "throttle_ok ips t" "clientIP (rq_RemoteAddr r) \<in> ips"
  shows "throttle_ok ips (snd (AuthMiddleware sha tokens now now' r t))"
proof -
  let ?ip = "clientIP (rq_RemoteAddr r)"
  have t: "gomap_ok t" "length t \<le> authThrottleMaxIPs" "set (gokeys t) \<subseteq> ips" using assms(1) by (auto simp: throttle_ok_def)
  obtain locked u where u: "at_blocked now ?ip t = (locked, u)" by force
  have uok: "gomap_ok u" "length u \<le> authThrottleMaxIPs" using throttle_ops_ok(1) [OF t(1,2), of now ?ip] u by auto
  have "set (gokeys u) \<subseteq> ips" using u t(3) by (auto simp: at_blocked_def delete_keys simp del: map_of_eq_Some_iff simp flip: set_map split: option.splits if_splits)
  moreover from this have "set (gokeys (at_fail now' ?ip u)) \<subseteq> ips"
  proof (intro subsetI)
    fix k assume k: "k \<in> set (gokeys (at_fail now' ?ip u))"
    show "k \<in> ips"
    proof (cases "k = ?ip")
      case False
      with k have "k \<in> set (gokeys u)" using fail_other [OF uok(1), of k ?ip now'] unfolding keys_map_of by metis
      with \<open>set (gokeys u) \<subseteq> ips\<close> show ?thesis by blast
    qed (use assms(2) in simp)
  qed
  moreover from calculation have "set (gokeys (at_succeed ?ip u)) \<subseteq> ips" by (auto simp: at_succeed_def delete_keys simp flip: set_map)
  ultimately show ?thesis using t uok throttle_ops_ok [OF uok]
    by (auto simp: throttle_ok_def AuthMiddleware_def u split: option.splits)
qed

lemma AuthMiddleware_account:
  assumes "throttle_ok ips t" "finite ips" "card ips \<le> authThrottleMaxIPs" "clientIP (rq_RemoteAddr r) \<in> ips"
    and "account t0 tau n (map_of t ip)" "t0 \<le> tau" "tau \<le> now" "now \<le> now'"
    and "AuthMiddleware sha tokens now now' r t = (out, t')"
    and "\<And>name. (clientIP (rq_RemoteAddr r), out) \<noteq> (ip, Served (Some name))"
  shows "account t0 now' (n + (if (clientIP (rq_RemoteAddr r), out) = (ip, Unauthorized) then 1 else 0)) (map_of t' ip)"
proof (cases "requiresAuth r")
  case False
  with assms(9) account_mono [OF assms(5), of now'] assms(7,8) show ?thesis by (auto simp: AuthMiddleware_def)
next
  case True
  let ?ip = "clientIP (rq_RemoteAddr r)"
  have t: "gomap_ok t" "length t \<le> authThrottleMaxIPs" using assms(1) by (auto simp: throttle_ok_def)
  obtain locked u where u: "at_blocked now ?ip t = (locked, u)" by force
  have uok: "gomap_ok u" using throttle_ops_ok(1) [OF t, of now ?ip] u by auto
  have acct: "account t0 now n (map_of u ip)" using account_blocked [OF t(1) assms(5,7), of ?ip] u by simp
  have later: "account t0 now' n (map_of u ip)" by (rule account_mono [OF acct assms(8)])
  consider "locked" "out = Throttled 60" "t' = u" | "\<not> locked" "out = Unauthorized" "t' = at_fail now' ?ip u"
    | name where "out = Served (Some name)" "t' = at_succeed ?ip u"
    using assms(9) True by (auto simp: AuthMiddleware_def u authFailureWindow_def split: if_splits option.splits)
  then show ?thesis
  proof cases
    case 1
    with later show ?thesis by simp
  next
    case 2
    show ?thesis
    proof (cases "?ip = ip")
      case False
      with 2 account_fail_other [OF uok acct assms(8), of ?ip] show ?thesis by simp
    next
      case own: True
      have small: "te_count e < 5" if "map_of u ip = Some e" for e
        using u that own 2(1) by (auto simp: at_blocked_def authFailureLimit_def simp del: map_of_eq_Some_iff split: option.splits if_splits)
      have "length u < authThrottleMaxIPs" if "map_of u ip = None"
      proof -
        have "map_of t ip = None \<Longrightarrow> length t < authThrottleMaxIPs" using throttle_ok_room [OF assms(1-3)] assms(4) own by simp
        moreover have "length (AList.delete ip t) < length t" if "map_of t ip \<noteq> None"
          using that by (metis keys_map_of length_delete_in lessI t(1))
        ultimately show ?thesis using u that own t(2)
          by (auto simp: at_blocked_def simp del: map_of_eq_Some_iff split: option.splits if_splits)
      qed
      from account_fail_own [OF uok this acct _ assms(8)] small assms(6,7) own 2 show ?thesis by simp
    qed
  next
    case 3
    with assms(10) have "?ip \<noteq> ip" by auto
    with 3 later show ?thesis by (simp add: at_succeed_def)
  qed
qed


definition wrong_guesses :: "(int \<times> int \<times> Request) list" where
  "wrong_guesses = replicate 7 (3, 3, sample_request\<lparr>rq_Authorization := ''Bearer guess''\<rparr>)"


end
