(* ===== verification/Api_Paging.thy ===== *)
theory Api_Paging
  imports NW_Prelude
begin

text \<open>
  \<^verbatim>\<open>internal/api/handler/paging.go\<close>: the window of a list response.  Rows are of any type with a UUID; the query
  parameters arrive as the strings of the URL, empty when absent.  \<^verbatim>\<open>slices.SortFunc\<close> is \<open>sort_slice\<close> on the
  UUIDs, which are distinct in a table.
\<close>

definition maxListPageSize :: int where
  "maxListPageSize = 5000"

definition pageParam :: "string \<Rightarrow> string \<Rightarrow> int \<Rightarrow> int \<Rightarrow> int \<Rightarrow> int result" where
  "pageParam raw name def lo hi =
    (if raw = [] then Ok def
     else case Atoi raw of
         None \<Rightarrow> Err (InputError ''invalid %s parameter: want a %s integer'' [AStr name, AStr (if lo > 0 then ''positive'' else ''non-negative'')])
       | Some v \<Rightarrow>
           if v < lo
           then Err (InputError ''invalid %s parameter: want a %s integer'' [AStr name, AStr (if lo > 0 then ''positive'' else ''non-negative'')])
           else Ok (min v hi))"

record 'a page =
  pg_Total :: int
  pg_Truncated :: bool
  pg_Rows :: "'a list"

definition writePagedModels :: "('a \<Rightarrow> string) \<Rightarrow> string \<Rightarrow> string \<Rightarrow> 'a list \<Rightarrow> 'a page result" where
  "writePagedModels getUUID rawLimit rawOffset results =
    (case pageParam rawLimit ''limit'' maxListPageSize 0 maxListPageSize of
       Err e \<Rightarrow> Err e
     | Ok limit \<Rightarrow> (case pageParam rawOffset ''offset'' 0 0 max_int64 of
         Err e \<Rightarrow> Err e
       | Ok offset \<Rightarrow>
           (let total = int (length results);
                keys = sort_slice (\<lambda>a b. fst a < fst b) (zip (map getUUID results) [0..<length results]);
                start = min offset total; stop = min (start + limit) total
            in Ok \<lparr>pg_Total = total, pg_Truncated = (stop < total),
                   pg_Rows = map (\<lambda>(u, i). results ! i) (take (nat (stop - start)) (drop (nat start) keys))\<rparr>)))"

text \<open>Sorting an index by UUID and picking the rows is sorting the rows.\<close>

lemma sort_insert_map:
  "(\<And>y. y \<in> set ys \<Longrightarrow> lt (f x) (f y) = lt' x y) \<Longrightarrow> sort_insert lt (f x) (map f ys) = map f (sort_insert lt' x ys)"
  by (induction ys) auto

lemma sort_slice_map:
  assumes "\<And>x y. x \<in> set xs \<Longrightarrow> y \<in> set xs \<Longrightarrow> lt (f x) (f y) = lt' x y"
  shows "sort_slice lt (map f xs) = map f (sort_slice lt' xs)"
  using assms
proof (induction xs rule: rev_induct)
  case (snoc x xs)
  then show ?case using sort_insert_map [of "sort_slice lt' xs" lt f x lt'] by (simp add: sort_slice_def)
      (use snoc.prems set_sort_slice [of lt' xs] in \<open>auto simp: sort_slice_def\<close>)
qed simp

definition by_uuid :: "('a \<Rightarrow> string) \<Rightarrow> 'a list \<Rightarrow> 'a list" where
  "by_uuid getUUID rows = sort_slice (\<lambda>a b. getUUID a < getUUID b) rows"

lemma paged_keys:
  "map (\<lambda>(u, i). results ! i) (sort_slice (\<lambda>a b. fst a < fst b) (zip (map uuid results) [0..<length results])) = by_uuid uuid results"
proof -
  let ?z = "zip (map uuid results) [0..<length results]"
  have "map (\<lambda>(u, i). results ! i) ?z = results" by (rule nth_equalityI) auto
  moreover have "sort_slice (\<lambda>a b. uuid a < uuid b) (map (\<lambda>(u, i). results ! i) ?z) =
      map (\<lambda>(u, i). results ! i) (sort_slice (\<lambda>a b. fst a < fst b) ?z)"
    by (rule sort_slice_map) (auto simp: set_zip)
  ultimately show ?thesis by (simp add: by_uuid_def)
qed

lemma sorted_unique:
  fixes f :: "'a \<Rightarrow> 'b::linorder"
  assumes "mset xs = mset ys" "distinct (map f xs)" "sorted_wrt (\<lambda>x y. f x \<le> f y) xs" "sorted_wrt (\<lambda>x y. f x \<le> f y) ys"
  shows "xs = ys"
proof -
  have "sorted (map f xs)" "sorted (map f ys)" using assms(3,4) by (simp_all add: sorted_wrt_map)
  moreover have "mset (map f xs) = mset (map f ys)" using assms(1) by simp
  ultimately have m: "map f xs = map f ys" by (metis properties_for_sort)
  have "inj_on f (set xs \<union> set ys)" using assms(1,2) by (metis Un_absorb distinct_map set_mset_mset)
  with m show ?thesis by (rule map_inj_on)
qed

lemma by_uuid_order:
  "mset rows = mset rows' \<Longrightarrow> distinct (map uuid rows) \<Longrightarrow> by_uuid uuid rows = by_uuid uuid rows'"
  unfolding by_uuid_def
  by (rule sorted_unique [of _ _ uuid]) (auto simp: sorted_sort_slice_asc distinct_map dest: mset_eq_setD)

lemma writePagedModels_page:
  assumes "0 \<le> limit" "limit \<le> 5000" "0 \<le> offset" "offset \<le> max_int64"
  shows "writePagedModels uuid (Itoa limit) (Itoa offset) rows =
    Ok \<lparr>pg_Total = int (length rows), pg_Truncated = (offset + limit < int (length rows)),
        pg_Rows = take (nat limit) (drop (nat offset) (by_uuid uuid rows))\<rparr>"
proof -
  let ?keys = "sort_slice (\<lambda>a b. fst a < fst b) (zip (map uuid rows) [0..<length rows])"
  have ne: "Itoa i \<noteq> []" for i using itoa_nat_nonempty by (auto simp: Itoa_def)
  have l: "pageParam (Itoa limit) ''limit'' maxListPageSize 0 maxListPageSize = Ok limit"
    using assms(1,2) by (simp add: pageParam_def ne Atoi_Itoa_nonneg max_int64_def maxListPageSize_def)
  have o: "pageParam (Itoa offset) ''offset'' 0 0 max_int64 = Ok offset"
    using assms(3,4) by (simp add: pageParam_def ne Atoi_Itoa_nonneg)
  have len: "length (by_uuid uuid rows) = length rows" by (simp add: by_uuid_def)
  define total where "total = int (length rows)"
  have "take (nat (min (min offset total + limit) total - min offset total)) (drop (nat (min offset total)) xs) =
      take (nat limit) (drop (nat offset) xs)" if "length xs = length rows" for xs :: "'a list"
    using that assms(1,3) by (cases "offset \<le> total"; cases "offset + limit \<le> total") (auto simp: total_def min_def take_all)
  from this [OF len] have "map (\<lambda>(u, i). rows ! i) (take (nat (min (min offset total + limit) total - min offset total))
      (drop (nat (min offset total)) ?keys)) = take (nat limit) (drop (nat offset) (by_uuid uuid rows))"
    by (simp add: paged_keys [symmetric] take_map drop_map)
  moreover have "min (min offset total + limit) total < total \<longleftrightarrow> offset + limit < total"
    using assms(1,3) by (auto simp: min_def)
  ultimately show ?thesis unfolding total_def by (simp add: writePagedModels_def l o)
qed

lemma concat_windows:
  "concat (map (\<lambda>i. take k (drop (i * k) xs)) [0..<n]) = take (n * k) xs"
  by (induction n) (simp_all add: take_add [symmetric] add.commute)

definition page_at :: "('a \<Rightarrow> string) \<Rightarrow> int \<Rightarrow> (nat \<Rightarrow> 'a list) \<Rightarrow> nat \<Rightarrow> 'a page result" where
  "page_at uuid limit listing i = writePagedModels uuid (Itoa limit) (Itoa (int i * limit)) (listing i)"

text \<open>Walking the pages shows every row exactly once.  Whatever the order in which the cache lists the rows at
  each request, the pages of a walk with a fixed limit, concatenated, are all rows in the order of their
  UUIDs, each page holds at most the limit, and the last page is not marked as truncated.\<close>

theorem paging_walk:
  fixes uuid :: "'a \<Rightarrow> string"
  assumes "distinct (map uuid rows)" "\<And>i. i < n \<Longrightarrow> mset (listing i) = mset rows"
    and "0 < limit" "limit \<le> 5000" "int (length rows) \<le> int n * limit" "int n * limit \<le> max_int64"
  shows "concat (map (\<lambda>i. case page_at uuid limit listing i of Err _ \<Rightarrow> [] | Ok p \<Rightarrow> pg_Rows p) [0..<n]) = by_uuid uuid rows \<and>
    mset (by_uuid uuid rows) = mset rows \<and> sorted (map uuid (by_uuid uuid rows)) \<and>
    (\<forall>i<n. \<exists>p. page_at uuid limit listing i = Ok p \<and> pg_Total p = int (length rows) \<and> int (length (pg_Rows p)) \<le> limit \<and>
      (pg_Truncated p \<longleftrightarrow> int (Suc i) * limit < int (length rows)))"
proof -
  have bound: "int i * limit \<le> max_int64" if "i < n" for i
    by (rule order_trans [OF mult_right_mono assms(6)]) (use that assms(3) in auto)
  have pg: "page_at uuid limit listing i = Ok \<lparr>pg_Total = int (length rows), pg_Truncated = (int (Suc i) * limit < int (length rows)),
      pg_Rows = take (nat limit) (drop (i * nat limit) (by_uuid uuid rows))\<rparr>" if "i < n" for i
  proof -
    have "by_uuid uuid (listing i) = by_uuid uuid rows" by (rule by_uuid_order [symmetric]) (simp_all add: assms(1,2) that)
    moreover have "length (listing i) = length rows" using assms(2) [OF that] by (rule mset_eq_length)
    moreover have "nat (int i * limit) = i * nat limit" using assms(3) by (simp add: nat_mult_distrib)
    ultimately show ?thesis unfolding page_at_def
      using assms(3,4) bound [OF that] by (subst writePagedModels_page) (simp_all add: algebra_simps)
  qed
  have "map (\<lambda>i. case page_at uuid limit listing i of Err _ \<Rightarrow> [] | Ok p \<Rightarrow> pg_Rows p) [0..<n] =
      map (\<lambda>i. take (nat limit) (drop (i * nat limit) (by_uuid uuid rows))) [0..<n]"
    by (rule map_cong) (simp_all add: pg)
  then have "concat (map (\<lambda>i. case page_at uuid limit listing i of Err _ \<Rightarrow> [] | Ok p \<Rightarrow> pg_Rows p) [0..<n]) = take (n * nat limit) (by_uuid uuid rows)"
    unfolding concat_windows [symmetric] by (rule arg_cong)
  moreover have "int (n * nat limit) = int n * limit" using assms(3) by simp
  then have "length rows \<le> n * nat limit" using assms(5) by linarith
  ultimately show ?thesis using assms(3) pg sorted_sort_slice_asc [of uuid rows]
    by (auto simp: by_uuid_def sorted_wrt_map)
qed

text \<open>Three rows, listed in two different orders, in pages of two.\<close>

definition sample_listing :: "nat \<Rightarrow> string list" where
  "sample_listing i = (if i = 0 then [''b'', ''c'', ''a''] else [''c'', ''a'', ''b''])"

theorem paging_walk_witness:
  "concat (map (\<lambda>i. case page_at (\<lambda>u. u) 2 sample_listing i of
     Err _ \<Rightarrow> [] | Ok p \<Rightarrow> pg_Rows p) [0..<2]) = [''a'', ''b'', ''c'']"
proof -
  have "by_uuid (\<lambda>u. u) [''a'', ''b'', ''c''] = [''a'', ''b'', ''c'']" by code_simp
  moreover have "mset (sample_listing i) = mset [''a'', ''b'', ''c'']" for i by (simp add: sample_listing_def)
  ultimately show ?thesis
    using paging_walk [of "\<lambda>u. u" "[''a'', ''b'', ''c'']" 2 sample_listing 2] by (simp add: max_int64_def)
qed

end
