(* ===== verification/NW_Registry.thy ===== *)
theory NW_Registry
  imports NW_Prelude
begin

text \<open>
  Ordered registries.  The registry of clusters (\<^verbatim>\<open>internal/cluster/registry.go\<close>) and the pool of chassis
  connections (\<^verbatim>\<open>internal/ovsdb/pool.go\<close>) both keep a map and the order in which its keys arrived, which
  their listings follow.  The contract \<open>ordered_registry\<close> is what the readers of a listing rely on.
\<close>

definition keep_first :: "'k \<Rightarrow> 'k list \<Rightarrow> 'k list" where
  "keep_first k ks = (if k \<in> set ks then ks else ks @ [k])"

lemma distinct_keep_first: "distinct ks \<Longrightarrow> distinct (keep_first k ks)"
  by (simp add: keep_first_def)

lemma set_fold_keep_first: "set (fold keep_first ks acc) = set acc \<union> set ks"
  by (induction ks arbitrary: acc) (auto simp: keep_first_def)

lemma fold_keep_first_prefix: "\<exists>more. fold keep_first ks acc = acc @ more"
proof (induction ks arbitrary: acc)
  case (Cons k ks)
  from Cons [of "keep_first k acc"] show ?case by (auto simp: keep_first_def split: if_splits)
qed simp

text \<open>A map and an order of its keys are in step.\<close>

definition in_step :: "('k, 'v) gomap \<Rightarrow> 'k list \<Rightarrow> bool" where
  "in_step m order \<longleftrightarrow> gomap_ok m \<and> distinct order \<and> set order = fst ` set m"

lemma in_step_empty: "in_step [] []"
  by (simp add: in_step_def)

lemma in_step_add: "in_step m order \<Longrightarrow> in_step (AList.update k v m) (keep_first k order)"
  by (simp add: in_step_def keep_first_def dom_update insert_absorb)

lemma in_step_remove: "in_step m order \<Longrightarrow> in_step (AList.delete k m) (remove1 k order)"
  by (auto simp: in_step_def AList.delete_eq)

lemma in_step_map_of: "in_step m order \<Longrightarrow> k \<in> set order \<longleftrightarrow> map_of m k \<noteq> None"
  by (simp add: in_step_def map_of_eq_None_iff)

lemma in_step_length: "in_step m order \<Longrightarrow> length order = length m"
  by (metis in_step_def distinct_card length_map set_map)

locale ordered_registry =
  fixes add :: "string \<Rightarrow> 'v \<Rightarrow> 's \<Rightarrow> 's"
    and order :: "'s \<Rightarrow> string list"
    and get :: "string \<Rightarrow> 's \<Rightarrow> 'v option"
    and inv :: "'s \<Rightarrow> bool"
  assumes inv_add: "inv s \<Longrightarrow> inv (add k v s)"
    and order_add: "inv s \<Longrightarrow> order (add k v s) = keep_first k (order s)"
    and order_get: "inv s \<Longrightarrow> k \<in> set (order s) \<longleftrightarrow> get k s \<noteq> None"
    and order_distinct: "inv s \<Longrightarrow> distinct (order s)"
begin

lemma inv_adds: "inv s \<Longrightarrow> inv (fold (\<lambda>(k, v). add k v) ops s)"
  by (induction ops arbitrary: s) (auto simp: inv_add)

text \<open>A listing has the keys in the order of their first registration, each once.\<close>

lemma order_adds: "inv s \<Longrightarrow> order (fold (\<lambda>(k, v). add k v) ops s) = fold keep_first (map fst ops) (order s)"
  by (induction ops arbitrary: s) (auto simp: inv_add order_add)

lemma adds_known: "inv s \<Longrightarrow> get k (fold (\<lambda>(k, v). add k v) ops s) \<noteq> None \<longleftrightarrow> get k s \<noteq> None \<or> k \<in> fst ` set ops"
  using order_get [OF inv_adds, of s k ops] order_get [of s k] by (simp add: order_adds set_fold_keep_first)

text \<open>What was first stays first.\<close>

lemma first_stays: "inv s \<Longrightarrow> order s \<noteq> [] \<Longrightarrow> hd (order (fold (\<lambda>(k, v). add k v) ops s)) = hd (order s)"
  using fold_keep_first_prefix [of "map fst ops" "order s"] by (auto simp: order_adds)

end

end
