(* ===== verification/Cluster_Registry.thy ===== *)
theory Cluster_Registry
  imports NW_Registry NW_Strings
begin

text \<open>
  \<^verbatim>\<open>internal/cluster/registry.go\<close>, the named clusters served by one process, and \<^verbatim>\<open>internal/ovsdb/pool.go\<close>, the
  pool of connections to the Open vSwitch databases of the chassis.

  \<^item> The subsystems of a cluster are of a type \<open>'sub\<close>: the registry only keeps them.
  \<^item> A client of the pool is of a type \<open>'c\<close>; creating one may fail, which is an argument of \<open>pool_Add\<close>.
  \<^item> The goroutine that connects a member is \<open>supervise\<close>, a loop that may run forever and is therefore a
    partial function: its attempts and whether the pool is closed while it waits are its arguments.
\<close>

section \<open>The registry of clusters\<close>

record ClusterSnapshotMeta =
  cs_SourceID :: int
  cs_CreatedAt :: string
  cs_NBAddr :: string
  cs_SBAddr :: string

record 'sub Cluster =
  cl_Name :: string
  cl_Label :: string
  cl_Mode :: string
  cl_Snapshot :: "ClusterSnapshotMeta option"
  cl_Subsystems :: 'sub

record 'sub ClusterRegistry =
  cr_clusters :: "(string, 'sub Cluster) gomap"
  cr_order :: "string list"

definition NewClusterRegistry :: "'sub ClusterRegistry" where
  "NewClusterRegistry = \<lparr>cr_clusters = [], cr_order = []\<rparr>"

definition cr_Register :: "string \<Rightarrow> 'sub Cluster \<Rightarrow> 'sub ClusterRegistry \<Rightarrow> 'sub ClusterRegistry" where
  "cr_Register name c r =
    (let r' = (if map_of (cr_clusters r) name = None then r\<lparr>cr_order := cr_order r @ [name]\<rparr> else r)
     in r'\<lparr>cr_clusters := AList.update name c (cr_clusters r')\<rparr>)"

definition cr_Unregister :: "string \<Rightarrow> 'sub ClusterRegistry \<Rightarrow> 'sub ClusterRegistry" where
  "cr_Unregister name r =
    (if map_of (cr_clusters r) name = None then r
     else r\<lparr>cr_clusters := AList.delete name (cr_clusters r), cr_order := remove1 name (cr_order r)\<rparr>)"

definition cr_Get :: "string \<Rightarrow> 'sub ClusterRegistry \<Rightarrow> 'sub Cluster option" where
  "cr_Get name r = map_of (cr_clusters r) name"

text \<open>An absent key reads as the nil pointer, here \<open>None\<close>.\<close>

definition cr_Default :: "'sub ClusterRegistry \<Rightarrow> 'sub Cluster option" where
  "cr_Default r = (case cr_order r of [] \<Rightarrow> None | name # _ \<Rightarrow> map_of (cr_clusters r) name)"

definition cr_List :: "'sub ClusterRegistry \<Rightarrow> 'sub Cluster option list" where
  "cr_List r = map (map_of (cr_clusters r)) (cr_order r)"

definition cr_Len :: "'sub ClusterRegistry \<Rightarrow> nat" where
  "cr_Len r = length (cr_clusters r)"

definition cr_ok :: "'sub ClusterRegistry \<Rightarrow> bool" where
  "cr_ok r = in_step (cr_clusters r) (cr_order r)"

lemma cr_ok_new: "cr_ok NewClusterRegistry"
  by (simp add: cr_ok_def NewClusterRegistry_def in_step_empty)

lemma cr_Register_parts:
  assumes "cr_ok r"
  shows "cr_clusters (cr_Register name c r) = AList.update name c (cr_clusters r)"
    "cr_order (cr_Register name c r) = keep_first name (cr_order r)"
  using in_step_map_of [of "cr_clusters r" "cr_order r" name] assms
  by (auto simp: cr_Register_def keep_first_def cr_ok_def simp del: map_of_eq_Some_iff)

lemma cr_ok_Register: "cr_ok r \<Longrightarrow> cr_ok (cr_Register name c r)"
  using in_step_add by (fastforce simp: cr_ok_def cr_Register_parts)

lemma cr_ok_Unregister: "cr_ok r \<Longrightarrow> cr_ok (cr_Unregister name r)"
  using in_step_remove by (fastforce simp: cr_ok_def cr_Unregister_def)

lemma cr_Get_Register: "cr_Get n (cr_Register name c r) = (if n = name then Some c else cr_Get n r)"
  by (simp add: cr_Get_def cr_Register_def)

lemma cr_Get_Unregister: "cr_Get n (cr_Unregister name r) = (if n = name then None else cr_Get n r)"
  by (simp add: cr_Get_def cr_Unregister_def)

interpretation clusters: ordered_registry cr_Register cr_order cr_Get cr_ok
proof unfold_locales
  fix s :: "'a ClusterRegistry" and k
  assume "cr_ok s"
  then show "(k \<in> set (cr_order s)) = (cr_Get k s \<noteq> None)" "distinct (cr_order s)"
    using in_step_map_of [of "cr_clusters s" "cr_order s" k] by (auto simp: cr_ok_def cr_Get_def in_step_def)
qed (simp_all add: cr_ok_Register cr_Register_parts)

text \<open>The registry serves clusters in the order of their first registration: after any sequence of
  registrations the listing has one entry for each name, holds no missing cluster, agrees with the
  lookup by name, and the default is the cluster whose name came first.\<close>

theorem cluster_registry_order:
  fixes ops :: "(string \<times> 'sub Cluster) list"
  shows "let r = fold (\<lambda>(k, v). cr_Register k v) ops NewClusterRegistry; names = fold keep_first (map fst ops) []
    in cr_List r = map (\<lambda>n. cr_Get n r) names \<and> distinct names \<and> set names = fst ` set ops \<and> None \<notin> set (cr_List r) \<and>
      length (cr_List r) = cr_Len r \<and> cr_Default r = (case ops of [] \<Rightarrow> None | (n, _) # _ \<Rightarrow> cr_Get n r)"
proof -
  let ?r = "fold (\<lambda>(k, v). cr_Register k v) ops NewClusterRegistry"
  have ok: "cr_ok ?r" by (intro clusters.inv_adds cr_ok_new)
  have ord: "cr_order ?r = fold keep_first (map fst ops) []"
    using clusters.order_adds [OF cr_ok_new, of ops] by (simp add: NewClusterRegistry_def)
  have list: "cr_List ?r = map (\<lambda>n. cr_Get n ?r) (cr_order ?r)" by (simp add: cr_List_def cr_Get_def)
  have "None \<notin> set (cr_List ?r)" using clusters.order_get [OF ok] unfolding list by fastforce
  moreover have "length (cr_List ?r) = cr_Len ?r" using ok in_step_length unfolding cr_List_def cr_Len_def cr_ok_def by fastforce
  moreover have "cr_Default ?r = (case ops of [] \<Rightarrow> None | (n, _) # _ \<Rightarrow> cr_Get n ?r)"
  proof (cases ops)
    case Nil
    then show ?thesis by (simp add: cr_Default_def NewClusterRegistry_def)
  next
    case (Cons x xs)
    then have "hd (cr_order ?r) = fst x" "cr_order ?r \<noteq> []"
      using fold_keep_first_prefix [of "map fst xs" "[fst x]"] unfolding ord by (auto simp: keep_first_def)
    then show ?thesis using Cons by (cases "cr_order ?r") (auto simp: cr_Default_def cr_Get_def split: prod.splits)
  qed
  moreover have "distinct (fold keep_first (map fst ops) [])" using clusters.order_distinct [OF ok] unfolding ord .
  moreover have "set (fold keep_first (map fst ops) []) = fst ` set ops" by (simp add: set_fold_keep_first)
  ultimately show ?thesis using list ord by simp
qed

section \<open>The pool of chassis connections\<close>

record 'c ovsMember =
  om_systemID :: string
  om_addr :: string
  om_client :: 'c

record OVSMemberStatus =
  os_SystemID :: string
  os_Connected :: bool

record 'c OVSPool =
  op_members :: "(string, 'c ovsMember) gomap"
  op_order :: "string list"

definition NewOVSPool :: "'c OVSPool" where
  "NewOVSPool = \<lparr>op_members = [], op_order = []\<rparr>"

text \<open>\<open>new\<close> is what the client library returns for the address.  On success the goroutine of the member is
  started; a duplicate is refused and its client closed.\<close>

definition pool_Add :: "'c result \<Rightarrow> string \<Rightarrow> string \<Rightarrow> 'c OVSPool \<Rightarrow> error option \<times> 'c OVSPool" where
  "pool_Add new systemID addr p = (case new of
     Err err \<Rightarrow> (Some (Wrapf ''creating OVS client for %s: %w'' [AStr systemID] err), p)
   | Ok c \<Rightarrow>
       if map_of (op_members p) systemID \<noteq> None
       then (Some (Errorf ''OVS chassis %q already registered'' [AStr systemID]), p)
       else (None, p\<lparr>op_members := AList.update systemID \<lparr>om_systemID = systemID, om_addr = addr, om_client = c\<rparr> (op_members p),
                     op_order := op_order p @ [systemID]\<rparr>))"

definition pool_Client :: "string \<Rightarrow> 'c OVSPool \<Rightarrow> 'c option" where
  "pool_Client systemID p = map_option om_client (map_of (op_members p) systemID)"

definition pool_Members :: "('c \<Rightarrow> bool) \<Rightarrow> 'c OVSPool \<Rightarrow> OVSMemberStatus option list" where
  "pool_Members isConnected p = map (\<lambda>i. map_option (\<lambda>m. \<lparr>os_SystemID = om_systemID m, os_Connected = isConnected (om_client m)\<rparr>)
     (map_of (op_members p) i)) (op_order p)"

text \<open>\<open>addrs\<close> is in the order in which the map is ranged over; failures are logged and skipped.\<close>

definition ConnectOVSPool :: "(string \<Rightarrow> 'c result) \<Rightarrow> (string, string) gomap \<Rightarrow> 'c OVSPool" where
  "ConnectOVSPool new addrs = fold (\<lambda>(systemID, addr) p. snd (pool_Add (new addr) systemID addr p)) addrs NewOVSPool"

text \<open>\<^verbatim>\<open>compat.go\<close>: an error that speaks of the schema is explained; \<open>render\<close> is the text of an error.\<close>

definition withSchemaHint :: "(error \<Rightarrow> string) \<Rightarrow> error \<Rightarrow> string \<Rightarrow> string \<Rightarrow> error" where
  "withSchemaHint render err product minVersion =
    (if \<not> Contains_str (render err) ''validation error'' then err
     else Wrapf ''incompatible %s schema (Northwatch supports %s %s and newer, see %s): %w''
       [AStr product, AStr product, AStr minVersion, AStr ''https://b42labs.github.io/northwatch/reference/compatibility''] err)"

text \<open>One attempt: \<open>connect\<close> and \<open>monitor\<close> are the errors of the two calls.\<close>

definition connectAndMonitor :: "(error \<Rightarrow> string) \<Rightarrow> error option \<Rightarrow> error option \<Rightarrow> error option" where
  "connectAndMonitor render connect monitor = (case connect of
     Some err \<Rightarrow> Some (Wrapf ''connecting: %w'' [] (withSchemaHint render err ''Open vSwitch'' ''3.3''))
   | None \<Rightarrow> (case monitor of Some err \<Rightarrow> Some (Wrapf ''monitoring: %w'' [] err) | None \<Rightarrow> None))"

text \<open>The loop over the attempts: their results, and whether the pool is closed while it waits.\<close>

partial_function (option) supervise ::
    "(nat \<Rightarrow> error option) \<Rightarrow> (nat \<Rightarrow> bool) \<Rightarrow> nat \<Rightarrow> (bool \<times> nat) option" where
  "supervise attempt quit n = (case attempt n of
     None \<Rightarrow> Some (True, n)
   | Some err \<Rightarrow> if quit n then Some (False, n) else supervise attempt quit (Suc n))"

declare supervise.simps [simp del]

definition pool_ok :: "'c OVSPool \<Rightarrow> bool" where
  "pool_ok p = in_step (op_members p) (op_order p)"

lemma pool_Add_ok: "pool_ok p \<Longrightarrow> pool_ok (snd (pool_Add new i addr p))"
  using in_step_add [of "op_members p" "op_order p" i] in_step_map_of [of "op_members p" "op_order p" i]
  by (auto simp: pool_ok_def pool_Add_def keep_first_def split: sum.splits)

interpretation pool: ordered_registry "\<lambda>i c p. snd (pool_Add (Ok c) i addr p)" op_order pool_Client pool_ok
proof unfold_locales
  fix p :: "'a OVSPool" and k c
  assume ok: "pool_ok p"
  then show "pool_ok (snd (pool_Add (Ok c) k addr p))" by (rule pool_Add_ok)
  show "op_order (snd (pool_Add (Ok c) k addr p)) = keep_first k (op_order p)"
    using ok in_step_map_of [of "op_members p" "op_order p" k] by (auto simp: pool_ok_def pool_Add_def keep_first_def)
  show "(k \<in> set (op_order p)) = (pool_Client k p \<noteq> None)"
    using ok in_step_map_of [of "op_members p" "op_order p" k] by (simp add: pool_ok_def pool_Client_def)
  show "distinct (op_order p)" using ok by (simp add: pool_ok_def in_step_def)
qed

text \<open>A member that is already registered keeps its client, and the status listing has one entry per member.\<close>

lemma pool_Add_keeps: "pool_Client i p = Some c \<Longrightarrow> pool_Client i (snd (pool_Add new j addr p)) = Some c"
  by (auto simp: pool_Client_def pool_Add_def split: sum.splits)

lemma pool_Members_complete:
  assumes "pool_ok p"
  shows "None \<notin> set (pool_Members isConnected p)" "length (pool_Members isConnected p) = length (op_members p)"
proof -
  show "length (pool_Members isConnected p) = length (op_members p)"
    using assms in_step_length by (fastforce simp: pool_Members_def pool_ok_def)
  show "None \<notin> set (pool_Members isConnected p)"
    using pool.order_get [OF assms] by (auto simp: pool_Members_def pool_Client_def)
qed

text \<open>One unusable address does not affect the other members.\<close>

lemma ConnectOVSPool_members:
  assumes "gomap_ok addrs"
  shows "pool_Client i (ConnectOVSPool new addrs) = (case map_of addrs i of
      None \<Rightarrow> None | Some addr \<Rightarrow> (case new addr of Err _ \<Rightarrow> None | Ok c \<Rightarrow> Some c))"
proof -
  have "pool_Client i (fold (\<lambda>(systemID, addr) p. snd (pool_Add (new addr) systemID addr p)) addrs p) =
      (case map_of addrs i of None \<Rightarrow> pool_Client i p | Some addr \<Rightarrow> (case new addr of Err _ \<Rightarrow> None | Ok c \<Rightarrow> Some c))"
    if "\<And>j. j \<in> fst ` set addrs \<Longrightarrow> pool_Client j p = None" for p
    using assms that
  proof (induction addrs arbitrary: p)
    case (Cons x addrs)
    obtain k addr where x: "x = (k, addr)" by force
    let ?q = "snd (pool_Add (new addr) k addr p)"
    have fresh: "pool_Client k p = None" "map_of addrs k = None" using Cons.prems x by (auto simp: map_of_eq_None_iff)
    have q: "pool_Client j ?q = (if j = k then (case new addr of Err _ \<Rightarrow> None | Ok c \<Rightarrow> Some c) else pool_Client j p)" for j
      using fresh(1) by (auto simp: pool_Add_def pool_Client_def split: sum.splits)
    have "pool_Client j ?q = None" if "j \<in> fst ` set addrs" for j using Cons.prems x that by (auto simp: q)
    from Cons.IH [OF _ this] Cons.prems(1) x fresh(2) show ?case by (auto simp: q simp del: map_of_eq_Some_iff split: option.splits)
  qed simp
  from this [of NewOVSPool] show ?thesis by (simp add: ConnectOVSPool_def NewOVSPool_def pool_Client_def split: option.splits)
qed

section \<open>The supervisor of a member\<close>

lemma supervise_skip:
  "(\<And>k. n \<le> k \<Longrightarrow> k < n + d \<Longrightarrow> attempt k \<noteq> None \<and> \<not> quit k) \<Longrightarrow> supervise attempt quit n = supervise attempt quit (n + d)"
proof (induction d)
  case (Suc d)
  then have "supervise attempt quit n = supervise attempt quit (n + d)" by simp
  also have "\<dots> = supervise attempt quit (Suc (n + d))"
    using Suc.prems [of "n + d"] by (subst supervise.simps) (auto split: option.splits)
  finally show ?case by simp
qed simp

lemma supervise_result:
  "supervise attempt quit n = Some r \<Longrightarrow> n \<le> snd r \<and> (attempt (snd r) = None \<or> quit (snd r))"
proof (erule supervise.raw_induct [rotated, where P = "\<lambda>attempt quit n r. n \<le> snd r \<and> (attempt (snd r) = None \<or> quit (snd r))"])
  fix sup :: "(nat \<Rightarrow> error option) \<Rightarrow> (nat \<Rightarrow> bool) \<Rightarrow> nat \<Rightarrow> (bool \<times> nat) option" and attempt quit n r
  assume 1: "\<And>a q n r. sup a q n = Some r \<Longrightarrow> n \<le> snd r \<and> (a (snd r) = None \<or> q (snd r))"
    "(case attempt n of None \<Rightarrow> Some (True, n) | Some err \<Rightarrow> if quit n then Some (False, n) else sup attempt quit (Suc n)) = Some r"
  show "n \<le> snd r \<and> (attempt (snd r) = None \<or> quit (snd r))"
  proof (cases "attempt n = None \<or> quit n")
    case True
    with 1(2) have "n = snd r" by (cases "attempt n") auto
    with True show ?thesis by simp
  next
    case False
    with 1(2) have "sup attempt quit (Suc n) = Some r" by (auto split: option.splits)
    from 1(1) [OF this] show ?thesis by simp
  qed
qed

text \<open>C38. The supervisor of a chassis ends exactly when it should: it returns if and only if some attempt succeeds
  or the pool is closed while it waits after a failed one, and it does so at the first attempt for which one
  of the two holds, reporting success when that attempt succeeded.\<close>

theorem supervise_terminates:
  "supervise attempt quit 0 =
    (if \<exists>n. attempt n = None \<or> quit n
     then let n = LEAST n. attempt n = None \<or> quit n in Some (attempt n = None, n)
     else None)"
proof (cases "\<exists>n. attempt n = None \<or> quit n")
  case True
  let ?n = "LEAST n. attempt n = None \<or> quit n"
  have "attempt ?n = None \<or> quit ?n" using True by (rule LeastI_ex)
  then have "supervise attempt quit ?n = Some (attempt ?n = None, ?n)"
    by (subst supervise.simps) (cases "attempt ?n"; simp)
  moreover have "supervise attempt quit 0 = supervise attempt quit (0 + ?n)"
    by (rule supervise_skip) (auto dest: not_less_Least)
  ultimately show ?thesis using True by simp
next
  case False
  then have "supervise attempt quit 0 \<noteq> Some r" for r using supervise_result [of attempt quit 0 r] by metis
  then show ?thesis using False by (metis not_None_eq)
qed

end
