(* ===== verification/Snapshot_Session.thy ===== *)
theory Snapshot_Session
  imports History_Store Cluster_Registry
begin

text \<open>
  \<^verbatim>\<open>internal/snapshotsession/manager.go\<close>: history snapshots loaded as additional read-only clusters, with the
  live monitors suspended while any of them is loaded.

  \<^item> The code is concurrent: a \<^verbatim>\<open>Load\<close> reserves its slot under the lock, builds outside it, commits under the
    lock, brings the live monitors in line and clears its reservation.  Each critical section is one
    definition here, and \<open>session_step\<close> interleaves the sections of any number of calls.
  \<^item> The export is that of \<^verbatim>\<open>internal/history\<close>; building the file, serving it, connecting the clients and
    rendering time stamps are parameters (\<open>load_env\<close>, a call may meet any of a set of them), as are the replies of the live source.
  \<^item> The clients and servers behind a snapshot are one handle; \<open>mg_opened\<close> lists the handles not yet closed.
\<close>

section \<open>State\<close>

record Loaded =
  ld_Cluster :: string
  ld_Label :: string
  ld_Mode :: string
  ld_SourceID :: int
  ld_CreatedAt :: string

record session_entry =
  en_loaded :: Loaded
  en_handle :: nat

record 'sub Manager =
  mg_maxLoaded :: int
  mg_drainGrace :: int
  mg_loaded :: "(int, session_entry) gomap"
  mg_loading :: "int list"
  mg_pendingDrains :: "(int, session_entry) gomap"
  mg_drainSeq :: int
  mg_liveSuspended :: bool
  mg_reg :: "'sub ClusterRegistry"
  mg_routes :: "string list"
  mg_opened :: "nat list"

definition ErrNotLoaded :: error where
  "ErrNotLoaded = ErrOther ''snapshot not loaded''"

definition ErrTooManyLoaded :: error where
  "ErrTooManyLoaded = ErrOther ''too many snapshots loaded''"

definition ErrLoadInProgress :: error where
  "ErrLoadInProgress = ErrOther ''snapshot load already in progress''"

definition DefaultMaxLoaded :: int where
  "DefaultMaxLoaded = 4"

definition DefaultDrainGrace :: int where
  "DefaultDrainGrace = 2000000000"

definition NewManager :: "'sub ClusterRegistry \<Rightarrow> 'sub Manager" where
  "NewManager reg = \<lparr>mg_maxLoaded = DefaultMaxLoaded, mg_drainGrace = DefaultDrainGrace, mg_loaded = [], mg_loading = [],
     mg_pendingDrains = [], mg_drainSeq = 0, mg_liveSuspended = False, mg_reg = reg, mg_routes = [], mg_opened = []\<rparr>"

definition SetMaxLoaded :: "int \<Rightarrow> 'sub Manager \<Rightarrow> 'sub Manager" where
  "SetMaxLoaded n m = (if n > 0 then m\<lparr>mg_maxLoaded := n\<rparr> else m)"

definition SetDrainGrace :: "int \<Rightarrow> 'sub Manager \<Rightarrow> 'sub Manager" where
  "SetDrainGrace d m = (if d \<ge> 0 then m\<lparr>mg_drainGrace := d\<rparr> else m)"

definition clusterName :: "int \<Rightarrow> string" where
  "clusterName sid = ''snapshot-'' @ Itoa sid"

section \<open>Loading\<close>

text \<open>The first critical section: a result if the call returns at once, otherwise the reservation.\<close>

definition load_reserve :: "int \<Rightarrow> 'sub Manager \<Rightarrow> Loaded result option \<times> 'sub Manager" where
  "load_reserve sid m = (case map_of (mg_loaded m) sid of
     Some e \<Rightarrow> (Some (Ok (en_loaded e)), m)
   | None \<Rightarrow>
       if sid \<in> set (mg_loading m) then (Some (Err ErrLoadInProgress), m)
       else if int (length (mg_loaded m)) + int (length (mg_loading m)) \<ge> mg_maxLoaded m
       then (Some (Err (Wrapf ''%w: %d already loaded (max %d)'' [AInt (int (length (mg_loaded m))), AInt (mg_maxLoaded m)]
               ErrTooManyLoaded)), m)
       else (None, m\<lparr>mg_loading := sid # mg_loading m\<rparr>))"

record RowInput =
  ri_Database :: string
  ri_Table :: string
  ri_UUID :: string
  ri_Data :: row_map

record ('f, 'srv, 'sub) load_env =
  le_export :: "int \<Rightarrow> (SnapshotMeta \<times> SnapshotRow list) result"
  le_fromRows :: "RowInput list \<Rightarrow> 'f result"
  le_serve :: "'f \<Rightarrow> 'srv result"
  le_build :: "string \<Rightarrow> string \<Rightarrow> 'srv \<Rightarrow> 'sub Cluster result"
  le_RFC3339 :: "int \<Rightarrow> string"
  le_localTime :: "int \<Rightarrow> string"

definition snapshotLabel :: "(int \<Rightarrow> string) \<Rightarrow> SnapshotMeta \<Rightarrow> string" where
  "snapshotLabel localTime meta =
    (let ts = localTime (sm_Timestamp meta)
     in if sm_Label meta \<noteq> [] then ''Snapshot: '' @ sm_Label meta @ '' ('' @ ts @ '')''
        else ''Snapshot #'' @ Itoa (sm_ID meta) @ '' ('' @ ts @ '')'')"

text \<open>The slow part, outside the lock.  On an error the servers started so far are closed.\<close>

definition load_build :: "('f, 'srv, 'sub) load_env \<Rightarrow> int \<Rightarrow> ('sub Cluster \<times> Loaded) result" where
  "load_build env sid = (case le_export env sid of
     Err err \<Rightarrow> Err err
   | Ok (meta, rows) \<Rightarrow>
       (case le_fromRows env (map (\<lambda>r. \<lparr>ri_Database = sr_Database r, ri_Table = sr_Table r, ri_UUID = sr_UUID r, ri_Data = sr_Data r\<rparr>) rows) of
          Err err \<Rightarrow> Err (Wrapf ''building snapshot %d: %w'' [AInt sid] err)
        | Ok file \<Rightarrow> (case le_serve env file of
            Err err \<Rightarrow> Err (Wrapf ''serving snapshot %d: %w'' [AInt sid] err)
          | Ok servers \<Rightarrow>
              (let name = clusterName sid; createdAt = le_RFC3339 env (sm_Timestamp meta);
                   label = snapshotLabel (le_localTime env) meta
               in case le_build env name label servers of
                    Err err \<Rightarrow> Err (Wrapf ''building snapshot cluster %d: %w'' [AInt sid] err)
                  | Ok c \<Rightarrow>
                      Ok (c\<lparr>cl_Mode := ''snapshot'',
                            cl_Snapshot := Some \<lparr>cs_SourceID = sid, cs_CreatedAt = createdAt, cs_NBAddr = [], cs_SBAddr = []\<rparr>\<rparr>,
                          \<lparr>ld_Cluster = name, ld_Label = label, ld_Mode = ''snapshot'', ld_SourceID = sid, ld_CreatedAt = createdAt\<rparr>)))))"

text \<open>The second critical section.  The flag tells whether the entry is new; otherwise the build is discarded.\<close>

definition load_commit ::
    "int \<Rightarrow> 'sub Cluster \<Rightarrow> Loaded \<Rightarrow> nat \<Rightarrow> 'sub Manager \<Rightarrow> Loaded \<times> bool \<times> 'sub Manager" where
  "load_commit sid c ld h m = (case map_of (mg_loaded m) sid of
     Some e \<Rightarrow> (en_loaded e, False, m\<lparr>mg_opened := remove1 h (mg_opened m)\<rparr>)
   | None \<Rightarrow>
       (ld, True, m\<lparr>mg_reg := cr_Register (clusterName sid) c (mg_reg m),
                    mg_routes := List.insert (clusterName sid) (mg_routes m),
                    mg_loaded := AList.update sid \<lparr>en_loaded = ld, en_handle = h\<rparr> (mg_loaded m)\<rparr>))"

definition load_return :: "int \<Rightarrow> 'sub Manager \<Rightarrow> 'sub Manager" where
  "load_return sid m = m\<lparr>mg_loading := removeAll sid (mg_loading m)\<rparr>"

section \<open>Unloading, draining, closing\<close>

definition Unload :: "int \<Rightarrow> 'sub Manager \<Rightarrow> error option \<times> 'sub Manager" where
  "Unload sid m = (case map_of (mg_loaded m) sid of
     None \<Rightarrow> (Some ErrNotLoaded, m)
   | Some e \<Rightarrow>
       (None, m\<lparr>mg_loaded := AList.delete sid (mg_loaded m),
                mg_routes := removeAll (clusterName sid) (mg_routes m),
                mg_reg := cr_Unregister (clusterName sid) (mg_reg m),
                mg_pendingDrains := AList.update (mg_drainSeq m) e (mg_pendingDrains m),
                mg_drainSeq := mg_drainSeq m + 1\<rparr>))"

text \<open>The timer of a drain; running it after \<^verbatim>\<open>Close\<close> has flushed the drains does nothing.\<close>

definition drain_fire :: "int \<Rightarrow> 'sub Manager \<Rightarrow> 'sub Manager" where
  "drain_fire seq m = (case map_of (mg_pendingDrains m) seq of
     None \<Rightarrow> m
   | Some e \<Rightarrow> m\<lparr>mg_opened := remove1 (en_handle e) (mg_opened m), mg_pendingDrains := AList.delete seq (mg_pendingDrains m)\<rparr>)"

definition wantSuspended :: "'sub Manager \<Rightarrow> bool" where
  "wantSuspended m = (mg_loaded m \<noteq> [])"

definition closeAll :: "session_entry list \<Rightarrow> nat list \<Rightarrow> nat list" where
  "closeAll es opened = fold (\<lambda>e. remove1 (en_handle e)) es opened"

definition mgr_Close :: "'sub Manager \<Rightarrow> 'sub Manager" where
  "mgr_Close m = m\<lparr>mg_routes := fold (\<lambda>(sid, e). removeAll (clusterName sid)) (mg_loaded m) (mg_routes m),
     mg_reg := fold (\<lambda>(sid, e). cr_Unregister (clusterName sid)) (mg_loaded m) (mg_reg m),
     mg_opened := closeAll (map snd (mg_pendingDrains m)) (closeAll (map snd (mg_loaded m)) (mg_opened m)),
     mg_loaded := [], mg_pendingDrains := []\<rparr>"

section \<open>Interleaved calls\<close>

text \<open>Where a call stands.  \<open>Reconcile\<close> and \<open>Transition\<close> are \<^verbatim>\<open>reconcileLive\<close> before and after it has got the
  lock of the live transitions and read what it has to establish; they carry the snapshot of the \<^verbatim>\<open>Load\<close>
  they belong to, or nothing in an \<^verbatim>\<open>Unload\<close>.\<close>

datatype 'sub thread =
    Building int
  | Built int Loaded "'sub Cluster" nat
  | Reconcile "int option"
  | Transition "int option" bool
  | LoadReturn int

record 'sub system =
  sy_mgr :: "'sub Manager"
  sy_threads :: "'sub thread list"
  sy_live :: bool
  sy_failed :: bool
  sy_next :: nat

fun resume :: "int option \<Rightarrow> 'sub thread list" where
  "resume None = []"
| "resume (Some sid) = [LoadReturn sid]"

fun transitions :: "'sub thread \<Rightarrow> bool list" where
  "transitions (Transition k w) = [w]"
| "transitions _ = []"

abbreviation in_transition :: "'sub thread list \<Rightarrow> bool list" where
  "in_transition ts \<equiv> concat (map transitions ts)"

inductive session_step :: "('f, 'srv, 'sub) load_env set \<Rightarrow> 'sub system \<Rightarrow> 'sub system \<Rightarrow> bool" for E where
  load: "load_reserve sid (sy_mgr s) = (None, m) \<Longrightarrow>
    session_step E s (s\<lparr>sy_mgr := m, sy_threads := Building sid # sy_threads s\<rparr>)"
| build_fails: "sy_threads s = ts @ Building sid # us \<Longrightarrow> env \<in> E \<Longrightarrow> load_build env sid = Err err \<Longrightarrow>
    session_step E s (s\<lparr>sy_threads := ts @ LoadReturn sid # us\<rparr>)"
| build_ends: "sy_threads s = ts @ Building sid # us \<Longrightarrow> env \<in> E \<Longrightarrow> load_build env sid = Ok (c, ld) \<Longrightarrow> m = sy_mgr s \<Longrightarrow>
    session_step E s (s\<lparr>sy_threads := ts @ Built sid ld c (sy_next s) # us, sy_next := Suc (sy_next s),
      sy_mgr := m\<lparr>mg_opened := sy_next s # mg_opened m\<rparr>\<rparr>)"
| commit: "sy_threads s = ts @ Built sid ld c h # us \<Longrightarrow> load_commit sid c ld h (sy_mgr s) = (r, new, m) \<Longrightarrow>
    session_step E s (s\<lparr>sy_mgr := m, sy_threads := ts @ (if new then Reconcile (Some sid) else LoadReturn sid) # us\<rparr>)"
| agrees: "sy_threads s = ts @ Reconcile k # us \<Longrightarrow> in_transition (sy_threads s) = [] \<Longrightarrow>
    wantSuspended (sy_mgr s) = mg_liveSuspended (sy_mgr s) \<Longrightarrow>
    session_step E s (s\<lparr>sy_threads := ts @ resume k @ us\<rparr>)"
| begins: "sy_threads s = ts @ Reconcile k # us \<Longrightarrow> in_transition (sy_threads s) = [] \<Longrightarrow>
    wantSuspended (sy_mgr s) \<noteq> mg_liveSuspended (sy_mgr s) \<Longrightarrow>
    session_step E s (s\<lparr>sy_threads := ts @ Transition k (wantSuspended (sy_mgr s)) # us\<rparr>)"
| succeeds: "sy_threads s = ts @ Transition k w # us \<Longrightarrow> m = sy_mgr s \<Longrightarrow>
    session_step E s (s\<lparr>sy_threads := ts @ resume k @ us, sy_live := w, sy_mgr := m\<lparr>mg_liveSuspended := w\<rparr>\<rparr>)"
| fails: "sy_threads s = ts @ Transition k w # us \<Longrightarrow>
    session_step E s (s\<lparr>sy_threads := ts @ resume k @ us, sy_live := l, sy_failed := True\<rparr>)"
| return: "sy_threads s = ts @ LoadReturn sid # us \<Longrightarrow>
    session_step E s (s\<lparr>sy_threads := ts @ us, sy_mgr := load_return sid (sy_mgr s)\<rparr>)"
| unload: "Unload sid (sy_mgr s) = (None, m) \<Longrightarrow>
    session_step E s (s\<lparr>sy_mgr := m, sy_threads := Reconcile None # sy_threads s\<rparr>)"
| drain: "session_step E s (s\<lparr>sy_mgr := drain_fire seq (sy_mgr s)\<rparr>)"

definition session_start :: "'sub ClusterRegistry \<Rightarrow> int \<Rightarrow> 'sub system" where
  "session_start reg n = \<lparr>sy_mgr = SetMaxLoaded n (NewManager reg), sy_threads = [], sy_live = False, sy_failed = False, sy_next = 0\<rparr>"

inductive session_reach :: "('f, 'srv, 'sub) load_env set \<Rightarrow> 'sub ClusterRegistry \<Rightarrow> int \<Rightarrow> 'sub system \<Rightarrow> bool" for E reg n where
  start: "session_reach E reg n (session_start reg n)"
| step: "session_reach E reg n s \<Longrightarrow> session_step E s s' \<Longrightarrow> session_reach E reg n s'"

section \<open>The bound on loaded snapshots\<close>

fun thread_load :: "'sub thread \<Rightarrow> int list" where
  "thread_load (Building sid) = [sid]"
| "thread_load (Built sid ld c h) = [sid]"
| "thread_load (Reconcile k) = (case k of None \<Rightarrow> [] | Some sid \<Rightarrow> [sid])"
| "thread_load (Transition k w) = (case k of None \<Rightarrow> [] | Some sid \<Rightarrow> [sid])"
| "thread_load (LoadReturn sid) = [sid]"

lemma thread_load_resume [simp]: "concat (map thread_load (resume k)) = (case k of None \<Rightarrow> [] | Some sid \<Rightarrow> [sid])"
  by (cases k) simp_all

text \<open>The reservations are exactly those of the calls under way, and they and the loaded snapshots fit the cap.\<close>

definition bounded_ok :: "'sub system \<Rightarrow> bool" where
  "bounded_ok s = (gomap_ok (mg_loaded (sy_mgr s)) \<and> distinct (mg_loading (sy_mgr s)) \<and>
     mset (mg_loading (sy_mgr s)) = mset (concat (map thread_load (sy_threads s))) \<and>
     int (card (fst ` set (mg_loaded (sy_mgr s)) \<union> set (mg_loading (sy_mgr s)))) \<le> mg_maxLoaded (sy_mgr s))"

lemma load_reserve_bound:
  assumes "load_reserve sid m = (None, m')" "gomap_ok (mg_loaded m)"
  shows "m' = m\<lparr>mg_loading := sid # mg_loading m\<rparr>" "sid \<notin> set (mg_loading m)" "sid \<notin> fst ` set (mg_loaded m)"
    "int (card (fst ` set (mg_loaded m) \<union> set (mg_loading m))) < mg_maxLoaded m"
proof -
  have new: "map_of (mg_loaded m) sid = None" "m' = m\<lparr>mg_loading := sid # mg_loading m\<rparr>" "sid \<notin> set (mg_loading m)"
      "int (length (mg_loaded m)) + int (length (mg_loading m)) < mg_maxLoaded m"
    using assms(1) by (auto simp: load_reserve_def split: option.splits if_splits)
  then show "m' = m\<lparr>mg_loading := sid # mg_loading m\<rparr>" "sid \<notin> set (mg_loading m)" "sid \<notin> fst ` set (mg_loaded m)"
    by (auto simp: map_of_eq_None_iff)
  have "card (fst ` set (mg_loaded m) \<union> set (mg_loading m)) \<le> card (fst ` set (mg_loaded m)) + card (set (mg_loading m))"
    by (rule card_Un_le)
  moreover have "card (fst ` set (mg_loaded m)) \<le> length (mg_loaded m)" by (metis card_length length_map set_map)
  ultimately show "int (card (fst ` set (mg_loaded m) \<union> set (mg_loading m))) < mg_maxLoaded m"
    using new(4) card_length [of "mg_loading m"] by linarith
qed

lemma load_reserve_new: "load_reserve sid m = (None, m') \<Longrightarrow> m' = m\<lparr>mg_loading := sid # mg_loading m\<rparr>"
  by (auto simp: load_reserve_def split: option.splits if_splits)

lemma load_commit_parts:
  assumes "load_commit sid c ld h m = (r, new, m')"
  shows "mg_loading m' = mg_loading m" "mg_maxLoaded m' = mg_maxLoaded m"
    "mg_loaded m' = (if new then AList.update sid \<lparr>en_loaded = ld, en_handle = h\<rparr> (mg_loaded m) else mg_loaded m)"
    "new \<longleftrightarrow> map_of (mg_loaded m) sid = None"
  using assms by (auto simp: load_commit_def simp del: map_of_eq_Some_iff split: option.splits)

lemma Unload_parts:
  assumes "Unload sid m = (None, m')"
  shows "mg_loading m' = mg_loading m" "mg_maxLoaded m' = mg_maxLoaded m" "mg_loaded m' = AList.delete sid (mg_loaded m)"
  using assms by (auto simp: Unload_def split: option.splits)

lemma drain_fire_parts [simp]:
  "mg_loading (drain_fire seq m) = mg_loading m" "mg_maxLoaded (drain_fire seq m) = mg_maxLoaded m"
  "mg_loaded (drain_fire seq m) = mg_loaded m" "mg_liveSuspended (drain_fire seq m) = mg_liveSuspended m"
  by (simp_all add: drain_fire_def split: option.splits)

lemma keys_delete_subset: "fst ` set (AList.delete k m) \<subseteq> fst ` set m"
  by (auto simp: AList.delete_eq)

lemma bounded_step:
  assumes "session_step E s s'" "bounded_ok s"
  shows "bounded_ok s' \<and> mg_maxLoaded (sy_mgr s') = mg_maxLoaded (sy_mgr s)"
  using assms
proof (induction rule: session_step.induct)
  case (load sid s m)
  note r = load_reserve_bound [OF load(1)]
  from load(2) have "gomap_ok (mg_loaded (sy_mgr s))" by (simp add: bounded_ok_def)
  note r = r [OF this]
  have "card (fst ` set (mg_loaded (sy_mgr s)) \<union> insert sid (set (mg_loading (sy_mgr s)))) =
      Suc (card (fst ` set (mg_loaded (sy_mgr s)) \<union> set (mg_loading (sy_mgr s))))"
    using r(2,3) by simp
  with load r show ?case by (simp add: bounded_ok_def)
next
  case (commit s ts sid ld c h us r new m)
  note p = load_commit_parts [OF commit(2)]
  have "sid \<in> set (mg_loading (sy_mgr s))"
    using commit(1,3) by (metis UnI2 bounded_ok_def in_set_conv_decomp list.set_intros(1) map_append concat_append list.map(2)
        concat.simps(2) set_append set_mset_mset thread_load.simps(2) append_Cons)
  then have "fst ` set (mg_loaded m) \<union> set (mg_loading m) = fst ` set (mg_loaded (sy_mgr s)) \<union> set (mg_loading (sy_mgr s))"
    by (auto simp: p dom_update)
  with commit p show ?case by (auto simp: bounded_ok_def)
next
  case (return s ts sid us)
  have "mset (removeAll sid (mg_loading (sy_mgr s))) = mset (concat (map thread_load (ts @ us)))"
    using return by (simp add: bounded_ok_def distinct_remove1_removeAll [symmetric])
  moreover have "card (fst ` set (mg_loaded (sy_mgr s)) \<union> (set (mg_loading (sy_mgr s)) - {sid})) \<le>
      card (fst ` set (mg_loaded (sy_mgr s)) \<union> set (mg_loading (sy_mgr s)))" by (rule card_mono) auto
  ultimately show ?case using return(2) by (simp add: bounded_ok_def load_return_def distinct_removeAll)
next
  case (unload sid s m)
  note p = Unload_parts [OF unload(1)]
  have "card (fst ` set (mg_loaded m) \<union> set (mg_loading m)) \<le>
      card (fst ` set (mg_loaded (sy_mgr s)) \<union> set (mg_loading (sy_mgr s)))"
    unfolding p using keys_delete_subset [of sid "mg_loaded (sy_mgr s)"] by (intro card_mono) auto
  with unload(2) show ?case by (simp add: bounded_ok_def p)
qed (simp_all add: bounded_ok_def)

lemma reach_bounded:
  assumes "session_reach E reg n s"
  shows "bounded_ok s \<and> mg_maxLoaded (sy_mgr s) = (if n > 0 then n else 4)"
  using assms
proof induction
  case start
  show ?case by (simp add: bounded_ok_def session_start_def NewManager_def SetMaxLoaded_def DefaultMaxLoaded_def)
next
  case (step s s')
  with bounded_step [OF step.hyps(2)] show ?case by simp
qed

section \<open>Routing\<close>

lemma Itoa_inject: "Itoa i = Itoa j \<Longrightarrow> i = j"
proof -
  have nat_inj: "itoa_nat a = itoa_nat b \<Longrightarrow> a = b" for a b by (metis digits_val_itoa_nat)
  have minus: "CHR ''-'' # s \<noteq> itoa_nat a" for s a using hd_itoa_nat [of a "CHR ''-''" s] by auto
  show "Itoa i = Itoa j \<Longrightarrow> i = j"
    using minus minus [symmetric] by (auto simp: Itoa_def split: if_splits dest!: nat_inj)
qed

lemma clusterName_inject [simp]: "clusterName i = clusterName j \<longleftrightarrow> i = j"
  by (auto simp: clusterName_def dest: Itoa_inject)

text \<open>Exactly the loaded snapshots are routed to and registered; the other clusters stay as they were.\<close>

definition routing_ok :: "'sub ClusterRegistry \<Rightarrow> 'sub Manager \<Rightarrow> bool" where
  "routing_ok reg m = (cr_ok (mg_reg m) \<and> set (mg_routes m) = clusterName ` fst ` set (mg_loaded m) \<and>
     (\<forall>sid. cr_Get (clusterName sid) (mg_reg m) \<noteq> None \<longleftrightarrow> sid \<in> fst ` set (mg_loaded m)) \<and>
     (\<forall>name. name \<notin> range clusterName \<longrightarrow> cr_Get name (mg_reg m) = cr_Get name reg))"

lemma routing_cong:
  "mg_reg m = mg_reg m' \<Longrightarrow> mg_routes m = mg_routes m' \<Longrightarrow> mg_loaded m = mg_loaded m' \<Longrightarrow> routing_ok reg m = routing_ok reg m'"
  by (simp add: routing_ok_def)

lemma routing_commit:
  assumes "load_commit sid c ld h m = (r, new, m')" "routing_ok reg m"
  shows "routing_ok reg m'"
proof (cases "map_of (mg_loaded m) sid")
  case None
  with assms(1) have "m' = m\<lparr>mg_reg := cr_Register (clusterName sid) c (mg_reg m),
      mg_routes := List.insert (clusterName sid) (mg_routes m),
      mg_loaded := AList.update sid \<lparr>en_loaded = ld, en_handle = h\<rparr> (mg_loaded m)\<rparr>" by (auto simp: load_commit_def)
  with assms(2) show ?thesis by (auto simp: routing_ok_def cr_ok_Register cr_Get_Register dom_update)
next
  case (Some e)
  with assms(1) have "m' = m\<lparr>mg_opened := remove1 h (mg_opened m)\<rparr>" by (auto simp: load_commit_def simp del: map_of_eq_Some_iff)
  with assms(2) show ?thesis by (simp add: routing_ok_def)
qed

lemma routing_unload:
  assumes "Unload sid m = (None, m')" "routing_ok reg m"
  shows "routing_ok reg m'"
proof -
  let ?ids = "fst ` set (mg_loaded m)"
  have del: "fst ` set (AList.delete sid (mg_loaded m)) = ?ids - {sid}" by (auto simp: AList.delete_eq)
  obtain e where m': "m' = m\<lparr>mg_loaded := AList.delete sid (mg_loaded m), mg_routes := removeAll (clusterName sid) (mg_routes m),
      mg_reg := cr_Unregister (clusterName sid) (mg_reg m),
      mg_pendingDrains := AList.update (mg_drainSeq m) e (mg_pendingDrains m), mg_drainSeq := mg_drainSeq m + 1\<rparr>"
    using assms(1) by (auto simp: Unload_def split: option.splits)
  have "clusterName ` ?ids - {clusterName sid} = clusterName ` (?ids - {sid})" by auto
  moreover have "name \<noteq> clusterName sid" if "name \<notin> range clusterName" for name using that by blast
  ultimately show ?thesis using assms(2) unfolding m'
    by (simp add: routing_ok_def cr_ok_Unregister cr_Get_Unregister del)
qed

lemma routing_step:
  assumes "session_step E s s'" "routing_ok reg (sy_mgr s)"
  shows "routing_ok reg (sy_mgr s')"
  using assms
proof (induction rule: session_step.induct)
  case (load sid s m)
  then show ?case by (simp add: load_reserve_new [OF load(1)] routing_ok_def)
next
  case (commit s ts sid ld c h us r new m)
  then show ?case using routing_commit by fastforce
next
  case (unload sid s m)
  then show ?case using routing_unload by fastforce
next
  case (drain s seq)
  then show ?case by (auto simp: drain_fire_def routing_ok_def split: option.splits)
qed (simp_all add: routing_ok_def load_return_def)

section \<open>Resources\<close>

fun thread_handle :: "'sub thread \<Rightarrow> nat list" where
  "thread_handle (Built sid ld c h) = [h]"
| "thread_handle _ = []"

lemma thread_handle_resume [simp]: "concat (map thread_handle (resume k)) = []"
  by (cases k) simp_all

text \<open>The open handles are those of the loaded snapshots, of the drains not yet run and of the builds not yet
  committed, each once.\<close>

definition handles_ok :: "'sub system \<Rightarrow> bool" where
  "handles_ok s = (gomap_ok (mg_loaded (sy_mgr s)) \<and> gomap_ok (mg_pendingDrains (sy_mgr s)) \<and>
     fst ` set (mg_pendingDrains (sy_mgr s)) \<subseteq> {..<mg_drainSeq (sy_mgr s)} \<and>
     distinct (mg_opened (sy_mgr s)) \<and> (\<forall>h \<in> set (mg_opened (sy_mgr s)). h < sy_next s) \<and>
     mset (mg_opened (sy_mgr s)) = mset (map (en_handle \<circ> snd) (mg_loaded (sy_mgr s))) +
       mset (map (en_handle \<circ> snd) (mg_pendingDrains (sy_mgr s))) + mset (concat (map thread_handle (sy_threads s))))"

lemma mset_update_new: "k \<notin> fst ` set m \<Longrightarrow> image_mset (f \<circ> snd) (mset (AList.update k v m)) = add_mset (f v) (image_mset (f \<circ> snd) (mset m))"
  by (induction m) auto

lemma mset_delete:
  "gomap_ok m \<Longrightarrow> map_of m k = Some v \<Longrightarrow> image_mset (f \<circ> snd) (mset m) = add_mset (f v) (image_mset (f \<circ> snd) (mset (AList.delete k m)))"
proof (induction m)
  case (Cons x m)
  show ?case
  proof (cases "fst x = k")
    case True
    with Cons.prems have "k \<notin> fst ` set m" by auto
    then have "AList.delete k m = m" by (simp add: delete_idem)
    with True Cons.prems show ?thesis by (cases x) (auto simp: AList.delete_eq)
  next
    case False
    with Cons show ?thesis by (cases x) (auto simp: AList.delete_eq simp del: map_of_eq_Some_iff)
  qed
qed simp

lemma handles_step:
  assumes "session_step E s s'" "handles_ok s"
  shows "handles_ok s'"
  using assms
proof (induction rule: session_step.induct)
  case (load sid s m)
  then show ?case by (simp add: load_reserve_new [OF load(1)] handles_ok_def)
next
  case (commit s ts sid ld c h us r new m)
  then show ?case
  proof (cases "map_of (mg_loaded (sy_mgr s)) sid")
    case None
    then have "sid \<notin> fst ` set (mg_loaded (sy_mgr s))" by (simp add: map_of_eq_None_iff)
    moreover from None commit(2) have "new" "m = (sy_mgr s)\<lparr>mg_reg := cr_Register (clusterName sid) c (mg_reg (sy_mgr s)),
        mg_routes := List.insert (clusterName sid) (mg_routes (sy_mgr s)),
        mg_loaded := AList.update sid \<lparr>en_loaded = ld, en_handle = h\<rparr> (mg_loaded (sy_mgr s))\<rparr>" by (auto simp: load_commit_def)
    ultimately show ?thesis using commit(1,3) by (simp add: handles_ok_def mset_update_new)
  next
    case (Some e)
    with commit(2) have "\<not> new" "m = (sy_mgr s)\<lparr>mg_opened := remove1 h (mg_opened (sy_mgr s))\<rparr>"
      by (auto simp: load_commit_def simp del: map_of_eq_Some_iff)
    with commit(1,3) show ?thesis by (simp add: handles_ok_def)
  qed
next
  case (unload sid s m)
  then obtain e where e: "map_of (mg_loaded (sy_mgr s)) sid = Some e" by (auto simp: Unload_def split: option.splits)
  have m: "m = (sy_mgr s)\<lparr>mg_loaded := AList.delete sid (mg_loaded (sy_mgr s)),
      mg_routes := removeAll (clusterName sid) (mg_routes (sy_mgr s)), mg_reg := cr_Unregister (clusterName sid) (mg_reg (sy_mgr s)),
      mg_pendingDrains := AList.update (mg_drainSeq (sy_mgr s)) e (mg_pendingDrains (sy_mgr s)),
      mg_drainSeq := mg_drainSeq (sy_mgr s) + 1\<rparr>"
    using unload(1) e by (simp add: Unload_def del: map_of_eq_Some_iff)
  have "fst ` set (mg_pendingDrains (sy_mgr s)) \<subseteq> {..<mg_drainSeq (sy_mgr s)}" using unload(2) by (simp add: handles_ok_def)
  then have "fst ` set (mg_pendingDrains (sy_mgr s)) \<subseteq> {..<mg_drainSeq (sy_mgr s) + 1}"
    "mg_drainSeq (sy_mgr s) \<notin> fst ` set (mg_pendingDrains (sy_mgr s))" by auto
  with unload(2) mset_delete [OF _ e, of en_handle] show ?case
    unfolding m by (simp add: handles_ok_def mset_update_new dom_update)
next
  case (drain s seq)
  show ?case
  proof (cases "map_of (mg_pendingDrains (sy_mgr s)) seq")
    case None
    with drain show ?thesis by (simp add: drain_fire_def)
  next
    case (Some e)
    with drain mset_delete [OF _ Some, of en_handle] keys_delete_subset [of seq "mg_pendingDrains (sy_mgr s)"] show ?thesis
      by (auto simp: drain_fire_def handles_ok_def simp del: map_of_eq_Some_iff dest: notin_set_remove1)
  qed
qed (auto simp: handles_ok_def load_return_def)

lemma reach_handles: "session_reach E reg n s \<Longrightarrow> handles_ok s"
proof (induction rule: session_reach.induct)
  case start
  show ?case by (simp add: handles_ok_def session_start_def NewManager_def SetMaxLoaded_def)
next
  case (step s s')
  then show ?case using handles_step by blast
qed

lemma reach_routing:
  assumes "session_reach E reg n s" "cr_ok reg" "\<And>sid. cr_Get (clusterName sid) reg = None"
  shows "routing_ok reg (sy_mgr s)"
  using assms(1)
proof induction
  case start
  show ?case using assms(2,3) by (simp add: routing_ok_def session_start_def NewManager_def SetMaxLoaded_def)
next
  case (step s s')
  then show ?case using routing_step by blast
qed

section \<open>The live monitors\<close>

fun reconciles :: "'sub thread \<Rightarrow> bool" where
  "reconciles (Reconcile k) = True"
| "reconciles _ = False"

fun aim :: "bool list \<Rightarrow> bool \<Rightarrow> bool" where
  "aim [] current = current"
| "aim (w # ws) current = w"

lemma resume_simps [simp]: "in_transition (resume k) = []" "list_ex reconciles (resume k) = False"
  by (cases k; simp)+

text \<open>At most one transition is under way.  While no call has failed, the recorded state is the real one, and
  unless some call has yet to reconcile, the state aimed at is what the loaded snapshots ask for.\<close>

definition live_ok :: "'sub system \<Rightarrow> bool" where
  "live_ok s = (length (in_transition (sy_threads s)) \<le> 1 \<and>
     (\<not> sy_failed s \<longrightarrow> sy_live s = mg_liveSuspended (sy_mgr s)) \<and>
     (\<not> sy_failed s \<and> \<not> list_ex reconciles (sy_threads s) \<longrightarrow>
       aim (in_transition (sy_threads s)) (mg_liveSuspended (sy_mgr s)) = wantSuspended (sy_mgr s)))"

lemma live_step:
  assumes "session_step E s s'" "live_ok s"
  shows "live_ok s'"
  using assms
proof (induction rule: session_step.induct)
  case (load sid s m)
  then show ?case by (simp add: load_reserve_new [OF load(1)] live_ok_def wantSuspended_def)
next
  case (commit s ts sid ld c h us r new m)
  have "mg_liveSuspended m = mg_liveSuspended (sy_mgr s)" "\<not> new \<Longrightarrow> mg_loaded m = mg_loaded (sy_mgr s)"
    using commit(2) by (auto simp: load_commit_def split: option.splits)
  with commit(1,3) show ?case by (simp add: live_ok_def wantSuspended_def)
next
  case (unload sid s m)
  have "mg_liveSuspended m = mg_liveSuspended (sy_mgr s)" using unload(1) by (auto simp: Unload_def split: option.splits)
  with unload(2) show ?case by (simp add: live_ok_def)
next
  case (return s ts sid us)
  then show ?case by (simp add: live_ok_def load_return_def wantSuspended_def)
next
  case (succeeds s ts k w us m)
  then have "in_transition ts = []" "in_transition us = []" by (auto simp: live_ok_def)
  with succeeds show ?case by (simp add: live_ok_def wantSuspended_def del: concat_eq_Nil_conv)
next
  case (fails s ts k w us l)
  then show ?case by (simp add: live_ok_def del: concat_eq_Nil_conv)
qed (auto simp: live_ok_def wantSuspended_def simp del: concat_eq_Nil_conv)

lemma reach_live: "session_reach E reg n s \<Longrightarrow> live_ok s"
proof (induction rule: session_reach.induct)
  case start
  show ?case by (simp add: live_ok_def session_start_def NewManager_def SetMaxLoaded_def wantSuspended_def)
next
  case (step s s')
  then show ?case using live_step by blast
qed

text \<open>C16. Whatever the interleaving of loads, unloads and drains, the live monitors end up in the right state: when
  no call is under way and no request to the live source has failed, they are suspended exactly if a
  snapshot is loaded.  In particular the live connection is never left dark after the last unload.\<close>

theorem session_live_consistent:
  assumes "session_reach E reg n s" "sy_threads s = []" "\<not> sy_failed s"
  shows "sy_live s \<longleftrightarrow> mg_loaded (sy_mgr s) \<noteq> []"
  using reach_live [OF assms(1)] assms(2,3) by (simp add: live_ok_def wantSuspended_def)

text \<open>C17. Sessions are bounded and accounted for.  In every reachable state the snapshots loaded or being loaded
  are at most the configured cap; exactly the loaded ones are registered and routed to, and the other
  clusters are as at the start; and the servers and clients behind every loaded snapshot are open, none is
  shared, and none stays open that is not loaded, draining or being built.\<close>

theorem session_invariant:
  assumes "session_reach E reg n s" "cr_ok reg" "\<And>sid. cr_Get (clusterName sid) reg = None"
  shows "int (card (fst ` set (mg_loaded (sy_mgr s)) \<union> set (mg_loading (sy_mgr s)))) \<le> (if n > 0 then n else 4) \<and>
    (\<forall>sid. clusterName sid \<in> set (mg_routes (sy_mgr s)) \<longleftrightarrow> map_of (mg_loaded (sy_mgr s)) sid \<noteq> None) \<and>
    (\<forall>sid. cr_Get (clusterName sid) (mg_reg (sy_mgr s)) \<noteq> None \<longleftrightarrow> map_of (mg_loaded (sy_mgr s)) sid \<noteq> None) \<and>
    (\<forall>name. name \<notin> range clusterName \<longrightarrow> cr_Get name (mg_reg (sy_mgr s)) = cr_Get name reg) \<and>
    distinct (mg_opened (sy_mgr s)) \<and>
    mset (mg_opened (sy_mgr s)) = mset (map (en_handle \<circ> snd) (mg_loaded (sy_mgr s))) +
      mset (map (en_handle \<circ> snd) (mg_pendingDrains (sy_mgr s))) + mset (concat (map thread_handle (sy_threads s)))"
proof -
  have keys: "sid \<in> fst ` set m \<longleftrightarrow> map_of m sid \<noteq> None" for sid and m :: "(int, session_entry) gomap"
    by (simp add: map_of_eq_None_iff)
  have "clusterName sid \<in> clusterName ` A \<longleftrightarrow> sid \<in> A" for sid A by auto
  with reach_bounded [OF assms(1)] reach_handles [OF assms(1)] reach_routing [OF assms] show ?thesis
    by (simp add: bounded_ok_def handles_ok_def routing_ok_def keys)
qed

section \<open>A session\<close>

definition sample_load_env :: "(unit, unit, unit) load_env" where
  "sample_load_env = \<lparr>le_export = (\<lambda>i. Ok (\<lparr>sm_ID = i, sm_Timestamp = 0, sm_Trigger = ''manual'', sm_Label = ''before'',
     sm_RowCounts = [], sm_SizeBytes = 0\<rparr>, [])), le_fromRows = (\<lambda>_. Ok ()), le_serve = (\<lambda>_. Ok ()),
     le_build = (\<lambda>name label _. Ok \<lparr>cl_Name = name, cl_Label = label, cl_Mode = [], cl_Snapshot = None, cl_Subsystems = ()\<rparr>),
     le_RFC3339 = (\<lambda>_. ''1970-01-01T00:00:00Z''), le_localTime = (\<lambda>_. ''1970-01-01 00:00'')\<rparr>"

text \<open>Snapshot 1 is loaded by a single call.\<close>

lemma sample_session:
  "\<exists>s. session_reach {sample_load_env} NewClusterRegistry 0 s \<and> sy_threads s = [] \<and> \<not> sy_failed s \<and>
     map fst (mg_loaded (sy_mgr s)) = [1]"
proof -
  let ?E = "{sample_load_env}" and ?reg = "NewClusterRegistry :: unit ClusterRegistry"
  let ?R = "session_reach ?E ?reg 0"
  define s0 where "s0 = session_start ?reg 0"
  have m0: "mg_loaded (sy_mgr s0) = []" "mg_loading (sy_mgr s0) = []" "mg_liveSuspended (sy_mgr s0) = False"
      "mg_maxLoaded (sy_mgr s0) = 4" "sy_threads s0 = []" "\<not> sy_failed s0"
    by (simp_all add: s0_def session_start_def NewManager_def SetMaxLoaded_def DefaultMaxLoaded_def)
  define m1 where "m1 = (sy_mgr s0)\<lparr>mg_loading := [1]\<rparr>"
  define s1 where "s1 = s0\<lparr>sy_mgr := m1, sy_threads := [Building 1]\<rparr>"
  have "load_reserve 1 (sy_mgr s0) = (None, m1)" by (simp add: load_reserve_def m0 m1_def)
  from session_step.load [OF this, of ?E] have "session_step ?E s0 s1" by (simp add: s1_def m0)
  with session_reach.start [of ?E ?reg 0, folded s0_def] have r1: "?R s1" by (rule session_reach.step)
  obtain c ld where b: "load_build sample_load_env 1 = Ok (c, ld)" by (simp add: load_build_def sample_load_env_def)
  define s2 where "s2 = s1\<lparr>sy_threads := [Built 1 ld c (sy_next s1)], sy_next := Suc (sy_next s1),
      sy_mgr := m1\<lparr>mg_opened := sy_next s1 # mg_opened m1\<rparr>\<rparr>"
  have "sy_threads s1 = [] @ Building 1 # []" "m1 = sy_mgr s1" by (simp_all add: s1_def)
  from session_step.build_ends [OF this(1) _ b this(2), of ?E] have "session_step ?E s1 s2" unfolding s2_def append_Nil by blast
  with r1 have r2: "?R s2" by (rule session_reach.step)
  define m2 where "m2 = sy_mgr s2"
  define m3 where "m3 = m2\<lparr>mg_reg := cr_Register (clusterName 1) c (mg_reg m2), mg_routes := List.insert (clusterName 1) (mg_routes m2),
      mg_loaded := AList.update 1 \<lparr>en_loaded = ld, en_handle = sy_next s1\<rparr> (mg_loaded m2)\<rparr>"
  have m2: "mg_loaded m2 = []" "mg_liveSuspended m2 = False" by (simp_all add: m2_def s2_def m1_def m0)
  then have c: "load_commit 1 c ld (sy_next s1) (sy_mgr s2) = (ld, True, m3)"
    by (simp add: load_commit_def m3_def m2_def [symmetric])
  have m3: "mg_loaded m3 = [(1, \<lparr>en_loaded = ld, en_handle = sy_next s1\<rparr>)]" "mg_liveSuspended m3 = False"
    by (simp_all add: m3_def m2)
  define s3 where "s3 = s2\<lparr>sy_mgr := m3, sy_threads := [Reconcile (Some 1)]\<rparr>"
  have "sy_threads s2 = [] @ Built 1 ld c (sy_next s1) # []" by (simp add: s2_def)
  from session_step.commit [OF this c, of ?E] have "session_step ?E s2 s3" by (simp add: s3_def)
  with r2 have r3: "?R s3" by (rule session_reach.step)
  define s4 where "s4 = s3\<lparr>sy_threads := [Transition (Some 1) True]\<rparr>"
  have "wantSuspended m3" by (simp add: wantSuspended_def m3)
  then have "sy_threads s3 = [] @ Reconcile (Some 1) # []" "in_transition (sy_threads s3) = []"
    "wantSuspended (sy_mgr s3) \<noteq> mg_liveSuspended (sy_mgr s3)" "wantSuspended (sy_mgr s3) = True" by (simp_all add: s3_def m3)
  from session_step.begins [OF this(1-3), of ?E, unfolded this(4)] have "session_step ?E s3 s4" unfolding s4_def append_Nil .
  with r3 have r4: "?R s4" by (rule session_reach.step)
  define s5 where "s5 = s4\<lparr>sy_threads := [LoadReturn 1], sy_live := True, sy_mgr := m3\<lparr>mg_liveSuspended := True\<rparr>\<rparr>"
  have "sy_threads s4 = [] @ Transition (Some 1) True # []" "m3 = sy_mgr s4" by (simp_all add: s4_def s3_def)
  from session_step.succeeds [OF this, of ?E] have "session_step ?E s4 s5" unfolding s5_def append_Nil resume.simps append_Cons .
  with r4 have r5: "?R s5" by (rule session_reach.step)
  have "sy_threads s5 = [] @ LoadReturn 1 # []" by (simp add: s5_def)
  from session_step.return [OF this, of ?E] have "session_step ?E s5 (s5\<lparr>sy_threads := [], sy_mgr := load_return 1 (sy_mgr s5)\<rparr>)"
    unfolding append_Nil .
  with r5 have "?R (s5\<lparr>sy_threads := [], sy_mgr := load_return 1 (sy_mgr s5)\<rparr>)" by (rule session_reach.step)
  moreover have "\<not> sy_failed s5" by (simp add: s5_def s4_def s3_def s2_def s1_def m0)
  moreover have "map fst (mg_loaded (sy_mgr s5)) = [1]" by (simp add: s5_def m3)
  ultimately show ?thesis by (intro exI [of _ "s5\<lparr>sy_threads := [], sy_mgr := load_return 1 (sy_mgr s5)\<rparr>"]) (simp add: load_return_def)
qed

theorem session_live_consistent_witness:
  "\<exists>s. session_reach {sample_load_env} NewClusterRegistry 0 s \<and> sy_threads s = [] \<and> sy_live s"
proof -
  obtain s where s: "session_reach {sample_load_env} NewClusterRegistry 0 s" "sy_threads s = []" "\<not> sy_failed s"
    "map fst (mg_loaded (sy_mgr s)) = [1]" using sample_session by (elim exE conjE)
  from session_live_consistent [OF s(1-3)] s(4) have "sy_live s" by auto
  with s(1,2) show ?thesis by blast
qed

theorem session_invariant_witness:
  "\<exists>s. session_reach {sample_load_env} NewClusterRegistry 0 s \<and> cr_Get (clusterName 1) (mg_reg (sy_mgr s)) \<noteq> None"
proof -
  obtain s where s: "session_reach {sample_load_env} NewClusterRegistry 0 s" "map fst (mg_loaded (sy_mgr s)) = [1]"
    using sample_session by (elim exE conjE)
  have "map_of (mg_loaded (sy_mgr s)) 1 \<noteq> None" using s(2) by (cases "mg_loaded (sy_mgr s)") (auto simp: map_of_eq_None_iff)
  moreover have "cr_Get (clusterName i) (NewClusterRegistry :: unit ClusterRegistry) = None" for i
    by (simp add: cr_Get_def NewClusterRegistry_def)
  ultimately have "cr_Get (clusterName 1) (mg_reg (sy_mgr s)) \<noteq> None"
    using session_invariant [OF s(1) cr_ok_new] by metis
  with s(1) show ?thesis by (intro exI conjI)
qed

end
