(* ===== verification/NW_Ring.thy ===== *)
theory NW_Ring
  imports NW_Prelude
begin

text \<open>
  Ring buffers.  Two stores of the program keep their last entries in a preallocated array with a
  start index and a count: \<^verbatim>\<open>internal/flowdiff/store.go\<close> and
  \<^verbatim>\<open>internal/telemetry/propagation_store.go\<close>.  This theory holds the index arithmetic they share,
  for every element type, and the contract \<open>ring_store\<close> both are proved to meet: a bounded
  first-in first-out window over everything ever added, pruned by age from its old end.
\<close>

section \<open>Index arithmetic\<close>

definition ring_items :: "'a list \<Rightarrow> nat \<Rightarrow> nat \<Rightarrow> 'a list" where
  "ring_items buf start cnt = map (\<lambda>i. buf ! ((start + i) mod length buf)) [0..<cnt]"

lemma length_ring_items [simp]: "length (ring_items buf start cnt) = cnt"
  by (simp add: ring_items_def)

lemma ring_items_0 [simp]: "ring_items buf start 0 = []"
  by (simp add: ring_items_def)

lemma ring_index_neq:
  fixes start i j n :: nat
  assumes "i < j" "j < n"
  shows "(start + i) mod n \<noteq> (start + j) mod n"
proof
  assume "(start + i) mod n = (start + j) mod n"
  then have "n dvd (start + j) - (start + i)"
    using assms by (metis add_le_cancel_left less_imp_le mod_eq_dvd_iff_nat)
  then have "n dvd j - i" by simp
  moreover have "0 < j - i" "j - i < n" using assms by auto
  ultimately show False by (meson nat_dvd_not_less)
qed

lemma ring_items_Suc:
  assumes "0 < cnt"
  shows "ring_items buf start cnt =
    buf ! (start mod length buf) # ring_items buf ((start + 1) mod length buf) (cnt - 1)"
proof -
  have "[0..<cnt] = 0 # map Suc [0..<cnt - 1]"
    using assms by (metis Suc_pred' map_Suc_upt upt_conv_Cons)
  moreover have "(Suc start mod n + i) mod n = (start + Suc i) mod n" for i n
    by (metis add_Suc_shift mod_add_left_eq)
  ultimately show ?thesis by (simp add: ring_items_def)
qed

lemma ring_items_drop [ring_rules]:
  "0 < cnt \<Longrightarrow> ring_items buf ((start + 1) mod length buf) (cnt - 1) = tl (ring_items buf start cnt)"
  by (simp add: ring_items_Suc)

lemma ring_items_hd [ring_rules]:
  "0 < cnt \<Longrightarrow> start < length buf \<Longrightarrow> hd (ring_items buf start cnt) = buf ! start"
  by (simp add: ring_items_Suc)

lemma ring_items_write [ring_rules]:
  assumes "cnt < length buf"
  shows "ring_items (buf[(start + cnt) mod length buf := x]) start (Suc cnt) =
    ring_items buf start cnt @ [x]"
proof -
  let ?n = "length buf"
  have "buf[(start + cnt) mod ?n := x] ! ((start + i) mod ?n) = buf ! ((start + i) mod ?n)"
    if "i < cnt" for i
    using ring_index_neq [OF that assms, of start] by (metis nth_list_update_neq)
  moreover have "(start + cnt) mod ?n < ?n"
    using assms by (intro mod_less_divisor) linarith
  ultimately show ?thesis by (simp add: ring_items_def)
qed

lemma ring_items_overwrite [ring_rules]:
  assumes "0 < length buf"
  shows "ring_items (buf[(start + length buf) mod length buf := x])
           ((start + 1) mod length buf) (length buf) =
         tl (ring_items buf start (length buf)) @ [x]"
proof -
  let ?n = "length buf" and ?s = "(start + 1) mod length buf"
  have "start + 1 + (?n - 1) = start + ?n"
    using assms by linarith
  then have pos: "(?s + (?n - 1)) mod ?n = (start + ?n) mod ?n"
    by (metis mod_add_left_eq)
  have "ring_items (buf[(?s + (?n - 1)) mod ?n := x]) ?s (Suc (?n - 1)) =
        ring_items buf ?s (?n - 1) @ [x]"
    by (rule ring_items_write) (use assms in simp)
  moreover have "Suc (?n - 1) = ?n" using assms by simp
  ultimately show ?thesis
    using ring_items_drop [OF assms, of buf start] unfolding pos by metis
qed

text \<open>Both stores write behind the last entry, overwrite the oldest one when full, and then drop entries from
  the front while a test holds: \<open>ring_push\<close> and \<open>ring_prune\<close> on the indices.\<close>

definition ring_ok :: "'a list \<Rightarrow> nat \<Rightarrow> nat \<Rightarrow> bool" where
  "ring_ok buf start cnt = (0 < length buf \<and> start < length buf \<and> cnt \<le> length buf)"

definition ring_push :: "nat \<Rightarrow> nat \<Rightarrow> nat \<Rightarrow> nat \<times> nat" where
  "ring_push n start cnt = (if cnt < n then (start, cnt + 1) else ((start + 1) mod n, cnt))"

fun ring_prune :: "('a \<Rightarrow> bool) \<Rightarrow> 'a list \<Rightarrow> nat \<Rightarrow> nat \<Rightarrow> nat \<times> nat" where
  "ring_prune P buf start 0 = (start, 0)"
| "ring_prune P buf start (Suc n) =
    (if P (buf ! start) then ring_prune P buf ((start + 1) mod length buf) n else (start, Suc n))"

lemma ring_prune_items [ring_rules]:
  assumes "ring_ok buf start cnt" "ring_prune P buf start cnt = (start', cnt')"
  shows "ring_ok buf start' cnt' \<and> ring_items buf start' cnt' = dropWhile P (ring_items buf start cnt)"
  using assms
proof (induction cnt arbitrary: start)
  case (Suc n)
  have items: "ring_items buf start (Suc n) = buf ! start # ring_items buf ((start + 1) mod length buf) n"
    using Suc.prems(1) by (simp add: ring_ok_def ring_items_Suc [of "Suc n"])
  have "ring_ok buf ((start + 1) mod length buf) n" using Suc.prems(1) by (simp add: ring_ok_def)
  with Suc items show ?case by (auto split: if_splits)
qed simp

lemma ring_push_items [ring_rules]:
  assumes "ring_ok buf start cnt" "ring_push (length buf) start cnt = (start', cnt')"
  shows "ring_ok (buf[(start + cnt) mod length buf := x]) start' cnt' \<and>
    ring_items (buf[(start + cnt) mod length buf := x]) start' cnt' =
      (if cnt < length buf then ring_items buf start cnt else tl (ring_items buf start cnt)) @ [x]"
proof (cases "cnt < length buf")
  case True
  then show ?thesis using assms ring_items_write [OF True] by (auto simp: ring_ok_def ring_push_def)
next
  case False
  then have "cnt = length buf" using assms(1) by (simp add: ring_ok_def)
  then show ?thesis
    using assms ring_items_overwrite [of buf start x] by (auto simp: ring_ok_def ring_push_def)
qed

lemma drop_Suc_snoc: "k < length xs \<Longrightarrow> drop (Suc k) (xs @ [x]) = tl (drop k xs) @ [x]"
proof -
  assume "k < length xs"
  moreover have "tl (drop k xs) = drop (Suc k) xs" by (simp add: drop_Suc tl_drop)
  ultimately show ?thesis by simp
qed

lemma window_step:
  assumes "0 < c"
  shows "(if length (drop (length xs - c) xs) < c then drop (length xs - c) xs
          else tl (drop (length xs - c) xs)) @ [x] = drop (Suc (length xs) - c) (xs @ [x])"
proof (cases "length xs < c")
  case True
  then show ?thesis by simp
next
  case False
  then have k: "length xs - c < length xs" "Suc (length xs) - c = Suc (length xs - c)"
    using assms by linarith+
  have "\<not> length (drop (length xs - c) xs) < c" using False by simp
  then show ?thesis unfolding k(2) by (simp only: drop_Suc_snoc [OF k(1)] if_False)
qed

lemma window_split:
  assumes "length (old @ it) \<le> c"
  shows "\<exists>old'. (if length (old @ it) < c then old @ it else tl (old @ it)) = old' @ (if length it < c then it else tl it) \<and>
    set old' \<subseteq> set old"
proof (cases "length (old @ it) < c")
  case True
  then show ?thesis by (intro exI [of _ old]) simp
next
  case False
  with assms show ?thesis by (cases old) (auto intro: exI [of _ "[]"])
qed

section \<open>The contract of a ring store\<close>

text \<open>
  \<open>items\<close> lists the entries oldest first, \<open>cap\<close> is the capacity, \<open>add now x\<close> adds an entry at
  time \<open>now\<close>, \<open>stamp\<close> is the time an entry is aged by and \<open>cutoff s now\<close> the oldest stamp still
  kept (\<open>None\<close> when the store does not age its entries).
\<close>

locale ring_store =
  fixes items :: "'s \<Rightarrow> 'a list"
    and cap :: "'s \<Rightarrow> nat"
    and add :: "int \<Rightarrow> 'a \<Rightarrow> 's \<Rightarrow> 's"
    and stamp :: "'a \<Rightarrow> int"
    and cutoff :: "'s \<Rightarrow> int \<Rightarrow> int option"
    and inv :: "'s \<Rightarrow> bool"
  assumes inv_add: "inv s \<Longrightarrow> inv (add now x s)"
    and cap_add: "inv s \<Longrightarrow> cap (add now x s) = cap s"
    and cutoff_add: "inv s \<Longrightarrow> cutoff (add now x s) = cutoff s"
    and cap_pos: "inv s \<Longrightarrow> 0 < cap s"
    and items_cap: "inv s \<Longrightarrow> length (items s) \<le> cap s"
    and items_add: "inv s \<Longrightarrow> items (add now x s) =
      dropWhile (\<lambda>y. case cutoff s now of None \<Rightarrow> False | Some c \<Rightarrow> stamp y < c)
        ((if length (items s) < cap s then items s else tl (items s)) @ [x])"
begin

lemma inv_run: "inv s \<Longrightarrow> inv (fold (\<lambda>(now, x). add now x) ops s)"
  by (induction ops arbitrary: s) (auto simp: inv_add)

lemma cap_run: "inv s \<Longrightarrow> cap (fold (\<lambda>(now, x). add now x) ops s) = cap s"
  by (induction ops arbitrary: s) (auto simp: inv_add cap_add)

lemma cutoff_run: "inv s \<Longrightarrow> cutoff (fold (\<lambda>(now, x). add now x) ops s) = cutoff s"
  by (induction ops arbitrary: s) (auto simp: inv_add cutoff_add)

lemma items_add_suffix:
  assumes "inv s"
  shows "suffix (items (add now x s)) (items s @ [x])"
proof -
  have "suffix (dropWhile P ((if c then ys else tl ys) @ [x])) (ys @ [x])" for P c ys
    by (cases c; cases ys) (auto simp: suffix_dropWhile intro: suffix_order.trans [OF suffix_dropWhile]
        suffix_ConsI)
  then show ?thesis unfolding items_add [OF assms] .
qed

text \<open>Whatever is stored is the newest part of everything ever added, in the order it was added,
  and never more than the capacity.\<close>

lemma run_suffix:
  assumes "inv s"
  shows "suffix (items (fold (\<lambda>(now, x). add now x) ops s)) (items s @ map snd ops)"
  using assms
proof (induction ops rule: rev_induct)
  case (snoc op ops)
  obtain now x where op: "op = (now, x)" by force
  let ?t = "fold (\<lambda>(now, x). add now x) ops s"
  have "suffix (items (add now x ?t)) (items ?t @ [x])"
    by (rule items_add_suffix) (rule inv_run [OF snoc.prems])
  moreover have "suffix (items ?t @ [x]) ((items s @ map snd ops) @ [x])"
    using snoc by (auto simp: suffix_def)
  ultimately have "suffix (items (add now x ?t)) ((items s @ map snd ops) @ [x])"
    by (rule suffix_order.trans)
  then show ?case by (simp add: op)
qed simp

lemma run_bounded: "inv s \<Longrightarrow> length (items (fold (\<lambda>(now, x). add now x) ops s)) \<le> cap s"
  by (metis cap_run inv_run items_cap)

text \<open>Without ageing the store is exactly the window of the last \<open>cap\<close> entries.\<close>

lemma run_window:
  assumes "inv s" and "\<And>now. cutoff s now = None"
  shows "items (fold (\<lambda>(now, x). add now x) ops s) =
    drop (length (items s) + length ops - cap s) (items s @ map snd ops)"
  using assms
proof (induction ops rule: rev_induct)
  case Nil
  then show ?case using items_cap [OF assms(1)] by simp
next
  case (snoc op ops)
  obtain now x where op: "op = (now, x)" by force
  let ?t = "fold (\<lambda>(now, x). add now x) ops s"
  let ?all = "items s @ map snd ops"
  have t: "items ?t = drop (length ?all - cap s) ?all"
    using snoc by simp
  have inv: "inv ?t" "cap ?t = cap s" "\<And>now. cutoff ?t now = None"
    using snoc.prems by (auto simp: inv_run cap_run cutoff_run)
  have "items (add now x ?t) = (if length (items ?t) < cap s then items ?t else tl (items ?t)) @ [x]"
    by (simp add: items_add inv dropWhile_eq_self_iff)
  also have "\<dots> = drop (Suc (length ?all) - cap s) (?all @ [x])"
    unfolding t by (rule window_step [OF cap_pos [OF snoc.prems(1)]])
  finally show ?case by (simp add: op)
qed

text \<open>With ageing the store may lack entries of that window, but only ones that were too old when they
  were dropped: for a cutoff no earlier than any that was in force, the two are indistinguishable.\<close>

lemma run_aged_window:
  assumes "inv s" "items s = []" and "\<forall>(now, x) \<in> set ops. \<forall>c. cutoff s now = Some c \<longrightarrow> c \<le> C"
  shows "\<exists>old. drop (length ops - cap s) (map snd ops) = old @ items (fold (\<lambda>(now, x). add now x) ops s) \<and>
    (\<forall>y \<in> set old. stamp y < C)"
  using assms(3)
proof (induction ops rule: rev_induct)
  case (snoc op ops)
  obtain now x where op: "op = (now, x)" by force
  let ?t = "fold (\<lambda>(now, x). add now x) ops s" and ?all = "map snd ops"
  let ?w = "drop (length ?all - cap s) ?all"
  let ?P = "\<lambda>y. case cutoff s now of None \<Rightarrow> False | Some c \<Rightarrow> stamp y < c"
  let ?it = "if length (items ?t) < cap s then items ?t else tl (items ?t)"
  have t: "inv ?t" "cap ?t = cap s" "cutoff ?t = cutoff s" using assms(1) by (simp_all add: inv_run cap_run cutoff_run)
  obtain old where old: "?w = old @ items ?t" "\<forall>y \<in> set old. stamp y < C"
    using snoc.IH snoc.prems by auto
  have "length ?w \<le> cap s" by simp
  then obtain old' where w: "(if length ?w < cap s then ?w else tl ?w) = old' @ ?it" "set old' \<subseteq> set old"
    unfolding old(1) using window_split by blast
  have "drop (length (ops @ [op]) - cap s) (map snd (ops @ [op])) = (old' @ ?it) @ [x]"
    using window_step [OF cap_pos [OF assms(1)], of ?all x] w(1) by (simp add: op)
  also have "\<dots> = (old' @ takeWhile ?P (?it @ [x])) @ items (add now x ?t)"
    by (simp add: items_add t)
  finally show ?case
    using old(2) w(2) snoc.prems
    by (intro exI [of _ "old' @ takeWhile ?P (?it @ [x])"])
      (fastforce simp: op split: option.splits dest!: set_takeWhileD)
qed (simp add: assms)

text \<open>After an addition no entry at the old end is older than the cutoff.\<close>

lemma add_fresh:
  assumes "inv s" "cutoff s now = Some c" "items (add now x s) = y # ys"
  shows "c \<le> stamp y"
  using assms hd_dropWhile [of "\<lambda>y. stamp y < c"
      "(if length (items s) < cap s then items s else tl (items s)) @ [x]"]
  by (auto simp: items_add not_less)

end

end
