(* ===== verification/Flow_Diff.thy ===== *)
theory Flow_Diff
  imports NW_Ring Events_Hub
begin

text \<open>
  \<^verbatim>\<open>internal/flowdiff\<close>: the ring buffer of logical flow changes (\<^verbatim>\<open>store.go\<close>) and the collector that fills
  it from the event hub (\<^verbatim>\<open>collector.go\<close>).  Times are Unix milliseconds, \<open>fs_maxAge\<close> is in nanoseconds.  The
  zero change fills the unused slots, as \<^verbatim>\<open>make\<close> does.
\<close>

section \<open>The store\<close>

record FlowChange =
  fl_Timestamp :: int
  fl_Type :: string
  fl_UUID :: string
  fl_OldRow :: row_map
  fl_NewRow :: row_map
  fl_Datapath :: string

record FlowStore =
  fs_buf :: "FlowChange list"
  fs_start :: nat
  fs_count :: nat
  fs_maxSize :: nat
  fs_maxAge :: int

definition zero_change :: FlowChange where
  "zero_change = \<lparr>fl_Timestamp = 0, fl_Type = [], fl_UUID = [], fl_OldRow = [], fl_NewRow = [], fl_Datapath = []\<rparr>"

definition fs_NewStore :: "int \<Rightarrow> int \<Rightarrow> FlowStore" where
  "fs_NewStore maxSize maxAge =
    (let maxSize = (if maxSize < 1 then 1 else maxSize)
     in \<lparr>fs_buf = replicate (nat maxSize) zero_change, fs_start = 0, fs_count = 0,
          fs_maxSize = nat maxSize, fs_maxAge = maxAge\<rparr>)"

definition milliseconds :: "int \<Rightarrow> int" where
  "milliseconds d = d div 1000000"

text \<open>The loop of \<^verbatim>\<open>pruneAgeLocked\<close>; every round lowers the count.\<close>

fun fs_pruneLoop :: "int \<Rightarrow> nat \<Rightarrow> FlowStore \<Rightarrow> FlowStore" where
  "fs_pruneLoop cutoff 0 s = s"
| "fs_pruneLoop cutoff (Suc n) s =
    (if fl_Timestamp (fs_buf s ! fs_start s) < cutoff
     then fs_pruneLoop cutoff n (s\<lparr>fs_start := (fs_start s + 1) mod fs_maxSize s, fs_count := n\<rparr>)
     else s)"

definition fs_pruneAge :: "int \<Rightarrow> FlowStore \<Rightarrow> FlowStore" where
  "fs_pruneAge now s =
    (if fs_maxAge s \<le> 0 then s
     else fs_pruneLoop (now - milliseconds (fs_maxAge s)) (fs_count s) s)"

definition fs_Add :: "int \<Rightarrow> FlowChange \<Rightarrow> FlowStore \<Rightarrow> FlowStore" where
  "fs_Add now change s =
    (let s = s\<lparr>fs_buf := (fs_buf s)[(fs_start s + fs_count s) mod fs_maxSize s := change]\<rparr>;
         s = (if fs_count s < fs_maxSize s then s\<lparr>fs_count := fs_count s + 1\<rparr>
              else s\<lparr>fs_start := (fs_start s + 1) mod fs_maxSize s\<rparr>)
     in fs_pruneAge now s)"

definition fs_Query :: "int \<Rightarrow> string \<Rightarrow> int \<Rightarrow> FlowStore \<Rightarrow> FlowChange list" where
  "fs_Query now datapath since s =
    (let ageCutoff = (if fs_maxAge s > 0 then now - milliseconds (fs_maxAge s) else 0)
     in filter (\<lambda>c. \<not> fl_Timestamp c < ageCutoff \<and> \<not> (since > 0 \<and> fl_Timestamp c < since) \<and>
                    \<not> (datapath \<noteq> [] \<and> fl_Datapath c \<noteq> datapath))
          (map (\<lambda>i. fs_buf s ! ((fs_start s + i) mod fs_maxSize s)) [0..<fs_count s]))"

section \<open>The collector\<close>

definition extractDatapath :: "row_map \<Rightarrow> string" where
  "extractDatapath row = (case map_of row ''logical_datapath'' of
     Some (GStr v) \<Rightarrow> v
   | Some (GPtr (Some (GStr v))) \<Rightarrow> v
   | _ \<Rightarrow> [])"

definition eventToFlowChange :: "Event \<Rightarrow> FlowChange" where
  "eventToFlowChange evt =
    (let dp = extractDatapath (ev_Row evt)
     in \<lparr>fl_Timestamp = ev_Ts evt, fl_Type = EventType_text (ev_Type evt), fl_UUID = ev_UUID evt, fl_OldRow = ev_OldRow evt,
          fl_NewRow = ev_Row evt, fl_Datapath = (if dp = [] then extractDatapath (ev_OldRow evt) else dp)\<rparr>)"

definition collector_filter :: Filter where
  "collector_filter = \<lparr>f_Database = ''sb'', f_Tables = [''Logical_Flow'']\<rparr>"

text \<open>One event taken from the subscription: dropped while paused, recorded otherwise.\<close>

definition collect_event :: "int \<Rightarrow> bool \<Rightarrow> Event \<Rightarrow> FlowStore \<Rightarrow> FlowStore" where
  "collect_event now paused evt s = (if paused then s else fs_Add now (eventToFlowChange evt) s)"

section \<open>The store meets the ring contract\<close>

definition fs_inv :: "FlowStore \<Rightarrow> bool" where
  "fs_inv s = (length (fs_buf s) = fs_maxSize s \<and> ring_ok (fs_buf s) (fs_start s) (fs_count s))"

definition fs_items :: "FlowStore \<Rightarrow> FlowChange list" where
  "fs_items s = ring_items (fs_buf s) (fs_start s) (fs_count s)"

definition fs_cutoff :: "FlowStore \<Rightarrow> int \<Rightarrow> int option" where
  "fs_cutoff s now = (if fs_maxAge s \<le> 0 then None else Some (now - milliseconds (fs_maxAge s)))"

lemma fs_pruneLoop_ring:
  assumes "length (fs_buf s) = fs_maxSize s" "fs_count s = n"
  shows "fs_pruneLoop c n s = (let (start, cnt) = ring_prune (\<lambda>y. fl_Timestamp y < c) (fs_buf s) (fs_start s) n
    in s\<lparr>fs_start := start, fs_count := cnt\<rparr>)"
  using assms by (induction c n s rule: fs_pruneLoop.induct) auto

lemma fs_pruneAge_items:
  assumes "fs_inv s"
  shows "fs_inv (fs_pruneAge now s) \<and> fs_maxSize (fs_pruneAge now s) = fs_maxSize s \<and> fs_maxAge (fs_pruneAge now s) = fs_maxAge s \<and>
    fs_items (fs_pruneAge now s) =
      dropWhile (\<lambda>y. case fs_cutoff s now of None \<Rightarrow> False | Some c \<Rightarrow> fl_Timestamp y < c) (fs_items s)"
  using assms
  by (auto simp: fs_pruneAge_def fs_cutoff_def dropWhile_eq_self_iff fs_inv_def fs_items_def fs_pruneLoop_ring
      split: prod.splits dest: ring_prune_items)

lemma fs_Add_items:
  assumes "fs_inv s"
  shows "fs_inv (fs_Add now x s) \<and> fs_maxSize (fs_Add now x s) = fs_maxSize s \<and> fs_maxAge (fs_Add now x s) = fs_maxAge s \<and>
    fs_items (fs_Add now x s) = dropWhile (\<lambda>y. case fs_cutoff s now of None \<Rightarrow> False | Some c \<Rightarrow> fl_Timestamp y < c)
      ((if length (fs_items s) < fs_maxSize s then fs_items s else tl (fs_items s)) @ [x])"
proof -
  let ?b = "(fs_buf s)[(fs_start s + fs_count s) mod fs_maxSize s := x]"
  obtain st k where push: "ring_push (fs_maxSize s) (fs_start s) (fs_count s) = (st, k)" by force
  let ?s = "s\<lparr>fs_buf := ?b, fs_start := st, fs_count := k\<rparr>"
  have add: "fs_Add now x s = fs_pruneAge now ?s" using push by (auto simp: fs_Add_def ring_push_def split: if_splits)
  have "fs_inv ?s \<and> fs_items ?s = (if length (fs_items s) < fs_maxSize s then fs_items s else tl (fs_items s)) @ [x]"
    using assms push ring_push_items [of "fs_buf s" "fs_start s" "fs_count s" st k x] by (simp add: fs_inv_def fs_items_def)
  moreover have "fs_cutoff ?s now = fs_cutoff s now" by (simp add: fs_cutoff_def)
  ultimately show ?thesis unfolding add using fs_pruneAge_items [of ?s now] by simp
qed

interpretation flow: ring_store fs_items fs_maxSize fs_Add fl_Timestamp fs_cutoff fs_inv
proof unfold_locales
  fix s :: FlowStore and now x
  assume inv: "fs_inv s"
  note add = fs_Add_items [OF inv, of now x]
  show "fs_inv (fs_Add now x s)" "fs_maxSize (fs_Add now x s) = fs_maxSize s" using add by blast+
  show "fs_cutoff (fs_Add now x s) = fs_cutoff s" using add by (simp add: fs_cutoff_def fun_eq_iff)
  show "0 < fs_maxSize s" "length (fs_items s) \<le> fs_maxSize s" using inv by (auto simp: fs_inv_def fs_items_def ring_ok_def)
  show "fs_items (fs_Add now x s) = dropWhile (\<lambda>y. case fs_cutoff s now of None \<Rightarrow> False | Some c \<Rightarrow> fl_Timestamp y < c)
      ((if length (fs_items s) < fs_maxSize s then fs_items s else tl (fs_items s)) @ [x])" using add by blast
qed

lemma fs_Query_items:
  assumes "fs_inv s"
  shows "fs_Query now datapath since s = filter (\<lambda>c. (case fs_cutoff s now of None \<Rightarrow> 0 | Some a \<Rightarrow> a) \<le> fl_Timestamp c \<and>
    (since > 0 \<longrightarrow> since \<le> fl_Timestamp c) \<and> (datapath \<noteq> [] \<longrightarrow> fl_Datapath c = datapath)) (fs_items s)"
  using assms by (auto simp: fs_Query_def fs_items_def fs_inv_def ring_items_def fs_cutoff_def not_less intro!: filter_cong)

text \<open>C39. The flow store refines a plain log: after any sequence of additions, a query returns, in order,
  exactly those of the last \<open>maxSize\<close> changes added that are not older than \<open>maxAge\<close> at the time of the
  query and pass the filters, as if nothing had ever been pruned.\<close>

theorem flow_query_refines_log:
  assumes "\<forall>(t, x) \<in> set ops. t \<le> now"
  shows "fs_Query now datapath since (fold (\<lambda>(t, x). fs_Add t x) ops (fs_NewStore maxSize age)) =
    filter (\<lambda>c. (if age > 0 then now - milliseconds age else 0) \<le> fl_Timestamp c \<and>
      (since > 0 \<longrightarrow> since \<le> fl_Timestamp c) \<and> (datapath \<noteq> [] \<longrightarrow> fl_Datapath c = datapath))
      (drop (length ops - nat (max 1 maxSize)) (map snd ops))"
proof -
  let ?init = "fs_NewStore maxSize age"
  let ?s = "fold (\<lambda>(t, x). fs_Add t x) ops ?init"
  have s0: "fs_inv ?init" "fs_items ?init = []" "fs_maxSize ?init = nat (max 1 maxSize)"
    by (auto simp: fs_inv_def fs_items_def fs_NewStore_def ring_ok_def)
  have cut: "fs_cutoff ?init t = (if age > 0 then Some (t - milliseconds age) else None)" for t
    by (simp add: fs_cutoff_def fs_NewStore_def)
  define C where "C = (if age > 0 then now - milliseconds age else 0)"
  have "\<forall>(t, x) \<in> set ops. \<forall>c. fs_cutoff ?init t = Some c \<longrightarrow> c \<le> C"
    using assms by (auto simp: cut C_def)
  from flow.run_aged_window [OF s0(1,2) this] obtain old where
    old: "drop (length ops - nat (max 1 maxSize)) (map snd ops) = old @ fs_items ?s" "\<forall>y \<in> set old. fl_Timestamp y < C"
    unfolding s0(3) by blast
  have cut': "fs_cutoff ?s now = fs_cutoff ?init now" using flow.cutoff_run [OF s0(1)] by metis
  have "filter (\<lambda>c. C \<le> fl_Timestamp c \<and> Q c) old = []" for Q using old(2) by (auto simp: filter_empty_conv)
  then show ?thesis
    unfolding fs_Query_items [OF flow.inv_run [OF s0(1)]] cut' old(1) C_def [symmetric]
    by (auto simp: cut C_def intro!: filter_cong)
qed

definition sample_changes :: "(int \<times> FlowChange) list" where
  "sample_changes = [(5, zero_change\<lparr>fl_Timestamp := 5\<rparr>), (9, zero_change\<lparr>fl_Timestamp := 9\<rparr>)]"

theorem flow_query_refines_log_witness:
  "fs_Query 9 [] 0 (fold (\<lambda>(t, x). fs_Add t x) sample_changes (fs_NewStore 1 2000000)) = [zero_change\<lparr>fl_Timestamp := 9\<rparr>]"
  by (subst flow_query_refines_log) (simp_all add: sample_changes_def milliseconds_def)

end
