(* ===== verification/Telemetry_Propagation.thy ===== *)
theory Telemetry_Propagation
  imports NW_Ring NW_Rows Events_Hub
begin

text \<open>
  \<^verbatim>\<open>internal/telemetry/propagation_store.go\<close> and \<^verbatim>\<open>propagation_tracker.go\<close>: how long a northbound
  configuration takes to reach every chassis.

  \<^item> The store is a ring buffer with ageing; its summaries are computed over rationals, where the code
    uses \<^verbatim>\<open>float64\<close> (exact for the integers and the small fractions involved, up to \<^verbatim>\<open>math.Round\<close>).
  \<^item> The tracker is a state machine driven by events.  Its handlers hold the mutex, so each is one step;
    listing \<^verbatim>\<open>Chassis_Private\<close> from the cache (\<open>None\<close> when that fails) and the clock are inputs of the step.
\<close>

section \<open>The store\<close>

record PropagationEvent =
  pe_Generation :: int
  pe_NbTimestampMs :: int
  pe_Chassis :: string
  pe_Hostname :: string
  pe_ChassisTimestampMs :: int
  pe_LatencyMs :: int
  pe_RecordedAt :: int

record PropagationStore =
  ps_buf :: "PropagationEvent list"
  ps_start :: nat
  ps_count :: nat
  ps_maxSize :: nat
  ps_maxAge :: int

definition zero_propagation :: PropagationEvent where
  "zero_propagation = \<lparr>pe_Generation = 0, pe_NbTimestampMs = 0, pe_Chassis = [], pe_Hostname = [],
     pe_ChassisTimestampMs = 0, pe_LatencyMs = 0, pe_RecordedAt = 0\<rparr>"

definition NewPropagationStore :: "int \<Rightarrow> int \<Rightarrow> PropagationStore" where
  "NewPropagationStore maxSize maxAge =
    (let maxSize = (if maxSize < 1 then 1 else maxSize)
     in \<lparr>ps_buf = replicate (nat maxSize) zero_propagation, ps_start = 0, ps_count = 0,
          ps_maxSize = nat maxSize, ps_maxAge = maxAge\<rparr>)"

fun ps_pruneLoop :: "int \<Rightarrow> nat \<Rightarrow> PropagationStore \<Rightarrow> PropagationStore" where
  "ps_pruneLoop cutoff 0 s = s"
| "ps_pruneLoop cutoff (Suc n) s =
    (if pe_RecordedAt (ps_buf s ! ps_start s) < cutoff
     then ps_pruneLoop cutoff n (s\<lparr>ps_start := (ps_start s + 1) mod ps_maxSize s, ps_count := n\<rparr>)
     else s)"

definition ps_pruneAge :: "int \<Rightarrow> PropagationStore \<Rightarrow> PropagationStore" where
  "ps_pruneAge now s =
    (if ps_maxAge s \<le> 0 then s else ps_pruneLoop (now - ps_maxAge s div 1000000) (ps_count s) s)"

definition ps_Add :: "int \<Rightarrow> PropagationEvent \<Rightarrow> PropagationStore \<Rightarrow> PropagationStore" where
  "ps_Add now e s =
    (let s = s\<lparr>ps_buf := (ps_buf s)[(ps_start s + ps_count s) mod ps_maxSize s := e]\<rparr>;
         s = (if ps_count s < ps_maxSize s then s\<lparr>ps_count := ps_count s + 1\<rparr>
              else s\<lparr>ps_start := (ps_start s + 1) mod ps_maxSize s\<rparr>)
     in ps_pruneAge now s)"

definition ps_entries :: "PropagationStore \<Rightarrow> PropagationEvent list" where
  "ps_entries s = map (\<lambda>i. ps_buf s ! ((ps_start s + i) mod ps_maxSize s)) [0..<ps_count s]"

definition ps_Query :: "string \<Rightarrow> int \<Rightarrow> PropagationStore \<Rightarrow> PropagationEvent list" where
  "ps_Query chassis since s =
    filter (\<lambda>e. \<not> (since > 0 \<and> pe_RecordedAt e < since) \<and> \<not> (chassis \<noteq> [] \<and> pe_Chassis e \<noteq> chassis)) (ps_entries s)"

section \<open>Summaries\<close>

record ChassisSummary =
  cs_Chassis :: string
  cs_Hostname :: string
  cs_Count :: int
  cs_AvgMs :: rat
  cs_P50Ms :: int
  cs_P95Ms :: int
  cs_P99Ms :: int
  cs_MaxMs :: int
  cs_MinMs :: int

text \<open>\<^verbatim>\<open>ceil(p/100*n) - 1\<close>, clamped to the slice.\<close>

definition percentile :: "int list \<Rightarrow> int \<Rightarrow> int" where
  "percentile xs p =
    (if xs = [] then 0
     else let idx = - ((- (p * int (length xs))) div 100) - 1;
              idx = (if idx < 0 then 0 else idx);
              idx = (if idx \<ge> int (length xs) then int (length xs) - 1 else idx)
          in xs ! nat idx)"

text \<open>\<^verbatim>\<open>math.Round\<close>: half away from zero.\<close>

definition math_Round :: "rat \<Rightarrow> int" where
  "math_Round x = (if x < 0 then - \<lfloor>- x + 1 / 2\<rfloor> else \<lfloor>x + 1 / 2\<rfloor>)"

record chassisData =
  cd_hostname :: string
  cd_latencies :: "int list"

definition groupLatencies :: "int \<Rightarrow> PropagationEvent list \<Rightarrow> (string, chassisData) gomap" where
  "groupLatencies since es = fold (\<lambda>e groups.
     if since > 0 \<and> pe_RecordedAt e < since then groups
     else let d = (case map_of groups (pe_Chassis e) of
                     None \<Rightarrow> \<lparr>cd_hostname = pe_Hostname e, cd_latencies = []\<rparr> | Some d \<Rightarrow> d);
              d = d\<lparr>cd_latencies := cd_latencies d @ [pe_LatencyMs e]\<rparr>;
              d = (if pe_Hostname e \<noteq> [] then d\<lparr>cd_hostname := pe_Hostname e\<rparr> else d)
          in AList.update (pe_Chassis e) d groups) es []"

definition summarize :: "string \<Rightarrow> chassisData \<Rightarrow> ChassisSummary" where
  "summarize name d =
    (let ls = sort_slice (<) (cd_latencies d)
     in \<lparr>cs_Chassis = name, cs_Hostname = cd_hostname d, cs_Count = int (length ls),
          cs_AvgMs = of_int (math_Round (of_int (sum_list ls) / of_int (int (length ls)) * 100)) / 100,
          cs_P50Ms = percentile ls 50, cs_P95Ms = percentile ls 95, cs_P99Ms = percentile ls 99,
          cs_MaxMs = last ls, cs_MinMs = hd ls\<rparr>)"

text \<open>The groups are a Go map; \<open>order\<close> is the order in which they are ranged over.\<close>

definition ps_Summary ::
    "((string, chassisData) gomap \<Rightarrow> (string, chassisData) gomap) \<Rightarrow> int \<Rightarrow> PropagationStore \<Rightarrow> ChassisSummary list" where
  "ps_Summary order since s =
    sort_slice (\<lambda>a b. cs_P95Ms a > cs_P95Ms b)
      (map (\<lambda>(name, d). summarize name d)
        (filter (\<lambda>(name, d). cd_latencies d \<noteq> []) (order (groupLatencies since (ps_entries s)))))"

section \<open>The tracker\<close>

record PropagationTracker =
  pt_store :: PropagationStore
  pt_currentGen :: int
  pt_currentNbTsMs :: int
  pt_chassisLastGen :: "(string, int) gomap"
  pt_hostnames :: "(string, string) gomap"

definition NewPropagationTracker :: "PropagationStore \<Rightarrow> PropagationTracker" where
  "NewPropagationTracker store = \<lparr>pt_store = store, pt_currentGen = 0, pt_currentNbTsMs = 0,
     pt_chassisLastGen = [], pt_hostnames = []\<rparr>"

definition pt_seed ::
    "(int \<times> int) list option \<Rightarrow> (string \<times> string) list option \<Rightarrow> ChassisPrivate list option \<Rightarrow> PropagationTracker \<Rightarrow>
      PropagationTracker" where
  "pt_seed nbGlobals chassisList privates t =
    (let t = (case nbGlobals of Some ((cfg, ts) # _) \<Rightarrow> t\<lparr>pt_currentGen := cfg, pt_currentNbTsMs := ts\<rparr> | _ \<Rightarrow> t);
         t = (case chassisList of None \<Rightarrow> t
              | Some cs \<Rightarrow> t\<lparr>pt_hostnames := fold (\<lambda>(name, host). AList.update name host) cs (pt_hostnames t)\<rparr>)
     in case privates of None \<Rightarrow> t
        | Some ps \<Rightarrow> t\<lparr>pt_chassisLastGen := fold (\<lambda>p. AList.update (cp_Name p) (cp_NbCfg p)) ps (pt_chassisLastGen t)\<rparr>)"

definition intFromRow :: "row_map \<Rightarrow> string \<Rightarrow> int" where
  "intFromRow row key = (case map_of row key of
     Some (GInt n) \<Rightarrow> n | Some (GInt64 n) \<Rightarrow> n | Some (GFloat r) \<Rightarrow> (if r < 0 then - \<lfloor>- r\<rfloor> else \<lfloor>r\<rfloor>) | _ \<Rightarrow> 0)"

definition int64FromRow :: "row_map \<Rightarrow> string \<Rightarrow> int" where
  "int64FromRow row key = (case map_of row key of
     Some (GInt n) \<Rightarrow> n | Some (GInt64 n) \<Rightarrow> n | Some (GFloat r) \<Rightarrow> (if r < 0 then - \<lfloor>- r\<rfloor> else \<lfloor>r\<rfloor>) | _ \<Rightarrow> 0)"

definition stringFromRow :: "row_map \<Rightarrow> string \<Rightarrow> string" where
  "stringFromRow row key = (case map_of row key of Some (GStr s) \<Rightarrow> s | _ \<Rightarrow> [])"

definition hostnameOf :: "PropagationTracker \<Rightarrow> string \<Rightarrow> string" where
  "hostnameOf t name = (case map_of (pt_hostnames t) name of None \<Rightarrow> [] | Some h \<Rightarrow> h)"

definition lastGen :: "PropagationTracker \<Rightarrow> string \<Rightarrow> int" where
  "lastGen t name = tally name (pt_chassisLastGen t)"

text \<open>Marking a chassis as caught up, and recording it when it reported a timestamp.\<close>

definition caughtUp :: "int \<Rightarrow> string \<Rightarrow> int \<Rightarrow> int \<Rightarrow> PropagationTracker \<Rightarrow> PropagationTracker" where
  "caughtUp now name cfg cfgTs t =
    (let t = t\<lparr>pt_chassisLastGen := AList.update name cfg (pt_chassisLastGen t)\<rparr>
     in if cfgTs > 0
        then t\<lparr>pt_store := ps_Add now \<lparr>pe_Generation = pt_currentGen t, pe_NbTimestampMs = pt_currentNbTsMs t,
                 pe_Chassis = name, pe_Hostname = hostnameOf t name, pe_ChassisTimestampMs = cfgTs,
                 pe_LatencyMs = max 0 (cfgTs - pt_currentNbTsMs t), pe_RecordedAt = now\<rparr> (pt_store t)\<rparr>
        else t)"

definition scanPrivates :: "int \<Rightarrow> ChassisPrivate list \<Rightarrow> PropagationTracker \<Rightarrow> PropagationTracker" where
  "scanPrivates now ps t = fold (\<lambda>p t.
     if cp_NbCfg p \<ge> pt_currentGen t \<and> lastGen t (cp_Name p) < pt_currentGen t
     then caughtUp now (cp_Name p) (cp_NbCfg p) (cp_NbCfgTimestamp p) t else t) ps t"

definition handleNBGlobalUpdate :: "int \<Rightarrow> ChassisPrivate list option \<Rightarrow> Event \<Rightarrow> PropagationTracker \<Rightarrow> PropagationTracker" where
  "handleNBGlobalUpdate now privates evt t =
    (let newCfg = intFromRow (ev_Row evt) ''nb_cfg'';
         newTs = int64FromRow (ev_Row evt) ''nb_cfg_timestamp'';
         updated = (if newCfg > pt_currentGen t
                    then Some (t\<lparr>pt_currentGen := newCfg,
                                 pt_currentNbTsMs := (if newTs > pt_currentNbTsMs t then newTs else 0)\<rparr>)
                    else if newCfg = pt_currentGen t \<and> newTs > 0 \<and> (pt_currentNbTsMs t = 0 \<or> newTs > pt_currentNbTsMs t)
                    then Some (t\<lparr>pt_currentNbTsMs := newTs\<rparr>)
                    else None)
     in case updated of
          None \<Rightarrow> t
        | Some t \<Rightarrow>
            if pt_currentNbTsMs t \<le> 0 then t
            else (case privates of None \<Rightarrow> t | Some ps \<Rightarrow> scanPrivates now ps t))"

definition handleChassisPrivateUpdate :: "int \<Rightarrow> Event \<Rightarrow> PropagationTracker \<Rightarrow> PropagationTracker" where
  "handleChassisPrivateUpdate now evt t =
    (let name = stringFromRow (ev_Row evt) ''name'';
         cfg = intFromRow (ev_Row evt) ''nb_cfg'';
         cfgTs = int64FromRow (ev_Row evt) ''nb_cfg_timestamp''
     in if name = [] then t
        else if pt_currentGen t = 0 \<or> cfg < pt_currentGen t then t
        else if lastGen t name \<ge> pt_currentGen t then t
        else if pt_currentNbTsMs t \<le> 0 then t
        else caughtUp now name cfg cfgTs t)"

definition handleChassisEvent :: "Event \<Rightarrow> PropagationTracker \<Rightarrow> PropagationTracker" where
  "handleChassisEvent evt t =
    (let name = stringFromRow (ev_Row evt) ''name''
     in if name = [] then t
        else case ev_Type evt of
            EventDelete \<Rightarrow> t\<lparr>pt_hostnames := AList.delete name (pt_hostnames t),
                             pt_chassisLastGen := AList.delete name (pt_chassisLastGen t)\<rparr>
          | _ \<Rightarrow> t\<lparr>pt_hostnames := AList.update name (stringFromRow (ev_Row evt) ''hostname'') (pt_hostnames t)\<rparr>)"

definition handleEvent :: "int \<Rightarrow> ChassisPrivate list option \<Rightarrow> Event \<Rightarrow> PropagationTracker \<Rightarrow> PropagationTracker" where
  "handleEvent now privates evt t =
    (if ev_Database evt = ''nb'' \<and> ev_Table evt = ''NB_Global'' then handleNBGlobalUpdate now privates evt t
     else if ev_Database evt = ''sb'' \<and> ev_Table evt = ''Chassis_Private'' then handleChassisPrivateUpdate now evt t
     else if ev_Database evt = ''sb'' \<and> ev_Table evt = ''Chassis'' then handleChassisEvent evt t
     else t)"

section \<open>The store meets the ring contract\<close>

definition ps_inv :: "PropagationStore \<Rightarrow> bool" where
  "ps_inv s = (length (ps_buf s) = ps_maxSize s \<and> ring_ok (ps_buf s) (ps_start s) (ps_count s))"

definition ps_items :: "PropagationStore \<Rightarrow> PropagationEvent list" where
  "ps_items s = ring_items (ps_buf s) (ps_start s) (ps_count s)"

definition ps_cutoff :: "PropagationStore \<Rightarrow> int \<Rightarrow> int option" where
  "ps_cutoff s now = (if ps_maxAge s \<le> 0 then None else Some (now - ps_maxAge s div 1000000))"

lemma ps_entries_items: "ps_inv s \<Longrightarrow> ps_entries s = ps_items s"
  by (simp add: ps_inv_def ps_items_def ps_entries_def ring_items_def)

lemma ps_pruneLoop_ring:
  assumes "length (ps_buf s) = ps_maxSize s" "ps_count s = n"
  shows "ps_pruneLoop c n s = (let (start, cnt) = ring_prune (\<lambda>y. pe_RecordedAt y < c) (ps_buf s) (ps_start s) n
    in s\<lparr>ps_start := start, ps_count := cnt\<rparr>)"
  using assms by (induction c n s rule: ps_pruneLoop.induct) auto

lemma ps_pruneAge_items:
  assumes "ps_inv s"
  shows "ps_inv (ps_pruneAge now s) \<and> ps_maxSize (ps_pruneAge now s) = ps_maxSize s \<and> ps_maxAge (ps_pruneAge now s) = ps_maxAge s \<and>
    ps_items (ps_pruneAge now s) =
      dropWhile (\<lambda>y. case ps_cutoff s now of None \<Rightarrow> False | Some c \<Rightarrow> pe_RecordedAt y < c) (ps_items s)"
  using assms
  by (auto simp: ps_pruneAge_def ps_cutoff_def dropWhile_eq_self_iff ps_inv_def ps_items_def ps_pruneLoop_ring
      split: prod.splits dest: ring_prune_items)

lemma ps_Add_items:
  assumes "ps_inv s"
  shows "ps_inv (ps_Add now x s) \<and> ps_maxSize (ps_Add now x s) = ps_maxSize s \<and> ps_maxAge (ps_Add now x s) = ps_maxAge s \<and>
    ps_items (ps_Add now x s) = dropWhile (\<lambda>y. case ps_cutoff s now of None \<Rightarrow> False | Some c \<Rightarrow> pe_RecordedAt y < c)
      ((if length (ps_items s) < ps_maxSize s then ps_items s else tl (ps_items s)) @ [x])"
proof -
  let ?b = "(ps_buf s)[(ps_start s + ps_count s) mod ps_maxSize s := x]"
  obtain st k where push: "ring_push (ps_maxSize s) (ps_start s) (ps_count s) = (st, k)" by force
  let ?s = "s\<lparr>ps_buf := ?b, ps_start := st, ps_count := k\<rparr>"
  have add: "ps_Add now x s = ps_pruneAge now ?s" using push by (auto simp: ps_Add_def ring_push_def split: if_splits)
  have "ps_inv ?s \<and> ps_items ?s = (if length (ps_items s) < ps_maxSize s then ps_items s else tl (ps_items s)) @ [x]"
    using assms push ring_push_items [of "ps_buf s" "ps_start s" "ps_count s" st k x] by (simp add: ps_inv_def ps_items_def)
  moreover have "ps_cutoff ?s now = ps_cutoff s now" by (simp add: ps_cutoff_def)
  ultimately show ?thesis unfolding add using ps_pruneAge_items [of ?s now] by simp
qed

interpretation propagation: ring_store ps_items ps_maxSize ps_Add pe_RecordedAt ps_cutoff ps_inv
proof unfold_locales
  fix s :: PropagationStore and now x
  assume inv: "ps_inv s"
  note add = ps_Add_items [OF inv, of now x]
  show "ps_inv (ps_Add now x s)" "ps_maxSize (ps_Add now x s) = ps_maxSize s" using add by blast+
  show "ps_cutoff (ps_Add now x s) = ps_cutoff s" using add by (simp add: ps_cutoff_def fun_eq_iff)
  show "0 < ps_maxSize s" "length (ps_items s) \<le> ps_maxSize s" using inv by (auto simp: ps_inv_def ps_items_def ring_ok_def)
  show "ps_items (ps_Add now x s) = dropWhile (\<lambda>y. case ps_cutoff s now of None \<Rightarrow> False | Some c \<Rightarrow> pe_RecordedAt y < c)
      ((if length (ps_items s) < ps_maxSize s then ps_items s else tl (ps_items s)) @ [x])" using add by blast
qed

section \<open>Every generation is recorded once per chassis\<close>

definition event_ok :: "PropagationEvent \<Rightarrow> bool" where
  "event_ok e = (0 < pe_NbTimestampMs e \<and> 0 < pe_ChassisTimestampMs e \<and>
     pe_LatencyMs e = max 0 (pe_ChassisTimestampMs e - pe_NbTimestampMs e))"

definition tracker_ok :: "string \<Rightarrow> PropagationTracker \<Rightarrow> bool" where
  "tracker_ok c t =
    (let es = filter (\<lambda>e. pe_Chassis e = c) (ps_items (pt_store t))
     in ps_inv (pt_store t) \<and> list_all event_ok (ps_items (pt_store t)) \<and>
        sorted_wrt (<) (map pe_Generation es) \<and> list_all (\<lambda>e. pe_Generation e \<le> lastGen t c) es)"

lemma lastGen_update [simp]:
  "lastGen (t\<lparr>pt_chassisLastGen := AList.update name cfg m\<rparr>) n = (if n = name then cfg else tally n m)"
  by (simp add: lastGen_def tally_def)

lemma tracker_ok_store:
  assumes ok: "tracker_ok c t" and x: "event_ok x" "pe_Chassis x = c \<Longrightarrow> lastGen t c < pe_Generation x"
    and gen: "\<And>g. g \<le> lastGen t c \<Longrightarrow> g \<le> lastGen t' c" "pe_Chassis x = c \<Longrightarrow> pe_Generation x \<le> lastGen t' c"
    and store: "pt_store t' = ps_Add now x (pt_store t)"
  shows "tracker_ok c t'"
proof -
  have inv: "ps_inv (pt_store t)" using ok by (simp add: tracker_ok_def)
  obtain zs where zs: "ps_items (pt_store t) @ [x] = zs @ ps_items (pt_store t')"
    using propagation.items_add_suffix [OF inv, of now x] unfolding store by (auto simp: suffix_def)
  let ?f = "filter (\<lambda>e. pe_Chassis e = c)"
  have "sorted_wrt (<) (map pe_Generation (?f (ps_items (pt_store t) @ [x])))"
    "list_all (\<lambda>e. pe_Generation e \<le> lastGen t' c) (?f (ps_items (pt_store t) @ [x]))"
    "list_all event_ok (ps_items (pt_store t) @ [x])"
    using ok x gen by (fastforce simp: tracker_ok_def sorted_wrt_append list_all_iff)+
  then show ?thesis
    using propagation.inv_add [OF inv, of now x]
    unfolding zs by (simp add: tracker_ok_def store sorted_wrt_append)
qed

lemma tracker_ok_caughtUp:
  assumes "tracker_ok c t" "lastGen t name < pt_currentGen t" "pt_currentGen t \<le> cfg" "0 < pt_currentNbTsMs t"
  shows "tracker_ok c (caughtUp now name cfg cfgTs t) \<and> pt_currentGen (caughtUp now name cfg cfgTs t) = pt_currentGen t \<and>
    pt_currentNbTsMs (caughtUp now name cfg cfgTs t) = pt_currentNbTsMs t"
proof (cases "cfgTs > 0")
  case True
  have "tracker_ok c (caughtUp now name cfg cfgTs t)"
    by (rule tracker_ok_store [OF assms(1), where now = now and x = "\<lparr>pe_Generation = pt_currentGen t,
          pe_NbTimestampMs = pt_currentNbTsMs t, pe_Chassis = name, pe_Hostname = hostnameOf t name,
          pe_ChassisTimestampMs = cfgTs, pe_LatencyMs = max 0 (cfgTs - pt_currentNbTsMs t), pe_RecordedAt = now\<rparr>"])
      (use True assms in \<open>auto simp: event_ok_def caughtUp_def lastGen_def tally_def hostnameOf_def\<close>)
  with True show ?thesis by (simp add: caughtUp_def)
next
  case False
  with assms show ?thesis
    by (auto simp: caughtUp_def tracker_ok_def list_all_iff lastGen_def tally_def split: option.splits)
qed

lemma tracker_ok_scan:
  assumes "tracker_ok c t" "0 < pt_currentNbTsMs t"
  shows "tracker_ok c (scanPrivates now ps t)"
  using assms
proof (induction ps arbitrary: t)
  case (Cons p ps)
  show ?case
    using Cons.IH [of "caughtUp now (cp_Name p) (cp_NbCfg p) (cp_NbCfgTimestamp p) t"] Cons.IH [of t] Cons.prems
      tracker_ok_caughtUp [of c t "cp_Name p" "cp_NbCfg p" now "cp_NbCfgTimestamp p"]
    by (auto simp: scanPrivates_def)
qed (simp add: scanPrivates_def)

lemma tracker_ok_gen: "tracker_ok c t \<Longrightarrow> tracker_ok c (t\<lparr>pt_currentGen := g, pt_currentNbTsMs := ts\<rparr>)"
  by (simp add: tracker_ok_def lastGen_def)

definition forgets :: "string \<Rightarrow> Event \<Rightarrow> bool" where
  "forgets c evt = (ev_Database evt = ''sb'' \<and> ev_Table evt = ''Chassis'' \<and> ev_Type evt = EventDelete \<and>
     stringFromRow (ev_Row evt) ''name'' = c)"

lemma tracker_ok_NBGlobal: "tracker_ok c t \<Longrightarrow> tracker_ok c (handleNBGlobalUpdate now privates evt t)"
proof -
  assume ok: "tracker_ok c t"
  have 1: "tracker_ok c (t\<lparr>pt_currentGen := g, pt_currentNbTsMs := ts\<rparr>)" "tracker_ok c (t\<lparr>pt_currentNbTsMs := ts\<rparr>)" for g ts
    using tracker_ok_gen [OF ok, where g = g and ts = ts] tracker_ok_gen [OF ok, where g = "pt_currentGen t" and ts = ts]
    by simp_all
  then show ?thesis
    using ok tracker_ok_scan by (auto simp: handleNBGlobalUpdate_def split: option.splits)
qed

lemma tracker_ok_Private: "tracker_ok c t \<Longrightarrow> tracker_ok c (handleChassisPrivateUpdate now evt t)"
  using tracker_ok_caughtUp by (auto simp: handleChassisPrivateUpdate_def)

lemma tracker_ok_Chassis:
  assumes "tracker_ok c t" "ev_Type evt = EventDelete \<Longrightarrow> stringFromRow (ev_Row evt) ''name'' \<noteq> c"
  shows "tracker_ok c (handleChassisEvent evt t)"
  using assms by (auto simp: handleChassisEvent_def tracker_ok_def lastGen_def tally_def split: EventType.splits)

lemma tracker_ok_event: "tracker_ok c t \<Longrightarrow> \<not> forgets c evt \<Longrightarrow> tracker_ok c (handleEvent now privates evt t)"
  using tracker_ok_NBGlobal tracker_ok_Private tracker_ok_Chassis by (auto simp: handleEvent_def forgets_def)

abbreviation tracker_run :: "(int \<times> ChassisPrivate list option \<times> Event) list \<Rightarrow> PropagationTracker \<Rightarrow> PropagationTracker" where
  "tracker_run evs t \<equiv> fold (\<lambda>(now, privates, evt). handleEvent now privates evt) evs t"

text \<open>Propagation times are sound: whatever events the tracker sees after it was seeded, the generations
  recorded for a chassis are strictly increasing, so no generation is recorded twice (unless the chassis
  is deleted in between), and every entry has positive timestamps and the latency between them, never a
  negative one.\<close>

theorem propagation_recorded_once:
  assumes "\<forall>(now, privates, evt) \<in> set evs. \<not> forgets c evt" "c \<noteq> []"
  shows "let es = ps_Query c 0 (pt_store (tracker_run evs
        (pt_seed nbGlobals chassis privates0 (NewPropagationTracker (NewPropagationStore maxSize maxAge)))))
    in sorted_wrt (<) (map pe_Generation es) \<and>
       (\<forall>e \<in> set es. pe_Chassis e = c \<and> 0 < pe_NbTimestampMs e \<and> 0 < pe_ChassisTimestampMs e \<and>
         pe_LatencyMs e = max 0 (pe_ChassisTimestampMs e - pe_NbTimestampMs e))"
proof -
  let ?store = "NewPropagationStore maxSize maxAge"
  let ?seed = "pt_seed nbGlobals chassis privates0 (NewPropagationTracker ?store)"
  have "ps_inv ?store" "ps_items ?store = []"
    by (auto simp: ps_inv_def ps_items_def NewPropagationStore_def ring_ok_def)
  moreover have "pt_store ?seed = ?store"
    by (simp add: pt_seed_def NewPropagationTracker_def split: option.splits list.splits)
  ultimately have "tracker_ok c ?seed" by (simp add: tracker_ok_def)
  with assms(1) have "tracker_ok c (tracker_run evs ?seed)"
  proof (induction evs rule: rev_induct)
    case (snoc ev evs)
    then show ?case by (cases ev) (auto intro: tracker_ok_event)
  qed simp
  then show ?thesis
    using assms(2) by (auto simp: tracker_ok_def ps_Query_def ps_entries_items event_ok_def list_all_iff)
qed

definition sample_nb_event :: Event where
  "sample_nb_event = NewEvent 100 EventUpdate ''nb'' ''NB_Global'' ''g''
     [(''nb_cfg'', GInt 2), (''nb_cfg_timestamp'', GInt 90)] []"

definition sample_seen :: "(int \<times> ChassisPrivate list option \<times> Event) list" where
  "sample_seen = [(100, Some [\<lparr>cp_Name = ''ch1'', cp_NbCfg = 2, cp_NbCfgTimestamp = 95\<rparr>], sample_nb_event)]"

theorem propagation_recorded_once_witness:
  "sorted_wrt (<) (map pe_Generation (ps_Query ''ch1'' 0 (pt_store (tracker_run sample_seen
     (pt_seed None None None (NewPropagationTracker (NewPropagationStore 5 0)))))))"
  using propagation_recorded_once [of sample_seen "''ch1''" None None None 5 0]
  by (simp add: sample_seen_def sample_nb_event_def forgets_def NewEvent_def)

section \<open>Summaries\<close>

lemma percentile_index:
  assumes "xs \<noteq> []" "0 < p" "p \<le> 100"
  obtains i where "percentile xs p = xs ! i" "i < length xs" "100 * int i < p * int (length xs)"
    "p * int (length xs) \<le> 100 * (int i + 1)"
proof -
  let ?n = "int (length xs)"
  let ?idx = "- ((- (p * ?n)) div 100) - 1"
  have n: "0 < ?n" using assms(1) by (cases xs) auto
  then have pn: "0 < p * ?n" using assms(2) by simp
  then have lo: "0 \<le> ?idx" by linarith
  have "p * ?n \<le> 100 * ?n" using assms(3) n by (intro mult_right_mono) auto
  then have hi: "?idx < ?n" by linarith
  have "percentile xs p = xs ! nat ?idx" using assms(1) lo hi by (simp add: percentile_def)
  moreover have "nat ?idx < length xs" using lo hi by linarith
  moreover have "100 * (- ((- k) div 100) - 1) < k \<and> k \<le> 100 * (- ((- k) div 100) - 1 + 1)" for k :: int by presburger
  from this [of "p * ?n"] have "100 * ?idx < p * ?n" "p * ?n \<le> 100 * (?idx + 1)" by blast+
  ultimately show ?thesis using that [of "nat ?idx"] lo by simp
qed

lemma percentile_mono:
  assumes "sorted xs" "xs \<noteq> []" "0 < p" "p \<le> q" "q \<le> 100"
  shows "hd xs \<le> percentile xs p" "percentile xs p \<le> percentile xs q" "percentile xs q \<le> last xs"
proof -
  obtain i where i: "percentile xs p = xs ! i" "i < length xs" "100 * int i < p * int (length xs)"
    "p * int (length xs) \<le> 100 * (int i + 1)" using assms by (auto elim!: percentile_index [of xs p])
  obtain j where j: "percentile xs q = xs ! j" "j < length xs" "100 * int j < q * int (length xs)"
    "q * int (length xs) \<le> 100 * (int j + 1)" using assms by (auto elim!: percentile_index [of xs q])
  have "p * int (length xs) \<le> q * int (length xs)" using assms(4) by (intro mult_right_mono) auto
  then have "100 * int i < 100 * (int j + 1)" using i(3) j(4) by linarith
  then have "i \<le> j" by simp
  then show "percentile xs p \<le> percentile xs q" unfolding i j using assms(1) j(2) sorted_nth_mono by blast
  show "hd xs \<le> percentile xs p" unfolding i hd_conv_nth [OF assms(2)] using assms(1) i(2) by (intro sorted_nth_mono) auto
  show "percentile xs q \<le> last xs" unfolding j last_conv_nth [OF assms(2)] using assms(1) j(2) by (intro sorted_nth_mono) auto
qed

definition in_window :: "int \<Rightarrow> PropagationEvent \<Rightarrow> bool" where
  "in_window since e = (\<not> (since > 0 \<and> pe_RecordedAt e < since))"

definition latencies_of :: "int \<Rightarrow> string \<Rightarrow> PropagationEvent list \<Rightarrow> int list" where
  "latencies_of since c es = map pe_LatencyMs (filter (\<lambda>e. in_window since e \<and> pe_Chassis e = c) es)"

lemma latencies_of_snoc:
  "latencies_of since c (es @ [e]) =
    latencies_of since c es @ (if in_window since e \<and> pe_Chassis e = c then [pe_LatencyMs e] else [])"
  by (simp add: latencies_of_def)

lemma groupLatencies_step:
  assumes "in_window since e"
  obtains d where "groupLatencies since (es @ [e]) = AList.update (pe_Chassis e) d (groupLatencies since es)"
    "cd_latencies d = (case map_of (groupLatencies since es) (pe_Chassis e) of None \<Rightarrow> [] | Some d \<Rightarrow> cd_latencies d) @ [pe_LatencyMs e]"
  using assms by (auto simp: groupLatencies_def in_window_def Let_def split: option.splits if_splits)

lemma groupLatencies_spec:
  "gomap_ok (groupLatencies since es) \<and>
   map_option cd_latencies (map_of (groupLatencies since es) c) =
     (if latencies_of since c es = [] then None else Some (latencies_of since c es))"
proof (induction es rule: rev_induct)
  case (snoc e es)
  show ?case
  proof (cases "in_window since e")
    case True
    then obtain d where d: "groupLatencies since (es @ [e]) = AList.update (pe_Chassis e) d (groupLatencies since es)"
      "cd_latencies d = (case map_of (groupLatencies since es) (pe_Chassis e) of None \<Rightarrow> [] | Some d \<Rightarrow> cd_latencies d) @ [pe_LatencyMs e]"
      by (rule groupLatencies_step)
    have "cd_latencies d = latencies_of since c es @ [pe_LatencyMs e]" if "pe_Chassis e = c"
      using snoc that d(2) by (cases "map_of (groupLatencies since es) c") (simp_all split: if_splits)
    moreover have "map_of (groupLatencies since (es @ [e])) c = map_of (groupLatencies since es) c"
      "latencies_of since c (es @ [e]) = latencies_of since c es" if "pe_Chassis e \<noteq> c"
      using that d(1) by (auto simp: latencies_of_snoc)
    ultimately show ?thesis
      using snoc d(1) True by (cases "pe_Chassis e = c") (simp add: latencies_of_snoc, metis gomap_ok_update)
  next
    case False
    then have "groupLatencies since (es @ [e]) = groupLatencies since es" by (simp add: groupLatencies_def in_window_def)
    with snoc False show ?thesis by (simp add: latencies_of_snoc)
  qed
qed (simp add: groupLatencies_def latencies_of_def)

lemma summarize_ok:
  assumes "cd_latencies d = ls" "ls \<noteq> []"
  shows "cs_Count (summarize c d) = int (length ls) \<and> cs_MinMs (summarize c d) \<in> set ls \<and> cs_MaxMs (summarize c d) \<in> set ls \<and>
    (\<forall>l \<in> set ls. cs_MinMs (summarize c d) \<le> l \<and> l \<le> cs_MaxMs (summarize c d)) \<and>
    cs_MinMs (summarize c d) \<le> cs_P50Ms (summarize c d) \<and> cs_P50Ms (summarize c d) \<le> cs_P95Ms (summarize c d) \<and>
    cs_P95Ms (summarize c d) \<le> cs_P99Ms (summarize c d) \<and> cs_P99Ms (summarize c d) \<le> cs_MaxMs (summarize c d)"
proof -
  let ?xs = "sort_slice (<) ls"
  have xs: "sorted ?xs" "?xs \<noteq> []" "set ?xs = set ls" "length ?xs = length ls"
    using sorted_sort_slice_asc [of "\<lambda>x :: int. x" ls] assms(2) by (simp_all flip: length_greater_0_conv)
  have mm: "\<forall>l \<in> set ?xs. hd ?xs \<le> l \<and> l \<le> last ?xs"
    using xs(1,2) by (metis hd_conv_nth last_conv_nth sorted_iff_nth_mono in_set_conv_nth le0 One_nat_def
        diff_less length_greater_0_conv lessI Suc_pred less_Suc_eq_le)
  note p = percentile_mono [OF xs(1,2), of 50 95] percentile_mono [OF xs(1,2), of 95 99]
  show ?thesis
    using p mm xs hd_in_set [OF xs(2)] last_in_set [OF xs(2)] assms(1) by (simp add: summarize_def)
qed

text \<open>The propagation summary is right: it has exactly one row for every chassis with an entry in the
  requested window, ordered by descending 95th percentile; a row counts the chassis's entries, its
  minimum and maximum are attained and bound all of them, and its percentiles are ordered between the two.\<close>

theorem propagation_summary_spec:
  assumes "\<And>g. mset (order g) = mset g"
  shows "sorted_wrt (\<lambda>a b. cs_P95Ms a \<ge> cs_P95Ms b) (ps_Summary order since s) \<and>
    distinct (map cs_Chassis (ps_Summary order since s)) \<and>
    cs_Chassis ` set (ps_Summary order since s) = pe_Chassis ` {e \<in> set (ps_entries s). in_window since e} \<and>
    (\<forall>r \<in> set (ps_Summary order since s). let ls = latencies_of since (cs_Chassis r) (ps_entries s)
      in cs_Count r = int (length ls) \<and> cs_MinMs r \<in> set ls \<and> cs_MaxMs r \<in> set ls \<and>
         (\<forall>l \<in> set ls. cs_MinMs r \<le> l \<and> l \<le> cs_MaxMs r) \<and>
         cs_MinMs r \<le> cs_P50Ms r \<and> cs_P50Ms r \<le> cs_P95Ms r \<and> cs_P95Ms r \<le> cs_P99Ms r \<and> cs_P99Ms r \<le> cs_MaxMs r)"
proof -
  let ?G = "groupLatencies since (ps_entries s)"
  define L where "L = filter (\<lambda>(name, d). cd_latencies d \<noteq> []) (order ?G)"
  have G: "gomap_ok ?G" "\<And>c. map_option cd_latencies (map_of ?G c) =
     (if latencies_of since c (ps_entries s) = [] then None else Some (latencies_of since c (ps_entries s)))"
    using groupLatencies_spec by blast+
  have ord: "set (order ?G) = set ?G" "gomap_ok (order ?G)"
    using assms [of ?G] G(1) by (metis set_mset_mset, metis mset_map mset_eq_imp_distinct_iff)
  have mem: "(c, d) \<in> set L \<longleftrightarrow> map_of ?G c = Some d" for c d
    using G ord by (auto simp: L_def map_of_eq_Some_iff split: if_splits) (metis map_of_eq_Some_iff option.map(2) option.distinct(1) option.inject)
  have out: "ps_Summary order since s = sort_slice (\<lambda>a b. cs_P95Ms a > cs_P95Ms b) (map (\<lambda>(name, d). summarize name d) L)"
    by (simp add: ps_Summary_def L_def)
  have names: "map cs_Chassis (map (\<lambda>(name, d). summarize name d) L) = map fst L"
    by (auto simp: summarize_def)
  have "distinct (map fst L)" using ord(2) by (simp add: L_def distinct_map_filter)
  then have "distinct (map cs_Chassis (ps_Summary order since s))"
    unfolding out by (metis names mset_map mset_sort_slice mset_eq_imp_distinct_iff)
  moreover have "cs_Chassis ` set (ps_Summary order since s) = pe_Chassis ` {e \<in> set (ps_entries s). in_window since e}"
  proof -
    have "cs_Chassis ` set (ps_Summary order since s) = set (map fst L)"
      unfolding out using names by (metis set_map set_sort_slice)
    also have "\<dots> = {c. map_of ?G c \<noteq> None}" using mem by force
    also have "\<dots> = {c. latencies_of since c (ps_entries s) \<noteq> []}" using G(2) by (metis option.map_disc_iff option.distinct(1))
    also have "\<dots> = pe_Chassis ` {e \<in> set (ps_entries s). in_window since e}" by (auto simp: latencies_of_def filter_empty_conv)
    finally show ?thesis .
  qed
  moreover have "let ls = latencies_of since (cs_Chassis r) (ps_entries s)
      in cs_Count r = int (length ls) \<and> cs_MinMs r \<in> set ls \<and> cs_MaxMs r \<in> set ls \<and>
         (\<forall>l \<in> set ls. cs_MinMs r \<le> l \<and> l \<le> cs_MaxMs r) \<and>
         cs_MinMs r \<le> cs_P50Ms r \<and> cs_P50Ms r \<le> cs_P95Ms r \<and> cs_P95Ms r \<le> cs_P99Ms r \<and> cs_P99Ms r \<le> cs_MaxMs r"
    if r: "r \<in> set (ps_Summary order since s)" for r
  proof -
    from r obtain d where d: "(cs_Chassis r, d) \<in> set L" "r = summarize (cs_Chassis r) d"
      unfolding out by (auto simp: summarize_def)
    then have "cd_latencies d = latencies_of since (cs_Chassis r) (ps_entries s)" "cd_latencies d \<noteq> []"
      using G(2) [of "cs_Chassis r"] unfolding mem by (simp_all split: if_splits)
    then show ?thesis using summarize_ok [of d _ "cs_Chassis r"] d(2) unfolding Let_def by metis
  qed
  moreover have "sorted_wrt (\<lambda>a b. cs_P95Ms a \<ge> cs_P95Ms b) (ps_Summary order since s)"
    unfolding out by (rule sorted_sort_slice_desc)
  ultimately show ?thesis by blast
qed

theorem propagation_summary_spec_witness:
  "distinct (map cs_Chassis (ps_Summary (\<lambda>g. g) 0 (ps_Add 1 zero_propagation (NewPropagationStore 5 0))))"
  using propagation_summary_spec [of "\<lambda>g. g" 0 "ps_Add 1 zero_propagation (NewPropagationStore 5 0)"] by simp

end
