(* ===== verification/Enrich_Cache.thy ===== *)
theory Enrich_Cache
  imports NW_TTL
begin

text \<open>
  \<^verbatim>\<open>internal/enrich/cache.go\<close>: the cache of enrichment results, with a time to live and a bounded number of
  entries.  The type of the results is a parameter (the cache never looks into them), \<open>None\<close> is a nil
  \<^verbatim>\<open>*Info\<close>.  When the cache is full, \<^verbatim>\<open>evictLocked\<close> ranges over a Go map and removes the entries it meets
  first: \<open>order\<close> is the order of that iteration.
\<close>

definition maxCacheEntries :: nat where
  "maxCacheEntries = 10000"

record 'a cacheEntry =
  ce_info :: "'a option"
  ce_expiresAt :: int

record 'a Cache =
  ec_entries :: "(string, 'a cacheEntry) gomap"
  ec_ttl :: int

definition NewCache :: "int \<Rightarrow> 'a Cache" where
  "NewCache ttl = \<lparr>ec_entries = [], ec_ttl = ttl\<rparr>"

definition ec_Get :: "int \<Rightarrow> string \<Rightarrow> 'a Cache \<Rightarrow> 'a option option \<times> 'a Cache" where
  "ec_Get now key c = (case map_of (ec_entries c) key of
     None \<Rightarrow> (None, c)
   | Some entry \<Rightarrow>
       if now > ce_expiresAt entry then (None, c\<lparr>ec_entries := AList.delete key (ec_entries c)\<rparr>)
       else (Some (ce_info entry), c))"

text \<open>The second loop of \<^verbatim>\<open>evictLocked\<close>, over the keys in map order.\<close>

fun evictSome :: "string list \<Rightarrow> (string, 'a cacheEntry) gomap \<Rightarrow> (string, 'a cacheEntry) gomap" where
  "evictSome [] m = m"
| "evictSome (k # ks) m = (if length m < maxCacheEntries then m else evictSome ks (AList.delete k m))"

definition evictLocked :: "(string list \<Rightarrow> string list) \<Rightarrow> int \<Rightarrow> 'a Cache \<Rightarrow> 'a Cache" where
  "evictLocked order now c =
    (let live = filter (\<lambda>(k, e). \<not> now > ce_expiresAt e) (ec_entries c)
     in c\<lparr>ec_entries := evictSome (order (gokeys live)) live\<rparr>)"

definition ec_Set :: "(string list \<Rightarrow> string list) \<Rightarrow> int \<Rightarrow> string \<Rightarrow> 'a option \<Rightarrow> 'a Cache \<Rightarrow> 'a Cache" where
  "ec_Set order now key info c =
    (let c = (if map_of (ec_entries c) key = None \<and> length (ec_entries c) \<ge> maxCacheEntries
              then evictLocked order now c else c)
     in c\<lparr>ec_entries := AList.update key \<lparr>ce_info = info, ce_expiresAt = now + ec_ttl c\<rparr> (ec_entries c)\<rparr>)"

section \<open>The cache meets the contract of an expiring store\<close>

definition ec_inv :: "'a Cache \<Rightarrow> bool" where
  "ec_inv c = (gomap_ok (ec_entries c) \<and> length (ec_entries c) \<le> maxCacheEntries)"

lemma evictSome_sub: "map_of (evictSome ks m) k = Some v \<Longrightarrow> map_of m k = Some v"
  by (induction ks m rule: evictSome.induct) (auto split: if_splits)

lemma evictSome_ok: "gomap_ok m \<Longrightarrow> gomap_ok (evictSome ks m)"
  by (induction ks m rule: evictSome.induct) auto

lemma evictSome_length_le: "length (evictSome ks m) \<le> length m"
  by (induction ks m rule: evictSome.induct) (auto intro: order.trans [OF _ length_delete_le])

text \<open>Ranging over all keys frees a slot.\<close>

lemma evictSome_room:
  assumes "gomap_ok m" "set (gokeys m) \<subseteq> set ks" "length m \<le> maxCacheEntries"
  shows "length (evictSome ks m) < maxCacheEntries"
  using assms
proof (induction ks m rule: evictSome.induct)
  case (2 k ks m)
  show ?case
  proof (cases "length m < maxCacheEntries")
    case False
    show ?thesis
    proof (cases "k \<in> set (gokeys m)")
      case True
      then have "Suc (length (AList.delete k m)) = length m" using 2(2) by (simp add: length_delete_in)
      then have "length (evictSome ks (AList.delete k m)) < maxCacheEntries"
        using evictSome_length_le [of ks "AList.delete k m"] 2(4) by linarith
      with False show ?thesis by simp
    next
      case no: False
      with 2(3) have "set (gokeys m) \<subseteq> set ks" by auto
      moreover have "AList.delete k m = m" using no by simp
      ultimately show ?thesis using 2(1) [OF False] 2(2,4) False by simp
    qed
  qed simp
qed (simp add: maxCacheEntries_def)

lemma evictLocked_ok:
  assumes "ec_inv c" "\<And>ks. set (order ks) = set ks"
  shows "gomap_ok (ec_entries (evictLocked order now c)) \<and> length (ec_entries (evictLocked order now c)) < maxCacheEntries"
proof -
  let ?live = "filter (\<lambda>(k, e). \<not> now > ce_expiresAt e) (ec_entries c)"
  have "length ?live \<le> length (ec_entries c)" by (rule length_filter_le)
  then have "gomap_ok ?live" "length ?live \<le> maxCacheEntries"
    using assms(1) unfolding ec_inv_def by (simp, linarith)
  then show ?thesis
    using assms(2) by (simp add: evictLocked_def evictSome_ok evictSome_room)
qed

lemma evictLocked_sub:
  "map_of (ec_entries (evictLocked order now c)) k = Some e \<Longrightarrow> gomap_ok (ec_entries c) \<Longrightarrow> map_of (ec_entries c) k = Some e"
  using evictSome_sub [of "order (gokeys (filter (\<lambda>(k, e). \<not> now > ce_expiresAt e) (ec_entries c)))"
      "filter (\<lambda>(k, e). \<not> now > ce_expiresAt e) (ec_entries c)" k e]
  by (simp add: evictLocked_def del: map_of_eq_Some_iff) simp

lemma ec_Set_inv:
  assumes "ec_inv c" "\<And>ks. set (order ks) = set ks"
  shows "ec_inv (ec_Set order now key info c)"
proof -
  have grow: "length (AList.update key e m) \<le> maxCacheEntries" if "length m < maxCacheEntries" for e and m :: "(string, 'a cacheEntry) gomap"
    using that length_update_le [of key e m] by linarith
  have keep: "length (AList.update key e (ec_entries c)) \<le> maxCacheEntries" if "map_of (ec_entries c) key \<noteq> None" for e
    using that assms(1) by (simp add: ec_inv_def length_update_old map_of_eq_None_iff)
  show ?thesis
    using assms(1) evictLocked_ok [OF assms, of now] grow keep
    by (auto simp: ec_inv_def ec_Set_def not_le simp del: map_of_eq_Some_iff)
qed

lemma ec_ttl_evict [simp]: "ec_ttl (evictLocked order now c) = ec_ttl c"
  by (simp add: evictLocked_def)

lemma ec_ttl_Set [simp]: "ec_ttl (ec_Set order t k v c) = ec_ttl c"
  by (simp add: ec_Set_def)

lemma ec_Get_Set: "fst (ec_Get t' k (ec_Set order t k v c)) = (if t' \<le> t + ec_ttl c then Some v else None)"
  by (simp add: ec_Get_def ec_Set_def)

lemma ec_Get_Set_other:
  assumes "ec_inv c" "k' \<noteq> k" "fst (ec_Get t' k' (ec_Set order t k v c)) = Some w"
  shows "fst (ec_Get t' k' c) = Some w"
proof -
  obtain e where e: "map_of (ec_entries (ec_Set order t k v c)) k' = Some e" "\<not> t' > ce_expiresAt e" "w = ce_info e"
    using assms(3) by (auto simp: ec_Get_def simp del: map_of_eq_Some_iff split: option.splits if_splits)
  then have "map_of (ec_entries c) k' = Some e"
    using assms(1,2) evictLocked_sub [of order t c k' e]
    by (auto simp: ec_Set_def ec_inv_def simp del: map_of_eq_Some_iff split: if_splits)
  with e show ?thesis by (simp add: ec_Get_def del: map_of_eq_Some_iff)
qed

lemma enrich_ttl:
  assumes "\<And>ks. set (order ks) = set ks"
  shows "ttl_store (ec_Set order) (\<lambda>t k c. fst (ec_Get t k c)) ec_ttl (\<lambda>t c k v. v) ec_inv"
  by unfold_locales (simp_all add: ec_Set_inv [OF _ assms] ec_Get_Set ec_Get_Set_other)

interpretation enrich: ttl_store "ec_Set (\<lambda>ks. ks)" "\<lambda>t k c. fst (ec_Get t k c)" ec_ttl "\<lambda>t c k v. v" ec_inv
  by (rule enrich_ttl) simp

text \<open>The enrichment cache is bounded and never stale: after any sequence of insertions, whichever entries
  evictions pick, it holds at most 10000 entries, and a lookup returns only the value last stored
  under its key, at most the time to live ago.\<close>

theorem enrich_cache_bounded_fresh:
  assumes "\<And>ks. set (order ks) = set ks"
    and c: "c = fold (\<lambda>(t, k, v). ec_Set order t k v) ops (NewCache ttl)"
  shows "length (ec_entries c) \<le> 10000 \<and>
    (\<forall>t' k w. fst (ec_Get t' k c) = Some w \<longrightarrow>
      (\<exists>pre t post. ops = pre @ (t, k, w) # post \<and> k \<notin> (\<lambda>(_, k, _). k) ` set post \<and> t' \<le> t + ttl))"
proof -
  note ttl = enrich_ttl [OF assms(1)]
  have new: "ec_inv (NewCache ttl)" "ec_ttl (NewCache ttl) = ttl" "\<And>t k. fst (ec_Get t k (NewCache ttl)) = None"
    by (simp_all add: ec_inv_def NewCache_def ec_Get_def)
  have "ec_inv c" unfolding c by (rule ttl_store.inv_puts [OF ttl new(1)])
  then have "length (ec_entries c) \<le> 10000" by (simp add: ec_inv_def maxCacheEntries_def)
  moreover have "\<exists>pre t post. ops = pre @ (t, k, w) # post \<and> k \<notin> (\<lambda>(_, k, _). k) ` set post \<and> t' \<le> t + ttl"
    if "fst (ec_Get t' k c) = Some w" for t' k w
    using ttl_store.get_last_put [OF ttl new(1,3) that [unfolded c]] unfolding new(2) by metis
  ultimately show ?thesis by blast
qed

definition sample_sets :: "(int \<times> string \<times> nat option) list" where
  "sample_sets = [(0, ''a'', Some 1), (5, ''a'', Some 2)]"

theorem enrich_cache_bounded_fresh_witness:
  "length (ec_entries (fold (\<lambda>(t, k, v). ec_Set (\<lambda>ks. ks) t k v) sample_sets (NewCache 10))) \<le> 10000 \<and>
   fst (ec_Get 12 ''a'' (fold (\<lambda>(t, k, v). ec_Set (\<lambda>ks. ks) t k v) sample_sets (NewCache 10))) = Some (Some 2)"
proof -
  have "fst (ec_Get 12 ''a'' (fold (\<lambda>(t, k, v). ec_Set (\<lambda>ks. ks) t k v) sample_sets (NewCache 10))) = Some (Some 2)"
    by (simp add: sample_sets_def ec_Set_def ec_Get_def NewCache_def maxCacheEntries_def)
  with enrich_cache_bounded_fresh [of "\<lambda>ks. ks" _ sample_sets 10] show ?thesis by simp
qed

end
