(* ===== verification/Trace_Store.thy ===== *)
theory Trace_Store
  imports NW_TTL
begin

text \<open>
  \<^verbatim>\<open>internal/api/handler/trace_store.go\<close>: recent packet traces, kept for a bounded time and in a bounded
  number.  The store never looks into a \<^verbatim>\<open>TraceResponse\<close>, whose type is a parameter.  \<^verbatim>\<open>evictOldest\<close> ranges
  over a Go map to find the oldest trace; \<open>order\<close> is the order of that iteration, which decides between
  traces of the same age.
\<close>

definition cleanupEvery :: nat where
  "cleanupEvery = 64"

definition maxTraceEntries :: nat where
  "maxTraceEntries = 200"

record 'a StoredTrace =
  st_ID :: string
  st_CreatedAt :: int
  st_Trace :: 'a

record 'a TraceStore =
  ts_traces :: "(string, 'a StoredTrace) gomap"
  ts_maxAge :: int
  ts_storesSince :: nat

definition NewTraceStore :: "int \<Rightarrow> 'a TraceStore" where
  "NewTraceStore maxAge = \<lparr>ts_traces = [], ts_maxAge = maxAge, ts_storesSince = 0\<rparr>"

definition dropExpired :: "int \<Rightarrow> int \<Rightarrow> (string, 'a StoredTrace) gomap \<Rightarrow> (string, 'a StoredTrace) gomap" where
  "dropExpired now maxAge m = filter (\<lambda>(k, v). \<not> now - st_CreatedAt v > maxAge) m"

text \<open>The scan for the oldest trace: the id so far (empty at first) and its time.\<close>

definition oldest :: "(string, 'a StoredTrace) gomap \<Rightarrow> string" where
  "oldest m = fst (fold (\<lambda>(k, v) (oldestID, oldestAt).
     if oldestID = [] \<or> st_CreatedAt v < oldestAt then (k, st_CreatedAt v) else (oldestID, oldestAt)) m ([], 0))"

definition evictOldest ::
    "((string, 'a StoredTrace) gomap \<Rightarrow> (string, 'a StoredTrace) gomap) \<Rightarrow> int \<Rightarrow> 'a TraceStore \<Rightarrow> 'a TraceStore" where
  "evictOldest order now s =
    (if length (ts_traces s) < maxTraceEntries then s
     else let m = dropExpired now (ts_maxAge s) (ts_traces s)
          in if length m < maxTraceEntries then s\<lparr>ts_traces := m\<rparr>
             else s\<lparr>ts_traces := AList.delete (oldest (order m)) m\<rparr>)"

definition ts_Store ::
    "((string, 'a StoredTrace) gomap \<Rightarrow> (string, 'a StoredTrace) gomap) \<Rightarrow> int \<Rightarrow> string \<Rightarrow> 'a \<Rightarrow> 'a TraceStore \<Rightarrow>
      'a TraceStore" where
  "ts_Store order now tid trace s =
    (let s = s\<lparr>ts_storesSince := ts_storesSince s + 1\<rparr>;
         s = (if ts_storesSince s \<ge> cleanupEvery
              then s\<lparr>ts_storesSince := 0, ts_traces := dropExpired now (ts_maxAge s) (ts_traces s)\<rparr> else s);
         s = (if map_of (ts_traces s) tid = None then evictOldest order now s else s)
     in s\<lparr>ts_traces := AList.update tid \<lparr>st_ID = tid, st_CreatedAt = now, st_Trace = trace\<rparr> (ts_traces s)\<rparr>)"

definition ts_Get :: "int \<Rightarrow> string \<Rightarrow> 'a TraceStore \<Rightarrow> 'a StoredTrace option" where
  "ts_Get now tid s = (case map_of (ts_traces s) tid of
     None \<Rightarrow> None
   | Some t \<Rightarrow> if now - st_CreatedAt t > ts_maxAge s then None else Some t)"

definition ts_List :: "int \<Rightarrow> 'a TraceStore \<Rightarrow> 'a StoredTrace list" where
  "ts_List now s = filter (\<lambda>t. now - st_CreatedAt t \<le> ts_maxAge s) (map snd (ts_traces s))"

section \<open>The store meets the contract of an expiring store\<close>

definition ts_inv :: "'a TraceStore \<Rightarrow> bool" where
  "ts_inv s = (gomap_ok (ts_traces s) \<and> length (ts_traces s) \<le> maxTraceEntries)"

lemma fold_choose:
  assumes "\<And>x a. fst (f x a) \<in> {fst a, fst x}"
  shows "fst (fold f xs a) \<in> insert (fst a) (fst ` set xs)"
proof (induction xs arbitrary: a)
  case (Cons x xs)
  from Cons [of "f x a"] assms [of x a] show ?case by auto
qed simp

text \<open>The scan ends on a key of the map.\<close>

lemma oldest_in:
  assumes "m \<noteq> []"
  shows "oldest m \<in> set (gokeys m)"
proof -
  let ?f = "\<lambda>(k, v :: 'a StoredTrace) (oldestID, oldestAt :: int).
     if oldestID = [] \<or> st_CreatedAt v < oldestAt then (k, st_CreatedAt v) else (oldestID, oldestAt)"
  have choose: "fst (?f kv a) \<in> {fst a, fst kv}" for kv a by (auto split: prod.splits)
  obtain k v m' where m: "m = (k, v) # m'" using assms by (cases m) auto
  have "oldest m = fst (fold ?f m' (k, st_CreatedAt v))" by (simp add: oldest_def m)
  then show ?thesis using fold_choose [of ?f m' "(k, st_CreatedAt v)", OF choose] by (simp add: m)
qed

lemma dropExpired_ok: "gomap_ok m \<Longrightarrow> gomap_ok (dropExpired now a m) \<and> length (dropExpired now a m) \<le> length m"
  by (simp add: dropExpired_def)

lemma evictOldest_ok:
  assumes "ts_inv s" "\<And>m :: (string, 'a StoredTrace) gomap. set (order m) = set m"
  shows "gomap_ok (ts_traces (evictOldest order now s)) \<and>
    length (ts_traces (evictOldest order now (s :: 'a TraceStore))) < maxTraceEntries"
proof -
  let ?m = "dropExpired now (ts_maxAge s) (ts_traces s)"
  have m: "gomap_ok ?m" "length ?m \<le> maxTraceEntries"
    using assms(1) dropExpired_ok [of "ts_traces s"] unfolding ts_inv_def by (blast, meson order.trans)
  have "length (AList.delete (oldest (order ?m)) ?m) < maxTraceEntries" if "\<not> length ?m < maxTraceEntries"
  proof -
    have "?m \<noteq> []" using that by (auto simp: maxTraceEntries_def)
    then have "order ?m \<noteq> []" using assms(2) by (metis set_empty)
    then have "oldest (order ?m) \<in> set (gokeys ?m)" using oldest_in [of "order ?m"] assms(2) by auto
    then have "Suc (length (AList.delete (oldest (order ?m)) ?m)) = length ?m" using m(1) by (intro length_delete_in)
    with m(2) show ?thesis by linarith
  qed
  with m assms(1) show ?thesis by (auto simp: evictOldest_def ts_inv_def)
qed

lemma evictOldest_sub:
  assumes "gomap_ok (ts_traces s)" "map_of (ts_traces (evictOldest order now s)) k = Some v"
  shows "map_of (ts_traces s) k = Some v"
  using assms by (auto simp: evictOldest_def dropExpired_def AList.delete_eq split: if_splits)

text \<open>What a store does to the map before it inserts: it only removes entries, and leaves room.\<close>

lemma ts_Store_split:
  assumes "ts_inv s" "\<And>m :: (string, 'a StoredTrace) gomap. set (order m) = set m"
  obtains m where "ts_traces (ts_Store order now tid trace (s :: 'a TraceStore)) =
      AList.update tid \<lparr>st_ID = tid, st_CreatedAt = now, st_Trace = trace\<rparr> m"
    "gomap_ok m" "length (AList.update tid \<lparr>st_ID = tid, st_CreatedAt = now, st_Trace = trace\<rparr> m) \<le> maxTraceEntries"
    "\<And>k v. map_of m k = Some v \<Longrightarrow> map_of (ts_traces s) k = Some v"
proof -
  let ?n = "Suc (ts_storesSince s)"
  define t where "t = (if ?n \<ge> cleanupEvery
    then s\<lparr>ts_storesSince := 0, ts_traces := dropExpired now (ts_maxAge s) (ts_traces s)\<rparr> else s\<lparr>ts_storesSince := ?n\<rparr>)"
  let ?m = "ts_traces (if map_of (ts_traces t) tid = None then evictOldest order now t else t)"
  have t: "ts_inv t" "\<And>k v. map_of (ts_traces t) k = Some v \<Longrightarrow> map_of (ts_traces s) k = Some v"
    using assms(1) dropExpired_ok [of "ts_traces s" now "ts_maxAge s"]
    by (auto simp: t_def ts_inv_def dropExpired_def intro: order.trans [OF length_filter_le] split: if_splits)
  have "ts_traces (ts_Store order now tid trace s) = AList.update tid \<lparr>st_ID = tid, st_CreatedAt = now, st_Trace = trace\<rparr> ?m"
    by (simp add: ts_Store_def t_def)
  moreover have "gomap_ok ?m" using t(1) evictOldest_ok [OF t(1) assms(2)] by (simp add: ts_inv_def)
  moreover have "length (AList.update tid \<lparr>st_ID = tid, st_CreatedAt = now, st_Trace = trace\<rparr> ?m) \<le> maxTraceEntries"
  proof (cases "map_of (ts_traces t) tid = None")
    case True
    then show ?thesis
      using evictOldest_ok [OF t(1) assms(2), of now] length_update_le [of tid _ "ts_traces (evictOldest order now t)"]
      by (simp add: Suc_le_eq) (meson order.trans Suc_leI)
  next
    case False
    then show ?thesis using t(1) by (simp add: ts_inv_def length_update_old map_of_eq_None_iff)
  qed
  moreover have "map_of (ts_traces s) k = Some v" if "map_of ?m k = Some v" for k v
    using that t evictOldest_sub [of t order now k v] by (simp add: ts_inv_def split: if_splits)
  ultimately show ?thesis by (rule that)
qed

lemma ts_maxAge_Store [simp]: "ts_maxAge (ts_Store order now tid trace s) = ts_maxAge s"
  by (simp add: ts_Store_def evictOldest_def)

text \<open>The store as an expiring map from ids to traces; what is put in is stamped with the id and the time.\<close>

lemma trace_ttl:
  assumes "\<And>m :: (string, 'a StoredTrace) gomap. set (order m) = set m"
  shows "ttl_store (\<lambda>t k v. ts_Store order t k (st_Trace v)) ts_Get ts_maxAge
    (\<lambda>t s k v. \<lparr>st_ID = k, st_CreatedAt = t, st_Trace = st_Trace v\<rparr>) (ts_inv :: 'a TraceStore \<Rightarrow> bool)"
proof unfold_locales
  fix s :: "'a TraceStore" and t t' k k' and v w :: "'a StoredTrace"
  assume s: "ts_inv s"
  obtain m where m: "ts_traces (ts_Store order t k (st_Trace v) s) =
      AList.update k \<lparr>st_ID = k, st_CreatedAt = t, st_Trace = st_Trace v\<rparr> m"
    "gomap_ok m" "length (AList.update k \<lparr>st_ID = k, st_CreatedAt = t, st_Trace = st_Trace v\<rparr> m) \<le> maxTraceEntries"
    "\<And>k v. map_of m k = Some v \<Longrightarrow> map_of (ts_traces s) k = Some v"
    by (rule ts_Store_split [OF s assms, where now = t and tid = k and trace = "st_Trace v"]) blast
  show "ts_inv (ts_Store order t k (st_Trace v) s)" using m by (simp add: ts_inv_def)
  show "ts_Get t' k (ts_Store order t k (st_Trace v) s) =
      (if t' \<le> t + ts_maxAge s then Some \<lparr>st_ID = k, st_CreatedAt = t, st_Trace = st_Trace v\<rparr> else None)"
    by (simp add: ts_Get_def m(1))
  show "ts_Get t' k' s = Some w" if "k' \<noteq> k" "ts_Get t' k' (ts_Store order t k (st_Trace v) s) = Some w"
    using that m(4) [of k' w] by (auto simp: ts_Get_def m(1) simp del: map_of_eq_Some_iff split: option.splits if_splits)
qed simp_all

interpretation traces: ttl_store "\<lambda>t k v. ts_Store (\<lambda>m. m) t k (st_Trace v)" ts_Get ts_maxAge
    "\<lambda>t s k v. \<lparr>st_ID = k, st_CreatedAt = t, st_Trace = st_Trace v\<rparr>" ts_inv
  by (rule trace_ttl) simp

text \<open>The trace store bounds what clients can make it keep: after any sequence of stores it holds at most
  200 traces, and a lookup returns only the trace last stored under its id, at most the maximal age ago.\<close>

theorem trace_store_bounded_fresh:
  fixes order :: "(string, 'a StoredTrace) gomap \<Rightarrow> (string, 'a StoredTrace) gomap"
    and ops :: "(int \<times> string \<times> 'a StoredTrace) list"
  assumes "\<And>m. set (order m) = set m"
    and s: "s = fold (\<lambda>(t, k, v). ts_Store order t k (st_Trace v)) ops (NewTraceStore age)"
  shows "length (ts_traces s) \<le> 200 \<and>
    (\<forall>t' k w. ts_Get t' k s = Some w \<longrightarrow>
      (\<exists>pre t v post. ops = pre @ (t, k, v) # post \<and> k \<notin> (\<lambda>(_, k, _). k) ` set post \<and>
        w = \<lparr>st_ID = k, st_CreatedAt = t, st_Trace = st_Trace v\<rparr> \<and> t' \<le> t + age))"
proof -
  note ttl = trace_ttl [where order = order, OF assms(1)]
  have new: "ts_inv (NewTraceStore age)" "ts_maxAge (NewTraceStore age) = age" "\<And>t k. ts_Get t k (NewTraceStore age) = None"
    by (simp_all add: ts_inv_def NewTraceStore_def ts_Get_def)
  have "ts_inv s" unfolding s by (rule ttl_store.inv_puts [OF ttl new(1)])
  then have "length (ts_traces s) \<le> 200" by (simp add: ts_inv_def maxTraceEntries_def)
  moreover have "\<exists>pre t v post. ops = pre @ (t, k, v) # post \<and> k \<notin> (\<lambda>(_, k, _). k) ` set post \<and>
        w = \<lparr>st_ID = k, st_CreatedAt = t, st_Trace = st_Trace v\<rparr> \<and> t' \<le> t + age"
    if "ts_Get t' k s = Some w" for t' k w
    using ttl_store.get_last_put [OF ttl new(1,3) that [unfolded s]] unfolding new(2) by metis
  ultimately show ?thesis by blast
qed

definition sample_traces :: "(int \<times> string \<times> nat StoredTrace) list" where
  "sample_traces = [(0, ''a'', \<lparr>st_ID = ''a'', st_CreatedAt = 0, st_Trace = 7\<rparr>)]"

theorem trace_store_bounded_fresh_witness:
  "length (ts_traces (fold (\<lambda>(t, k, v). ts_Store (\<lambda>m. m) t k (st_Trace v)) sample_traces (NewTraceStore 10))) \<le> 200"
  using trace_store_bounded_fresh [where order = "\<lambda>m. m" and ops = sample_traces and age = 10] by simp

end
