(* ===== verification/NW_Severity.thy ===== *)
theory NW_Severity
  imports NW_Prelude
begin

text \<open>
  \<^verbatim>\<open>internal/severity\<close>: the three severities the diagnostics share, with the order in which reports list them and the
  way a report's overall severity grows with each check.
\<close>

datatype StatusSeverity = SevHealthy | SevWarning | SevError

definition severityOrder :: "StatusSeverity \<Rightarrow> int" where
  "severityOrder s = (case s of SevError \<Rightarrow> 0 | SevWarning \<Rightarrow> 1 | SevHealthy \<Rightarrow> 2)"

text \<open>The overall severity after a check: errors stick, and a warning is kept until an error.\<close>

definition raise_to :: "StatusSeverity \<Rightarrow> StatusSeverity \<Rightarrow> StatusSeverity" where
  "raise_to s overall = (if s = SevError \<or> overall = SevError then SevError
     else if s = SevWarning \<or> overall = SevWarning then SevWarning else SevHealthy)"

lemma raise_to_fold:
  "fold raise_to ss overall = (if SevError \<in> set (overall # ss) then SevError
     else if SevWarning \<in> set (overall # ss) then SevWarning else SevHealthy)"
  by (induction ss arbitrary: overall) (auto simp: raise_to_def intro: StatusSeverity.exhaust)

lemma severityOrder_raise: "severityOrder (raise_to s overall) = min (severityOrder s) (severityOrder overall)"
  by (cases s; cases overall) (simp_all add: raise_to_def severityOrder_def)

lemma count_severities:
  "length (filter (\<lambda>x. f x = SevHealthy) xs) + length (filter (\<lambda>x. f x = SevWarning) xs)
     + length (filter (\<lambda>x. f x = SevError) xs) = length xs"
proof (induction xs)
  case (Cons x xs)
  then show ?case by (cases "f x") simp_all
qed simp

end
