(* ===== verification/Gateway_Analyzer.thy ===== *)
theory Gateway_Analyzer
  imports Inventory_Liveness NW_GoValues NW_Strings NW_Severity
begin

text \<open>
  \<^verbatim>\<open>internal/gateway/analyzer.go\<close>: for every distributed gateway port, whether the chassis that serves it is the
  one the election should have chosen.

  \<^item> What the listings of the two databases return is a record \<open>gw_view\<close>; each may fail.
  \<^item> Statuses and severities are datatypes; the status not yet set is \<open>GwUnset\<close>, the empty string of the code.
  \<^item> \<^verbatim>\<open>chassisState\<close> reads the clock (\<open>ms\<close>, in milliseconds), \<^verbatim>\<open>Analyze\<close> reads the clock of its cache (\<open>now\<close>).
\<close>

section \<open>Rows\<close>

record GwPortBinding = PortBinding +
  gb_UUID :: string
  gb_HaChassisGroup :: "string option"
  gb_GatewayChassis :: "string list"

record GwChassis = SBChassis +
  gx_OtherConfig :: "(string, string) gomap"
  gx_ExternalIDs :: "(string, string) gomap"

record SBGatewayChassis =
  sgc_UUID :: string
  sgc_Chassis :: "string option"
  sgc_Priority :: int

record NBRouterPort =
  nrp_UUID :: string
  nrp_Name :: string
  nrp_Networks :: "string list"

record NBNat =
  nn_UUID :: string
  nn_ExternalIP :: string

record NBRouter =
  nr_UUID :: string
  nr_Name :: string
  nr_Ports :: "string list"
  nr_Nat :: "string list"

section \<open>Results\<close>

datatype GwStatus = GwUnset | StatusOK | StatusUnmanaged | StatusDegraded | StatusFailoverStuck | StatusNoOwner | StatusNoCandidate

record GwCheck =
  gk_Name :: string
  gk_Status :: StatusSeverity
  gk_Message :: "string \<times> arg list"

record Member =
  gm_ChassisUUID :: string
  gm_Name :: string
  gm_Hostname :: string
  gm_Priority :: int
  gm_Present :: bool
  gm_Stale :: bool
  gm_GatewayCapable :: bool
  gm_Alive :: bool
  gm_Active :: bool
  gm_Desired :: bool

record Gateway =
  gw_CRPort :: string
  gw_PortBindingUUID :: string
  gw_LRPName :: string
  gw_RouterUUID :: string
  gw_RouterName :: string
  gw_HAGroupUUID :: string
  gw_HAGroupName :: string
  gw_ExternalNetworks :: "string list"
  gw_ServedIPs :: "string list"
  gw_DesiredChassis :: string
  gw_ActualChassis :: string
  gw_Members :: "Member list"
  gw_Status :: GwStatus
  gw_Overall :: StatusSeverity
  gw_Checks :: "GwCheck list"

record Conflict =
  cf_ExternalIP :: string
  cf_Chassis :: "string list"
  cf_CRPorts :: "string list"

record GwReport =
  gr_Total :: int
  gr_Healthy :: int
  gr_Warning :: int
  gr_Error :: int
  gr_Gateways :: "Gateway list"
  gr_Conflicts :: "Conflict list"

record gw_index =
  ix_chassis :: "(string, GwChassis) gomap"
  ix_haChassis :: "(string, SBHAChassis) gomap"
  ix_haGroups :: "(string, SBHAChassisGroup) gomap"
  ix_gwChassis :: "(string, SBGatewayChassis) gomap"
  ix_lrpByName :: "(string, NBRouterPort) gomap"
  ix_routerByLRP :: "(string, NBRouter) gomap"
  ix_natsByRouter :: "(string, NBNat list) gomap"
  ix_sbNbCfg :: int
  ix_privates :: "(string, ChassisPrivate) gomap"

record gw_view =
  vw_bindings :: "GwPortBinding list result"
  vw_chassis :: "GwChassis list result"
  vw_haChassis :: "SBHAChassis list result"
  vw_haGroups :: "SBHAChassisGroup list result"
  vw_gwChassis :: "SBGatewayChassis list result"
  vw_lrps :: "NBRouterPort list result"
  vw_nats :: "NBNat list result"
  vw_routers :: "NBRouter list result"
  vw_sbGlobals :: "int list result"
  vw_privates :: "ChassisPrivate list result"

section \<open>The index\<close>

definition bindResult :: "'a result \<Rightarrow> string \<Rightarrow> ('a \<Rightarrow> 'b result) \<Rightarrow> 'b result" where
  "bindResult r msg f = (case r of Err err \<Rightarrow> Err (Wrapf msg [] err) | Ok x \<Rightarrow> f x)"

definition routerByLRP :: "NBRouter list \<Rightarrow> (string, NBRouter) gomap" where
  "routerByLRP routers = fold (\<lambda>lr m. fold (\<lambda>p. AList.update p lr) (nr_Ports lr) m) routers []"

definition natsByRouter :: "(string, NBNat) gomap \<Rightarrow> NBRouter list \<Rightarrow> (string, NBNat list) gomap" where
  "natsByRouter natsByUUID routers = fold (\<lambda>lr m. fold (\<lambda>u m. case map_of natsByUUID u of
       None \<Rightarrow> m
     | Some n \<Rightarrow> AList.update (nr_UUID lr) ((case map_of m (nr_UUID lr) of None \<Rightarrow> [] | Some ns \<Rightarrow> ns) @ [n]) m)
     (nr_Nat lr) m) routers []"

definition buildIndex :: "gw_view \<Rightarrow> gw_index result" where
  "buildIndex v =
    bindResult (vw_chassis v) ''listing chassis: %w'' (\<lambda>cs.
    bindResult (vw_haChassis v) ''listing ha_chassis: %w'' (\<lambda>hs.
    bindResult (vw_haGroups v) ''listing ha_chassis_group: %w'' (\<lambda>gs.
    bindResult (vw_gwChassis v) ''listing gateway_chassis: %w'' (\<lambda>gc.
    bindResult (vw_lrps v) ''listing logical router ports: %w'' (\<lambda>lrps.
    bindResult (vw_nats v) ''listing nats: %w'' (\<lambda>nats.
    bindResult (vw_routers v) ''listing logical routers: %w'' (\<lambda>routers.
    bindResult (vw_sbGlobals v) ''listing sb_global: %w'' (\<lambda>globals.
    bindResult (vw_privates v) ''listing chassis_private: %w'' (\<lambda>ps.
      Ok \<lparr>ix_chassis = byUUID sc_UUID cs, ix_haChassis = byUUID sh_UUID hs, ix_haGroups = byUUID sg_UUID gs,
          ix_gwChassis = byUUID sgc_UUID gc, ix_lrpByName = byUUID nrp_Name lrps, ix_routerByLRP = routerByLRP routers,
          ix_natsByRouter = natsByRouter (byUUID nn_UUID nats) routers,
          ix_sbNbCfg = (case globals of [] \<Rightarrow> 0 | g # _ \<Rightarrow> g), ix_privates = byUUID cp_Name ps\<rparr>)))))))))"

section \<open>The state of a chassis\<close>

record chState =
  cst_present :: bool
  cst_stale :: bool
  cst_capable :: bool
  cst_name :: string
  cst_hostname :: string

definition displayName :: "chState \<Rightarrow> string \<Rightarrow> string" where
  "displayName s uuid = (if cst_name s \<noteq> [] then cst_name s else if uuid = [] then [] else take 8 uuid)"

definition label_of :: "(string, string) gomap \<Rightarrow> string \<Rightarrow> string" where
  "label_of m k = (case map_of m k of None \<Rightarrow> [] | Some v \<Rightarrow> v)"

definition gatewayCapable :: "GwChassis \<Rightarrow> bool" where
  "gatewayCapable ch =
    (let opts = label_of (gx_OtherConfig ch) ''ovn-cms-options'';
         opts = (if opts = [] then label_of (gx_ExternalIDs ch) ''ovn-cms-options'' else opts)
     in if opts = [] then True else list_ex (\<lambda>p. TrimSpace p = ''enable-chassis-as-gw'') (splitByte (CHR '','') opts))"

definition no_chassis :: chState where
  "no_chassis = \<lparr>cst_present = False, cst_stale = False, cst_capable = False, cst_name = [], cst_hostname = []\<rparr>"

definition defaultStaleThreshold :: int where
  "defaultStaleThreshold = 60000000000"

definition staleThreshold :: "int \<Rightarrow> int" where
  "staleThreshold th = (if th \<le> 0 then defaultStaleThreshold else th)"

definition chassisState :: "int \<Rightarrow> int \<Rightarrow> string \<Rightarrow> gw_index \<Rightarrow> chState" where
  "chassisState th ms uuid idx =
    (if uuid = [] then no_chassis
     else case map_of (ix_chassis idx) uuid of
         None \<Rightarrow> no_chassis
       | Some ch \<Rightarrow>
           (let priv = map_of (ix_privates idx) (sc_Name ch);
                lv = ComputeLiveness priv (ix_sbNbCfg idx) ms (staleThreshold th)
            in \<lparr>cst_present = True, cst_stale = (priv = None \<or> lv_Stale lv), cst_capable = gatewayCapable ch,
                cst_name = sc_Name ch, cst_hostname = sc_Hostname ch\<rparr>))"

section \<open>The election\<close>

definition haCandidates :: "gw_index \<Rightarrow> SBHAChassisGroup \<Rightarrow> (string \<times> int) list" where
  "haCandidates idx grp = concat (map (\<lambda>u. case map_of (ix_haChassis idx) u of
     None \<Rightarrow> [] | Some hac \<Rightarrow> [(DerefStr (sh_Chassis hac), sh_Priority hac)]) (sg_HaChassis grp))"

definition gwCandidates :: "gw_index \<Rightarrow> string list \<Rightarrow> (string \<times> int) list" where
  "gwCandidates idx uuids = concat (map (\<lambda>u. case map_of (ix_gwChassis idx) u of
     None \<Rightarrow> [] | Some gc \<Rightarrow> [(DerefStr (sgc_Chassis gc), sgc_Priority gc)]) uuids)"

definition member :: "int \<Rightarrow> int \<Rightarrow> gw_index \<Rightarrow> string \<times> int \<Rightarrow> Member" where
  "member th ms idx c = (let (uuid, priority) = c; st = chassisState th ms uuid idx
     in \<lparr>gm_ChassisUUID = uuid, gm_Name = displayName st uuid, gm_Hostname = cst_hostname st, gm_Priority = priority,
         gm_Present = cst_present st, gm_Stale = cst_stale st, gm_GatewayCapable = cst_capable st,
         gm_Alive = (cst_present st \<and> \<not> cst_stale st), gm_Active = False, gm_Desired = False\<rparr>)"

definition bestStepGw :: "Member list \<Rightarrow> nat \<Rightarrow> nat option \<Rightarrow> nat option" where
  "bestStepGw members i best =
    (if \<not> gm_Alive (members ! i) then best
     else case best of
         None \<Rightarrow> Some i
       | Some b \<Rightarrow> if gm_Priority (members ! i) > gm_Priority (members ! b) then Some i else best)"

definition bestMember :: "Member list \<Rightarrow> nat option" where
  "bestMember members = fold (bestStepGw members) [0..<length members] None"

definition candidates :: "GwPortBinding \<Rightarrow> gw_index \<Rightarrow> (string \<times> int) list" where
  "candidates pb idx = (case gb_HaChassisGroup pb of
     Some g \<Rightarrow> (case map_of (ix_haGroups idx) g of None \<Rightarrow> [] | Some grp \<Rightarrow> haCandidates idx grp)
   | None \<Rightarrow> gwCandidates idx (gb_GatewayChassis pb))"

definition withGroup :: "GwPortBinding \<Rightarrow> gw_index \<Rightarrow> Gateway \<Rightarrow> Gateway" where
  "withGroup pb idx gw = (case gb_HaChassisGroup pb of
     None \<Rightarrow> gw
   | Some g \<Rightarrow> (case map_of (ix_haGroups idx) g of
       None \<Rightarrow> gw | Some grp \<Rightarrow> gw\<lparr>gw_HAGroupUUID := sg_UUID grp, gw_HAGroupName := sg_Name grp\<rparr>))"

definition buildMembers :: "int \<Rightarrow> int \<Rightarrow> GwPortBinding \<Rightarrow> gw_index \<Rightarrow> Gateway \<Rightarrow> Member list \<times> Gateway" where
  "buildMembers th ms pb idx gw =
    (let gw = withGroup pb idx gw; members = map (member th ms idx) (candidates pb idx)
     in case bestMember members of
          None \<Rightarrow> (members, gw)
        | Some b \<Rightarrow> (members[b := (members ! b)\<lparr>gm_Desired := True\<rparr>], gw\<lparr>gw_DesiredChassis := gm_Name (members ! b)\<rparr>))"

section \<open>The checks\<close>

definition addCheck :: "string \<Rightarrow> StatusSeverity \<Rightarrow> string \<times> arg list \<Rightarrow> Gateway \<Rightarrow> Gateway" where
  "addCheck name status msg gw =
    (let gw = gw\<lparr>gw_Checks := gw_Checks gw @ [\<lparr>gk_Name = name, gk_Status = status, gk_Message = msg\<rparr>]\<rparr>
     in case status of
          SevError \<Rightarrow> gw\<lparr>gw_Overall := SevError\<rparr>
        | SevWarning \<Rightarrow> if gw_Overall gw \<noteq> SevError then gw\<lparr>gw_Overall := SevWarning\<rparr> else gw
        | SevHealthy \<Rightarrow> gw)"

definition ownerCheck :: "string \<Rightarrow> Gateway \<Rightarrow> Gateway" where
  "ownerCheck actualUUID gw =
    (if actualUUID = []
     then addCheck ''binding_owner'' SevError (''chassisredirect port has no active chassis '' @ dash @ '' north/south traffic is blackholed'', [])
            (gw\<lparr>gw_Status := StatusNoOwner\<rparr>)
     else addCheck ''binding_owner'' SevHealthy (''active on chassis %s'', [AStr (gw_ActualChassis gw)]) gw)"

definition electionCheck :: "Member list \<Rightarrow> string \<Rightarrow> string \<Rightarrow> Gateway \<Rightarrow> Gateway" where
  "electionCheck members actualUUID desiredUUID gw =
    (if members = []
     then addCheck ''election'' SevHealthy (''no HA chassis group '' @ dash @ '' gateway is pinned to a single chassis'', [])
            (if gw_Status gw = GwUnset \<and> actualUUID \<noteq> [] then gw\<lparr>gw_Status := StatusUnmanaged\<rparr> else gw)
     else if desiredUUID = []
     then addCheck ''election'' SevError (''no alive HA member is available to host the gateway'', [])
            (if gw_Status gw = GwUnset then gw\<lparr>gw_Status := StatusNoCandidate\<rparr> else gw)
     else if actualUUID = []
     then addCheck ''election'' SevError (''expected active chassis %s, but the port is unbound'', [AStr (gw_DesiredChassis gw)]) gw
     else if actualUUID \<noteq> desiredUUID
     then addCheck ''election'' SevError
            (''active on %s, but %s has higher priority and is alive '' @ dash @ '' failover stuck / failback pending'',
             [AStr (gw_ActualChassis gw), AStr (gw_DesiredChassis gw)]) (gw\<lparr>gw_Status := StatusFailoverStuck\<rparr>)
     else addCheck ''election'' SevHealthy (''active chassis %s matches the highest-priority alive member'', [AStr (gw_ActualChassis gw)]) gw)"

definition livenessCheck :: "Member list \<Rightarrow> Gateway \<Rightarrow> Gateway" where
  "livenessCheck members gw =
    (if members = [] then gw
     else let down = length (filter (\<lambda>m. \<not> gm_Alive m) members)
          in if down > 0
             then addCheck ''members_liveness'' SevWarning (''%d of %d HA members are down or stale'', [AInt (int down), AInt (int (length members))]) gw
             else addCheck ''members_liveness'' SevHealthy (''all %d HA members are alive'', [AInt (int (length members))]) gw)"

definition ownerLivenessCheck :: "string \<Rightarrow> chState \<Rightarrow> Gateway \<Rightarrow> Gateway" where
  "ownerLivenessCheck actualUUID actual gw =
    (if actualUUID \<noteq> [] \<and> cst_present actual \<and> cst_stale actual
     then addCheck ''owner_liveness'' SevWarning (''active chassis is stale (nb_cfg lagging) '' @ dash @ '' a failover may be imminent'', [])
            (if gw_Status gw \<in> {StatusOK, GwUnset, StatusUnmanaged} then gw\<lparr>gw_Status := StatusDegraded\<rparr> else gw)
     else gw)"

definition capabilityCheck :: "string \<Rightarrow> chState \<Rightarrow> Gateway \<Rightarrow> Gateway" where
  "capabilityCheck actualUUID actual gw =
    (if actualUUID \<noteq> [] \<and> cst_present actual \<and> \<not> cst_capable actual
     then addCheck ''gateway_capability'' SevWarning (''active chassis does not advertise enable-chassis-as-gw'', []) gw
     else gw)"

definition appendChecks :: "Gateway \<Rightarrow> Member list \<Rightarrow> string \<Rightarrow> string \<Rightarrow> chState \<Rightarrow> Gateway" where
  "appendChecks gw members actualUUID desiredUUID actual =
    capabilityCheck actualUUID actual (ownerLivenessCheck actualUUID actual (livenessCheck members
      (electionCheck members actualUUID desiredUUID (ownerCheck actualUUID gw))))"

section \<open>A gateway\<close>

text \<open>\<^verbatim>\<open>stringSet\<close>: a set of non-empty strings, listed in order.\<close>

definition stringSet_add :: "string \<Rightarrow> string list \<Rightarrow> string list" where
  "stringSet_add v s = (if v = [] then s else List.insert v s)"

definition stringSet_sorted :: "string list \<Rightarrow> string list" where
  "stringSet_sorted s = sort_slice (<) s"

definition ipOnly :: "string \<Rightarrow> string" where
  "ipOnly cidr = takeWhile (\<lambda>c. c \<noteq> CHR ''/'') cidr"

definition TrimPrefix :: "string \<Rightarrow> string \<Rightarrow> string" where
  "TrimPrefix s p = (if HasPrefix s p then drop (length p) s else s)"

definition servedIPs :: "gw_index \<Rightarrow> string \<Rightarrow> string list" where
  "servedIPs idx lrpName = (case map_of (ix_lrpByName idx) lrpName of
     None \<Rightarrow> []
   | Some lrp \<Rightarrow>
       (let served = fold (\<lambda>n. stringSet_add (ipOnly n)) (nrp_Networks lrp) []
        in case map_of (ix_routerByLRP idx) (nrp_UUID lrp) of
             None \<Rightarrow> served
           | Some lr \<Rightarrow> fold (\<lambda>nat. stringSet_add (nn_ExternalIP nat))
               (case map_of (ix_natsByRouter idx) (nr_UUID lr) of None \<Rightarrow> [] | Some ns \<Rightarrow> ns) served))"

definition newGateway :: "GwPortBinding \<Rightarrow> gw_index \<Rightarrow> Gateway" where
  "newGateway pb idx =
    (let lrpName = TrimPrefix (pb_LogicalPort pb) ''cr-''; lrp = map_of (ix_lrpByName idx) lrpName;
         router = (case lrp of None \<Rightarrow> None | Some p \<Rightarrow> map_of (ix_routerByLRP idx) (nrp_UUID p))
     in \<lparr>gw_CRPort = pb_LogicalPort pb, gw_PortBindingUUID = gb_UUID pb, gw_LRPName = lrpName,
         gw_RouterUUID = (case router of None \<Rightarrow> [] | Some r \<Rightarrow> nr_UUID r),
         gw_RouterName = (case router of None \<Rightarrow> [] | Some r \<Rightarrow> nr_Name r),
         gw_HAGroupUUID = [], gw_HAGroupName = [],
         gw_ExternalNetworks = (case lrp of None \<Rightarrow> [] | Some p \<Rightarrow> nrp_Networks p),
         gw_ServedIPs = stringSet_sorted (servedIPs idx lrpName),
         gw_DesiredChassis = [], gw_ActualChassis = [], gw_Members = [], gw_Status = GwUnset, gw_Overall = SevHealthy, gw_Checks = []\<rparr>)"

definition analyzeGateway :: "int \<Rightarrow> int \<Rightarrow> GwPortBinding \<Rightarrow> gw_index \<Rightarrow> Gateway" where
  "analyzeGateway th ms pb idx =
    (let (members, gw) = buildMembers th ms pb idx (newGateway pb idx);
         actualUUID = DerefStr (pb_Chassis pb);
         members = map (\<lambda>m. if gm_ChassisUUID m = actualUUID \<and> actualUUID \<noteq> [] then m\<lparr>gm_Active := True\<rparr> else m) members;
         desiredUUID = fold (\<lambda>m d. if gm_Desired m then gm_ChassisUUID m else d) members [];
         actualState = chassisState th ms actualUUID idx;
         gw = gw\<lparr>gw_Members := members, gw_ActualChassis := displayName actualState actualUUID\<rparr>;
         gw = appendChecks gw members actualUUID desiredUUID actualState
     in if gw_Status gw = GwUnset then gw\<lparr>gw_Status := StatusOK\<rparr> else gw)"

section \<open>Conflicts and the report\<close>

type_synonym ip_agg = "(string, string list \<times> string list) gomap"

definition serveIP :: "Gateway \<Rightarrow> string \<Rightarrow> ip_agg \<Rightarrow> ip_agg" where
  "serveIP gw ip byIP =
    (let a = (case map_of byIP ip of None \<Rightarrow> ([], []) | Some a \<Rightarrow> a)
     in AList.update ip (stringSet_add (gw_ActualChassis gw) (fst a), stringSet_add (gw_CRPort gw) (snd a)) byIP)"

definition conflictStep :: "Gateway \<Rightarrow> ip_agg \<Rightarrow> ip_agg" where
  "conflictStep gw byIP = (if gw_ActualChassis gw = [] then byIP else fold (serveIP gw) (gw_ServedIPs gw) byIP)"

definition detectConflicts :: "Gateway list \<Rightarrow> Conflict list" where
  "detectConflicts gws = sort_slice (\<lambda>a b. cf_ExternalIP a < cf_ExternalIP b)
     (map (\<lambda>(ip, cs, ps). \<lparr>cf_ExternalIP = ip, cf_Chassis = stringSet_sorted cs, cf_CRPorts = stringSet_sorted ps\<rparr>)
       (filter (\<lambda>(ip, cs, ps). length cs > 1) (fold conflictStep gws [])))"

definition gwReport :: "Gateway list \<Rightarrow> GwReport" where
  "gwReport gws =
    (let count = (\<lambda>s. int (length (filter (\<lambda>g. gw_Overall g = s) gws)))
     in \<lparr>gr_Total = int (length gws), gr_Healthy = count SevHealthy, gr_Warning = count SevWarning, gr_Error = count SevError,
         gr_Gateways = sort_slice (\<lambda>a b. severityOrder (gw_Overall a) < severityOrder (gw_Overall b)) gws,
         gr_Conflicts = detectConflicts gws\<rparr>)"

definition analyzeCacheTTL :: int where
  "analyzeCacheTTL = 2000000000"

text \<open>The cache holds the last report and when it was made; the second reading of the clock stamps a new one.\<close>

definition Analyze ::
    "int \<Rightarrow> int \<Rightarrow> int \<Rightarrow> int \<Rightarrow> gw_view \<Rightarrow> (GwReport \<times> int) option \<Rightarrow> GwReport result \<times> (GwReport \<times> int) option" where
  "Analyze th now now' ms v cache =
    (let fresh = (case vw_bindings v of
           Err err \<Rightarrow> (Err (Wrapf ''listing port bindings: %w'' [] err), cache)
         | Ok bindings \<Rightarrow> (case buildIndex v of
             Err err \<Rightarrow> (Err err, cache)
           | Ok idx \<Rightarrow>
               (let report = gwReport (map (\<lambda>pb. analyzeGateway th ms pb idx)
                      (filter (\<lambda>pb. pb_Type pb = ''chassisredirect'') bindings))
                in (Ok report, Some (report, now')))))
     in case cache of
          Some (report, cachedAt) \<Rightarrow> if now - cachedAt < analyzeCacheTTL then (Ok report, cache) else fresh
        | None \<Rightarrow> fresh)"

section \<open>The election is by priority among the living\<close>

text \<open>The first of the alive members with the highest priority.\<close>

definition elected :: "Member list \<Rightarrow> nat \<Rightarrow> bool" where
  "elected members b = (b < length members \<and> gm_Alive (members ! b) \<and>
     (\<forall>j < length members. gm_Alive (members ! j) \<longrightarrow>
       gm_Priority (members ! j) \<le> gm_Priority (members ! b) \<and> (j < b \<longrightarrow> gm_Priority (members ! j) < gm_Priority (members ! b))))"

lemma bestMember_prefix:
  assumes "n \<le> length members"
  shows "case fold (bestStepGw members) [0..<n] None of
      None \<Rightarrow> \<forall>j < n. \<not> gm_Alive (members ! j)
    | Some b \<Rightarrow> b < n \<and> gm_Alive (members ! b) \<and> (\<forall>j < n. gm_Alive (members ! j) \<longrightarrow>
        gm_Priority (members ! j) \<le> gm_Priority (members ! b) \<and> (j < b \<longrightarrow> gm_Priority (members ! j) < gm_Priority (members ! b)))"
  using assms
proof (induction n)
  case (Suc n)
  then have "n \<le> length members" by simp
  from Suc.IH [OF this] show ?case
    by (auto simp: bestStepGw_def less_Suc_eq split: option.splits)
qed simp

lemma bestMember_spec:
  "bestMember members = None \<longleftrightarrow> (\<forall>m \<in> set members. \<not> gm_Alive m)"
  "bestMember members = Some b \<Longrightarrow> elected members b"
  using bestMember_prefix [of "length members" members]
  by (auto simp: bestMember_def elected_def in_set_conv_nth all_set_conv_all_nth split: option.splits)

lemma elected_unique: "elected members b \<Longrightarrow> elected members c \<Longrightarrow> b = c"
  unfolding elected_def by (metis leD linorder_neqE_nat)

lemma bestMember_elected: "bestMember members = Some b \<longleftrightarrow> elected members b"
proof
  assume "elected members b"
  then have "bestMember members \<noteq> None" unfolding bestMember_spec(1) by (auto simp: elected_def)
  then show "bestMember members = Some b" using bestMember_spec(2) elected_unique \<open>elected members b\<close> by blast
qed (rule bestMember_spec(2))


section \<open>The status of a gateway\<close>

lemma addCheck_simps [simp]:
  "gw_Status (addCheck n s m gw) = gw_Status gw"
  "gw_Members (addCheck n s m gw) = gw_Members gw"
  "gw_Overall (addCheck n s m gw) = (if s = SevError \<or> gw_Overall gw = SevError then SevError
     else if s = SevWarning then SevWarning else gw_Overall gw)"
  by (auto simp: addCheck_def Let_def split: StatusSeverity.splits)

lemma chassisState_Nil [simp]: "chassisState th ms [] idx = no_chassis"
  by (simp add: chassisState_def)

lemma member_simps [simp]:
  "gm_ChassisUUID (member th ms idx c) = fst c"
  "gm_Priority (member th ms idx c) = snd c"
  "gm_Desired (member th ms idx c) = False"
  "gm_Alive (member th ms idx c) \<longleftrightarrow>
     cst_present (chassisState th ms (fst c) idx) \<and> \<not> cst_stale (chassisState th ms (fst c) idx)"
  by (simp_all add: member_def Let_def split: prod.splits)

text \<open>The candidates of a port as members, before one of them is marked.\<close>

definition electorate :: "int \<Rightarrow> int \<Rightarrow> GwPortBinding \<Rightarrow> gw_index \<Rightarrow> Member list" where
  "electorate th ms pb idx = map (member th ms idx) (candidates pb idx)"

lemma electorate_alive_uuid: "m \<in> set (electorate th ms pb idx) \<Longrightarrow> gm_Alive m \<Longrightarrow> gm_ChassisUUID m \<noteq> []"
  by (auto simp: electorate_def no_chassis_def)

lemma electorate_undesired: "m \<in> set (electorate th ms pb idx) \<Longrightarrow> \<not> gm_Desired m"
  by (auto simp: electorate_def)

definition desiredOf :: "Member list \<Rightarrow> string" where
  "desiredOf members = fold (\<lambda>m d. if gm_Desired m then gm_ChassisUUID m else d) members []"

lemma desiredOf_none:
  assumes "\<forall>m \<in> set members. \<not> gm_Desired m"
  shows "fold (\<lambda>m d. if gm_Desired m then gm_ChassisUUID m else d) members d = d"
  using assms by (induction members) auto

lemma desiredOf_undesired: "\<forall>m \<in> set members. \<not> gm_Desired m \<Longrightarrow> desiredOf members = []"
  unfolding desiredOf_def by (rule desiredOf_none)

lemma desiredOf_update:
  assumes "\<forall>m \<in> set members. \<not> gm_Desired m" and "b < length members"
  shows "desiredOf (members[b := (members ! b)\<lparr>gm_Desired := True\<rparr>]) = gm_ChassisUUID (members ! b)"
proof -
  have "\<forall>m \<in> set (take b members). \<not> gm_Desired m" "\<forall>m \<in> set (drop (Suc b) members). \<not> gm_Desired m"
    using assms(1) by (auto dest: in_set_takeD in_set_dropD)
  then show ?thesis by (simp add: desiredOf_def upd_conv_take_nth_drop [OF assms(2)] desiredOf_none del: fold_simps(1))
qed

lemma desiredOf_map:
  assumes "\<And>m. gm_Desired (f m) = gm_Desired m" and "\<And>m. gm_ChassisUUID (f m) = gm_ChassisUUID m"
  shows "desiredOf (map f members) = desiredOf members"
  using assms by (simp add: desiredOf_def fold_map comp_def)

text \<open>What the election decides: the chassis of the elected member, none when nobody is alive.\<close>

definition electedChassis :: "Member list \<Rightarrow> string" where
  "electedChassis members = (case bestMember members of None \<Rightarrow> [] | Some b \<Rightarrow> gm_ChassisUUID (members ! b))"

text \<open>The status as the rules of the analyzer state it.\<close>

definition gatewayVerdict :: "int \<Rightarrow> int \<Rightarrow> GwPortBinding \<Rightarrow> gw_index \<Rightarrow> GwStatus" where
  "gatewayVerdict th ms pb idx =
    (let actual = DerefStr (pb_Chassis pb); es = electorate th ms pb idx; owner = chassisState th ms actual idx
     in if actual = [] then StatusNoOwner
        else if es = [] then (if cst_present owner \<and> cst_stale owner then StatusDegraded else StatusUnmanaged)
        else if \<forall>m \<in> set es. \<not> gm_Alive m then StatusNoCandidate
        else if electedChassis es = actual then StatusOK else StatusFailoverStuck)"

lemma buildMembers_fst:
  "length (fst (buildMembers th ms pb idx gw)) = length (electorate th ms pb idx)"
  "desiredOf (fst (buildMembers th ms pb idx gw)) = electedChassis (electorate th ms pb idx)"
  using electorate_undesired [of _ th ms pb idx] bestMember_spec(2) [of "electorate th ms pb idx"]
  by (auto simp: buildMembers_def Let_def electorate_def [symmetric] electedChassis_def elected_def desiredOf_update
        desiredOf_undesired split: option.splits)

lemma buildMembers_snd:
  "gw_Status (snd (buildMembers th ms pb idx gw)) = gw_Status gw"
  "gw_Overall (snd (buildMembers th ms pb idx gw)) = gw_Overall gw"
  by (simp_all add: buildMembers_def withGroup_def Let_def split: option.splits)

lemma electedChassis_alive:
  "electedChassis (electorate th ms pb idx) = [] \<longleftrightarrow> (\<forall>m \<in> set (electorate th ms pb idx). \<not> gm_Alive m)"
  using bestMember_spec [of "electorate th ms pb idx"] electorate_alive_uuid [of _ th ms pb idx]
  by (auto simp: electedChassis_def elected_def split: option.splits)

lemma electedChassis_fresh:
  assumes "electedChassis (electorate th ms pb idx) = u" and "u \<noteq> []"
  shows "cst_present (chassisState th ms u idx) \<and> \<not> cst_stale (chassisState th ms u idx)"
proof -
  from assms obtain b where b: "bestMember (electorate th ms pb idx) = Some b"
      "u = gm_ChassisUUID (electorate th ms pb idx ! b)"
    by (auto simp: electedChassis_def split: option.splits)
  then show ?thesis using bestMember_spec(2) [OF b(1)] by (auto simp: elected_def electorate_def)
qed

lemma ownerCheck_simps:
  "gw_Status (ownerCheck a gw) = (if a = [] then StatusNoOwner else gw_Status gw)"
  "gw_Overall (ownerCheck a gw) = (if a = [] then SevError else gw_Overall gw)"
  by (simp_all add: ownerCheck_def)

lemma electionCheck_simps:
  "gw_Status (electionCheck members a d gw) =
    (if members = [] then (if gw_Status gw = GwUnset \<and> a \<noteq> [] then StatusUnmanaged else gw_Status gw)
     else if d = [] then (if gw_Status gw = GwUnset then StatusNoCandidate else gw_Status gw)
     else if a = [] then gw_Status gw else if a \<noteq> d then StatusFailoverStuck else gw_Status gw)"
  "gw_Overall (electionCheck members a d gw) = (if members \<noteq> [] \<and> (d = [] \<or> a \<noteq> d) then SevError else gw_Overall gw)"
  by (simp_all add: electionCheck_def)

lemma livenessCheck_simps:
  "gw_Status (livenessCheck members gw) = gw_Status gw"
  "gw_Overall (livenessCheck members gw) = SevError \<longleftrightarrow> gw_Overall gw = SevError"
  by (simp_all add: livenessCheck_def Let_def)

lemma ownerLivenessCheck_simps:
  "gw_Status (ownerLivenessCheck a st gw) =
    (if a \<noteq> [] \<and> cst_present st \<and> cst_stale st \<and> gw_Status gw \<in> {StatusOK, GwUnset, StatusUnmanaged} then StatusDegraded else gw_Status gw)"
  "gw_Overall (ownerLivenessCheck a st gw) = SevError \<longleftrightarrow> gw_Overall gw = SevError"
  by (simp_all add: ownerLivenessCheck_def)

lemma capabilityCheck_simps:
  "gw_Status (capabilityCheck a st gw) = gw_Status gw"
  "gw_Overall (capabilityCheck a st gw) = SevError \<longleftrightarrow> gw_Overall gw = SevError"
  by (simp_all add: capabilityCheck_def)

lemmas check_simps = ownerCheck_simps electionCheck_simps livenessCheck_simps ownerLivenessCheck_simps capabilityCheck_simps

lemma appendChecks_status:
  assumes "gw_Status gw = GwUnset"
  shows "gw_Status (appendChecks gw members a d st) =
    (if a = [] then StatusNoOwner
     else if members = [] then (if cst_present st \<and> cst_stale st then StatusDegraded else StatusUnmanaged)
     else if d = [] then StatusNoCandidate
     else if a \<noteq> d then StatusFailoverStuck
     else if cst_present st \<and> cst_stale st then StatusDegraded else GwUnset)"
  using assms unfolding appendChecks_def by (simp only: check_simps) simp

lemma appendChecks_overall:
  assumes "gw_Overall gw = SevHealthy"
  shows "gw_Overall (appendChecks gw members a d st) = SevError \<longleftrightarrow> a = [] \<or> (members \<noteq> [] \<and> (d = [] \<or> a \<noteq> d))"
  using assms unfolding appendChecks_def by (simp only: check_simps) simp

lemma analyzeGateway_conv:
  obtains gw members where "gw_Status gw = GwUnset" "gw_Overall gw = SevHealthy"
    "members = [] \<longleftrightarrow> electorate th ms pb idx = []"
    "analyzeGateway th ms pb idx =
      (let gw = appendChecks gw members (DerefStr (pb_Chassis pb)) (electedChassis (electorate th ms pb idx))
         (chassisState th ms (DerefStr (pb_Chassis pb)) idx)
       in if gw_Status gw = GwUnset then gw\<lparr>gw_Status := StatusOK\<rparr> else gw)"
proof -
  let ?a = "DerefStr (pb_Chassis pb)" and ?bm = "buildMembers th ms pb idx (newGateway pb idx)"
  let ?ms = "map (\<lambda>m. if gm_ChassisUUID m = ?a \<and> ?a \<noteq> [] then m\<lparr>gm_Active := True\<rparr> else m) (fst ?bm)"
  let ?gw = "(snd ?bm)\<lparr>gw_Members := ?ms, gw_ActualChassis := displayName (chassisState th ms ?a idx) ?a\<rparr>"
  have "gw_Status ?gw = GwUnset" "gw_Overall ?gw = SevHealthy"
    by (simp_all add: buildMembers_snd newGateway_def Let_def)
  moreover have "?ms = [] \<longleftrightarrow> electorate th ms pb idx = []"
    using buildMembers_fst(1) [of th ms pb idx "newGateway pb idx"] by auto
  moreover have "desiredOf ?ms = electedChassis (electorate th ms pb idx)"
    by (subst desiredOf_map) (simp_all add: buildMembers_fst)
  ultimately show thesis
    by (intro that [of ?gw ?ms]) (simp_all add: analyzeGateway_def desiredOf_def Let_def split_beta)
qed

lemma analyzeGateway_status: "gw_Status (analyzeGateway th ms pb idx) = gatewayVerdict th ms pb idx"
  and analyzeGateway_overall: "gw_Overall (analyzeGateway th ms pb idx) = SevError
      \<longleftrightarrow> gatewayVerdict th ms pb idx \<in> {StatusNoOwner, StatusNoCandidate, StatusFailoverStuck}"
proof -
  let ?a = "DerefStr (pb_Chassis pb)" and ?es = "electorate th ms pb idx"
  obtain gw members where gw: "gw_Status gw = GwUnset" "gw_Overall gw = SevHealthy" "members = [] \<longleftrightarrow> ?es = []"
    and a: "analyzeGateway th ms pb idx = (let gw = appendChecks gw members ?a (electedChassis ?es) (chassisState th ms ?a idx)
       in if gw_Status gw = GwUnset then gw\<lparr>gw_Status := StatusOK\<rparr> else gw)"
    by (rule analyzeGateway_conv)
  have fresh: "?a \<noteq> [] \<Longrightarrow> electedChassis ?es = ?a \<Longrightarrow> \<not> cst_stale (chassisState th ms ?a idx)"
    using electedChassis_fresh [of th ms pb idx ?a] by blast
  note alive = electedChassis_alive [of th ms pb idx]
  have s: "gw_Status (analyzeGateway th ms pb idx) = (let s = gw_Status (appendChecks gw members ?a (electedChassis ?es) (chassisState th ms ?a idx))
       in if s = GwUnset then StatusOK else s)"
    unfolding a Let_def by simp
  have o: "gw_Overall (analyzeGateway th ms pb idx) = gw_Overall (appendChecks gw members ?a (electedChassis ?es) (chassisState th ms ?a idx))"
    unfolding a Let_def by simp
  show "gw_Status (analyzeGateway th ms pb idx) = gatewayVerdict th ms pb idx"
    unfolding s appendChecks_status [OF gw(1)] gatewayVerdict_def Let_def gw(3) alive [symmetric] using fresh by auto
  show "gw_Overall (analyzeGateway th ms pb idx) = SevError
      \<longleftrightarrow> gatewayVerdict th ms pb idx \<in> {StatusNoOwner, StatusNoCandidate, StatusFailoverStuck}"
    unfolding o appendChecks_overall [OF gw(2)] gatewayVerdict_def Let_def gw(3) alive [symmetric] by simp
qed


text \<open>
  The state the code calls degraded, a correct owner that is stale, is never reported for a port with candidates: a
  stale owner is not alive, so the election has chosen another or nobody.
\<close>

lemma stale_owner_never_degraded:
  assumes "electorate th ms pb idx \<noteq> []"
  shows "gw_Status (analyzeGateway th ms pb idx) \<noteq> StatusDegraded"
  using assms by (simp add: analyzeGateway_status gatewayVerdict_def Let_def)

section \<open>Conflicts\<close>

text \<open>The chassis that serve an address.\<close>

definition servers :: "Gateway list \<Rightarrow> string \<Rightarrow> string set" where
  "servers gws ip = {gw_ActualChassis g | g. g \<in> set gws \<and> gw_ActualChassis g \<noteq> [] \<and> ip \<in> set (gw_ServedIPs g)}"

definition chassisAt :: "ip_agg \<Rightarrow> string \<Rightarrow> string list" where
  "chassisAt m ip = (case map_of m ip of None \<Rightarrow> [] | Some a \<Rightarrow> fst a)"

lemma serveIP_chassisAt:
  "gw_ActualChassis gw \<noteq> [] \<Longrightarrow>
   chassisAt (serveIP gw ip' m) ip = (if ip' = ip then List.insert (gw_ActualChassis gw) (chassisAt m ip) else chassisAt m ip)"
  by (simp add: chassisAt_def serveIP_def stringSet_add_def Let_def split: option.splits)

lemma serveIP_gomap_ok: "gomap_ok m \<Longrightarrow> gomap_ok (serveIP gw ip m)"
  by (simp add: serveIP_def Let_def)

lemma serveIPs_chassisAt:
  assumes "gw_ActualChassis gw \<noteq> []"
  shows "chassisAt (fold (serveIP gw) ips m) ip =
    (if ip \<in> set ips then List.insert (gw_ActualChassis gw) (chassisAt m ip) else chassisAt m ip)"
  using assms by (induction ips arbitrary: m) (auto simp: serveIP_chassisAt List.insert_def)

lemma conflictStep_chassisAt:
  "chassisAt (conflictStep gw m) ip =
    (if gw_ActualChassis gw \<noteq> [] \<and> ip \<in> set (gw_ServedIPs gw) then List.insert (gw_ActualChassis gw) (chassisAt m ip) else chassisAt m ip)"
  by (simp add: conflictStep_def serveIPs_chassisAt)

lemma conflictStep_gomap_ok: "gomap_ok m \<Longrightarrow> gomap_ok (conflictStep gw m)"
proof -
  have "gomap_ok m \<Longrightarrow> gomap_ok (fold (serveIP gw) ips m)" for ips
    by (induction ips arbitrary: m) (simp_all add: serveIP_gomap_ok)
  then show "gomap_ok m \<Longrightarrow> gomap_ok (conflictStep gw m)" by (simp add: conflictStep_def)
qed

lemma byIP_chassisAt:
  "set (chassisAt (fold conflictStep gws m) ip) = set (chassisAt m ip) \<union> servers gws ip"
  by (induction gws arbitrary: m) (auto simp: conflictStep_chassisAt servers_def)

lemma byIP_distinct: "distinct (chassisAt m ip) \<Longrightarrow> distinct (chassisAt (fold conflictStep gws m) ip)"
  by (induction gws arbitrary: m) (auto simp: conflictStep_chassisAt)

lemma byIP_gomap_ok: "gomap_ok m \<Longrightarrow> gomap_ok (fold conflictStep gws m)"
  by (induction gws arbitrary: m) (auto simp: conflictStep_gomap_ok)

lemma chassisAt_iff:
  assumes "gomap_ok m" and "cs \<noteq> []"
  shows "chassisAt m ip = cs \<longleftrightarrow> (\<exists>ps. (ip, cs, ps) \<in> set m)"
  using assms by (auto simp: chassisAt_def split: option.splits dest: eq_key_imp_eq_value)

lemma sort_slice_set:
  fixes f :: "'a \<Rightarrow> 'b :: linorder"
  assumes "distinct (map f xs)"
  shows "map f (sort_slice (\<lambda>a b. f a < f b) xs) = sorted_list_of_set (f ` set xs)"
proof (rule sorted_distinct_set_unique)
  show "distinct (map f (sort_slice (\<lambda>a b. f a < f b) xs))" using assms by (auto simp: distinct_map)
qed (auto simp: sorted_map sorted_sort_slice_asc)

lemma stringSet_sorted_set: "distinct cs \<Longrightarrow> stringSet_sorted cs = sorted_list_of_set (set cs)"
  using sort_slice_set [of id cs] by (simp add: stringSet_sorted_def)

text \<open>The aggregate of \<^verbatim>\<open>detectConflicts\<close>, read off the gateways.\<close>

lemma byIP_iff:
  assumes "length cs > 1"
  shows "(\<exists>ps. (ip, cs, ps) \<in> set (fold conflictStep gws [])) \<longleftrightarrow> chassisAt (fold conflictStep gws []) ip = cs"
proof -
  have "cs \<noteq> []" using assms by auto
  then show ?thesis using chassisAt_iff [OF byIP_gomap_ok [of "[]" gws], of cs ip] by simp
qed

lemma byIP_servers: "set (chassisAt (fold conflictStep gws []) ip) = servers gws ip" "distinct (chassisAt (fold conflictStep gws []) ip)"
  using byIP_chassisAt [of gws "[]" ip] byIP_distinct [of "[]" ip gws] by (simp_all add: chassisAt_def)

lemma byIP_length: "length (chassisAt (fold conflictStep gws []) ip) = card (servers gws ip)"
  using byIP_servers [of gws ip] distinct_card by fastforce

lemma detectConflicts_ips: "map cf_ExternalIP (detectConflicts gws) = sorted_list_of_set {ip. card (servers gws ip) > 1}"
proof -
  let ?m = "filter (\<lambda>(ip, cs, ps). length cs > 1) (fold conflictStep gws [])"
  have "gomap_ok ?m" using byIP_gomap_ok [of "[]" gws] by simp
  moreover have "fst ` set ?m = {ip. card (servers gws ip) > 1}"
    using byIP_iff [of _ _ gws] by (force simp: byIP_length [symmetric])
  ultimately show ?thesis
    unfolding detectConflicts_def by (subst sort_slice_set) (auto simp: comp_def split_beta image_image)
qed

lemma detectConflicts_chassis:
  assumes "c \<in> set (detectConflicts gws)"
  shows "cf_Chassis c = sorted_list_of_set (servers gws (cf_ExternalIP c))"
proof -
  from assms obtain ip cs ps where c: "cf_ExternalIP c = ip" "cf_Chassis c = stringSet_sorted cs"
    and m: "(ip, cs, ps) \<in> set (fold conflictStep gws [])" "length cs > 1"
    by (auto simp: detectConflicts_def)
  then have "chassisAt (fold conflictStep gws []) ip = cs" using byIP_iff by blast
  then show ?thesis using byIP_servers [of gws ip] c by (simp add: stringSet_sorted_set)
qed

text \<open>
  An address is reported as a conflict exactly when gateways with two different active chassis serve it, each such
  address once and in order, with exactly those chassis, in order.
\<close>

theorem conflicts_exact:
  "map (\<lambda>c. (cf_ExternalIP c, cf_Chassis c)) (detectConflicts gws) =
   map (\<lambda>ip. (ip, sorted_list_of_set (servers gws ip))) (sorted_list_of_set {ip. card (servers gws ip) > 1})"
  unfolding detectConflicts_ips [symmetric] map_map comp_def by (simp add: detectConflicts_chassis)

end
