(* ===== verification/Ovs_Health.thy ===== *)
theory Ovs_Health
  imports NW_Prelude
begin

text \<open>
  \<^verbatim>\<open>internal/ovshealth/ovshealth.go\<close>: the health of the Open vSwitch fleet, with error and drop counters compared
  between successive reads.

  \<^item> Only the number of bridges and ports of a chassis matters, so they are counted lists of an arbitrary type.
  \<^item> The memory of a \<^verbatim>\<open>Tracker\<close> maps an interface key to its counters at the previous read.
\<close>

section \<open>Rows and results\<close>

record VSInterface =
  vi_UUID :: string
  vi_LinkState :: "string option"
  vi_Statistics :: "(string, int) gomap"

record 'a ChassisCache =
  cc_SystemID :: string
  cc_Connected :: bool
  cc_Bridges :: "'a list"
  cc_Ports :: "'a list"
  cc_Interfaces :: "VSInterface list"

record ChassisHealth =
  ch_SystemID :: string
  ch_Connected :: bool
  ch_Bridges :: int
  ch_Ports :: int
  ch_Interfaces :: int
  ch_DownInterfaces :: int
  ch_ErrorInterfaces :: int
  ch_DropInterfaces :: int

record FleetHealth =
  fh_Chassis :: int
  fh_Connected :: int
  fh_Unreachable :: int
  fh_Bridges :: int
  fh_Ports :: int
  fh_Interfaces :: int
  fh_DownInterfaces :: int
  fh_ErrorInterfaces :: int
  fh_DropInterfaces :: int
  fh_Members :: "ChassisHealth list"

type_synonym counters = "(string, int) gomap"
type_synonym tracker = "(string, counters) gomap"

section \<open>Operations\<close>

definition errorKeys :: "string list" where
  "errorKeys = [''rx_errors'', ''tx_errors'']"

definition dropKeys :: "string list" where
  "dropKeys = [''rx_dropped'', ''tx_dropped'']"

definition NewTracker :: tracker where
  "NewTracker = []"

text \<open>\<^verbatim>\<open>m[k]\<close> on a \<^verbatim>\<open>map[string]int\<close>: zero for an absent key.\<close>

definition counter :: "counters \<Rightarrow> string \<Rightarrow> int" where
  "counter m k = (case map_of m k of None \<Rightarrow> 0 | Some n \<Rightarrow> n)"

definition counterSnapshot :: "VSInterface \<Rightarrow> counters" where
  "counterSnapshot iface = fold (\<lambda>k. AList.update k (counter (vi_Statistics iface) k)) dropKeys
     (fold (\<lambda>k. AList.update k (counter (vi_Statistics iface) k)) errorKeys [])"

definition anyIncreased :: "counters \<Rightarrow> counters \<Rightarrow> string list \<Rightarrow> bool" where
  "anyIncreased prev cur ks = list_ex (\<lambda>k. counter cur k > counter prev k) ks"

definition interfaceDown :: "VSInterface \<Rightarrow> bool" where
  "interfaceDown iface = (vi_LinkState iface = Some ''down'')"

definition ifaceKey :: "string \<Rightarrow> VSInterface \<Rightarrow> string" where
  "ifaceKey system iface = system @ [CHR 0x00] @ vi_UUID iface"

definition healthStep :: "tracker \<Rightarrow> string \<Rightarrow> VSInterface \<Rightarrow> tracker \<times> ChassisHealth \<Rightarrow> tracker \<times> ChassisHealth" where
  "healthStep prevs system iface = (\<lambda>(nxt, ch).
     let ch = (if interfaceDown iface then ch\<lparr>ch_DownInterfaces := ch_DownInterfaces ch + 1\<rparr> else ch);
         key = ifaceKey system iface; cur = counterSnapshot iface; nxt = AList.update key cur nxt
     in case map_of prevs key of
          None \<Rightarrow> (nxt, ch)
        | Some prev \<Rightarrow>
            (let ch = (if anyIncreased prev cur errorKeys then ch\<lparr>ch_ErrorInterfaces := ch_ErrorInterfaces ch + 1\<rparr> else ch);
                 ch = (if anyIncreased prev cur dropKeys then ch\<lparr>ch_DropInterfaces := ch_DropInterfaces ch + 1\<rparr> else ch)
             in (nxt, ch)))"

definition newHealth :: "'a ChassisCache \<Rightarrow> ChassisHealth" where
  "newHealth cc = \<lparr>ch_SystemID = cc_SystemID cc, ch_Connected = cc_Connected cc, ch_Bridges = 0, ch_Ports = 0,
     ch_Interfaces = 0, ch_DownInterfaces = 0, ch_ErrorInterfaces = 0, ch_DropInterfaces = 0\<rparr>"

definition chassisStep :: "tracker \<Rightarrow> 'a ChassisCache \<Rightarrow> tracker \<times> FleetHealth \<Rightarrow> tracker \<times> FleetHealth" where
  "chassisStep prevs cc = (\<lambda>(nxt, fleet).
     if \<not> cc_Connected cc then (nxt, fleet\<lparr>fh_Members := fh_Members fleet @ [newHealth cc]\<rparr>)
     else let ch = (newHealth cc)\<lparr>ch_Bridges := int (length (cc_Bridges cc)), ch_Ports := int (length (cc_Ports cc)),
                     ch_Interfaces := int (length (cc_Interfaces cc))\<rparr>;
              (nxt, ch) = fold (healthStep prevs (cc_SystemID cc)) (cc_Interfaces cc) (nxt, ch)
          in (nxt, fleet\<lparr>fh_Connected := fh_Connected fleet + 1, fh_Bridges := fh_Bridges fleet + ch_Bridges ch,
                fh_Ports := fh_Ports fleet + ch_Ports ch, fh_Interfaces := fh_Interfaces fleet + ch_Interfaces ch,
                fh_DownInterfaces := fh_DownInterfaces fleet + ch_DownInterfaces ch,
                fh_ErrorInterfaces := fh_ErrorInterfaces fleet + ch_ErrorInterfaces ch,
                fh_DropInterfaces := fh_DropInterfaces fleet + ch_DropInterfaces ch,
                fh_Members := fh_Members fleet @ [ch]\<rparr>))"

definition newFleet :: "nat \<Rightarrow> FleetHealth" where
  "newFleet n = \<lparr>fh_Chassis = int n, fh_Connected = 0, fh_Unreachable = 0, fh_Bridges = 0, fh_Ports = 0, fh_Interfaces = 0,
     fh_DownInterfaces = 0, fh_ErrorInterfaces = 0, fh_DropInterfaces = 0, fh_Members = []\<rparr>"

definition Aggregate :: "tracker \<Rightarrow> 'a ChassisCache list \<Rightarrow> tracker \<times> FleetHealth" where
  "Aggregate prevs caches =
    (let (nxt, fleet) = fold (chassisStep prevs) caches ([], newFleet (length caches))
     in (nxt, fleet\<lparr>fh_Unreachable := fh_Chassis fleet - fh_Connected fleet\<rparr>))"

section \<open>Counters\<close>

lemma counterSnapshot_counter: "k \<in> set (errorKeys @ dropKeys) \<Longrightarrow> counter (counterSnapshot iface) k = counter (vi_Statistics iface) k"
  by (auto simp: counterSnapshot_def counter_def errorKeys_def dropKeys_def)

text \<open>An interface that got worse between two reads, by a group of counters.\<close>

definition worse :: "string list \<Rightarrow> VSInterface \<Rightarrow> VSInterface \<Rightarrow> bool" where
  "worse ks old new = (\<exists>k \<in> set ks. counter (vi_Statistics old) k < counter (vi_Statistics new) k)"

lemma anyIncreased_worse:
  assumes "set ks \<subseteq> set (errorKeys @ dropKeys)"
  shows "anyIncreased (counterSnapshot old) (counterSnapshot new) ks \<longleftrightarrow> worse ks old new"
  using assms counterSnapshot_counter unfolding anyIncreased_def worse_def list_ex_iff by (metis subsetD)

section \<open>One chassis\<close>

text \<open>The keyed interfaces a read has seen: those of the connected chassis.\<close>

definition seen :: "'a ChassisCache list \<Rightarrow> (string \<times> VSInterface) list" where
  "seen caches = concat (map (\<lambda>cc. if cc_Connected cc then map (\<lambda>i. (ifaceKey (cc_SystemID cc) i, i)) (cc_Interfaces cc) else []) caches)"

text \<open>The interfaces of a chassis that were seen before and satisfy a condition on their earlier counters.\<close>

definition grown :: "tracker \<Rightarrow> string \<Rightarrow> string list \<Rightarrow> VSInterface list \<Rightarrow> VSInterface list" where
  "grown prevs system ks ifaces = filter (\<lambda>i. case map_of prevs (ifaceKey system i) of
     None \<Rightarrow> False | Some prev \<Rightarrow> anyIncreased prev (counterSnapshot i) ks) ifaces"

lemma healthSteps:
  "fold (healthStep prevs system) ifaces (nxt, ch) =
    (fold (\<lambda>i. AList.update (ifaceKey system i) (counterSnapshot i)) ifaces nxt,
     ch\<lparr>ch_DownInterfaces := ch_DownInterfaces ch + int (length (filter interfaceDown ifaces)),
        ch_ErrorInterfaces := ch_ErrorInterfaces ch + int (length (grown prevs system errorKeys ifaces)),
        ch_DropInterfaces := ch_DropInterfaces ch + int (length (grown prevs system dropKeys ifaces))\<rparr>)"
  by (induction ifaces arbitrary: nxt ch)
     (simp_all add: healthStep_def grown_def Let_def algebra_simps split: option.split)

text \<open>What the report of a chassis says.\<close>

definition healthOf :: "tracker \<Rightarrow> 'a ChassisCache \<Rightarrow> ChassisHealth" where
  "healthOf prevs cc =
    (if \<not> cc_Connected cc then newHealth cc
     else \<lparr>ch_SystemID = cc_SystemID cc, ch_Connected = True, ch_Bridges = int (length (cc_Bridges cc)),
       ch_Ports = int (length (cc_Ports cc)), ch_Interfaces = int (length (cc_Interfaces cc)),
       ch_DownInterfaces = int (length (filter interfaceDown (cc_Interfaces cc))),
       ch_ErrorInterfaces = int (length (grown prevs (cc_SystemID cc) errorKeys (cc_Interfaces cc))),
       ch_DropInterfaces = int (length (grown prevs (cc_SystemID cc) dropKeys (cc_Interfaces cc)))\<rparr>)"

definition remember :: "(string \<times> VSInterface) list \<Rightarrow> tracker \<Rightarrow> tracker" where
  "remember kis nxt = fold (\<lambda>(k, i). AList.update k (counterSnapshot i)) kis nxt"

text \<open>The totals of a list of members, of which the unreachable ones contribute zeros.\<close>

definition fleetOf :: "ChassisHealth list \<Rightarrow> FleetHealth" where
  "fleetOf chs = \<lparr>fh_Chassis = int (length chs), fh_Connected = int (length (filter ch_Connected chs)),
     fh_Unreachable = int (length (filter (\<lambda>c. \<not> ch_Connected c) chs)),
     fh_Bridges = sum_list (map ch_Bridges chs), fh_Ports = sum_list (map ch_Ports chs),
     fh_Interfaces = sum_list (map ch_Interfaces chs), fh_DownInterfaces = sum_list (map ch_DownInterfaces chs),
     fh_ErrorInterfaces = sum_list (map ch_ErrorInterfaces chs), fh_DropInterfaces = sum_list (map ch_DropInterfaces chs),
     fh_Members = chs\<rparr>"

definition midFleet :: "int \<Rightarrow> ChassisHealth list \<Rightarrow> FleetHealth" where
  "midFleet n chs = (fleetOf chs)\<lparr>fh_Chassis := n, fh_Unreachable := 0\<rparr>"

lemma remember_append: "remember (xs @ ys) nxt = remember ys (remember xs nxt)"
  by (simp add: remember_def)

lemma healthOf_unreachable [simp]: "\<not> cc_Connected cc \<Longrightarrow> healthOf prevs cc = newHealth cc"
  by (simp add: healthOf_def)

lemma chassisStep_conv:
  "chassisStep prevs cc (nxt, midFleet n chs) = (remember (seen [cc]) nxt, midFleet n (chs @ [healthOf prevs cc]))"
  by (cases "cc_Connected cc")
     (simp_all add: chassisStep_def midFleet_def fleetOf_def remember_def seen_def healthOf_def newHealth_def healthSteps
        fold_map comp_def)

lemma chassisSteps_conv:
  "fold (chassisStep prevs) caches (nxt, midFleet n chs) =
   (remember (seen caches) nxt, midFleet n (chs @ map (healthOf prevs) caches))"
proof (induction caches arbitrary: nxt chs)
  case (Cons cc caches)
  have "seen (cc # caches) = seen [cc] @ seen caches" by (simp add: seen_def)
  then show ?case by (simp add: chassisStep_conv Cons.IH remember_append)
qed (simp add: remember_def seen_def)

lemma Aggregate_conv: "Aggregate prevs caches = (remember (seen caches) [], fleetOf (map (healthOf prevs) caches))"
proof -
  let ?chs = "map (healthOf prevs) caches"
  have new: "newFleet (length caches) = midFleet (int (length caches)) []"
    by (simp add: newFleet_def midFleet_def fleetOf_def)
  have "int (length ?chs) - int (length (filter ch_Connected ?chs)) = int (length (filter (\<lambda>c. \<not> ch_Connected c) ?chs))"
    using sum_length_filter_compl [of ch_Connected ?chs] by linarith
  then show ?thesis
    by (simp add: Aggregate_def new chassisSteps_conv) (simp add: midFleet_def fleetOf_def)
qed

section \<open>Two reads\<close>

lemma map_of_remember:
  assumes "distinct (map fst kis)"
  shows "map_of (remember kis []) k = map_option counterSnapshot (map_of kis k)"
proof -
  have "map_of (remember kis m) k = (case map_of kis k of None \<Rightarrow> map_of m k | Some i \<Rightarrow> Some (counterSnapshot i))" for m
    using assms
  proof (induction kis arbitrary: m)
    case (Cons ki kis)
    obtain k' i where ki: "ki = (k', i)" by fastforce
    with Cons.prems have "map_of kis k' = None" "distinct (map fst kis)" by (auto simp: map_of_eq_None_iff)
    then show ?case
      using Cons.IH [of "AList.update k' (counterSnapshot i) m"]
      by (simp add: remember_def ki del: map_of_eq_Some_iff split: option.split)
  qed (simp add: remember_def)
  then show ?thesis by (simp split: option.split)
qed

text \<open>The state in which an earlier read saw an interface: on a connected chassis of the same name, under the same UUID.\<close>

definition was :: "'a ChassisCache list \<Rightarrow> string \<Rightarrow> VSInterface \<Rightarrow> VSInterface \<Rightarrow> bool" where
  "was caches system i j = (\<exists>cc \<in> set caches. cc_Connected cc \<and> cc_SystemID cc = system \<and> j \<in> set (cc_Interfaces cc) \<and> vi_UUID j = vi_UUID i)"

definition nul_free :: "'a ChassisCache list \<Rightarrow> bool" where
  "nul_free caches = list_all (\<lambda>cc. CHR 0x00 \<notin> set (cc_SystemID cc)) caches"

lemma ifaceKey_inject:
  assumes "CHR 0x00 \<notin> set s" "CHR 0x00 \<notin> set s'"
  shows "ifaceKey s i = ifaceKey s' j \<longleftrightarrow> s = s' \<and> vi_UUID i = vi_UUID j"
  using assms by (auto simp: ifaceKey_def append_eq_append_conv2 append_eq_Cons_conv Cons_eq_append_conv)

lemma seen_was:
  assumes "nul_free caches" "CHR 0x00 \<notin> set system"
  shows "(ifaceKey system i, j) \<in> set (seen caches) \<longleftrightarrow> was caches system i j"
proof -
  have "(ifaceKey system i, j) \<in> set (seen caches) \<longleftrightarrow> (\<exists>cc \<in> set caches. cc_Connected cc \<and>
      (\<exists>j' \<in> set (cc_Interfaces cc). ifaceKey system i = ifaceKey (cc_SystemID cc) j' \<and> j = j'))"
    by (force simp: seen_def)
  also have "\<dots> \<longleftrightarrow> was caches system i j"
    using assms by (auto simp: was_def nul_free_def list_all_iff ifaceKey_inject)
  finally show ?thesis .
qed

lemma grown_was:
  assumes "nul_free c0" "CHR 0x00 \<notin> set system" "distinct (map fst (seen c0))" "set ks \<subseteq> set (errorKeys @ dropKeys)"
  shows "grown (remember (seen c0) []) system ks ifaces = filter (\<lambda>i. \<exists>j. was c0 system i j \<and> worse ks j i) ifaces"
  unfolding grown_def map_of_remember [OF assms(3)]
proof (rule filter_cong [OF refl])
  fix i
  have "map_of (seen c0) (ifaceKey system i) = Some j \<longleftrightarrow> was c0 system i j" for j
    using seen_was [OF assms(1,2)] assms(3) by simp
  then show "(case map_option counterSnapshot (map_of (seen c0) (ifaceKey system i)) of None \<Rightarrow> False
      | Some prev \<Rightarrow> anyIncreased prev (counterSnapshot i) ks) = (\<exists>j. was c0 system i j \<and> worse ks j i)"
    by (cases "map_of (seen c0) (ifaceKey system i)")
       (simp_all add: anyIncreased_worse [OF assms(4)] flip: \<open>\<And>j. _ = was c0 system i j\<close> del: map_of_eq_Some_iff)
qed

text \<open>
  In the second of two successive reads an interface counts as erroring, or as dropping, exactly when its chassis was
  connected in both, the first read saw it under the same UUID, and one of its error, or drop, counters has grown since;
  what happened before the first read does not matter. Unreachable chassis are listed with zeros, and every total is the
  sum over the members.
\<close>

theorem ovs_health_delta:
  assumes "nul_free c0" "nul_free c1" "distinct (map fst (seen c0))"
  shows "let fleet = snd (Aggregate (fst (Aggregate t c0)) c1)
    in fleet = fleetOf (fh_Members fleet)
     \<and> map ch_SystemID (fh_Members fleet) = map cc_SystemID c1
     \<and> map ch_ErrorInterfaces (fh_Members fleet) = map (\<lambda>cc. if cc_Connected cc
         then int (length (filter (\<lambda>i. \<exists>j. was c0 (cc_SystemID cc) i j \<and> worse errorKeys j i) (cc_Interfaces cc))) else 0) c1
     \<and> map ch_DropInterfaces (fh_Members fleet) = map (\<lambda>cc. if cc_Connected cc
         then int (length (filter (\<lambda>i. \<exists>j. was c0 (cc_SystemID cc) i j \<and> worse dropKeys j i) (cc_Interfaces cc))) else 0) c1
     \<and> map ch_DownInterfaces (fh_Members fleet) = map (\<lambda>cc. if cc_Connected cc
         then int (length (filter interfaceDown (cc_Interfaces cc))) else 0) c1"
proof -
  have g: "grown (remember (seen c0) []) (cc_SystemID cc) ks (cc_Interfaces cc) =
      filter (\<lambda>i. \<exists>j. was c0 (cc_SystemID cc) i j \<and> worse ks j i) (cc_Interfaces cc)"
    if "cc \<in> set c1" "ks = errorKeys \<or> ks = dropKeys" for cc ks
    using that assms by (intro grown_was) (auto simp: nul_free_def list_all_iff)
  show ?thesis
    unfolding Let_def Aggregate_conv fst_conv snd_conv
    by (simp add: fleetOf_def g healthOf_def newHealth_def)
qed

definition twoReads :: "nat ChassisCache list" where
  "twoReads = [\<lparr>cc_SystemID = ''hv1'', cc_Connected = True, cc_Bridges = [1], cc_Ports = [1, 2],
     cc_Interfaces = [\<lparr>vi_UUID = ''i1'', vi_LinkState = Some ''down'', vi_Statistics = [(''rx_errors'', 7)]\<rparr>]\<rparr>,
   \<lparr>cc_SystemID = ''hv2'', cc_Connected = False, cc_Bridges = [], cc_Ports = [], cc_Interfaces = []\<rparr>]"

definition twoReads' :: "nat ChassisCache list" where
  "twoReads' = [\<lparr>cc_SystemID = ''hv1'', cc_Connected = True, cc_Bridges = [1], cc_Ports = [1, 2],
     cc_Interfaces = [\<lparr>vi_UUID = ''i1'', vi_LinkState = Some ''up'', vi_Statistics = [(''rx_errors'', 9)]\<rparr>]\<rparr>,
   \<lparr>cc_SystemID = ''hv2'', cc_Connected = False, cc_Bridges = [], cc_Ports = [], cc_Interfaces = []\<rparr>]"

theorem ovs_health_delta_witness:
  "map ch_ErrorInterfaces (fh_Members (snd (Aggregate (fst (Aggregate NewTracker twoReads)) twoReads'))) = [1, 0]"
proof -
  have "nul_free twoReads" "nul_free twoReads'" "distinct (map fst (seen twoReads))"
    by (simp_all add: nul_free_def twoReads_def twoReads'_def seen_def)
  from ovs_health_delta [OF this, of NewTracker] show ?thesis
    by (auto simp: was_def worse_def twoReads_def twoReads'_def counter_def errorKeys_def)
qed

end
