(* ===== verification/Debug_Stale.thy ===== *)
theory Debug_Stale
  imports NW_Rows
begin

text \<open>
  \<^verbatim>\<open>internal/debug/stale.go\<close>: MAC bindings that are too old, FDB entries without a port, and port bindings without a
  northbound entity.

  \<^item> What the listings return is a record \<open>stale_view\<close>; each may fail. \<^verbatim>\<open>Port_Binding\<close> is listed twice.
  \<^item> \<open>now\<close> is the clock in nanoseconds. The age in seconds and in hours goes through a floating-point number in the
    code: the two conversions \<open>secs\<close> and \<open>hours\<close> are parameters, as is the rendering \<open>rfc\<close> of a time.
\<close>

section \<open>Rows and results\<close>

record SBMACBinding =
  mb_UUID :: string
  mb_Datapath :: string
  mb_IP :: string
  mb_LogicalPort :: string
  mb_MAC :: string
  mb_Timestamp :: int

record SBFDB =
  fd_UUID :: string
  fd_DpKey :: int
  fd_MAC :: string
  fd_PortKey :: int

record StalePortBinding = PortBinding +
  sp_UUID :: string
  sp_Datapath :: string
  sp_TunnelKey :: int

datatype StaleSeverity = StaleWarning | StaleError

record StaleEntry =
  sle_Type :: string
  sle_Severity :: StaleSeverity
  sle_UUID :: string
  sle_Table :: string
  sle_Message :: "string \<times> arg list"
  sle_Details :: "(string \<times> arg) list"
  sle_AgeSeconds :: int

record StaleEntriesResult =
  slr_Total :: nat
  slr_StaleMAC :: nat
  slr_OrphanedFDB :: nat
  slr_OrphanedPorts :: nat
  slr_Entries :: "StaleEntry list"

record stale_view =
  sv_macs :: "SBMACBinding list result"
  sv_fdbs :: "SBFDB list result"
  sv_fdbPorts :: "StalePortBinding list result"
  sv_ports :: "StalePortBinding list result"
  sv_lsps :: "string list result"
  sv_lrps :: "string list result"

text \<open>The conversions the messages use.\<close>

record time_format =
  tf_secs :: "int \<Rightarrow> int"
  tf_hours :: "int \<Rightarrow> string"
  tf_rfc3339 :: "int \<Rightarrow> string"

section \<open>Operations\<close>

definition defaultStaleMaxAge :: int where
  "defaultStaleMaxAge = 24 * 3600 * 1000000000"

definition macTime :: "SBMACBinding \<Rightarrow> int" where
  "macTime m = mb_Timestamp m * 1000000"

definition isStaleMAC :: "int \<Rightarrow> int \<Rightarrow> SBMACBinding \<Rightarrow> bool" where
  "isStaleMAC now maxAge m = (mb_Timestamp m \<noteq> 0 \<and> macTime m < now - maxAge)"

definition macEntry :: "time_format \<Rightarrow> int \<Rightarrow> SBMACBinding \<Rightarrow> StaleEntry" where
  "macEntry tf now m = (let age = now - macTime m in
     \<lparr>sle_Type = ''mac_binding'', sle_Severity = StaleWarning, sle_UUID = mb_UUID m, sle_Table = ''MAC_Binding'',
      sle_Message = (''MAC binding %s -> %s is %.0f hours old'', [AStr (mb_IP m), AStr (mb_MAC m), AStr (tf_hours tf age)]),
      sle_Details = [(''ip'', AStr (mb_IP m)), (''mac'', AStr (mb_MAC m)), (''logical_port'', AStr (mb_LogicalPort m)),
        (''datapath'', AStr (mb_Datapath m)), (''timestamp'', AStr (tf_rfc3339 tf (macTime m)))],
      sle_AgeSeconds = tf_secs tf age\<rparr>)"

definition detectStaleMACBindings :: "time_format \<Rightarrow> int \<Rightarrow> int \<Rightarrow> stale_view \<Rightarrow> StaleEntry list result" where
  "detectStaleMACBindings tf now maxAge v = (case sv_macs v of
     Err err \<Rightarrow> Err err
   | Ok macs \<Rightarrow> Ok (map (macEntry tf now) (filter (isStaleMAC now maxAge) macs)))"

definition fdbEntry :: "SBFDB \<Rightarrow> StaleEntry" where
  "fdbEntry f = \<lparr>sle_Type = ''fdb'', sle_Severity = StaleWarning, sle_UUID = fd_UUID f, sle_Table = ''FDB'',
     sle_Message = (''FDB entry for MAC %s references port key %d which has no port binding'', [AStr (fd_MAC f), AInt (fd_PortKey f)]),
     sle_Details = [(''mac'', AStr (fd_MAC f)), (''port_key'', AInt (fd_PortKey f)), (''dp_key'', AInt (fd_DpKey f))],
     sle_AgeSeconds = 0\<rparr>"

definition detectOrphanedFDB :: "stale_view \<Rightarrow> StaleEntry list result" where
  "detectOrphanedFDB v = (case sv_fdbs v of
     Err err \<Rightarrow> Err err
   | Ok fdbs \<Rightarrow> (case sv_fdbPorts v of
       Err err \<Rightarrow> Err err
     | Ok pbs \<Rightarrow>
         (let validPortKeys = fold (\<lambda>pb. AList.update (sp_TunnelKey pb) True) pbs []
          in Ok (map fdbEntry (filter (\<lambda>f. map_of validPortKeys (fd_PortKey f) \<noteq> Some True) fdbs)))))"

definition unchecked_types :: "string list" where
  "unchecked_types = [''localnet'', ''l2gateway'', ''l3gateway'', ''localport'', ''vtep'']"

definition knownPorts :: "string list \<Rightarrow> string list \<Rightarrow> (string, bool) gomap" where
  "knownPorts lsps lrps = fold (\<lambda>n m. AList.update (''cr-'' @ n) True (AList.update n True m)) lrps
     (fold (\<lambda>n. AList.update n True) lsps [])"

definition portEntry :: "StalePortBinding \<Rightarrow> StaleEntry" where
  "portEntry pb = \<lparr>sle_Type = ''port_binding'', sle_Severity = StaleError, sle_UUID = sp_UUID pb, sle_Table = ''Port_Binding'',
     sle_Message = (''Port binding %q has no corresponding NB entity'', [AStr (pb_LogicalPort pb)]),
     sle_Details = [(''logical_port'', AStr (pb_LogicalPort pb)), (''type'', AStr (pb_Type pb)), (''datapath'', AStr (sp_Datapath pb))],
     sle_AgeSeconds = 0\<rparr>"

definition detectOrphanedPortBindings :: "stale_view \<Rightarrow> StaleEntry list result" where
  "detectOrphanedPortBindings v = (case sv_ports v of
     Err err \<Rightarrow> Err err
   | Ok pbs \<Rightarrow> (case sv_lsps v of
       Err err \<Rightarrow> Err err
     | Ok lsps \<Rightarrow> (case sv_lrps v of
         Err err \<Rightarrow> Err err
       | Ok lrps \<Rightarrow> Ok (map portEntry (filter (\<lambda>pb. pb_Type pb \<notin> set unchecked_types
             \<and> map_of (knownPorts lsps lrps) (pb_LogicalPort pb) \<noteq> Some True) pbs)))))"

definition DetectAll :: "time_format \<Rightarrow> int \<Rightarrow> stale_view \<Rightarrow> StaleEntriesResult result" where
  "DetectAll tf now v = (case detectStaleMACBindings tf now defaultStaleMaxAge v of
     Err err \<Rightarrow> Err (Wrapf ''checking MAC bindings: %w'' [] err)
   | Ok macs \<Rightarrow> (case detectOrphanedFDB v of
       Err err \<Rightarrow> Err (Wrapf ''checking FDB entries: %w'' [] err)
     | Ok fdbs \<Rightarrow> (case detectOrphanedPortBindings v of
         Err err \<Rightarrow> Err (Wrapf ''checking port bindings: %w'' [] err)
       | Ok ports \<Rightarrow>
           (let entries = macs @ fdbs @ ports
            in Ok \<lparr>slr_Total = length entries, slr_StaleMAC = length macs, slr_OrphanedFDB = length fdbs,
                   slr_OrphanedPorts = length ports, slr_Entries = entries\<rparr>))))"

section \<open>What is reported\<close>

lemma map_of_fold_True: "map_of (fold (\<lambda>x. AList.update (f x) True) xs m) k = (if k \<in> f ` set xs then Some True else map_of m k)"
  by (induction xs arbitrary: m) auto

lemma map_of_knownPorts:
  "map_of (knownPorts lsps lrps) k = Some True \<longleftrightarrow> k \<in> set lsps \<or> k \<in> set lrps \<or> (\<exists>n \<in> set lrps. k = ''cr-'' @ n)"
proof -
  have "map_of (fold (\<lambda>n m. AList.update (''cr-'' @ n) True (AList.update n True m)) lrps m) k =
      (if k \<in> set lrps \<or> (\<exists>n \<in> set lrps. k = ''cr-'' @ n) then Some True else map_of m k)" for m
    by (induction lrps arbitrary: m) auto
  then show ?thesis using map_of_fold_True [of "\<lambda>n. n" lsps "[]" k] by (auto simp: knownPorts_def simp del: map_of_eq_Some_iff)
qed

definition orphanedPort :: "string list \<Rightarrow> string list \<Rightarrow> StalePortBinding \<Rightarrow> bool" where
  "orphanedPort lsps lrps pb = (pb_Type pb \<notin> set unchecked_types \<and> pb_LogicalPort pb \<notin> set lsps
     \<and> pb_LogicalPort pb \<notin> set lrps \<and> (\<forall>n \<in> set lrps. pb_LogicalPort pb \<noteq> ''cr-'' @ n))"

text \<open>
  When the databases can be read, the detector reports exactly the MAC bindings with a timestamp older than 24 hours,
  the FDB entries whose port key no port binding has, and the port bindings of a checked type whose name is neither a
  switch port, a router port nor the redirect port of one, each once and in this order, and its counts add up.
\<close>

theorem stale_entries_exact:
  assumes "sv_macs v = Ok macs" "sv_fdbs v = Ok fdbs" "sv_fdbPorts v = Ok pbs" "sv_ports v = Ok ports"
    "sv_lsps v = Ok lsps" "sv_lrps v = Ok lrps"
  shows "\<exists>r. DetectAll tf now v = Ok r
    \<and> slr_Entries r = map (macEntry tf now) (filter (\<lambda>m. mb_Timestamp m \<noteq> 0 \<and> now - mb_Timestamp m * 1000000 > 86400000000000) macs)
        @ map fdbEntry (filter (\<lambda>f. \<forall>pb \<in> set pbs. sp_TunnelKey pb \<noteq> fd_PortKey f) fdbs)
        @ map portEntry (filter (orphanedPort lsps lrps) ports)
    \<and> slr_Total r = length (slr_Entries r) \<and> slr_Total r = slr_StaleMAC r + slr_OrphanedFDB r + slr_OrphanedPorts r"
proof -
  have "detectStaleMACBindings tf now defaultStaleMaxAge v =
      Ok (map (macEntry tf now) (filter (\<lambda>m. mb_Timestamp m \<noteq> 0 \<and> now - mb_Timestamp m * 1000000 > 86400000000000) macs))"
    by (simp add: detectStaleMACBindings_def assms isStaleMAC_def [abs_def] macTime_def defaultStaleMaxAge_def algebra_simps)
  moreover have "detectOrphanedFDB v = Ok (map fdbEntry (filter (\<lambda>f. \<forall>pb \<in> set pbs. sp_TunnelKey pb \<noteq> fd_PortKey f) fdbs))"
    by (auto simp: detectOrphanedFDB_def assms map_of_fold_True image_iff simp del: map_of_eq_Some_iff intro!: arg_cong [where f = "map fdbEntry"] filter_cong)
  moreover have "detectOrphanedPortBindings v = Ok (map portEntry (filter (orphanedPort lsps lrps) ports))"
    by (auto simp: detectOrphanedPortBindings_def assms map_of_knownPorts orphanedPort_def simp del: map_of_eq_Some_iff intro!: arg_cong [where f = "map portEntry"] filter_cong)
  ultimately show ?thesis by (simp add: DetectAll_def)
qed

definition staleExample :: stale_view where
  "staleExample = \<lparr>sv_macs = Ok [\<lparr>mb_UUID = ''m1'', mb_Datapath = ''d1'', mb_IP = ''10.0.0.1'', mb_LogicalPort = ''p1'',
       mb_MAC = ''aa'', mb_Timestamp = 1000\<rparr>],
     sv_fdbs = Ok [\<lparr>fd_UUID = ''f1'', fd_DpKey = 1, fd_MAC = ''bb'', fd_PortKey = 7\<rparr>],
     sv_fdbPorts = Ok [], sv_ports = Ok [], sv_lsps = Ok [''p1''], sv_lrps = Ok [''r1'']\<rparr>"

definition plainFormat :: time_format where
  "plainFormat = \<lparr>tf_secs = (\<lambda>ns. ns div 1000000000), tf_hours = (\<lambda>_. []), tf_rfc3339 = (\<lambda>_. [])\<rparr>"

theorem stale_entries_exact_witness:
  "\<exists>r. DetectAll plainFormat 100000000000000 staleExample = Ok r \<and> map sle_UUID (slr_Entries r) = [''m1'', ''f1'']"
proof -
  have "sv_macs staleExample = Ok [\<lparr>mb_UUID = ''m1'', mb_Datapath = ''d1'', mb_IP = ''10.0.0.1'', mb_LogicalPort = ''p1'',
       mb_MAC = ''aa'', mb_Timestamp = 1000\<rparr>]" "sv_fdbs staleExample = Ok [\<lparr>fd_UUID = ''f1'', fd_DpKey = 1, fd_MAC = ''bb'', fd_PortKey = 7\<rparr>]"
    "sv_fdbPorts staleExample = Ok []" "sv_ports staleExample = Ok []" "sv_lsps staleExample = Ok [''p1'']" "sv_lrps staleExample = Ok [''r1'']"
    by (simp_all add: staleExample_def)
  from stale_entries_exact [OF this, of plainFormat 100000000000000] show ?thesis
    by (auto simp: macEntry_def fdbEntry_def)
qed

text \<open>
  Tunnel keys are unique only within a datapath, but the port key of an FDB entry is looked up among the port bindings of
  all of them: an entry whose port is gone is not reported while some other network has a port with the same key.
\<close>

lemma orphaned_fdb_masked:
  assumes "sv_fdbs v = Ok [f]" "sv_fdbPorts v = Ok [pb]" "sp_TunnelKey pb = fd_PortKey f"
  shows "detectOrphanedFDB v = Ok []"
  using assms by (simp add: detectOrphanedFDB_def)

end
