(* ===== verification/Debug_AclAudit.thy ===== *)
theory Debug_AclAudit
  imports NW_Strings
begin

text \<open>
  \<^verbatim>\<open>internal/debug/acl_audit.go\<close>: redundant, shadowed and conflicting ACLs of a switch or port group.

  \<^item> The listings of the three tables may fail; \<open>cancelled\<close> says, for the number of groups already audited, whether the
    request has been cancelled, and with what error.
  \<^item> Go visits the groups in an unspecified order. It is the parameter \<open>visit\<close>, a permutation of the groups.
\<close>

section \<open>Rows and results\<close>

record AuditACL =
  aa_UUID :: string
  aa_Priority :: int
  aa_Match :: string
  aa_Action :: string
  aa_Direction :: string
  aa_Tier :: int

text \<open>A switch or a port group: what the audit reads of it.\<close>

record AclOwner =
  ao_UUID :: string
  ao_Name :: string
  ao_ACLs :: "string list"

datatype AuditSeverity = AuditSeverityInfo | AuditSeverityWarning | AuditSeverityError

datatype FindingType = Shadow | ConflictF | Redundant

record ACLAuditFinding =
  af_Type :: FindingType
  af_Severity :: AuditSeverity
  af_Message :: "string \<times> arg list"
  af_ACLUUID :: string
  af_ACLPriority :: int
  af_ACLMatch :: string
  af_ACLAction :: string
  af_ACLDirection :: string
  af_RelatedUUID :: string
  af_RelatedPriority :: int
  af_RelatedMatch :: string
  af_RelatedAction :: string
  af_Context :: string

record ACLAuditSummary =
  asu_Shadows :: nat
  asu_Conflicts :: nat
  asu_Redundant :: nat

record ACLAuditResult =
  ar_Total :: nat
  ar_Findings :: "ACLAuditFinding list"
  ar_Summary :: ACLAuditSummary
  ar_Truncated :: bool

definition maxACLFindings :: nat where
  "maxACLFindings = 500"

section \<open>Comparing two matches\<close>

text \<open>\<^verbatim>\<open>strings.Split(s, "&&")\<close>.\<close>

fun splitAnd :: "string \<Rightarrow> string list" where
  "splitAnd [] = [[]]"
| "splitAnd [c] = [[c]]"
| "splitAnd (c # d # s) =
    (if c = CHR ''&'' \<and> d = CHR ''&'' then [] # splitAnd s
     else case splitAnd (d # s) of [] \<Rightarrow> [[c]] | p # ps \<Rightarrow> (c # p) # ps)"

definition parseConjuncts :: "string \<Rightarrow> string list" where
  "parseConjuncts m = sort_slice (<) (filter (\<lambda>p. p \<noteq> []) (map TrimSpace (splitAnd m)))"

definition isSubsetOfConjuncts :: "string list \<Rightarrow> string list \<Rightarrow> bool" where
  "isSubsetOfConjuncts a b = (if a = [] then False else list_all (\<lambda>c. c \<in> set b) a)"

definition countCommonConjuncts :: "string list \<Rightarrow> string list \<Rightarrow> nat" where
  "countCommonConjuncts a b = length (filter (\<lambda>c. c \<in> set b) a)"

datatype matchRelationType = matchDisjoint | matchEqual | matchSuperset | matchSubset | matchConflict

definition matchRelation :: "string \<Rightarrow> string \<Rightarrow> matchRelationType" where
  "matchRelation a b =
    (let a = TrimSpace a; b = TrimSpace b
     in if a = b then matchEqual
        else if a = ''1'' then matchSuperset
        else if b = ''1'' then matchSubset
        else let conjA = parseConjuncts a; conjB = parseConjuncts b
          in if isSubsetOfConjuncts conjA conjB then matchSuperset
             else if isSubsetOfConjuncts conjB conjA then matchSubset
             else let common = countCommonConjuncts conjA conjB
               in if common > 0 \<and> common < length conjA \<and> common < length conjB then matchConflict else matchDisjoint)"

section \<open>Comparing two ACLs\<close>

definition aclFinding ::
    "FindingType \<Rightarrow> AuditSeverity \<Rightarrow> string \<times> arg list \<Rightarrow> AuditACL \<Rightarrow> AuditACL \<Rightarrow> (string, string) gomap \<Rightarrow> ACLAuditFinding" where
  "aclFinding ty sev msg higher lower aclContext =
    \<lparr>af_Type = ty, af_Severity = sev, af_Message = msg, af_ACLUUID = aa_UUID lower, af_ACLPriority = aa_Priority lower,
     af_ACLMatch = aa_Match lower, af_ACLAction = aa_Action lower, af_ACLDirection = aa_Direction lower,
     af_RelatedUUID = aa_UUID higher, af_RelatedPriority = aa_Priority higher, af_RelatedMatch = aa_Match higher,
     af_RelatedAction = aa_Action higher,
     af_Context = (case map_of aclContext (aa_UUID lower) of None \<Rightarrow> [] | Some n \<Rightarrow> n)\<rparr>"

definition compareACLs :: "AuditACL \<Rightarrow> AuditACL \<Rightarrow> (string, string) gomap \<Rightarrow> ACLAuditFinding list" where
  "compareACLs higher lower aclContext =
    (let rel = matchRelation (aa_Match higher) (aa_Match lower);
         lohi = [AInt (aa_Priority lower), AInt (aa_Priority higher)];
         hilo = [AInt (aa_Priority higher), AInt (aa_Priority lower)]
     in if rel = matchEqual
        then (if aa_Action higher = aa_Action lower
              then [aclFinding Redundant AuditSeverityWarning
                      (''ACL at priority %d has identical match and action as ACL at priority %d'', lohi) higher lower aclContext]
              else [aclFinding Shadow AuditSeverityError
                      (''ACL at priority %d is completely shadowed by ACL at priority %d (same match, different action)'', lohi)
                      higher lower aclContext])
        else if rel = matchSuperset \<and> aa_Priority higher > aa_Priority lower
        then (if aa_Action higher \<noteq> aa_Action lower
              then [aclFinding Shadow AuditSeverityError
                      (''ACL at priority %d is shadowed by broader ACL at priority %d'', lohi) higher lower aclContext]
              else [])
        else if rel = matchConflict
        then [aclFinding ConflictF AuditSeverityWarning
                (''ACLs at priorities %d and %d have overlapping but contradictory matches'', hilo) higher lower aclContext]
        else [])"

section \<open>The audit\<close>

definition buildACLContextMap :: "AclOwner list \<Rightarrow> AclOwner list \<Rightarrow> (string, string) gomap" where
  "buildACLContextMap switches portGroups =
    fold (\<lambda>owner m. fold (\<lambda>u. AList.update u (ao_Name owner)) (ao_ACLs owner) m) (switches @ portGroups) []"

type_synonym groupKey = "string \<times> string \<times> int"

definition addScope :: "(string, AuditACL) gomap \<Rightarrow> string \<Rightarrow> string list \<Rightarrow> (groupKey, AuditACL list) gomap \<Rightarrow> (groupKey, AuditACL list) gomap" where
  "addScope aclByUUID scope aclUUIDs groups = fold (\<lambda>u groups. case map_of aclByUUID u of
       None \<Rightarrow> groups
     | Some acl \<Rightarrow>
         (let key = (scope, aa_Direction acl, aa_Tier acl)
          in AList.update key ((case map_of groups key of None \<Rightarrow> [] | Some g \<Rightarrow> g) @ [acl]) groups)) aclUUIDs groups"

definition aclGroups :: "AuditACL list \<Rightarrow> AclOwner list \<Rightarrow> AclOwner list \<Rightarrow> (groupKey, AuditACL list) gomap" where
  "aclGroups acls switches portGroups =
    (let aclByUUID = fold (\<lambda>a. AList.update (aa_UUID a) a) acls []
     in fold (\<lambda>pg. addScope aclByUUID (''pg:'' @ ao_UUID pg) (ao_ACLs pg)) portGroups
          (fold (\<lambda>ls. addScope aclByUUID (''ls:'' @ ao_UUID ls) (ao_ACLs ls)) switches []))"

text \<open>The loop over the ACLs after the \<open>i\<close>-th, which stops at the cap, and the loop over \<open>i\<close>, which stops once truncated.\<close>

fun auditRow :: "(string, string) gomap \<Rightarrow> AuditACL \<Rightarrow> AuditACL list \<Rightarrow> ACLAuditFinding list \<Rightarrow> ACLAuditFinding list \<times> bool" where
  "auditRow cx higher [] fs = (fs, False)"
| "auditRow cx higher (lower # ls) fs =
    (let fs = fs @ compareACLs higher lower cx
     in if length fs \<ge> maxACLFindings then (take maxACLFindings fs, True) else auditRow cx higher ls fs)"

fun auditGroup :: "(string, string) gomap \<Rightarrow> AuditACL list \<Rightarrow> ACLAuditFinding list \<times> bool \<Rightarrow> ACLAuditFinding list \<times> bool" where
  "auditGroup cx [] (fs, trunc) = (fs, trunc)"
| "auditGroup cx (higher # ls) (fs, trunc) = (if trunc then (fs, trunc) else auditGroup cx ls (auditRow cx higher ls fs))"

fun auditGroups :: "(nat \<Rightarrow> error option) \<Rightarrow> (string, string) gomap \<Rightarrow> nat \<Rightarrow> AuditACL list list
    \<Rightarrow> ACLAuditFinding list \<times> bool \<Rightarrow> (ACLAuditFinding list \<times> bool) result" where
  "auditGroups cancelled cx n [] acc = Ok acc"
| "auditGroups cancelled cx n (g # gs) acc =
    (case cancelled n of
       Some err \<Rightarrow> Err err
     | None \<Rightarrow> auditGroups cancelled cx (Suc n) gs (auditGroup cx (sort_slice (\<lambda>a b. aa_Priority a > aa_Priority b) g) acc))"

definition summarizeFindings :: "ACLAuditFinding list \<Rightarrow> ACLAuditSummary" where
  "summarizeFindings fs = \<lparr>asu_Shadows = length (filter (\<lambda>f. af_Type f = Shadow) fs),
     asu_Conflicts = length (filter (\<lambda>f. af_Type f = ConflictF) fs),
     asu_Redundant = length (filter (\<lambda>f. af_Type f = Redundant) fs)\<rparr>"

definition Audit ::
    "(nat \<Rightarrow> error option) \<Rightarrow> ((groupKey, AuditACL list) gomap \<Rightarrow> AuditACL list list) \<Rightarrow> AuditACL list result \<Rightarrow> AclOwner list result
     \<Rightarrow> AclOwner list result \<Rightarrow> ACLAuditResult result" where
  "Audit cancelled visit racls rswitches rgroups =
    (case racls of
       Err err \<Rightarrow> Err (Wrapf ''listing ACLs: %w'' [] err)
     | Ok acls \<Rightarrow> (case rswitches of
         Err err \<Rightarrow> Err (Wrapf ''listing logical switches: %w'' [] err)
       | Ok switches \<Rightarrow> (case rgroups of
           Err err \<Rightarrow> Err (Wrapf ''listing port groups: %w'' [] err)
         | Ok portGroups \<Rightarrow>
             (case auditGroups cancelled (buildACLContextMap switches portGroups) 0 (visit (aclGroups acls switches portGroups)) ([], False) of
                Err err \<Rightarrow> Err err
              | Ok (fs, trunc) \<Rightarrow> Ok \<lparr>ar_Total = length acls, ar_Findings = fs, ar_Summary = summarizeFindings fs, ar_Truncated = trunc\<rparr>))))"

section \<open>The groups\<close>

definition groupAt :: "(groupKey, AuditACL list) gomap \<Rightarrow> groupKey \<Rightarrow> AuditACL list" where
  "groupAt groups key = (case map_of groups key of None \<Rightarrow> [] | Some g \<Rightarrow> g)"

text \<open>The ACLs of an owner that exist, and those of them with a direction and tier.\<close>

definition ownACLs :: "(string, AuditACL) gomap \<Rightarrow> string list \<Rightarrow> string \<times> int \<Rightarrow> AuditACL list" where
  "ownACLs aclByUUID us dt = filter (\<lambda>a. (aa_Direction a, aa_Tier a) = dt) (List.map_filter (map_of aclByUUID) us)"

lemma groupAt_addScope:
  "groupAt (addScope aclByUUID scope us groups) key =
   groupAt groups key @ (if fst key = scope then ownACLs aclByUUID us (snd key) else [])"
proof (induction us arbitrary: groups)
  case (Cons u us)
  then show ?case
    by (cases "map_of aclByUUID u"; cases key) (auto simp: addScope_def ownACLs_def groupAt_def List.map_filter_def simp del: map_of_eq_Some_iff)
qed (simp add: addScope_def ownACLs_def List.map_filter_def)

lemma gomap_ok_addScope: "gomap_ok groups \<Longrightarrow> gomap_ok (addScope aclByUUID scope us groups)"
  unfolding addScope_def by (induction us arbitrary: groups) (auto split: option.split)

lemma groupAt_owners:
  "groupAt (fold (\<lambda>x. addScope aclByUUID (pre @ ao_UUID x) (ao_ACLs x)) owners groups) key =
   groupAt groups key @ concat (map (\<lambda>x. if fst key = pre @ ao_UUID x then ownACLs aclByUUID (ao_ACLs x) (snd key) else []) owners)"
  by (induction owners arbitrary: groups) (simp_all add: groupAt_addScope)

lemma gomap_ok_owners:
  "gomap_ok groups \<Longrightarrow> gomap_ok (fold (\<lambda>x. addScope aclByUUID (pre @ ao_UUID x) (ao_ACLs x)) owners groups)"
  by (induction owners arbitrary: groups) (simp_all add: gomap_ok_addScope)

definition aclByUUID_of :: "AuditACL list \<Rightarrow> (string, AuditACL) gomap" where
  "aclByUUID_of acls = fold (\<lambda>a. AList.update (aa_UUID a) a) acls []"

lemma aclByUUID_of:
  assumes "distinct (map aa_UUID acls)"
  shows "map_of (aclByUUID_of acls) u = Some a \<longleftrightarrow> a \<in> set acls \<and> aa_UUID a = u"
proof -
  have "map_of (fold (\<lambda>a. AList.update (aa_UUID a) a) acls m) u = Some a \<longleftrightarrow>
      (a \<in> set acls \<and> aa_UUID a = u) \<or> (u \<notin> aa_UUID ` set acls \<and> map_of m u = Some a)" for m
    using assms by (induction acls arbitrary: m) (auto simp del: map_of_eq_Some_iff)
  from this [of "[]"] show ?thesis by (simp add: aclByUUID_of_def del: map_of_eq_Some_iff)
qed

lemma concat_owner:
  assumes "distinct (map ao_UUID owners)" "x \<in> set owners"
  shows "concat (map (\<lambda>y. if ao_UUID x = ao_UUID y then f y else []) owners) = f x"
  using assms
proof (induction owners)
  case (Cons y owners)
  have "concat (map (\<lambda>y. if ao_UUID x = ao_UUID y then f y else []) owners) = []" if "ao_UUID x \<notin> ao_UUID ` set owners"
    using that by (auto simp: image_iff)
  with Cons show ?case by (auto simp: image_iff)
qed simp

text \<open>
  What the databases guarantee of the listings: UUIDs identify rows, and the references of an owner are a set.
\<close>

definition well_listed :: "AuditACL list \<Rightarrow> AclOwner list \<Rightarrow> AclOwner list \<Rightarrow> bool" where
  "well_listed acls switches portGroups \<longleftrightarrow> distinct (map aa_UUID acls) \<and> distinct (map ao_UUID switches)
     \<and> distinct (map ao_UUID portGroups) \<and> list_all (\<lambda>x. distinct (ao_ACLs x)) (switches @ portGroups)"

lemma groupAt_aclGroups_conv:
  "groupAt (aclGroups acls switches portGroups) key =
   concat (map (\<lambda>x. if fst key = ''ls:'' @ ao_UUID x then ownACLs (aclByUUID_of acls) (ao_ACLs x) (snd key) else []) switches) @
   concat (map (\<lambda>x. if fst key = ''pg:'' @ ao_UUID x then ownACLs (aclByUUID_of acls) (ao_ACLs x) (snd key) else []) portGroups)"
proof -
  have "groupAt [] key = []" by (simp add: groupAt_def)
  then show ?thesis unfolding aclGroups_def Let_def groupAt_owners aclByUUID_of_def [symmetric] by (simp only: append_Nil)
qed

lemma groupAt_aclGroups:
  assumes "well_listed acls switches portGroups"
  shows "x \<in> set switches \<Longrightarrow> groupAt (aclGroups acls switches portGroups) (''ls:'' @ ao_UUID x, dt) =
      ownACLs (aclByUUID_of acls) (ao_ACLs x) dt"
    and "x \<in> set portGroups \<Longrightarrow> groupAt (aclGroups acls switches portGroups) (''pg:'' @ ao_UUID x, dt) =
      ownACLs (aclByUUID_of acls) (ao_ACLs x) dt"
  using assms concat_owner [of switches x "\<lambda>x. ownACLs (aclByUUID_of acls) (ao_ACLs x) dt"]
    concat_owner [of portGroups x "\<lambda>x. ownACLs (aclByUUID_of acls) (ao_ACLs x) dt"]
  unfolding groupAt_aclGroups_conv fst_conv snd_conv by (simp_all add: well_listed_def)

text \<open>Two different ACLs that apply to the same traffic: attached to one owner, in the same direction and tier.\<close>

definition rivals :: "AuditACL list \<Rightarrow> AclOwner list \<Rightarrow> AuditACL \<Rightarrow> AuditACL \<Rightarrow> bool" where
  "rivals acls owners h l \<longleftrightarrow> h \<in> set acls \<and> l \<in> set acls \<and> h \<noteq> l \<and> aa_Direction h = aa_Direction l \<and> aa_Tier h = aa_Tier l
     \<and> (\<exists>x \<in> set owners. aa_UUID h \<in> set (ao_ACLs x) \<and> aa_UUID l \<in> set (ao_ACLs x))"

lemma in_map_filter: "a \<in> set (List.map_filter f xs) \<longleftrightarrow> (\<exists>x \<in> set xs. f x = Some a)"
  by (induction xs) (auto simp: List.map_filter_simps split: option.split)

lemma set_ownACLs:
  assumes "distinct (map aa_UUID acls)"
  shows "set (ownACLs (aclByUUID_of acls) us dt) = {a \<in> set acls. aa_UUID a \<in> set us \<and> (aa_Direction a, aa_Tier a) = dt}"
  by (auto simp: ownACLs_def in_map_filter aclByUUID_of [OF assms] simp del: map_of_eq_Some_iff)

lemma distinct_ownACLs:
  assumes "distinct (map aa_UUID acls)" "distinct us"
  shows "distinct (ownACLs (aclByUUID_of acls) us dt)"
proof -
  have "distinct (List.map_filter (map_of (aclByUUID_of acls)) us)"
    using assms(2)
  proof (induction us)
    case (Cons u us)
    have "a \<notin> set (List.map_filter (map_of (aclByUUID_of acls)) us)" if "map_of (aclByUUID_of acls) u = Some a" for a
      using that Cons.prems by (auto simp: in_map_filter aclByUUID_of [OF assms(1)] simp del: map_of_eq_Some_iff)
    with Cons show ?case by (auto simp: List.map_filter_simps simp del: map_of_eq_Some_iff split: option.split)
  qed (simp add: List.map_filter_simps)
  then show ?thesis by (simp add: ownACLs_def)
qed

text \<open>The groups are exactly the ACLs of an owner with a direction and a tier, without repetition.\<close>

lemma aclGroups_values:
  assumes wl: "well_listed acls switches portGroups" and "g \<in> set (map snd (aclGroups acls switches portGroups))"
  obtains "g = []" | x dt where "x \<in> set (switches @ portGroups)" "g = ownACLs (aclByUUID_of acls) (ao_ACLs x) dt"
proof -
  have ok: "gomap_ok (aclGroups acls switches portGroups)"
    unfolding aclGroups_def Let_def by (intro gomap_ok_owners) simp
  from assms(2) obtain key where "(key, g) \<in> set (aclGroups acls switches portGroups)" by auto
  with ok have g: "g = groupAt (aclGroups acls switches portGroups) key" by (simp add: groupAt_def)
  consider x where "x \<in> set switches" "fst key = ''ls:'' @ ao_UUID x"
    | x where "x \<in> set portGroups" "fst key = ''pg:'' @ ao_UUID x"
    | "\<forall>x \<in> set switches. fst key \<noteq> ''ls:'' @ ao_UUID x" "\<forall>x \<in> set portGroups. fst key \<noteq> ''pg:'' @ ao_UUID x" by blast
  then show thesis
  proof cases
    case 1
    then have "key = (''ls:'' @ ao_UUID x, snd key)" by (metis prod.collapse)
    then show thesis using that(2) [of x "snd key"] 1 groupAt_aclGroups(1) [OF wl] g by (metis UnI1 set_append)
  next
    case 2
    then have "key = (''pg:'' @ ao_UUID x, snd key)" by (metis prod.collapse)
    then show thesis using that(2) [of x "snd key"] 2 groupAt_aclGroups(2) [OF wl] g by (metis UnI2 set_append)
  next
    case 3
    then have "g = []" unfolding g groupAt_aclGroups_conv by auto
    then show thesis by (rule that(1))
  qed
qed

section \<open>The loops\<close>

fun pairFindings :: "(string, string) gomap \<Rightarrow> AuditACL list \<Rightarrow> ACLAuditFinding list" where
  "pairFindings cx [] = []"
| "pairFindings cx (h # ls) = concat (map (\<lambda>l. compareACLs h l cx) ls) @ pairFindings cx ls"

definition byPriority :: "AuditACL list \<Rightarrow> AuditACL list" where
  "byPriority g = sort_slice (\<lambda>a b. aa_Priority a > aa_Priority b) g"

text \<open>Findings cut at the cap, and whether the cap was reached.\<close>

definition capped :: "ACLAuditFinding list \<Rightarrow> ACLAuditFinding list \<times> bool" where
  "capped fs = (take maxACLFindings fs, maxACLFindings \<le> length fs)"

lemma capped_full: "maxACLFindings \<le> length fs \<Longrightarrow> capped (fs @ gs) = capped fs"
  by (simp add: capped_def)

lemma auditRow_capped:
  "length fs < maxACLFindings \<Longrightarrow> auditRow cx h ls fs = capped (fs @ concat (map (\<lambda>l. compareACLs h l cx) ls))"
  by (induction ls arbitrary: fs) (auto simp: capped_def)

lemma auditGroup_capped: "auditGroup cx g (capped fs) = capped (fs @ pairFindings cx g)"
proof (induction g arbitrary: fs)
  case (Cons h ls)
  show ?case
  proof (cases "maxACLFindings \<le> length fs")
    case True
    then show ?thesis using capped_full [OF True, of "pairFindings cx (h # ls)"] by (simp add: capped_def)
  next
    case False
    then have "capped fs = (fs, False)" by (simp add: capped_def)
    then show ?thesis using auditRow_capped [of fs cx h ls] False
        Cons.IH [of "fs @ concat (map (\<lambda>l. compareACLs h l cx) ls)"] by simp
  qed
qed (simp add: capped_def)

lemma auditGroups_capped:
  assumes "\<And>i. cancelled i = None"
  shows "auditGroups cancelled cx n gs (capped fs) = Ok (capped (fs @ concat (map (pairFindings cx \<circ> byPriority) gs)))"
  by (induction gs arbitrary: n fs) (simp_all add: assms auditGroup_capped flip: byPriority_def)

lemma auditGroups_Ok:
  assumes "auditGroups cancelled cx n gs acc = Ok r"
  shows "auditGroups (\<lambda>_. None) cx n gs acc = Ok r"
  using assms by (induction gs arbitrary: n acc) (auto split: option.splits)

lemma pairFindings_split:
  assumes "f \<in> set (pairFindings cx g)"
  obtains xs h ys l zs where "g = xs @ h # ys @ l # zs" "f \<in> set (compareACLs h l cx)"
  using assms
proof (induction g arbitrary: thesis)
  case (Cons h ls)
  then consider l where "l \<in> set ls" "f \<in> set (compareACLs h l cx)" | "f \<in> set (pairFindings cx ls)" by auto
  then show ?case
  proof cases
    case 1
    then obtain ys zs where "ls = ys @ l # zs" by (meson split_list)
    then show ?thesis using Cons.prems(1) [of "[]" h ys l zs] 1 by simp
  next
    case 2
    then obtain xs h' ys l zs where "ls = xs @ h' # ys @ l # zs" "f \<in> set (compareACLs h' l cx)" using Cons.IH by blast
    then show ?thesis using Cons.prems(1) [of "h # xs"] by simp
  qed
qed simp

lemma pairFindings_append: "set (compareACLs h l cx) \<subseteq> set (pairFindings cx (xs @ h # ys @ l # zs))"
  by (induction xs) auto

lemma byPriority_order:
  assumes "byPriority g = xs @ h # ys @ l # zs"
  shows "aa_Priority l \<le> aa_Priority h"
  using sorted_sort_slice_desc [of aa_Priority g] assms by (simp add: byPriority_def sorted_wrt_append)

lemma byPriority_pairs:
  assumes "f \<in> set (pairFindings cx (byPriority g))" "distinct g"
  obtains h l where "h \<in> set g" "l \<in> set g" "h \<noteq> l" "aa_Priority l \<le> aa_Priority h" "f \<in> set (compareACLs h l cx)"
proof -
  obtain xs h ys l zs where s: "byPriority g = xs @ h # ys @ l # zs" "f \<in> set (compareACLs h l cx)"
    using pairFindings_split [OF assms(1)] .
  have "set (byPriority g) = set g" "distinct (byPriority g)" using assms(2) by (simp_all add: byPriority_def)
  then show thesis using that [of h l] s byPriority_order [OF s(1)] by auto
qed

lemma byPriority_covers:
  assumes "h \<in> set g" "l \<in> set g" "h \<noteq> l"
  shows "set (compareACLs h l cx) \<subseteq> set (pairFindings cx (byPriority g))
    \<or> (aa_Priority h \<le> aa_Priority l \<and> set (compareACLs l h cx) \<subseteq> set (pairFindings cx (byPriority g)))"
proof -
  have "set (byPriority g) = set g" by (simp add: byPriority_def)
  with assms obtain xs ys where s: "byPriority g = xs @ h # ys" by (metis split_list)
  with assms \<open>set (byPriority g) = set g\<close> obtain us vs where "xs = us @ l # vs \<or> ys = us @ l # vs"
    by (metis in_set_conv_decomp set_ConsD Un_iff set_append)
  then show ?thesis
    using s pairFindings_append [of l h cx us vs ys] pairFindings_append [of h l cx xs us vs] byPriority_order [of g us l vs h ys] by auto
qed

section \<open>The audit\<close>

text \<open>
  The meaning of a flat match, a conjunction of atoms: \<open>1\<close> matches everything, and otherwise each atom has to hold.
\<close>

definition flatMatch :: "(string \<Rightarrow> 'p \<Rightarrow> bool) \<Rightarrow> string \<Rightarrow> 'p \<Rightarrow> bool" where
  "flatMatch holds m p \<longleftrightarrow> TrimSpace m = ''1'' \<or> (\<forall>c \<in> set (parseConjuncts (TrimSpace m)). holds c p)"

lemma matchRelation_sound:
  assumes "matchRelation a b = matchEqual \<or> matchRelation a b = matchSuperset" "flatMatch holds b p"
  shows "flatMatch holds a p"
  using assms
  by (auto simp: matchRelation_def flatMatch_def isSubsetOfConjuncts_def list_all_iff split: if_splits)

lemma compareACLs_fields:
  assumes "f \<in> set (compareACLs h l cx)"
  shows "af_ACLUUID f = aa_UUID l" "af_RelatedUUID f = aa_UUID h"
    "af_Type f = ConflictF \<longleftrightarrow> matchRelation (aa_Match h) (aa_Match l) = matchConflict"
    "af_Type f \<noteq> ConflictF \<Longrightarrow> matchRelation (aa_Match h) (aa_Match l) \<in> {matchEqual, matchSuperset}"
    "af_Type f = Redundant \<Longrightarrow> aa_Action h = aa_Action l"
    "af_Type f = Shadow \<Longrightarrow> aa_Action h \<noteq> aa_Action l"
  using assms by (auto simp: compareACLs_def aclFinding_def split: if_splits)

definition allFindings :: "AuditACL list list \<Rightarrow> (string, string) gomap \<Rightarrow> ACLAuditFinding list" where
  "allFindings gs cx = concat (map (pairFindings cx \<circ> byPriority) gs)"

lemma Audit_conv:
  "Audit (\<lambda>_. None) visit (Ok acls) (Ok switches) (Ok pgs) =
    (let fs = allFindings (visit (aclGroups acls switches pgs)) (buildACLContextMap switches pgs)
     in Ok \<lparr>ar_Total = length acls, ar_Findings = take maxACLFindings fs, ar_Summary = summarizeFindings (take maxACLFindings fs),
            ar_Truncated = (maxACLFindings \<le> length fs)\<rparr>)"
proof -
  have "capped [] = ([], False)" by (simp add: capped_def maxACLFindings_def)
  then show ?thesis
    using auditGroups_capped [of "\<lambda>_. None" "buildACLContextMap switches pgs" 0 "visit (aclGroups acls switches pgs)" "[]"]
    by (simp add: Audit_def allFindings_def) (simp add: capped_def)
qed

lemma Audit_Ok:
  assumes "Audit cancelled visit (Ok acls) (Ok switches) (Ok pgs) = Ok r"
  shows "Audit (\<lambda>_. None) visit (Ok acls) (Ok switches) (Ok pgs) = Ok r"
  using assms by (auto simp: Audit_def dest: auditGroups_Ok split: sum.splits)

text \<open>The unspecified order of a Go map: some permutation of its values.\<close>

definition visits_all :: "((groupKey, AuditACL list) gomap \<Rightarrow> AuditACL list list) \<Rightarrow> bool" where
  "visits_all visit \<longleftrightarrow> (\<forall>m. mset (visit m) = mset (map snd m))"

lemma allFindings_sound:
  assumes wl: "well_listed acls switches pgs" and "visits_all visit" and "f \<in> set (allFindings (visit (aclGroups acls switches pgs)) cx)"
  obtains h l where "rivals acls (switches @ pgs) h l" "aa_Priority l \<le> aa_Priority h" "f \<in> set (compareACLs h l cx)"
proof -
  from assms(2) have "set (visit m) = set (map snd m)" for m unfolding visits_all_def by (metis set_mset_mset)
  with assms(3) obtain g where g: "g \<in> set (map snd (aclGroups acls switches pgs))" "f \<in> set (pairFindings cx (byPriority g))"
    by (auto simp: allFindings_def)
  from wl g(1) show thesis
  proof (cases rule: aclGroups_values)
    case 1
    with g(2) show thesis by (simp add: byPriority_def)
  next
    case (2 x dt)
    have d: "distinct (map aa_UUID acls)" "distinct (ao_ACLs x)" using wl 2(1) by (auto simp: well_listed_def list_all_iff)
    obtain h l where hl: "h \<in> set g" "l \<in> set g" "h \<noteq> l" "aa_Priority l \<le> aa_Priority h" "f \<in> set (compareACLs h l cx)"
      using byPriority_pairs [OF g(2)] distinct_ownACLs [OF d] 2(2) by blast
    have "rivals acls (switches @ pgs) h l"
      unfolding rivals_def using hl(1-3) 2 by (auto simp: set_ownACLs [OF d(1)])
    then show thesis using hl(4,5) by (rule that)
  qed
qed

lemma rivals_grouped:
  assumes wl: "well_listed acls switches pgs" and "rivals acls (switches @ pgs) h l"
  obtains g where "g \<in> set (map snd (aclGroups acls switches pgs))" "h \<in> set g" "l \<in> set g"
proof -
  let ?dt = "(aa_Direction h, aa_Tier h)"
  from assms obtain x where x: "x \<in> set switches \<or> x \<in> set pgs" "aa_UUID h \<in> set (ao_ACLs x)" "aa_UUID l \<in> set (ao_ACLs x)"
    by (auto simp: rivals_def)
  have d: "distinct (map aa_UUID acls)" using wl by (simp add: well_listed_def)
  let ?g = "ownACLs (aclByUUID_of acls) (ao_ACLs x) ?dt"
  have hl: "h \<in> set ?g" "l \<in> set ?g" using x assms(2) by (auto simp: set_ownACLs [OF d] rivals_def)
  from x(1) obtain key where key: "groupAt (aclGroups acls switches pgs) key = ?g" using groupAt_aclGroups [OF wl] by blast
  with hl have "map_of (aclGroups acls switches pgs) key = Some ?g"
    by (cases "map_of (aclGroups acls switches pgs) key") (auto simp: groupAt_def simp del: map_of_eq_Some_iff)
  then have "?g \<in> set (map snd (aclGroups acls switches pgs))" by (force dest: map_of_SomeD simp del: map_of_eq_Some_iff)
  then show thesis using hl by (rule that)
qed

lemma allFindings_complete:
  assumes wl: "well_listed acls switches pgs" and "visits_all visit" and "rivals acls (switches @ pgs) h l"
  shows "set (compareACLs h l cx) \<subseteq> set (allFindings (visit (aclGroups acls switches pgs)) cx)
    \<or> (aa_Priority h \<le> aa_Priority l \<and> set (compareACLs l h cx) \<subseteq> set (allFindings (visit (aclGroups acls switches pgs)) cx))"
proof -
  obtain g where g: "g \<in> set (map snd (aclGroups acls switches pgs))" "h \<in> set g" "l \<in> set g"
    using rivals_grouped [OF wl assms(3)] .
  from assms(2) have "set (visit m) = set (map snd m)" for m unfolding visits_all_def by (metis set_mset_mset)
  with g(1) have "set (pairFindings cx (byPriority g)) \<subseteq> set (allFindings (visit (aclGroups acls switches pgs)) cx)"
    by (auto simp: allFindings_def)
  moreover have "h \<noteq> l" using assms(3) by (simp add: rivals_def)
  ultimately show ?thesis using byPriority_covers [OF g(2,3), of cx] by blast
qed



definition exampleACLs :: "AuditACL list" where
  "exampleACLs = [\<lparr>aa_UUID = ''a1'', aa_Priority = 1000, aa_Match = ''ip4 && tcp'', aa_Action = ''drop'', aa_Direction = ''to-lport'', aa_Tier = 0\<rparr>,
     \<lparr>aa_UUID = ''a2'', aa_Priority = 1002, aa_Match = ''ip4'', aa_Action = ''allow'', aa_Direction = ''to-lport'', aa_Tier = 0\<rparr>]"

definition exampleOwners :: "AclOwner list" where
  "exampleOwners = [\<lparr>ao_UUID = ''s1'', ao_Name = ''sw'', ao_ACLs = [''a1'', ''a2'']\<rparr>]"

definition exampleFinding :: ACLAuditFinding where
  "exampleFinding = aclFinding Shadow AuditSeverityError
     (''ACL at priority %d is shadowed by broader ACL at priority %d'', [AInt 1000, AInt 1002])
     (exampleACLs ! 1) (exampleACLs ! 0) [(''a1'', ''sw''), (''a2'', ''sw'')]"

lemma example_well_listed: "well_listed exampleACLs exampleOwners [] \<and> visits_all (map snd)"
  by (simp add: well_listed_def exampleACLs_def exampleOwners_def visits_all_def)

lemma example_relation: "matchRelation ''ip4'' ''ip4 && tcp'' = matchSuperset"
  by code_simp

lemma example_rivals: "rivals exampleACLs (exampleOwners @ []) (exampleACLs ! 1) (exampleACLs ! 0)"
  by (simp add: rivals_def exampleACLs_def exampleOwners_def)

lemma example_findings: "allFindings (map snd (aclGroups exampleACLs exampleOwners [])) (buildACLContextMap exampleOwners []) = [exampleFinding]"
  by code_simp

lemma example_audit:
  obtains r where "Audit (\<lambda>_. None) (map snd) (Ok exampleACLs) (Ok exampleOwners) (Ok []) = Ok r" "ar_Findings r = [exampleFinding]" "\<not> ar_Truncated r"
  by (simp add: Audit_conv example_findings maxACLFindings_def)

lemma example_uuids: "af_ACLUUID exampleFinding = ''a1''" "af_Type exampleFinding = Shadow"
  by (simp_all add: exampleFinding_def aclFinding_def exampleACLs_def)



text \<open>
  Matches are split at every \<^verbatim>\<open>&&\<close>, inside parentheses too. Under a negation that turns the comparison around: the first
  of these two matches is implied by the second's negand, so it is the narrower one, and is reported as the broader.
\<close>

lemma audit_negation_reversed: "matchRelation ''!(ip4 && tcp)'' ''!(ip4 && ip.ttl == 1 && tcp)'' = matchSuperset"
  by code_simp

end
