(* ===== verification/NW_Cache.thy ===== *)
theory NW_Cache
  imports NW_Rows NW_GoValues
begin

text \<open>
  Reading the libovsdb caches: a listing that may fail, \<^verbatim>\<open>Get\<close> by UUID, and \<^verbatim>\<open>WhereCache\<close> with a predicate, of which the
  callers mostly use the first row and ignore the error. \<^verbatim>\<open>ChassisByUUID\<close> is from \<^verbatim>\<open>internal/inventory/chassis.go\<close>.
\<close>

definition cacheGet :: "('a \<Rightarrow> string) \<Rightarrow> string \<Rightarrow> 'a list result \<Rightarrow> 'a result" where
  "cacheGet uuid u rows = (case rows of
     Err err \<Rightarrow> Err err
   | Ok rs \<Rightarrow> (case find (\<lambda>r. uuid r = u) rs of None \<Rightarrow> Err ErrNotFound | Some r \<Rightarrow> Ok r))"

definition whereCache :: "('a \<Rightarrow> bool) \<Rightarrow> 'a list result \<Rightarrow> 'a list result" where
  "whereCache P rows = (case rows of Err err \<Rightarrow> Err err | Ok rs \<Rightarrow> Ok (filter P rs))"

text \<open>The first matching row, none when the listing fails.\<close>

definition firstWhere :: "('a \<Rightarrow> bool) \<Rightarrow> 'a list result \<Rightarrow> 'a option" where
  "firstWhere P rows = (case whereCache P rows of Err _ \<Rightarrow> None | Ok [] \<Rightarrow> None | Ok (r # _) \<Rightarrow> Some r)"

definition allWhere :: "('a \<Rightarrow> bool) \<Rightarrow> 'a list result \<Rightarrow> 'a list" where
  "allWhere P rows = (case whereCache P rows of Err _ \<Rightarrow> [] | Ok rs \<Rightarrow> rs)"

definition getRow :: "('a \<Rightarrow> string) \<Rightarrow> string \<Rightarrow> 'a list result \<Rightarrow> 'a option" where
  "getRow uuid u rows = (case cacheGet uuid u rows of Err _ \<Rightarrow> None | Ok r \<Rightarrow> Some r)"

definition ChassisByUUID :: "SBChassis list result \<Rightarrow> string \<Rightarrow> SBChassis option" where
  "ChassisByUUID chassis u = (if u = [] then None else getRow sc_UUID u chassis)"

lemma filter_first: "(case filter P xs of [] \<Rightarrow> None | x # _ \<Rightarrow> Some x) = find P xs"
  by (induction xs) auto

lemma firstWhere_find: "firstWhere P (Ok rs) = find P rs"
  using filter_first [of P rs] by (simp add: firstWhere_def whereCache_def split: list.splits)

lemma firstWhere_Err [simp]: "firstWhere P (Err e) = None"
  by (simp add: firstWhere_def whereCache_def)

lemma firstWhere_Some: "firstWhere P rows = Some r \<Longrightarrow> P r \<and> (\<exists>rs. rows = Ok rs \<and> r \<in> set rs)"
  by (cases rows) (auto simp: firstWhere_find find_Some_iff)

lemma getRow_Some: "getRow uuid u rows = Some r \<Longrightarrow> uuid r = u \<and> (\<exists>rs. rows = Ok rs \<and> r \<in> set rs)"
  by (auto simp: getRow_def cacheGet_def find_Some_iff split: sum.splits option.splits)

lemma cacheGet_listed:
  assumes "distinct (map uuid rs)" "r \<in> set rs"
  shows "cacheGet uuid (uuid r) (Ok rs) = Ok r"
proof -
  have "find (\<lambda>x. uuid x = uuid r) rs = Some r"
    using assms by (induction rs) (auto simp: image_iff)
  then show ?thesis by (simp add: cacheGet_def)
qed

lemma getRow_listed: "distinct (map uuid rs) \<Longrightarrow> r \<in> set rs \<Longrightarrow> getRow uuid (uuid r) (Ok rs) = Some r"
  by (simp add: getRow_def cacheGet_listed)

end
