(* ===== verification/Debug_Diagnostics.thy ===== *)
theory Debug_Diagnostics
  imports NW_Cache NW_Severity
begin

text \<open>
  \<^verbatim>\<open>internal/debug/diagnostics.go\<close>: the health checks of a logical switch port, one port at a time by scanning the
  caches, or all ports at once through lookup tables.

  \<^item> The caches are a record \<open>diag_view\<close> of listings that may fail. \<^verbatim>\<open>WhereCache\<close> filters a listing and \<^verbatim>\<open>Get\<close> finds the
    row with a UUID in it.
\<close>

section \<open>Rows and results\<close>

record DiagLSP =
  dl_UUID :: string
  dl_Name :: string
  dl_Type :: string
  dl_Addresses :: "string list"
  dl_Enabled :: "bool option"
  dl_Up :: "bool option"
  dl_Options :: "(string, string) gomap"

record DiagSwitch =
  ds_Name :: string
  ds_Ports :: "string list"

record diag_view =
  dv_lsps :: "DiagLSP list result"
  dv_switches :: "DiagSwitch list result"
  dv_lrpNames :: "string list result"
  dv_bindings :: "PortBinding list result"
  dv_chassis :: "SBChassis list result"

record DiagnosticCheck =
  dc_Name :: string
  dc_Status :: StatusSeverity
  dc_Message :: "string \<times> arg list"

record PortDiagnostic =
  pd_PortUUID :: string
  pd_PortName :: string
  pd_PortType :: string
  pd_SwitchName :: string
  pd_Overall :: StatusSeverity
  pd_Checks :: "DiagnosticCheck list"

record PortDiagnosticsSummary =
  ps_Total :: nat
  ps_Healthy :: nat
  ps_Warning :: nat
  ps_Error :: nat
  ps_Ports :: "PortDiagnostic list"

section \<open>Lookups\<close>

definition findPortBinding :: "PortBinding list result \<Rightarrow> string \<Rightarrow> PortBinding option" where
  "findPortBinding pbs logicalPort = firstWhere (\<lambda>pb. pb_LogicalPort pb = logicalPort) pbs"

definition findParentSwitchName :: "DiagSwitch list result \<Rightarrow> string \<Rightarrow> string" where
  "findParentSwitchName switches u = (case firstWhere (\<lambda>ls. u \<in> set (ds_Ports ls)) switches of None \<Rightarrow> [] | Some ls \<Rightarrow> ds_Name ls)"

definition buildPortBindingMap :: "PortBinding list result \<Rightarrow> (string, PortBinding) gomap" where
  "buildPortBindingMap pbs = (case pbs of Err _ \<Rightarrow> [] | Ok rs \<Rightarrow> fold (\<lambda>pb. AList.update (pb_LogicalPort pb) pb) rs [])"

definition buildSwitchNameMap :: "DiagSwitch list result \<Rightarrow> (string, string) gomap" where
  "buildSwitchNameMap switches = (case switches of
     Err _ \<Rightarrow> []
   | Ok rs \<Rightarrow> fold (\<lambda>ls m. fold (\<lambda>p. AList.update p (ds_Name ls)) (ds_Ports ls) m) rs [])"

section \<open>The checks\<close>

definition newCheck :: "string \<Rightarrow> StatusSeverity \<Rightarrow> string \<Rightarrow> arg list \<Rightarrow> DiagnosticCheck" where
  "newCheck name s msg as = \<lparr>dc_Name = name, dc_Status = s, dc_Message = (msg, as)\<rparr>"

definition checkBinding :: "DiagLSP \<Rightarrow> PortBinding option \<Rightarrow> DiagnosticCheck" where
  "checkBinding lsp pb =
    (if pb \<noteq> None then newCheck ''binding_status'' SevHealthy ''Port binding exists'' []
     else if dl_Type lsp = [] then newCheck ''binding_status'' SevError ''No port binding found for VIF port'' []
     else newCheck ''binding_status'' SevWarning ''No port binding found (type=%s)'' [AStr (dl_Type lsp)])"

definition checkPortState :: "DiagLSP \<Rightarrow> DiagnosticCheck" where
  "checkPortState lsp =
    (if dl_Enabled lsp = Some False then newCheck ''port_state'' SevWarning ''Port is administratively disabled'' []
     else if dl_Up lsp = Some False then newCheck ''port_state'' SevWarning ''Port is down'' []
     else newCheck ''port_state'' SevHealthy ''Port is up and enabled'' [])"

definition checkChassisHealth :: "DiagLSP \<Rightarrow> PortBinding \<Rightarrow> SBChassis option \<Rightarrow> DiagnosticCheck" where
  "checkChassisHealth lsp pb ch =
    (if DerefStr (pb_Chassis pb) = []
     then (if dl_Type lsp = [] then newCheck ''chassis_health'' SevError ''VIF port not bound to any chassis'' []
           else newCheck ''chassis_health'' SevHealthy ''No chassis binding expected for type=%s'' [AStr (dl_Type lsp)])
     else case ch of
         None \<Rightarrow> newCheck ''chassis_health'' SevError ''Bound chassis not found in SB database'' []
       | Some c \<Rightarrow> newCheck ''chassis_health'' SevHealthy ''Bound to chassis %s (%s)'' [AStr (sc_Name c), AStr (sc_Hostname c)])"

definition typesConsistent :: "string \<Rightarrow> string \<Rightarrow> bool" where
  "typesConsistent lspType pbType \<longleftrightarrow> lspType = pbType \<or>
     (lspType = ''router'' \<and> pbType \<in> {''patch'', ''l3gateway'', ''chassisredirect''})"

definition checkTypeConsistency :: "DiagLSP \<Rightarrow> PortBinding \<Rightarrow> DiagnosticCheck" where
  "checkTypeConsistency lsp pb =
    (if typesConsistent (dl_Type lsp) (pb_Type pb)
     then newCheck ''type_consistency'' SevHealthy ''LSP type %q is consistent with PortBinding type %q'' [AStr (dl_Type lsp), AStr (pb_Type pb)]
     else newCheck ''type_consistency'' SevWarning ''LSP type %q != PortBinding type %q'' [AStr (dl_Type lsp), AStr (pb_Type pb)])"

definition checkAddresses :: "DiagLSP \<Rightarrow> DiagnosticCheck" where
  "checkAddresses lsp =
    (if dl_Type lsp \<noteq> [] then newCheck ''address_config'' SevHealthy ''Address check skipped for type=%s'' [AStr (dl_Type lsp)]
     else if dl_Addresses lsp = [] then newCheck ''address_config'' SevWarning ''VIF port has no addresses configured'' []
     else newCheck ''address_config'' SevHealthy ''%d address(es) configured'' [AInt (int (length (dl_Addresses lsp)))])"

definition checkRouterPeer :: "diag_view \<Rightarrow> DiagLSP \<Rightarrow> DiagnosticCheck" where
  "checkRouterPeer v lsp = (case map_of (dl_Options lsp) ''router-port'' of
     None \<Rightarrow> newCheck ''router_peer'' SevError ''Router port has no router-port option set'' []
   | Some rp \<Rightarrow>
       (if rp = [] then newCheck ''router_peer'' SevError ''Router port has no router-port option set'' []
        else case whereCache (\<lambda>n. n = rp) (dv_lrpNames v) of
            Ok (_ # _) \<Rightarrow> newCheck ''router_peer'' SevHealthy ''Router peer %q exists'' [AStr rp]
          | _ \<Rightarrow> newCheck ''router_peer'' SevError ''Referenced router port %q not found'' [AStr rp]))"

definition checkPatchPeer :: "diag_view \<Rightarrow> DiagLSP \<Rightarrow> DiagnosticCheck" where
  "checkPatchPeer v lsp = (case map_of (dl_Options lsp) ''peer'' of
     None \<Rightarrow> newCheck ''patch_peer'' SevError ''Patch port has no peer option set'' []
   | Some peer \<Rightarrow>
       (if peer = [] then newCheck ''patch_peer'' SevError ''Patch port has no peer option set'' []
        else case whereCache (\<lambda>p. dl_Name p = peer) (dv_lsps v) of
            Ok (_ # _) \<Rightarrow> newCheck ''patch_peer'' SevHealthy ''Patch peer %q exists'' [AStr peer]
          | _ \<Rightarrow> newCheck ''patch_peer'' SevError ''Referenced patch peer %q not found'' [AStr peer]))"

definition checkStaleChassis :: "PortBinding \<Rightarrow> SBChassis option \<Rightarrow> DiagnosticCheck" where
  "checkStaleChassis pb ch = (case ch of
     None \<Rightarrow> newCheck ''stale_chassis'' SevError ''Chassis UUID %s no longer exists'' [AStr (DerefStr (pb_Chassis pb))]
   | Some _ \<Rightarrow> newCheck ''stale_chassis'' SevHealthy ''Chassis reference is valid'' [])"

definition addDiagCheck :: "DiagnosticCheck \<Rightarrow> PortDiagnostic \<Rightarrow> PortDiagnostic" where
  "addDiagCheck check diag =
    (let diag = diag\<lparr>pd_Checks := pd_Checks diag @ [check]\<rparr>
     in if dc_Status check = SevError \<and> pd_Overall diag \<noteq> SevError then diag\<lparr>pd_Overall := SevError\<rparr>
        else if dc_Status check = SevWarning \<and> pd_Overall diag = SevHealthy then diag\<lparr>pd_Overall := SevWarning\<rparr>
        else diag)"

section \<open>Diagnosis\<close>

definition boundChassis :: "diag_view \<Rightarrow> PortBinding option \<Rightarrow> SBChassis option" where
  "boundChassis v pb = (case pb of None \<Rightarrow> None | Some b \<Rightarrow> ChassisByUUID (dv_chassis v) (DerefStr (pb_Chassis b)))"

text \<open>The checks of \<^verbatim>\<open>diagnose\<close>, in order, with the conditions under which they run.\<close>

definition portChecks :: "diag_view \<Rightarrow> DiagLSP \<Rightarrow> PortBinding option \<Rightarrow> DiagnosticCheck list" where
  "portChecks v lsp pb =
    (let ch = boundChassis v pb
     in [checkBinding lsp pb, checkPortState lsp]
        @ (case pb of None \<Rightarrow> [] | Some b \<Rightarrow> [checkChassisHealth lsp b ch, checkTypeConsistency lsp b])
        @ [checkAddresses lsp]
        @ (if dl_Type lsp = ''router'' then [checkRouterPeer v lsp] else [])
        @ (if dl_Type lsp = ''patch'' then [checkPatchPeer v lsp] else [])
        @ (case pb of None \<Rightarrow> [] | Some b \<Rightarrow> if DerefStr (pb_Chassis b) \<noteq> [] then [checkStaleChassis b ch] else []))"

definition diagnose :: "diag_view \<Rightarrow> DiagLSP \<Rightarrow> string \<Rightarrow> PortBinding option \<Rightarrow> PortDiagnostic" where
  "diagnose v lsp switchName pb = fold addDiagCheck (portChecks v lsp pb)
     \<lparr>pd_PortUUID = dl_UUID lsp, pd_PortName = dl_Name lsp, pd_PortType = dl_Type lsp, pd_SwitchName = switchName,
      pd_Overall = SevHealthy, pd_Checks = []\<rparr>"

definition DiagnosePort :: "diag_view \<Rightarrow> string \<Rightarrow> PortDiagnostic result" where
  "DiagnosePort v portUUID = (case cacheGet dl_UUID portUUID (dv_lsps v) of
     Err err \<Rightarrow> Err (Wrapf ''port not found: %w'' [] err)
   | Ok lsp \<Rightarrow> Ok (diagnose v lsp (findParentSwitchName (dv_switches v) portUUID) (findPortBinding (dv_bindings v) (dl_Name lsp))))"

definition DiagnoseAll :: "diag_view \<Rightarrow> PortDiagnosticsSummary result" where
  "DiagnoseAll v = (case dv_lsps v of
     Err err \<Rightarrow> Err (Wrapf ''listing logical switch ports: %w'' [] err)
   | Ok lsps \<Rightarrow>
       (let switchNames = buildSwitchNameMap (dv_switches v); pbByPort = buildPortBindingMap (dv_bindings v);
            diags = map (\<lambda>lsp. diagnose v lsp (DerefStr (map_of switchNames (dl_UUID lsp))) (map_of pbByPort (dl_Name lsp))) lsps;
            count = (\<lambda>s. length (filter (\<lambda>d. pd_Overall d = s) diags))
        in Ok \<lparr>ps_Total = length lsps, ps_Healthy = count SevHealthy, ps_Warning = count SevWarning, ps_Error = count SevError,
               ps_Ports = sort_slice (\<lambda>a b. severityOrder (pd_Overall a) < severityOrder (pd_Overall b)) diags\<rparr>))"

section \<open>The overall severity\<close>

lemma addDiagCheck_simps [simp]:
  "pd_Overall (addDiagCheck c d) = raise_to (dc_Status c) (pd_Overall d)"
  "pd_Checks (addDiagCheck c d) = pd_Checks d @ [c]"
  "pd_PortUUID (addDiagCheck c d) = pd_PortUUID d"
  by (cases "dc_Status c"; cases "pd_Overall d"; simp add: addDiagCheck_def raise_to_def)+

lemma addDiagChecks:
  "pd_Overall (fold addDiagCheck cs d) = fold raise_to (map dc_Status cs) (pd_Overall d)"
  "pd_Checks (fold addDiagCheck cs d) = pd_Checks d @ cs"
  "pd_PortUUID (fold addDiagCheck cs d) = pd_PortUUID d"
  by (induction cs arbitrary: d) simp_all

lemma diagnose_simps [simp]:
  "pd_Checks (diagnose v lsp sw pb) = portChecks v lsp pb"
  "pd_PortUUID (diagnose v lsp sw pb) = dl_UUID lsp"
  "pd_Overall (diagnose v lsp sw pb) = fold raise_to (map dc_Status (portChecks v lsp pb)) SevHealthy"
  by (simp_all add: diagnose_def addDiagChecks)

section \<open>Lookup tables and scans\<close>

text \<open>
  What the schema promises of the rows: UUIDs identify ports, a logical port has one binding, and a port belongs to one
  switch.
\<close>

definition diag_ok :: "diag_view \<Rightarrow> bool" where
  "diag_ok v \<longleftrightarrow> (case dv_lsps v of Ok lsps \<Rightarrow> distinct (map dl_UUID lsps) | Err _ \<Rightarrow> True)
     \<and> (case dv_bindings v of Ok pbs \<Rightarrow> distinct (map pb_LogicalPort pbs) | Err _ \<Rightarrow> True)
     \<and> (case dv_switches v of Ok sws \<Rightarrow> distinct (concat (map (remdups \<circ> ds_Ports) sws)) | Err _ \<Rightarrow> True)"

lemma map_of_fold_rows:
  assumes "distinct (map key rs)"
  shows "map_of (fold (\<lambda>r. AList.update (key r) r) rs m) k = (case find (\<lambda>r. key r = k) rs of None \<Rightarrow> map_of m k | Some r \<Rightarrow> Some r)"
  using assms
proof (induction rs arbitrary: m)
  case (Cons r rs)
  have "find (\<lambda>x. key x = key r) rs = None" using Cons.prems unfolding find_None_iff by simp (metis image_eqI)
  with Cons show ?case by (auto split: option.split)
qed simp

lemma binding_lookup:
  assumes "diag_ok v"
  shows "map_of (buildPortBindingMap (dv_bindings v)) n = findPortBinding (dv_bindings v) n"
proof (cases "dv_bindings v")
  case (Inr pbs)
  with assms have "distinct (map pb_LogicalPort pbs)" by (simp add: diag_ok_def)
  from map_of_fold_rows [OF this, of "[]" n] show ?thesis
    by (simp add: Inr buildPortBindingMap_def findPortBinding_def firstWhere_find split: option.split)
qed (simp add: buildPortBindingMap_def findPortBinding_def)

lemma map_of_fold_ports: "map_of (fold (\<lambda>p. AList.update p n) ps m) u = (if u \<in> set ps then Some n else map_of m u)"
  by (induction ps arbitrary: m) auto

lemma map_of_fold_switches:
  assumes "distinct (concat (map (remdups \<circ> ds_Ports) sws))"
  shows "map_of (fold (\<lambda>ls m. fold (\<lambda>p. AList.update p (ds_Name ls)) (ds_Ports ls) m) sws m) u =
    (case find (\<lambda>ls. u \<in> set (ds_Ports ls)) sws of None \<Rightarrow> map_of m u | Some ls \<Rightarrow> Some (ds_Name ls))"
  using assms
proof (induction sws arbitrary: m)
  case (Cons s sws)
  have "find (\<lambda>ls. u \<in> set (ds_Ports ls)) sws = None" if "u \<in> set (ds_Ports s)"
    using Cons.prems that by (auto simp: find_None_iff)
  with Cons show ?case by (auto simp: map_of_fold_ports simp del: map_of_eq_Some_iff split: option.split)
qed simp

lemma switch_lookup:
  assumes "diag_ok v"
  shows "DerefStr (map_of (buildSwitchNameMap (dv_switches v)) u) = findParentSwitchName (dv_switches v) u"
proof (cases "dv_switches v")
  case (Inr sws)
  with assms have "distinct (concat (map (remdups \<circ> ds_Ports) sws))" by (simp add: diag_ok_def)
  from map_of_fold_switches [OF this, of "[]" u] show ?thesis
    by (cases "find (\<lambda>ls. u \<in> set (ds_Ports ls)) sws")
       (simp_all add: Inr buildSwitchNameMap_def findParentSwitchName_def firstWhere_find DerefStr_def del: map_of_eq_Some_iff)
qed (simp add: buildSwitchNameMap_def findParentSwitchName_def DerefStr_def)

text \<open>
  Diagnosing all ports through the lookup tables gives for every listed port exactly the diagnosis of that port alone,
  worst first; the counts of the summary add up to the number of ports. This needs UUIDs to identify ports, logical
  ports to have one binding and ports to be in one switch.
\<close>

theorem diagnose_all_agrees:
  assumes "diag_ok v" "dv_lsps v = Ok lsps"
  shows "\<exists>s. DiagnoseAll v = Ok s
    \<and> mset (map Ok (ps_Ports s)) = mset (map (DiagnosePort v \<circ> dl_UUID) lsps)
    \<and> sorted (map (severityOrder \<circ> pd_Overall) (ps_Ports s))
    \<and> ps_Total s = length lsps \<and> ps_Total s = ps_Healthy s + ps_Warning s + ps_Error s"
proof -
  let ?d = "\<lambda>lsp. diagnose v lsp (findParentSwitchName (dv_switches v) (dl_UUID lsp)) (findPortBinding (dv_bindings v) (dl_Name lsp))"
  let ?s = "sort_slice (\<lambda>a b. severityOrder (pd_Overall a) < severityOrder (pd_Overall b)) (map ?d lsps)"
  have one: "DiagnosePort v (dl_UUID lsp) = Ok (?d lsp)" if "lsp \<in> set lsps" for lsp
    using assms that by (simp add: DiagnosePort_def cacheGet_listed diag_ok_def)
  obtain s where s: "DiagnoseAll v = Ok s" "ps_Ports s = ?s" "ps_Total s = length lsps"
      "ps_Total s = ps_Healthy s + ps_Warning s + ps_Error s"
    using count_severities [of pd_Overall "map ?d lsps"]
    by (simp add: DiagnoseAll_def assms(2) switch_lookup [OF assms(1)] binding_lookup [OF assms(1)])
  have "map (DiagnosePort v \<circ> dl_UUID) lsps = map Ok (map ?d lsps)" using one by simp
  then have "mset (map (DiagnosePort v \<circ> dl_UUID) lsps) = image_mset Ok (mset (map ?d lsps))" by (simp only: mset_map)
  also have "\<dots> = mset (map Ok ?s)" by (simp only: mset_map mset_sort_slice)
  finally show ?thesis
    using s sorted_sort_slice_asc [of "\<lambda>d. severityOrder (pd_Overall d)" "map ?d lsps"] by (simp add: sorted_map)
qed

definition diagExample :: diag_view where
  "diagExample = \<lparr>dv_lsps = Ok [\<lparr>dl_UUID = ''u1'', dl_Name = ''p1'', dl_Type = [], dl_Addresses = [''00:00:00:00:00:01''],
       dl_Enabled = None, dl_Up = Some True, dl_Options = []\<rparr>,
      \<lparr>dl_UUID = ''u2'', dl_Name = ''p2'', dl_Type = [], dl_Addresses = [], dl_Enabled = None, dl_Up = None, dl_Options = []\<rparr>],
     dv_switches = Ok [\<lparr>ds_Name = ''sw'', ds_Ports = [''u1'', ''u2'']\<rparr>], dv_lrpNames = Ok [],
     dv_bindings = Ok [\<lparr>pb_LogicalPort = ''p1'', pb_Type = [], pb_Up = Some True, pb_Chassis = Some ''c1''\<rparr>],
     dv_chassis = Ok [\<lparr>sc_UUID = ''c1'', sc_Name = ''hv1'', sc_Hostname = ''h''\<rparr>]\<rparr>"

theorem diagnose_all_agrees_witness:
  "\<exists>s. DiagnoseAll diagExample = Ok s \<and> length (ps_Ports s) = 2
     \<and> sorted (map (severityOrder \<circ> pd_Overall) (ps_Ports s)) \<and> ps_Total s = 2"
proof -
  have "diag_ok diagExample" by (simp add: diag_ok_def diagExample_def)
  moreover obtain lsps where "dv_lsps diagExample = Ok lsps" "length lsps = 2" by (simp add: diagExample_def)
  ultimately show ?thesis using diagnose_all_agrees [of diagExample lsps] mset_eq_length by fastforce
qed

end
