(* ===== verification/Debug_Connectivity.thy ===== *)
theory Debug_Connectivity
  imports NW_Cache NW_Strings
begin

text \<open>
  \<^verbatim>\<open>internal/debug/connectivity.go\<close>: whether two logical ports can reach each other, judged check by check.

  The caches are a record \<open>conn_view\<close> of listings that may fail. \<^verbatim>\<open>strings.Contains\<close> and \<^verbatim>\<open>ToLower\<close> are on ASCII.
\<close>

section \<open>Rows and results\<close>

record CnLSP =
  cn_UUID :: string
  cn_Name :: string
  cn_Type :: string
  cn_Addresses :: "string list"
  cn_Options :: "(string, string) gomap"

record CnSwitch =
  cw_UUID :: string
  cw_Name :: string
  cw_Ports :: "string list"
  cw_ACLs :: "string list"

record CnRouter =
  cr_UUID :: string
  cr_Name :: string
  cr_Ports :: "string list"
  cr_StaticRoutes :: "string list"
  cr_Nat :: "string list"

record CnLRP =
  cp_UUID :: string
  cp_LRPName :: string

record CnPortGroup =
  cg_Ports :: "string list"
  cg_ACLs :: "string list"

record CnACL =
  ca_UUID :: string
  ca_Action :: string
  ca_Match :: string

record CnChassis = SBChassis +
  cc_Encaps :: "string list"

record conn_view =
  cv_lsps :: "CnLSP list result"
  cv_switches :: "CnSwitch list result"
  cv_routers :: "CnRouter list result"
  cv_lrps :: "CnLRP list result"
  cv_groups :: "CnPortGroup list result"
  cv_acls :: "CnACL list result"
  cv_bindings :: "PortBinding list result"
  cv_chassis :: "CnChassis list result"

datatype CheckStatus = CkPass | CkFail | CkWarning | CkSkipped

record ConnectivityCheck =
  ck_Name :: string
  ck_Category :: string
  ck_Status :: CheckStatus
  ck_Message :: "string \<times> arg list"

record PortInfo =
  pi_UUID :: string
  pi_Name :: string
  pi_Type :: string
  pi_SwitchName :: string
  pi_BoundChassis :: string
  pi_Addresses :: "string list"

record ConnectivityResult =
  cres_Source :: PortInfo
  cres_Destination :: PortInfo
  cres_Overall :: CheckStatus
  cres_Checks :: "ConnectivityCheck list"

section \<open>Resolution\<close>

definition resolvePort :: "conn_view \<Rightarrow> string \<Rightarrow> (CnLSP \<times> CnSwitch option \<times> PortBinding option) result" where
  "resolvePort v u = (case cacheGet cn_UUID u (cv_lsps v) of
     Err err \<Rightarrow> Err err
   | Ok lsp \<Rightarrow> Ok (lsp, firstWhere (\<lambda>ls. u \<in> set (cw_Ports ls)) (cv_switches v),
       firstWhere (\<lambda>pb. pb_LogicalPort pb = cn_Name lsp) (cv_bindings v)))"

definition noPortInfo :: PortInfo where
  "noPortInfo = \<lparr>pi_UUID = [], pi_Name = [], pi_Type = [], pi_SwitchName = [], pi_BoundChassis = [], pi_Addresses = []\<rparr>"

definition buildPortInfo :: "CnLSP \<Rightarrow> CnSwitch option \<Rightarrow> PortBinding option \<Rightarrow> PortInfo" where
  "buildPortInfo lsp ls pb = \<lparr>pi_UUID = cn_UUID lsp, pi_Name = cn_Name lsp, pi_Type = cn_Type lsp,
     pi_SwitchName = (case ls of None \<Rightarrow> [] | Some s \<Rightarrow> cw_Name s),
     pi_BoundChassis = (case pb of None \<Rightarrow> [] | Some b \<Rightarrow> DerefStr (pb_Chassis b)), pi_Addresses = cn_Addresses lsp\<rparr>"

definition connSwitchName :: "CnSwitch option \<Rightarrow> string" where
  "connSwitchName ls = (case ls of None \<Rightarrow> ''<unknown>'' | Some s \<Rightarrow> cw_Name s)"

definition findRouterPortsOnSwitch :: "conn_view \<Rightarrow> CnSwitch \<Rightarrow> string list" where
  "findRouterPortsOnSwitch v ls = concat (map (\<lambda>u. case getRow cn_UUID u (cv_lsps v) of
     None \<Rightarrow> []
   | Some lsp \<Rightarrow> if cn_Type lsp = ''router''
       then (case map_of (cn_Options lsp) ''router-port'' of None \<Rightarrow> [] | Some rp \<Rightarrow> [rp]) else []) (cw_Ports ls))"

definition findParentRouter :: "conn_view \<Rightarrow> string \<Rightarrow> CnRouter option" where
  "findParentRouter v lrpName = (case firstWhere (\<lambda>lrp. cp_LRPName lrp = lrpName) (cv_lrps v) of
     None \<Rightarrow> None
   | Some lrp \<Rightarrow> firstWhere (\<lambda>lr. cp_UUID lrp \<in> set (cr_Ports lr)) (cv_routers v))"

fun connectingRouter :: "conn_view \<Rightarrow> string list \<Rightarrow> string list \<Rightarrow> CnRouter option" where
  "connectingRouter v [] dsts = None"
| "connectingRouter v (src # srcs) dsts =
    (case findParentRouter v src of
       None \<Rightarrow> connectingRouter v srcs dsts
     | Some srcRouter \<Rightarrow>
         (if list_ex (\<lambda>dst. case findParentRouter v dst of None \<Rightarrow> False | Some r \<Rightarrow> cr_UUID r = cr_UUID srcRouter) dsts
          then Some srcRouter else connectingRouter v srcs dsts))"

definition findConnectingRouter :: "conn_view \<Rightarrow> CnSwitch option \<Rightarrow> CnSwitch option \<Rightarrow> CnRouter option" where
  "findConnectingRouter v srcSwitch dstSwitch = (case (srcSwitch, dstSwitch) of
     (Some s, Some d) \<Rightarrow> connectingRouter v (findRouterPortsOnSwitch v s) (findRouterPortsOnSwitch v d)
   | _ \<Rightarrow> None)"

section \<open>The checks\<close>

definition connCheck :: "string \<Rightarrow> string \<Rightarrow> CheckStatus \<Rightarrow> string \<Rightarrow> arg list \<Rightarrow> ConnectivityCheck" where
  "connCheck name category s msg as = \<lparr>ck_Name = name, ck_Category = category, ck_Status = s, ck_Message = (msg, as)\<rparr>"

definition checkL3Connectivity :: "conn_view \<Rightarrow> string \<Rightarrow> ConnectivityCheck" where
  "checkL3Connectivity v routerUUID = (case getRow cr_UUID routerUUID (cv_routers v) of
     None \<Rightarrow> connCheck ''l3_connectivity'' ''l3'' CkWarning (''Could not verify L3 connectivity '' @ dash @ '' router not found'') []
   | Some lr \<Rightarrow> connCheck ''l3_connectivity'' ''l3'' CkPass
       (''Router %q has %d ports'' @ (if cr_StaticRoutes lr \<noteq> [] then '', %d static routes'' else []) @ (if cr_Nat lr \<noteq> [] then '', %d NAT rules'' else []))
       ([AStr (cr_Name lr), AInt (int (length (cr_Ports lr)))]
        @ (if cr_StaticRoutes lr \<noteq> [] then [AInt (int (length (cr_StaticRoutes lr)))] else [])
        @ (if cr_Nat lr \<noteq> [] then [AInt (int (length (cr_Nat lr)))] else [])))"

definition denies :: "CnLSP \<Rightarrow> CnLSP \<Rightarrow> CnACL \<Rightarrow> bool" where
  "denies src dst acl = (ca_Action acl \<in> {''drop'', ''reject''} \<and>
     (Contains_str (ToLower (ca_Match acl)) (ToLower (cn_Name src)) \<or> Contains_str (ToLower (ca_Match acl)) (ToLower (cn_Name dst))))"

definition relevantACLs :: "conn_view \<Rightarrow> CnLSP \<Rightarrow> CnLSP \<Rightarrow> CnSwitch option \<Rightarrow> CnSwitch option \<Rightarrow> string list" where
  "relevantACLs v src dst srcSwitch dstSwitch =
    (case srcSwitch of None \<Rightarrow> [] | Some s \<Rightarrow> cw_ACLs s)
    @ (case dstSwitch of None \<Rightarrow> [] | Some d \<Rightarrow>
        if (case srcSwitch of None \<Rightarrow> True | Some s \<Rightarrow> cw_UUID s \<noteq> cw_UUID d) then cw_ACLs d else [])
    @ concat (map cg_ACLs (allWhere (\<lambda>pg. cn_UUID src \<in> set (cg_Ports pg) \<or> cn_UUID dst \<in> set (cg_Ports pg)) (cv_groups v)))"

definition checkACLs :: "conn_view \<Rightarrow> CnLSP \<Rightarrow> CnLSP \<Rightarrow> CnSwitch option \<Rightarrow> CnSwitch option \<Rightarrow> ConnectivityCheck" where
  "checkACLs v src dst srcSwitch dstSwitch =
    (let uuids = relevantACLs v src dst srcSwitch dstSwitch;
         denyCount = length (filter (\<lambda>u. case getRow ca_UUID u (cv_acls v) of None \<Rightarrow> False | Some acl \<Rightarrow> denies src dst acl) uuids)
     in if uuids = [] then connCheck ''acl_analysis'' ''acl'' CkPass ''No ACLs found on switches or port groups'' []
        else if denyCount > 0
        then connCheck ''acl_analysis'' ''acl'' CkWarning ''Found %d drop/reject ACL(s) referencing these ports (heuristic match)'' [AInt (int denyCount)]
        else connCheck ''acl_analysis'' ''acl'' CkPass (''Checked %d ACLs '' @ dash @ '' no drop/reject rules matching these ports'') [AInt (int (length uuids))])"

definition capitalize :: "string \<Rightarrow> string" where
  "capitalize s = (case s of [] \<Rightarrow> [] | ch # cs \<Rightarrow>
     (let n = (of_char ch :: nat) in if 97 \<le> n \<and> n \<le> 122 then char_of (n - 32) else ch) # cs)"

definition checkPhysicalRealization :: "CnLSP \<Rightarrow> PortBinding option \<Rightarrow> string \<Rightarrow> ConnectivityCheck" where
  "checkPhysicalRealization lsp pb side =
    (let name = side @ ''_physical''
     in if cn_Type lsp \<noteq> [] then connCheck name ''physical'' CkPass ''Port type %q does not require chassis binding'' [AStr (cn_Type lsp)]
        else case pb of
            None \<Rightarrow> connCheck name ''physical'' CkFail ''%s port has no port binding'' [AStr (capitalize side)]
          | Some b \<Rightarrow>
              (if DerefStr (pb_Chassis b) = [] then connCheck name ''physical'' CkFail ''%s port is not bound to a chassis'' [AStr (capitalize side)]
               else if pb_Up b = Some False then connCheck name ''physical'' CkWarning ''%s port binding is down'' [AStr (capitalize side)]
               else connCheck name ''physical'' CkPass ''%s port bound and up'' [AStr (capitalize side)]))"

definition checkEncapTunnel :: "conn_view \<Rightarrow> string \<Rightarrow> string \<Rightarrow> ConnectivityCheck" where
  "checkEncapTunnel v src dst = (case getRow sc_UUID src (cv_chassis v) of
     None \<Rightarrow> connCheck ''encap_tunnel'' ''physical'' CkWarning (''Could not verify tunnel '' @ dash @ '' source chassis not found'') []
   | Some s \<Rightarrow> (case getRow sc_UUID dst (cv_chassis v) of
       None \<Rightarrow> connCheck ''encap_tunnel'' ''physical'' CkWarning (''Could not verify tunnel '' @ dash @ '' destination chassis not found'') []
     | Some d \<Rightarrow> if cc_Encaps s \<noteq> [] \<and> cc_Encaps d \<noteq> []
         then connCheck ''encap_tunnel'' ''physical'' CkPass ''Tunnel encaps exist between chassis %s and %s'' [AStr (sc_Name s), AStr (sc_Name d)]
         else connCheck ''encap_tunnel'' ''physical'' CkWarning ''One or both chassis missing encap configuration'' []))"

definition addConnCheck :: "ConnectivityCheck \<Rightarrow> ConnectivityResult \<Rightarrow> ConnectivityResult" where
  "addConnCheck check res =
    (let res = res\<lparr>cres_Checks := cres_Checks res @ [check]\<rparr>
     in if ck_Status check = CkFail then res\<lparr>cres_Overall := CkFail\<rparr>
        else if ck_Status check = CkWarning \<and> cres_Overall res = CkPass then res\<lparr>cres_Overall := CkWarning\<rparr>
        else res)"

section \<open>Check\<close>

definition sameSwitch :: "CnSwitch option \<Rightarrow> CnSwitch option \<Rightarrow> bool" where
  "sameSwitch s d = (case (s, d) of (Some s, Some d) \<Rightarrow> cw_UUID s = cw_UUID d | _ \<Rightarrow> False)"

text \<open>The second and third check, on a common switch, through a router, or neither.\<close>

definition pathChecks :: "conn_view \<Rightarrow> CnSwitch option \<Rightarrow> CnSwitch option \<Rightarrow> ConnectivityCheck list" where
  "pathChecks v srcSwitch dstSwitch =
    (if sameSwitch srcSwitch dstSwitch
     then [connCheck ''l2_connectivity'' ''l2'' CkPass ''Both ports on same switch %q'' [AStr (connSwitchName srcSwitch)],
           connCheck ''l3_connectivity'' ''l3'' CkSkipped (''Same-switch '' @ dash @ '' L3 check skipped'') []]
     else case findConnectingRouter v srcSwitch dstSwitch of
         Some router \<Rightarrow> [connCheck ''l2_connectivity'' ''l2'' CkPass ''Cross-switch connectivity via router %q'' [AStr (cr_Name router)],
           checkL3Connectivity v (cr_UUID router)]
       | None \<Rightarrow> [connCheck ''l2_connectivity'' ''l2'' CkFail ''Ports are on different switches with no connecting router found'' [],
           connCheck ''l3_connectivity'' ''l3'' CkSkipped (''No connecting router '' @ dash @ '' L3 check skipped'') []])"

definition tunnelChecks :: "conn_view \<Rightarrow> PortBinding option \<Rightarrow> PortBinding option \<Rightarrow> ConnectivityCheck list" where
  "tunnelChecks v srcPB dstPB = (case (srcPB, dstPB) of
     (Some s, Some d) \<Rightarrow>
       (let a = DerefStr (pb_Chassis s); b = DerefStr (pb_Chassis d)
        in if a \<noteq> [] \<and> b \<noteq> [] \<and> a \<noteq> b then [checkEncapTunnel v a b] else [])
   | _ \<Rightarrow> [])"

definition resolvedCheck :: "string \<Rightarrow> string \<Rightarrow> CnLSP \<Rightarrow> CnSwitch option \<Rightarrow> ConnectivityCheck" where
  "resolvedCheck name what lsp sw = connCheck name ''resolution'' CkPass (what @ '' port %q resolved on switch %q'') [AStr (cn_Name lsp), AStr (connSwitchName sw)]"

definition failedCheck :: "string \<Rightarrow> string \<Rightarrow> error \<Rightarrow> ConnectivityCheck" where
  "failedCheck name what err = connCheck name ''resolution'' CkFail (what @ '' port not found: %v'') [AErr err]"

definition Check :: "conn_view \<Rightarrow> string \<Rightarrow> string \<Rightarrow> ConnectivityResult" where
  "Check v srcUUID dstUUID =
    (let res = \<lparr>cres_Source = noPortInfo, cres_Destination = noPortInfo, cres_Overall = CkPass, cres_Checks = []\<rparr>
     in case resolvePort v srcUUID of
          Err err \<Rightarrow> (addConnCheck (failedCheck ''source_resolution'' ''Source'' err) res)\<lparr>cres_Overall := CkFail\<rparr>
        | Ok (srcLSP, srcSwitch, srcPB) \<Rightarrow>
            (let res = addConnCheck (resolvedCheck ''source_resolution'' ''Source'' srcLSP srcSwitch)
                         (res\<lparr>cres_Source := buildPortInfo srcLSP srcSwitch srcPB\<rparr>)
             in case resolvePort v dstUUID of
                  Err err \<Rightarrow> (addConnCheck (failedCheck ''destination_resolution'' ''Destination'' err) res)\<lparr>cres_Overall := CkFail\<rparr>
                | Ok (dstLSP, dstSwitch, dstPB) \<Rightarrow>
                    fold addConnCheck
                      ([resolvedCheck ''destination_resolution'' ''Destination'' dstLSP dstSwitch]
                       @ pathChecks v srcSwitch dstSwitch
                       @ [checkACLs v srcLSP dstLSP srcSwitch dstSwitch, checkPhysicalRealization srcLSP srcPB ''source'',
                          checkPhysicalRealization dstLSP dstPB ''destination'']
                       @ tunnelChecks v srcPB dstPB)
                      (res\<lparr>cres_Destination := buildPortInfo dstLSP dstSwitch dstPB\<rparr>)))"

section \<open>The verdict\<close>

lemma addConnCheck_simps [simp]:
  "cres_Checks (addConnCheck c r) = cres_Checks r @ [c]"
  "cres_Overall (addConnCheck c r) = (if ck_Status c = CkFail then CkFail
     else if ck_Status c = CkWarning \<and> cres_Overall r = CkPass then CkWarning else cres_Overall r)"
  by (simp_all add: addConnCheck_def)

lemma addConnChecks_checks: "cres_Checks (fold addConnCheck cs r) = cres_Checks r @ cs"
  by (induction cs arbitrary: r) simp_all

abbreviation some_check :: "CheckStatus \<Rightarrow> ConnectivityCheck list \<Rightarrow> bool" where
  "some_check s cs \<equiv> list_ex (\<lambda>c. ck_Status c = s) cs"

lemma addConnChecks_overall:
  assumes "cres_Overall r \<noteq> CkSkipped"
  shows "cres_Overall (fold addConnCheck cs r) =
    (if cres_Overall r = CkFail \<or> some_check CkFail cs then CkFail
     else if cres_Overall r = CkWarning \<or> some_check CkWarning cs then CkWarning else CkPass)"
  using assms
proof (induction cs arbitrary: r)
  case Nil
  then show ?case by (cases "cres_Overall r") simp_all
next
  case (Cons c cs)
  have "cres_Overall (addConnCheck c r) \<noteq> CkSkipped" using Cons.prems by simp
  from Cons.IH [OF this] Cons.prems show ?case by (cases "cres_Overall r"; cases "ck_Status c") auto
qed

lemma status_simps [simp]: "ck_Status (connCheck n c s m as) = s" "ck_Name (connCheck n c s m as) = n"
  by (simp_all add: connCheck_def)

text \<open>Two router ports that lead to the same router.\<close>

definition linked :: "conn_view \<Rightarrow> CnSwitch option \<Rightarrow> CnSwitch option \<Rightarrow> bool" where
  "linked v srcSwitch dstSwitch \<longleftrightarrow> (\<exists>s d. srcSwitch = Some s \<and> dstSwitch = Some d
     \<and> (\<exists>a \<in> set (findRouterPortsOnSwitch v s). \<exists>b \<in> set (findRouterPortsOnSwitch v d). \<exists>p q.
          findParentRouter v a = Some p \<and> findParentRouter v b = Some q \<and> cr_UUID p = cr_UUID q))"

lemma connectingRouter_None:
  "connectingRouter v srcs dsts = None \<longleftrightarrow> \<not> (\<exists>a \<in> set srcs. \<exists>b \<in> set dsts. \<exists>p q.
     findParentRouter v a = Some p \<and> findParentRouter v b = Some q \<and> cr_UUID p = cr_UUID q)"
proof (induction srcs)
  case (Cons a srcs)
  show ?case
  proof (cases "findParentRouter v a")
    case None
    then show ?thesis using Cons by simp
  next
    case (Some p)
    have "(list_ex (\<lambda>dst. case findParentRouter v dst of None \<Rightarrow> False | Some r \<Rightarrow> cr_UUID r = cr_UUID p) dsts)
        \<longleftrightarrow> (\<exists>b \<in> set dsts. \<exists>q. findParentRouter v b = Some q \<and> cr_UUID p = cr_UUID q)"
      unfolding list_ex_iff by (rule bex_cong [OF refl]) (simp split: option.split add: eq_commute [of "cr_UUID p"])
    with Some Cons show ?thesis by simp
  qed
qed simp

lemma findConnectingRouter_None: "findConnectingRouter v s d = None \<longleftrightarrow> \<not> linked v s d"
  by (cases s; cases d) (simp_all add: findConnectingRouter_def linked_def connectingRouter_None)

text \<open>A port that needs a chassis and has none.\<close>

definition unbound :: "CnLSP \<Rightarrow> PortBinding option \<Rightarrow> bool" where
  "unbound lsp pb \<longleftrightarrow> cn_Type lsp = [] \<and> (case pb of None \<Rightarrow> True | Some b \<Rightarrow> DerefStr (pb_Chassis b) = [])"

lemma check_failures:
  "ck_Status (checkPhysicalRealization lsp pb side) = CkFail \<longleftrightarrow> unbound lsp pb"
  "ck_Status (checkACLs v src dst s d) \<noteq> CkFail"
  "ck_Status (checkL3Connectivity v u) \<noteq> CkFail"
  "ck_Status (checkEncapTunnel v a b) \<noteq> CkFail"
  "ck_Status (resolvedCheck n w lsp sw) = CkPass"
  by (simp_all add: checkPhysicalRealization_def unbound_def checkACLs_def checkL3Connectivity_def checkEncapTunnel_def resolvedCheck_def
      split: option.split)

lemma pathChecks_failures: "some_check CkFail (pathChecks v s d) \<longleftrightarrow> \<not> sameSwitch s d \<and> \<not> linked v s d"
  by (simp add: pathChecks_def findConnectingRouter_None [symmetric] check_failures split: option.split)

lemma tunnelChecks_failures: "\<not> some_check CkFail (tunnelChecks v s d)"
  by (simp add: tunnelChecks_def Let_def check_failures split: option.split)

lemma checkACLs_pass:
  assumes "ck_Status (checkACLs v src dst s d) = CkPass" "u \<in> set (relevantACLs v src dst s d)" "getRow ca_UUID u (cv_acls v) = Some acl"
  shows "\<not> denies src dst acl"
  using assms by (auto simp: checkACLs_def filter_empty_conv split: if_splits)

lemma Check_resolved:
  assumes "resolvePort v a = Ok (src, sw1, pb1)" "resolvePort v b = Ok (dst, sw2, pb2)"
  obtains r where "Check v a b = fold addConnCheck
      ([resolvedCheck ''destination_resolution'' ''Destination'' dst sw2] @ pathChecks v sw1 sw2
       @ [checkACLs v src dst sw1 sw2, checkPhysicalRealization src pb1 ''source'', checkPhysicalRealization dst pb2 ''destination'']
       @ tunnelChecks v pb1 pb2) r" "cres_Overall r = CkPass"
  by (rule that [of "(addConnCheck (resolvedCheck ''source_resolution'' ''Source'' src sw1)
      \<lparr>cres_Source = buildPortInfo src sw1 pb1, cres_Destination = noPortInfo, cres_Overall = CkPass, cres_Checks = []\<rparr>)
      \<lparr>cres_Destination := buildPortInfo dst sw2 pb2\<rparr>"])
     (simp_all add: Check_def assms check_failures(5))

text \<open>
  C25. For two ports that exist the verdict is failure exactly when they are neither on one switch nor on two that have ports
  of the same router, or when one of them is a VIF without a chassis; it is success only if moreover no drop or reject ACL
  of their switches or port groups mentions either name. A port that does not exist is always a failure.
\<close>

theorem connectivity_verdict:
  "(\<forall>src sw1 pb1 dst sw2 pb2. resolvePort v a = Ok (src, sw1, pb1) \<and> resolvePort v b = Ok (dst, sw2, pb2) \<longrightarrow>
      (cres_Overall (Check v a b) = CkFail \<longleftrightarrow> (\<not> sameSwitch sw1 sw2 \<and> \<not> linked v sw1 sw2) \<or> unbound src pb1 \<or> unbound dst pb2)
      \<and> (cres_Overall (Check v a b) = CkPass \<longrightarrow>
          (\<forall>u \<in> set (relevantACLs v src dst sw1 sw2). \<forall>acl. getRow ca_UUID u (cv_acls v) = Some acl \<longrightarrow> \<not> denies src dst acl)))
   \<and> (\<forall>e. resolvePort v a = Err e \<or> resolvePort v b = Err e \<longrightarrow> cres_Overall (Check v a b) = CkFail)"
proof (intro conjI allI impI ballI; (elim conjE disjE)?)
  fix src sw1 pb1 dst sw2 pb2
  assume ok: "resolvePort v a = Ok (src, sw1, pb1)" "resolvePort v b = Ok (dst, sw2, pb2)"
  obtain r where r: "Check v a b = fold addConnCheck
      ([resolvedCheck ''destination_resolution'' ''Destination'' dst sw2] @ pathChecks v sw1 sw2
       @ [checkACLs v src dst sw1 sw2, checkPhysicalRealization src pb1 ''source'', checkPhysicalRealization dst pb2 ''destination'']
       @ tunnelChecks v pb1 pb2) r" "cres_Overall r = CkPass"
    using Check_resolved [OF ok] .
  have s: "cres_Overall r \<noteq> CkSkipped" by (simp add: r(2))
  show "cres_Overall (Check v a b) = CkFail \<longleftrightarrow> (\<not> sameSwitch sw1 sw2 \<and> \<not> linked v sw1 sw2) \<or> unbound src pb1 \<or> unbound dst pb2"
    unfolding r(1) addConnChecks_overall [OF s]
    by (simp add: pathChecks_failures tunnelChecks_failures check_failures r(2))
  {
    fix u acl
    assume "cres_Overall (Check v a b) = CkPass" "u \<in> set (relevantACLs v src dst sw1 sw2)" "getRow ca_UUID u (cv_acls v) = Some acl"
    moreover from this(1) have "ck_Status (checkACLs v src dst sw1 sw2) = CkPass"
      unfolding r(1) addConnChecks_overall [OF s] by (cases "ck_Status (checkACLs v src dst sw1 sw2)")
        (auto simp: checkACLs_def split: if_splits)
    ultimately show "\<not> denies src dst acl" using checkACLs_pass by blast
  }
next
  fix e
  assume "resolvePort v a = Err e"
  then show "cres_Overall (Check v a b) = CkFail" by (simp add: Check_def)
next
  fix e
  assume "resolvePort v b = Err e"
  then show "cres_Overall (Check v a b) = CkFail" by (simp add: Check_def split: sum.split prod.split)
qed

text \<open>Two switches on one router, and a drop rule of the second switch that names the source.\<close>

definition exLSP :: "string \<Rightarrow> string \<Rightarrow> (string, string) gomap \<Rightarrow> CnLSP" where
  "exLSP u typ opts = \<lparr>cn_UUID = u, cn_Name = u, cn_Type = typ, cn_Addresses = [], cn_Options = opts\<rparr>"

definition exSwitches :: "CnSwitch list" where
  "exSwitches = [\<lparr>cw_UUID = ''s1'', cw_Name = ''net1'', cw_Ports = [''a'', ''r1''], cw_ACLs = []\<rparr>,
     \<lparr>cw_UUID = ''s2'', cw_Name = ''net2'', cw_Ports = [''b'', ''r2''], cw_ACLs = [''acl'']\<rparr>]"

definition exACL :: CnACL where
  "exACL = \<lparr>ca_UUID = ''acl'', ca_Action = ''drop'', ca_Match = ''inport == a''\<rparr>"

definition exBinding :: "string \<Rightarrow> string \<Rightarrow> PortBinding" where
  "exBinding p ch = \<lparr>pb_LogicalPort = p, pb_Type = [], pb_Up = Some True, pb_Chassis = Some ch\<rparr>"

definition connExample :: conn_view where
  "connExample = \<lparr>cv_lsps = Ok [exLSP ''a'' [] [], exLSP ''b'' [] [], exLSP ''r1'' ''router'' [(''router-port'', ''l1'')],
       exLSP ''r2'' ''router'' [(''router-port'', ''l2'')]],
     cv_switches = Ok exSwitches,
     cv_routers = Ok [\<lparr>cr_UUID = ''r'', cr_Name = ''r'', cr_Ports = [''p1'', ''p2''], cr_StaticRoutes = [], cr_Nat = []\<rparr>],
     cv_lrps = Ok [\<lparr>cp_UUID = ''p1'', cp_LRPName = ''l1''\<rparr>, \<lparr>cp_UUID = ''p2'', cp_LRPName = ''l2''\<rparr>],
     cv_groups = Ok [], cv_acls = Ok [exACL],
     cv_bindings = Ok [exBinding ''a'' ''c1'', exBinding ''b'' ''c2''], cv_chassis = Ok []\<rparr>"

lemma connExample_resolve:
  "resolvePort connExample ''a'' = Ok (exLSP ''a'' [] [], Some (exSwitches ! 0), Some (exBinding ''a'' ''c1''))"
  "resolvePort connExample ''b'' = Ok (exLSP ''b'' [] [], Some (exSwitches ! 1), Some (exBinding ''b'' ''c2''))"
  "resolvePort connExample ''z'' = Err ErrNotFound"
  by (simp_all add: resolvePort_def connExample_def cacheGet_def firstWhere_find exLSP_def exSwitches_def exBinding_def)

theorem connectivity_verdict_witness:
  "cres_Overall (Check connExample ''a'' ''b'') = CkWarning \<and> cres_Overall (Check connExample ''z'' ''b'') = CkFail"
proof
  note v = connectivity_verdict [of connExample]
  have linked: "linked connExample (Some (exSwitches ! 0)) (Some (exSwitches ! 1))"
  proof -
    have "findRouterPortsOnSwitch connExample (exSwitches ! 0) = [''l1'']" "findRouterPortsOnSwitch connExample (exSwitches ! 1) = [''l2'']"
      "findParentRouter connExample ''l1'' = findParentRouter connExample ''l2''" "findParentRouter connExample ''l2'' \<noteq> None"
      by (simp_all add: exSwitches_def connExample_def findRouterPortsOnSwitch_def findParentRouter_def getRow_def cacheGet_def exLSP_def firstWhere_find)
    then show ?thesis unfolding linked_def by auto
  qed
  have bound: "\<not> unbound (exLSP ''a'' [] []) (Some (exBinding ''a'' ''c1''))" "\<not> unbound (exLSP ''b'' [] []) (Some (exBinding ''b'' ''c2''))"
    by (simp_all add: unbound_def exLSP_def exBinding_def DerefStr_def)
  have not_fail: "cres_Overall (Check connExample ''a'' ''b'') \<noteq> CkFail"
    using v [of "''a''" "''b''"] connExample_resolve(1,2) linked bound by blast
  have "denies (exLSP ''a'' [] []) (exLSP ''b'' [] []) exACL" by code_simp
  moreover have "''acl'' \<in> set (relevantACLs connExample (exLSP ''a'' [] []) (exLSP ''b'' [] []) (Some (exSwitches ! 0)) (Some (exSwitches ! 1)))"
    "getRow ca_UUID ''acl'' (cv_acls connExample) = Some exACL"
    by (simp_all add: relevantACLs_def exSwitches_def getRow_def cacheGet_def connExample_def exACL_def)
  ultimately have not_pass: "cres_Overall (Check connExample ''a'' ''b'') \<noteq> CkPass"
    using v [of "''a''" "''b''"] connExample_resolve(1,2) by blast
  have "cres_Overall (Check connExample ''a'' ''b'') \<noteq> CkSkipped"
    by (rule Check_resolved [OF connExample_resolve(1,2)]) (simp add: addConnChecks_overall)
  with not_fail not_pass show "cres_Overall (Check connExample ''a'' ''b'') = CkWarning"
    by (cases "cres_Overall (Check connExample ''a'' ''b'')") simp_all
  show "cres_Overall (Check connExample ''z'' ''b'') = CkFail"
    using v [of "''z''" "''b''"] connExample_resolve(3) by blast
qed

end
