(* ===== verification/NW_IP.thy ===== *)
theory NW_IP
  imports NW_Strings "HOL-Library.Word"
begin

unbundle bit_operations_syntax

text \<open>
  The parts of Go's \<^verbatim>\<open>net\<close> and \<^verbatim>\<open>net/netip\<close> packages that the program calls: \<^verbatim>\<open>net.ParseIP\<close>, \<^verbatim>\<open>net.ParseCIDR\<close>,
  \<^verbatim>\<open>IPNet.Contains\<close>, \<^verbatim>\<open>IP.To4\<close>, \<^verbatim>\<open>IP.IsLoopback\<close> and \<^verbatim>\<open>IP.String\<close>.

  \<^item> An address is the list of its sixteen bytes; an IPv4 address is the one mapped into IPv6, as \<^verbatim>\<open>netip.Addr.As16\<close>
    gives it.
  \<^item> Zones are accepted by \<^verbatim>\<open>netip\<close> and refused by the two \<^verbatim>\<open>net\<close> functions, so that any text with a \<^verbatim>\<open>%\<close> fails.
\<close>

type_synonym ip = "8 word list"

section \<open>IPv4\<close>

text \<open>\<^verbatim>\<open>parseIPv4Fields\<close>: four decimal fields, each without a leading zero and at most 255.\<close>

definition octet :: "string \<Rightarrow> 8 word option" where
  "octet s = (if s = [] \<or> \<not> list_all is_digit s \<or> (length s > 1 \<and> hd s = CHR ''0'') \<or> digits_val s > 255
     then None else Some (of_nat (digits_val s)))"

definition parseIPv4Fields :: "string \<Rightarrow> ip option" where
  "parseIPv4Fields s = (case map octet (splitByte (CHR ''.'') s) of
     [Some a, Some b, Some c, Some d] \<Rightarrow> Some [a, b, c, d] | _ \<Rightarrow> None)"

definition v4InV6Prefix :: ip where
  "v4InV6Prefix = replicate 10 0 @ [255, 255]"

definition To4 :: "ip \<Rightarrow> ip option" where
  "To4 x = (if length x = 4 then Some x
     else if length x = 16 \<and> take 12 x = v4InV6Prefix then Some (drop 12 x) else None)"

section \<open>IPv6\<close>

definition hexval :: "char \<Rightarrow> nat option" where
  "hexval ch = (let n = (of_char ch :: nat)
     in if 48 \<le> n \<and> n \<le> 57 then Some (n - 48)
        else if 97 \<le> n \<and> n \<le> 102 then Some (n - 87)
        else if 65 \<le> n \<and> n \<le> 70 then Some (n - 55) else None)"

definition hexdigits :: "string \<Rightarrow> string" where
  "hexdigits s = takeWhile (\<lambda>ch. hexval ch \<noteq> None) s"

definition hexgroup :: "string \<Rightarrow> nat" where
  "hexgroup ds = foldl (\<lambda>acc ch. case hexval ch of None \<Rightarrow> acc | Some v \<Rightarrow> acc * 16 + v) 0 ds"

lemma hexdigits_rest:
  assumes "drop (length (hexdigits s)) s = c # d # rest" "hexdigits s \<noteq> []"
  shows "Suc (length rest) < length s" "length rest < length s"
proof -
  have "length (c # d # rest) = length s - length (hexdigits s)" using assms(1) by (metis length_drop)
  moreover have "length (hexdigits s) > 0" using assms(2) by simp
  ultimately show "Suc (length rest) < length s" "length rest < length s" by (simp_all only: list.size)
qed

text \<open>
  The loop of \<^verbatim>\<open>parseIPv6\<close>: \<open>bs\<close> are the bytes stored so far, \<open>ell\<close> the position of the ellipsis. Every round consumes
  input. The result are the bytes and the ellipsis when the whole text was used.
\<close>

function ipv6Loop :: "string \<Rightarrow> ip \<Rightarrow> nat option \<Rightarrow> (ip \<times> nat option) option" where
  "ipv6Loop s bs ell =
    (if length bs \<ge> 16 then (if s = [] then Some (bs, ell) else None)
     else let ds = hexdigits s; rest = drop (length ds) s
       in if ds = [] \<or> length ds > 4 then None
          else if rest \<noteq> [] \<and> hd rest = CHR ''.''
          then (if (ell = None \<and> length bs \<noteq> 12) \<or> length bs + 4 > 16 then None
                else map_option (\<lambda>v4. (bs @ v4, ell)) (parseIPv4Fields s))
          else let g = hexgroup ds; bs = bs @ [of_nat (g div 256), of_nat (g mod 256)]
            in case rest of
                 [] \<Rightarrow> Some (bs, ell)
               | [c] \<Rightarrow> None
               | c # d # rest' \<Rightarrow>
                   if c \<noteq> CHR '':'' then None
                   else if d \<noteq> CHR '':'' then ipv6Loop (d # rest') bs ell
                   else if ell \<noteq> None then None
                   else if rest' = [] then Some (bs, Some (length bs))
                   else ipv6Loop rest' bs (Some (length bs)))"
  by pat_completeness auto
termination by (relation "measure (\<lambda>(s, bs, ell). length s)") (auto dest: hexdigits_rest [OF sym])

declare ipv6Loop.simps [simp del]

definition expandEllipsis :: "ip \<Rightarrow> nat option \<Rightarrow> ip option" where
  "expandEllipsis bs ell =
    (if length bs < 16
     then (case ell of None \<Rightarrow> None | Some e \<Rightarrow> Some (take e bs @ replicate (16 - length bs) 0 @ drop e bs))
     else if ell \<noteq> None then None else Some bs)"

definition parseIPv6 :: "string \<Rightarrow> ip option" where
  "parseIPv6 s =
    (if CHR ''%'' \<in> set s then None
     else if take 2 s = ''::''
     then (if length s = 2 then Some (replicate 16 0)
           else case ipv6Loop (drop 2 s) [] (Some 0) of None \<Rightarrow> None | Some (bs, ell) \<Rightarrow> expandEllipsis bs ell)
     else case ipv6Loop s [] None of None \<Rightarrow> None | Some (bs, ell) \<Rightarrow> expandEllipsis bs ell)"

section \<open>Addresses\<close>

text \<open>\<^verbatim>\<open>netip.ParseAddr\<close> decides by the first of the characters \<^verbatim>\<open>.\<close>, \<^verbatim>\<open>:\<close> and \<^verbatim>\<open>%\<close>; the flag is whether the text is IPv4.\<close>

definition ParseAddr :: "string \<Rightarrow> (bool \<times> ip) option" where
  "ParseAddr s = (case find (\<lambda>ch. ch \<in> {CHR ''.'', CHR '':'', CHR ''%''}) s of
     None \<Rightarrow> None
   | Some ch \<Rightarrow>
       if ch = CHR ''.'' then map_option (\<lambda>v4. (True, v4InV6Prefix @ v4)) (parseIPv4Fields s)
       else if ch = CHR '':'' then map_option (Pair False) (parseIPv6 s) else None)"

definition ParseIP :: "string \<Rightarrow> ip option" where
  "ParseIP s = map_option snd (ParseAddr s)"

definition IsLoopback :: "ip \<Rightarrow> bool" where
  "IsLoopback x = (case To4 x of Some v4 \<Rightarrow> hd v4 = 127 | None \<Rightarrow> x = replicate 15 0 @ [1])"

section \<open>Networks\<close>

text \<open>\<^verbatim>\<open>CIDRMask\<close> and \<^verbatim>\<open>IP.Mask\<close>, for the two lengths that occur.\<close>

definition maskByte :: "nat \<Rightarrow> 8 word" where
  "maskByte n = (if n \<ge> 8 then 255 else NOT (drop_bit n 255))"

definition CIDRMask :: "nat \<Rightarrow> nat \<Rightarrow> 8 word list" where
  "CIDRMask n bytes = map (\<lambda>i. maskByte (n - 8 * i)) [0..<bytes]"

definition maskIP :: "8 word list \<Rightarrow> ip \<Rightarrow> ip" where
  "maskIP m x = map2 (AND) x m"

text \<open>\<^verbatim>\<open>dtoi\<close>: digits only, and less than \<^verbatim>\<open>0xFFFFFF\<close>.\<close>

definition dtoi :: "string \<Rightarrow> nat option" where
  "dtoi s = (if s = [] \<or> \<not> list_all is_digit s \<or> digits_val s \<ge> 16777215 then None else Some (digits_val s))"

definition ParseCIDR :: "string \<Rightarrow> (ip \<times> ip \<times> 8 word list) option" where
  "ParseCIDR s = (case cutByte (CHR ''/'') s of
     None \<Rightarrow> None
   | Some (addr, msk) \<Rightarrow> (case ParseAddr addr of
       None \<Rightarrow> None
     | Some (v4, x) \<Rightarrow> (case dtoi msk of
         None \<Rightarrow> None
       | Some n \<Rightarrow>
           let bytes = (if v4 then 4 else 16)
           in if n > 8 * bytes then None
              else let m = CIDRMask n bytes
                in Some (x, maskIP m (if v4 then drop 12 x else x), m))))"

definition Contains :: "ip \<times> 8 word list \<Rightarrow> ip \<Rightarrow> bool" where
  "Contains net x =
    (let nn = (case To4 (fst net) of None \<Rightarrow> fst net | Some v4 \<Rightarrow> v4);
         m = (if length nn = 4 \<and> length (snd net) = 16 then drop 12 (snd net) else snd net);
         x = (case To4 x of None \<Rightarrow> x | Some v4 \<Rightarrow> v4)
     in length x = length nn \<and> maskIP m nn = maskIP m x)"

section \<open>Printing\<close>

definition hexchar :: "nat \<Rightarrow> char" where
  "hexchar n = (if n < 10 then char_of (48 + n) else char_of (87 + n))"

definition appendHex :: "nat \<Rightarrow> string" where
  "appendHex g =
    (if g \<ge> 4096 then [hexchar (g div 4096), hexchar (g div 256 mod 16), hexchar (g div 16 mod 16), hexchar (g mod 16)]
     else if g \<ge> 256 then [hexchar (g div 256), hexchar (g div 16 mod 16), hexchar (g mod 16)]
     else if g \<ge> 16 then [hexchar (g div 16), hexchar (g mod 16)]
     else [hexchar g])"

definition hexGroups :: "ip \<Rightarrow> nat list" where
  "hexGroups x = map (\<lambda>i. unat (x ! (2 * i)) * 256 + unat (x ! (2 * i + 1))) [0..<8]"

text \<open>The first of the longest runs of at least two zero groups.\<close>

definition zeroRun :: "nat list \<Rightarrow> (nat \<times> nat) option" where
  "zeroRun gs = fold (\<lambda>i best.
     let l = length (takeWhile (\<lambda>g. g = 0) (drop i gs))
     in if l \<ge> 2 \<and> (case best of None \<Rightarrow> True | Some (s, e) \<Rightarrow> l > e - s) then Some (i, i + l) else best) [0..<8] None"

definition joinHex :: "nat list \<Rightarrow> string" where
  "joinHex gs = concat (map (\<lambda>(i, g). (if i = 0 then [] else '':'') @ appendHex g) (zip [0..<length gs] gs))"

definition string6 :: "ip \<Rightarrow> string" where
  "string6 x = (let gs = hexGroups x in case zeroRun gs of
     None \<Rightarrow> joinHex gs
   | Some (s, e) \<Rightarrow> joinHex (take s gs) @ ''::'' @ joinHex (drop e gs))"

definition string4 :: "ip \<Rightarrow> string" where
  "string4 v4 = concat (map (\<lambda>(i, b). (if i = 0 then [] else ''.'') @ itoa_nat (unat b)) (zip [0..<length v4] v4))"

definition IP_String :: "ip \<Rightarrow> string" where
  "IP_String x = (case To4 x of Some v4 \<Rightarrow> string4 v4 | None \<Rightarrow> string6 x)"


section \<open>Printing and parsing IPv4\<close>

lemma octet_itoa: "octet (itoa_nat (unat (b :: 8 word))) = Some b"
proof -
  have n: "unat b < 256" using unsigned_less [of b] by simp
  have lead: "hd (itoa_nat n) = CHR ''0'' \<Longrightarrow> n = 0" for n
  proof (induction n rule: itoa_nat.induct)
    case (1 n)
    show ?case
    proof (cases "n < 10")
      case True
      then show ?thesis using 1(2) digit_char(2) [of n] by (simp add: itoa_nat.simps [of n])
    next
      case False
      then have "hd (itoa_nat (n div 10)) = CHR ''0''" using 1(2) itoa_nat_nonempty by (simp add: itoa_nat.simps [of n])
      with 1(1) False have "n div 10 = 0" by simp
      with False show ?thesis by simp
    qed
  qed
  have "length (itoa_nat 0) = 1" by (simp add: itoa_nat.simps)
  with lead have one: "\<not> (length (itoa_nat n) > 1 \<and> hd (itoa_nat n) = CHR ''0'')" for n by (metis less_irrefl)
  show ?thesis
    using n itoa_nat_nonempty itoa_nat_digits one by (auto simp: octet_def digits_val_itoa_nat)
qed

lemma itoa_free: "\<not> is_digit ch \<Longrightarrow> ch \<notin> set (itoa_nat n)"
  using itoa_nat_digits [of n] by (auto simp: list_all_iff)

lemma string4_conv: "string4 [a, b, c, d] = itoa_nat (unat a) @ CHR ''.'' # itoa_nat (unat b) @ CHR ''.'' # itoa_nat (unat c) @ CHR ''.'' # itoa_nat (unat d)"
  by (simp add: string4_def upt_conv_Cons)

lemma parseIPv4Fields_string4: "parseIPv4Fields (string4 [a, b, c, d]) = Some [a, b, c, d]"
proof -
  have "CHR ''.'' \<notin> set (itoa_nat n)" for n by (rule itoa_free) (simp add: is_digit_def)
  then show ?thesis by (simp add: string4_conv parseIPv4Fields_def splitByte_append splitByte_last octet_itoa)
qed

lemma find_append_none: "list_all (\<lambda>x. \<not> P x) xs \<Longrightarrow> find P (xs @ ys) = find P ys"
  by (induction xs) auto

lemma ParseAddr_string4: "ParseAddr (string4 [a, b, c, d]) = Some (True, v4InV6Prefix @ [a, b, c, d])"
proof -
  have "list_all (\<lambda>ch. ch \<notin> {CHR ''.'', CHR '':'', CHR ''%''}) (itoa_nat n)" for n
    using itoa_nat_digits [of n] by (auto simp: list_all_iff is_digit_def)
  then have "find (\<lambda>ch. ch \<in> {CHR ''.'', CHR '':'', CHR ''%''}) (string4 [a, b, c, d]) = Some (CHR ''.'')"
    unfolding string4_conv by (subst find_append_none) simp_all
  then show ?thesis by (simp add: ParseAddr_def parseIPv4Fields_string4)
qed

text \<open>Parsing what an IPv4 address prints as gives the address back, so that two of them print alike only if they are equal.\<close>

lemma ParseIP_String_v4:
  assumes "To4 x = Some v4" "length x = 16"
  shows "ParseIP (IP_String x) = Some x"
proof -
  from assms have x: "x = v4InV6Prefix @ v4" "length v4 = 4"
    by (auto simp: To4_def split: if_splits) (metis append_take_drop_id)
  then obtain a b c d where "v4 = [a, b, c, d]" by (auto simp: numeral_eq_Suc length_Suc_conv)
  with assms x show ?thesis by (simp add: ParseIP_def IP_String_def ParseAddr_string4)
qed

end
