(* ===== verification/Router_NextHop.thy ===== *)
theory Router_NextHop
  imports NW_Rows NW_IP NW_Severity
begin

text \<open>
  \<^verbatim>\<open>internal/router/nexthop.go\<close>: the MAC addresses behind the next hops of static routes, and what can be wrong with them.

  \<^item> What the listings return is a record \<open>nh_view\<close>; each may fail, and a failure to list \<^verbatim>\<open>NB_Global\<close> is ignored.
  \<^item> The clock \<open>now\<close> is in nanoseconds and the same for all hops of a report; \<open>secs\<close> is \<^verbatim>\<open>int64(d.Seconds())\<close>, which
    goes through a floating-point number.
\<close>

section \<open>Rows and results\<close>

record RoRouter =
  ro_UUID :: string
  ro_Name :: string
  ro_Ports :: "string list"
  ro_StaticRoutes :: "string list"
  ro_Options :: "(string, string) gomap"

record RoPort =
  rp_UUID :: string
  rp_Name :: string
  rp_Networks :: "string list"

record StaticRoute =
  srt_UUID :: string
  srt_IPPrefix :: string
  srt_Nexthop :: string
  srt_OutputPort :: "string option"
  srt_RouteTable :: string

record RoMAC =
  rm_UUID :: string
  rm_LogicalPort :: string
  rm_IP :: string
  rm_MAC :: string
  rm_Timestamp :: int

record RoStaticMAC =
  rs_LogicalPort :: string
  rs_IP :: string
  rs_MAC :: string
  rs_OverrideDynamicMAC :: bool

datatype HopStatus = HopOK | HopPinned | HopNoAging | HopStale | HopConflict | HopUnresolved

record HopCheck =
  hk_Name :: string
  hk_Status :: StatusSeverity
  hk_Message :: "string \<times> arg list"

record NextHop =
  nh_RouterUUID :: string
  nh_RouterName :: string
  nh_RouteUUID :: string
  nh_IPPrefix :: string
  nh_RouteTable :: string
  nh_Nexthop :: string
  nh_LRPName :: string
  nh_CachedMAC :: string
  nh_MACBindingUUID :: string
  nh_StaticMAC :: string
  nh_Override :: bool
  nh_AgingEnabled :: bool
  nh_AgeThreshold :: int
  nh_AgeSeconds :: int
  nh_HasTimestamp :: bool
  nh_Status :: HopStatus
  nh_Overall :: StatusSeverity
  nh_Checks :: "HopCheck list"

record HopReport =
  hr_Total :: nat
  hr_Healthy :: nat
  hr_Warning :: nat
  hr_Error :: nat
  hr_NoAging :: nat
  hr_Stale :: nat
  hr_Conflict :: nat
  hr_Unresolved :: nat
  hr_NextHops :: "NextHop list"

record ro_index =
  ri_lrpByUUID :: "(string, RoPort) gomap"
  ri_routeByUUID :: "(string, StaticRoute) gomap"
  ri_macByPortIP :: "(string, RoMAC) gomap"
  ri_statByPortIP :: "(string, RoStaticMAC) gomap"
  ri_macByIP :: "(string, RoMAC list) gomap"
  ri_statByIP :: "(string, RoStaticMAC list) gomap"
  ri_globalAge :: int

record nh_view =
  nv_routers :: "RoRouter list result"
  nv_lrps :: "RoPort list result"
  nv_routes :: "StaticRoute list result"
  nv_macs :: "RoMAC list result"
  nv_stats :: "RoStaticMAC list result"
  nv_globals :: "(string, string) gomap list result"

section \<open>The index\<close>

definition thresholdOption :: string where
  "thresholdOption = ''mac_binding_age_threshold''"

definition parseThreshold :: "string \<Rightarrow> int option" where
  "parseThreshold s = (let s = TrimSpace s in if s = [] then None
     else case Atoi s of None \<Rightarrow> None | Some v \<Rightarrow> if v < 0 then None else Some v)"

definition optionOf :: "(string, string) gomap \<Rightarrow> string \<Rightarrow> string" where
  "optionOf m k = (case map_of m k of None \<Rightarrow> [] | Some v \<Rightarrow> v)"

definition canonicalIP :: "string \<Rightarrow> string" where
  "canonicalIP s = (let s = TrimSpace s in case ParseIP s of None \<Rightarrow> s | Some x \<Rightarrow> IP_String x)"

definition portIPKey :: "string \<Rightarrow> string \<Rightarrow> string" where
  "portIPKey port cip = port @ ''|'' @ cip"

definition pushIP :: "('a \<Rightarrow> string) \<Rightarrow> 'a \<Rightarrow> (string, 'a list) gomap \<Rightarrow> (string, 'a list) gomap" where
  "pushIP ip r m = (let cip = canonicalIP (ip r)
     in AList.update cip ((case map_of m cip of None \<Rightarrow> [] | Some rs \<Rightarrow> rs) @ [r]) m)"

definition nhBuildIndex :: "nh_view \<Rightarrow> ro_index result" where
  "nhBuildIndex v = (case nv_lrps v of
     Err err \<Rightarrow> Err (Wrapf ''listing logical router ports: %w'' [] err)
   | Ok lrps \<Rightarrow> (case nv_routes v of
       Err err \<Rightarrow> Err (Wrapf ''listing static routes: %w'' [] err)
     | Ok routes \<Rightarrow> (case nv_macs v of
         Err err \<Rightarrow> Err (Wrapf ''listing mac bindings: %w'' [] err)
       | Ok macs \<Rightarrow> (case nv_stats v of
           Err err \<Rightarrow> Err (Wrapf ''listing static mac bindings: %w'' [] err)
         | Ok stats \<Rightarrow> Ok
             \<lparr>ri_lrpByUUID = byUUID rp_UUID lrps, ri_routeByUUID = byUUID srt_UUID routes,
              ri_macByPortIP = byUUID (\<lambda>m. portIPKey (rm_LogicalPort m) (canonicalIP (rm_IP m))) macs,
              ri_statByPortIP = byUUID (\<lambda>s. portIPKey (rs_LogicalPort s) (canonicalIP (rs_IP s))) stats,
              ri_macByIP = fold (pushIP rm_IP) macs [], ri_statByIP = fold (pushIP rs_IP) stats [],
              ri_globalAge = (case nv_globals v of
                  Ok (g # _) \<Rightarrow> (case parseThreshold (optionOf g thresholdOption) of None \<Rightarrow> 0 | Some t \<Rightarrow> t)
                | _ \<Rightarrow> 0)\<rparr>))))"

section \<open>A next hop\<close>

definition subnetContains :: "ip \<Rightarrow> RoPort \<Rightarrow> bool" where
  "subnetContains x lrp = list_ex (\<lambda>cidr. case ParseCIDR cidr of None \<Rightarrow> False | Some (_, net) \<Rightarrow> Contains net x) (rp_Networks lrp)"

definition resolveEgressLRP :: "StaticRoute \<Rightarrow> RoPort list \<Rightarrow> RoPort option" where
  "resolveEgressLRP route lrps =
    (let byName = (case srt_OutputPort route of
           None \<Rightarrow> None | Some p \<Rightarrow> if p = [] then None else find (\<lambda>lrp. rp_Name lrp = p) lrps)
     in if byName \<noteq> None then byName
        else case ParseIP (TrimSpace (srt_Nexthop route)) of None \<Rightarrow> None | Some x \<Rightarrow> find (subnetContains x) lrps)"

definition candidatePorts :: "RoPort option \<Rightarrow> RoPort list \<Rightarrow> string list" where
  "candidatePorts egress lrps = (case egress of Some lrp \<Rightarrow> [rp_Name lrp] | None \<Rightarrow> map rp_Name lrps)"

text \<open>\<^verbatim>\<open>lookupMAC\<close> and \<^verbatim>\<open>lookupStatic\<close> are the same search in different maps.\<close>

fun lookupPorts :: "(string, 'a) gomap \<Rightarrow> string \<Rightarrow> string list \<Rightarrow> 'a option" where
  "lookupPorts byPortIP cip [] = None"
| "lookupPorts byPortIP cip (p # ps) =
    (case map_of byPortIP (portIPKey p cip) of Some r \<Rightarrow> Some r | None \<Rightarrow> lookupPorts byPortIP cip ps)"

definition lookupBinding :: "(string, 'a) gomap \<Rightarrow> (string, 'a list) gomap \<Rightarrow> string list \<Rightarrow> string \<Rightarrow> 'a option" where
  "lookupBinding byPortIP byIP ports ip =
    (let cip = canonicalIP ip
     in case lookupPorts byPortIP cip ports of
          Some r \<Rightarrow> Some r
        | None \<Rightarrow> if ports = [] then (case map_of byIP cip of Some [r] \<Rightarrow> Some r | _ \<Rightarrow> None) else None)"

definition lookupMAC :: "ro_index \<Rightarrow> string list \<Rightarrow> string \<Rightarrow> RoMAC option" where
  "lookupMAC idx ports ip = lookupBinding (ri_macByPortIP idx) (ri_macByIP idx) ports ip"

definition lookupStatic :: "ro_index \<Rightarrow> string list \<Rightarrow> string \<Rightarrow> RoStaticMAC option" where
  "lookupStatic idx ports ip = lookupBinding (ri_statByPortIP idx) (ri_statByIP idx) ports ip"

definition setHop :: "HopStatus \<Rightarrow> StatusSeverity \<Rightarrow> string \<Rightarrow> string \<times> arg list \<Rightarrow> NextHop \<Rightarrow> NextHop" where
  "setHop status sev name msg hop =
    (let hop = hop\<lparr>nh_Status := status, nh_Checks := nh_Checks hop @ [\<lparr>hk_Name = name, hk_Status = sev, hk_Message = msg\<rparr>]\<rparr>
     in case sev of
          SevError \<Rightarrow> hop\<lparr>nh_Overall := SevError\<rparr>
        | SevWarning \<Rightarrow> if nh_Overall hop \<noteq> SevError then hop\<lparr>nh_Overall := SevWarning\<rparr> else hop
        | SevHealthy \<Rightarrow> hop)"

definition classify :: "NextHop \<Rightarrow> NextHop" where
  "classify hop =
    (let hasDynamic = (nh_CachedMAC hop \<noteq> []); hasStatic = (nh_StaticMAC hop \<noteq> []);
         same = EqualFold (nh_StaticMAC hop) (nh_CachedMAC hop);
         smac = AStr (nh_StaticMAC hop); cmac = AStr (nh_CachedMAC hop)
     in if hasStatic \<and> hasDynamic \<and> \<not> same \<and> \<not> nh_Override hop
        then setHop HopConflict SevWarning ''static_vs_dynamic''
               (''Static_MAC_Binding pins %s but the learned MAC is %s (override_dynamic_mac is false)'', [smac, cmac]) hop
        else if hasStatic
        then setHop HopPinned SevHealthy ''static_binding''
               (if hasDynamic \<and> nh_Override hop \<and> \<not> same
                then (''next-hop MAC pinned to %s via Static_MAC_Binding (overrides learned %s)'', [smac, cmac])
                else (''next-hop MAC pinned to %s via Static_MAC_Binding'', [smac])) hop
        else if \<not> hasDynamic
        then setHop HopUnresolved SevHealthy ''resolution''
               (''next hop has no MAC_Binding yet (not learned, or no traffic has triggered ARP/ND)'', []) hop
        else if nh_AgingEnabled hop \<and> nh_HasTimestamp hop \<and> nh_AgeSeconds hop > nh_AgeThreshold hop
        then setHop HopStale SevWarning ''aging''
               (''learned MAC %s is %ds old, beyond mac_binding_age_threshold=%ds '' @ dash @ '' ovn-northd should have aged it out'', [cmac, AInt (nh_AgeSeconds hop), AInt (nh_AgeThreshold hop)]) hop
        else if \<not> nh_AgingEnabled hop
        then setHop HopNoAging SevWarning ''aging''
               (''learned MAC %s never expires '' @ dash @ '' mac_binding_age_threshold is unset, so a changed next-hop MAC will not refresh'', [cmac]) hop
        else setHop HopOK SevHealthy ''aging'' (''learned MAC %s, aging enabled (threshold=%ds)'', [cmac, AInt (nh_AgeThreshold hop)]) hop)"

definition newHop :: "RoRouter \<Rightarrow> StaticRoute \<Rightarrow> int \<Rightarrow> NextHop" where
  "newHop lr route threshold =
    \<lparr>nh_RouterUUID = ro_UUID lr, nh_RouterName = ro_Name lr, nh_RouteUUID = srt_UUID route, nh_IPPrefix = srt_IPPrefix route,
     nh_RouteTable = srt_RouteTable route, nh_Nexthop = TrimSpace (srt_Nexthop route), nh_LRPName = [], nh_CachedMAC = [],
     nh_MACBindingUUID = [], nh_StaticMAC = [], nh_Override = False, nh_AgingEnabled = (threshold > 0),
     nh_AgeThreshold = threshold, nh_AgeSeconds = 0, nh_HasTimestamp = False, nh_Status = HopOK, nh_Overall = SevHealthy,
     nh_Checks = []\<rparr>"

definition withMAC :: "(int \<Rightarrow> int) \<Rightarrow> int \<Rightarrow> RoMAC option \<Rightarrow> NextHop \<Rightarrow> NextHop" where
  "withMAC secs now mac hop = (case mac of
     None \<Rightarrow> hop
   | Some m \<Rightarrow>
       (let hop = hop\<lparr>nh_CachedMAC := rm_MAC m, nh_MACBindingUUID := rm_UUID m,
                      nh_LRPName := (if nh_LRPName hop = [] then rm_LogicalPort m else nh_LRPName hop)\<rparr>
        in if rm_Timestamp m > 0
           then hop\<lparr>nh_HasTimestamp := True, nh_AgeSeconds := secs (max 0 (now - rm_Timestamp m * 1000000))\<rparr>
           else hop))"

definition withStatic :: "RoStaticMAC option \<Rightarrow> NextHop \<Rightarrow> NextHop" where
  "withStatic smac hop = (case smac of
     None \<Rightarrow> hop
   | Some s \<Rightarrow> hop\<lparr>nh_StaticMAC := rs_MAC s, nh_Override := rs_OverrideDynamicMAC s,
                  nh_LRPName := (if nh_LRPName hop = [] then rs_LogicalPort s else nh_LRPName hop)\<rparr>)"

definition analyzeNextHop :: "(int \<Rightarrow> int) \<Rightarrow> int \<Rightarrow> RoRouter \<Rightarrow> StaticRoute \<Rightarrow> RoPort list \<Rightarrow> int \<Rightarrow> ro_index \<Rightarrow> NextHop" where
  "analyzeNextHop secs now lr route routerLRPs threshold idx =
    (let nh = TrimSpace (srt_Nexthop route);
         egress = resolveEgressLRP route routerLRPs;
         hop = newHop lr route threshold;
         hop = (case egress of None \<Rightarrow> hop | Some lrp \<Rightarrow> hop\<lparr>nh_LRPName := rp_Name lrp\<rparr>);
         ports = candidatePorts egress routerLRPs
     in classify (withStatic (lookupStatic idx ports nh) (withMAC secs now (lookupMAC idx ports nh) hop)))"

section \<open>The report\<close>

definition routerPorts :: "ro_index \<Rightarrow> RoRouter \<Rightarrow> RoPort list" where
  "routerPorts idx lr = List.map_filter (map_of (ri_lrpByUUID idx)) (ro_Ports lr)"

definition routerThreshold :: "ro_index \<Rightarrow> RoRouter \<Rightarrow> int" where
  "routerThreshold idx lr = (case parseThreshold (optionOf (ro_Options lr) thresholdOption) of None \<Rightarrow> ri_globalAge idx | Some t \<Rightarrow> t)"

definition hasNextHop :: "StaticRoute \<Rightarrow> bool" where
  "hasNextHop route = (TrimSpace (srt_Nexthop route) \<notin> {[], ''discard''})"

definition routerHops :: "(int \<Rightarrow> int) \<Rightarrow> int \<Rightarrow> ro_index \<Rightarrow> RoRouter \<Rightarrow> NextHop list" where
  "routerHops secs now idx lr = map (\<lambda>route. analyzeNextHop secs now lr route (routerPorts idx lr) (routerThreshold idx lr) idx)
     (filter hasNextHop (List.map_filter (map_of (ri_routeByUUID idx)) (ro_StaticRoutes lr)))"

definition hopReport :: "NextHop list \<Rightarrow> HopReport" where
  "hopReport hops =
    (let sev = (\<lambda>s. length (filter (\<lambda>h. nh_Overall h = s) hops)); st = (\<lambda>s. length (filter (\<lambda>h. nh_Status h = s) hops))
     in \<lparr>hr_Total = length hops, hr_Healthy = sev SevHealthy, hr_Warning = sev SevWarning, hr_Error = sev SevError,
         hr_NoAging = st HopNoAging, hr_Stale = st HopStale, hr_Conflict = st HopConflict, hr_Unresolved = st HopUnresolved,
         hr_NextHops = sort_slice (\<lambda>a b. severityOrder (nh_Overall a) < severityOrder (nh_Overall b)) hops\<rparr>)"

definition AnalyzeNextHops :: "(int \<Rightarrow> int) \<Rightarrow> int \<Rightarrow> nh_view \<Rightarrow> HopReport result" where
  "AnalyzeNextHops secs now v = (case nv_routers v of
     Err err \<Rightarrow> Err (Wrapf ''listing logical routers: %w'' [] err)
   | Ok routers \<Rightarrow> (case nhBuildIndex v of
       Err err \<Rightarrow> Err err
     | Ok idx \<Rightarrow> Ok (hopReport (concat (map (routerHops secs now idx) routers)))))"

section \<open>Lookups\<close>

lemma byUUID_fold: "map_of (fold (\<lambda>r. AList.update (f r) r) rows m) k = (case find (\<lambda>r. f r = k) (rev rows) of None \<Rightarrow> map_of m k | Some r \<Rightarrow> Some r)"
proof (induction rows arbitrary: m)
  case (Cons r rows)
  have "find P (xs @ [x]) = (case find P xs of None \<Rightarrow> (if P x then Some x else None) | Some y \<Rightarrow> Some y)" for P xs and x :: 'a
    by (induction xs) auto
  with Cons show ?case by (auto split: option.split)
qed simp

lemma byUUID_find: "map_of (byUUID f rows) k = find (\<lambda>r. f r = k) (rev rows)"
  by (simp add: byUUID_def byUUID_fold split: option.split)

lemma byUUID_SomeD: "map_of (byUUID f rows) k = Some r \<Longrightarrow> r \<in> set rows \<and> f r = k"
  by (auto simp: byUUID_find find_Some_iff simp del: map_of_eq_Some_iff) (metis nth_mem length_rev set_rev)

lemma byUUID_None: "map_of (byUUID f rows) k = None \<longleftrightarrow> (\<forall>r \<in> set rows. f r \<noteq> k)"
  by (auto simp: byUUID_find find_None_iff)

lemma split_at_first: "x \<notin> set a \<Longrightarrow> x \<notin> set b \<Longrightarrow> a @ x # s = b @ x # t \<longleftrightarrow> a = b \<and> s = t"
proof (induction a arbitrary: b)
  case (Cons y a)
  then show ?case by (cases b) auto
next
  case Nil
  then show ?case by (cases b) auto
qed

lemma portIPKey_inject:
  assumes "CHR ''|'' \<notin> set c" "CHR ''|'' \<notin> set d"
  shows "portIPKey p c = portIPKey q d \<longleftrightarrow> p = q \<and> c = d"
proof -
  have "p @ CHR ''|'' # c = q @ CHR ''|'' # d \<longleftrightarrow> rev c @ CHR ''|'' # rev p = rev d @ CHR ''|'' # rev q"
    using rev_is_rev_conv [of "p @ CHR ''|'' # c" "q @ CHR ''|'' # d"] by simp
  also have "\<dots> \<longleftrightarrow> c = d \<and> p = q"
    using assms split_at_first [of "CHR ''|''" "rev c" "rev d" "rev p" "rev q"] by simp
  finally show ?thesis by (auto simp: portIPKey_def)
qed

text \<open>The rows of a table that bind an address at a port.\<close>

definition binds :: "('a \<Rightarrow> string) \<Rightarrow> ('a \<Rightarrow> string) \<Rightarrow> 'a list \<Rightarrow> string \<Rightarrow> string \<Rightarrow> 'a set" where
  "binds port ip rows p nh = {r \<in> set rows. port r = p \<and> canonicalIP (ip r) = canonicalIP nh}"

definition bar_free :: "('a \<Rightarrow> string) \<Rightarrow> 'a list \<Rightarrow> string \<Rightarrow> bool" where
  "bar_free ip rows nh \<longleftrightarrow> CHR ''|'' \<notin> set (canonicalIP nh) \<and> (\<forall>r \<in> set rows. CHR ''|'' \<notin> set (canonicalIP (ip r)))"

lemma lookupPorts_spec:
  fixes port ip :: "'a \<Rightarrow> string"
  assumes "bar_free ip rows nh"
  defines "m \<equiv> byUUID (\<lambda>r. portIPKey (port r) (canonicalIP (ip r))) rows"
  shows "lookupPorts m (canonicalIP nh) ports = None \<longleftrightarrow> (\<forall>p \<in> set ports. binds port ip rows p nh = {})"
    and "lookupPorts m (canonicalIP nh) ports = Some r \<Longrightarrow> \<exists>p \<in> set ports. r \<in> binds port ip rows p nh"
proof -
  have none: "map_of m (portIPKey p (canonicalIP nh)) = None \<longleftrightarrow> binds port ip rows p nh = {}" for p
    using assms(1) unfolding m_def byUUID_None binds_def bar_free_def by (auto simp: portIPKey_inject)
  have some: "r \<in> binds port ip rows p nh" if "map_of m (portIPKey p (canonicalIP nh)) = Some r" for p r
    using byUUID_SomeD [OF that [unfolded m_def]] assms(1) unfolding binds_def bar_free_def by (auto simp: portIPKey_inject)
  show "lookupPorts m (canonicalIP nh) ports = None \<longleftrightarrow> (\<forall>p \<in> set ports. binds port ip rows p nh = {})"
    by (induction ports) (auto simp: none [symmetric] simp del: map_of_eq_Some_iff split: option.splits)
  show "lookupPorts m (canonicalIP nh) ports = Some r \<Longrightarrow> \<exists>p \<in> set ports. r \<in> binds port ip rows p nh"
    by (induction ports) (use some in \<open>auto simp del: map_of_eq_Some_iff split: option.splits\<close>)
qed

lemma lookupBinding_spec:
  assumes "bar_free ip rows nh" "ports \<noteq> []"
  shows "lookupBinding (byUUID (\<lambda>r. portIPKey (port r) (canonicalIP (ip r))) rows) byIP ports nh =
    lookupPorts (byUUID (\<lambda>r. portIPKey (port r) (canonicalIP (ip r))) rows) (canonicalIP nh) ports"
  using assms(2) by (simp add: lookupBinding_def split: option.split)

section \<open>The status of a next hop\<close>

lemma setHop_simps [simp]:
  "nh_Status (setHop s sev n m hop) = s"
  "nh_Overall (setHop s sev n m hop) = raise_to sev (nh_Overall hop)"
  by (cases sev; cases "nh_Overall hop"; simp add: setHop_def raise_to_def)+

lemma withMAC_simps [simp]:
  "nh_CachedMAC (withMAC secs now mac hop) = (case mac of None \<Rightarrow> nh_CachedMAC hop | Some m \<Rightarrow> rm_MAC m)"
  "nh_StaticMAC (withMAC secs now mac hop) = nh_StaticMAC hop"
  "nh_AgingEnabled (withMAC secs now mac hop) = nh_AgingEnabled hop"
  "nh_Overall (withMAC secs now mac hop) = nh_Overall hop"
  "nh_Override (withMAC secs now mac hop) = nh_Override hop"
  by (simp_all add: withMAC_def split: option.split)

lemma withStatic_simps [simp]:
  "nh_StaticMAC (withStatic smac hop) = (case smac of None \<Rightarrow> nh_StaticMAC hop | Some s \<Rightarrow> rs_MAC s)"
  "nh_Override (withStatic smac hop) = (case smac of None \<Rightarrow> nh_Override hop | Some s \<Rightarrow> rs_OverrideDynamicMAC s)"
  "nh_CachedMAC (withStatic smac hop) = nh_CachedMAC hop"
  "nh_AgingEnabled (withStatic smac hop) = nh_AgingEnabled hop"
  "nh_Overall (withStatic smac hop) = nh_Overall hop"
  by (simp_all add: withStatic_def split: option.split)

lemma classify_status:
  assumes "nh_Overall hop = SevHealthy"
  shows "nh_Status (classify hop) = HopUnresolved \<longleftrightarrow> nh_CachedMAC hop = [] \<and> nh_StaticMAC hop = []"
    "nh_Status (classify hop) = HopConflict \<longleftrightarrow> nh_CachedMAC hop \<noteq> [] \<and> nh_StaticMAC hop \<noteq> []
       \<and> \<not> EqualFold (nh_StaticMAC hop) (nh_CachedMAC hop) \<and> \<not> nh_Override hop"
    "nh_Status (classify hop) = HopNoAging \<longleftrightarrow> nh_CachedMAC hop \<noteq> [] \<and> nh_StaticMAC hop = [] \<and> \<not> nh_AgingEnabled hop"
    "nh_Overall (classify hop) = (if nh_Status (classify hop) \<in> {HopConflict, HopStale, HopNoAging} then SevWarning else SevHealthy)"
  using assms by (simp_all add: classify_def raise_to_def)

text \<open>The facts a hop is classified by.\<close>

lemma analyzeNextHop_conv:
  obtains hop where "analyzeNextHop secs now lr route lrps threshold idx = classify hop"
    "nh_CachedMAC hop = (case lookupMAC idx (candidatePorts (resolveEgressLRP route lrps) lrps) (TrimSpace (srt_Nexthop route)) of
       None \<Rightarrow> [] | Some m \<Rightarrow> rm_MAC m)"
    "nh_StaticMAC hop = (case lookupStatic idx (candidatePorts (resolveEgressLRP route lrps) lrps) (TrimSpace (srt_Nexthop route)) of
       None \<Rightarrow> [] | Some s \<Rightarrow> rs_MAC s)"
    "nh_Override hop = (case lookupStatic idx (candidatePorts (resolveEgressLRP route lrps) lrps) (TrimSpace (srt_Nexthop route)) of
       None \<Rightarrow> False | Some s \<Rightarrow> rs_OverrideDynamicMAC s)"
    "nh_AgingEnabled hop = (threshold > 0)" "nh_Overall hop = SevHealthy"
proof -
  let ?ports = "candidatePorts (resolveEgressLRP route lrps) lrps" and ?nh = "TrimSpace (srt_Nexthop route)"
  let ?new = "case resolveEgressLRP route lrps of None \<Rightarrow> newHop lr route threshold | Some lrp \<Rightarrow> (newHop lr route threshold)\<lparr>nh_LRPName := rp_Name lrp\<rparr>"
  have new: "nh_CachedMAC ?new = []" "nh_StaticMAC ?new = []" "nh_Override ?new = False" "nh_AgingEnabled ?new = (threshold > 0)" "nh_Overall ?new = SevHealthy"
    by (simp_all add: newHop_def split: option.split)
  show thesis
    by (rule that [of "withStatic (lookupStatic idx ?ports ?nh) (withMAC secs now (lookupMAC idx ?ports ?nh) ?new)"])
       (simp_all only: analyzeNextHop_def Let_def withStatic_simps withMAC_simps new)
qed

text \<open>The bindings of a next hop at the ports it may leave through.\<close>

definition learned :: "RoMAC list \<Rightarrow> string list \<Rightarrow> string \<Rightarrow> RoMAC set" where
  "learned macs ports nh = (\<Union>p \<in> set ports. binds rm_LogicalPort rm_IP macs p nh)"

definition pinned :: "RoStaticMAC list \<Rightarrow> string list \<Rightarrow> string \<Rightarrow> RoStaticMAC set" where
  "pinned stats ports nh = (\<Union>p \<in> set ports. binds rs_LogicalPort rs_IP stats p nh)"

lemma lookups:
  assumes "nhBuildIndex v = Ok idx" "nv_macs v = Ok macs" "nv_stats v = Ok stats"
    and "bar_free rm_IP macs nh" "bar_free rs_IP stats nh" "ports \<noteq> []"
  shows "lookupMAC idx ports nh = None \<longleftrightarrow> learned macs ports nh = {}"
    "lookupMAC idx ports nh = Some m \<Longrightarrow> m \<in> learned macs ports nh"
    "lookupStatic idx ports nh = None \<longleftrightarrow> pinned stats ports nh = {}"
    "lookupStatic idx ports nh = Some s \<Longrightarrow> s \<in> pinned stats ports nh"
proof -
  have m: "lookupMAC idx ports nh = lookupPorts (byUUID (\<lambda>m. portIPKey (rm_LogicalPort m) (canonicalIP (rm_IP m))) macs) (canonicalIP nh) ports"
    unfolding lookupMAC_def using assms lookupBinding_spec [OF assms(4,6), of rm_LogicalPort]
    by (auto simp: nhBuildIndex_def split: sum.splits)
  have s: "lookupStatic idx ports nh = lookupPorts (byUUID (\<lambda>s. portIPKey (rs_LogicalPort s) (canonicalIP (rs_IP s))) stats) (canonicalIP nh) ports"
    unfolding lookupStatic_def using assms lookupBinding_spec [OF assms(5,6), of rs_LogicalPort]
    by (auto simp: nhBuildIndex_def split: sum.splits)
  note lm = lookupPorts_spec [OF assms(4), of rm_LogicalPort ports] and ls = lookupPorts_spec [OF assms(5), of rs_LogicalPort ports]
  show "lookupMAC idx ports nh = None \<longleftrightarrow> learned macs ports nh = {}"
    "lookupMAC idx ports nh = Some m \<Longrightarrow> m \<in> learned macs ports nh"
    "lookupStatic idx ports nh = None \<longleftrightarrow> pinned stats ports nh = {}"
    "lookupStatic idx ports nh = Some s \<Longrightarrow> s \<in> pinned stats ports nh"
    unfolding m s learned_def pinned_def using lm ls by auto
qed


definition hopExample :: nh_view where
  "hopExample = \<lparr>nv_routers = Ok [], nv_lrps = Ok [], nv_routes = Ok [],
     nv_macs = Ok [\<lparr>rm_UUID = ''m'', rm_LogicalPort = ''lrp'', rm_IP = ''gw'', rm_MAC = ''aa'', rm_Timestamp = 0\<rparr>],
     nv_stats = Ok [], nv_globals = Ok []\<rparr>"

definition hopRoute :: StaticRoute where
  "hopRoute = \<lparr>srt_UUID = ''r'', srt_IPPrefix = ''0.0.0.0/0'', srt_Nexthop = ''gw'', srt_OutputPort = Some ''lrp'', srt_RouteTable = []\<rparr>"

definition hopRouter :: RoRouter where
  "hopRouter = \<lparr>ro_UUID = ''lr'', ro_Name = ''lr'', ro_Ports = [], ro_StaticRoutes = [], ro_Options = []\<rparr>"


end
