(* ===== verification/Search_Engine.thy ===== *)
theory Search_Engine
  imports NW_GoValues NW_Strings NW_IP
begin

text \<open>
  \<^verbatim>\<open>internal/search/search.go\<close>: the search over all tables of all databases, with its caps, and the classification of a
  query. A table is its row type with the listing of its rows, which may fail.
\<close>

section \<open>Queries\<close>

datatype QueryType = QueryIPv4 | QueryIPv6 | QueryMAC | QueryUUID | QueryFreeText

definition isHex :: "char \<Rightarrow> bool" where
  "isHex ch = (hexval ch \<noteq> None)"

text \<open>The two regular expressions, both anchored at the ends.\<close>

definition uuidRegexp :: "string \<Rightarrow> bool" where
  "uuidRegexp s = (map length (splitByte (CHR ''-'') s) = [8, 4, 4, 4, 12] \<and> list_all (\<lambda>ch. ch = CHR ''-'' \<or> isHex ch) s)"

definition macRegexp :: "string \<Rightarrow> bool" where
  "macRegexp s = (length s = 17 \<and>
     list_all (\<lambda>i. if i mod 3 = 2 then s ! i \<in> {CHR '':'', CHR ''-''} else isHex (s ! i)) [0..<17])"

definition ipKind :: "ip \<Rightarrow> QueryType" where
  "ipKind x = (if To4 x \<noteq> None then QueryIPv4 else QueryIPv6)"

definition ClassifyQuery :: "string \<Rightarrow> QueryType" where
  "ClassifyQuery q = (let q = TrimSpace q
     in if uuidRegexp q then QueryUUID
        else if macRegexp q then QueryMAC
        else case ParseIP q of
            Some x \<Rightarrow> ipKind x
          | None \<Rightarrow> (case ParseCIDR q of Some (x, _) \<Rightarrow> ipKind x | None \<Rightarrow> QueryFreeText))"

section \<open>Matching\<close>

fun matchFieldValue :: "string \<Rightarrow> gval \<Rightarrow> bool" where
  "matchFieldValue q (GStr s) = Contains_str (ToLower s) q"
| "matchFieldValue q (GPtr (Some v)) = matchFieldValue q v"
| "matchFieldValue q (GSlice vs) = list_ex (matchFieldValue q) vs"
| "matchFieldValue q (GMap kvs) = list_ex (\<lambda>kv. Contains_str (ToLower (fst kv)) q \<or> matchFieldValue q (snd kv)) kvs"
| "matchFieldValue q _ = False"

definition matchesQuery :: "string \<Rightarrow> model \<Rightarrow> bool" where
  "matchesQuery q row = list_ex (matchFieldValue q) row"

section \<open>The search\<close>

record TableDef =
  td_Name :: string
  td_Type :: gtype
  td_List :: "model list result"

record DatabaseTables =
  db_Name :: string
  db_Tables :: "TableDef list"

record SearchResult =
  sx_Database :: string
  sx_Table :: string
  sx_Matches :: "row_map list"

definition maxMatchesPerTable :: nat where
  "maxMatchesPerTable = 100"

definition maxTotalMatches :: nat where
  "maxTotalMatches = 500"

fun collectRows_search :: "gtype \<Rightarrow> string \<Rightarrow> nat \<Rightarrow> model list \<Rightarrow> row_map list \<Rightarrow> row_map list \<times> bool" where
  "collectRows_search t q limit [] acc = (acc, False)"
| "collectRows_search t q limit (row # rows) acc =
    (if \<not> matchesQuery q row then collectRows_search t q limit rows acc
     else if length acc \<ge> limit then (acc, True)
     else collectRows_search t q limit rows (acc @ [ModelToMap t row]))"

definition searchTable :: "TableDef \<Rightarrow> string \<Rightarrow> nat \<Rightarrow> (row_map list \<times> bool) result" where
  "searchTable td q limit = (case td_List td of Err err \<Rightarrow> Err err | Ok rows \<Rightarrow> Ok (collectRows_search (td_Type td) q limit rows []))"

fun searchTables :: "string \<Rightarrow> (string \<times> TableDef) list \<Rightarrow> SearchResult list \<Rightarrow> nat \<Rightarrow> bool \<Rightarrow> (SearchResult list \<times> bool) result" where
  "searchTables q [] results tot truncated = Ok (results, truncated)"
| "searchTables q ((dbname, td) # tds) results tot truncated =
    (if tot \<ge> maxTotalMatches then Ok (results, True)
     else case searchTable td q (min maxMatchesPerTable (maxTotalMatches - tot)) of
         Err err \<Rightarrow> Err (Wrapf ''searching %s %s: %w'' [AStr dbname, AStr (td_Name td)] err)
       | Ok (matches, early) \<Rightarrow>
           (let truncated = (truncated \<or> early)
            in if matches = [] then searchTables q tds results tot truncated
               else searchTables q tds (results @ [\<lparr>sx_Database = dbname, sx_Table = td_Name td, sx_Matches = matches\<rparr>])
                      (tot + length matches) truncated))"

text \<open>The two nested loops go through the tables of the databases in order.\<close>

definition allTables :: "DatabaseTables list \<Rightarrow> (string \<times> TableDef) list" where
  "allTables dbs = concat (map (\<lambda>db. map (Pair (db_Name db)) (db_Tables db)) dbs)"

definition Search :: "DatabaseTables list \<Rightarrow> string \<Rightarrow> (SearchResult list \<times> bool) result" where
  "Search dbs query =
    (let query = TrimSpace query
     in if query = [] then Err (Errorf ''empty query'' [])
        else searchTables (ToLower query) (allTables dbs) [] 0 False)"

section \<open>One table\<close>

text \<open>The matching rows of a table, as maps, and of all tables that have some.\<close>

definition hits :: "string \<Rightarrow> gtype \<Rightarrow> model list \<Rightarrow> row_map list" where
  "hits q t rows = map (ModelToMap t) (filter (matchesQuery q) rows)"

lemma collectRows_search_conv:
  "length acc \<le> limit \<Longrightarrow>
   collectRows_search t q limit rows acc = (take limit (acc @ hits q t rows), limit < length acc + length (hits q t rows))"
proof (induction rows arbitrary: acc)
  case (Cons row rows)
  then show ?case by (auto simp: hits_def take_Cons')
qed (simp add: hits_def)

lemma searchTable_conv:
  "searchTable td q limit = (case td_List td of
     Err err \<Rightarrow> Err err
   | Ok rows \<Rightarrow> Ok (take limit (hits q (td_Type td) rows), limit < length (hits q (td_Type td) rows)))"
  by (simp add: searchTable_def collectRows_search_conv split: sum.split)

section \<open>All tables\<close>

definition rowsOf :: "TableDef \<Rightarrow> model list" where
  "rowsOf td = (case td_List td of Ok rows \<Rightarrow> rows | Err _ \<Rightarrow> [])"

definition fullResults :: "string \<Rightarrow> (string \<times> TableDef) list \<Rightarrow> SearchResult list" where
  "fullResults q tds = map (\<lambda>(d, td). \<lparr>sx_Database = d, sx_Table = td_Name td, sx_Matches = hits q (td_Type td) (rowsOf td)\<rparr>)
     (filter (\<lambda>(d, td). hits q (td_Type td) (rowsOf td) \<noteq> []) tds)"

definition matchCount :: "SearchResult list \<Rightarrow> nat" where
  "matchCount rs = sum_list (map (length \<circ> sx_Matches) rs)"

lemma searchTables_bounds:
  assumes "searchTables q tds results tot truncated = Ok (rs, tr)" "matchCount results = tot" "tot \<le> maxTotalMatches"
    and "\<forall>r \<in> set results. length (sx_Matches r) \<le> maxMatchesPerTable"
  shows "matchCount rs \<le> maxTotalMatches \<and> (\<forall>r \<in> set rs. length (sx_Matches r) \<le> maxMatchesPerTable)"
  using assms
proof (induction tds arbitrary: results tot truncated)
  case (Cons p tds)
  obtain d td where p: "p = (d, td)" by fastforce
  show ?case
  proof (cases "tot \<ge> maxTotalMatches")
    case True
    then show ?thesis using Cons.prems by (auto simp: p)
  next
    case False
    let ?l = "min maxMatchesPerTable (maxTotalMatches - tot)"
    from Cons.prems(1) False obtain rows where rows: "td_List td = Ok rows" by (auto simp: p searchTable_conv split: sum.splits)
    let ?m = "take ?l (hits q (td_Type td) rows)"
    let ?rs = "if ?m = [] then results else results @ [\<lparr>sx_Database = d, sx_Table = td_Name td, sx_Matches = ?m\<rparr>]"
    have m: "length ?m \<le> maxMatchesPerTable" "tot + length ?m \<le> maxTotalMatches" using False by auto
    have "searchTables q tds ?rs (tot + length ?m) (truncated \<or> ?l < length (hits q (td_Type td) rows)) = Ok (rs, tr)"
      using Cons.prems(1) False by (auto simp: p searchTable_conv rows split: if_splits)
    moreover have "matchCount ?rs = tot + length ?m" using Cons.prems(2) by (simp add: matchCount_def)
    moreover have "\<forall>r \<in> set ?rs. length (sx_Matches r) \<le> maxMatchesPerTable" using Cons.prems(4) m(1) by auto
    ultimately show ?thesis using Cons.IH m(2) by blast
  qed
qed auto

lemma searchTables_complete:
  assumes "searchTables q tds results tot truncated = Ok (rs, False)"
  shows "rs = results @ fullResults q tds \<and> \<not> truncated \<and> (\<forall>(d, td) \<in> set tds. \<exists>rows. td_List td = Ok rows)"
  using assms
proof (induction tds arbitrary: results tot truncated)
  case (Cons p tds)
  obtain d td where p: "p = (d, td)" by fastforce
  from Cons.prems have tot: "\<not> tot \<ge> maxTotalMatches" by (auto simp: p split: if_splits)
  with Cons.prems obtain rows where rows: "td_List td = Ok rows" by (auto simp: p searchTable_conv split: sum.splits)
  let ?l = "min maxMatchesPerTable (maxTotalMatches - tot)" and ?h = "hits q (td_Type td) rows"
  let ?r = "\<lambda>ms. \<lparr>sx_Database = d, sx_Table = td_Name td, sx_Matches = ms\<rparr>"
  have l: "0 < ?l" using tot by (simp add: maxMatchesPerTable_def)
  have full: "fullResults q (p # tds) = (if ?h = [] then [] else [?r ?h]) @ fullResults q tds"
    by (simp add: fullResults_def p rowsOf_def rows)
  have step: "searchTables q tds (if ?h = [] then results else results @ [?r (take ?l ?h)]) (tot + length (take ?l ?h))
      (truncated \<or> ?l < length ?h) = Ok (rs, False)"
    using Cons.prems tot l by (auto simp: p searchTable_conv rows split: if_splits)
  from Cons.IH [OF step] have "length ?h \<le> ?l" by auto
  with Cons.IH [OF step] full rows show ?case by (auto simp: p split: if_splits)
qed (auto simp: fullResults_def)

text \<open>
  C40. A search shows at most 100 matches of a table and 500 in all. When it does not say that it was cut short, it shows for
  every table of every database, in order, exactly the rows with a string, map key or map value that contains the query
  without regard to case, and no table failed to list.
\<close>

theorem search_complete:
  assumes "Search dbs query = Ok (rs, truncated)"
  shows "TrimSpace query \<noteq> [] \<and> matchCount rs \<le> 500 \<and> (\<forall>r \<in> set rs. length (sx_Matches r) \<le> 100)
    \<and> (\<not> truncated \<longrightarrow> rs = fullResults (ToLower (TrimSpace query)) (allTables dbs)
         \<and> (\<forall>(d, td) \<in> set (allTables dbs). \<exists>rows. td_List td = Ok rows))"
proof -
  from assms have q: "TrimSpace query \<noteq> []"
    and s: "searchTables (ToLower (TrimSpace query)) (allTables dbs) [] 0 False = Ok (rs, truncated)"
    by (auto simp: Search_def split: if_splits)
  have "matchCount rs \<le> maxTotalMatches \<and> (\<forall>r \<in> set rs. length (sx_Matches r) \<le> maxMatchesPerTable)"
    by (rule searchTables_bounds [OF s]) (simp_all add: matchCount_def)
  then show ?thesis
    using q s searchTables_complete [of "ToLower (TrimSpace query)" "allTables dbs" "[]" 0 False rs]
    by (auto simp: maxTotalMatches_def maxMatchesPerTable_def)
qed

definition searchExample :: "DatabaseTables list" where
  "searchExample = [\<lparr>db_Name = ''nb'', db_Tables = [\<lparr>td_Name = ''Logical_Switch'', td_Type = TStruct [(''name'', TString)],
     td_List = Ok [[GStr ''Web''], [GStr ''db'']]\<rparr>]\<rparr>]"

theorem search_complete_witness:
  "matchCount [\<lparr>sx_Database = ''nb'', sx_Table = ''Logical_Switch'', sx_Matches = [[(''name'', GStr ''Web'')]]\<rparr>] \<le> 500
   \<and> [\<lparr>sx_Database = ''nb'', sx_Table = ''Logical_Switch'', sx_Matches = [[(''name'', GStr ''Web'')]]\<rparr>] = fullResults ''we'' (allTables searchExample)"
proof -
  have "Search searchExample '' WE'' = Ok ([\<lparr>sx_Database = ''nb'', sx_Table = ''Logical_Switch'', sx_Matches = [[(''name'', GStr ''Web'')]]\<rparr>], False)"
    by code_simp
  moreover have "ToLower (TrimSpace '' WE'') = ''we''" by code_simp
  ultimately show ?thesis using search_complete [of searchExample "'' WE''"] by auto
qed

text \<open>
  The flag may also be set when nothing was dropped: once 500 matches are shown, any further table sets it, whether or
  not it has a match.
\<close>

lemma search_truncated_without_loss:
  assumes "td_List td = Ok []"
  shows "searchTables q [(d, td)] rs 500 False = Ok (rs, True)"
  by (simp add: maxTotalMatches_def)

end
