(* ===== verification/Telemetry_Querier.thy ===== *)
theory Telemetry_Querier
  imports NW_Rows NW_GoValues
begin

text \<open>
  \<^verbatim>\<open>internal/telemetry/summary.go\<close>: the overview, the flow metrics, the propagation of the configuration generation, the
  connection tables, and the Raft view assembled from what each endpoint says of itself.

  \<^item> The two databases are a record \<open>tele_view\<close> of listings, each of which may fail, and of connection states.
  \<^item> An endpoint of \<^verbatim>\<open>ServerMonitor\<close> is its address with its client, none for a nil one.
\<close>

section \<open>Rows and results\<close>

record NBGlobalRow =
  ng_NbCfg :: int
  ng_HvCfg :: int

record TeleChassis =
  tc_Name :: string
  tc_Hostname :: string
  tc_NbCfg :: int

record FlowRow =
  fl_Pipeline :: string
  fl_TableID :: int

record ConnRow =
  co_UUID :: string
  co_Target :: string
  co_IsConnected :: bool
  co_ReadOnly :: bool
  co_Status :: "(string, string) gomap"

record tele_view =
  tv_nbConnected :: bool
  tv_sbConnected :: bool
  tv_lsw :: "nat result"
  tv_lsp :: "nat result"
  tv_lr :: "nat result"
  tv_lrp :: "nat result"
  tv_acls :: "nat result"
  tv_chassis :: "TeleChassis list result"
  tv_pb :: "nat result"
  tv_flows :: "FlowRow list result"
  tv_bfd :: "BFD list result"
  tv_nbGlobals :: "NBGlobalRow list result"
  tv_sbGlobals :: "int list result"
  tv_privates :: "ChassisPrivate list result"
  tv_nbConns :: "ConnRow list result"
  tv_sbConns :: "ConnRow list result"

record ChassisPropagation =
  chp_Name :: string
  chp_Hostname :: string
  chp_NbCfg :: int
  chp_NbCfgTimestamp :: int
  chp_Lag :: int

record PropagationResult =
  pr_NbCfg :: int
  pr_SbNbCfg :: int
  pr_HvCfg :: int
  pr_Chassis :: "ChassisPropagation list"

record TeleSummary =
  ts_Connected :: "(string, bool) gomap"
  ts_Counts :: "(string, nat) gomap"
  ts_BFDStatus :: "(string, nat) gomap"
  ts_Propagation :: "PropagationResult option"

record FlowMetricsResult =
  fm_Total :: nat
  fm_ByPipeline :: "(string, nat) gomap"
  fm_ByTable :: "(int, nat) gomap"

record ClusterConnection =
  clc_Database :: string
  clc_Target :: string
  clc_IsConnected :: bool
  clc_ReadOnly :: bool
  clc_Status :: "(string, string) gomap"

record ClusterResult =
  clr_Connected :: "(string, bool) gomap"
  clr_Connections :: "ClusterConnection list"

section \<open>Counting\<close>

definition countBy :: "('a \<Rightarrow> 'k) \<Rightarrow> 'a list \<Rightarrow> ('k, nat) gomap" where
  "countBy f xs = fold (\<lambda>x m. AList.update (f x) (Suc (case map_of m (f x) of None \<Rightarrow> 0 | Some n \<Rightarrow> n)) m) xs []"

definition FlowMetrics :: "tele_view \<Rightarrow> FlowMetricsResult result" where
  "FlowMetrics v = (case tv_flows v of
     Err err \<Rightarrow> Err err
   | Ok flows \<Rightarrow> Ok \<lparr>fm_Total = length flows, fm_ByPipeline = countBy fl_Pipeline flows, fm_ByTable = countBy fl_TableID flows\<rparr>)"

lemma countBy_spec: "map_of (countBy f xs) k = (if k \<in> f ` set xs then Some (length (filter (\<lambda>x. f x = k) xs)) else None)"
proof -
  have "map_of (fold (\<lambda>x m. AList.update (f x) (Suc (case map_of m (f x) of None \<Rightarrow> 0 | Some n \<Rightarrow> n)) m) xs m) k =
      (if k \<in> f ` set xs then Some ((case map_of m k of None \<Rightarrow> 0 | Some n \<Rightarrow> n) + length (filter (\<lambda>x. f x = k) xs)) else map_of m k)" for m
    by (induction xs arbitrary: m) (auto simp: filter_empty_conv image_iff simp del: map_of_eq_Some_iff)
  from this [of "[]"] show ?thesis by (simp add: countBy_def)
qed

section \<open>Propagation and overview\<close>

definition emptyPropagation :: PropagationResult where
  "emptyPropagation = \<lparr>pr_NbCfg = 0, pr_SbNbCfg = 0, pr_HvCfg = 0, pr_Chassis = []\<rparr>"

definition chassisPropagation :: "int \<Rightarrow> (string, int) gomap \<Rightarrow> TeleChassis \<Rightarrow> ChassisPropagation" where
  "chassisPropagation nbCfg privTimestamps ch =
    \<lparr>chp_Name = tc_Name ch, chp_Hostname = tc_Hostname ch, chp_NbCfg = tc_NbCfg ch,
     chp_NbCfgTimestamp = (case map_of privTimestamps (tc_Name ch) of None \<Rightarrow> 0 | Some t \<Rightarrow> t), chp_Lag = nbCfg - tc_NbCfg ch\<rparr>"

definition Propagation :: "tele_view \<Rightarrow> PropagationResult result" where
  "Propagation v = (case tv_nbGlobals v of
     Err err \<Rightarrow> Err err
   | Ok [] \<Rightarrow> Ok emptyPropagation
   | Ok (g # _) \<Rightarrow> Ok
       \<lparr>pr_NbCfg = ng_NbCfg g, pr_SbNbCfg = (case tv_sbGlobals v of Ok (s # _) \<Rightarrow> s | _ \<Rightarrow> 0), pr_HvCfg = ng_HvCfg g,
        pr_Chassis = (case tv_chassis v of
            Err _ \<Rightarrow> []
          | Ok cs \<Rightarrow>
              (let privTimestamps = (case tv_privates v of
                     Err _ \<Rightarrow> [] | Ok ps \<Rightarrow> fold (\<lambda>p. AList.update (cp_Name p) (cp_NbCfgTimestamp p)) ps [])
               in map (chassisPropagation (ng_NbCfg g) privTimestamps) cs))\<rparr>)"

definition countIf :: "string \<Rightarrow> nat result \<Rightarrow> (string, nat) gomap \<Rightarrow> (string, nat) gomap" where
  "countIf name r m = (case r of Err _ \<Rightarrow> m | Ok n \<Rightarrow> AList.update name n m)"

definition lengthOf :: "'a list result \<Rightarrow> nat result" where
  "lengthOf r = (case r of Err err \<Rightarrow> Err err | Ok xs \<Rightarrow> Ok (length xs))"

definition connectedMap :: "tele_view \<Rightarrow> (string, bool) gomap" where
  "connectedMap v = [(''nb'', tv_nbConnected v), (''sb'', tv_sbConnected v)]"

definition TelemetrySummary :: "tele_view \<Rightarrow> TeleSummary" where
  "TelemetrySummary v =
    \<lparr>ts_Connected = connectedMap v,
     ts_Counts = countIf ''logical_flows'' (lengthOf (tv_flows v)) (countIf ''port_bindings'' (tv_pb v)
       (countIf ''chassis'' (lengthOf (tv_chassis v)) (countIf ''acls'' (tv_acls v) (countIf ''logical_router_ports'' (tv_lrp v)
       (countIf ''logical_routers'' (tv_lr v) (countIf ''logical_switch_ports'' (tv_lsp v) (countIf ''logical_switches'' (tv_lsw v) []))))))),
     ts_BFDStatus = (case tv_bfd v of Err _ \<Rightarrow> [] | Ok bs \<Rightarrow> countBy bf_Status bs),
     ts_Propagation = (case Propagation v of Err _ \<Rightarrow> None | Ok p \<Rightarrow> Some p)\<rparr>"

definition clusterConnection :: "string \<Rightarrow> bool \<Rightarrow> ConnRow \<Rightarrow> ClusterConnection" where
  "clusterConnection db showReadOnly c = \<lparr>clc_Database = db, clc_Target = co_Target c, clc_IsConnected = co_IsConnected c,
     clc_ReadOnly = (showReadOnly \<and> co_ReadOnly c), clc_Status = co_Status c\<rparr>"

definition Cluster_query :: "tele_view \<Rightarrow> ClusterResult" where
  "Cluster_query v = \<lparr>clr_Connected = connectedMap v,
     clr_Connections = (case tv_nbConns v of Err _ \<Rightarrow> [] | Ok cs \<Rightarrow> map (clusterConnection ''nb'' False) cs)
       @ (case tv_sbConns v of Err _ \<Rightarrow> [] | Ok cs \<Rightarrow> map (clusterConnection ''sb'' True) cs)\<rparr>"

section \<open>Raft\<close>

record ServerDatabase =
  sd_Name :: string
  sd_Model :: string
  sd_Leader :: bool
  sd_Connected :: bool
  sd_Sid :: "string option"
  sd_Cid :: "string option"
  sd_Index :: "int option"

record ServerClient =
  sl_Connected :: bool
  sl_Databases :: "ServerDatabase list result"

record ServerMonitor =
  sm_Endpoint :: string
  sm_Client :: "ServerClient option"

record RaftMember =
  rfm_Endpoint :: string
  rfm_Reachable :: bool
  rfm_ServerID :: string
  rfm_Leader :: bool
  rfm_Connected :: bool
  rfm_Index :: int

record RaftCluster =
  rfc_Available :: bool
  rfc_Model :: string
  rfc_ClusterID :: string
  rfc_SplitBrain :: bool
  rfc_Total :: nat
  rfc_Reachable :: nat
  rfc_HasLeader :: bool
  rfc_LeaderID :: string
  rfc_Members :: "RaftMember list"

record ConnectionDetail =
  cd_UUID :: string
  cd_Target :: string
  cd_IsConnected :: bool
  cd_Status :: string

record RaftDBHealth =
  rh_ClientConnected :: bool
  rh_Cluster :: RaftCluster
  rh_Listeners :: "ConnectionDetail list"

record RaftHealthResult =
  rr_NB :: RaftDBHealth
  rr_SB :: RaftDBHealth

definition readDatabaseRow :: "ServerClient option \<Rightarrow> string \<Rightarrow> ServerDatabase option" where
  "readDatabaseRow server dbName = (case server of
     None \<Rightarrow> None
   | Some c \<Rightarrow>
       (if \<not> sl_Connected c then None
        else case sl_Databases c of Err _ \<Rightarrow> None | Ok ds \<Rightarrow> find (\<lambda>d. sd_Name d = dbName) ds))"

definition raftMember :: "ServerMonitor \<Rightarrow> ServerDatabase option \<Rightarrow> RaftMember" where
  "raftMember mon row = (case row of
     None \<Rightarrow> \<lparr>rfm_Endpoint = sm_Endpoint mon, rfm_Reachable = False, rfm_ServerID = [], rfm_Leader = False,
             rfm_Connected = False, rfm_Index = 0\<rparr>
   | Some d \<Rightarrow> \<lparr>rfm_Endpoint = sm_Endpoint mon, rfm_Reachable = True, rfm_ServerID = DerefStr (sd_Sid d), rfm_Leader = sd_Leader d,
             rfm_Connected = sd_Connected d, rfm_Index = (case sd_Index d of None \<Rightarrow> 0 | Some i \<Rightarrow> i)\<rparr>)"

definition raftRow :: "ServerDatabase \<Rightarrow> RaftCluster \<Rightarrow> RaftCluster" where
  "raftRow d c =
    (let c = c\<lparr>rfc_Available := True, rfc_Reachable := Suc (rfc_Reachable c),
               rfc_Model := (if rfc_Model c = [] then sd_Model d else rfc_Model c)\<rparr>;
         c = (case sd_Cid d of
                None \<Rightarrow> c
              | Some cid \<Rightarrow> if rfc_ClusterID c = [] then c\<lparr>rfc_ClusterID := cid\<rparr>
                           else if rfc_ClusterID c \<noteq> cid then c\<lparr>rfc_SplitBrain := True\<rparr> else c)
     in if sd_Leader d then c\<lparr>rfc_LeaderID := DerefStr (sd_Sid d)\<rparr> else c)"

text \<open>One round of the loop, with the number of leaders seen.\<close>

definition raftStep :: "string \<Rightarrow> ServerMonitor \<Rightarrow> RaftCluster \<times> nat \<Rightarrow> RaftCluster \<times> nat" where
  "raftStep dbName mon = (\<lambda>(c, leaders).
     let row = readDatabaseRow (sm_Client mon) dbName;
         (c, leaders) = (case row of None \<Rightarrow> (c, leaders) | Some d \<Rightarrow> (raftRow d c, if sd_Leader d then Suc leaders else leaders))
     in (c\<lparr>rfc_Members := rfc_Members c @ [raftMember mon row]\<rparr>, leaders))"

definition newRaftCluster :: "nat \<Rightarrow> RaftCluster" where
  "newRaftCluster n = \<lparr>rfc_Available = False, rfc_Model = [], rfc_ClusterID = [], rfc_SplitBrain = False, rfc_Total = n,
     rfc_Reachable = 0, rfc_HasLeader = False, rfc_LeaderID = [], rfc_Members = []\<rparr>"

definition clusterStatus :: "ServerMonitor list \<Rightarrow> string \<Rightarrow> RaftCluster" where
  "clusterStatus monitors dbName =
    (let (c, leaders) = fold (raftStep dbName) monitors (newRaftCluster (length monitors), 0);
         c = c\<lparr>rfc_HasLeader := (leaders = 1)\<rparr>
     in if leaders > 1 then c\<lparr>rfc_SplitBrain := True, rfc_LeaderID := []\<rparr> else c)"

fun joinStrings :: "string \<Rightarrow> string list \<Rightarrow> string" where
  "joinStrings sep [] = []"
| "joinStrings sep [s] = s"
| "joinStrings sep (s # t # ss) = s @ sep @ joinStrings sep (t # ss)"

definition formatStatus :: "(string, string) gomap \<Rightarrow> string" where
  "formatStatus status = (if status = [] then []
     else joinStrings '', '' (map (\<lambda>k. k @ ''='' @ DerefStr (map_of status k)) (sort_slice (<) (gokeys status))))"

definition connectionDetail :: "ConnRow \<Rightarrow> ConnectionDetail" where
  "connectionDetail c = \<lparr>cd_UUID = co_UUID c, cd_Target = co_Target c, cd_IsConnected = co_IsConnected c, cd_Status = formatStatus (co_Status c)\<rparr>"

definition raftDBHealth :: "bool \<Rightarrow> ConnRow list result \<Rightarrow> ServerMonitor list \<Rightarrow> string \<Rightarrow> RaftDBHealth" where
  "raftDBHealth isUp conns servers dbName = \<lparr>rh_ClientConnected = isUp, rh_Cluster = clusterStatus servers dbName,
     rh_Listeners = (case conns of Err _ \<Rightarrow> [] | Ok cs \<Rightarrow> map connectionDetail cs)\<rparr>"

definition RaftHealth :: "tele_view \<Rightarrow> ServerMonitor list \<Rightarrow> ServerMonitor list \<Rightarrow> RaftHealthResult" where
  "RaftHealth v nbServers sbServers =
    \<lparr>rr_NB = raftDBHealth (tv_nbConnected v) (tv_nbConns v) nbServers ''OVN_Northbound'',
     rr_SB = raftDBHealth (tv_sbConnected v) (tv_sbConns v) sbServers ''OVN_Southbound''\<rparr>"

section \<open>What the Raft view says\<close>

text \<open>The rows that could be read, in the order of the endpoints, and among them the leaders and the cluster ids.\<close>

definition readRows :: "ServerMonitor list \<Rightarrow> string \<Rightarrow> ServerDatabase list" where
  "readRows monitors dbName = List.map_filter (\<lambda>mon. readDatabaseRow (sm_Client mon) dbName) monitors"

definition reportedCids :: "ServerDatabase list \<Rightarrow> string list" where
  "reportedCids rows = List.map_filter sd_Cid rows"

lemma readRows_append: "readRows (xs @ [mon]) dbName = readRows xs dbName @
    (case readDatabaseRow (sm_Client mon) dbName of None \<Rightarrow> [] | Some d \<Rightarrow> [d])"
  by (simp add: readRows_def List.map_filter_def split: option.split)

lemma reportedCids_append: "reportedCids (xs @ [d]) = reportedCids xs @ (case sd_Cid d of None \<Rightarrow> [] | Some c \<Rightarrow> [c])"
  by (simp add: reportedCids_def List.map_filter_def split: option.split)

definition firstOf :: "string list \<Rightarrow> string" where
  "firstOf xs = (case xs of [] \<Rightarrow> [] | x # _ \<Rightarrow> x)"

lemma firstOf_append: "firstOf (xs @ ys) = (if xs = [] then firstOf ys else firstOf xs)"
  by (cases xs) (simp_all add: firstOf_def)

lemma firstOf_empty: "[] \<notin> set xs \<Longrightarrow> firstOf xs = [] \<longleftrightarrow> xs = []"
  by (cases xs) (auto simp: firstOf_def)

definition lastLeader :: "ServerDatabase list \<Rightarrow> string" where
  "lastLeader rows = (let ls = filter sd_Leader rows in if ls = [] then [] else DerefStr (sd_Sid (last ls)))"

lemma raftRow_simps:
  "rfc_Available (raftRow d c) = True" "rfc_Reachable (raftRow d c) = Suc (rfc_Reachable c)"
  "rfc_Total (raftRow d c) = rfc_Total c" "rfc_Members (raftRow d c) = rfc_Members c"
  "rfc_LeaderID (raftRow d c) = (if sd_Leader d then DerefStr (sd_Sid d) else rfc_LeaderID c)"
  "rfc_ClusterID (raftRow d c) = (case sd_Cid d of None \<Rightarrow> rfc_ClusterID c | Some cid \<Rightarrow> if rfc_ClusterID c = [] then cid else rfc_ClusterID c)"
  "rfc_SplitBrain (raftRow d c) = (case sd_Cid d of None \<Rightarrow> rfc_SplitBrain c
     | Some cid \<Rightarrow> rfc_SplitBrain c \<or> (rfc_ClusterID c \<noteq> [] \<and> rfc_ClusterID c \<noteq> cid))"
  by (simp_all add: raftRow_def split: option.split)

lemma raftStep_simps:
  "readDatabaseRow (sm_Client mon) dbName = None \<Longrightarrow>
     raftStep dbName mon (c, n) = (c\<lparr>rfc_Members := rfc_Members c @ [raftMember mon None]\<rparr>, n)"
  "readDatabaseRow (sm_Client mon) dbName = Some d \<Longrightarrow>
     raftStep dbName mon (c, n) = ((raftRow d c)\<lparr>rfc_Members := rfc_Members c @ [raftMember mon (Some d)]\<rparr>, if sd_Leader d then Suc n else n)"
  by (simp_all add: raftStep_def raftRow_simps)

definition raft_inv :: "ServerMonitor list \<Rightarrow> string \<Rightarrow> RaftCluster \<times> nat \<Rightarrow> bool" where
  "raft_inv mons dbName cl \<longleftrightarrow> (let (c, leaders) = cl; rows = readRows mons dbName; cids = reportedCids rows
     in rfc_Available c = (rows \<noteq> []) \<and> rfc_Reachable c = length rows
      \<and> rfc_Members c = map (\<lambda>mon. raftMember mon (readDatabaseRow (sm_Client mon) dbName)) mons
      \<and> leaders = length (filter sd_Leader rows) \<and> rfc_LeaderID c = lastLeader rows
      \<and> ([] \<notin> set cids \<longrightarrow> rfc_ClusterID c = firstOf cids \<and> rfc_SplitBrain c = (\<exists>x \<in> set cids. x \<noteq> firstOf cids)))"

lemma raft_inv_fold: "raft_inv mons dbName (fold (raftStep dbName) mons (newRaftCluster n, 0))
   \<and> rfc_Total (fst (fold (raftStep dbName) mons (newRaftCluster n, 0))) = n"
proof (induction mons rule: rev_induct)
  case (snoc mon mons)
  obtain c leaders where f: "fold (raftStep dbName) mons (newRaftCluster n, 0) = (c, leaders)" by fastforce
  note IH = snoc.IH [unfolded f raft_inv_def]
  show ?case
  proof (cases "readDatabaseRow (sm_Client mon) dbName")
    case None
    then show ?thesis using IH by (simp add: f raftStep_simps raft_inv_def readRows_append)
  next
    case (Some d)
    have l: "lastLeader (readRows mons dbName @ [d]) = (if sd_Leader d then DerefStr (sd_Sid d) else lastLeader (readRows mons dbName))"
      by (simp add: lastLeader_def)
    show ?thesis
    proof (cases "sd_Cid d")
      case None
      with Some show ?thesis using IH l
        by (auto simp: f raftStep_simps raft_inv_def readRows_append reportedCids_append raftRow_simps)
    next
      case (Some cid)
      let ?cs = "reportedCids (readRows mons dbName)"
      have cids: "rfc_ClusterID (raftRow d c) = firstOf (?cs @ [cid]) \<and> rfc_SplitBrain (raftRow d c) = (\<exists>x \<in> set (?cs @ [cid]). x \<noteq> firstOf (?cs @ [cid]))"
        if "[] \<notin> set (?cs @ [cid])"
      proof -
        have "[] \<notin> set ?cs" "cid \<noteq> []" using that by auto
        with IH have "rfc_ClusterID c = firstOf ?cs" "rfc_SplitBrain c = (\<exists>x \<in> set ?cs. x \<noteq> firstOf ?cs)" by simp_all
        then show ?thesis
          by (cases "?cs = []") (auto simp: raftRow_simps Some firstOf_append firstOf_empty [OF \<open>[] \<notin> set ?cs\<close>] firstOf_def [of "[_]"] firstOf_def [of "[]"])
      qed
      have "readRows (mons @ [mon]) dbName = readRows mons dbName @ [d]" "reportedCids (readRows mons dbName @ [d]) = ?cs @ [cid]"
        using \<open>readDatabaseRow (sm_Client mon) dbName = Some d\<close> Some by (simp_all add: readRows_append reportedCids_append)
      then show ?thesis using \<open>readDatabaseRow (sm_Client mon) dbName = Some d\<close> IH l cids
        by (simp add: f raftStep_simps raft_inv_def raftRow_simps(1-5))
    qed
  qed
qed (simp add: raft_inv_def newRaftCluster_def readRows_def List.map_filter_def lastLeader_def reportedCids_def firstOf_def)

lemma some_differ:
  "(\<exists>x \<in> {x. \<exists>d \<in> R. f d = Some x}. \<exists>y \<in> {x. \<exists>d \<in> R. f d = Some x}. x \<noteq> y)
   \<longleftrightarrow> (\<exists>d \<in> R. \<exists>e \<in> R. f d \<noteq> None \<and> f e \<noteq> None \<and> f d \<noteq> f e)" (is "?l \<longleftrightarrow> ?r")
proof
  assume ?l
  then obtain x y d e where "d \<in> R" "e \<in> R" "f d = Some x" "f e = Some y" "x \<noteq> y" by auto
  then show ?r by (intro bexI [of _ d] bexI [of _ e]) simp_all
next
  assume ?r
  then obtain d e x y where "d \<in> R" "e \<in> R" "f d = Some x" "f e = Some y" "x \<noteq> y" by auto
  then show ?l by (intro bexI [of _ x] bexI [of _ y]) auto
qed

text \<open>
  The Raft view lists every endpoint in order and counts those whose row could be read; it claims a leader exactly when
  one of them alone says it is the leader, and then names it, and names none otherwise; it reports a split exactly when
  two of them claim to lead or report different cluster ids.
\<close>

theorem raft_view_sound:
  assumes "rows = readRows monitors dbName" "\<forall>d \<in> set rows. sd_Cid d \<noteq> Some []"
  shows "let c = clusterStatus monitors dbName; leaders = filter sd_Leader rows
    in map rfm_Endpoint (rfc_Members c) = map sm_Endpoint monitors
     \<and> rfc_Total c = length monitors \<and> rfc_Reachable c = length rows \<and> rfc_Available c = (rows \<noteq> [])
     \<and> rfc_HasLeader c = (\<exists>d. leaders = [d])
     \<and> rfc_LeaderID c = (case leaders of [d] \<Rightarrow> DerefStr (sd_Sid d) | _ \<Rightarrow> [])
     \<and> rfc_SplitBrain c = (length leaders > 1 \<or> (\<exists>d \<in> set rows. \<exists>e \<in> set rows. sd_Cid d \<noteq> None \<and> sd_Cid e \<noteq> None \<and> sd_Cid d \<noteq> sd_Cid e))"
proof -
  obtain c n where f: "fold (raftStep dbName) monitors (newRaftCluster (length monitors), 0) = (c, n)" by fastforce
  note inv = raft_inv_fold [of monitors dbName "length monitors", unfolded f raft_inv_def Let_def split_conv fst_conv, folded assms(1)]
  have "[] \<notin> set (reportedCids rows)"
    using assms(2) by (auto simp: reportedCids_def List.map_filter_def)
  with inv have split: "rfc_SplitBrain c = (\<exists>x \<in> set (reportedCids rows). x \<noteq> firstOf (reportedCids rows))" by simp
  have cids: "set (reportedCids rows) = {x. \<exists>d \<in> set rows. sd_Cid d = Some x}"
    by (force simp: reportedCids_def List.map_filter_def)
  have "rfc_SplitBrain c = (\<exists>x \<in> set (reportedCids rows). \<exists>y \<in> set (reportedCids rows). x \<noteq> y)"
  proof (cases "reportedCids rows")
    case (Cons x xs)
    then show ?thesis unfolding split by (auto simp: firstOf_def)
  qed (simp add: split)
  then have split': "rfc_SplitBrain c = (\<exists>d \<in> set rows. \<exists>e \<in> set rows. sd_Cid d \<noteq> None \<and> sd_Cid e \<noteq> None \<and> sd_Cid d \<noteq> sd_Cid e)"
    unfolding cids some_differ .
  have ends: "map rfm_Endpoint (rfc_Members c) = map sm_Endpoint monitors"
    using inv by (simp add: raftMember_def split: option.split)
  let ?c = "clusterStatus monitors dbName" and ?ls = "filter sd_Leader rows"
  have n: "n = length ?ls" "rfc_LeaderID c = lastLeader rows" using inv by simp_all
  have c: "rfc_Members ?c = rfc_Members c" "rfc_Total ?c = rfc_Total c" "rfc_Reachable ?c = rfc_Reachable c" "rfc_Available ?c = rfc_Available c"
    "rfc_HasLeader ?c = (n = 1)" "rfc_LeaderID ?c = (if n > 1 then [] else rfc_LeaderID c)" "rfc_SplitBrain ?c = (n > 1 \<or> rfc_SplitBrain c)"
    by (simp_all add: clusterStatus_def f)
  have lead: "(n = 1) = (\<exists>d. ?ls = [d])" by (simp add: n length_Suc_conv)
  have id: "(if n > 1 then [] else rfc_LeaderID c) = (case ?ls of [d] \<Rightarrow> DerefStr (sd_Sid d) | _ \<Rightarrow> [])"
    unfolding n lastLeader_def Let_def by (auto split: list.split)
  have "rfc_Total c = length monitors" "rfc_Reachable c = length rows" "rfc_Available c = (rows \<noteq> [])" using inv by simp_all
  then show ?thesis using lead id unfolding Let_def c split' ends n(1) by (intro conjI) simp_all
qed

definition raftExample :: "ServerMonitor list" where
  "raftExample = map (\<lambda>(e, l). \<lparr>sm_Endpoint = e, sm_Client = Some \<lparr>sl_Connected = True, sl_Databases =
     Ok [\<lparr>sd_Name = ''OVN_Northbound'', sd_Model = ''clustered'', sd_Leader = l, sd_Connected = True, sd_Sid = Some e,
          sd_Cid = Some ''cl'', sd_Index = None\<rparr>]\<rparr>\<rparr>) [(''a'', False), (''b'', True)]"

theorem raft_view_sound_witness:
  "rfc_LeaderID (clusterStatus raftExample ''OVN_Northbound'') = ''b'' \<and> \<not> rfc_SplitBrain (clusterStatus raftExample ''OVN_Northbound'')"
proof -
  have r: "readRows raftExample ''OVN_Northbound'' = map (\<lambda>(e, l). \<lparr>sd_Name = ''OVN_Northbound'', sd_Model = ''clustered'',
      sd_Leader = l, sd_Connected = True, sd_Sid = Some e, sd_Cid = Some ''cl'', sd_Index = None\<rparr>) [(''a'', False), (''b'', True)]"
    by (simp add: readRows_def raftExample_def List.map_filter_def readDatabaseRow_def)
  show ?thesis
    using raft_view_sound [OF r [symmetric]] by (auto simp: DerefStr_def)
qed

text \<open>
  The generation a chassis has realised is read from its \<^verbatim>\<open>Chassis\<close> row. Where the controllers report it in
  \<^verbatim>\<open>Chassis_Private\<close> only, that column stays 0 and every chassis appears to lag by the whole generation, whatever it
  has realised.
\<close>

lemma propagation_lag_ignores_private:
  assumes "tv_nbGlobals v = Ok (g # gs)" "tv_chassis v = Ok cs" "\<forall>c \<in> set cs. tc_NbCfg c = 0"
  shows "\<exists>p. Propagation v = Ok p \<and> map chp_Lag (pr_Chassis p) = replicate (length cs) (ng_NbCfg g)"
  using assms by (simp add: Propagation_def chassisPropagation_def map_replicate_const [symmetric])

end
