(* ===== verification/App_Config.thy ===== *)
theory App_Config
  imports Api_Auth NW_IP
begin

text \<open>
  \<^verbatim>\<open>internal/config/config.go\<close>: what startup makes of the flags, the environment and the configuration files, and
  \<^verbatim>\<open>checkAuthPosture\<close> of \<^verbatim>\<open>cmd/northwatch/main.go\<close>.

  \<^item> The record \<open>flags\<close> holds the variables the flags are bound to. \<open>envFlags\<close> are their defaults, read from the
    environment, with the errors collected on the way; the flag package, which overwrites them from the arguments, is the
    parameter \<open>parseFlags\<close>.
  \<^item> The environment \<open>io\<close> has the reading and JSON decoding of the three kinds of files and \<^verbatim>\<open>time.ParseDuration\<close>, which
    are parameters. A Go map is walked in the order of its list; only which of several errors is reported depends on it.
\<close>

section \<open>Configuration\<close>

record EnrichmentConfig =
  en_Type :: string
  en_OpenStackAuthURL :: string
  en_OpenStackUsername :: string
  en_OpenStackPassword :: string
  en_OpenStackProjectName :: string
  en_OpenStackDomainName :: string
  en_OpenStackRegionName :: string
  en_OpenStackCACert :: string
  en_Kubeconfig :: string
  en_KubeContext :: string

record ClusterConfig =
  ccf_Name :: string
  ccf_Label :: string
  ccf_OVNNBAddr :: string
  ccf_OVNSBAddr :: string
  ccf_Enrichment :: "EnrichmentConfig option"

record TLSTrio =
  tt_Cert :: string
  tt_Key :: string
  tt_CA :: string

record flags =
  fg_Listen :: string
  fg_OVNNBAddr :: string
  fg_OVNSBAddr :: string
  fg_apiTokensStr :: string
  fg_apiTokensFile :: string
  fg_InsecureNoAuth :: bool
  fg_TLSCert :: string
  fg_TLSKey :: string
  fg_OVNNBTLS :: TLSTrio
  fg_OVNSBTLS :: TLSTrio
  fg_ConfigFile :: string
  fg_SnapshotFile :: string
  fg_monitorBatchDelayStr :: string
  fg_monitorSkipTablesStr :: string
  fg_OpenStack :: EnrichmentConfig
  fg_KubeEnrichment :: bool
  fg_cacheTTLStr :: string
  fg_chassisStaleStr :: string
  fg_ovsMgmtAddrFile :: string
  fg_OVSTLS :: TLSTrio
  fg_LogLevel :: string
  fg_LogFormat :: string
  fg_writePlanTTLStr :: string
  fg_snapshotIntervalStr :: string
  fg_eventRetentionStr :: string
  fg_SnapshotMaxCount :: int
  fg_AlertWebhookURLs :: string
  fg_WSAllowedOrigins :: string
  fg_WriteEnabled :: bool
  fg_WriteRateLimit :: int
  fg_HistoryDBPath :: string
  fg_EventMaxCount :: int

text \<open>The fields of \<^verbatim>\<open>Config\<close> that \<^verbatim>\<open>Parse\<close> computes; the others are the flags themselves.\<close>

record Config =
  cfg_flags :: flags
  cfg_APITokens :: "(string, string) gomap"
  cfg_Clusters :: "ClusterConfig list"
  cfg_EnrichmentCacheTTL :: int
  cfg_ChassisStaleThreshold :: int
  cfg_SnapshotInterval :: int
  cfg_EventRetention :: int
  cfg_WritePlanTTL :: int
  cfg_MonitorBatchDelay :: int
  cfg_MonitorSkipTables :: "string list"
  cfg_OVSMgmtAddrs :: "(string, string) gomap"

record io =
  io_readMap :: "string \<Rightarrow> (string, string) gomap result"
  io_readClusters :: "string \<Rightarrow> ClusterConfig list result"
  io_ParseDuration :: "string \<Rightarrow> int result"

section \<open>Environment defaults\<close>

definition envOrDefault :: "(string \<Rightarrow> string) \<Rightarrow> string \<Rightarrow> string \<Rightarrow> string" where
  "envOrDefault getenv key defaultVal = (if getenv key \<noteq> [] then getenv key else defaultVal)"

text \<open>\<^verbatim>\<open>strconv.ParseBool\<close>.\<close>

definition ParseBool :: "string \<Rightarrow> bool option" where
  "ParseBool s = (if s \<in> {''1'', ''t'', ''T'', ''TRUE'', ''true'', ''True''} then Some True
     else if s \<in> {''0'', ''f'', ''F'', ''FALSE'', ''false'', ''False''} then Some False else None)"

definition envOrDefaultBool :: "(string \<Rightarrow> string) \<Rightarrow> string \<Rightarrow> bool \<Rightarrow> error list \<Rightarrow> bool \<times> error list" where
  "envOrDefaultBool getenv key defaultVal errs =
    (let v = getenv key
     in if v = [] then (defaultVal, errs)
        else if ToLower (TrimSpace v) = ''yes'' then (True, errs)
        else if ToLower (TrimSpace v) = ''no'' then (False, errs)
        else case ParseBool (TrimSpace v) of
            Some b \<Rightarrow> (b, errs)
          | None \<Rightarrow> (defaultVal, errs @ [Errorf ''invalid %s %q: want a boolean (true/false/1/0/yes/no)'' [AStr key, AStr v]]))"

text \<open>\<^verbatim>\<open>envOrDefaultInt\<close> and \<^verbatim>\<open>envOrDefaultInt64\<close> differ in the Go type only: an \<^verbatim>\<open>int\<close> has 64 bits.\<close>

definition envOrDefaultInt :: "(string \<Rightarrow> string) \<Rightarrow> string \<Rightarrow> int \<Rightarrow> error list \<Rightarrow> int \<times> error list" where
  "envOrDefaultInt getenv key defaultVal errs =
    (let v = getenv key
     in if v = [] then (defaultVal, errs)
        else case Atoi (TrimSpace v) of
            Some n \<Rightarrow> (n, errs)
          | None \<Rightarrow> (defaultVal, errs @ [Errorf ''invalid %s %q: want an integer'' [AStr key, AStr v]]))"

definition envTLS :: "(string \<Rightarrow> string) \<Rightarrow> string \<Rightarrow> TLSTrio" where
  "envTLS getenv pre = \<lparr>tt_Cert = getenv (pre @ ''_TLS_CERT''), tt_Key = getenv (pre @ ''_TLS_KEY''),
     tt_CA = getenv (pre @ ''_TLS_CA'')\<rparr>"

definition envEnrichment :: "(string \<Rightarrow> string) \<Rightarrow> EnrichmentConfig" where
  "envEnrichment getenv = \<lparr>en_Type = [], en_OpenStackAuthURL = getenv ''OS_AUTH_URL'', en_OpenStackUsername = getenv ''OS_USERNAME'',
     en_OpenStackPassword = getenv ''OS_PASSWORD'', en_OpenStackProjectName = getenv ''OS_PROJECT_NAME'',
     en_OpenStackDomainName = getenv ''OS_USER_DOMAIN_NAME'', en_OpenStackRegionName = getenv ''OS_REGION_NAME'',
     en_OpenStackCACert = getenv ''OS_CACERT'', en_Kubeconfig = getenv ''KUBECONFIG'', en_KubeContext = getenv ''NORTHWATCH_KUBE_CONTEXT''\<rparr>"

definition envFlags :: "(string \<Rightarrow> string) \<Rightarrow> flags \<times> error list" where
  "envFlags getenv =
    (let (insecure, errs) = envOrDefaultBool getenv ''NORTHWATCH_INSECURE_NO_AUTH'' False [];
         (kube, errs) = envOrDefaultBool getenv ''NORTHWATCH_KUBE_ENRICHMENT'' False errs;
         (write, errs) = envOrDefaultBool getenv ''NORTHWATCH_WRITE_ENABLED'' False errs;
         (rate, errs) = envOrDefaultInt getenv ''NORTHWATCH_WRITE_RATE_LIMIT'' 30 errs;
         (events, errs) = envOrDefaultInt getenv ''NORTHWATCH_EVENT_MAX_COUNT'' 0 errs;
         (snapshots, errs) = envOrDefaultInt getenv ''NORTHWATCH_SNAPSHOT_MAX_COUNT'' 500 errs
     in (\<lparr>fg_Listen = envOrDefault getenv ''NORTHWATCH_LISTEN'' ''127.0.0.1:8080'',
          fg_OVNNBAddr = getenv ''NORTHWATCH_OVN_NB_ADDR'', fg_OVNSBAddr = getenv ''NORTHWATCH_OVN_SB_ADDR'',
          fg_apiTokensStr = getenv ''NORTHWATCH_API_TOKENS'', fg_apiTokensFile = getenv ''NORTHWATCH_API_TOKENS_FILE'',
          fg_InsecureNoAuth = insecure, fg_TLSCert = getenv ''NORTHWATCH_TLS_CERT'', fg_TLSKey = getenv ''NORTHWATCH_TLS_KEY'',
          fg_OVNNBTLS = envTLS getenv ''NORTHWATCH_OVN_NB'', fg_OVNSBTLS = envTLS getenv ''NORTHWATCH_OVN_SB'',
          fg_ConfigFile = getenv ''NORTHWATCH_CONFIG_FILE'', fg_SnapshotFile = getenv ''NORTHWATCH_SNAPSHOT'',
          fg_monitorBatchDelayStr = envOrDefault getenv ''NORTHWATCH_MONITOR_BATCH_DELAY'' ''200ms'',
          fg_monitorSkipTablesStr = getenv ''NORTHWATCH_MONITOR_SKIP_TABLES'',
          fg_OpenStack = envEnrichment getenv, fg_KubeEnrichment = kube,
          fg_cacheTTLStr = envOrDefault getenv ''NORTHWATCH_ENRICHMENT_CACHE_TTL'' ''5m'',
          fg_chassisStaleStr = envOrDefault getenv ''NORTHWATCH_CHASSIS_STALE_THRESHOLD'' ''60s'',
          fg_ovsMgmtAddrFile = getenv ''NORTHWATCH_OVS_MGMT_ADDR_FILE'', fg_OVSTLS = envTLS getenv ''NORTHWATCH_OVS'',
          fg_LogLevel = envOrDefault getenv ''NORTHWATCH_LOG_LEVEL'' ''info'',
          fg_LogFormat = envOrDefault getenv ''NORTHWATCH_LOG_FORMAT'' ''text'',
          fg_writePlanTTLStr = envOrDefault getenv ''NORTHWATCH_WRITE_PLAN_TTL'' ''10m'',
          fg_snapshotIntervalStr = envOrDefault getenv ''NORTHWATCH_SNAPSHOT_INTERVAL'' ''5m'',
          fg_eventRetentionStr = envOrDefault getenv ''NORTHWATCH_EVENT_RETENTION'' ''24h'', fg_SnapshotMaxCount = snapshots,
          fg_AlertWebhookURLs = getenv ''NORTHWATCH_ALERT_WEBHOOK_URLS'', fg_WSAllowedOrigins = getenv ''NORTHWATCH_WS_ALLOWED_ORIGINS'',
          fg_WriteEnabled = write, fg_WriteRateLimit = rate,
          fg_HistoryDBPath = envOrDefault getenv ''NORTHWATCH_HISTORY_DB_PATH'' ''northwatch-history.db'',
          fg_EventMaxCount = events\<rparr>, errs))"

section \<open>API tokens\<close>

definition SplitCSV :: "string \<Rightarrow> string list" where
  "SplitCSV s = filter (\<lambda>p. p \<noteq> []) (map TrimSpace (splitByte (CHR '','') s))"

definition minAPITokenLength :: nat where
  "minAPITokenLength = 16"

fun mergePairs :: "string list \<Rightarrow> (string, string) gomap \<Rightarrow> (string, string) gomap result" where
  "mergePairs [] tokens = Ok tokens"
| "mergePairs (pair # ps) tokens =
    (case cutByte (CHR ''='') pair of
       None \<Rightarrow> Err (Errorf ''invalid --api-tokens entry %q: want name=token'' [AStr pair])
     | Some (n, t) \<Rightarrow>
         (let name = TrimSpace n; token = TrimSpace t
          in if name = [] \<or> token = [] then Err (Errorf ''invalid --api-tokens entry %q: want name=token'' [AStr pair])
             else if map_of tokens name \<noteq> None then Err (Errorf ''duplicate API token name %q'' [AStr name])
             else mergePairs ps (AList.update name token tokens)))"

fun mergeFile :: "(string, string) gomap \<Rightarrow> (string, string) gomap \<Rightarrow> (string, string) gomap result" where
  "mergeFile [] tokens = Ok tokens"
| "mergeFile ((name, token) # ps) tokens =
    (if map_of tokens name \<noteq> None then Err (Errorf ''duplicate API token name %q'' [AStr name])
     else mergeFile ps (AList.update name token tokens))"

definition loadAPITokens :: "io \<Rightarrow> string \<Rightarrow> (string, string) gomap result" where
  "loadAPITokens io path = (case io_readMap io path of
     Err err \<Rightarrow> Err err
   | Ok tokens \<Rightarrow>
       (if tokens = [] then Err (Errorf ''%s must define at least one token'' [AStr path])
        else case find (\<lambda>(name, token). TrimSpace name = [] \<or> TrimSpace token = []) tokens of
            Some (name, token) \<Rightarrow> Err (if TrimSpace name = [] then Errorf ''%s: empty token name'' [AStr path]
              else Errorf ''%s: empty token for name %q'' [AStr path, AStr name])
          | None \<Rightarrow> Ok tokens))"

definition parseAPITokens :: "io \<Rightarrow> string \<Rightarrow> string \<Rightarrow> (string, string) gomap result" where
  "parseAPITokens io csv file = (case mergePairs (SplitCSV csv) [] of
     Err err \<Rightarrow> Err err
   | Ok tokens \<Rightarrow>
       (case (if file = [] then Ok tokens
              else case loadAPITokens io file of
                  Err err \<Rightarrow> Err (Wrapf ''loading API tokens file: %w'' [] err)
                | Ok fromFile \<Rightarrow> mergeFile fromFile tokens) of
          Err err \<Rightarrow> Err err
        | Ok tokens \<Rightarrow> (case find (\<lambda>(name, token). length token < minAPITokenLength) tokens of
              Some (name, token) \<Rightarrow> Err (Errorf ''API token %q is too short: want at least %d characters'' [AStr name, AInt (int minAPITokenLength)])
            | None \<Rightarrow> Ok tokens)))"

section \<open>Validation\<close>

definition ListenIsLoopback :: "string \<Rightarrow> bool" where
  "ListenIsLoopback listen = (case SplitHostPort listen of
     None \<Rightarrow> False
   | Some host \<Rightarrow>
       (if host = [] then False
        else if host = ''localhost'' then True
        else case ParseIP host of None \<Rightarrow> False | Some x \<Rightarrow> IsLoopback x))"

definition hasTLS :: "TLSTrio \<Rightarrow> bool" where
  "hasTLS t = (tt_Cert t \<noteq> [] \<or> tt_Key t \<noteq> [] \<or> tt_CA t \<noteq> [])"

definition usesSSL :: "string \<Rightarrow> bool" where
  "usesSSL addr = list_ex (\<lambda>ep. HasPrefix (TrimSpace ep) ''ssl:'') (splitByte (CHR '','') addr)"

definition requireOVNTLSForSSL :: "string \<Rightarrow> string \<Rightarrow> string \<Rightarrow> TLSTrio \<Rightarrow> string \<Rightarrow> error option" where
  "requireOVNTLSForSSL cluster db addr tls flagPrefix =
    (if hasTLS tls then None
     else if usesSSL addr then Some (Errorf ''cluster %q uses ssl: %s address %q but no TLS material configured (--ovn-%s-tls-cert/--ovn-%s-tls-key/--ovn-%s-tls-ca)''
       [AStr cluster, AStr db, AStr addr, AStr flagPrefix, AStr flagPrefix, AStr flagPrefix])
     else None)"

definition requireOVSTLSForSSL :: "(string, string) gomap \<Rightarrow> TLSTrio \<Rightarrow> error option" where
  "requireOVSTLSForSSL addrs tls =
    (if hasTLS tls then None
     else case find (\<lambda>(uid, addr). usesSSL addr) addrs of
         None \<Rightarrow> None
       | Some (uid, addr) \<Rightarrow> Some (Errorf ''chassis %q uses ssl: address %q but no OVS TLS material configured (--ovs-tls-cert/--ovs-tls-key/--ovs-tls-ca)''
           [AStr uid, AStr addr]))"

definition loadOVSMgmtAddrs :: "io \<Rightarrow> string \<Rightarrow> (string, string) gomap result" where
  "loadOVSMgmtAddrs io path = (case io_readMap io path of
     Err err \<Rightarrow> Err err
   | Ok addrs \<Rightarrow>
       (if addrs = [] then Err (Errorf ''%s must map at least one system-id to an address'' [AStr path])
        else case find (\<lambda>(uid, addr). TrimSpace uid = [] \<or> TrimSpace addr = []) addrs of
            Some (uid, addr) \<Rightarrow> Err (if TrimSpace uid = [] then Errorf ''%s: empty system-id key'' [AStr path]
              else Errorf ''%s: empty address for system-id %q'' [AStr path, AStr uid])
          | None \<Rightarrow> Ok addrs))"

fun checkClusters :: "nat \<Rightarrow> ClusterConfig list \<Rightarrow> ClusterConfig list result" where
  "checkClusters i [] = Ok []"
| "checkClusters i (c # cs) =
    (if ccf_Name c = [] then Err (Errorf ''cluster[%d]: name is required'' [AInt (int i)])
     else if ccf_OVNNBAddr c = [] then Err (Errorf ''cluster[%d] %q: ovn_nb_addr is required'' [AInt (int i), AStr (ccf_Name c)])
     else if ccf_OVNSBAddr c = [] then Err (Errorf ''cluster[%d] %q: ovn_sb_addr is required'' [AInt (int i), AStr (ccf_Name c)])
     else case checkClusters (Suc i) cs of
         Err err \<Rightarrow> Err err
       | Ok cs \<Rightarrow> Ok ((if ccf_Label c = [] then c\<lparr>ccf_Label := ccf_Name c\<rparr> else c) # cs))"

definition loadConfigFile :: "io \<Rightarrow> string \<Rightarrow> ClusterConfig list result" where
  "loadConfigFile io path = (case io_readClusters io path of
     Err err \<Rightarrow> Err err
   | Ok cs \<Rightarrow> if cs = [] then Err (Errorf ''config file must define at least one cluster'' []) else checkClusters 0 cs)"

definition validateLogLevel :: "string \<Rightarrow> error option" where
  "validateLogLevel level = (if level \<in> {''debug'', ''info'', ''warn'', ''error''} then None
     else Some (Errorf ''invalid log-level %q: want debug, info, warn or error'' [AStr level]))"

definition validateLogFormat :: "string \<Rightarrow> error option" where
  "validateLogFormat format = (if format \<in> {''text'', ''json''} then None
     else Some (Errorf ''invalid log-format %q: want text or json'' [AStr format]))"

section \<open>Parse\<close>

definition bindErr :: "'a result \<Rightarrow> ('a \<Rightarrow> 'b result) \<Rightarrow> 'b result" where
  "bindErr r f = (case r of Err err \<Rightarrow> Err err | Ok x \<Rightarrow> f x)"

definition guardErr :: "error option \<Rightarrow> 'a result \<Rightarrow> 'a result" where
  "guardErr e r = (case e of Some err \<Rightarrow> Err err | None \<Rightarrow> r)"

definition wrapErr :: "string \<Rightarrow> 'a result \<Rightarrow> 'a result" where
  "wrapErr msg r = (case r of Err err \<Rightarrow> Err (Wrapf msg [] err) | Ok x \<Rightarrow> Ok x)"

definition flatCluster :: "flags \<Rightarrow> ClusterConfig" where
  "flatCluster fg =
    \<lparr>ccf_Name = ''default'', ccf_Label = ''Default'', ccf_OVNNBAddr = fg_OVNNBAddr fg, ccf_OVNSBAddr = fg_OVNSBAddr fg,
     ccf_Enrichment = (if en_OpenStackAuthURL (fg_OpenStack fg) \<noteq> []
        then Some ((fg_OpenStack fg)\<lparr>en_Type := ''openstack'', en_Kubeconfig := [], en_KubeContext := []\<rparr>)
        else if fg_KubeEnrichment fg
        then Some \<lparr>en_Type = ''kubernetes'', en_OpenStackAuthURL = [], en_OpenStackUsername = [], en_OpenStackPassword = [],
               en_OpenStackProjectName = [], en_OpenStackDomainName = [], en_OpenStackRegionName = [], en_OpenStackCACert = [],
               en_Kubeconfig = en_Kubeconfig (fg_OpenStack fg), en_KubeContext = en_KubeContext (fg_OpenStack fg)\<rparr>
        else None)\<rparr>"

definition chooseClusters :: "io \<Rightarrow> flags \<Rightarrow> ClusterConfig list result" where
  "chooseClusters io fg =
    (if fg_SnapshotFile fg \<noteq> [] then Ok []
     else if fg_ConfigFile fg \<noteq> [] then wrapErr ''loading config file: %w'' (loadConfigFile io (fg_ConfigFile fg))
     else if fg_OVNNBAddr fg = [] then Err (Errorf ''--ovn-nb-addr is required (or set NORTHWATCH_OVN_NB_ADDR)'' [])
     else if fg_OVNSBAddr fg = [] then Err (Errorf ''--ovn-sb-addr is required (or set NORTHWATCH_OVN_SB_ADDR)'' [])
     else Ok [flatCluster fg])"

fun checkOVNTLS :: "flags \<Rightarrow> ClusterConfig list \<Rightarrow> error option" where
  "checkOVNTLS fg [] = None"
| "checkOVNTLS fg (cc # cs) =
    (case requireOVNTLSForSSL (ccf_Name cc) ''Northbound'' (ccf_OVNNBAddr cc) (fg_OVNNBTLS fg) ''nb'' of
       Some err \<Rightarrow> Some err
     | None \<Rightarrow> (case requireOVNTLSForSSL (ccf_Name cc) ''Southbound'' (ccf_OVNSBAddr cc) (fg_OVNSBTLS fg) ''sb'' of
           Some err \<Rightarrow> Some err
         | None \<Rightarrow> checkOVNTLS fg cs))"

definition chooseOVS :: "io \<Rightarrow> flags \<Rightarrow> (string, string) gomap result" where
  "chooseOVS io fg =
    (if fg_ovsMgmtAddrFile fg = [] then Ok []
     else bindErr (wrapErr ''loading OVS mgmt-addr file: %w'' (loadOVSMgmtAddrs io (fg_ovsMgmtAddrFile fg)))
       (\<lambda>addrs. guardErr (requireOVSTLSForSSL addrs (fg_OVSTLS fg)) (Ok addrs)))"

definition duration :: "io \<Rightarrow> string \<Rightarrow> string \<Rightarrow> int result" where
  "duration io msg s = wrapErr msg (io_ParseDuration io s)"

definition failIf :: "bool \<Rightarrow> string \<Rightarrow> error option" where
  "failIf b msg = (if b then Some (Errorf msg []) else None)"

definition ParseConfig :: "io \<Rightarrow> flags \<Rightarrow> error list \<Rightarrow> Config result" where
  "ParseConfig io fg envErrs =
    guardErr (if envErrs = [] then None else Some (Errorf ''%w'' (map AErr envErrs)))
    (guardErr (validateLogLevel (fg_LogLevel fg))
    (guardErr (validateLogFormat (fg_LogFormat fg))
    (bindErr (parseAPITokens io (fg_apiTokensStr fg) (fg_apiTokensFile fg)) (\<lambda>tokens.
    guardErr (failIf (tokens \<noteq> [] \<and> fg_InsecureNoAuth fg) ''--insecure-no-auth cannot be combined with configured API tokens'')
    (guardErr (failIf ((fg_TLSCert fg = []) \<noteq> (fg_TLSKey fg = [])) ''--tls-cert and --tls-key must be set together'')
    (guardErr (failIf (fg_SnapshotMaxCount fg < 0) ''snapshot-max-count must not be negative'')
    (bindErr (chooseClusters io fg) (\<lambda>clusters.
    guardErr (checkOVNTLS fg clusters)
    (bindErr (duration io ''invalid enrichment-cache-ttl: %w'' (fg_cacheTTLStr fg)) (\<lambda>ttl.
    bindErr (duration io ''invalid chassis-stale-threshold: %w'' (fg_chassisStaleStr fg)) (\<lambda>cst.
    guardErr (failIf (cst \<le> 0) ''chassis-stale-threshold must be positive'')
    (bindErr (duration io ''invalid snapshot-interval: %w'' (fg_snapshotIntervalStr fg)) (\<lambda>si.
    bindErr (duration io ''invalid event-retention: %w'' (fg_eventRetentionStr fg)) (\<lambda>er.
    bindErr (duration io ''invalid write-plan-ttl: %w'' (fg_writePlanTTLStr fg)) (\<lambda>wpt.
    bindErr (duration io ''invalid monitor-batch-delay: %w'' (fg_monitorBatchDelayStr fg)) (\<lambda>mbd.
    guardErr (failIf (mbd < 0) ''monitor-batch-delay must not be negative'')
    (bindErr (chooseOVS io fg) (\<lambda>ovs.
      Ok \<lparr>cfg_flags = fg, cfg_APITokens = tokens, cfg_Clusters = clusters, cfg_EnrichmentCacheTTL = ttl,
          cfg_ChassisStaleThreshold = cst, cfg_SnapshotInterval = si, cfg_EventRetention = er, cfg_WritePlanTTL = wpt,
          cfg_MonitorBatchDelay = mbd, cfg_MonitorSkipTables = SplitCSV (fg_monitorSkipTablesStr fg),
          cfg_OVSMgmtAddrs = ovs\<rparr>))))))))))))))))))"

definition Parse :: "('args \<Rightarrow> flags \<Rightarrow> flags result) \<Rightarrow> io \<Rightarrow> (string \<Rightarrow> string) \<Rightarrow> 'args \<Rightarrow> Config result" where
  "Parse parseFlags io getenv args =
    (let (defaults, envErrs) = envFlags getenv
     in case parseFlags args defaults of Err err \<Rightarrow> Err err | Ok fg \<Rightarrow> ParseConfig io fg envErrs)"

text \<open>\<^verbatim>\<open>checkAuthPosture\<close>, without its log messages, and whether the server is built with \<^verbatim>\<open>AuthMiddleware\<close>.\<close>

definition checkAuthPosture :: "Config \<Rightarrow> error option" where
  "checkAuthPosture cfg =
    (if fg_InsecureNoAuth (cfg_flags cfg) then None
     else if cfg_APITokens cfg = [] \<and> \<not> ListenIsLoopback (fg_Listen (cfg_flags cfg))
     then Some (Errorf ''refusing to bind non-loopback address %q without authentication: set --api-tokens/--api-tokens-file, or --insecure-no-auth if a proxy authenticates every mutating request''
       [AStr (fg_Listen (cfg_flags cfg))])
     else None)"

definition authWrapped :: "Config \<Rightarrow> bool" where
  "authWrapped cfg = (\<not> fg_InsecureNoAuth (cfg_flags cfg))"

section \<open>Tokens\<close>

text \<open>What every accepted token map satisfies: names are unique and not empty, tokens have 16 bytes or more.\<close>

definition tokens_ok :: "(string, string) gomap \<Rightarrow> bool" where
  "tokens_ok tokens \<longleftrightarrow> gomap_ok tokens \<and> (\<forall>(name, token) \<in> set tokens. name \<noteq> [] \<and> minAPITokenLength \<le> length token)"

definition names_ok :: "(string, string) gomap \<Rightarrow> bool" where
  "names_ok tokens \<longleftrightarrow> gomap_ok tokens \<and> map_of tokens [] = None"

lemma names_ok_update: "names_ok m \<Longrightarrow> name \<noteq> [] \<Longrightarrow> names_ok (AList.update name token m)"
  by (simp add: names_ok_def)

lemma mergePairs_ok: "mergePairs ps m = Ok tokens \<Longrightarrow> names_ok m \<Longrightarrow> names_ok tokens"
  by (induction ps m rule: mergePairs.induct) (auto simp: names_ok_update split: option.splits prod.splits if_splits)

lemma mergeFile_ok: "mergeFile ps m = Ok tokens \<Longrightarrow> [] \<notin> set (gokeys ps) \<Longrightarrow> names_ok m \<Longrightarrow> names_ok tokens"
  by (induction ps m rule: mergeFile.induct) (auto simp: names_ok_update split: if_splits)

lemma loadAPITokens_ok: "loadAPITokens io path = Ok tokens \<Longrightarrow> [] \<notin> set (gokeys tokens)"
  by (force simp: loadAPITokens_def find_None_iff split: sum.splits if_splits option.splits)

lemma parseAPITokens_ok:
  assumes "parseAPITokens io csv file = Ok tokens"
  shows "tokens_ok tokens"
proof -
  from assms obtain m where m: "mergePairs (SplitCSV csv) [] = Ok m"
    and t: "tokens = m \<or> (\<exists>fromFile. loadAPITokens io file = Ok fromFile \<and> mergeFile fromFile m = Ok tokens)"
    and len: "find (\<lambda>(name, token). length token < minAPITokenLength) tokens = None"
    by (auto simp: parseAPITokens_def split: sum.splits if_splits option.splits)
  have "names_ok m" by (rule mergePairs_ok [OF m]) (simp add: names_ok_def)
  with t have "names_ok tokens" using mergeFile_ok loadAPITokens_ok by blast
  then show ?thesis using len by (force simp: tokens_ok_def names_ok_def find_None_iff map_of_eq_None_iff)
qed

lemma bindErr_Ok: "bindErr r f = Ok y \<longleftrightarrow> (\<exists>x. r = Ok x \<and> f x = Ok y)"
  by (cases r) (auto simp: bindErr_def)

lemma guardErr_Ok: "guardErr e r = Ok y \<longleftrightarrow> e = None \<and> r = Ok y"
  by (cases e) (auto simp: guardErr_def)

lemma failIf_None: "failIf b msg = None \<longleftrightarrow> \<not> b"
  by (simp add: failIf_def)

lemmas parse_Ok = bindErr_Ok guardErr_Ok failIf_None

lemma ParseConfig_tokens:
  assumes "ParseConfig io fg envErrs = Ok cfg"
  shows "cfg_flags cfg = fg" "parseAPITokens io (fg_apiTokensStr fg) (fg_apiTokensFile fg) = Ok (cfg_APITokens cfg)"
    "\<not> (cfg_APITokens cfg \<noteq> [] \<and> fg_InsecureNoAuth fg)" "envErrs = []"
  using assms unfolding ParseConfig_def parse_Ok by (auto split: if_splits)

text \<open>
  C7. From the command line to the request: when the configuration is accepted and the startup check passes, then unless
  authentication was switched off explicitly the server carries the authentication middleware, a listen address that is
  not loopback has at least one token, every token has 16 bytes or more under a unique name, and a mutating request is
  served only under the name of a configured token with the digest of the one presented.
\<close>

theorem startup_auth_posture:
  assumes "Parse parseFlags io getenv args = Ok cfg" "checkAuthPosture cfg = None" "\<not> fg_InsecureNoAuth (cfg_flags cfg)"
  shows "authWrapped cfg \<and> tokens_ok (cfg_APITokens cfg)
    \<and> (\<not> ListenIsLoopback (fg_Listen (cfg_flags cfg)) \<longrightarrow> cfg_APITokens cfg \<noteq> [])
    \<and> (requiresAuth r \<and> fst (AuthMiddleware sha (cfg_APITokens cfg) now now' r t) = Served actor
       \<longrightarrow> (\<exists>name token. actor = Some name \<and> (name, token) \<in> set (cfg_APITokens cfg) \<and> 16 \<le> length token
            \<and> sha (bearerToken (rq_Authorization r)) = sha token))"
proof -
  obtain fg envErrs where "ParseConfig io fg envErrs = Ok cfg"
    using assms(1) by (auto simp: Parse_def split: prod.splits sum.splits)
  note p = ParseConfig_tokens [OF this]
  have ok: "tokens_ok (cfg_APITokens cfg)" by (rule parseAPITokens_ok [OF p(2)])
  have "\<exists>name token. actor = Some name \<and> (name, token) \<in> set (cfg_APITokens cfg) \<and> 16 \<le> length token
      \<and> sha (bearerToken (rq_Authorization r)) = sha token"
    if "requiresAuth r" "fst (AuthMiddleware sha (cfg_APITokens cfg) now now' r t) = Served actor"
  proof -
    from that obtain name where a: "actor = Some name"
        "lookupActor sha (tokenDigests sha (cfg_APITokens cfg)) (bearerToken (rq_Authorization r)) = Some name"
      by (cases "lookupActor sha (tokenDigests sha (cfg_APITokens cfg)) (bearerToken (rq_Authorization r))")
         (auto simp: AuthMiddleware_def Let_def dest: sym [of "Some _"] split: prod.splits if_splits)
    from lookupActor_sound [OF a(2)] obtain token where "(name, token) \<in> set (cfg_APITokens cfg)"
        "sha (bearerToken (rq_Authorization r)) = sha token" by blast
    with ok a(1) show ?thesis by (auto simp: tokens_ok_def minAPITokenLength_def)
  qed
  then show ?thesis
    using assms(2,3) ok p(1) by (auto simp: authWrapped_def checkAuthPosture_def split: if_splits)
qed

section \<open>Tokens from a file are not trimmed\<close>

lemma TrimSpace_idem: "TrimSpace (TrimSpace s) = TrimSpace s"
proof -
  let ?t = "dropWhile isSpaceByte s"
  let ?u = "rev (dropWhile isSpaceByte (rev ?t))"
  obtain v where v: "?t = ?u @ v"
    by (metis rev_append rev_rev_ident takeWhile_dropWhile_id)
  have "dropWhile isSpaceByte ?u = ?u"
  proof (cases "?u = []")
    case True
    show ?thesis unfolding True by simp
  next
    case False
    then have "hd ?u = hd ?t" by (subst v) simp
    moreover from False v have "\<not> isSpaceByte (hd ?t)" by (metis Nil_is_append_conv hd_dropWhile)
    ultimately show ?thesis using False by (metis dropWhile_eq_self_iff)
  qed
  then show ?thesis by (simp add: TrimSpace_def)
qed

text \<open>
  The middleware trims what the client presents, and the tokens of the flag are trimmed too, but those of the file are
  not: one that starts or ends with a space is accepted at startup and then never authenticates anybody.
\<close>

lemma untrimmed_token_useless:
  assumes "TrimSpace token \<noteq> token" and "\<And>s t. sha s = sha t \<Longrightarrow> s = t"
  shows "sha (bearerToken header) \<noteq> sha token"
proof
  assume "sha (bearerToken header) = sha token"
  then have "bearerToken header = token" by (rule assms(2))
  moreover have "TrimSpace (bearerToken header) = bearerToken header"
    by (simp add: bearerToken_def TrimSpace_idem split: option.split)
  ultimately show False using assms(1) by simp
qed

lemma untrimmed_token_accepted:
  assumes "io_readMap io path = Ok [(''ops'', '' 0123456789abcdef'')]" "path \<noteq> []"
  shows "parseAPITokens io [] path = Ok [(''ops'', '' 0123456789abcdef'')]"
proof -
  have "SplitCSV [] = []" "TrimSpace ''ops'' \<noteq> []" "TrimSpace '' 0123456789abcdef'' \<noteq> []" by code_simp+
  with assms show ?thesis by (simp add: parseAPITokens_def loadAPITokens_def minAPITokenLength_def)
qed

definition configExample :: flags where
  "configExample = \<lparr>fg_Listen = ''0.0.0.0:8080'', fg_OVNNBAddr = ''tcp:n'', fg_OVNSBAddr = ''tcp:s'', fg_apiTokensStr = ''ops=0123456789abcdef'',
     fg_apiTokensFile = [], fg_InsecureNoAuth = False, fg_TLSCert = [], fg_TLSKey = [], fg_OVNNBTLS = \<lparr>tt_Cert = [], tt_Key = [], tt_CA = []\<rparr>,
     fg_OVNSBTLS = \<lparr>tt_Cert = [], tt_Key = [], tt_CA = []\<rparr>, fg_ConfigFile = [], fg_SnapshotFile = [], fg_monitorBatchDelayStr = ''200ms'',
     fg_monitorSkipTablesStr = [], fg_OpenStack = \<lparr>en_Type = [], en_OpenStackAuthURL = [], en_OpenStackUsername = [], en_OpenStackPassword = [],
       en_OpenStackProjectName = [], en_OpenStackDomainName = [], en_OpenStackRegionName = [], en_OpenStackCACert = [], en_Kubeconfig = [], en_KubeContext = []\<rparr>,
     fg_KubeEnrichment = False, fg_cacheTTLStr = ''5m'', fg_chassisStaleStr = ''60s'', fg_ovsMgmtAddrFile = [], fg_OVSTLS = \<lparr>tt_Cert = [], tt_Key = [], tt_CA = []\<rparr>,
     fg_LogLevel = ''info'', fg_LogFormat = ''text'', fg_writePlanTTLStr = ''10m'', fg_snapshotIntervalStr = ''5m'', fg_eventRetentionStr = ''24h'',
     fg_SnapshotMaxCount = 500, fg_AlertWebhookURLs = [], fg_WSAllowedOrigins = [], fg_WriteEnabled = False, fg_WriteRateLimit = 30,
     fg_HistoryDBPath = ''northwatch-history.db'', fg_EventMaxCount = 0\<rparr>"

definition ioExample :: io where
  "ioExample = \<lparr>io_readMap = (\<lambda>_. Ok []), io_readClusters = (\<lambda>_. Ok []), io_ParseDuration = (\<lambda>s. Ok (int (length s)))\<rparr>"

lemma configExample_parses:
  obtains cfg where "ParseConfig ioExample configExample [] = Ok cfg" "cfg_APITokens cfg = [(''ops'', ''0123456789abcdef'')]"
proof -
  have t: "parseAPITokens ioExample (fg_apiTokensStr configExample) (fg_apiTokensFile configExample) = Ok [(''ops'', ''0123456789abcdef'')]"
    by code_simp
  have c: "checkOVNTLS configExample [flatCluster configExample] = None" by code_simp
  have "chooseClusters ioExample configExample = Ok [flatCluster configExample]"
    by (simp add: chooseClusters_def configExample_def)
  then show thesis
    using that c t
    by (simp add: ParseConfig_def guardErr_def bindErr_def failIf_def duration_def wrapErr_def chooseOVS_def validateLogLevel_def validateLogFormat_def)
       (simp add: configExample_def ioExample_def)
qed

lemma envFlags_empty: "snd (envFlags (\<lambda>_. [])) = []"
  by (simp add: envFlags_def envOrDefaultBool_def envOrDefaultInt_def)

lemma Parse_configExample: "Parse (\<lambda>fg _. Ok fg) ioExample (\<lambda>_. []) configExample = ParseConfig ioExample configExample []"
  by (simp add: Parse_def case_prod_beta envFlags_empty)

theorem startup_auth_posture_witness:
  "\<exists>cfg. Parse (\<lambda>fg _. Ok fg) ioExample (\<lambda>_. []) configExample = Ok cfg \<and> authWrapped cfg \<and> cfg_APITokens cfg \<noteq> []"
proof -
  obtain cfg where cfg: "ParseConfig ioExample configExample [] = Ok cfg" "cfg_APITokens cfg = [(''ops'', ''0123456789abcdef'')]"
    using configExample_parses .
  note flags = ParseConfig_tokens(1) [OF cfg(1)]
  have p: "Parse (\<lambda>fg _. Ok fg) ioExample (\<lambda>_. []) configExample = Ok cfg" by (simp add: Parse_configExample cfg(1))
  have "checkAuthPosture cfg = None" by (simp add: checkAuthPosture_def cfg(2))
  moreover have "\<not> fg_InsecureNoAuth (cfg_flags cfg)" by (simp add: flags configExample_def)
  ultimately have "authWrapped cfg" "\<not> ListenIsLoopback (fg_Listen (cfg_flags cfg)) \<longrightarrow> cfg_APITokens cfg \<noteq> []"
    using startup_auth_posture [OF p] by blast+
  then show ?thesis using p cfg(2) by auto
qed

section \<open>The environment\<close>

definition env_bool_ok :: "string \<Rightarrow> bool" where
  "env_bool_ok v \<longleftrightarrow> v = [] \<or> ToLower (TrimSpace v) \<in> {''yes'', ''no''} \<or> ParseBool (TrimSpace v) \<noteq> None"

definition env_int_ok :: "string \<Rightarrow> bool" where
  "env_int_ok v \<longleftrightarrow> v = [] \<or> Atoi (TrimSpace v) \<noteq> None"

lemma envOrDefault_errs:
  "snd (envOrDefaultBool getenv k b errs) = [] \<longleftrightarrow> errs = [] \<and> env_bool_ok (getenv k)"
  "snd (envOrDefaultInt getenv k n errs) = [] \<longleftrightarrow> errs = [] \<and> env_int_ok (getenv k)"
  by (auto simp: envOrDefaultBool_def envOrDefaultInt_def env_bool_ok_def env_int_ok_def Let_def split: option.splits)

lemma envFlags_errs:
  "snd (envFlags getenv) = [] \<longleftrightarrow>
     (\<forall>k \<in> {''NORTHWATCH_INSECURE_NO_AUTH'', ''NORTHWATCH_KUBE_ENRICHMENT'', ''NORTHWATCH_WRITE_ENABLED''}. env_bool_ok (getenv k))
   \<and> (\<forall>k \<in> {''NORTHWATCH_WRITE_RATE_LIMIT'', ''NORTHWATCH_EVENT_MAX_COUNT'', ''NORTHWATCH_SNAPSHOT_MAX_COUNT''}. env_int_ok (getenv k))"
proof -
  have "snd (envFlags getenv) =
     snd (envOrDefaultInt getenv ''NORTHWATCH_SNAPSHOT_MAX_COUNT'' 500
       (snd (envOrDefaultInt getenv ''NORTHWATCH_EVENT_MAX_COUNT'' 0
         (snd (envOrDefaultInt getenv ''NORTHWATCH_WRITE_RATE_LIMIT'' 30
           (snd (envOrDefaultBool getenv ''NORTHWATCH_WRITE_ENABLED'' False
             (snd (envOrDefaultBool getenv ''NORTHWATCH_KUBE_ENRICHMENT'' False
               (snd (envOrDefaultBool getenv ''NORTHWATCH_INSECURE_NO_AUTH'' False [])))))))))))"
    by (simp add: envFlags_def split: prod.split)
  then show ?thesis by (simp add: envOrDefault_errs conj_ac)
qed

text \<open>
  A malformed boolean or integer in the environment is never replaced by its default: startup fails, whatever the
  command line says about that flag. So does a log level, a log format or a pair of TLS files that makes no sense, and a
  staleness threshold that is not positive.
\<close>

theorem startup_rejects_malformed:
  assumes "Parse parseFlags io getenv args = Ok cfg"
  shows "(\<forall>k \<in> {''NORTHWATCH_INSECURE_NO_AUTH'', ''NORTHWATCH_KUBE_ENRICHMENT'', ''NORTHWATCH_WRITE_ENABLED''}. env_bool_ok (getenv k))
   \<and> (\<forall>k \<in> {''NORTHWATCH_WRITE_RATE_LIMIT'', ''NORTHWATCH_EVENT_MAX_COUNT'', ''NORTHWATCH_SNAPSHOT_MAX_COUNT''}. env_int_ok (getenv k))
   \<and> fg_LogLevel (cfg_flags cfg) \<in> {''debug'', ''info'', ''warn'', ''error''} \<and> fg_LogFormat (cfg_flags cfg) \<in> {''text'', ''json''}
   \<and> (fg_TLSCert (cfg_flags cfg) = [] \<longleftrightarrow> fg_TLSKey (cfg_flags cfg) = []) \<and> 0 < cfg_ChassisStaleThreshold cfg \<and> 0 \<le> cfg_MonitorBatchDelay cfg"
proof -
  obtain fg where p: "ParseConfig io fg (snd (envFlags getenv)) = Ok cfg"
    using assms by (auto simp: Parse_def split: prod.splits sum.splits)
  note tokens = ParseConfig_tokens [OF p]
  have log: "validateLogLevel level = None \<longleftrightarrow> level \<in> {''debug'', ''info'', ''warn'', ''error''}"
    "validateLogFormat format = None \<longleftrightarrow> format \<in> {''text'', ''json''}" for level format
    by (simp_all add: validateLogLevel_def validateLogFormat_def)
  have "fg_LogLevel fg \<in> {''debug'', ''info'', ''warn'', ''error''} \<and> fg_LogFormat fg \<in> {''text'', ''json''}
      \<and> (fg_TLSCert fg = [] \<longleftrightarrow> fg_TLSKey fg = []) \<and> 0 < cfg_ChassisStaleThreshold cfg \<and> 0 \<le> cfg_MonitorBatchDelay cfg"
    using p unfolding ParseConfig_def parse_Ok log by (elim exE conjE) (clarsimp simp: not_le)
  then show ?thesis using tokens(1,4) envFlags_errs [of getenv] by simp
qed

theorem startup_rejects_malformed_witness:
  "fg_LogLevel configExample \<in> {''debug'', ''info'', ''warn'', ''error''}"
proof -
  obtain cfg where cfg: "ParseConfig ioExample configExample [] = Ok cfg" using configExample_parses by blast
  then have "Parse (\<lambda>fg _. Ok fg) ioExample (\<lambda>_. []) configExample = Ok cfg" by (simp add: Parse_configExample)
  from startup_rejects_malformed [OF this] show ?thesis by (simp add: ParseConfig_tokens(1) [OF cfg])
qed

end
