(* ===== verification/Inventory_Builder.thy ===== *)
theory Inventory_Builder
  imports Inventory_Liveness NW_GoValues
begin

text \<open>
  \<^verbatim>\<open>internal/inventory/inventory.go\<close>: the list of chassis joined from five southbound tables, with its two caches.

  \<^item> What the listings return is a record \<open>inv_view\<close>; each may fail. \<open>vw t\<close> is what they return at time \<open>t\<close>.
  \<^item> A call reads the clock several times; its readings and the times of its listings are a record \<open>clock\<close>. Times are
    in nanoseconds, and liveness gets them in milliseconds.
\<close>

section \<open>Rows and results\<close>

record InvChassis = SBChassis +
  ic_Encaps :: "string list"
  ic_OtherConfig :: "(string, string) gomap"

record InvEncap =
  ie_UUID :: string
  ie_Type :: string
  ie_IP :: string

record InvPortBinding = PortBinding +
  ib_TunnelKey :: int

record EncapInfo =
  ei_Type :: string
  ei_IP :: string

record PortSummary =
  psm_Total :: nat
  psm_Up :: nat
  psm_ByType :: "(string, nat) gomap"

record BoundPort =
  bp_LogicalPort :: string
  bp_Type :: string
  bp_Up :: "bool option"
  bp_TunnelKey :: int

record InvChassisSummary =
  chs_Name :: string
  chs_Hostname :: string
  chs_Encaps :: "EncapInfo list"
  chs_BridgeMappings :: string
  chs_Liveness :: Liveness
  chs_Ports :: PortSummary

record ChassisDetail =
  cde_Summary :: InvChassisSummary
  cde_OtherConfig :: "(string, string) gomap"
  cde_BoundPorts :: "BoundPort list"

record caches =
  ca_sbNbCfg :: int
  ca_privates :: "(string, ChassisPrivate) gomap"
  ca_encaps :: "(string, InvEncap) gomap"
  ca_portsByChassis :: "(string, InvPortBinding list) gomap"

record inv_view =
  iv_chassis :: "InvChassis list result"
  iv_sbGlobals :: "int list result"
  iv_privates :: "ChassisPrivate list result"
  iv_encaps :: "InvEncap list result"
  iv_bindings :: "InvPortBinding list result"

record Builder =
  bl_StaleThreshold :: int
  bl_cachedAt :: int
  bl_cached :: "InvChassisSummary list option"
  bl_cachedCachesAt :: int
  bl_cachedCaches :: "caches option"

definition listCacheTTL :: int where
  "listCacheTTL = 2000000000"

section \<open>Joining\<close>

definition placePort :: "InvPortBinding \<Rightarrow> (string, InvPortBinding list) gomap \<Rightarrow> (string, InvPortBinding list) gomap" where
  "placePort pb m = (let c = DerefStr (pb_Chassis pb) in if c = [] then m
     else AList.update c ((case map_of m c of None \<Rightarrow> [] | Some pbs \<Rightarrow> pbs) @ [pb]) m)"

definition groupPorts :: "InvPortBinding list \<Rightarrow> (string, InvPortBinding list) gomap" where
  "groupPorts bindings = fold placePort bindings []"

definition loadCaches :: "inv_view \<Rightarrow> caches result" where
  "loadCaches v = (case iv_sbGlobals v of
     Err err \<Rightarrow> Err (Wrapf ''listing sb_global: %w'' [] err)
   | Ok globals \<Rightarrow> (case iv_privates v of
       Err err \<Rightarrow> Err (Wrapf ''listing chassis_private: %w'' [] err)
     | Ok privates \<Rightarrow> (case iv_encaps v of
         Err err \<Rightarrow> Err (Wrapf ''listing encaps: %w'' [] err)
       | Ok encaps \<Rightarrow> (case iv_bindings v of
           Err err \<Rightarrow> Err (Wrapf ''listing port bindings: %w'' [] err)
         | Ok bindings \<Rightarrow> Ok \<lparr>ca_sbNbCfg = (case globals of [] \<Rightarrow> 0 | g # _ \<Rightarrow> g), ca_privates = byUUID cp_Name privates,
             ca_encaps = byUUID ie_UUID encaps, ca_portsByChassis = groupPorts bindings\<rparr>))))"

definition countPort :: "InvPortBinding \<Rightarrow> PortSummary \<Rightarrow> PortSummary" where
  "countPort pb s = s\<lparr>psm_Total := Suc (psm_Total s), psm_Up := (if pb_Up pb = Some True then Suc (psm_Up s) else psm_Up s),
     psm_ByType := AList.update (pb_Type pb) (Suc (case map_of (psm_ByType s) (pb_Type pb) of None \<Rightarrow> 0 | Some n \<Rightarrow> n)) (psm_ByType s)\<rparr>"

definition summarizePorts :: "InvPortBinding list \<Rightarrow> PortSummary" where
  "summarizePorts pbs = fold countPort pbs \<lparr>psm_Total = 0, psm_Up = 0, psm_ByType = []\<rparr>"

definition boundPorts :: "InvPortBinding list \<Rightarrow> BoundPort list" where
  "boundPorts pbs = sort_slice (\<lambda>a b. bp_LogicalPort a < bp_LogicalPort b)
     (map (\<lambda>pb. \<lparr>bp_LogicalPort = pb_LogicalPort pb, bp_Type = pb_Type pb, bp_Up = pb_Up pb, bp_TunnelKey = ib_TunnelKey pb\<rparr>) pbs)"

definition portsOf :: "caches \<Rightarrow> string \<Rightarrow> InvPortBinding list" where
  "portsOf c u = (case map_of (ca_portsByChassis c) u of None \<Rightarrow> [] | Some pbs \<Rightarrow> pbs)"

definition computeLiveness :: "int \<Rightarrow> int \<Rightarrow> InvChassis \<Rightarrow> caches \<Rightarrow> Liveness" where
  "computeLiveness threshold now ch c =
    ComputeLiveness (map_of (ca_privates c) (sc_Name ch)) (ca_sbNbCfg c) (now div 1000000) threshold"

definition summarizeChassis :: "int \<Rightarrow> int \<Rightarrow> caches \<Rightarrow> InvChassis \<Rightarrow> InvChassisSummary" where
  "summarizeChassis threshold now c ch =
    \<lparr>chs_Name = sc_Name ch, chs_Hostname = sc_Hostname ch,
     chs_Encaps = sort_slice (\<lambda>a b. if ei_Type a \<noteq> ei_Type b then ei_Type a < ei_Type b else ei_IP a < ei_IP b)
       (concat (map (\<lambda>u. case map_of (ca_encaps c) u of None \<Rightarrow> [] | Some e \<Rightarrow> [\<lparr>ei_Type = ie_Type e, ei_IP = ie_IP e\<rparr>]) (ic_Encaps ch))),
     chs_BridgeMappings = (case map_of (ic_OtherConfig ch) ''ovn-bridge-mappings'' of None \<Rightarrow> [] | Some m \<Rightarrow> m),
     chs_Liveness = computeLiveness threshold now ch c,
     chs_Ports = summarizePorts (portsOf c (sc_UUID ch))\<rparr>"

definition summarizeAll :: "int \<Rightarrow> int \<Rightarrow> caches \<Rightarrow> InvChassis list \<Rightarrow> InvChassisSummary list" where
  "summarizeAll threshold now c chs = sort_slice (\<lambda>a b. chs_Name a < chs_Name b) (map (summarizeChassis threshold now c) chs)"

section \<open>The calls\<close>

text \<open>The clock readings of a call, in order, with the times at which the chassis and the other tables are listed.\<close>

record clock =
  ck_start :: int
  ck_chassis :: int
  ck_check :: int
  ck_load :: int
  ck_loaded :: int
  ck_live :: int
  ck_done :: int

definition loadCachesCached :: "clock \<Rightarrow> (int \<Rightarrow> inv_view) \<Rightarrow> Builder \<Rightarrow> caches result \<times> Builder" where
  "loadCachesCached ck vw b =
    (let fresh = (case loadCaches (vw (ck_load ck)) of
           Err err \<Rightarrow> (Err err, b)
         | Ok c \<Rightarrow> (Ok c, b\<lparr>bl_cachedCaches := Some c, bl_cachedCachesAt := ck_loaded ck\<rparr>))
     in case bl_cachedCaches b of
          None \<Rightarrow> fresh
        | Some c \<Rightarrow> if ck_check ck - bl_cachedCachesAt b < listCacheTTL then (Ok c, b) else fresh)"

definition freshList :: "clock \<Rightarrow> (int \<Rightarrow> inv_view) \<Rightarrow> Builder \<Rightarrow> InvChassisSummary list result \<times> Builder" where
  "freshList ck vw b = (case iv_chassis (vw (ck_chassis ck)) of
     Err err \<Rightarrow> (Err (Wrapf ''listing chassis: %w'' [] err), b)
   | Ok chs \<Rightarrow> (case loadCachesCached ck vw b of
       (Err err, b) \<Rightarrow> (Err err, b)
     | (Ok c, b) \<Rightarrow>
         (let ss = summarizeAll (bl_StaleThreshold b) (ck_live ck) c chs
          in (Ok ss, b\<lparr>bl_cached := Some ss, bl_cachedAt := ck_done ck\<rparr>))))"

definition inv_List :: "clock \<Rightarrow> (int \<Rightarrow> inv_view) \<Rightarrow> Builder \<Rightarrow> InvChassisSummary list result \<times> Builder" where
  "inv_List ck vw b = (case bl_cached b of
     None \<Rightarrow> freshList ck vw b
   | Some ss \<Rightarrow> if ck_start ck - bl_cachedAt b < listCacheTTL then (Ok ss, b) else freshList ck vw b)"

definition inv_Detail :: "clock \<Rightarrow> (int \<Rightarrow> inv_view) \<Rightarrow> string \<Rightarrow> Builder \<Rightarrow> ChassisDetail result \<times> Builder" where
  "inv_Detail ck vw name b = (case iv_chassis (vw (ck_chassis ck)) of
     Err err \<Rightarrow> (Err (Wrapf ''listing chassis %q: %w'' [AStr name] err), b)
   | Ok chs \<Rightarrow> (case filter (\<lambda>ch. sc_Name ch = name) chs of
       [] \<Rightarrow> (Err ErrNotFound, b)
     | ch # _ \<Rightarrow> (case loadCachesCached ck vw b of
         (Err err, b) \<Rightarrow> (Err err, b)
       | (Ok c, b) \<Rightarrow> (Ok \<lparr>cde_Summary = summarizeChassis (bl_StaleThreshold b) (ck_live ck) c ch,
             cde_OtherConfig = ic_OtherConfig ch, cde_BoundPorts = boundPorts (portsOf c (sc_UUID ch))\<rparr>, b))))"

definition newBuilder :: "int \<Rightarrow> Builder" where
  "newBuilder threshold = \<lparr>bl_StaleThreshold = threshold, bl_cachedAt = 0, bl_cached = None, bl_cachedCachesAt = 0, bl_cachedCaches = None\<rparr>"

section \<open>The ports of a chassis\<close>

definition placed :: "(string, InvPortBinding list) gomap \<Rightarrow> string \<Rightarrow> InvPortBinding list" where
  "placed m u = (case map_of m u of None \<Rightarrow> [] | Some pbs \<Rightarrow> pbs)"

lemma placePort_placed: "u \<noteq> [] \<Longrightarrow> placed (placePort pb m) u = placed m u @ (if pb_Chassis pb = Some u then [pb] else [])"
  by (auto simp: placePort_def placed_def DerefStr_def Let_def split: option.splits)

lemma groupPorts_spec: "u \<noteq> [] \<Longrightarrow> placed (groupPorts bs) u = filter (\<lambda>pb. pb_Chassis pb = Some u) bs"
proof -
  assume u: "u \<noteq> []"
  have "placed (fold placePort bs m) u = placed m u @ filter (\<lambda>pb. pb_Chassis pb = Some u) bs" for m
    by (induction bs arbitrary: m) (simp_all add: placePort_placed [OF u])
  from this [of "[]"] show ?thesis by (simp add: groupPorts_def placed_def)
qed

lemma summarizePorts_spec:
  "psm_Total (summarizePorts pbs) = length pbs" "psm_Up (summarizePorts pbs) = length (filter (\<lambda>pb. pb_Up pb = Some True) pbs)"
proof -
  have "psm_Total (fold countPort pbs s) = psm_Total s + length pbs"
    "psm_Up (fold countPort pbs s) = psm_Up s + length (filter (\<lambda>pb. pb_Up pb = Some True) pbs)" for s
    by (induction pbs arbitrary: s) (simp_all add: countPort_def)
  then show "psm_Total (summarizePorts pbs) = length pbs" "psm_Up (summarizePorts pbs) = length (filter (\<lambda>pb. pb_Up pb = Some True) pbs)"
    by (simp_all add: summarizePorts_def)
qed

lemma mset_map_sort_slice: "mset (map f (sort_slice lt xs)) = mset (map f xs)"
  by (simp only: mset_map mset_sort_slice)

lemma boundPorts_names:
  "mset (map bp_LogicalPort (boundPorts pbs)) = mset (map pb_LogicalPort pbs)" "sorted (map bp_LogicalPort (boundPorts pbs))"
  unfolding boundPorts_def mset_map_sort_slice by (simp_all add: comp_def sorted_map sorted_sort_slice_asc)

text \<open>
  A fresh list has every chassis, in the order of the names, and counts for each exactly the port bindings that name it,
  and those that are up; the ports of the detail view are those same bindings, by name.
\<close>

theorem inventory_ports_exact:
  assumes "loadCaches v = Ok c" "iv_bindings v = Ok bs" "sc_UUID ch \<noteq> []"
  shows "(let bound = filter (\<lambda>pb. pb_Chassis pb = Some (sc_UUID ch)) bs; s = summarizeChassis threshold now c ch
      in psm_Total (chs_Ports s) = length bound \<and> psm_Up (chs_Ports s) = length (filter (\<lambda>pb. pb_Up pb = Some True) bound)
       \<and> mset (map bp_LogicalPort (boundPorts (portsOf c (sc_UUID ch)))) = mset (map pb_LogicalPort bound)
       \<and> sorted (map bp_LogicalPort (boundPorts (portsOf c (sc_UUID ch)))))
    \<and> mset (summarizeAll threshold now c chs) = mset (map (summarizeChassis threshold now c) chs)
    \<and> sorted (map chs_Name (summarizeAll threshold now c chs))"
proof -
  have p: "portsOf c (sc_UUID ch) = filter (\<lambda>pb. pb_Chassis pb = Some (sc_UUID ch)) bs"
    using assms groupPorts_spec [of "sc_UUID ch" bs] by (auto simp: loadCaches_def portsOf_def placed_def split: sum.splits)
  have "mset (summarizeAll threshold now c chs) = mset (map (summarizeChassis threshold now c) chs)"
    "sorted (map chs_Name (summarizeAll threshold now c chs))"
    by (simp_all add: summarizeAll_def sorted_map sorted_sort_slice_asc)
  then show ?thesis
    using boundPorts_names [of "portsOf c (sc_UUID ch)"]
    by (simp add: p summarizeChassis_def summarizePorts_spec)
qed

definition portsExample :: inv_view where
  "portsExample = \<lparr>iv_chassis = Ok [], iv_sbGlobals = Ok [1], iv_privates = Ok [], iv_encaps = Ok [],
     iv_bindings = Ok [\<lparr>pb_LogicalPort = ''p2'', pb_Type = [], pb_Up = Some True, pb_Chassis = Some ''c1'', ib_TunnelKey = 1\<rparr>,
       \<lparr>pb_LogicalPort = ''p1'', pb_Type = [], pb_Up = None, pb_Chassis = Some ''c1'', ib_TunnelKey = 2\<rparr>,
       \<lparr>pb_LogicalPort = ''p3'', pb_Type = [], pb_Up = None, pb_Chassis = Some ''c2'', ib_TunnelKey = 3\<rparr>]\<rparr>"

definition chassisExample :: InvChassis where
  "chassisExample = \<lparr>sc_UUID = ''c1'', sc_Name = ''hv1'', sc_Hostname = ''h'', ic_Encaps = [], ic_OtherConfig = []\<rparr>"

theorem inventory_ports_exact_witness:
  "\<exists>c. loadCaches portsExample = Ok c \<and> psm_Total (chs_Ports (summarizeChassis 0 0 c chassisExample)) = 2
     \<and> psm_Up (chs_Ports (summarizeChassis 0 0 c chassisExample)) = 1"
proof -
  obtain c where c: "loadCaches portsExample = Ok c" by (simp add: loadCaches_def portsExample_def)
  obtain bs where bs: "iv_bindings portsExample = Ok bs" by (simp add: portsExample_def)
  have "sc_UUID chassisExample \<noteq> []" by (simp add: chassisExample_def)
  from inventory_ports_exact [OF c bs this, of 0 0 "[]"] c bs show ?thesis
    by (auto simp: chassisExample_def portsExample_def)
qed

section \<open>How old a list can be\<close>

text \<open>The readings of a call are in order, and it takes at most \<open>d\<close> from the first to the last.\<close>

definition clock_ok :: "int \<Rightarrow> clock \<Rightarrow> bool" where
  "clock_ok d ck \<longleftrightarrow> ck_start ck \<le> ck_chassis ck \<and> ck_chassis ck \<le> ck_check ck \<and> ck_check ck \<le> ck_load ck
     \<and> ck_load ck \<le> ck_loaded ck \<and> ck_loaded ck \<le> ck_live ck \<and> ck_live ck \<le> ck_done ck \<and> ck_done ck \<le> ck_start ck + d"

text \<open>The builder's states: calls follow each other under its lock, so one ends before the next begins.\<close>

inductive inv_reach :: "int \<Rightarrow> (int \<Rightarrow> inv_view) \<Rightarrow> int \<Rightarrow> Builder \<Rightarrow> int \<Rightarrow> bool" for d vw threshold where
  init: "inv_reach d vw threshold (newBuilder threshold) t"
| list_call: "inv_reach d vw threshold b t \<Longrightarrow> clock_ok d ck \<Longrightarrow> t \<le> ck_start ck \<Longrightarrow>
    inv_reach d vw threshold (snd (inv_List ck vw b)) (ck_done ck)"
| detail_call: "inv_reach d vw threshold b t \<Longrightarrow> clock_ok d ck \<Longrightarrow> t \<le> ck_start ck \<Longrightarrow>
    inv_reach d vw threshold (snd (inv_Detail ck vw name b)) (ck_done ck)"

text \<open>A list that joins the chassis listed at \<open>tch\<close> with the other tables as of \<open>tca\<close>, its liveness computed at \<open>tlv\<close>.\<close>

definition joined :: "(int \<Rightarrow> inv_view) \<Rightarrow> int \<Rightarrow> int \<Rightarrow> int \<Rightarrow> int \<Rightarrow> InvChassisSummary list \<Rightarrow> bool" where
  "joined vw threshold tch tca tlv ss \<longleftrightarrow> (\<exists>chs c. iv_chassis (vw tch) = Ok chs \<and> loadCaches (vw tca) = Ok c \<and> ss = summarizeAll threshold tlv c chs)"

definition inv_ok :: "int \<Rightarrow> (int \<Rightarrow> inv_view) \<Rightarrow> int \<Rightarrow> Builder \<Rightarrow> bool" where
  "inv_ok d vw threshold b \<longleftrightarrow> bl_StaleThreshold b = threshold
     \<and> (\<forall>c. bl_cachedCaches b = Some c \<longrightarrow> (\<exists>tca. loadCaches (vw tca) = Ok c \<and> bl_cachedCachesAt b - d \<le> tca \<and> tca \<le> bl_cachedCachesAt b))
     \<and> (\<forall>ss. bl_cached b = Some ss \<longrightarrow> (\<exists>tch tca tlv. joined vw threshold tch tca tlv ss
          \<and> bl_cachedAt b - d \<le> tch \<and> bl_cachedAt b - d \<le> tlv \<and> bl_cachedAt b - (listCacheTTL + 2 * d) \<le> tca))"

lemma loadCachesCached_ok:
  assumes "inv_ok d vw threshold b" "clock_ok d ck" "loadCachesCached ck vw b = (r, b')"
  shows "inv_ok d vw threshold b' \<and> bl_cached b' = bl_cached b \<and> bl_cachedAt b' = bl_cachedAt b
    \<and> (\<forall>c. r = Ok c \<longrightarrow> (\<exists>tca. loadCaches (vw tca) = Ok c \<and> ck_done ck - (listCacheTTL + 2 * d) \<le> tca))"
proof (cases "\<exists>c. bl_cachedCaches b = Some c \<and> ck_check ck - bl_cachedCachesAt b < listCacheTTL")
  case True
  then obtain c where c: "bl_cachedCaches b = Some c" "ck_check ck - bl_cachedCachesAt b < listCacheTTL" by blast
  with assms(1) obtain tca where tca: "loadCaches (vw tca) = Ok c" "bl_cachedCachesAt b - d \<le> tca" unfolding inv_ok_def by blast
  have "ck_done ck - (listCacheTTL + 2 * d) \<le> tca" using assms(2) c(2) tca(2) unfolding clock_ok_def by linarith
  moreover have "r = Ok c" "b' = b" using c assms(3) by (simp_all add: loadCachesCached_def)
  ultimately show ?thesis using assms(1) tca(1) by blast
next
  case False
  then have e: "loadCachesCached ck vw b = (case loadCaches (vw (ck_load ck)) of Err err \<Rightarrow> (Err err, b)
      | Ok c \<Rightarrow> (Ok c, b\<lparr>bl_cachedCaches := Some c, bl_cachedCachesAt := ck_loaded ck\<rparr>))"
    by (auto simp: loadCachesCached_def split: option.split)
  show ?thesis
  proof (cases "loadCaches (vw (ck_load ck))")
    case (Inl err)
    then have "r = Err err" "b' = b" using assms(3) by (simp_all add: e)
    then show ?thesis using assms(1) by simp
  next
    case (Inr c)
    have t: "ck_loaded ck - d \<le> ck_load ck" "ck_load ck \<le> ck_loaded ck" "ck_done ck - (listCacheTTL + 2 * d) \<le> ck_load ck"
      using assms(2) by (auto simp: clock_ok_def listCacheTTL_def)
    have b': "r = Ok c" "b' = b\<lparr>bl_cachedCaches := Some c, bl_cachedCachesAt := ck_loaded ck\<rparr>" using assms(3) by (simp_all add: e Inr)
    have "inv_ok d vw threshold b'" unfolding inv_ok_def b' using assms(1) Inr t(1,2) by (auto simp: inv_ok_def)
    then show ?thesis using Inr t(3) by (auto simp: b')
  qed
qed

lemma inv_List_ok:
  assumes "inv_ok d vw threshold b" "clock_ok d ck" "inv_List ck vw b = (r, b')"
  shows "inv_ok d vw threshold b'"
    and "r = Ok ss \<Longrightarrow> \<exists>tch tca tlv. joined vw threshold tch tca tlv ss \<and> ck_start ck - (listCacheTTL + d) \<le> tch
      \<and> ck_start ck - (listCacheTTL + d) \<le> tlv \<and> ck_start ck - (2 * listCacheTTL + 2 * d) \<le> tca"
proof -
  have "inv_ok d vw threshold b' \<and> (\<forall>ss. r = Ok ss \<longrightarrow> (\<exists>tch tca tlv. joined vw threshold tch tca tlv ss \<and> ck_start ck - (listCacheTTL + d) \<le> tch
      \<and> ck_start ck - (listCacheTTL + d) \<le> tlv \<and> ck_start ck - (2 * listCacheTTL + 2 * d) \<le> tca))"
  proof (cases "\<exists>ss. bl_cached b = Some ss \<and> ck_start ck - bl_cachedAt b < listCacheTTL")
    case True
    then obtain ss where ss: "bl_cached b = Some ss" "ck_start ck - bl_cachedAt b < listCacheTTL" by blast
    then have rb: "r = Ok ss" "b' = b" using assms(3) by (simp_all add: inv_List_def)
    from assms(1) ss(1) obtain tch tca tlv where "joined vw threshold tch tca tlv ss"
        "bl_cachedAt b - d \<le> tch" "bl_cachedAt b - d \<le> tlv" "bl_cachedAt b - (listCacheTTL + 2 * d) \<le> tca"
      unfolding inv_ok_def by blast
    moreover from this ss(2) have "ck_start ck - (listCacheTTL + d) \<le> tch" "ck_start ck - (listCacheTTL + d) \<le> tlv"
      "ck_start ck - (2 * listCacheTTL + 2 * d) \<le> tca" by linarith+
    ultimately show ?thesis using assms(1) rb by blast
  next
    case False
    then have e: "(r, b') = freshList ck vw b" using assms(3) by (auto simp: inv_List_def split: option.splits)
    show ?thesis
    proof (cases "iv_chassis (vw (ck_chassis ck))")
      case (Inl err)
      then show ?thesis using e assms(1) by (simp add: freshList_def)
    next
      case (Inr chs)
      obtain r1 b1 where l: "loadCachesCached ck vw b = (r1, b1)" by fastforce
      note lo = loadCachesCached_ok [OF assms(1,2) l]
      show ?thesis
      proof (cases r1)
        case (Inl err)
        then show ?thesis using e lo by (simp add: freshList_def Inr l)
      next
        case (Inr c)
        from lo this obtain tca where tca: "loadCaches (vw tca) = Ok c" "ck_done ck - (listCacheTTL + 2 * d) \<le> tca" by blast
        have th: "bl_StaleThreshold b1 = threshold" using lo by (simp add: inv_ok_def)
        let ?ss = "summarizeAll threshold (ck_live ck) c chs"
        have rb: "r = Ok ?ss" "b' = b1\<lparr>bl_cached := Some ?ss, bl_cachedAt := ck_done ck\<rparr>"
          using e by (simp_all add: freshList_def \<open>iv_chassis (vw (ck_chassis ck)) = Ok chs\<close> l Inr th)
        have j: "joined vw threshold (ck_chassis ck) tca (ck_live ck) ?ss"
          using tca(1) \<open>iv_chassis (vw (ck_chassis ck)) = Ok chs\<close> by (auto simp: joined_def)
        have t: "ck_done ck - d \<le> ck_chassis ck" "ck_done ck - d \<le> ck_live ck" "ck_start ck - (listCacheTTL + d) \<le> ck_chassis ck"
          "ck_start ck - (listCacheTTL + d) \<le> ck_live ck" "ck_start ck - (2 * listCacheTTL + 2 * d) \<le> tca"
          using assms(2) tca(2) by (auto simp: clock_ok_def listCacheTTL_def)
        have "inv_ok d vw threshold b'" using lo j t(1,2) tca(2) unfolding inv_ok_def rb by auto
        then show ?thesis using rb(1) j t(3-5) by blast
      qed
    qed
  qed
  then show "inv_ok d vw threshold b'" "r = Ok ss \<Longrightarrow> \<exists>tch tca tlv. joined vw threshold tch tca tlv ss \<and> ck_start ck - (listCacheTTL + d) \<le> tch
      \<and> ck_start ck - (listCacheTTL + d) \<le> tlv \<and> ck_start ck - (2 * listCacheTTL + 2 * d) \<le> tca" by blast+
qed

lemma inv_Detail_ok:
  assumes "inv_ok d vw threshold b" "clock_ok d ck"
  shows "inv_ok d vw threshold (snd (inv_Detail ck vw name b))"
proof -
  obtain r1 b1 where l: "loadCachesCached ck vw b = (r1, b1)" by fastforce
  have "snd (inv_Detail ck vw name b) = b \<or> snd (inv_Detail ck vw name b) = b1"
    by (auto simp: inv_Detail_def l split: sum.split list.split)
  then show ?thesis using loadCachesCached_ok [OF assms l] assms(1) by auto
qed

lemma inv_reach_ok: "inv_reach d vw threshold b t \<Longrightarrow> inv_ok d vw threshold b"
proof (induction rule: inv_reach.induct)
  case (list_call b t ck)
  then show ?case using inv_List_ok(1) [of d vw threshold b ck] by (metis prod.collapse)
qed (auto simp: inv_Detail_ok, simp add: inv_ok_def newBuilder_def)

text \<open>
  Whatever calls came before, if no call takes longer than \<open>d\<close>, a list that is returned joins the chassis as they were at
  most two seconds and \<open>d\<close> before the call with the other tables as they were at most four seconds and \<open>2 d\<close> before:
  the two caches, of two seconds each, add up.
\<close>

theorem inventory_age_bound:
  assumes "inv_reach d vw threshold b t" "clock_ok d ck" "t \<le> ck_start ck" "fst (inv_List ck vw b) = Ok ss"
  shows "\<exists>tch tca tlv. joined vw threshold tch tca tlv ss \<and> ck_start ck - (2000000000 + d) \<le> tch
    \<and> ck_start ck - (2000000000 + d) \<le> tlv \<and> ck_start ck - (4000000000 + 2 * d) \<le> tca"
  using inv_List_ok(2) [OF inv_reach_ok [OF assms(1)] assms(2) prod.collapse [symmetric] assms(4)]
  by (simp add: listCacheTTL_def)

definition viewExample :: "int \<Rightarrow> inv_view" where
  "viewExample t = \<lparr>iv_chassis = Ok [], iv_sbGlobals = Ok [t], iv_privates = Ok [], iv_encaps = Ok [], iv_bindings = Ok []\<rparr>"

theorem inventory_age_bound_witness:
  "\<exists>tch tca tlv. joined viewExample 0 tch tca tlv [] \<and> 5 - (4000000000 + 2 * 10) \<le> tca"
proof -
  let ?ck = "\<lparr>ck_start = 5, ck_chassis = 5, ck_check = 5, ck_load = 6, ck_loaded = 6, ck_live = 7, ck_done = 8\<rparr>"
  have "clock_ok 10 ?ck" by (simp add: clock_ok_def)
  moreover have "fst (inv_List ?ck viewExample (newBuilder 0)) = Ok []"
    by (simp add: inv_List_def newBuilder_def freshList_def loadCachesCached_def loadCaches_def viewExample_def summarizeAll_def)
  ultimately show ?thesis using inventory_age_bound [OF inv_reach.init, of 10 ?ck 0 viewExample 0 "[]"] by auto
qed

end
