(* ===== verification/Api_Write.thy ===== *)
theory Api_Write
  imports Write_Example Api_Auth Api_Paging
begin

text \<open>
  \<^verbatim>\<open>internal/api/handler/write.go\<close> and \<^verbatim>\<open>decode.go\<close>: the HTTP surface of the write engine, and its composition with
  the authentication middleware.

  \<^item> Reading and JSON-decoding the body of a request is a parameter: the record \<open>api_body\<close> has its result for each of the
    three kinds of body.
  \<^item> A response is a status and what is encoded into its body; the text of an error is left unrendered. The generic body
    of an internal error is \<open>WbInternal\<close>.
  \<^item> \<open>route\<close> is the part of the routing table \<^verbatim>\<open>RegisterWrite\<close> fills, for paths without dot segments. A pattern with method
    GET also serves HEAD.
\<close>

section \<open>Responses\<close>

record planView =
  pv_ID :: string
  pv_CreatedAt :: int
  pv_ExpiresAt :: int
  pv_Operations :: "WriteOperation list"
  pv_Diffs :: "PlanDiff list"
  pv_SnapshotID :: int
  pv_Status :: string
  pv_Impact :: "ImpactEntry list"
  pv_Warnings :: "string list"

datatype write_body =
    WbText string
  | WbError error
  | WbInternal
  | WbPlan Plan
  | WbPlanView planView
  | WbEntry AuditEntry
  | WbEntries "AuditEntry list"
  | WbSchema "TableSchema list"
  | WbNone

type_synonym response = "nat \<times> write_body"

definition writeEngineError :: "error \<Rightarrow> response" where
  "writeEngineError err =
    (if errors_Is err ErrRateLimited then (429, WbError err)
     else if errors_Is err ErrStaleState then (409, WbError err)
     else if IsInputError err then (400, WbError err)
     else (500, WbInternal))"

definition applyEngineError :: "AuditEntry option \<Rightarrow> error \<Rightarrow> response" where
  "applyEngineError entry err =
    (if errors_Is err ErrRateLimited then (429, WbError err)
     else if errors_Is err ErrStaleState then (409, WbError err)
     else if IsInputError err then (409, WbError err)
     else if entry = None then (400, WbError err)
     else (500, WbInternal))"

definition auditActor :: "string option \<Rightarrow> string" where
  "auditActor actor = (case actor of None \<Rightarrow> ''anonymous'' | Some a \<Rightarrow> if a \<noteq> [] then a else ''anonymous'')"

section \<open>Bodies\<close>

datatype 'a body_read = BodyOk 'a | BodyEOF | BodyTooLarge | BodyMalformed

definition decodeJSONBody :: "'a \<Rightarrow> bool \<Rightarrow> 'a body_read \<Rightarrow> response + 'a" where
  "decodeJSONBody zero allowEmpty b = (case b of
     BodyOk x \<Rightarrow> Inr x
   | BodyEOF \<Rightarrow> if allowEmpty then Inr zero else Inl (400, WbText ''invalid JSON body'')
   | BodyTooLarge \<Rightarrow> Inl (413, WbText ''request body too large'')
   | BodyMalformed \<Rightarrow> Inl (400, WbText ''invalid JSON body''))"

record api_body =
  ab_write :: "(WriteOperation list \<times> string) body_read"
  ab_apply :: "string body_read"
  ab_rollback :: "(int \<times> string) body_read"

definition withReason :: "string \<Rightarrow> WriteOperation \<Rightarrow> WriteOperation" where
  "withReason reason op = (if reason \<noteq> [] \<and> op_Reason op = [] then op\<lparr>op_Reason := reason\<rparr> else op)"

definition decodeWriteRequest :: "api_body \<Rightarrow> response + WriteOperation list" where
  "decodeWriteRequest b = (case decodeJSONBody ([], []) False (ab_write b) of
     Inl resp \<Rightarrow> Inl resp
   | Inr (ops, reason) \<Rightarrow>
       if ops = [] then Inl (400, WbText ''at least one operation is required'')
       else Inr (map (withReason reason) ops))"

section \<open>Handlers\<close>

definition handlePreview :: "'w env \<Rightarrow> api_body \<Rightarrow> 'w \<Rightarrow> ('w, 'op) Engine \<Rightarrow> response \<times> ('w, 'op) Engine" where
  "handlePreview env b w e = (case decodeWriteRequest b of
     Inl resp \<Rightarrow> (resp, e)
   | Inr ops \<Rightarrow> (case Preview env ops w e of
       (Err err, e) \<Rightarrow> (writeEngineError err, e)
     | (Ok plan, e) \<Rightarrow> ((200, WbPlan plan), e)))"

definition handleDryRun :: "'w env \<Rightarrow> api_body \<Rightarrow> 'w \<Rightarrow> ('w, 'op) Engine \<Rightarrow> response \<times> ('w, 'op) Engine" where
  "handleDryRun env b w e = (case decodeWriteRequest b of
     Inl resp \<Rightarrow> (resp, e)
   | Inr ops \<Rightarrow> (case DryRun env ops w e of
       (Err err, e) \<Rightarrow> (writeEngineError err, e)
     | (Ok plan, e) \<Rightarrow> ((200, WbPlan plan), e)))"

definition view_of_plan :: "Plan \<Rightarrow> planView" where
  "view_of_plan p = \<lparr>pv_ID = plan_ID p, pv_CreatedAt = plan_CreatedAt p, pv_ExpiresAt = plan_ExpiresAt p,
     pv_Operations = plan_Operations p, pv_Diffs = plan_Diffs p, pv_SnapshotID = plan_SnapshotID p,
     pv_Status = plan_Status p, pv_Impact = plan_Impact p, pv_Warnings = plan_Warnings p\<rparr>"

definition handleGetPlan :: "int \<Rightarrow> string \<Rightarrow> ('w, 'op) Engine \<Rightarrow> response \<times> ('w, 'op) Engine" where
  "handleGetPlan now pid e = (case eng_GetPlan now pid e of
     (None, e) \<Rightarrow> ((404, WbText ''plan not found or expired''), e)
   | (Some plan, e) \<Rightarrow> ((200, WbPlanView (view_of_plan plan)), e))"

definition handleApply ::
    "'w env \<Rightarrow> string \<Rightarrow> api_body \<Rightarrow> string option \<Rightarrow> 'w \<Rightarrow> ('w, 'op) Engine \<Rightarrow> response \<times> ('w, 'op) Engine \<times> 'w" where
  "handleApply env pid b actor w e = (case decodeJSONBody [] False (ab_apply b) of
     Inl resp \<Rightarrow> (resp, e, w)
   | Inr token \<Rightarrow>
       if token = [] then ((400, WbText ''apply_token is required''), e, w)
       else case Apply env pid token (auditActor actor) w e of
           ((entry, Some err), e, w) \<Rightarrow> (applyEngineError entry err, e, w)
         | ((entry, None), e, w) \<Rightarrow> ((200, case entry of None \<Rightarrow> WbNone | Some a \<Rightarrow> WbEntry a), e, w))"

definition handleCancelPlan :: "int \<Rightarrow> string \<Rightarrow> ('w, 'op) Engine \<Rightarrow> response \<times> ('w, 'op) Engine" where
  "handleCancelPlan now pid e = (case CancelPlan now pid e of
     (False, e) \<Rightarrow> ((404, WbText ''plan not found or expired''), e)
   | (True, e) \<Rightarrow> ((204, WbNone), e))"

definition handleRollback ::
    "'w env \<Rightarrow> 'w env \<Rightarrow> api_body \<Rightarrow> 'w \<Rightarrow> ('w, 'op) Engine \<Rightarrow> response \<times> ('w, 'op) Engine" where
  "handleRollback env env' b w e = (case decodeJSONBody (0, []) False (ab_rollback b) of
     Inl resp \<Rightarrow> (resp, e)
   | Inr (snapshotID, reason) \<Rightarrow>
       if snapshotID = 0 then ((400, WbText ''snapshot_id is required''), e)
       else case Rollback env env' snapshotID w e of
           (Err err, e) \<Rightarrow> (writeEngineError err, e)
         | (Ok plan, e) \<Rightarrow> ((200, WbPlan plan), e))"

definition maxAuditLimit :: int where
  "maxAuditLimit = 1000"

definition handleAuditLog :: "fault \<Rightarrow> string \<Rightarrow> ('w, 'op) Engine \<Rightarrow> response" where
  "handleAuditLog fault raw e = (case pageParam raw ''limit'' 100 1 maxAuditLimit of
     Err err \<Rightarrow> (400, WbError err)
   | Ok limit \<Rightarrow> (case QueryAudit fault limit e of
       Err err \<Rightarrow> (500, WbInternal)
     | Ok entries \<Rightarrow> (200, WbEntries entries)))"

definition handleGetAuditEntry :: "fault \<Rightarrow> string \<Rightarrow> ('w, 'op) Engine \<Rightarrow> response" where
  "handleGetAuditEntry fault raw e = (case Atoi raw of
     None \<Rightarrow> (400, WbText ''invalid audit entry id'')
   | Some eid \<Rightarrow> (case GetAuditEntry fault eid e of
       Err err \<Rightarrow> (404, WbError err)
     | Ok entry \<Rightarrow> (200, WbEntry entry)))"

definition handleSchema :: "('w, 'op) Engine \<Rightarrow> response" where
  "handleSchema e = (200, WbSchema (eng_Schema e))"

section \<open>Routing\<close>

datatype write_endpoint =
    EpSchema | EpPreview | EpDryRun | EpGetPlan string | EpApply string | EpCancelPlan string | EpRollback | EpAudit | EpAuditEntry string

definition write_prefix :: "string list" where
  "write_prefix = [[], ''api'', ''v1'', ''write'']"

definition route_rest :: "string \<Rightarrow> string list \<Rightarrow> write_endpoint option" where
  "route_rest meth rest =
    (let read = (meth \<in> {''GET'', ''HEAD''}); post = (meth = ''POST'')
     in if rest = [''schema''] then (if read then Some EpSchema else None)
        else if rest = [''preview''] then (if post then Some EpPreview else None)
        else if rest = [''dry-run''] then (if post then Some EpDryRun else None)
        else if rest = [''rollback''] then (if post then Some EpRollback else None)
        else if rest = [''audit''] then (if read then Some EpAudit else None)
        else case rest of
            [a, b] \<Rightarrow>
              if b = [] then None
              else if a = ''plans'' then (if read then Some (EpGetPlan b) else if meth = ''DELETE'' then Some (EpCancelPlan b) else None)
              else if a = ''audit'' then (if read then Some (EpAuditEntry b) else None)
              else None
          | [a, b, c] \<Rightarrow> if a = ''plans'' \<and> b \<noteq> [] \<and> c = ''apply'' \<and> post then Some (EpApply b) else None
          | _ \<Rightarrow> None)"

definition route :: "string \<Rightarrow> string \<Rightarrow> write_endpoint option" where
  "route meth path =
    (let segs = splitByte (CHR ''/'') path
     in if take 4 segs = write_prefix then route_rest meth (drop 4 segs) else None)"

text \<open>A path that is only served with other methods is 405, any other 404.\<close>

definition unrouted :: "string \<Rightarrow> nat" where
  "unrouted path = (if list_ex (\<lambda>meth. route meth path \<noteq> None) [''GET'', ''POST'', ''DELETE''] then 405 else 404)"

text \<open>What a request brings along besides what the middleware reads: its body, the raw \<^verbatim>\<open>limit\<close> parameter, and the
  environments of the engine calls it makes.\<close>

record 'w call =
  wc_body :: api_body
  wc_limit :: string
  wc_env :: "'w env"
  wc_env' :: "'w env"
  wc_fault :: fault

fun serve_write ::
    "'w call \<Rightarrow> string option \<Rightarrow> write_endpoint \<Rightarrow> 'w \<Rightarrow> ('w, 'op) Engine \<Rightarrow> response \<times> ('w, 'op) Engine \<times> 'w" where
  "serve_write c actor EpSchema w e = (handleSchema e, e, w)"
| "serve_write c actor EpPreview w e = (let (r, e) = handlePreview (wc_env c) (wc_body c) w e in (r, e, w))"
| "serve_write c actor EpDryRun w e = (let (r, e) = handleDryRun (wc_env c) (wc_body c) w e in (r, e, w))"
| "serve_write c actor (EpGetPlan pid) w e = (let (r, e) = handleGetPlan (ev_now (wc_env c)) pid e in (r, e, w))"
| "serve_write c actor (EpApply pid) w e = handleApply (wc_env c) pid (wc_body c) actor w e"
| "serve_write c actor (EpCancelPlan pid) w e = (let (r, e) = handleCancelPlan (ev_now (wc_env c)) pid e in (r, e, w))"
| "serve_write c actor EpRollback w e = (let (r, e) = handleRollback (wc_env c) (wc_env' c) (wc_body c) w e in (r, e, w))"
| "serve_write c actor EpAudit w e = (handleAuditLog (wc_fault c) (wc_limit c) e, e, w)"
| "serve_write c actor (EpAuditEntry eid) w e = (handleGetAuditEntry (wc_fault c) eid e, e, w)"

text \<open>A request through the middleware to its handler.\<close>

definition writeAPI ::
    "(string \<Rightarrow> 'd) \<Rightarrow> (string, string) gomap \<Rightarrow> int \<Rightarrow> int \<Rightarrow> Request \<Rightarrow> 'w call \<Rightarrow> authThrottle \<Rightarrow> 'w \<Rightarrow> ('w, 'op) Engine \<Rightarrow>
      response \<times> authThrottle \<times> ('w, 'op) Engine \<times> 'w" where
  "writeAPI sha tokens now now' r c t w e =
    (let (outcome, t) = AuthMiddleware sha tokens now now' r t
     in case outcome of
          Unauthorized \<Rightarrow> ((401, WbText ''authentication required''), t, e, w)
        | Throttled secs \<Rightarrow> ((429, WbText ''too many authentication failures''), t, e, w)
        | Served actor \<Rightarrow> (case route (rq_Method r) (rq_Path r) of
              None \<Rightarrow> ((unrouted (rq_Path r), WbNone), t, e, w)
            | Some ep \<Rightarrow> (let (resp, e, w) = serve_write c actor ep w e in (resp, t, e, w))))"

section \<open>What a handler touches\<close>

lemma Apply_audit:
  assumes "Apply env pid token actor w e = (r, e', w')"
  shows "e_auditStore e' = e_auditStore e
    \<or> (\<exists>entry. ae_Actor entry = actor \<and> e_auditStore e' = snd (as_Insert (ev_audit env) entry (e_auditStore e)))"
proof -
  obtain ok e0 where a: "admit (ev_limit env) e = (ok, e0)" by force
  have keep: "e_auditStore e0 = e_auditStore e" using admit_keeps [of "ev_limit env" e] a by simp
  show ?thesis
  proof (cases "ok \<and> fst (pc_Get (ev_now env) pid (e_plans e)) \<noteq> None")
    case False
    moreover have "fst (pc_Get (ev_now env) pid (e_plans e)) = None \<Longrightarrow> \<exists>p. pc_Get (ev_now env) pid (e_plans e) = (None, p)"
      by (metis prod.collapse)
    ultimately show ?thesis
      using a keep assms Apply_rate_limited [of env e e0 pid token actor w] Apply_not_found [of env e e0 pid _ token actor w]
      by (cases ok) auto
  next
    case True
    then obtain plan where f: "fst (admit (ev_limit env) e)" "fst (pc_Get (ev_now env) pid (e_plans e)) = Some plan"
      using a by auto
    have rec: "\<exists>entry. ae_Actor entry = actor \<and> e_auditStore e2 = snd (as_Insert (ev_audit env) entry (e_auditStore e1))"
      if "recordAudit env p actor sid res err e1 = (x, e2)" for p sid res err e1 x e2
      using that by (intro exI [of _ x]) (auto simp: recordAudit_def)
    have fail: "\<exists>entry. ae_Actor entry = actor \<and> e_auditStore e2 = snd (as_Insert (ev_audit env) entry (e_auditStore e1))"
      if "failPlan env p actor sid err e1 = (x, e2)" for p sid err e1 x e2
      using that rec by (auto simp: failPlan_def split: prod.splits)
    have snap: "e_auditStore e2 = e_auditStore e" if "engineSnapshot env trig w2 (consumed env pid e) = (x, e2)" for trig w2 x e2
      using engineSnapshot_keeps [OF that] by auto
    show ?thesis
      using assms unfolding Apply_found [OF f]
      by (auto split: if_splits option.splits prod.splits sum.splits dest!: rec fail snap)
  qed
qed

lemma as_Insert_rows:
  "\<exists>new. as_rows (snd (as_Insert fault entry s)) = as_rows s @ new \<and> (\<forall>row \<in> set new. ae_Actor (fst row) = ae_Actor entry)"
  by (auto simp: as_Insert_def split: option.split)

lemma admit_audit: "admit t e = (ok, e') \<Longrightarrow> e_auditStore e' = e_auditStore e"
  using admit_keeps(3) [of t e] by simp

lemma snapshot_audit: "engineSnapshot env trig w e = (r, e') \<Longrightarrow> e_auditStore e' = e_auditStore e"
  using engineSnapshot_keeps by fastforce

lemma Preview_keeps: "Preview env ops w e = (r, e') \<Longrightarrow> e_auditStore e' = e_auditStore e"
  by (auto simp: Preview_def split: prod.splits option.splits sum.splits if_splits dest!: admit_audit snapshot_audit)

lemma DryRun_keeps: "DryRun env ops w e = (r, e') \<Longrightarrow> e_auditStore e' = e_auditStore e"
  by (auto simp: DryRun_def split: prod.splits option.splits sum.splits if_splits dest!: admit_audit)

lemma Rollback_keeps: "Rollback env env' sid w e = (r, e') \<Longrightarrow> e_auditStore e' = e_auditStore e"
  by (auto simp: Rollback_def split: prod.splits option.splits sum.splits if_splits dest!: admit_audit Preview_keeps)

section \<open>Every state change is authenticated and attributed\<close>

fun ep_reads :: "write_endpoint \<Rightarrow> bool" where
  "ep_reads EpSchema = True"
| "ep_reads (EpGetPlan pid) = True"
| "ep_reads EpAudit = True"
| "ep_reads (EpAuditEntry eid) = True"
| "ep_reads ep = False"

lemma splitByte_Cons2: "splitByte sep s = p # q # ps \<Longrightarrow> \<exists>t. s = p @ sep # t \<and> splitByte sep t = q # ps"
proof (induction s arbitrary: p)
  case (Cons ch s)
  show ?case
  proof (cases "ch = sep")
    case True
    with Cons.prems show ?thesis by auto
  next
    case False
    obtain p' ps' where s: "splitByte sep s = p' # ps'" using Cons.prems False by (auto split: list.splits)
    with False Cons.prems have "p = ch # p'" "ps' = q # ps" by auto
    with Cons.IH [of p'] s show ?thesis by auto
  qed
qed simp

lemma route_api: "route meth path = Some ep \<Longrightarrow> HasPrefix path ''/api/''"
proof -
  assume "route meth path = Some ep"
  then have "take 4 (splitByte (CHR ''/'') path) = write_prefix" by (auto simp: route_def split: if_splits)
  then obtain rest where "splitByte (CHR ''/'') path = [] # ''api'' # ''v1'' # ''write'' # rest"
    by (metis append_Cons append_Nil append_take_drop_id write_prefix_def)
  from splitByte_Cons2 [OF this] obtain t where t: "path = CHR ''/'' # t" "splitByte (CHR ''/'') t = ''api'' # ''v1'' # ''write'' # rest"
    by auto
  from splitByte_Cons2 [OF t(2)] obtain u where "t = ''api'' @ CHR ''/'' # u" by auto
  with t(1) show ?thesis by (simp add: HasPrefix_def)
qed

lemma route_mutates: "route meth path = Some ep \<Longrightarrow> \<not> ep_reads ep \<Longrightarrow> meth \<in> {''POST'', ''DELETE''}"
proof -
  assume "route meth path = Some ep" and e: "\<not> ep_reads ep"
  then obtain rest where r: "route_rest meth rest = Some ep" by (auto simp: route_def split: if_splits)
  have "route_rest meth rest = None \<or> (\<exists>ep. route_rest meth rest = Some ep \<and> ep_reads ep)" if "meth \<noteq> ''POST''" "meth \<noteq> ''DELETE''"
    using that by (simp add: route_rest_def split: list.split)
  with r e show ?thesis by auto
qed

lemma serve_reads:
  assumes "serve_write c actor ep w e = (resp, e', w')" "ep_reads ep"
  shows "w' = w \<and> e_auditStore e' = e_auditStore e \<and> e_history e' = e_history e"
  using assms by (cases ep) (auto simp: handleGetPlan_def eng_GetPlan_def split: prod.splits option.splits)

lemma serve_audit:
  assumes "serve_write c actor ep w e = (resp, e', w')"
  shows "\<exists>new. as_rows (e_auditStore e') = as_rows (e_auditStore e) @ new \<and> (\<forall>row \<in> set new. ae_Actor (fst row) = auditActor actor)"
proof (cases "\<exists>pid. ep = EpApply pid")
  case True
  then obtain pid where ep: "ep = EpApply pid" by blast
  consider "e' = e" | token res where "Apply (wc_env c) pid token (auditActor actor) w e = (res, e', w')"
    using assms by (auto simp: ep handleApply_def split: sum.splits if_splits prod.splits option.splits)
  then show ?thesis
  proof cases
    case 2
    from Apply_audit [OF this] show ?thesis
    proof (elim disjE exE conjE)
      fix entry assume "ae_Actor entry = auditActor actor" "e_auditStore e' = snd (as_Insert (ev_audit (wc_env c)) entry (e_auditStore e))"
      then show ?thesis using as_Insert_rows [of "ev_audit (wc_env c)" entry "e_auditStore e"] by metis
    qed simp
  qed simp
next
  case False
  then have "e_auditStore e' = e_auditStore e"
    using assms
    by (cases ep) (auto simp: handlePreview_def handleDryRun_def handleGetPlan_def handleCancelPlan_def handleRollback_def
        eng_GetPlan_def CancelPlan_def split: sum.splits if_splits prod.splits option.splits
        dest!: Preview_keeps DryRun_keeps Rollback_keeps)
  then show ?thesis by simp
qed


definition apply_request :: Request where
  "apply_request = \<lparr>rq_Method = ''POST'', rq_Path = ''/api/v1/write/plans/p1/apply'', rq_RemoteAddr = ''10.0.0.1:4711'',
     rq_Authorization = ''Bearer s3cret''\<rparr>"

definition apply_call :: "toy_world call" where
  "apply_call = \<lparr>wc_body = \<lparr>ab_write = BodyEOF, ab_apply = BodyOk ''p11'', ab_rollback = BodyEOF\<rparr>, wc_limit = [],
     wc_env = toy_env, wc_env' = toy_env, wc_fault = None\<rparr>"

lemma apply_request_served:
  "AuthMiddleware (\<lambda>s. s) [(''ops'', ''s3cret'')] 0 0 apply_request [] = (Served (Some ''ops''), [])"
  "route (rq_Method apply_request) (rq_Path apply_request) = Some (EpApply ''p1'')"
  by code_simp+


section \<open>What a status says\<close>

lemma Apply_no_entry:
  assumes "Apply env pid token actor w e = ((None, err), e', w')"
  shows "err \<noteq> None \<and> w' = w \<and> e_auditStore e' = e_auditStore e"
proof -
  obtain ok e0 where a: "admit (ev_limit env) e = (ok, e0)" by force
  note keep = admit_audit [OF a]
  show ?thesis
  proof (cases "ok \<and> fst (pc_Get (ev_now env) pid (e_plans e)) \<noteq> None")
    case False
    moreover have "fst (pc_Get (ev_now env) pid (e_plans e)) = None \<Longrightarrow> \<exists>p. pc_Get (ev_now env) pid (e_plans e) = (None, p)"
      by (metis prod.collapse)
    ultimately show ?thesis
      using a keep assms Apply_rate_limited [of env e e0 pid token actor w] Apply_not_found [of env e e0 pid _ token actor w]
      by (cases ok) auto
  next
    case True
    then obtain plan where f: "fst (admit (ev_limit env) e)" "fst (pc_Get (ev_now env) pid (e_plans e)) = Some plan"
      using a by auto
    show ?thesis
      using assms unfolding Apply_found [OF f]
      by (auto simp: failPlan_def split: if_splits option.splits prod.splits sum.splits dest!: snapshot_audit)
  qed
qed

text \<open>
  An apply answered with 200 was recorded as a success, and one answered with 400 or 413 has changed neither the databases
  nor the audit log.
\<close>

lemma apply_status:
  assumes "handleApply env pid b actor w e = ((st, body), e', w')"
  shows "(st = 200 \<longrightarrow> (\<exists>entry. body = WbEntry entry \<and> ae_Result entry = ''success'' \<and> ae_Actor entry = auditActor actor))
    \<and> (st \<in> {400, 413} \<longrightarrow> w' = w \<and> e_auditStore e' = e_auditStore e)"
proof (cases "\<exists>token. ab_apply b = BodyOk token \<and> token \<noteq> []")
  case True
  then obtain token where b: "ab_apply b = BodyOk token" "token \<noteq> []" by blast
  obtain entry err e1 w1 where a: "Apply env pid token (auditActor actor) w e = ((entry, err), e1, w1)"
    by (metis prod.collapse)
  show ?thesis
  proof (cases err)
    case None
    from Apply_success [OF a [unfolded None]] obtain ent where "entry = Some ent" "ae_Result ent = ''success''" "ae_Actor ent = auditActor actor"
      by (metis (no_types, lifting) AuditEntry.select_convs(4,8) prod.inject recordAudit_def)
    with assms a None b show ?thesis by (auto simp: handleApply_def decodeJSONBody_def)
  next
    case (Some x)
    with assms a b have st: "(st, body) = applyEngineError entry x" "e' = e1" "w' = w1"
      by (simp_all add: handleApply_def decodeJSONBody_def)
    then have "entry = None" if "st = 400" using that by (simp add: applyEngineError_def split: if_splits)
    moreover have "st \<noteq> 200" "st \<noteq> 413" using st(1) by (auto simp: applyEngineError_def split: if_splits)
    ultimately show ?thesis using a st(2,3) Apply_no_entry [of env pid token "auditActor actor" w e err e1 w1] by auto
  qed
next
  case False
  then have "e' = e" "w' = w" "st \<noteq> 200"
    using assms by (cases "ab_apply b"; simp add: handleApply_def decodeJSONBody_def)+
  then show ?thesis by simp
qed

text \<open>
  When the snapshot before an apply cannot be taken, no audit entry is made, and the handler takes that for a mistake of the
  client: the failure of the history store is answered with 400 and its text, not with a plain 500.
\<close>

lemma apply_snapshot_failure_is_400:
  assumes "fst (admit (ev_limit env) e)" "fst (pc_Get (ev_now env) pid (e_plans e)) = Some plan"
    and "ab_apply b = BodyOk token" "token \<noteq> []" "token = generateToken e (plan_ID plan) (plan_SnapshotID plan)"
    and "engineValidateOps e w (plan_Operations plan) = None"
    and "engineSnapshot env ''write-apply'' w (consumed env pid e) = (Err (ErrOther msg), e')"
  shows "handleApply env pid b actor w e = ((400, WbError (Wrapf ''taking pre-apply snapshot: %w'' [] (ErrOther msg))), e', w)"
  using assms by (simp add: handleApply_def decodeJSONBody_def Apply_found [OF assms(1,2)] applyEngineError_def)

text \<open>A rollback to a snapshot that does not exist, on the other hand, is answered as an internal error.\<close>

lemma rollback_missing_snapshot_is_500:
  assumes "fst (admit (ev_limit env) e)" "e_collector e = Some src" "ab_rollback b = BodyOk (sid, reason)" "sid \<noteq> 0"
    and "GetSnapshotRows (e_codec e) (ev_rows env) sid ''nb'' [] (e_history e) = Ok []"
  shows "fst (handleRollback env env' b w e) = (500, WbInternal)"
proof -
  obtain e0 where a: "admit (ev_limit env) e = (True, e0)" using assms(1) by (metis prod.collapse)
  have k: "e_collector e0 = Some src" "e_codec e0 = e_codec e" "e_history e0 = e_history e"
    using admit_keeps(2,11,12) [of "ev_limit env" e] a assms(2) by simp_all
  show ?thesis
    using assms(3-5)
    by (simp add: handleRollback_def decodeJSONBody_def Rollback_def a k writeEngineError_def)
qed

end
