(* ===== verification/Snapshot_Replay.thy ===== *)
theory Snapshot_Replay
  imports NW_GoValues Snapshot_Session Write_Validate
begin

text \<open>
  \<^verbatim>\<open>internal/snapshot\<close>: building a snapshot file from history rows (\<^verbatim>\<open>fromrows.go\<close>), and capturing, loading and serving
  one through in-memory OVSDB servers (\<^verbatim>\<open>snapshot.go\<close>).

  \<^item> The schema is what libovsdb makes of it: per table the columns, with the base types of key and value. The Go field names
    and raw tags of a table's generated model, the mapper from a model to a wire row, and the in-memory database are
    parameters.
  \<^item> A present set is the list of UUIDs in it. A field map is built for each row, where the code memoizes it per table.
  \<^item> Encoding a map of JSON values does not fail; building a database model may, and is the first thing \<^verbatim>\<open>BuildFromRows\<close> does:
    \<open>BuildFromRows\<close> here is what follows when both models are built. A capture is given the formatted time.
  \<^item> Values of history rows are JSON values; wire values are UUIDs, sets, maps and the rest.
\<close>

section \<open>Schema\<close>

record ColumnType =
  ct_Key :: "BaseType option"
  ct_Value :: "BaseType option"

text \<open>A column has no type object for the simple types; the outer option is \<^verbatim>\<open>TableSchema.Column\<close> returning nil.\<close>

type_synonym snap_table = "string \<Rightarrow> ColumnType option option"

record snap_schema =
  ss_Name :: string
  ss_Tables :: "(string, snap_table) gomap"

definition isUUIDRef :: "BaseType option \<Rightarrow> bool" where
  "isUUIDRef bt = (case bt of
     None \<Rightarrow> False
   | Some b \<Rightarrow> if bt_Type b \<noteq> ''uuid'' then False
       else (case bt_RefTable b of Err _ \<Rightarrow> False | Ok rt \<Rightarrow> rt \<noteq> []))"

text \<open>Whether keys and values of a column refer to rows.\<close>

definition refs_of :: "snap_table \<Rightarrow> string \<Rightarrow> bool \<times> bool" where
  "refs_of ts col = (case ts col of
     Some (Some ct) \<Rightarrow> (isUUIDRef (ct_Key ct), isUUIDRef (ct_Value ct))
   | _ \<Rightarrow> (False, False))"

section \<open>Pruning history rows\<close>

fun str_dangling :: "string list \<Rightarrow> gval \<Rightarrow> bool" where
  "str_dangling present (GStr s) = (s \<notin> set present)"
| "str_dangling present _ = False"

text \<open>What happens to a column: nothing, deletion, or a new value.\<close>

datatype 'v prune = Keep | Drop | Put 'v

definition keepEntry :: "bool \<Rightarrow> bool \<Rightarrow> string list \<Rightarrow> string \<times> gval \<Rightarrow> bool" where
  "keepEntry keyRef valRef present kv =
    (\<not> (keyRef \<and> fst kv \<notin> set present) \<and> \<not> (valRef \<and> str_dangling present (snd kv)))"

fun pruneValue :: "bool \<Rightarrow> bool \<Rightarrow> string list \<Rightarrow> gval \<Rightarrow> gval prune" where
  "pruneValue keyRef valRef present (GStr s) = (if keyRef \<and> s \<notin> set present then Drop else Keep)"
| "pruneValue keyRef valRef present (GSlice vs) =
    (if \<not> keyRef then Keep
     else let kept = filter (\<lambda>v. \<not> str_dangling present v) vs
          in if length kept \<noteq> length vs then Put (GSlice kept) else Keep)"
| "pruneValue keyRef valRef present (GMap kvs) =
    (let kept = filter (keepEntry keyRef valRef present) kvs
     in if length kept \<noteq> length kvs then Put (GMap kept) else Keep)"
| "pruneValue keyRef valRef present _ = Keep"

definition applyPrune :: "string \<Rightarrow> 'v prune \<Rightarrow> (string, 'v) gomap \<Rightarrow> (string, 'v) gomap" where
  "applyPrune col p out = (case p of Keep \<Rightarrow> out | Drop \<Rightarrow> AList.delete col out | Put v \<Rightarrow> AList.update col v out)"

definition pruneColumn :: "snap_table \<Rightarrow> string list \<Rightarrow> string \<times> gval \<Rightarrow> row_map \<Rightarrow> row_map" where
  "pruneColumn ts present cv out =
    (let (keyRef, valRef) = refs_of ts (fst cv)
     in if \<not> keyRef \<and> \<not> valRef then out else applyPrune (fst cv) (pruneValue keyRef valRef present (snd cv)) out)"

definition pruneDanglingRefs :: "snap_schema \<Rightarrow> string \<Rightarrow> row_map \<Rightarrow> string list \<Rightarrow> row_map" where
  "pruneDanglingRefs schema table data present = (case map_of (ss_Tables schema) table of
     None \<Rightarrow> data
   | Some ts \<Rightarrow> fold (pruneColumn ts present) data data)"

section \<open>Building a file from rows\<close>

record Record =
  rec_UUID :: string
  rec_Model :: row_map

record Dump =
  dp_Schema :: string
  dp_Tables :: "(string, Record list) gomap"

text \<open>The address pair is the informational source of a capture.\<close>

record snap_file =
  sf_Version :: int
  sf_CreatedAt :: string
  sf_Source :: "(string \<times> string) option"
  sf_NB :: Dump
  sf_SB :: Dump

definition snap_Version :: int where
  "snap_Version = 1"

text \<open>The struct fields of each table's model: Go name and raw \<^verbatim>\<open>ovsdb\<close> tag; none for an unknown table.\<close>

type_synonym model_fields = "string \<Rightarrow> (string \<times> string) list option"

definition tagToFieldMap :: "model_fields \<Rightarrow> string \<Rightarrow> (string, string) gomap option" where
  "tagToFieldMap mf table = (case mf table of
     None \<Rightarrow> None
   | Some fs \<Rightarrow> Some (fold (\<lambda>(name, raw) m. case ovsdb_tag raw of None \<Rightarrow> m | Some tag \<Rightarrow> AList.update tag name m) fs []))"

definition remapFields :: "(string, string) gomap \<Rightarrow> row_map \<Rightarrow> row_map" where
  "remapFields fieldMap data = fold (\<lambda>(tag, v) m. case map_of fieldMap tag of None \<Rightarrow> m | Some field \<Rightarrow> AList.update field v m) data []"

definition presentIn :: "string \<Rightarrow> RowInput list \<Rightarrow> string list" where
  "presentIn db rows = map ri_UUID (filter (\<lambda>r. ri_Database r = db) rows)"

definition addRecord :: "string \<Rightarrow> Record \<Rightarrow> Dump \<Rightarrow> Dump" where
  "addRecord table r d = d\<lparr>dp_Tables := AList.update table
     ((case map_of (dp_Tables d) table of None \<Rightarrow> [] | Some rs \<Rightarrow> rs) @ [r]) (dp_Tables d)\<rparr>"

definition addRow :: "model_fields \<Rightarrow> snap_schema \<Rightarrow> string list \<Rightarrow> RowInput \<Rightarrow> Dump \<Rightarrow> Dump" where
  "addRow mf schema present r d = (case tagToFieldMap mf (ri_Table r) of
     None \<Rightarrow> d
   | Some fieldMap \<Rightarrow> addRecord (ri_Table r)
       \<lparr>rec_UUID = ri_UUID r, rec_Model = remapFields fieldMap (pruneDanglingRefs schema (ri_Table r) (ri_Data r) present)\<rparr> d)"

definition buildRow :: "model_fields \<Rightarrow> model_fields \<Rightarrow> snap_schema \<Rightarrow> snap_schema \<Rightarrow> RowInput list \<Rightarrow> RowInput \<Rightarrow> snap_file \<Rightarrow> snap_file" where
  "buildRow nbFields sbFields nbSchema sbSchema rows r f =
    (if ri_Database r = ''nb'' then f\<lparr>sf_NB := addRow nbFields nbSchema (presentIn ''nb'' rows) r (sf_NB f)\<rparr>
     else if ri_Database r = ''sb'' then f\<lparr>sf_SB := addRow sbFields sbSchema (presentIn ''sb'' rows) r (sf_SB f)\<rparr>
     else f)"

definition BuildFromRows :: "model_fields \<Rightarrow> model_fields \<Rightarrow> snap_schema \<Rightarrow> snap_schema \<Rightarrow> RowInput list \<Rightarrow> snap_file" where
  "BuildFromRows nbFields sbFields nbSchema sbSchema rows =
    fold (buildRow nbFields sbFields nbSchema sbSchema rows) rows
      \<lparr>sf_Version = snap_Version, sf_CreatedAt = [], sf_Source = None, sf_NB = \<lparr>dp_Schema = ss_Name nbSchema, dp_Tables = []\<rparr>,
       sf_SB = \<lparr>dp_Schema = ss_Name sbSchema, dp_Tables = []\<rparr>\<rparr>"

section \<open>Capture\<close>

definition RowCount :: "Dump \<Rightarrow> nat" where
  "RowCount d = sum_list (map (\<lambda>(t, recs). length recs) (dp_Tables d))"

text \<open>The cache of a client: tables with rows by UUID, none when it is not populated.\<close>

definition captureDump :: "(string, (string, row_map) gomap) gomap option \<Rightarrow> string \<Rightarrow> Dump result" where
  "captureDump cache schemaName = (case cache of
     None \<Rightarrow> Err (Errorf ''client has no populated cache'' [])
   | Some tables \<Rightarrow> Ok \<lparr>dp_Schema = schemaName,
       dp_Tables = concat (map (\<lambda>(table, rows). if rows = [] then []
         else [(table, map (\<lambda>(u, m). \<lparr>rec_UUID = u, rec_Model = m\<rparr>) (sort_slice (\<lambda>a b. fst a < fst b) rows))]) tables)\<rparr>)"

definition Capture :: "(string, (string, row_map) gomap) gomap option \<Rightarrow> (string, (string, row_map) gomap) gomap option \<Rightarrow>
    string \<Rightarrow> string \<Rightarrow> string \<Rightarrow> snap_file result" where
  "Capture nb sb nbSchemaName sbSchemaName now = (case captureDump nb nbSchemaName of
     Err err \<Rightarrow> Err (Wrapf ''capturing NB: %w'' [] err)
   | Ok nbDump \<Rightarrow> (case captureDump sb sbSchemaName of
       Err err \<Rightarrow> Err (Wrapf ''capturing SB: %w'' [] err)
     | Ok sbDump \<Rightarrow> Ok \<lparr>sf_Version = snap_Version, sf_CreatedAt = now, sf_Source = None, sf_NB = nbDump, sf_SB = sbDump\<rparr>))"

definition snap_Load :: "snap_file result \<Rightarrow> snap_file result" where
  "snap_Load decoded = (case decoded of
     Err err \<Rightarrow> Err (Wrapf ''decoding snapshot: %w'' [] err)
   | Ok f \<Rightarrow> if sf_Version f \<noteq> snap_Version
       then Err (Errorf ''unsupported snapshot version %d (expected %d)'' [AInt (sf_Version f), AInt snap_Version]) else Ok f)"

section \<open>Loading a dump\<close>

datatype wire = WUUID string | WSet "wire list" | WMap "(wire \<times> wire) list" | WOther gval

type_synonym wire_row = "(string, wire) gomap"

fun wire_dangling :: "string list \<Rightarrow> wire \<Rightarrow> bool" where
  "wire_dangling present (WUUID u) = (u \<notin> set present)"
| "wire_dangling present _ = False"

definition keepWireEntry :: "bool \<Rightarrow> bool \<Rightarrow> string list \<Rightarrow> wire \<times> wire \<Rightarrow> bool" where
  "keepWireEntry keyRef valRef present kv =
    (\<not> (keyRef \<and> wire_dangling present (fst kv)) \<and> \<not> (valRef \<and> wire_dangling present (snd kv)))"

fun pruneWire :: "bool \<Rightarrow> bool \<Rightarrow> string list \<Rightarrow> wire \<Rightarrow> wire prune" where
  "pruneWire keyRef valRef present (WUUID u) = (if keyRef \<and> u \<noteq> [] \<and> u \<notin> set present then Drop else Keep)"
| "pruneWire keyRef valRef present (WSet vs) = (if \<not> keyRef then Keep else Put (WSet (filter (\<lambda>v. \<not> wire_dangling present v) vs)))"
| "pruneWire keyRef valRef present (WMap kvs) = Put (WMap (filter (keepWireEntry keyRef valRef present) kvs))"
| "pruneWire keyRef valRef present (WOther v) = Keep"

definition pruneWireColumn :: "snap_table \<Rightarrow> string list \<Rightarrow> string \<times> wire \<Rightarrow> wire_row \<Rightarrow> wire_row" where
  "pruneWireColumn ts present cv row =
    (let (keyRef, valRef) = refs_of ts (fst cv)
     in if \<not> keyRef \<and> \<not> valRef then row else applyPrune (fst cv) (pruneWire keyRef valRef present (snd cv)) row)"

definition pruneDanglingRowRefs :: "snap_schema \<Rightarrow> string \<Rightarrow> wire_row \<Rightarrow> string list \<Rightarrow> wire_row" where
  "pruneDanglingRowRefs schema table row present = (case map_of (ss_Tables schema) table of
     None \<Rightarrow> row
   | Some ts \<Rightarrow> fold (pruneWireColumn ts present) row row)"

record load_op =
  lo_Table :: string
  lo_UUID :: string
  lo_Row :: wire_row

text \<open>\<open>known\<close> are the tables of the build's model; \<open>newRow\<close> decodes a record into its table's model and maps it to a wire row.\<close>

definition loadTables :: "string list \<Rightarrow> Dump \<Rightarrow> string list" where
  "loadTables known d = sort_slice (<) (filter (\<lambda>t. t \<in> set known) (gokeys (dp_Tables d)))"

definition recordsOf :: "Dump \<Rightarrow> string \<Rightarrow> Record list" where
  "recordsOf d t = (case map_of (dp_Tables d) t of None \<Rightarrow> [] | Some recs \<Rightarrow> recs)"

definition presentUUIDs :: "string list \<Rightarrow> Dump \<Rightarrow> string list" where
  "presentUUIDs tables d = concat (map (\<lambda>t. map rec_UUID (recordsOf d t)) tables)"

definition loadOp :: "(string \<Rightarrow> Record \<Rightarrow> wire_row result) \<Rightarrow> snap_schema \<Rightarrow> string list \<Rightarrow> string \<Rightarrow> Record \<Rightarrow> load_op result" where
  "loadOp newRow schema present table r = (case newRow table r of
     Err err \<Rightarrow> Err err
   | Ok row \<Rightarrow> Ok \<lparr>lo_Table = table, lo_UUID = rec_UUID r,
       lo_Row = pruneDanglingRowRefs schema table (AList.delete ''_version'' (AList.delete ''_uuid'' row)) present\<rparr>)"

fun loadOps :: "(string \<Rightarrow> Record \<Rightarrow> load_op result) \<Rightarrow> (string \<times> Record) list \<Rightarrow> load_op list result" where
  "loadOps mk [] = Ok []"
| "loadOps mk ((t, r) # rest) = (case mk t r of
     Err err \<Rightarrow> Err err
   | Ok op \<Rightarrow> (case loadOps mk rest of Err err \<Rightarrow> Err err | Ok ops \<Rightarrow> Ok (op # ops)))"

definition dumpOps :: "(string \<Rightarrow> Record \<Rightarrow> wire_row result) \<Rightarrow> string list \<Rightarrow> snap_schema \<Rightarrow> Dump \<Rightarrow> load_op list result" where
  "dumpOps newRow known schema d =
    (let tables = loadTables known d; present = presentUUIDs tables d
     in loadOps (loadOp newRow schema present) (concat (map (\<lambda>t. map (Pair t) (recordsOf d t)) tables)))"

text \<open>The transaction and the commit, which the in-memory database may refuse.\<close>

definition loadDump ::
    "(string \<Rightarrow> Record \<Rightarrow> wire_row result) \<Rightarrow> string list \<Rightarrow> (load_op list \<Rightarrow> 'db \<Rightarrow> error option \<times> 'db) \<Rightarrow> snap_schema \<Rightarrow> Dump \<Rightarrow> 'db \<Rightarrow>
      error option \<times> 'db" where
  "loadDump newRow known transact schema d db = (case dumpOps newRow known schema d of
     Err err \<Rightarrow> (Some err, db)
   | Ok ops \<Rightarrow> if ops = [] then (None, db) else transact ops db)"

section \<open>Serving\<close>

datatype poll = PollErr error | PollReady | PollPending

datatype ready_outcome = Ready | ServeFailed error | ServeTimeout

text \<open>The polling loop: ten milliseconds of sleep and the scheduler's lateness between two looks at the server.\<close>

function waitReady :: "(int \<Rightarrow> poll) \<Rightarrow> (int \<Rightarrow> nat) \<Rightarrow> int \<Rightarrow> int \<Rightarrow> ready_outcome" where
  "waitReady poll late deadline now = (case poll now of
     PollErr err \<Rightarrow> ServeFailed err
   | PollReady \<Rightarrow> Ready
   | PollPending \<Rightarrow> if now > deadline then ServeTimeout else waitReady poll late deadline (now + 10000000 + int (late now)))"
  by pat_completeness auto
termination by (relation "measure (\<lambda>(poll, late, deadline, now). nat (deadline + 1 - now))") auto

record 'db host =
  h_mkdir :: "string result"
  h_NewModel :: "snap_schema \<Rightarrow> error option"
  h_NewServer :: "snap_schema \<Rightarrow> 'db result"
  h_known :: "snap_schema \<Rightarrow> string list"
  h_newRow :: "snap_schema \<Rightarrow> string \<Rightarrow> Record \<Rightarrow> wire_row result"
  h_transact :: "snap_schema \<Rightarrow> load_op list \<Rightarrow> 'db \<Rightarrow> error option \<times> 'db"
  h_poll :: "string \<Rightarrow> int \<Rightarrow> poll"
  h_late :: "int \<Rightarrow> nat"

text \<open>The servers that run, by socket path, and the directories that exist.\<close>

record serve_world =
  sw_servers :: "string list"
  sw_dirs :: "string list"

record Servers =
  sv_NBAddr :: string
  sv_SBAddr :: string
  sv_dir :: string
  sv_servers :: "string list"

definition srv_Close :: "string \<Rightarrow> serve_world \<Rightarrow> serve_world" where
  "srv_Close sock w = w\<lparr>sw_servers := remove1 sock (sw_servers w)\<rparr>"

definition Servers_Close :: "Servers \<Rightarrow> serve_world \<Rightarrow> serve_world" where
  "Servers_Close s w = (let w = fold srv_Close (sv_servers s) w
     in if sv_dir s \<noteq> [] then w\<lparr>sw_dirs := remove1 (sv_dir s) (sw_dirs w)\<rparr> else w)"

definition serveDump :: "'db host \<Rightarrow> Dump \<Rightarrow> snap_schema \<Rightarrow> string \<Rightarrow> int \<Rightarrow> serve_world \<Rightarrow> string result \<times> serve_world" where
  "serveDump h d schema sock now w =
    (if dp_Schema d \<noteq> [] \<and> dp_Schema d \<noteq> ss_Name schema
     then (Err (Errorf ''snapshot schema %q does not match expected %q'' [AStr (dp_Schema d), AStr (ss_Name schema)]), w)
     else case h_NewModel h schema of
         Some err \<Rightarrow> (Err (Errorf ''building %s database model: %v'' [AStr (ss_Name schema), AErr err]), w)
       | None \<Rightarrow> (case h_NewServer h schema of
           Err err \<Rightarrow> (Err (Wrapf ''creating %s server: %w'' [AStr (ss_Name schema)] err), w)
         | Ok db \<Rightarrow>
             (let w = w\<lparr>sw_servers := sock # sw_servers w\<rparr>
              in case loadDump (h_newRow h schema) (h_known h schema) (h_transact h schema) schema d db of
                   (Some err, _) \<Rightarrow> (Err err, srv_Close sock w)
                 | (None, _) \<Rightarrow> (case waitReady (h_poll h sock) (h_late h) (now + 5000000000) now of
                     ServeFailed err \<Rightarrow> (Err (Wrapf ''serving %s: %w'' [AStr (ss_Name schema)] err), srv_Close sock w)
                   | ServeTimeout \<Rightarrow> (Err (Errorf ''timed out waiting for %s server to become ready'' [AStr (ss_Name schema)]), srv_Close sock w)
                   | Ready \<Rightarrow> (Ok (''unix:'' @ sock), w)))))"

definition Serve :: "'db host \<Rightarrow> snap_file \<Rightarrow> snap_schema \<Rightarrow> snap_schema \<Rightarrow> int \<Rightarrow> int \<Rightarrow> serve_world \<Rightarrow> Servers result \<times> serve_world" where
  "Serve h f nbSchema sbSchema now now' w = (case h_mkdir h of
     Err err \<Rightarrow> (Err (Wrapf ''creating socket directory: %w'' [] err), w)
   | Ok dir \<Rightarrow>
       (let w = w\<lparr>sw_dirs := dir # sw_dirs w\<rparr>; s = \<lparr>sv_NBAddr = [], sv_SBAddr = [], sv_dir = dir, sv_servers = []\<rparr>
        in case serveDump h (sf_NB f) nbSchema (dir @ ''/nb.sock'') now w of
             (Err err, w) \<Rightarrow> (Err err, Servers_Close s w)
           | (Ok nbAddr, w) \<Rightarrow>
               (let s = s\<lparr>sv_servers := [dir @ ''/nb.sock''], sv_NBAddr := nbAddr\<rparr>
                in case serveDump h (sf_SB f) sbSchema (dir @ ''/sb.sock'') now' w of
                     (Err err, w) \<Rightarrow> (Err err, Servers_Close s w)
                   | (Ok sbAddr, w) \<Rightarrow> (Ok (s\<lparr>sv_servers := sv_servers s @ [dir @ ''/sb.sock''], sv_SBAddr := sbAddr\<rparr>), w))))"

section \<open>Pruning is exact\<close>

lemma applyPrune_Keep [simp]: "applyPrune c Keep out = out"
  by (simp add: applyPrune_def)

lemma map_of_applyPrune: "map_of (applyPrune c p out) col =
  (if c = col then (case p of Keep \<Rightarrow> map_of out col | Drop \<Rightarrow> None | Put v \<Rightarrow> Some v) else map_of out col)"
  by (auto simp: applyPrune_def split: prune.split)

lemma fold_applyPrune:
  assumes "gomap_ok cvs"
  shows "map_of (fold (\<lambda>cv. applyPrune (fst cv) (f cv)) cvs out) col = (case map_of cvs col of
     None \<Rightarrow> map_of out col
   | Some v \<Rightarrow> (case f (col, v) of Keep \<Rightarrow> map_of out col | Drop \<Rightarrow> None | Put v' \<Rightarrow> Some v'))"
  using assms
proof (induction cvs arbitrary: out)
  case (Cons cv cvs)
  obtain c v where cv: "cv = (c, v)" by force
  from Cons have ih: "map_of (fold (\<lambda>cv. applyPrune (fst cv) (f cv)) cvs (applyPrune c (f cv) out)) col = (case map_of cvs col of
     None \<Rightarrow> map_of (applyPrune c (f cv) out) col
   | Some v \<Rightarrow> (case f (col, v) of Keep \<Rightarrow> map_of (applyPrune c (f cv) out) col | Drop \<Rightarrow> None | Put v' \<Rightarrow> Some v'))" by simp
  have "map_of cvs c = None" using Cons.prems by (simp add: cv map_of_eq_None_iff)
  then show ?case
    using ih by (cases "c = col") (simp_all add: cv map_of_applyPrune split: option.split prune.split)
qed simp

definition histPrune :: "snap_table \<Rightarrow> string list \<Rightarrow> string \<times> gval \<Rightarrow> gval prune" where
  "histPrune ts present cv = (let (keyRef, valRef) = refs_of ts (fst cv)
     in if \<not> keyRef \<and> \<not> valRef then Keep else pruneValue keyRef valRef present (snd cv))"

definition wirePrune :: "snap_table \<Rightarrow> string list \<Rightarrow> string \<times> wire \<Rightarrow> wire prune" where
  "wirePrune ts present cv = (let (keyRef, valRef) = refs_of ts (fst cv)
     in if \<not> keyRef \<and> \<not> valRef then Keep else pruneWire keyRef valRef present (snd cv))"

lemma pruneColumn_applyPrune:
  "pruneColumn ts present = (\<lambda>cv. applyPrune (fst cv) (histPrune ts present cv))"
  "pruneWireColumn ts present = (\<lambda>cv. applyPrune (fst cv) (wirePrune ts present cv))"
  by (auto simp: fun_eq_iff pruneColumn_def pruneWireColumn_def histPrune_def wirePrune_def simp del: split_paired_All split: prod.split)

text \<open>No value of a reference column names a row outside the present ones.\<close>

fun refs_ok :: "bool \<Rightarrow> bool \<Rightarrow> string list \<Rightarrow> gval \<Rightarrow> bool" where
  "refs_ok keyRef valRef present (GStr s) = (keyRef \<longrightarrow> s \<in> set present)"
| "refs_ok keyRef valRef present (GSlice vs) = (keyRef \<longrightarrow> (\<forall>v \<in> set vs. \<not> str_dangling present v))"
| "refs_ok keyRef valRef present (GMap kvs) = (\<forall>kv \<in> set kvs. keepEntry keyRef valRef present kv)"
| "refs_ok keyRef valRef present _ = True"

fun wire_refs_ok :: "bool \<Rightarrow> bool \<Rightarrow> string list \<Rightarrow> wire \<Rightarrow> bool" where
  "wire_refs_ok keyRef valRef present (WUUID u) = (keyRef \<and> u \<noteq> [] \<longrightarrow> u \<in> set present)"
| "wire_refs_ok keyRef valRef present (WSet vs) = (keyRef \<longrightarrow> (\<forall>v \<in> set vs. \<not> wire_dangling present v))"
| "wire_refs_ok keyRef valRef present (WMap kvs) = (\<forall>kv \<in> set kvs. keepWireEntry keyRef valRef present kv)"
| "wire_refs_ok keyRef valRef present (WOther v) = True"

lemma filter_all: "length (filter P xs) = length xs \<longleftrightarrow> (\<forall>x \<in> set xs. P x)"
  by (induction xs) (auto simp: le_imp_less_Suc less_imp_neq)

lemma pruneValue_ok:
  "pruneValue k v present x = Keep \<longleftrightarrow> refs_ok k v present x"
  "pruneValue k v present x = Put y \<Longrightarrow> refs_ok k v present y"
  by (cases x; auto simp: filter_all split: if_splits)+

lemma pruneWire_ok:
  "pruneWire k v present x = Keep \<Longrightarrow> wire_refs_ok k v present x"
  "pruneWire k v present x = Put y \<Longrightarrow> wire_refs_ok k v present y"
  by (cases x; auto split: if_splits)+

lemma refs_ok_free: "refs_ok False False present x" "wire_refs_ok False False present y"
  by (cases x; simp add: keepEntry_def) (cases y; simp add: keepWireEntry_def)

lemma histPrune_ok:
  "histPrune ts present (col, v) = Keep \<longleftrightarrow> refs_ok (fst (refs_of ts col)) (snd (refs_of ts col)) present v"
  "histPrune ts present (col, v) = Put v' \<Longrightarrow> refs_ok (fst (refs_of ts col)) (snd (refs_of ts col)) present v'"
  using pruneValue_ok refs_ok_free(1) by (auto simp: histPrune_def split: prod.splits if_splits)

lemma wirePrune_ok:
  "wirePrune ts present (col, v) = Keep \<Longrightarrow> wire_refs_ok (fst (refs_of ts col)) (snd (refs_of ts col)) present v"
  "wirePrune ts present (col, v) = Put v' \<Longrightarrow> wire_refs_ok (fst (refs_of ts col)) (snd (refs_of ts col)) present v'"
  using pruneWire_ok refs_ok_free(2) by (auto simp: wirePrune_def split: prod.splits if_splits)

text \<open>
  Pruning a history row removes the references to rows that were not captured and nothing else: afterwards no
  reference column points outside the present rows, a column all of whose references are present keeps its value, whatever
  it is, and no column appears that was not there.
\<close>

theorem prune_exact:
  assumes "gomap_ok data" "map_of (ss_Tables schema) table = Some ts"
  shows "(\<forall>col v. map_of (pruneDanglingRefs schema table data present) col = Some v \<longrightarrow>
      refs_ok (fst (refs_of ts col)) (snd (refs_of ts col)) present v \<and> map_of data col \<noteq> None)
    \<and> (\<forall>col v. map_of data col = Some v \<and> refs_ok (fst (refs_of ts col)) (snd (refs_of ts col)) present v \<longrightarrow>
      map_of (pruneDanglingRefs schema table data present) col = Some v)"
proof -
  have m: "map_of (pruneDanglingRefs schema table data present) col = (case map_of data col of
     None \<Rightarrow> None
   | Some v \<Rightarrow> (case histPrune ts present (col, v) of Keep \<Rightarrow> Some v | Drop \<Rightarrow> None | Put v' \<Rightarrow> Some v'))" for col
    by (simp add: pruneDanglingRefs_def assms(2) pruneColumn_applyPrune fold_applyPrune [OF assms(1)] split: option.split prune.split)
  show ?thesis
    unfolding m
    by (auto simp: histPrune_ok(1) split: option.splits prune.splits simp del: map_of_eq_Some_iff
        dest: histPrune_ok(2) histPrune_ok(1) [THEN iffD2])
qed

section \<open>What is loaded refers only to what is loaded\<close>

lemma wire_prune_closed:
  assumes "gomap_ok row" "map_of (ss_Tables schema) table = Some ts"
    and "map_of (pruneDanglingRowRefs schema table row present) col = Some v"
  shows "wire_refs_ok (fst (refs_of ts col)) (snd (refs_of ts col)) present v"
proof -
  have "map_of (pruneDanglingRowRefs schema table row present) col = (case map_of row col of
     None \<Rightarrow> None
   | Some v \<Rightarrow> (case wirePrune ts present (col, v) of Keep \<Rightarrow> Some v | Drop \<Rightarrow> None | Put v' \<Rightarrow> Some v'))"
    by (simp add: pruneDanglingRowRefs_def assms(2) pruneColumn_applyPrune fold_applyPrune [OF assms(1)] split: option.split prune.split)
  with assms(3) show ?thesis
    by (auto split: option.splits prune.splits simp del: map_of_eq_Some_iff dest: wirePrune_ok)
qed

lemma loadOps_all: "loadOps mk trs = Ok ops \<Longrightarrow> list_all2 (\<lambda>(t, r) op. mk t r = Ok op) trs ops"
  by (induction trs arbitrary: ops) (auto split: sum.splits)

lemma loadOps_in: "loadOps mk trs = Ok ops \<Longrightarrow> op \<in> set ops \<Longrightarrow> \<exists>t r. mk t r = Ok op"
  by (induction trs arbitrary: ops) (fastforce split: sum.splits)+

lemma dumpOps_rows:
  assumes "dumpOps newRow known schema d = Ok ops"
  shows "map (\<lambda>op. (lo_Table op, lo_UUID op)) ops =
    concat (map (\<lambda>t. map (\<lambda>r. (t, rec_UUID r)) (recordsOf d t)) (loadTables known d))"
proof -
  let ?present = "presentUUIDs (loadTables known d) d"
  have l: "list_all2 (\<lambda>(t, r) op. loadOp newRow schema ?present t r = Ok op)
      (concat (map (\<lambda>t. map (Pair t) (recordsOf d t)) (loadTables known d))) ops"
    using assms loadOps_all unfolding dumpOps_def Let_def by blast
  then have "map (\<lambda>op. (lo_Table op, lo_UUID op)) ops = map (\<lambda>(t, r). (t, rec_UUID r)) (concat (map (\<lambda>t. map (Pair t) (recordsOf d t)) (loadTables known d)))"
    by (induction rule: list_all2_induct) (auto simp: loadOp_def split: sum.splits)
  then show ?thesis by (simp add: map_concat comp_def)
qed

lemma dumpOps_present:
  assumes "dumpOps newRow known schema d = Ok ops"
  shows "map lo_UUID ops = presentUUIDs (loadTables known d) d"
proof -
  have "map lo_UUID ops = map snd (map (\<lambda>op. (lo_Table op, lo_UUID op)) ops)" by simp
  then show ?thesis unfolding dumpOps_rows [OF assms] by (simp add: presentUUIDs_def map_concat comp_def)
qed

text \<open>The rows of a dump, with the tables they are in.\<close>

definition dumpRows :: "Dump \<Rightarrow> (string \<times> string) list" where
  "dumpRows d = concat (map (\<lambda>(t, recs). map (\<lambda>r. (t, rec_UUID r)) recs) (dp_Tables d))"

lemma mset_recordsOf:
  assumes "\<And>t recs. (t, recs) \<in> set ts \<Longrightarrow> recordsOf d t = recs"
  shows "mset (concat (map (\<lambda>t. map (\<lambda>r. (t, rec_UUID r)) (recordsOf d t)) (filter P (gokeys ts)))) =
    filter_mset (\<lambda>p. P (fst p)) (mset (concat (map (\<lambda>(t, recs). map (\<lambda>r. (t, rec_UUID r)) recs) ts)))"
  using assms
proof (induction ts)
  case (Cons x ts)
  obtain t recs where x: "x = (t, recs)" by force
  have one: "filter_mset (\<lambda>p. P (fst p)) (image_mset (\<lambda>r. (t, rec_UUID r)) (mset recs)) =
      (if P t then image_mset (\<lambda>r. (t, rec_UUID r)) (mset recs) else {#})"
    by (induction recs) auto
  have "recordsOf d t = recs" using Cons.prems [of t recs] by (simp add: x)
  moreover have "mset (concat (map (\<lambda>t. map (\<lambda>r. (t, rec_UUID r)) (recordsOf d t)) (filter P (gokeys ts)))) =
    filter_mset (\<lambda>p. P (fst p)) (mset (concat (map (\<lambda>(t, recs). map (\<lambda>r. (t, rec_UUID r)) recs) ts)))"
    using Cons.prems by (intro Cons.IH) simp
  ultimately show ?case by (simp add: x one)
qed simp

lemma dumpOps_mset:
  assumes "dumpOps newRow known schema d = Ok ops" "gomap_ok (dp_Tables d)"
  shows "mset (map (\<lambda>op. (lo_Table op, lo_UUID op)) ops) = filter_mset (\<lambda>p. fst p \<in> set known) (mset (dumpRows d))"
proof -
  have p: "mset (concat (map f (sort_slice (<) xs))) = mset (concat (map f xs))" for f and xs :: "string list"
  proof -
    have "mset (map f (sort_slice (<) xs)) = mset (map f xs)" by (simp add: mset_sort_slice)
    then show ?thesis by (metis mset_concat sum_mset_sum_list mset_map)
  qed
  show ?thesis
    unfolding dumpOps_rows [OF assms(1)] loadTables_def p dumpRows_def
    using assms(2) by (intro mset_recordsOf) (simp add: recordsOf_def)
qed

lemma mset_addRecord:
  assumes "gomap_ok (dp_Tables d)"
  shows "mset (dumpRows (addRecord t r d)) = add_mset (t, rec_UUID r) (mset (dumpRows d)) \<and> gomap_ok (dp_Tables (addRecord t r d))"
proof -
  have "mset (concat (map (\<lambda>(t, recs). map (\<lambda>r. (t, rec_UUID r)) recs)
      (AList.update t ((case map_of L t of None \<Rightarrow> [] | Some rs \<Rightarrow> rs) @ [r]) L))) =
    add_mset (t, rec_UUID r) (mset (concat (map (\<lambda>(t, recs). map (\<lambda>r. (t, rec_UUID r)) recs) L)))" for L
    by (induction L) auto
  with assms show ?thesis by (simp add: dumpRows_def addRecord_def)
qed

definition modelled :: "model_fields \<Rightarrow> RowInput \<Rightarrow> bool" where
  "modelled mf r = (mf (ri_Table r) \<noteq> None)"

lemma fold_addRow:
  assumes "gomap_ok (dp_Tables d)"
  shows "mset (dumpRows (fold (addRow mf schema present) rs d)) =
      mset (map (\<lambda>r. (ri_Table r, ri_UUID r)) (filter (modelled mf) rs)) + mset (dumpRows d)
    \<and> gomap_ok (dp_Tables (fold (addRow mf schema present) rs d))"
  using assms
proof (induction rs arbitrary: d)
  case (Cons r rs)
  show ?case
  proof (cases "mf (ri_Table r)")
    case None
    then have "addRow mf schema present r d = d" by (simp add: addRow_def tagToFieldMap_def)
    with Cons None show ?thesis by (simp add: modelled_def)
  next
    case (Some fs)
    then obtain x where a: "addRow mf schema present r d = addRecord (ri_Table r) x d" "rec_UUID x = ri_UUID r"
      by (simp add: addRow_def tagToFieldMap_def)
    from mset_addRecord [OF Cons.prems, of "ri_Table r" x]
    have "gomap_ok (dp_Tables (addRow mf schema present r d))"
      "mset (dumpRows (addRow mf schema present r d)) = add_mset (ri_Table r, ri_UUID r) (mset (dumpRows d))"
      by (simp_all add: a)
    with Cons.IH [of "addRow mf schema present r d"] Some show ?thesis by (simp add: modelled_def)
  qed
qed simp

lemma BuildFromRows_NB:
  "sf_NB (BuildFromRows nbFields sbFields nbSchema sbSchema rows) =
     fold (addRow nbFields nbSchema (presentIn ''nb'' rows)) (filter (\<lambda>r. ri_Database r = ''nb'') rows)
       \<lparr>dp_Schema = ss_Name nbSchema, dp_Tables = []\<rparr>"
proof -
  have "sf_NB (fold (buildRow nbFields sbFields nbSchema sbSchema all) rs f) =
      fold (addRow nbFields nbSchema (presentIn ''nb'' all)) (filter (\<lambda>r. ri_Database r = ''nb'') rs) (sf_NB f)" for all rs f
    by (induction rs arbitrary: f) (simp_all add: buildRow_def)
  then show ?thesis by (simp add: BuildFromRows_def)
qed


section \<open>Serving leaks nothing\<close>

text \<open>The time of the \<open>k\<close>th look of the polling loop.\<close>

primrec lookAt :: "(int \<Rightarrow> nat) \<Rightarrow> int \<Rightarrow> nat \<Rightarrow> int" where
  "lookAt late now 0 = now"
| "lookAt late now (Suc k) = lookAt late (now + 10000000 + int (late now)) k"

text \<open>
  The wait for a server ends: whatever the server answers and however late the scheduler is, there is a last look, at
  most one more than fit into the time until the deadline at ten milliseconds each; all looks before it found the server
  pending before the deadline, and the outcome is what the last one found, a time-out only when it is after the deadline.
\<close>

theorem wait_ready_ends:
  "\<exists>k. k \<le> nat (deadline - now) div 10000000 + 1
     \<and> (\<forall>j < k. poll (lookAt late now j) = PollPending \<and> lookAt late now j \<le> deadline)
     \<and> waitReady poll late deadline now = (case poll (lookAt late now k) of
         PollErr err \<Rightarrow> ServeFailed err | PollReady \<Rightarrow> Ready | PollPending \<Rightarrow> ServeTimeout)
     \<and> (poll (lookAt late now k) = PollPending \<longrightarrow> lookAt late now k > deadline)"
proof (induction poll late deadline now rule: waitReady.induct)
  case (1 poll late deadline now)
  let ?next = "now + 10000000 + int (late now)"
  show ?case
  proof (cases "poll now = PollPending \<and> \<not> now > deadline")
    case True
    with 1 obtain k where k: "k \<le> nat (deadline - ?next) div 10000000 + 1"
      "\<forall>j < k. poll (lookAt late ?next j) = PollPending \<and> lookAt late ?next j \<le> deadline"
      "waitReady poll late deadline ?next = (case poll (lookAt late ?next k) of
         PollErr err \<Rightarrow> ServeFailed err | PollReady \<Rightarrow> Ready | PollPending \<Rightarrow> ServeTimeout)"
      "poll (lookAt late ?next k) = PollPending \<longrightarrow> lookAt late ?next k > deadline" by blast
    have "nat (deadline - ?next) div 10000000 + 1 \<le> nat (deadline - now) div 10000000 \<or> k = 0 \<or> ?next > deadline"
      by linarith
    moreover have "k = 0" if "?next > deadline"
    proof (rule ccontr)
      assume "k \<noteq> 0"
      with k(2) have "lookAt late ?next 0 \<le> deadline" by blast
      with that show False by simp
    qed
    ultimately have "Suc k \<le> nat (deadline - now) div 10000000 + 1" using k(1) by linarith
    moreover have "\<forall>j < Suc k. poll (lookAt late now j) = PollPending \<and> lookAt late now j \<le> deadline"
      using True k(2) by (auto simp: less_Suc_eq_0_disj)
    moreover have "waitReady poll late deadline now = waitReady poll late deadline ?next"
      by (subst waitReady.simps) (use True in simp)
    ultimately show ?thesis using k(3, 4) by (intro exI [of _ "Suc k"]) (simp del: waitReady.simps)
  next
    case False
    then show ?thesis by (intro exI [of _ 0]) (auto split: poll.split)
  qed
qed

lemma serveDump_servers:
  assumes "serveDump h d schema sock now w = (r, w')"
  shows "w' = (case r of Err _ \<Rightarrow> w | Ok _ \<Rightarrow> w\<lparr>sw_servers := sock # sw_servers w\<rparr>)"
  using assms
  by (auto simp: serveDump_def srv_Close_def split: if_splits option.splits sum.splits prod.splits ready_outcome.splits)

text \<open>
  C19. Serving a snapshot leaks nothing: when it fails, at whichever step, neither a server nor the socket directory is left
  behind; when it succeeds exactly the two servers of the new directory have been added, and closing them restores the
  state before.
\<close>

theorem serve_no_leak:
  assumes "Serve h f nbSchema sbSchema now now' w = (r, w')" and "\<And>dir. h_mkdir h = Ok dir \<Longrightarrow> dir \<noteq> []"
  shows "case r of
     Err err \<Rightarrow> w' = w
   | Ok s \<Rightarrow> w' = w\<lparr>sw_servers := [sv_dir s @ ''/sb.sock'', sv_dir s @ ''/nb.sock''] @ sw_servers w, sw_dirs := sv_dir s # sw_dirs w\<rparr>
       \<and> Servers_Close s w' = w"
proof (cases "h_mkdir h")
  case (Inl err)
  with assms(1) show ?thesis by (auto simp: Serve_def)
next
  case (Inr dir)
  note dir = assms(2) [OF Inr]
  let ?w = "w\<lparr>sw_dirs := dir # sw_dirs w\<rparr>"
  obtain nr w1 where nb: "serveDump h (sf_NB f) nbSchema (dir @ ''/nb.sock'') now ?w = (nr, w1)" by force
  obtain sr w2 where sb: "serveDump h (sf_SB f) sbSchema (dir @ ''/sb.sock'') now' w1 = (sr, w2)" by force
  show ?thesis
  proof (cases nr)
    case (Inl err)
    with serveDump_servers [OF nb] have "w1 = ?w" by simp
    with assms(1) nb show ?thesis using dir by (auto simp: Serve_def Inr Inl Servers_Close_def)
  next
    case nr: (Inr nbAddr)
    let ?w1 = "?w\<lparr>sw_servers := (dir @ ''/nb.sock'') # sw_servers w\<rparr>"
    from serveDump_servers [OF nb] have w1: "w1 = ?w1" by (simp add: nr)
    have nb': "serveDump h (sf_NB f) nbSchema (dir @ ''/nb.sock'') now ?w = (Ok nbAddr, ?w1)" using nb by (simp only: nr w1)
    show ?thesis
    proof (cases sr)
      case (Inl err)
      have sb': "serveDump h (sf_SB f) sbSchema (dir @ ''/sb.sock'') now' ?w1 = (Err err, ?w1)"
        using sb serveDump_servers [OF sb] by (simp add: Inl w1)
      from assms(1) have "w' = w \<and> r = Err err"
        by (simp add: Serve_def \<open>h_mkdir h = Ok dir\<close> nb' sb' Servers_Close_def srv_Close_def dir Inl)
      then show ?thesis by simp
    next
      case (Inr sbAddr)
      have sb': "serveDump h (sf_SB f) sbSchema (dir @ ''/sb.sock'') now' ?w1 =
          (Ok sbAddr, ?w1\<lparr>sw_servers := (dir @ ''/sb.sock'') # sw_servers ?w1\<rparr>)"
        using sb serveDump_servers [OF sb] by (simp add: Inr w1)
      show ?thesis
        using assms(1) by (auto simp: Serve_def \<open>h_mkdir h = Ok dir\<close> nb' sb' Servers_Close_def srv_Close_def dir)
    qed
  qed
qed

text \<open>A snapshot of one row, served by a host whose servers are ready at the second look.\<close>

definition tinySchema :: snap_schema where
  "tinySchema = \<lparr>ss_Name = ''OVN'', ss_Tables = [(''T'', \<lambda>col. if col = ''ref''
     then Some (Some \<lparr>ct_Key = Some \<lparr>bt_Type = ''uuid'', bt_RefTable = Ok ''T''\<rparr>, ct_Value = None\<rparr>) else None)]\<rparr>"

definition tinyRows :: "RowInput list" where
  "tinyRows = [\<lparr>ri_Database = ''nb'', ri_Table = ''T'', ri_UUID = ''u1'', ri_Data = [(''_uuid'', GStr ''u1''), (''ref'', GStr ''gone'')]\<rparr>,
     \<lparr>ri_Database = ''nb'', ri_Table = ''Unknown'', ri_UUID = ''u2'', ri_Data = []\<rparr>]"

definition tinyFields :: model_fields where
  "tinyFields t = (if t = ''T'' then Some [(''UUID'', ''_uuid''), (''Ref'', ''ref'')] else None)"

definition tinyNewRow :: "string \<Rightarrow> Record \<Rightarrow> wire_row result" where
  "tinyNewRow t r = Ok (case map_of (rec_Model r) ''Ref'' of Some (GStr s) \<Rightarrow> [(''ref'', WSet [WUUID s])] | _ \<Rightarrow> [(''ref'', WSet [])])"

definition tinyHost :: "unit host" where
  "tinyHost = \<lparr>h_mkdir = Ok ''/tmp/nw'', h_NewModel = (\<lambda>_. None), h_NewServer = (\<lambda>_. Ok ()), h_known = (\<lambda>_. [''T'']),
     h_newRow = (\<lambda>_. tinyNewRow), h_transact = (\<lambda>_ ops db. (None, db)),
     h_poll = (\<lambda>sock t. if t > 0 then PollReady else PollPending), h_late = (\<lambda>_. 0)\<rparr>"

abbreviation tinyFile :: snap_file where
  "tinyFile \<equiv> BuildFromRows tinyFields tinyFields tinySchema tinySchema tinyRows"

theorem prune_exact_witness:
  "map_of (pruneDanglingRefs tinySchema ''T'' [(''_uuid'', GStr ''u1''), (''ref'', GStr ''gone'')] [''u1'']) ''_uuid'' = Some (GStr ''u1'')"
  using prune_exact [of "[(''_uuid'', GStr ''u1''), (''ref'', GStr ''gone'')]" tinySchema "''T''" "snd (hd (ss_Tables tinySchema))" "[''u1'']"]
  by (auto simp: tinySchema_def refs_of_def)

lemma tinyOps: "dumpOps tinyNewRow [''T''] tinySchema (sf_NB tinyFile) = Ok [\<lparr>lo_Table = ''T'', lo_UUID = ''u1'', lo_Row = [(''ref'', WSet [])]\<rparr>]"
  by code_simp


theorem wait_ready_ends_witness:
  "\<exists>k. k \<le> nat (15000000 - 0) div 10000000 + 1 \<and> waitReady (\<lambda>t. if t > 0 then PollReady else PollPending) (\<lambda>_. 0) 15000000 0 =
     (case if lookAt (\<lambda>_. 0) 0 k > 0 then PollReady else PollPending of
        PollErr err \<Rightarrow> ServeFailed err | PollReady \<Rightarrow> Ready | PollPending \<Rightarrow> ServeTimeout)"
  using wait_ready_ends [of 15000000 0 "\<lambda>t. if t > 0 then PollReady else PollPending" "\<lambda>_. 0"]
  by blast

lemma tinyReady: "waitReady (h_poll tinyHost sock) (h_late tinyHost) 5000000000 0 = Ready"
  by (simp add: tinyHost_def)

theorem serve_no_leak_witness:
  "\<exists>s w. Serve tinyHost tinyFile tinySchema tinySchema 0 0 \<lparr>sw_servers = [], sw_dirs = []\<rparr> = (Ok s, w)
     \<and> Servers_Close s w = \<lparr>sw_servers = [], sw_dirs = []\<rparr>"
proof -
  have loads: "loadDump (h_newRow tinyHost tinySchema) (h_known tinyHost tinySchema) (h_transact tinyHost tinySchema) tinySchema d () = (None, ())"
    if "d = sf_NB tinyFile \<or> d = sf_SB tinyFile" for d
  proof -
    have "dumpOps tinyNewRow [''T''] tinySchema (sf_SB tinyFile) = Ok []" by code_simp
    with tinyOps that show ?thesis by (auto simp: loadDump_def tinyHost_def)
  qed
  have schema: "dp_Schema (sf_NB tinyFile) = ss_Name tinySchema" "dp_Schema (sf_SB tinyFile) = ss_Name tinySchema" by code_simp+
  have host: "h_NewModel tinyHost s = None" "h_NewServer tinyHost s = Ok ()" "h_mkdir tinyHost = Ok ''/tmp/nw''" for s
    by (simp_all add: tinyHost_def)
  have "serveDump tinyHost d tinySchema sock 0 w = (Ok (''unix:'' @ sock), w\<lparr>sw_servers := sock # sw_servers w\<rparr>)"
    if "d = sf_NB tinyFile \<or> d = sf_SB tinyFile" for d sock w
    using schema loads [OF that] that tinyReady [of sock] by (auto simp: serveDump_def host simp del: waitReady.simps)
  then obtain s w where s: "Serve tinyHost tinyFile tinySchema tinySchema 0 0 \<lparr>sw_servers = [], sw_dirs = []\<rparr> = (Ok s, w)"
    by (simp add: Serve_def host)
  from serve_no_leak [OF this] host(3) show ?thesis using s by auto
qed

end
