(* ===== verification/NW_Columns.thy ===== *)
theory NW_Columns
  imports NW_Strings NW_Cache
begin

text \<open>
  Reading string columns the way the views do: a missing key of an \<^verbatim>\<open>external_ids\<close> or \<^verbatim>\<open>options\<close> map reads as the empty
  string, labels are cut to their first characters (\<^verbatim>\<open>truncateLabel\<close>; by bytes here, runes in the code, the same on the
  UUIDs and ASCII names it is applied to), and a map is filled in list order, the last entry for a key winning.
\<close>

definition strAt :: "(string, string) gomap \<Rightarrow> string \<Rightarrow> string" where
  "strAt m k = (case map_of m k of None \<Rightarrow> [] | Some v \<Rightarrow> v)"

definition truncateLabel :: "string \<Rightarrow> nat \<Rightarrow> string" where
  "truncateLabel s n = (if length s \<le> n then s else take n s)"

text \<open>A datapath of the southbound database carries the UUID of its switch or router.\<close>

record DatapathBinding =
  dp_UUID :: string
  dp_TunnelKey :: int
  dp_ExternalIDs :: "(string, string) gomap"

definition datapathEntity :: "DatapathBinding \<Rightarrow> string option" where
  "datapathEntity dp = (case map_of (dp_ExternalIDs dp) ''logical-switch'' of
     Some u \<Rightarrow> Some u
   | None \<Rightarrow> map_of (dp_ExternalIDs dp) ''logical-router'')"

text \<open>Pairs written to a map one after the other.\<close>

definition putAll :: "('k \<times> 'v) list \<Rightarrow> ('k, 'v) gomap \<Rightarrow> ('k, 'v) gomap" where
  "putAll kvs m = fold (\<lambda>(k, v). AList.update k v) kvs m"

lemma map_of_putAll: "map_of (putAll kvs m) k = (case map_of (rev kvs) k of None \<Rightarrow> map_of m k | Some v \<Rightarrow> Some v)"
  unfolding putAll_def
  by (induction kvs arbitrary: m) (auto simp: map_add_def simp del: map_of_eq_Some_iff split: option.split)

lemma gomap_ok_putAll [simp]: "gomap_ok m \<Longrightarrow> gomap_ok (putAll kvs m)"
  unfolding putAll_def by (induction kvs arbitrary: m) auto

text \<open>With distinct keys the map is the relation of the pairs.\<close>

lemma putAll_distinct:
  assumes "distinct (map fst kvs)"
  shows "map_of (putAll kvs []) k = Some v \<longleftrightarrow> (k, v) \<in> set kvs"
  using map_of_eq_Some_iff [of "rev kvs" k v] assms by (cases "map_of (rev kvs) k") (auto simp: map_of_putAll rev_map [symmetric] simp del: map_of_eq_Some_iff)

lemma strAt_putAll:
  assumes "distinct (map fst kvs)" "v \<noteq> []"
  shows "strAt (putAll kvs []) k = v \<longleftrightarrow> (k, v) \<in> set kvs"
  using putAll_distinct [OF assms(1), of k v] assms(2) by (auto simp: strAt_def simp del: map_of_eq_Some_iff split: option.splits)

text \<open>A copy of a field under each row's key, as \<^verbatim>\<open>for _, r := range rows { m[r.Key] = ... }\<close>.\<close>

lemma putAll_map: "putAll (map (\<lambda>r. (f r, g r)) rows) m = fold (\<lambda>r. AList.update (f r) (g r)) rows m"
  by (induction rows arbitrary: m) (simp_all add: putAll_def)

end
