(* ===== verification/Api_Topology.thy ===== *)
theory Api_Topology
  imports NW_Columns
begin

text \<open>
  \<^verbatim>\<open>internal/api/handler/topology.go\<close>: the network graph of switches, routers, chassis and, on request, the ports of
  virtual machines.

  \<^item> The seven listings are a record \<open>topologyData\<close>; the errgroup that reads them is given the order in which they complete.
  \<^item> The maps of counts are visited in an order of the runtime's choosing: the functions \<open>vG\<close>, \<open>vE\<close> and \<open>vC\<close> permute them.
  \<^item> The sets of chassis and of edges are lists of their members.
\<close>

section \<open>Rows and graph\<close>

record TopEntity =
  te_UUID :: string
  te_Name :: string
  te_Ports :: "string list"

text \<open>The columns read of a logical switch and of a logical router are the same.\<close>

record TopLSP =
  tl_UUID :: string
  tl_Name :: string
  tl_Type :: string
  tl_Options :: "(string, string) gomap"

record TopLRP =
  trp_UUID :: string
  trp_Name :: string

record TopPB =
  tb_UUID :: string
  tb_LogicalPort :: string
  tb_Type :: string
  tb_Chassis :: "string option"
  tb_Datapath :: string
  tb_ExternalIDs :: "(string, string) gomap"
  tb_MAC :: "string list"
  tb_Up :: "bool option"

record topologyData =
  td_switches :: "TopEntity list"
  td_routers :: "TopEntity list"
  td_lsps :: "TopLSP list"
  td_lrps :: "TopLRP list"
  td_chassisList :: "SBChassis list"
  td_portBindings :: "TopPB list"
  td_datapaths :: "DatapathBinding list"

record TopologyNode =
  tn_ID :: string
  tn_Type :: string
  tn_Label :: string
  tn_Group :: string
  tn_Metadata :: "(string, string) gomap"

record TopologyEdge =
  ed_Source :: string
  ed_Target :: string
  ed_Type :: string

record TopologyResponse =
  tr_Nodes :: "TopologyNode list"
  tr_Edges :: "TopologyEdge list"

record topologyIndex =
  ti_switchByUUID :: "(string, TopEntity) gomap"
  ti_routerByUUID :: "(string, TopEntity) gomap"
  ti_lspToSwitch :: "(string, string) gomap"
  ti_lspNameToUUID :: "(string, string) gomap"
  ti_lrpByName :: "(string, TopLRP) gomap"
  ti_lrpToRouter :: "(string, string) gomap"
  ti_datapathToEntityUUID :: "(string, string) gomap"
  ti_entityChassisCounts :: "(string, (string, int) gomap) gomap"
  ti_entityChassisGroup :: "(string, string) gomap"
  ti_boundChassis :: "string list"
  ti_gatewayChassis :: "string list"

section \<open>Fetching\<close>

record top_view =
  tw_switches :: "TopEntity list result"
  tw_routers :: "TopEntity list result"
  tw_lsps :: "TopLSP list result"
  tw_lrps :: "TopLRP list result"
  tw_chassis :: "SBChassis list result"
  tw_pbs :: "TopPB list result"
  tw_dps :: "DatapathBinding list result"

definition failure :: "'a list result \<Rightarrow> string \<Rightarrow> error option" where
  "failure r what = (case r of Err err \<Rightarrow> Some (Wrapf what [] err) | Ok _ \<Rightarrow> None)"

definition listed :: "'a list result \<Rightarrow> 'a list" where
  "listed r = (case r of Err _ \<Rightarrow> [] | Ok rows \<Rightarrow> rows)"

definition fetchTopologyData :: "(error option list \<Rightarrow> error option list) \<Rightarrow> top_view \<Rightarrow> topologyData result" where
  "fetchTopologyData completion v =
    (case List.find (\<lambda>e. e \<noteq> None) (completion
        [failure (tw_switches v) ''logical switches: %w'', failure (tw_routers v) ''logical routers: %w'',
         failure (tw_lsps v) ''logical switch ports: %w'', failure (tw_lrps v) ''logical router ports: %w'',
         failure (tw_chassis v) ''chassis: %w'', failure (tw_pbs v) ''port bindings: %w'', failure (tw_dps v) ''datapath bindings: %w'']) of
       Some (Some err) \<Rightarrow> Err err
     | _ \<Rightarrow> Ok \<lparr>td_switches = listed (tw_switches v), td_routers = listed (tw_routers v), td_lsps = listed (tw_lsps v),
         td_lrps = listed (tw_lrps v), td_chassisList = listed (tw_chassis v), td_portBindings = listed (tw_pbs v),
         td_datapaths = listed (tw_dps v)\<rparr>)"

section \<open>The index\<close>

definition portsOwner :: "TopEntity list \<Rightarrow> (string, string) gomap" where
  "portsOwner es = putAll (concat (map (\<lambda>s. map (\<lambda>p. (p, te_UUID s)) (te_Ports s)) es)) []"

definition datapathEntities :: "DatapathBinding list \<Rightarrow> (string, string) gomap" where
  "datapathEntities dps = putAll (List.map_filter (\<lambda>dp. map_option (Pair (dp_UUID dp)) (datapathEntity dp)) dps) []"

text \<open>One port binding: the chassis is a gateway if the port is a redirect, and hosts the entity of the datapath if that is
  a known switch or router.\<close>

definition countBinding :: "topologyIndex \<Rightarrow> TopPB \<Rightarrow> topologyIndex" where
  "countBinding idx pb = (case tb_Chassis pb of
     None \<Rightarrow> idx
   | Some chassisUUID \<Rightarrow>
       (let idx = (if tb_Type pb = ''chassisredirect''
                   then idx\<lparr>ti_gatewayChassis := List.insert chassisUUID (ti_gatewayChassis idx)\<rparr> else idx);
            entityUUID = strAt (ti_datapathToEntityUUID idx) (tb_Datapath pb)
        in if entityUUID = [] then idx
           else if map_of (ti_switchByUUID idx) entityUUID = None \<and> map_of (ti_routerByUUID idx) entityUUID = None then idx
           else let counts = (case map_of (ti_entityChassisCounts idx) entityUUID of None \<Rightarrow> [] | Some m \<Rightarrow> m)
                in idx\<lparr>ti_entityChassisCounts := AList.update entityUUID (bump chassisUUID counts) (ti_entityChassisCounts idx),
                       ti_boundChassis := List.insert chassisUUID (ti_boundChassis idx)\<rparr>))"

fun mostBindings :: "(string \<times> int) list \<Rightarrow> string \<times> int \<Rightarrow> string \<times> int" where
  "mostBindings [] best = best"
| "mostBindings ((c, n) # rest) best = mostBindings rest (if n > snd best then (c, n) else best)"

definition groupOf :: "((string \<times> int) list \<Rightarrow> (string \<times> int) list) \<Rightarrow> (string, int) gomap \<Rightarrow> string" where
  "groupOf vG counts = fst (mostBindings (vG counts) ([], 0))"

definition buildTopologyIndex :: "((string \<times> int) list \<Rightarrow> (string \<times> int) list) \<Rightarrow> topologyData \<Rightarrow> topologyIndex" where
  "buildTopologyIndex vG input =
    (let idx = \<lparr>ti_switchByUUID = byUUID te_UUID (td_switches input), ti_routerByUUID = byUUID te_UUID (td_routers input),
                ti_lspToSwitch = portsOwner (td_switches input),
                ti_lspNameToUUID = putAll (map (\<lambda>l. (tl_Name l, tl_UUID l)) (td_lsps input)) [],
                ti_lrpByName = byUUID trp_Name (td_lrps input), ti_lrpToRouter = portsOwner (td_routers input),
                ti_datapathToEntityUUID = datapathEntities (td_datapaths input),
                ti_entityChassisCounts = [], ti_entityChassisGroup = [], ti_boundChassis = [], ti_gatewayChassis = []\<rparr>;
         idx = foldl countBinding idx (td_portBindings input)
     in idx\<lparr>ti_entityChassisGroup := map (\<lambda>(e, counts). (e, groupOf vG counts)) (ti_entityChassisCounts idx)\<rparr>)"

section \<open>Nodes\<close>

definition entityNode :: "topologyIndex \<Rightarrow> string \<Rightarrow> TopEntity \<Rightarrow> TopologyNode" where
  "entityNode idx ty s = \<lparr>tn_ID = te_UUID s, tn_Type = ty,
     tn_Label = (if te_Name s = [] then truncateLabel (te_UUID s) 8 else te_Name s),
     tn_Group = strAt (ti_entityChassisGroup idx) (te_UUID s), tn_Metadata = []\<rparr>"

definition chassisNode :: "topologyIndex \<Rightarrow> SBChassis \<Rightarrow> TopologyNode" where
  "chassisNode idx c =
    (let label = sc_Name c; label = (if label = [] then sc_Hostname c else label);
         label = (if label = [] then truncateLabel (sc_UUID c) 8 else label)
     in \<lparr>tn_ID = sc_UUID c, tn_Type = ''chassis'', tn_Label = label, tn_Group = [],
         tn_Metadata = (if sc_UUID c \<in> set (ti_gatewayChassis idx) then [(''role'', ''gateway'')] else [])\<rparr>)"

definition buildTopologyNodes :: "topologyData \<Rightarrow> topologyIndex \<Rightarrow> TopologyNode list" where
  "buildTopologyNodes input idx =
    map (entityNode idx ''switch'') (td_switches input) @ map (entityNode idx ''router'') (td_routers input)
    @ map (chassisNode idx) (filter (\<lambda>c. sc_UUID c \<in> set (ti_boundChassis idx)) (td_chassisList input))"

section \<open>Edges\<close>

definition edgeKey :: "string \<Rightarrow> string \<Rightarrow> string" where
  "edgeKey a b = (if a < b then a @ ''|'' @ b else b @ ''|'' @ a)"

definition edge_key :: "TopologyEdge \<Rightarrow> string" where
  "edge_key e = edgeKey (ed_Source e) (ed_Target e)"

definition addEdge :: "TopologyEdge \<Rightarrow> TopologyEdge list \<times> string list \<Rightarrow> TopologyEdge list \<times> string list" where
  "addEdge e st = (case st of (edges, edgeSet) \<Rightarrow>
     if edge_key e \<in> set edgeSet then st else (edges @ [e], edge_key e # edgeSet))"

text \<open>The edge a logical switch port asks for, none where the code continues with the next port.\<close>

definition routerEdge :: "topologyIndex \<Rightarrow> string \<Rightarrow> TopLSP \<Rightarrow> TopologyEdge option" where
  "routerEdge idx switchUUID lsp =
    (let routerPortName = strAt (tl_Options lsp) ''router-port''
     in if routerPortName = [] then None
        else case map_of (ti_lrpByName idx) routerPortName of
            None \<Rightarrow> None
          | Some lrp \<Rightarrow>
              (let routerUUID = strAt (ti_lrpToRouter idx) (trp_UUID lrp)
               in if routerUUID = [] then None
                  else Some \<lparr>ed_Source = switchUUID, ed_Target = routerUUID, ed_Type = ''router-port''\<rparr>))"

definition patchEdge :: "topologyIndex \<Rightarrow> string \<Rightarrow> TopLSP \<Rightarrow> TopologyEdge option" where
  "patchEdge idx switchUUID lsp =
    (let peerName = strAt (tl_Options lsp) ''peer''
     in if peerName = [] then None
        else let peerSwitchUUID = strAt (ti_lspToSwitch idx) (strAt (ti_lspNameToUUID idx) peerName)
             in if peerSwitchUUID = [] then None
                else Some \<lparr>ed_Source = switchUUID, ed_Target = peerSwitchUUID, ed_Type = ''patch''\<rparr>)"

definition lspEdge :: "topologyIndex \<Rightarrow> TopLSP \<Rightarrow> TopologyEdge option" where
  "lspEdge idx lsp =
    (let switchUUID = strAt (ti_lspToSwitch idx) (tl_UUID lsp)
     in if switchUUID = [] then None
        else if tl_Type lsp = ''router'' then routerEdge idx switchUUID lsp
        else if tl_Type lsp = ''patch'' then patchEdge idx switchUUID lsp
        else None)"

definition bindingEdges ::
    "((string \<times> (string, int) gomap) list \<Rightarrow> (string \<times> (string, int) gomap) list) \<Rightarrow> ((string \<times> int) list \<Rightarrow> (string \<times> int) list) \<Rightarrow>
      topologyIndex \<Rightarrow> TopologyEdge list" where
  "bindingEdges vE vC idx = concat (map (\<lambda>(e, counts).
     map (\<lambda>(c, n). \<lparr>ed_Source = e, ed_Target = c, ed_Type = ''binding''\<rparr>) (vC counts)) (vE (ti_entityChassisCounts idx)))"

definition buildTopologyEdges ::
    "((string \<times> (string, int) gomap) list \<Rightarrow> (string \<times> (string, int) gomap) list) \<Rightarrow> ((string \<times> int) list \<Rightarrow> (string \<times> int) list) \<Rightarrow>
      topologyData \<Rightarrow> topologyIndex \<Rightarrow> TopologyEdge list" where
  "buildTopologyEdges vE vC input idx =
    fst (fold addEdge (List.map_filter (lspEdge idx) (td_lsps input) @ bindingEdges vE vC idx) ([], []))"

section \<open>Virtual machine ports\<close>

definition metaKeys :: "string list" where
  "metaKeys = [''neutron:device_id'', ''neutron:device_owner'', ''neutron:host_id'', ''neutron:cidrs'', ''neutron:port_fip'', ''neutron:network_name'']"

definition vmNode :: "string \<Rightarrow> TopPB \<Rightarrow> TopologyNode" where
  "vmNode chassisUUID pb =
    (let cidrs = strAt (tb_ExternalIDs pb) ''neutron:cidrs'';
         meta = putAll (List.map_filter (\<lambda>k. map_option (Pair (drop (length ''neutron:'') k)) (map_of (tb_ExternalIDs pb) k)) metaKeys) [];
         meta = (case tb_MAC pb of [] \<Rightarrow> meta | m # _ \<Rightarrow> AList.update ''mac'' m meta);
         meta = (case tb_Up pb of None \<Rightarrow> meta | Some up \<Rightarrow> AList.update ''up'' (if up then ''true'' else ''false'') meta)
     in \<lparr>tn_ID = tb_UUID pb, tn_Type = ''vm-port'', tn_Label = (if cidrs \<noteq> [] then cidrs else truncateLabel (tb_LogicalPort pb) 8),
         tn_Group = chassisUUID, tn_Metadata = meta\<rparr>)"

definition vmPort :: "topologyIndex \<Rightarrow> TopPB \<Rightarrow> (TopologyNode \<times> TopologyEdge) option" where
  "vmPort idx pb = (case tb_Chassis pb of
     None \<Rightarrow> None
   | Some chassisUUID \<Rightarrow>
       if tb_Type pb \<noteq> [] \<or> chassisUUID \<notin> set (ti_boundChassis idx) then None
       else Some (vmNode chassisUUID pb, \<lparr>ed_Source = tb_UUID pb, ed_Target = chassisUUID, ed_Type = ''vm-binding''\<rparr>))"

definition addVMPorts :: "topologyData \<Rightarrow> topologyIndex \<Rightarrow> TopologyResponse \<Rightarrow> TopologyResponse" where
  "addVMPorts input idx r =
    (let new = List.map_filter (vmPort idx) (td_portBindings input)
     in \<lparr>tr_Nodes = tr_Nodes r @ map fst new, tr_Edges = tr_Edges r @ map snd new\<rparr>)"

definition buildTopology ::
    "((string \<times> int) list \<Rightarrow> (string \<times> int) list) \<Rightarrow> ((string \<times> (string, int) gomap) list \<Rightarrow> (string \<times> (string, int) gomap) list) \<Rightarrow> ((string \<times> int) list \<Rightarrow> (string \<times> int) list) \<Rightarrow>
      topologyData \<Rightarrow> bool \<Rightarrow> TopologyResponse" where
  "buildTopology vG vE vC input includeVMs =
    (let idx = buildTopologyIndex vG input;
         r = \<lparr>tr_Nodes = buildTopologyNodes input idx, tr_Edges = buildTopologyEdges vE vC input idx\<rparr>
     in if includeVMs then addVMPorts input idx r else r)"

section \<open>Counting bindings\<close>

text \<open>A port binding puts the entity of its datapath on its chassis.\<close>

definition hosts :: "topologyIndex \<Rightarrow> TopPB \<Rightarrow> string \<Rightarrow> string \<Rightarrow> bool" where
  "hosts idx pb e c = (tb_Chassis pb = Some c \<and> strAt (ti_datapathToEntityUUID idx) (tb_Datapath pb) = e \<and> e \<noteq> []
    \<and> (map_of (ti_switchByUUID idx) e \<noteq> None \<or> map_of (ti_routerByUUID idx) e \<noteq> None))"

definition countsAt :: "topologyIndex \<Rightarrow> string \<Rightarrow> (string, int) gomap" where
  "countsAt idx e = (case map_of (ti_entityChassisCounts idx) e of None \<Rightarrow> [] | Some m \<Rightarrow> m)"

definition counts_ok :: "topologyIndex \<Rightarrow> bool" where
  "counts_ok idx = (gomap_ok (ti_entityChassisCounts idx)
    \<and> (\<forall>(e, m) \<in> set (ti_entityChassisCounts idx). gomap_ok m \<and> (\<forall>(c, n) \<in> set m. n > 0)))"

lemma countBinding_static [simp]:
  "ti_switchByUUID (countBinding idx pb) = ti_switchByUUID idx"
  "ti_routerByUUID (countBinding idx pb) = ti_routerByUUID idx"
  "ti_lspToSwitch (countBinding idx pb) = ti_lspToSwitch idx"
  "ti_lspNameToUUID (countBinding idx pb) = ti_lspNameToUUID idx"
  "ti_lrpByName (countBinding idx pb) = ti_lrpByName idx"
  "ti_lrpToRouter (countBinding idx pb) = ti_lrpToRouter idx"
  "ti_datapathToEntityUUID (countBinding idx pb) = ti_datapathToEntityUUID idx"
  "hosts (countBinding idx pb) = hosts idx"
  by (auto simp: countBinding_def hosts_def fun_eq_iff split: option.split)

lemma countBinding_conv:
  "countBinding idx pb = (let idx' = (if tb_Chassis pb \<noteq> None \<and> tb_Type pb = ''chassisredirect''
       then idx\<lparr>ti_gatewayChassis := List.insert (the (tb_Chassis pb)) (ti_gatewayChassis idx)\<rparr> else idx);
       e = strAt (ti_datapathToEntityUUID idx) (tb_Datapath pb); c = the (tb_Chassis pb)
     in if hosts idx pb e c
        then idx'\<lparr>ti_entityChassisCounts := AList.update e (bump c (countsAt idx e)) (ti_entityChassisCounts idx),
                  ti_boundChassis := List.insert c (ti_boundChassis idx)\<rparr>
        else idx')"
  by (cases "tb_Chassis pb") (auto simp: countBinding_def hosts_def countsAt_def)

lemma countBinding_counts:
  "tally c (countsAt (countBinding idx pb) e) = tally c (countsAt idx e) + (if hosts idx pb e c then 1 else 0)"
  by (auto simp: countBinding_conv countsAt_def tally_bump) (auto simp: hosts_def)

lemma countBinding_bound: "set (ti_boundChassis (countBinding idx pb)) = set (ti_boundChassis idx) \<union> {c. \<exists>e. hosts idx pb e c}"
  by (auto simp: countBinding_conv) (auto simp: hosts_def)

lemma countBinding_gateway: "set (ti_gatewayChassis (countBinding idx pb)) =
  set (ti_gatewayChassis idx) \<union> {c. tb_Chassis pb = Some c \<and> tb_Type pb = ''chassisredirect''}"
  by (auto simp: countBinding_conv)

lemma bump_positive:
  assumes "gomap_ok m" "\<forall>(c, n) \<in> set m. n > (0 :: int)"
  shows "gomap_ok (bump k m) \<and> (\<forall>(c, n) \<in> set (bump k m). n > 0)"
proof -
  have "tally k m \<ge> 0"
    using assms(2) by (cases "map_of m k") (auto simp: tally_def dest!: map_of_SomeD)
  then show ?thesis using assms by (auto simp: bump_def dest: set_AList_update)
qed

lemma countsAt_ok: "counts_ok idx \<Longrightarrow> gomap_ok (countsAt idx e) \<and> (\<forall>(c, n) \<in> set (countsAt idx e). n > 0)"
  by (auto simp: counts_ok_def countsAt_def split: option.split)

lemma countBinding_ok:
  assumes "counts_ok idx"
  shows "counts_ok (countBinding idx pb)"
proof -
  let ?e = "strAt (ti_datapathToEntityUUID idx) (tb_Datapath pb)" and ?c = "the (tb_Chassis pb)"
  have new: "gomap_ok (bump ?c (countsAt idx ?e)) \<and> (\<forall>(c, n) \<in> set (bump ?c (countsAt idx ?e)). n > 0)"
    using countsAt_ok [OF assms, of ?e] by (intro bump_positive) auto
  have "gomap_ok m \<and> (\<forall>(c, n) \<in> set m. n > 0)"
    if "(e, m) \<in> set (AList.update ?e (bump ?c (countsAt idx ?e)) (ti_entityChassisCounts idx))" for e m
    using set_AList_update [OF that] new assms by (auto simp: counts_ok_def)
  then have "\<forall>(e, m) \<in> set (AList.update ?e (bump ?c (countsAt idx ?e)) (ti_entityChassisCounts idx)).
      gomap_ok m \<and> (\<forall>(c, n) \<in> set m. n > 0)" by blast
  with assms show ?thesis by (simp add: countBinding_conv counts_ok_def)
qed

text \<open>All port bindings, one after the other.\<close>

lemma foldl_countBinding:
  fixes pbs
  defines "res idx \<equiv> foldl countBinding idx pbs"
  assumes "counts_ok idx"
  shows "counts_ok (res idx)"
    and "tally c (countsAt (res idx) e) = tally c (countsAt idx e) + int (length (filter (\<lambda>pb. hosts idx pb e c) pbs))"
    and "set (ti_boundChassis (res idx)) = set (ti_boundChassis idx) \<union> {c. \<exists>pb \<in> set pbs. \<exists>e. hosts idx pb e c}"
    and "set (ti_gatewayChassis (res idx)) = set (ti_gatewayChassis idx) \<union> {c. \<exists>pb \<in> set pbs. tb_Chassis pb = Some c \<and> tb_Type pb = ''chassisredirect''}"
    and "ti_lspToSwitch (res idx) = ti_lspToSwitch idx" "ti_lspNameToUUID (res idx) = ti_lspNameToUUID idx"
      "ti_lrpByName (res idx) = ti_lrpByName idx" "ti_lrpToRouter (res idx) = ti_lrpToRouter idx"
  using assms(2) unfolding res_def
  by (induction pbs arbitrary: idx) (auto simp: countBinding_ok countBinding_counts countBinding_bound countBinding_gateway)

section \<open>Edges without duplicates\<close>

lemma fold_addEdge:
  assumes "fold addEdge cs (es0, ks0) = (es, ks)" "distinct (map edge_key es0)" "set ks0 = edge_key ` set es0"
  shows "distinct (map edge_key es) \<and> set ks = edge_key ` set es \<and> edge_key ` set es = edge_key ` set es0 \<union> edge_key ` set cs
    \<and> set es0 \<subseteq> set es \<and> set es \<subseteq> set es0 \<union> set cs"
  using assms
proof (induction cs arbitrary: es0 ks0)
  case (Cons c cs)
  show ?case
  proof (cases "edge_key c \<in> set ks0")
    case True
    then have "addEdge c (es0, ks0) = (es0, ks0)" by (simp add: addEdge_def)
    with Cons.prems(1) have "fold addEdge cs (es0, ks0) = (es, ks)" by simp
    from Cons.IH [OF this Cons.prems(2,3)] show ?thesis using True Cons.prems(3) by auto
  next
    case False
    then have "addEdge c (es0, ks0) = (es0 @ [c], edge_key c # ks0)" by (simp add: addEdge_def)
    with Cons.prems(1) have "fold addEdge cs (es0 @ [c], edge_key c # ks0) = (es, ks)" by simp
    from Cons.IH [OF this] Cons.prems(2,3) False show ?thesis by auto
  qed
qed auto

text \<open>The endpoints of an edge, and the keys, which tell pairs apart as long as identifiers are free of the separator.\<close>

definition ends :: "TopologyEdge \<Rightarrow> string set" where
  "ends e = {ed_Source e, ed_Target e}"

lemma append_sep_inject:
  assumes "CHR ''|'' \<notin> set a" "CHR ''|'' \<notin> set c"
  shows "a @ CHR ''|'' # b = c @ CHR ''|'' # d \<longleftrightarrow> a = c \<and> b = d"
  using assms
proof (induction a arbitrary: c)
  case Nil
  then show ?case by (cases c) auto
next
  case (Cons x a)
  then show ?case by (cases c) auto
qed

lemma edgeKey_inject:
  assumes "CHR ''|'' \<notin> set a \<union> set b \<union> set c \<union> set d"
  shows "edgeKey a b = edgeKey c d \<longleftrightarrow> {a, b} = {c, d}"
proof
  assume "edgeKey a b = edgeKey c d"
  with assms show "{a, b} = {c, d}"
    by (auto simp: edgeKey_def append_sep_inject split: if_splits)
next
  assume "{a, b} = {c, d}"
  then show "edgeKey a b = edgeKey c d" by (auto simp: doubleton_eq_iff edgeKey_def)
qed

section \<open>What the index says\<close>

text \<open>Inputs with unique identifiers, ports with one owner, and chassis that are listed.\<close>

definition topo_ids :: "topologyData \<Rightarrow> string list" where
  "topo_ids d = map te_UUID (td_switches d @ td_routers d) @ map sc_UUID (td_chassisList d) @ map tb_UUID (td_portBindings d)"

definition topo_ok :: "topologyData \<Rightarrow> bool" where
  "topo_ok d = (distinct (topo_ids d) \<and> (\<forall>u \<in> set (topo_ids d). u \<noteq> [] \<and> CHR ''|'' \<notin> set u)
    \<and> distinct (concat (map te_Ports (td_switches d))) \<and> distinct (concat (map te_Ports (td_routers d)))
    \<and> distinct (map trp_Name (td_lrps d)) \<and> distinct (map dp_UUID (td_datapaths d))
    \<and> (\<forall>pb \<in> set (td_portBindings d). \<forall>c. tb_Chassis pb = Some c \<longrightarrow> c \<in> set (map sc_UUID (td_chassisList d))))"

lemma byUUID_putAll: "byUUID f rows = putAll (map (\<lambda>r. (f r, r)) rows) []"
  by (simp add: byUUID_def putAll_map)

lemma byUUID_rows:
  assumes "distinct (map f rows)"
  shows "map_of (byUUID f rows) k = Some r \<longleftrightarrow> r \<in> set rows \<and> f r = k"
  unfolding byUUID_putAll using assms by (subst putAll_distinct) (auto simp: comp_def)

lemma byUUID_absent: "map_of (byUUID f rows) k = None \<longleftrightarrow> k \<notin> f ` set rows"
proof -
  have "map_of (rev (map (\<lambda>r. (f r, r)) rows)) k = None \<longleftrightarrow> k \<notin> f ` set rows" by (auto simp: map_of_eq_None_iff image_iff)
  then show ?thesis by (auto simp: byUUID_putAll map_of_putAll split: option.splits)
qed

lemma portsOwner_at:
  assumes "distinct (concat (map te_Ports es))" "u \<noteq> []"
  shows "strAt (portsOwner es) p = u \<longleftrightarrow> (\<exists>s \<in> set es. p \<in> set (te_Ports s) \<and> te_UUID s = u)"
proof -
  let ?kvs = "concat (map (\<lambda>s. map (\<lambda>p. (p, te_UUID s)) (te_Ports s)) es)"
  have "map fst ?kvs = concat (map te_Ports es)" by (simp add: map_concat comp_def)
  then have "strAt (portsOwner es) p = u \<longleftrightarrow> (p, u) \<in> set ?kvs"
    unfolding portsOwner_def using assms by (intro strAt_putAll) simp
  then show ?thesis by auto
qed

lemma datapathEntities_at:
  assumes "distinct (map dp_UUID dps)" "e \<noteq> []"
  shows "strAt (datapathEntities dps) u = e \<longleftrightarrow> (\<exists>dp \<in> set dps. dp_UUID dp = u \<and> datapathEntity dp = Some e)"
proof -
  let ?kvs = "List.map_filter (\<lambda>dp. map_option (Pair (dp_UUID dp)) (datapathEntity dp)) dps"
  have in_kvs: "(u, e) \<in> set (List.map_filter (\<lambda>dp. map_option (Pair (dp_UUID dp)) (datapathEntity dp)) dps) \<longleftrightarrow>
      (\<exists>dp \<in> set dps. dp_UUID dp = u \<and> datapathEntity dp = Some e)" for dps u e
    by (induction dps) (auto simp: map_filter_simps split: option.split)
  have "distinct (map fst ?kvs)"
    using assms(1)
  proof (induction dps)
    case (Cons dp dps)
    have "dp_UUID dp \<notin> fst ` set (List.map_filter (\<lambda>dp. map_option (Pair (dp_UUID dp)) (datapathEntity dp)) dps)"
    proof
      assume "dp_UUID dp \<in> fst ` set (List.map_filter (\<lambda>dp. map_option (Pair (dp_UUID dp)) (datapathEntity dp)) dps)"
      then obtain e where "(dp_UUID dp, e) \<in> set (List.map_filter (\<lambda>dp. map_option (Pair (dp_UUID dp)) (datapathEntity dp)) dps)" by auto
      then obtain dp' where "dp' \<in> set dps" "dp_UUID dp' = dp_UUID dp" unfolding in_kvs by blast
      then show False using Cons.prems by (metis distinct.simps(2) image_eqI list.set_map list.simps(9))
    qed
    with Cons.IH Cons.prems show ?case by (cases "datapathEntity dp") (simp_all add: map_filter_simps)
  qed (simp add: map_filter_simps)
  then show ?thesis unfolding datapathEntities_def using strAt_putAll [OF _ assms(2)] in_kvs by blast
qed

text \<open>A chassis hosts a switch or router when a port binding of its datapath is on it.\<close>

definition hosted :: "topologyData \<Rightarrow> TopEntity \<Rightarrow> SBChassis \<Rightarrow> bool" where
  "hosted d s c = (\<exists>pb \<in> set (td_portBindings d). \<exists>dp \<in> set (td_datapaths d). tb_Chassis pb = Some (sc_UUID c)
    \<and> tb_Datapath pb = dp_UUID dp \<and> datapathEntity dp = Some (te_UUID s))"

text \<open>A switch is attached to a router when one of its router ports names a port of the router.\<close>

definition attached :: "topologyData \<Rightarrow> TopEntity \<Rightarrow> TopEntity \<Rightarrow> bool" where
  "attached d s r = (\<exists>lsp \<in> set (td_lsps d). \<exists>p \<in> set (td_lrps d). tl_UUID lsp \<in> set (te_Ports s) \<and> tl_Type lsp = ''router''
    \<and> strAt (tl_Options lsp) ''router-port'' = trp_Name p \<and> trp_Name p \<noteq> [] \<and> trp_UUID p \<in> set (te_Ports r))"

text \<open>The index before the bindings are counted.\<close>

definition baseIndex :: "topologyData \<Rightarrow> topologyIndex" where
  "baseIndex d = \<lparr>ti_switchByUUID = byUUID te_UUID (td_switches d), ti_routerByUUID = byUUID te_UUID (td_routers d),
     ti_lspToSwitch = portsOwner (td_switches d), ti_lspNameToUUID = putAll (map (\<lambda>l. (tl_Name l, tl_UUID l)) (td_lsps d)) [],
     ti_lrpByName = byUUID trp_Name (td_lrps d), ti_lrpToRouter = portsOwner (td_routers d),
     ti_datapathToEntityUUID = datapathEntities (td_datapaths d),
     ti_entityChassisCounts = [], ti_entityChassisGroup = [], ti_boundChassis = [], ti_gatewayChassis = []\<rparr>"

lemma buildTopologyIndex_simps:
  "ti_lspToSwitch (buildTopologyIndex vG d) = portsOwner (td_switches d)"
  "ti_lrpByName (buildTopologyIndex vG d) = byUUID trp_Name (td_lrps d)"
  "ti_lrpToRouter (buildTopologyIndex vG d) = portsOwner (td_routers d)"
  "ti_entityChassisCounts (buildTopologyIndex vG d) = ti_entityChassisCounts (foldl countBinding (baseIndex d) (td_portBindings d))"
  "ti_boundChassis (buildTopologyIndex vG d) = ti_boundChassis (foldl countBinding (baseIndex d) (td_portBindings d))"
  using foldl_countBinding(5,7,8) [of "baseIndex d" "td_portBindings d"]
  by (simp_all add: buildTopologyIndex_def baseIndex_def counts_ok_def)

lemma hosts_base:
  assumes "topo_ok d" "s \<in> set (td_switches d @ td_routers d)"
  shows "hosts (baseIndex d) pb (te_UUID s) c \<longleftrightarrow>
    tb_Chassis pb = Some c \<and> (\<exists>dp \<in> set (td_datapaths d). dp_UUID dp = tb_Datapath pb \<and> datapathEntity dp = Some (te_UUID s))"
proof -
  have "te_UUID s \<noteq> []" using assms by (auto simp: topo_ok_def topo_ids_def)
  moreover have "distinct (map dp_UUID (td_datapaths d))" using assms(1) by (simp add: topo_ok_def)
  ultimately show ?thesis
    using datapathEntities_at [of "td_datapaths d" "te_UUID s" "tb_Datapath pb"] assms(2)
    by (auto simp: hosts_def baseIndex_def byUUID_absent simp del: not_None_eq)
qed

lemma hosts_entity: "hosts (baseIndex d) pb e c \<Longrightarrow> \<exists>s \<in> set (td_switches d @ td_routers d). te_UUID s = e"
  by (auto simp: hosts_def baseIndex_def byUUID_absent simp del: not_None_eq)

section \<open>The graph\<close>

text \<open>Where an edge of the list comes from.\<close>

lemma lspEdge_cases:
  assumes "topo_ok d" "lspEdge (buildTopologyIndex vG d) lsp = Some e"
  shows "\<exists>s \<in> set (td_switches d). tl_UUID lsp \<in> set (te_Ports s) \<and> ed_Source e = te_UUID s
    \<and> ((tl_Type lsp = ''router'' \<and> (\<exists>p \<in> set (td_lrps d). \<exists>r \<in> set (td_routers d). strAt (tl_Options lsp) ''router-port'' = trp_Name p
            \<and> trp_Name p \<noteq> [] \<and> trp_UUID p \<in> set (te_Ports r) \<and> ed_Target e = te_UUID r))
       \<or> (\<exists>s' \<in> set (td_switches d). ed_Target e = te_UUID s'))"
proof -
  let ?own = "portsOwner (td_switches d)"
  have own: "p \<noteq> [] \<Longrightarrow> strAt ?own u = p \<Longrightarrow> \<exists>s \<in> set (td_switches d). u \<in> set (te_Ports s) \<and> te_UUID s = p"
    "p \<noteq> [] \<Longrightarrow> strAt (portsOwner (td_routers d)) u = p \<Longrightarrow> \<exists>s \<in> set (td_routers d). u \<in> set (te_Ports s) \<and> te_UUID s = p" for p u
    using portsOwner_at assms(1) unfolding topo_ok_def by blast+
  have names: "distinct (map trp_Name (td_lrps d))" using assms(1) by (simp add: topo_ok_def)
  have src: "strAt ?own (tl_UUID lsp) \<noteq> []" "ed_Source e = strAt ?own (tl_UUID lsp)"
    using assms(2) by (auto simp: lspEdge_def routerEdge_def patchEdge_def buildTopologyIndex_simps split: if_splits option.splits)
  then obtain s where s: "s \<in> set (td_switches d)" "tl_UUID lsp \<in> set (te_Ports s)" "te_UUID s = ed_Source e" using own(1) by metis
  consider (router) "tl_Type lsp = ''router''" "routerEdge (buildTopologyIndex vG d) (ed_Source e) lsp = Some e"
    | (patch) "patchEdge (buildTopologyIndex vG d) (ed_Source e) lsp = Some e"
    using assms(2) src by (auto simp: lspEdge_def buildTopologyIndex_simps split: if_splits)
  then show ?thesis
  proof cases
    case router
    then obtain p where p: "map_of (byUUID trp_Name (td_lrps d)) (strAt (tl_Options lsp) ''router-port'') = Some p"
      "strAt (tl_Options lsp) ''router-port'' \<noteq> []" "strAt (portsOwner (td_routers d)) (trp_UUID p) \<noteq> []"
      "ed_Target e = strAt (portsOwner (td_routers d)) (trp_UUID p)"
      by (cases e) (auto simp: routerEdge_def buildTopologyIndex_simps simp del: map_of_eq_Some_iff split: if_splits option.splits)
    from own(2) [OF p(3) refl] obtain r where "r \<in> set (td_routers d)" "trp_UUID p \<in> set (te_Ports r)" "te_UUID r = ed_Target e"
      unfolding p(4) by metis
    moreover have "p \<in> set (td_lrps d)" "trp_Name p = strAt (tl_Options lsp) ''router-port''" using p(1) byUUID_rows [OF names] by blast+
    ultimately show ?thesis using s router(1) p(2) by metis
  next
    case patch
    then have "ed_Target e \<noteq> [] \<and> (\<exists>u. ed_Target e = strAt ?own u)"
      by (cases e) (auto simp: patchEdge_def buildTopologyIndex_simps split: if_splits)
    then show ?thesis using s own(1) by metis
  qed
qed

lemma lspEdge_attached:
  assumes "topo_ok d" "s \<in> set (td_switches d)" "r \<in> set (td_routers d)" "attached d s r"
  shows "\<exists>lsp \<in> set (td_lsps d). lspEdge (buildTopologyIndex vG d) lsp
    = Some \<lparr>ed_Source = te_UUID s, ed_Target = te_UUID r, ed_Type = ''router-port''\<rparr>"
proof -
  from assms(4) obtain lsp p where l: "lsp \<in> set (td_lsps d)" "p \<in> set (td_lrps d)" "tl_UUID lsp \<in> set (te_Ports s)" "tl_Type lsp = ''router''"
    "strAt (tl_Options lsp) ''router-port'' = trp_Name p" "trp_Name p \<noteq> []" "trp_UUID p \<in> set (te_Ports r)"
    unfolding attached_def by blast
  have ne: "te_UUID s \<noteq> []" "te_UUID r \<noteq> []" using assms(1-3) by (auto simp: topo_ok_def topo_ids_def)
  have own: "strAt (portsOwner (td_switches d)) (tl_UUID lsp) = te_UUID s" "strAt (portsOwner (td_routers d)) (trp_UUID p) = te_UUID r"
    using portsOwner_at [OF _ ne(1)] portsOwner_at [OF _ ne(2)] assms(1-3) l unfolding topo_ok_def by blast+
  have "map_of (byUUID trp_Name (td_lrps d)) (trp_Name p) = Some p"
    using byUUID_rows [of trp_Name "td_lrps d"] assms(1) l(2) unfolding topo_ok_def by blast
  then have "lspEdge (buildTopologyIndex vG d) lsp = Some \<lparr>ed_Source = te_UUID s, ed_Target = te_UUID r, ed_Type = ''router-port''\<rparr>"
    using l(4-6) own ne by (simp add: lspEdge_def routerEdge_def buildTopologyIndex_simps del: map_of_eq_Some_iff)
  with l(1) show ?thesis by blast
qed

lemma bindingEdges_in:
  assumes "\<And>m. mset (vE m) = mset m" "\<And>m. mset (vC m) = mset m"
  shows "e \<in> set (bindingEdges vE vC (buildTopologyIndex vG d)) \<longleftrightarrow> ed_Type e = ''binding''
    \<and> (\<exists>pb \<in> set (td_portBindings d). hosts (baseIndex d) pb (ed_Source e) (ed_Target e))"
proof -
  let ?idx = "foldl countBinding (baseIndex d) (td_portBindings d)"
  have ok: "counts_ok (baseIndex d)" by (simp add: counts_ok_def baseIndex_def)
  note f = foldl_countBinding [OF ok, where pbs = "td_portBindings d"]
  have vs: "set (vE m) = set m" "set (vC n) = set n" for m n by (metis assms set_mset_mset)+
  have "e \<in> set (bindingEdges vE vC (buildTopologyIndex vG d)) \<longleftrightarrow>
      ed_Type e = ''binding'' \<and> (\<exists>n. (ed_Target e, n) \<in> set (countsAt ?idx (ed_Source e)))"
    using f(1) by (cases e) (auto simp: bindingEdges_def vs buildTopologyIndex_simps countsAt_def counts_ok_def split: option.splits; force)
  moreover have "(\<exists>n. (c, n) \<in> set (countsAt ?idx u)) \<longleftrightarrow> tally c (countsAt ?idx u) > 0" for c u
    using countsAt_ok [OF f(1), of u] by (auto simp: tally_def split: option.splits)
  moreover have "tally c (countsAt ?idx u) > 0 \<longleftrightarrow> (\<exists>pb \<in> set (td_portBindings d). hosts (baseIndex d) pb u c)" for c u
    using f(2) [of c u] by (auto simp: baseIndex_def countsAt_def tally_def filter_empty_conv)
  ultimately show ?thesis by blast
qed

text \<open>The edges built from the candidates: one for each pair of endpoints, and none that no candidate asks for.\<close>

lemma buildTopologyEdges_ends:
  assumes "\<And>e. e \<in> set (List.map_filter (lspEdge idx) (td_lsps d) @ bindingEdges vE vC idx) \<Longrightarrow> CHR ''|'' \<notin> set (ed_Source e) \<union> set (ed_Target e)"
  shows "set (buildTopologyEdges vE vC d idx) \<subseteq> set (List.map_filter (lspEdge idx) (td_lsps d) @ bindingEdges vE vC idx)"
    and "ends ` set (buildTopologyEdges vE vC d idx) = ends ` set (List.map_filter (lspEdge idx) (td_lsps d) @ bindingEdges vE vC idx)"
    and "distinct (map ends (buildTopologyEdges vE vC d idx))"
proof -
  let ?cs = "List.map_filter (lspEdge idx) (td_lsps d) @ bindingEdges vE vC idx"
  obtain es ks where f: "fold addEdge ?cs ([], []) = (es, ks)" by force
  then have es: "buildTopologyEdges vE vC d idx = es" by (simp add: buildTopologyEdges_def)
  from fold_addEdge [OF f] have fe: "distinct (map edge_key es)" "edge_key ` set es = edge_key ` set ?cs" "set es \<subseteq> set ?cs" by simp_all
  have key: "edge_key a = edge_key b \<longleftrightarrow> ends a = ends b" if "a \<in> set ?cs" "b \<in> set ?cs" for a b
    unfolding edge_key_def ends_def using assms [OF that(1)] assms [OF that(2)] by (intro edgeKey_inject) blast
  show "set (buildTopologyEdges vE vC d idx) \<subseteq> set ?cs" using fe(3) es by simp
  have "ends c \<in> ends ` set es" if "c \<in> set ?cs" for c
  proof -
    from that fe(2) obtain e where "e \<in> set es" "edge_key c = edge_key e" by (metis image_iff)
    then show ?thesis using key [OF that] fe(3) by (metis image_eqI subset_iff)
  qed
  then show "ends ` set (buildTopologyEdges vE vC d idx) = ends ` set ?cs" using fe(3) unfolding es by blast
  have "inj_on edge_key (set es)" "distinct es" using fe(1) by (simp_all add: distinct_map)
  then have "inj_on ends (set es)" using key fe(3) unfolding inj_on_def by blast
  then show "distinct (map ends (buildTopologyEdges vE vC d idx))" using \<open>distinct es\<close> by (simp add: es distinct_map)
qed

lemma map_filter_set: "y \<in> set (List.map_filter f xs) \<longleftrightarrow> (\<exists>x \<in> set xs. f x = Some y)"
  by (induction xs) (auto simp: map_filter_simps split: option.split)

text \<open>The kinds of endpoints of the edges without virtual machines.\<close>

lemma base_edges:
  fixes d vG vE vC
  assumes ok: "topo_ok d" and vE: "\<And>m. mset (vE m) = mset m" and vC: "\<And>m. mset (vC m) = mset m"
  defines "idx \<equiv> buildTopologyIndex vG d"
  defines "cs \<equiv> List.map_filter (lspEdge idx) (td_lsps d) @ bindingEdges vE vC idx"
  shows "e \<in> set cs \<Longrightarrow>
      (\<exists>s \<in> set (td_switches d). ed_Source e = te_UUID s \<and>
        ((\<exists>r \<in> set (td_routers d). ed_Target e = te_UUID r \<and> attached d s r) \<or> (\<exists>s' \<in> set (td_switches d). ed_Target e = te_UUID s')))
      \<or> (\<exists>s \<in> set (td_switches d @ td_routers d). \<exists>c \<in> set (td_chassisList d). ed_Source e = te_UUID s \<and> ed_Target e = sc_UUID c
          \<and> hosted d s c \<and> sc_UUID c \<in> set (ti_boundChassis idx))"
    and "s \<in> set (td_switches d) \<Longrightarrow> r \<in> set (td_routers d) \<Longrightarrow> attached d s r \<Longrightarrow> {te_UUID s, te_UUID r} \<in> ends ` set cs"
    and "s \<in> set (td_switches d @ td_routers d) \<Longrightarrow> hosted d s c \<Longrightarrow> {te_UUID s, sc_UUID c} \<in> ends ` set cs"
proof -
  have bound: "set (ti_boundChassis idx) = {c. \<exists>pb \<in> set (td_portBindings d). \<exists>e. hosts (baseIndex d) pb e c}"
    using foldl_countBinding(3) [of "baseIndex d" "td_portBindings d"] unfolding idx_def
    by (simp add: buildTopologyIndex_simps) (simp add: counts_ok_def baseIndex_def)
  note bin = bindingEdges_in [of vE vC _ vG d, OF vE vC, folded idx_def]
  assume "e \<in> set cs"
  then consider (lsp) lsp where "lsp \<in> set (td_lsps d)" "lspEdge idx lsp = Some e"
    | (bind) pb where "pb \<in> set (td_portBindings d)" "hosts (baseIndex d) pb (ed_Source e) (ed_Target e)"
    unfolding cs_def by (auto simp: map_filter_set bin)
  then show "(\<exists>s \<in> set (td_switches d). ed_Source e = te_UUID s \<and>
        ((\<exists>r \<in> set (td_routers d). ed_Target e = te_UUID r \<and> attached d s r) \<or> (\<exists>s' \<in> set (td_switches d). ed_Target e = te_UUID s')))
      \<or> (\<exists>s \<in> set (td_switches d @ td_routers d). \<exists>c \<in> set (td_chassisList d). ed_Source e = te_UUID s \<and> ed_Target e = sc_UUID c
          \<and> hosted d s c \<and> sc_UUID c \<in> set (ti_boundChassis idx))"
  proof cases
    case lsp
    from lspEdge_cases [OF ok lsp(2) [unfolded idx_def]] lsp(1) show ?thesis unfolding attached_def by blast
  next
    case bind
    from hosts_entity [OF bind(2)] obtain s where s: "s \<in> set (td_switches d @ td_routers d)" "te_UUID s = ed_Source e" by blast
    from bind(2) hosts_base [OF ok s(1), of pb "ed_Target e"] s(2)
    have h: "tb_Chassis pb = Some (ed_Target e)" "\<exists>dp \<in> set (td_datapaths d). dp_UUID dp = tb_Datapath pb \<and> datapathEntity dp = Some (te_UUID s)"
      by simp_all
    from h(1) bind(1) ok obtain c where c: "c \<in> set (td_chassisList d)" "sc_UUID c = ed_Target e" unfolding topo_ok_def by force
    with h s bind(1) have "hosted d s c" unfolding hosted_def by metis
    moreover have "sc_UUID c \<in> set (ti_boundChassis idx)" unfolding bound mem_Collect_eq c(2) using bind by blast
    ultimately show ?thesis using s c by metis
  qed
next
  assume "s \<in> set (td_switches d)" "r \<in> set (td_routers d)" "attached d s r"
  from lspEdge_attached [OF ok this, of vG] obtain e where "e \<in> set cs" "ends e = {te_UUID s, te_UUID r}"
    unfolding cs_def idx_def by (force simp: map_filter_set ends_def)
  then show "{te_UUID s, te_UUID r} \<in> ends ` set cs" by blast
next
  assume s: "s \<in> set (td_switches d @ td_routers d)" and "hosted d s c"
  then obtain pb where "pb \<in> set (td_portBindings d)" "hosts (baseIndex d) pb (te_UUID s) (sc_UUID c)"
    unfolding hosted_def by (metis hosts_base [OF ok s])
  then have "\<lparr>ed_Source = te_UUID s, ed_Target = sc_UUID c, ed_Type = ''binding''\<rparr> \<in> set cs"
    unfolding cs_def by (auto simp: bindingEdges_in [of vE vC _ vG d, OF vE vC, folded idx_def])
  then show "{te_UUID s, sc_UUID c} \<in> ends ` set cs" by (force simp: ends_def)
qed

lemma pair_of: "{a, b} = {c, d} \<Longrightarrow> a \<in> A \<Longrightarrow> c \<in> A \<Longrightarrow> b \<in> B \<Longrightarrow> d \<in> B \<Longrightarrow> A \<inter> B = {} \<Longrightarrow> a = c \<and> b = d"
  by (auto simp: doubleton_eq_iff)

text \<open>The identifiers of the graph by kind, the edges requested before duplicates are dropped, and the added ports.\<close>

definition entityIDs :: "topologyData \<Rightarrow> string set" where
  "entityIDs d = te_UUID ` set (td_switches d @ td_routers d)"

definition chassisIDs :: "topologyData \<Rightarrow> string set" where
  "chassisIDs d = sc_UUID ` set (td_chassisList d)"

definition bindingIDs :: "topologyData \<Rightarrow> string set" where
  "bindingIDs d = tb_UUID ` set (td_portBindings d)"

definition requested ::
    "((string \<times> int) list \<Rightarrow> (string \<times> int) list) \<Rightarrow> ((string \<times> (string, int) gomap) list \<Rightarrow> (string \<times> (string, int) gomap) list) \<Rightarrow>
      ((string \<times> int) list \<Rightarrow> (string \<times> int) list) \<Rightarrow> topologyData \<Rightarrow> TopologyEdge list" where
  "requested vG vE vC d = (let idx = buildTopologyIndex vG d
     in List.map_filter (lspEdge idx) (td_lsps d) @ bindingEdges vE vC idx)"

definition vmPorts :: "((string \<times> int) list \<Rightarrow> (string \<times> int) list) \<Rightarrow> topologyData \<Rightarrow> bool \<Rightarrow> (TopologyNode \<times> TopologyEdge) list" where
  "vmPorts vG d vms = (if vms then List.map_filter (vmPort (buildTopologyIndex vG d)) (td_portBindings d) else [])"

lemma topo_ids_facts:
  assumes "topo_ok d"
  shows "entityIDs d \<inter> chassisIDs d = {}" "entityIDs d \<inter> bindingIDs d = {}" "chassisIDs d \<inter> bindingIDs d = {}"
    "te_UUID ` set (td_switches d) \<inter> te_UUID ` set (td_routers d) = {}"
    "inj_on te_UUID (set (td_switches d @ td_routers d))" "inj_on sc_UUID (set (td_chassisList d))"
    "distinct (map te_UUID (td_switches d @ td_routers d))" "distinct (map sc_UUID (td_chassisList d))"
    "distinct (map tb_UUID (td_portBindings d))"
    "u \<in> entityIDs d \<union> chassisIDs d \<Longrightarrow> CHR ''|'' \<notin> set u"
  using assms unfolding topo_ok_def topo_ids_def entityIDs_def chassisIDs_def bindingIDs_def
  by (auto simp: distinct_map inj_on_Un image_Un)

lemma requested_kept:
  assumes "\<And>e. e \<in> set (requested vG vE vC d) \<Longrightarrow> CHR ''|'' \<notin> set (ed_Source e) \<union> set (ed_Target e)"
  defines "es \<equiv> buildTopologyEdges vE vC d (buildTopologyIndex vG d)"
  shows "set es \<subseteq> set (requested vG vE vC d) \<and> ends ` set es = ends ` set (requested vG vE vC d) \<and> distinct (map ends es)"
  using buildTopologyEdges_ends [of "buildTopologyIndex vG d" d vE vC] assms(1) unfolding requested_def Let_def es_def by metis

text \<open>The ports of virtual machines: each has a node of its own and one edge to a chassis that is shown.\<close>

lemma vmPorts_edge:
  assumes "topo_ok d" "x \<in> set (vmPorts vG d vms)"
  shows "tn_ID (fst x) = ed_Source (snd x)" "ed_Source (snd x) \<in> bindingIDs d"
    "ed_Target (snd x) \<in> chassisIDs d \<inter> set (ti_boundChassis (buildTopologyIndex vG d))"
    "ends (snd x) \<inter> bindingIDs d = {ed_Source (snd x)}"
proof -
  from assms(2) obtain pb where "pb \<in> set (td_portBindings d)" "vmPort (buildTopologyIndex vG d) pb = Some x"
    unfolding vmPorts_def by (auto simp: map_filter_set split: if_splits)
  then show *: "tn_ID (fst x) = ed_Source (snd x)" "ed_Source (snd x) \<in> bindingIDs d"
    "ed_Target (snd x) \<in> chassisIDs d \<inter> set (ti_boundChassis (buildTopologyIndex vG d))"
    using assms(1) unfolding topo_ok_def chassisIDs_def bindingIDs_def by (auto simp: vmPort_def vmNode_def split: option.splits if_splits)
  then have "ed_Target (snd x) \<notin> bindingIDs d" using topo_ids_facts(3) [OF assms(1)] by blast
  with *(2) show "ends (snd x) \<inter> bindingIDs d = {ed_Source (snd x)}" by (auto simp: ends_def)
qed

lemma vmPorts_distinct:
  assumes "topo_ok d"
  shows "distinct (map (ed_Source \<circ> snd) (vmPorts vG d vms))" "distinct (map ends (map snd (vmPorts vG d vms)))"
proof -
  let ?idx = "buildTopologyIndex vG d"
  have "distinct (map (ed_Source \<circ> snd) (List.map_filter (vmPort ?idx) pbs))
      \<and> set (map (ed_Source \<circ> snd) (List.map_filter (vmPort ?idx) pbs)) \<subseteq> set (map tb_UUID pbs)"
    if "distinct (map tb_UUID pbs)" for pbs
    using that
  proof (induction pbs)
    case (Cons pb pbs)
    then show ?case by (auto simp: map_filter_simps vmPort_def split: option.splits if_splits)
  qed (simp add: map_filter_simps)
  then show *: "distinct (map (ed_Source \<circ> snd) (vmPorts vG d vms))"
    using topo_ids_facts(9) [OF assms] unfolding vmPorts_def by auto
  then show "distinct (map ends (map snd (vmPorts vG d vms)))"
    using vmPorts_edge(4) [OF assms] unfolding distinct_map map_map inj_on_def comp_def by (metis the_elem_eq)
qed

text \<open>Neither end of the other edges is a port.\<close>

lemma requested_ends:
  assumes "topo_ok d" "\<And>m. mset (vE m) = mset m" "\<And>m. mset (vC m) = mset m" "e \<in> set (requested vG vE vC d)"
  shows "ed_Source e \<in> entityIDs d"
    "ed_Target e \<in> entityIDs d \<union> (chassisIDs d \<inter> set (ti_boundChassis (buildTopologyIndex vG d)))"
    "ends e \<inter> bindingIDs d = {}"
proof -
  show *: "ed_Source e \<in> entityIDs d"
    "ed_Target e \<in> entityIDs d \<union> (chassisIDs d \<inter> set (ti_boundChassis (buildTopologyIndex vG d)))"
    using base_edges(1) [OF assms(1-3) assms(4) [unfolded requested_def Let_def]]
    unfolding entityIDs_def chassisIDs_def by auto
  then show "ends e \<inter> bindingIDs d = {}" using topo_ids_facts(2,3) [OF assms(1)] by (auto simp: ends_def)
qed

lemma requested_switch_router:
  assumes "topo_ok d" "\<And>m. mset (vE m) = mset m" "\<And>m. mset (vC m) = mset m"
    and sr: "s \<in> set (td_switches d)" "r \<in> set (td_routers d)"
  shows "{te_UUID s, te_UUID r} \<in> ends ` set (requested vG vE vC d) \<longleftrightarrow> attached d s r"
proof
  have k: "te_UUID s \<in> te_UUID ` set (td_switches d)" "te_UUID r \<in> te_UUID ` set (td_routers d)" using sr by auto
  note f = topo_ids_facts [OF assms(1)]
  assume "{te_UUID s, te_UUID r} \<in> ends ` set (requested vG vE vC d)"
  then obtain e where e: "e \<in> set (requested vG vE vC d)" "ends e = {te_UUID s, te_UUID r}" by (metis imageE)
  have noch: "{te_UUID s, te_UUID r} \<inter> chassisIDs d = {}" using k f(1) unfolding entityIDs_def by auto
  from base_edges(1) [OF assms(1-3) e(1) [unfolded requested_def Let_def]] show "attached d s r"
  proof (elim disjE bexE conjE)
    fix s' r'
    assume port: "s' \<in> set (td_switches d)" "r' \<in> set (td_routers d)" "attached d s' r'" "ed_Source e = te_UUID s'" "ed_Target e = te_UUID r'"
    have eq: "te_UUID s' = te_UUID s \<and> te_UUID r' = te_UUID r"
      by (rule pair_of [OF _ _ k(1) _ k(2) f(4)]) (use e(2) port in \<open>auto simp: ends_def\<close>)
    have "s' = s" by (rule inj_onD [OF f(5)]) (use eq port(1) sr in simp_all)
    moreover have "r' = r" by (rule inj_onD [OF f(5)]) (use eq port(2) sr in simp_all)
    ultimately show ?thesis using port(3) by simp
  next
    fix s' s''
    assume "s' \<in> set (td_switches d)" "s'' \<in> set (td_switches d)" "ed_Source e = te_UUID s'" "ed_Target e = te_UUID s''"
    then have "ends e \<subseteq> te_UUID ` set (td_switches d)" by (simp add: ends_def)
    then have "te_UUID r \<in> te_UUID ` set (td_switches d)" unfolding e(2) by simp
    with k(2) f(4) show ?thesis by blast
  next
    fix c' assume "c' \<in> set (td_chassisList d)" "ed_Target e = sc_UUID c'"
    then have "sc_UUID c' \<in> {te_UUID s, te_UUID r} \<inter> chassisIDs d" using e(2) by (auto simp: ends_def chassisIDs_def)
    with noch show ?thesis by simp
  qed
next
  assume "attached d s r"
  from base_edges(2) [OF assms(1-3) sr this] show "{te_UUID s, te_UUID r} \<in> ends ` set (requested vG vE vC d)"
    by (simp add: requested_def)
qed

lemma requested_chassis:
  assumes "topo_ok d" "\<And>m. mset (vE m) = mset m" "\<And>m. mset (vC m) = mset m"
    and sc: "s \<in> set (td_switches d @ td_routers d)" "c \<in> set (td_chassisList d)"
  shows "{te_UUID s, sc_UUID c} \<in> ends ` set (requested vG vE vC d) \<longleftrightarrow> hosted d s c"
proof
  note f = topo_ids_facts [OF assms(1)]
  have k: "te_UUID s \<in> entityIDs d" "sc_UUID c \<in> chassisIDs d" using sc unfolding entityIDs_def chassisIDs_def by blast+
  assume "{te_UUID s, sc_UUID c} \<in> ends ` set (requested vG vE vC d)"
  then obtain e where e: "e \<in> set (requested vG vE vC d)" "ends e = {te_UUID s, sc_UUID c}" by (metis imageE)
  then have target: "ed_Target e \<notin> entityIDs d" 
    using requested_ends(1) [OF assms(1-3) e(1)] f(1) k by (auto simp: ends_def doubleton_eq_iff)
  from base_edges(1) [OF assms(1-3) e(1) [unfolded requested_def Let_def]] show "hosted d s c"
  proof (elim disjE bexE conjE)
    fix s' c'
    assume bind: "s' \<in> set (td_switches d @ td_routers d)" "c' \<in> set (td_chassisList d)" "hosted d s' c'"
      "ed_Source e = te_UUID s'" "ed_Target e = sc_UUID c'"
    have eq: "te_UUID s' = te_UUID s \<and> sc_UUID c' = sc_UUID c"
      by (rule pair_of [OF _ _ k(1) _ k(2) f(1)]) (use e(2) bind in \<open>auto simp: ends_def entityIDs_def chassisIDs_def\<close>)
    have "s' = s" by (rule inj_onD [OF f(5)]) (use eq bind(1) sc in simp_all)
    moreover have "c' = c" by (rule inj_onD [OF f(6)]) (use eq bind(2) sc in simp_all)
    ultimately show ?thesis using bind(3) by simp
  qed (use target in \<open>auto simp: entityIDs_def\<close>)
next
  assume "hosted d s c"
  from base_edges(3) [OF assms(1-3) sc(1) this] show "{te_UUID s, sc_UUID c} \<in> ends ` set (requested vG vE vC d)"
    by (simp add: requested_def)
qed

text \<open>The nodes and edges of the response.\<close>

lemma buildTopology_parts:
  assumes "topo_ok d"
  shows "tr_Edges (buildTopology vG vE vC d vms) = buildTopologyEdges vE vC d (buildTopologyIndex vG d) @ map snd (vmPorts vG d vms)"
    and "map tn_ID (tr_Nodes (buildTopology vG vE vC d vms)) = map te_UUID (td_switches d @ td_routers d)
      @ map sc_UUID (filter (\<lambda>c. sc_UUID c \<in> set (ti_boundChassis (buildTopologyIndex vG d))) (td_chassisList d))
      @ map (ed_Source \<circ> snd) (vmPorts vG d vms)"
proof -
  have "map (tn_ID \<circ> fst) (vmPorts vG d vms) = map (ed_Source \<circ> snd) (vmPorts vG d vms)"
    using vmPorts_edge(1) [OF assms] by simp
  then show "tr_Edges (buildTopology vG vE vC d vms) = buildTopologyEdges vE vC d (buildTopologyIndex vG d) @ map snd (vmPorts vG d vms)"
    "map tn_ID (tr_Nodes (buildTopology vG vE vC d vms)) = map te_UUID (td_switches d @ td_routers d)
      @ map sc_UUID (filter (\<lambda>c. sc_UUID c \<in> set (ti_boundChassis (buildTopologyIndex vG d))) (td_chassisList d))
      @ map (ed_Source \<circ> snd) (vmPorts vG d vms)"
    by (simp_all add: buildTopology_def addVMPorts_def vmPorts_def buildTopologyNodes_def entityNode_def chassisNode_def comp_def Let_def)
qed

lemma buildTopology_ids:
  assumes "topo_ok d"
  shows "distinct (map tn_ID (tr_Nodes (buildTopology vG vE vC d vms)))"
    and "set (map tn_ID (tr_Nodes (buildTopology vG vE vC d vms))) = entityIDs d
      \<union> (chassisIDs d \<inter> set (ti_boundChassis (buildTopologyIndex vG d))) \<union> (ed_Source \<circ> snd) ` set (vmPorts vG d vms)"
proof -
  let ?bc = "filter (\<lambda>c. sc_UUID c \<in> set (ti_boundChassis (buildTopologyIndex vG d))) (td_chassisList d)"
  note f = topo_ids_facts [OF assms]
  have bc: "set (map sc_UUID ?bc) = chassisIDs d \<inter> set (ti_boundChassis (buildTopologyIndex vG d))" "distinct (map sc_UUID ?bc)"
    using f(8) by (auto simp: chassisIDs_def distinct_map_filter)
  have ents: "set (map te_UUID (td_switches d @ td_routers d)) = entityIDs d" unfolding entityIDs_def by (simp add: image_Un)
  have new: "set (map (ed_Source \<circ> snd) (vmPorts vG d vms)) \<subseteq> bindingIDs d" using vmPorts_edge(2) [OF assms] by auto
  have "entityIDs d \<inter> (set (map sc_UUID ?bc) \<union> set (map (ed_Source \<circ> snd) (vmPorts vG d vms))) = {}"
    "set (map sc_UUID ?bc) \<inter> set (map (ed_Source \<circ> snd) (vmPorts vG d vms)) = {}" using bc(1) new f(1-3) by blast+
  then show "distinct (map tn_ID (tr_Nodes (buildTopology vG vE vC d vms)))"
    unfolding buildTopology_parts [OF assms] distinct_append set_append ents using f(7) bc(2) vmPorts_distinct(1) [OF assms] by blast
  show "set (map tn_ID (tr_Nodes (buildTopology vG vE vC d vms))) = entityIDs d
      \<union> (chassisIDs d \<inter> set (ti_boundChassis (buildTopologyIndex vG d))) \<union> (ed_Source \<circ> snd) ` set (vmPorts vG d vms)"
    unfolding buildTopology_parts [OF assms] set_append ents bc(1) by auto
qed


text \<open>A switch attached to a router, with two of its ports on a chassis.\<close>

definition netExample :: topologyData where
  "netExample = \<lparr>td_switches = [\<lparr>te_UUID = ''s'', te_Name = ''net'', te_Ports = [''p1'', ''p2'']\<rparr>],
     td_routers = [\<lparr>te_UUID = ''r'', te_Name = ''gw'', te_Ports = [''q'']\<rparr>],
     td_lsps = [\<lparr>tl_UUID = ''p1'', tl_Name = ''to-gw'', tl_Type = ''router'', tl_Options = [(''router-port'', ''lrp'')]\<rparr>],
     td_lrps = [\<lparr>trp_UUID = ''q'', trp_Name = ''lrp''\<rparr>], td_chassisList = [\<lparr>sc_UUID = ''c'', sc_Name = ''node'', sc_Hostname = []\<rparr>],
     td_portBindings = [\<lparr>tb_UUID = ''b'', tb_LogicalPort = ''vm'', tb_Type = [], tb_Chassis = Some ''c'', tb_Datapath = ''d'',
        tb_ExternalIDs = [], tb_MAC = [], tb_Up = Some True\<rparr>],
     td_datapaths = [\<lparr>dp_UUID = ''d'', dp_TunnelKey = 1, dp_ExternalIDs = [(''logical-switch'', ''s'')]\<rparr>]\<rparr>"


text \<open>The group of a switch or router is a chassis with the most of its ports.\<close>

lemma mostBindings_max:
  "mostBindings cs best = r \<Longrightarrow> snd best \<le> snd r \<and> (\<forall>x \<in> set cs. snd x \<le> snd r) \<and> (r = best \<or> r \<in> set cs)"
  by (induction cs best arbitrary: r rule: mostBindings.induct) (force split: if_splits)+

lemma topology_group:
  assumes "\<And>m. mset (vG m) = mset m"
    and "strAt (ti_entityChassisGroup (buildTopologyIndex vG d)) e = c" "c \<noteq> []"
  defines "onChassis x \<equiv> length (filter (\<lambda>pb. hosts (baseIndex d) pb e x) (td_portBindings d))"
  shows "0 < onChassis c \<and> (\<forall>c'. onChassis c' \<le> onChassis c)"
proof -
  let ?idx = "foldl countBinding (baseIndex d) (td_portBindings d)"
  have ok: "counts_ok (baseIndex d)" by (simp add: counts_ok_def baseIndex_def)
  note f = foldl_countBinding [OF ok, where pbs = "td_portBindings d"]
  have n: "tally x (countsAt ?idx e) = int (onChassis x)" for x
    using f(2) [of x e] by (simp add: onChassis_def baseIndex_def countsAt_def tally_def)
  have "ti_entityChassisGroup (buildTopologyIndex vG d) = map (\<lambda>(e, counts). (e, groupOf vG counts)) (ti_entityChassisCounts ?idx)"
    by (simp add: buildTopologyIndex_def baseIndex_def)
  then have "map_of (ti_entityChassisGroup (buildTopologyIndex vG d)) e = map_option (groupOf vG) (map_of (ti_entityChassisCounts ?idx) e)"
    by (simp only: map_of_map comp_def)
  with assms(2,3) have c: "groupOf vG (countsAt ?idx e) = c"
    by (auto simp: strAt_def countsAt_def simp del: map_of_eq_Some_iff split: option.splits)
  obtain r where r: "mostBindings (vG (countsAt ?idx e)) ([], 0) = r" by blast
  have "set (vG (countsAt ?idx e)) = set (countsAt ?idx e)" by (metis assms(1) set_mset_mset)
  with mostBindings_max [OF r] c r assms(3) have m: "r \<in> set (countsAt ?idx e)" "\<forall>x \<in> set (countsAt ?idx e). snd x \<le> snd r" "fst r = c"
    by (auto simp: groupOf_def)
  note g = countsAt_ok [OF f(1), of e]
  from m g have "map_of (countsAt ?idx e) c = Some (snd r)" by (metis map_of_eq_Some_iff prod.collapse)
  then have rc: "snd r = int (onChassis c)" using n [of c] by (simp add: tally_def)
  have "snd r > 0" using m(1) g by (cases r) auto
  moreover have "int (onChassis c') \<le> snd r" for c'
    using n [of c'] m(2) \<open>snd r > 0\<close> by (cases "map_of (countsAt ?idx e) c'") (auto simp: tally_def dest!: map_of_SomeD)
  ultimately show ?thesis by (simp add: rc)
qed

text \<open>
  A chassis that ports are bound to but that is not listed has no node, yet the edges to it are sent: the two databases are
  read one table after the other.
\<close>

lemma topology_dangling_edge:
  "let t = buildTopology id id id (netExample\<lparr>td_chassisList := []\<rparr>) False
   in \<exists>e \<in> set (tr_Edges t). ed_Target e \<notin> tn_ID ` set (tr_Nodes t)"
  by code_simp

end
