(* ===== verification/Api_Trace.thy ===== *)
theory Api_Trace
  imports NW_Columns Trace_Store Api_Topology
begin

text \<open>
  \<^verbatim>\<open>internal/api/handler/trace.go\<close>, \<^verbatim>\<open>flows.go\<close>, \<^verbatim>\<open>flow_tables.go\<close> and the trace part of \<^verbatim>\<open>export.go\<close>: the logical flows of a
  datapath by pipeline and table, and the trace that marks in every table the flow a packet most likely takes.

  \<^item> Flows are grouped in a map; \<open>visit\<close> permutes it into the order the runtime ranges over it.
  \<^item> Comparisons that ignore case are on ASCII; the exported text is a list of lines, each a format with its arguments.
\<close>

section \<open>Rows\<close>

record LogicalFlow =
  lf_UUID :: string
  lf_LogicalDatapath :: "string option"
  lf_LogicalDpGroup :: "string option"
  lf_Pipeline :: string
  lf_TableID :: int
  lf_Priority :: int
  lf_Match :: string
  lf_Actions :: string
  lf_ExternalIDs :: "(string, string) gomap"

definition ovnTableNames :: "(int, string) gomap" where
  "ovnTableNames = [(0, ''Admission Control''), (1, ''Ingress Port Security - L2''), (2, ''Ingress Port Security - IP''),
     (3, ''Ingress Port Security - ND''), (4, ''Pre-ACL''), (5, ''Pre-LB''), (6, ''Pre-Stateful''), (7, ''ACL Hints''), (8, ''ACL''),
     (9, ''ACL Action''), (10, ''QoS''), (11, ''Stateful''), (12, ''DHCP Options''), (13, ''DHCP Response''), (14, ''DNS Lookup''),
     (15, ''DNS Response''), (16, ''External Port Mapping''), (17, ''L2 Lookup''), (18, ''L2 Unknown''), (19, ''L3 Lookup''),
     (20, ''MAC Learning'')]"

definition OVNTableName :: "int \<Rightarrow> string" where
  "OVNTableName tableID = (case map_of ovnTableNames tableID of None \<Rightarrow> [] | Some n \<Rightarrow> n)"

definition flowsOf :: "string \<Rightarrow> LogicalFlow list result \<Rightarrow> LogicalFlow list result" where
  "flowsOf datapathUUID flows = whereCache (\<lambda>f. lf_LogicalDatapath f = Some datapathUUID) flows"

definition resolveDatapathName :: "DatapathBinding list result \<Rightarrow> string \<Rightarrow> string" where
  "resolveDatapathName dps u = (case firstWhere (\<lambda>dp. dp_UUID dp = u) dps of
     None \<Rightarrow> []
   | Some dp \<Rightarrow> (case datapathEntity dp of None \<Rightarrow> [] | Some name \<Rightarrow> name))"

section \<open>Grouping\<close>

text \<open>\<^verbatim>\<open>m[k] = append(m[k], x)\<close>.\<close>

definition pushTo :: "'k \<Rightarrow> 'a \<Rightarrow> ('k, 'a list) gomap \<Rightarrow> ('k, 'a list) gomap" where
  "pushTo k x m = AList.update k ((case map_of m k of None \<Rightarrow> [] | Some xs \<Rightarrow> xs) @ [x]) m"

definition groupBy :: "('a \<Rightarrow> 'k) \<Rightarrow> 'a list \<Rightarrow> ('k, 'a list) gomap" where
  "groupBy key xs = fold (\<lambda>x. pushTo (key x) x) xs []"

lemma groupBy_at: "map_of (groupBy key xs) k = (if filter (\<lambda>x. key x = k) xs = [] then None else Some (filter (\<lambda>x. key x = k) xs))"
proof -
  have "map_of (fold (\<lambda>x. pushTo (key x) x) xs m) k =
      (if filter (\<lambda>x. key x = k) xs = [] then map_of m k
       else Some ((case map_of m k of None \<Rightarrow> [] | Some ys \<Rightarrow> ys) @ filter (\<lambda>x. key x = k) xs))" for m
    by (induction xs arbitrary: m) (auto simp: pushTo_def simp del: map_of_eq_Some_iff)
  then show ?thesis by (simp add: groupBy_def del: map_of_eq_Some_iff)
qed

lemma gomap_ok_groupBy: "gomap_ok (groupBy key xs)"
proof -
  have "gomap_ok m \<Longrightarrow> gomap_ok (fold (\<lambda>x. pushTo (key x) x) xs m)" for m
    by (induction xs arbitrary: m) (simp_all add: pushTo_def)
  then show ?thesis by (simp add: groupBy_def)
qed

lemma groupBy_in: "(k, g) \<in> set (groupBy key xs) \<longleftrightarrow> g = filter (\<lambda>x. key x = k) xs \<and> g \<noteq> []"
proof -
  have "(k, g) \<in> set (groupBy key xs) \<longleftrightarrow> map_of (groupBy key xs) k = Some g"
    using gomap_ok_groupBy by (rule in_set_gomap)
  then show ?thesis by (auto simp: groupBy_at simp del: map_of_eq_Some_iff)
qed

lemma mset_concat_groups: "mset (concat (map snd (groupBy key xs))) = mset xs"
proof -
  have push: "mset (concat (map snd (pushTo k x m))) = add_mset x (mset (concat (map snd m)))" for k x and m :: "('k, 'a list) gomap"
    unfolding pushTo_def by (induction m) auto
  have "mset (concat (map snd (fold (\<lambda>x. pushTo (key x) x) xs m))) = mset (concat (map snd m)) + mset xs" for m
    by (induction xs arbitrary: m) (simp_all add: push)
  then show ?thesis by (simp add: groupBy_def)
qed

section \<open>The flow pipeline\<close>

record FlowEntry =
  fe_UUID :: string
  fe_Priority :: int
  fe_Match :: string
  fe_Actions :: string
  fe_ExternalIDs :: "(string, string) gomap"

record FlowTableGroup =
  fg_TableID :: int
  fg_TableName :: string
  fg_Flows :: "FlowEntry list"

record FlowPipelineResponse =
  fp_DatapathUUID :: string
  fp_DatapathName :: string
  fp_Ingress :: "FlowTableGroup list"
  fp_Egress :: "FlowTableGroup list"

definition flowEntry :: "LogicalFlow \<Rightarrow> FlowEntry" where
  "flowEntry f = \<lparr>fe_UUID = lf_UUID f, fe_Priority = lf_Priority f, fe_Match = lf_Match f, fe_Actions = lf_Actions f,
     fe_ExternalIDs = lf_ExternalIDs f\<rparr>"

text \<open>The stage names of one pipeline: the last flow of a table that names its stage.\<close>

definition stageNames :: "LogicalFlow list \<Rightarrow> (int, string) gomap" where
  "stageNames flows = fold (\<lambda>f m. case map_of (lf_ExternalIDs f) ''stage-name'' of
     None \<Rightarrow> m | Some name \<Rightarrow> AList.update (lf_TableID f) name m) flows []"

definition buildFlowTableGroups ::
    "((int \<times> FlowEntry list) list \<Rightarrow> (int \<times> FlowEntry list) list) \<Rightarrow> (int, FlowEntry list) gomap \<Rightarrow> (int, string) gomap \<Rightarrow>
      FlowTableGroup list" where
  "buildFlowTableGroups visit m tableNames =
    sort_slice (\<lambda>a b. fg_TableID a < fg_TableID b) (map (\<lambda>(t, flows).
      let name = (case map_of tableNames t of None \<Rightarrow> [] | Some n \<Rightarrow> n)
      in \<lparr>fg_TableID = t, fg_TableName = (if name = [] then OVNTableName t else name),
          fg_Flows = sort_slice (\<lambda>a b. fe_Priority a > fe_Priority b) flows\<rparr>) (visit m))"

definition pipelineGroups ::
    "((int \<times> FlowEntry list) list \<Rightarrow> (int \<times> FlowEntry list) list) \<Rightarrow> string \<Rightarrow> LogicalFlow list \<Rightarrow> FlowTableGroup list" where
  "pipelineGroups visit pipeline flows =
    (let fs = filter (\<lambda>f. lf_Pipeline f = pipeline) flows
     in buildFlowTableGroups visit (map (\<lambda>(t, g). (t, map flowEntry g)) (groupBy lf_TableID fs)) (stageNames fs))"

text \<open>The endpoint: status with the response, if any.\<close>

definition handleFlows ::
    "((int \<times> FlowEntry list) list \<Rightarrow> (int \<times> FlowEntry list) list) \<Rightarrow> LogicalFlow list result \<Rightarrow> DatapathBinding list result \<Rightarrow> string \<Rightarrow>
      nat \<times> FlowPipelineResponse option" where
  "handleFlows visit flows dps datapathUUID =
    (if datapathUUID = [] then (400, None)
     else case flowsOf datapathUUID flows of
         Err err \<Rightarrow> (500, None)
       | Ok fs \<Rightarrow> (200, Some \<lparr>fp_DatapathUUID = datapathUUID, fp_DatapathName = resolveDatapathName dps datapathUUID,
            fp_Ingress = pipelineGroups visit ''ingress'' fs, fp_Egress = pipelineGroups visit ''egress'' fs\<rparr>))"

section \<open>The trace\<close>

record TraceFlowEntry =
  tfe_UUID :: string
  tfe_Priority :: int
  tfe_Match :: string
  tfe_Actions :: string
  tfe_Hint :: string
  tfe_Selected :: bool

record TraceStage =
  tst_Pipeline :: string
  tst_TableID :: int
  tst_TableName :: string
  tst_Flows :: "TraceFlowEntry list"

record TraceResponse =
  trs_ID :: string
  trs_PortUUID :: string
  trs_PortName :: string
  trs_DatapathUUID :: string
  trs_DatapathName :: string
  trs_DstIP :: string
  trs_Protocol :: string
  trs_Stages :: "TraceStage list"

definition classifyFlowMatch :: "string \<Rightarrow> int \<Rightarrow> string \<Rightarrow> string \<Rightarrow> string \<Rightarrow> string" where
  "classifyFlowMatch m priority portName dstIP protocol =
    (if priority = 0 then ''default''
     else let lower = ToLower m;
              hasPort = (portName \<noteq> [] \<and> Contains_str lower (ToLower portName));
              hasDstIP = (dstIP \<noteq> [] \<and> Contains_str m dstIP);
              hasProtocol = (protocol \<noteq> [] \<and> Contains_str lower (ToLower protocol))
          in if hasPort then ''likely''
             else if hasDstIP \<or> hasProtocol then ''possible''
             else if m = ''1'' then ''possible''
             else [])"

definition hintScore :: "string \<Rightarrow> int" where
  "hintScore hint = (if hint = ''likely'' then 3 else if hint = ''possible'' then 2 else if hint = ''default'' then 1 else 0)"

text \<open>The scan for the best flow: its index, none at first, and its score.\<close>

fun bestFlow :: "TraceFlowEntry list \<Rightarrow> nat \<Rightarrow> nat option \<times> int \<Rightarrow> nat option" where
  "bestFlow [] i best = fst best"
| "bestFlow (f # fs) i best =
    bestFlow fs (Suc i) (if hintScore (tfe_Hint f) > snd best then (Some i, hintScore (tfe_Hint f)) else best)"

definition selectBestMatch :: "TraceFlowEntry list \<Rightarrow> TraceFlowEntry list" where
  "selectBestMatch flows = (case bestFlow flows 0 (None, 0) of
     None \<Rightarrow> flows
   | Some i \<Rightarrow> flows[i := (flows ! i)\<lparr>tfe_Selected := True\<rparr>])"

definition traceFlow :: "string \<Rightarrow> string \<Rightarrow> string \<Rightarrow> LogicalFlow \<Rightarrow> TraceFlowEntry" where
  "traceFlow portName dstIP protocol f = \<lparr>tfe_UUID = lf_UUID f, tfe_Priority = lf_Priority f, tfe_Match = lf_Match f,
     tfe_Actions = lf_Actions f, tfe_Hint = classifyFlowMatch (lf_Match f) (lf_Priority f) portName dstIP protocol, tfe_Selected = False\<rparr>"

definition stageKey :: "LogicalFlow \<Rightarrow> string \<times> int" where
  "stageKey f = (lf_Pipeline f, lf_TableID f)"

text \<open>The first name that is not empty among the flows of a table.\<close>

definition traceNames :: "LogicalFlow list \<Rightarrow> (string \<times> int, string) gomap" where
  "traceNames flows = fold (\<lambda>f m. case map_of (lf_ExternalIDs f) ''stage-name'' of
     None \<Rightarrow> m
   | Some name \<Rightarrow> (case map_of m (stageKey f) of
       None \<Rightarrow> AList.update (stageKey f) name m
     | Some old \<Rightarrow> if old = [] then AList.update (stageKey f) name m else m)) flows []"

definition traceStage :: "string \<Rightarrow> string \<Rightarrow> string \<Rightarrow> (string \<times> int, string) gomap \<Rightarrow> (string \<times> int) \<times> LogicalFlow list \<Rightarrow> TraceStage" where
  "traceStage portName dstIP protocol tableNames kg = (case kg of (key, stageFlows) \<Rightarrow>
     let name = (case map_of tableNames key of None \<Rightarrow> [] | Some n \<Rightarrow> n)
     in \<lparr>tst_Pipeline = fst key, tst_TableID = snd key, tst_TableName = (if name = [] then OVNTableName (snd key) else name),
         tst_Flows = selectBestMatch (sort_slice (\<lambda>a b. tfe_Priority a > tfe_Priority b)
           (map (traceFlow portName dstIP protocol) stageFlows))\<rparr>)"

definition stage_before :: "TraceStage \<Rightarrow> TraceStage \<Rightarrow> bool" where
  "stage_before a b = (if tst_Pipeline a \<noteq> tst_Pipeline b then tst_Pipeline a = ''ingress'' else tst_TableID a < tst_TableID b)"

definition buildTraceStages ::
    "(((string \<times> int) \<times> LogicalFlow list) list \<Rightarrow> ((string \<times> int) \<times> LogicalFlow list) list) \<Rightarrow> LogicalFlow list \<Rightarrow>
      string \<Rightarrow> string \<Rightarrow> string \<Rightarrow> TraceStage list" where
  "buildTraceStages visit flows portName dstIP protocol =
    sort_slice stage_before (map (traceStage portName dstIP protocol (traceNames flows)) (visit (groupBy stageKey flows)))"

text \<open>The endpoint. A trace is kept only when asked for, under a fresh identifier; \<open>order\<close> and \<open>now\<close> are the store's.\<close>

definition handleTrace ::
    "(((string \<times> int) \<times> LogicalFlow list) list \<Rightarrow> ((string \<times> int) \<times> LogicalFlow list) list) \<Rightarrow>
     ((string, TraceResponse StoredTrace) gomap \<Rightarrow> (string, TraceResponse StoredTrace) gomap) \<Rightarrow> int \<Rightarrow> string \<Rightarrow>
     TopPB list result \<Rightarrow> DatapathBinding list result \<Rightarrow> LogicalFlow list result \<Rightarrow> string \<Rightarrow> string \<Rightarrow> string \<Rightarrow> string \<Rightarrow>
     TraceResponse TraceStore option \<Rightarrow> (nat \<times> TraceResponse option) \<times> TraceResponse TraceStore option" where
  "handleTrace visit order now freshID pbs dps flows portUUID dstIP protocol keep traceStore =
    (if portUUID = [] then ((400, None), traceStore)
     else case whereCache (\<lambda>pb. tb_UUID pb = portUUID) pbs of
         Err err \<Rightarrow> ((500, None), traceStore)
       | Ok [] \<Rightarrow> ((404, None), traceStore)
       | Ok (pb # _) \<Rightarrow> (case flowsOf (tb_Datapath pb) flows of
           Err err \<Rightarrow> ((500, None), traceStore)
         | Ok fs \<Rightarrow>
             (let resp = \<lparr>trs_ID = [], trs_PortUUID = portUUID, trs_PortName = tb_LogicalPort pb, trs_DatapathUUID = tb_Datapath pb,
                    trs_DatapathName = resolveDatapathName dps (tb_Datapath pb), trs_DstIP = dstIP, trs_Protocol = protocol,
                    trs_Stages = buildTraceStages visit fs (tb_LogicalPort pb) dstIP protocol\<rparr>
              in case traceStore of
                   None \<Rightarrow> ((200, Some resp), traceStore)
                 | Some s \<Rightarrow>
                     if keep = ''true''
                     then let resp = resp\<lparr>trs_ID := freshID\<rparr> in ((200, Some resp), Some (ts_Store order now freshID resp s))
                     else ((200, Some resp), traceStore))))"

section \<open>Export\<close>

datatype exported = ExJSON "TraceResponse StoredTrace" | ExText "(string \<times> arg list) list" | ExError string

definition exportFlow :: "TraceFlowEntry \<Rightarrow> string \<times> arg list" where
  "exportFlow f = (''  %spriority=%d match=%q actions=%q hint=%s'', [AStr (if tfe_Selected f then ''* '' else ''  ''),
     AInt (tfe_Priority f), AStr (tfe_Match f), AStr (tfe_Actions f), AStr (tfe_Hint f)])"

definition exportStage :: "TraceStage \<Rightarrow> (string \<times> arg list) list" where
  "exportStage st = (''[%s] Table %d: %s'', [AStr (tst_Pipeline st), AInt (tst_TableID st), AStr (tst_TableName st)])
     # map exportFlow (tst_Flows st) @ [([], [])]"

definition exportText :: "TraceResponse StoredTrace \<Rightarrow> (string \<times> arg list) list" where
  "exportText t = (let tr = st_Trace t in
     [(''Packet Trace: %s'', [AStr (st_ID t)]), (''Port: %s (%s)'', [AStr (trs_PortName tr), AStr (trs_PortUUID tr)]),
      (''Datapath: %s (%s)'', [AStr (trs_DatapathName tr), AStr (trs_DatapathUUID tr)])]
     @ (if trs_DstIP tr \<noteq> [] then [(''Destination IP: %s'', [AStr (trs_DstIP tr)])] else [])
     @ (if trs_Protocol tr \<noteq> [] then [(''Protocol: %s'', [AStr (trs_Protocol tr)])] else [])
     @ [([], []), (''--- Pipeline ---'', []), ([], [])]
     @ concat (map exportStage (trs_Stages tr)))"

definition inQuotes :: "string \<Rightarrow> string" where
  "inQuotes s = [CHR 0x27] @ s @ [CHR 0x27]"

definition handleExportTrace :: "int \<Rightarrow> string \<Rightarrow> string \<Rightarrow> TraceResponse TraceStore \<Rightarrow> nat \<times> exported" where
  "handleExportTrace now tid format store = (case ts_Get now tid store of
     None \<Rightarrow> (404, ExError ''trace not found or expired'')
   | Some t \<Rightarrow>
       (let format = (if format = [] then ''json'' else format)
        in if format = ''json'' then (200, ExJSON t)
           else if format = ''text'' then (200, ExText (exportText t))
           else (400, ExError (''format must be '' @ inQuotes ''json'' @ '' or '' @ inQuotes ''text''))))"

section \<open>What a trace shows\<close>

lemma bestFlow_spec:
  assumes "bestFlow fs i best = r" "snd best \<ge> 0" "fst best = None \<longleftrightarrow> snd best = 0"
  shows "(r = fst best \<and> (\<forall>f \<in> set fs. hintScore (tfe_Hint f) \<le> snd best))
    \<or> (\<exists>k < length fs. r = Some (i + k) \<and> hintScore (tfe_Hint (fs ! k)) > snd best
        \<and> (\<forall>f \<in> set fs. hintScore (tfe_Hint f) \<le> hintScore (tfe_Hint (fs ! k)))
        \<and> (\<forall>j < k. hintScore (tfe_Hint (fs ! j)) < hintScore (tfe_Hint (fs ! k))))"
  using assms
proof (induction fs i best rule: bestFlow.induct)
  case (2 f fs i best)
  show ?case
  proof (cases "hintScore (tfe_Hint f) > snd best")
    case True
    with 2 have "(r = Some i \<and> (\<forall>g \<in> set fs. hintScore (tfe_Hint g) \<le> hintScore (tfe_Hint f)))
      \<or> (\<exists>k < length fs. r = Some (Suc i + k) \<and> hintScore (tfe_Hint (fs ! k)) > hintScore (tfe_Hint f)
          \<and> (\<forall>g \<in> set fs. hintScore (tfe_Hint g) \<le> hintScore (tfe_Hint (fs ! k)))
          \<and> (\<forall>j < k. hintScore (tfe_Hint (fs ! j)) < hintScore (tfe_Hint (fs ! k))))"
      by auto
    then show ?thesis
    proof (elim disjE exE conjE)
      assume "r = Some i" "\<forall>g \<in> set fs. hintScore (tfe_Hint g) \<le> hintScore (tfe_Hint f)"
      with True show ?thesis by (intro disjI2 exI [of _ 0]) auto
    next
      fix k
      assume "k < length fs" "r = Some (Suc i + k)" "hintScore (tfe_Hint (fs ! k)) > hintScore (tfe_Hint f)"
        "\<forall>g \<in> set fs. hintScore (tfe_Hint g) \<le> hintScore (tfe_Hint (fs ! k))"
        "\<forall>j < k. hintScore (tfe_Hint (fs ! j)) < hintScore (tfe_Hint (fs ! k))"
      with True show ?thesis by (intro disjI2 exI [of _ "Suc k"]) (auto simp: less_Suc_eq_0_disj)
    qed
  next
    case False
    with 2 have "(r = fst best \<and> (\<forall>g \<in> set fs. hintScore (tfe_Hint g) \<le> snd best))
      \<or> (\<exists>k < length fs. r = Some (Suc i + k) \<and> hintScore (tfe_Hint (fs ! k)) > snd best
          \<and> (\<forall>g \<in> set fs. hintScore (tfe_Hint g) \<le> hintScore (tfe_Hint (fs ! k)))
          \<and> (\<forall>j < k. hintScore (tfe_Hint (fs ! j)) < hintScore (tfe_Hint (fs ! k))))"
      by auto
    then show ?thesis
    proof (elim disjE exE conjE)
      assume "r = fst best" "\<forall>g \<in> set fs. hintScore (tfe_Hint g) \<le> snd best"
      with False show ?thesis by auto
    next
      fix k
      assume "k < length fs" "r = Some (Suc i + k)" "hintScore (tfe_Hint (fs ! k)) > snd best"
        "\<forall>g \<in> set fs. hintScore (tfe_Hint g) \<le> hintScore (tfe_Hint (fs ! k))"
        "\<forall>j < k. hintScore (tfe_Hint (fs ! j)) < hintScore (tfe_Hint (fs ! k))"
      with False show ?thesis by (intro disjI2 exI [of _ "Suc k"]) (auto simp: less_Suc_eq_0_disj)
    qed
  qed
qed auto

text \<open>The flow a stage selects: the one with the best hint, the first of these in the order of the priorities.\<close>

definition selects :: "TraceFlowEntry list \<Rightarrow> nat \<Rightarrow> bool" where
  "selects fs k = (k < length fs \<and> hintScore (tfe_Hint (fs ! k)) > 0
    \<and> (\<forall>f \<in> set fs. hintScore (tfe_Hint f) \<le> hintScore (tfe_Hint (fs ! k)))
    \<and> (\<forall>j < k. hintScore (tfe_Hint (fs ! j)) < hintScore (tfe_Hint (fs ! k))))"

lemma selectBestMatch_spec:
  "(\<exists>k. selects fs k \<and> selectBestMatch fs = fs[k := (fs ! k)\<lparr>tfe_Selected := True\<rparr>])
   \<or> (\<forall>f \<in> set fs. hintScore (tfe_Hint f) \<le> 0) \<and> selectBestMatch fs = fs"
  using bestFlow_spec [of fs 0 "(None, 0)"] by (auto simp: selectBestMatch_def selects_def)

lemma hintScore_range: "0 \<le> hintScore h" "hintScore h \<le> 3"
  by (simp_all add: hintScore_def)

lemma selects_unique: "selects fs k \<Longrightarrow> selects fs j \<Longrightarrow> k = j"
  unfolding selects_def by (metis nat_neq_iff nth_mem not_le)

lemma selects_hints: "map tfe_Hint fs = map tfe_Hint gs \<Longrightarrow> selects fs k = selects gs k"
proof -
  assume h: "map tfe_Hint fs = map tfe_Hint gs"
  then have l: "length fs = length gs" by (metis length_map)
  have n: "tfe_Hint (fs ! i) = tfe_Hint (gs ! i)" if "i < length gs" for i using h l that by (metis nth_map)
  have "(\<forall>f \<in> set fs. hintScore (tfe_Hint f) \<le> s) \<longleftrightarrow> (\<forall>f \<in> set gs. hintScore (tfe_Hint f) \<le> s)" for s
    unfolding all_set_conv_all_nth l using n by simp
  with l n show ?thesis by (auto simp: selects_def)
qed

text \<open>Marking the best flow changes nothing else.\<close>

lemma selectBestMatch_marks:
  assumes "\<forall>f \<in> set fs. \<not> tfe_Selected f"
  shows "map (\<lambda>f. f\<lparr>tfe_Selected := False\<rparr>) (selectBestMatch fs) = fs"
    and "k < length fs \<Longrightarrow> tfe_Selected (selectBestMatch fs ! k) \<longleftrightarrow> selects (selectBestMatch fs) k"
proof -
  have id: "map (\<lambda>f. f\<lparr>tfe_Selected := False\<rparr>) fs = fs" using assms by (intro map_idI) simp
  from selectBestMatch_spec [of fs] show "map (\<lambda>f. f\<lparr>tfe_Selected := False\<rparr>) (selectBestMatch fs) = fs"
  proof (elim disjE exE conjE)
    fix k
    assume "selects fs k" "selectBestMatch fs = fs[k := (fs ! k)\<lparr>tfe_Selected := True\<rparr>]"
    then show ?thesis using id by (simp add: map_update) (metis list_update_id nth_map selects_def)
  qed (simp add: id)
  have hints: "map tfe_Hint (selectBestMatch fs) = map tfe_Hint fs"
    using selectBestMatch_spec [of fs] by (elim disjE exE conjE) (auto simp: map_update selects_def intro!: list_update_same_conv [THEN iffD2])
  assume k: "k < length fs"
  from selectBestMatch_spec [of fs] show "tfe_Selected (selectBestMatch fs ! k) \<longleftrightarrow> selects (selectBestMatch fs) k"
    unfolding selects_hints [OF hints]
  proof (elim disjE exE conjE)
    fix j
    assume j: "selects fs j" "selectBestMatch fs = fs[j := (fs ! j)\<lparr>tfe_Selected := True\<rparr>]"
    have "tfe_Selected (selectBestMatch fs ! k) \<longleftrightarrow> k = j"
      using assms k j by (cases "k = j") simp_all
    with j(1) selects_unique show "tfe_Selected (selectBestMatch fs ! k) \<longleftrightarrow> selects fs k" by metis
  next
    assume "\<forall>f \<in> set fs. hintScore (tfe_Hint f) \<le> 0" "selectBestMatch fs = fs"
    with assms k show "tfe_Selected (selectBestMatch fs ! k) \<longleftrightarrow> selects fs k" by (auto simp: selects_def not_less)
  qed
qed

text \<open>Sorting the stages.\<close>

lemma sort_slice_cong:
  assumes "\<And>x y. x \<in> set xs \<Longrightarrow> y \<in> set xs \<Longrightarrow> lt x y = lt' x y"
  shows "sort_slice lt xs = sort_slice lt' xs"
proof -
  have ins: "sort_insert lt x ys = sort_insert lt' x ys" if "\<And>y. y \<in> set ys \<Longrightarrow> lt x y = lt' x y" for x ys
    using that by (induction ys) auto
  have "foldl (\<lambda>acc x. sort_insert lt x acc) acc zs = foldl (\<lambda>acc x. sort_insert lt' x acc) acc zs"
    if "set acc \<union> set zs \<subseteq> set xs" for acc zs
    using that
  proof (induction zs arbitrary: acc)
    case (Cons z zs)
    have "sort_insert lt z acc = sort_insert lt' z acc" using Cons.prems assms by (intro ins) auto
    moreover have "set (sort_insert lt' z acc) \<union> set zs \<subseteq> set xs" using Cons.prems by (auto simp: set_sort_insert)
    ultimately show ?case using Cons.IH by simp
  qed simp
  then show ?thesis by (simp add: sort_slice_def)
qed

lemma sorted_wrt_strict:
  assumes "sorted_wrt le ys" "distinct (map f ys)"
    and "\<And>a b. a \<in> set ys \<Longrightarrow> b \<in> set ys \<Longrightarrow> le a b \<Longrightarrow> f a \<noteq> f b \<Longrightarrow> lt a b"
  shows "sorted_wrt lt ys"
  using assms
proof (induction ys)
  case (Cons y ys)
  then have "\<forall>z \<in> set ys. lt y z" by (auto simp: image_iff)
  with Cons show ?case by simp
qed simp

lemma sorted_stages:
  assumes "\<forall>s \<in> set xs. tst_Pipeline s \<in> {''ingress'', ''egress''}" "distinct (map (\<lambda>s. (tst_Pipeline s, tst_TableID s)) xs)"
  shows "sorted_wrt stage_before (sort_slice stage_before xs)"
proof -
  define bef :: "TraceStage \<Rightarrow> TraceStage \<Rightarrow> bool" where
    "bef a b = (if (tst_Pipeline a = ''ingress'') \<noteq> (tst_Pipeline b = ''ingress'') then tst_Pipeline a = ''ingress''
      else tst_TableID a < tst_TableID b)" for a b
  have agree: "stage_before a b = bef a b" if "a \<in> set xs" "b \<in> set xs" for a b
  proof -
    have "tst_Pipeline a \<in> {''ingress'', ''egress''}" "tst_Pipeline b \<in> {''ingress'', ''egress''}" using assms(1) that by blast+
    then show ?thesis by (auto simp: stage_before_def bef_def)
  qed
  have eq: "sort_slice stage_before xs = sort_slice bef xs" by (rule sort_slice_cong [OF agree])
  have "sorted_wrt (\<lambda>a b. \<not> bef b a) (sort_slice bef xs)"
    by (rule sorted_sort_slice_wrt) (auto simp: bef_def split: if_splits)
  moreover have "distinct (map (\<lambda>s. (tst_Pipeline s, tst_TableID s)) (sort_slice bef xs))"
    using assms(2) by (metis mset_map mset_sort_slice mset_eq_imp_distinct_iff)
  ultimately show ?thesis
    unfolding eq
  proof (rule sorted_wrt_strict)
    fix a b
    assume ab: "a \<in> set (sort_slice bef xs)" "b \<in> set (sort_slice bef xs)" "\<not> bef b a"
      "(tst_Pipeline a, tst_TableID a) \<noteq> (tst_Pipeline b, tst_TableID b)"
    then have "tst_Pipeline a \<in> {''ingress'', ''egress''}" "tst_Pipeline b \<in> {''ingress'', ''egress''}" using assms(1) by simp_all
    then show "stage_before a b" using ab(3,4) by (auto simp: bef_def stage_before_def split: if_splits)
  qed
qed


text \<open>Two ingress tables and one flow of the egress pipeline.\<close>

definition flowExample :: "string \<Rightarrow> string \<Rightarrow> int \<Rightarrow> int \<Rightarrow> string \<Rightarrow> LogicalFlow" where
  "flowExample u pipeline t prio m = \<lparr>lf_UUID = u, lf_LogicalDatapath = Some ''d'', lf_LogicalDpGroup = None, lf_Pipeline = pipeline,
     lf_TableID = t, lf_Priority = prio, lf_Match = m, lf_Actions = ''next;'', lf_ExternalIDs = []\<rparr>"

definition flowsExample :: "LogicalFlow list" where
  "flowsExample = [flowExample ''e'' ''egress'' 0 0 ''1'', flowExample ''b'' ''ingress'' 0 0 ''1'', flowExample ''a'' ''ingress'' 0 50 ''inport == p1'',
     flowExample ''c'' ''ingress'' 1 0 ''1'']"


text \<open>
  A flow that applies to several datapaths names a group of them and no single one. Such flows, which is how recent versions
  of OVN write most of them, are neither listed nor traced for any datapath.
\<close>

lemma group_flows_omitted:
  "flowsOf d (Ok flows) = Ok fs \<Longrightarrow> f \<in> set flows \<Longrightarrow> lf_LogicalDatapath f = None \<Longrightarrow> f \<notin> set fs"
  by (auto simp: flowsOf_def whereCache_def)

end
