(* ===== verification/Correlate.thy ===== *)
theory Correlate
  imports NW_Columns
begin

text \<open>
  \<^verbatim>\<open>internal/correlate/correlate.go\<close> and \<^verbatim>\<open>internal/ovscorrelate/ovscorrelate.go\<close>: joining what the northbound database
  intends with what the southbound database realizes, and a live OVS interface with its port binding.

  \<^item> The two databases are a record of listings, each of which may fail; a failed listing is logged and read as empty where
    the code does so.
  \<^item> Results hold the rows themselves, where the code holds their rendering by \<^verbatim>\<open>ModelToMap\<close>.
\<close>

section \<open>Rows and results\<close>

record CorPort =
  cx_UUID :: string
  cx_Name :: string

text \<open>A logical switch or router with its ports; a switch has no NAT entries.\<close>

record CorParent =
  cq_UUID :: string
  cq_Ports :: "string list"
  cq_Nat :: "string list"

record CorBinding =
  cbn_UUID :: string
  cbn_LogicalPort :: string
  cbn_Type :: string
  cbn_Up :: "bool option"
  cbn_Chassis :: "string option"
  cbn_Datapath :: string

record CorChassis =
  cch_UUID :: string
  cch_Name :: string
  cch_Encaps :: "string list"

record cor_view =
  crv_lsps :: "CorPort list result"
  crv_lrps :: "CorPort list result"
  crv_switches :: "CorParent list result"
  crv_routers :: "CorParent list result"
  crv_nats :: "string list result"
  crv_bindings :: "CorBinding list result"
  crv_chassis :: "CorChassis list result"
  crv_privates :: "string list result"
  crv_encaps :: "string list result"
  crv_datapaths :: "DatapathBinding list result"

record PortBindingChain =
  ch_LSP :: "CorPort option"
  ch_LRP :: "CorPort option"
  ch_PortBinding :: "CorBinding option"
  ch_Chassis :: "CorChassis option"
  ch_Encaps :: "string list"
  ch_Datapath :: "DatapathBinding option"
  ch_ParentSwitch :: "CorParent option"
  ch_ParentRouter :: "CorParent option"

record SwitchCorrelated =
  sw_Switch :: CorParent
  sw_Datapath :: "DatapathBinding option"
  sw_Ports :: "PortBindingChain list"

record RouterCorrelated =
  rc_Router :: CorParent
  rc_Datapath :: "DatapathBinding option"
  rc_Ports :: "PortBindingChain list"
  rc_NATs :: "string list"

record ChassisCorrelated =
  ccd_Chassis :: CorChassis
  ccd_ChassisPrivate :: "string option"
  ccd_Encaps :: "string list"
  ccd_PortBindings :: "CorBinding list"

section \<open>Lookups\<close>

definition emptyChain :: PortBindingChain where
  "emptyChain = \<lparr>ch_LSP = None, ch_LRP = None, ch_PortBinding = None, ch_Chassis = None, ch_Encaps = [], ch_Datapath = None,
     ch_ParentSwitch = None, ch_ParentRouter = None\<rparr>"

definition findBinding :: "cor_view \<Rightarrow> string \<Rightarrow> CorBinding option" where
  "findBinding v logicalPort = firstWhere (\<lambda>pb. cbn_LogicalPort pb = logicalPort) (crv_bindings v)"

definition findDatapathForSwitch :: "cor_view \<Rightarrow> string \<Rightarrow> DatapathBinding option" where
  "findDatapathForSwitch v u = firstWhere (\<lambda>dp. strAt (dp_ExternalIDs dp) ''logical-switch'' = u) (crv_datapaths v)"

definition findDatapathForRouter :: "cor_view \<Rightarrow> string \<Rightarrow> DatapathBinding option" where
  "findDatapathForRouter v u = firstWhere (\<lambda>dp. strAt (dp_ExternalIDs dp) ''logical-router'' = u) (crv_datapaths v)"

definition encapsOf :: "cor_view \<Rightarrow> CorChassis \<Rightarrow> string list" where
  "encapsOf v ch = List.map_filter (\<lambda>u. getRow (\<lambda>e. e) u (crv_encaps v)) (cch_Encaps ch)"

definition parentOf :: "CorParent list result \<Rightarrow> string \<Rightarrow> CorParent option" where
  "parentOf parents portUUID = firstWhere (\<lambda>p. portUUID \<in> set (cq_Ports p)) parents"

definition resolveBindingDetails :: "cor_view \<Rightarrow> CorBinding \<Rightarrow> PortBindingChain \<Rightarrow> PortBindingChain" where
  "resolveBindingDetails v pb chain =
    (let chain = (case cbn_Chassis pb of
           None \<Rightarrow> chain
         | Some u \<Rightarrow> if u = [] then chain
             else (case getRow cch_UUID u (crv_chassis v) of
                 None \<Rightarrow> chain
               | Some ch \<Rightarrow> chain\<lparr>ch_Chassis := Some ch, ch_Encaps := ch_Encaps chain @ encapsOf v ch\<rparr>))
     in case getRow dp_UUID (cbn_Datapath pb) (crv_datapaths v) of
          None \<Rightarrow> chain
        | Some dp \<Rightarrow> chain\<lparr>ch_Datapath := Some dp\<rparr>)"

definition withBinding :: "cor_view \<Rightarrow> CorBinding option \<Rightarrow> PortBindingChain \<Rightarrow> PortBindingChain" where
  "withBinding v b chain = (case b of
     None \<Rightarrow> chain
   | Some pb \<Rightarrow> resolveBindingDetails v pb (chain\<lparr>ch_PortBinding := Some pb\<rparr>))"

definition lspChain :: "cor_view \<Rightarrow> CorPort \<Rightarrow> PortBindingChain" where
  "lspChain v lsp = withBinding v (findBinding v (cx_Name lsp)) (emptyChain\<lparr>ch_LSP := Some lsp\<rparr>)"

definition lrpChain :: "cor_view \<Rightarrow> CorPort \<Rightarrow> PortBindingChain" where
  "lrpChain v lrp = withBinding v
     (case findBinding v (cx_Name lrp) of None \<Rightarrow> findBinding v (''cr-'' @ cx_Name lrp) | Some pb \<Rightarrow> Some pb)
     (emptyChain\<lparr>ch_LRP := Some lrp\<rparr>)"

section \<open>Views\<close>

definition SwitchSummary :: "cor_view \<Rightarrow> CorParent \<Rightarrow> SwitchCorrelated" where
  "SwitchSummary v ls = \<lparr>sw_Switch = ls, sw_Datapath = findDatapathForSwitch v (cq_UUID ls), sw_Ports = []\<rparr>"

definition SwitchDetail :: "cor_view \<Rightarrow> string \<Rightarrow> SwitchCorrelated result" where
  "SwitchDetail v u = (case cacheGet cq_UUID u (crv_switches v) of
     Err err \<Rightarrow> Err err
   | Ok ls \<Rightarrow> Ok \<lparr>sw_Switch = ls, sw_Datapath = findDatapathForSwitch v u,
       sw_Ports = List.map_filter (\<lambda>p. map_option (lspChain v) (getRow cx_UUID p (crv_lsps v))) (cq_Ports ls)\<rparr>)"

definition RouterSummary :: "cor_view \<Rightarrow> CorParent \<Rightarrow> RouterCorrelated" where
  "RouterSummary v lr = \<lparr>rc_Router = lr, rc_Datapath = findDatapathForRouter v (cq_UUID lr), rc_Ports = [], rc_NATs = []\<rparr>"

definition RouterDetail :: "cor_view \<Rightarrow> string \<Rightarrow> RouterCorrelated result" where
  "RouterDetail v u = (case cacheGet cq_UUID u (crv_routers v) of
     Err err \<Rightarrow> Err err
   | Ok lr \<Rightarrow> Ok \<lparr>rc_Router = lr, rc_Datapath = findDatapathForRouter v u,
       rc_Ports = List.map_filter (\<lambda>p. map_option (lrpChain v) (getRow cx_UUID p (crv_lrps v))) (cq_Ports lr),
       rc_NATs = List.map_filter (\<lambda>n. getRow (\<lambda>x. x) n (crv_nats v)) (cq_Nat lr)\<rparr>)"

definition LSPDetail :: "cor_view \<Rightarrow> string \<Rightarrow> PortBindingChain result" where
  "LSPDetail v u = (case cacheGet cx_UUID u (crv_lsps v) of
     Err err \<Rightarrow> Err err
   | Ok lsp \<Rightarrow> (let chain = lspChain v lsp
       in case parentOf (crv_switches v) u of
            None \<Rightarrow> Ok chain
          | Some ls \<Rightarrow> Ok (chain\<lparr>ch_ParentSwitch := Some ls\<rparr>)))"

definition LRPDetail :: "cor_view \<Rightarrow> string \<Rightarrow> PortBindingChain result" where
  "LRPDetail v u = (case cacheGet cx_UUID u (crv_lrps v) of
     Err err \<Rightarrow> Err err
   | Ok lrp \<Rightarrow> (let chain = lrpChain v lrp
       in case parentOf (crv_routers v) u of
            None \<Rightarrow> Ok chain
          | Some lr \<Rightarrow> Ok (chain\<lparr>ch_ParentRouter := Some lr\<rparr>)))"

definition cor_ChassisSummary :: "cor_view \<Rightarrow> CorChassis \<Rightarrow> ChassisCorrelated" where
  "cor_ChassisSummary v ch = \<lparr>ccd_Chassis = ch, ccd_ChassisPrivate = None, ccd_Encaps = encapsOf v ch, ccd_PortBindings = []\<rparr>"

definition cor_ChassisDetail :: "cor_view \<Rightarrow> string \<Rightarrow> ChassisCorrelated result" where
  "cor_ChassisDetail v u = (case cacheGet cch_UUID u (crv_chassis v) of
     Err err \<Rightarrow> Err err
   | Ok ch \<Rightarrow> Ok \<lparr>ccd_Chassis = ch, ccd_ChassisPrivate = firstWhere (\<lambda>n. n = cch_Name ch) (crv_privates v),
       ccd_Encaps = encapsOf v ch, ccd_PortBindings = allWhere (\<lambda>pb. cbn_Chassis pb = Some u) (crv_bindings v)\<rparr>)"

definition PortBindingDetail :: "cor_view \<Rightarrow> string \<Rightarrow> PortBindingChain result" where
  "PortBindingDetail v u = (case cacheGet cbn_UUID u (crv_bindings v) of
     Err err \<Rightarrow> Err err
   | Ok pb \<Rightarrow>
       (let chain = resolveBindingDetails v pb (emptyChain\<lparr>ch_PortBinding := Some pb\<rparr>)
        in case firstWhere (\<lambda>lsp. cx_Name lsp = cbn_LogicalPort pb) (crv_lsps v) of
             Some lsp \<Rightarrow>
               (let chain = chain\<lparr>ch_LSP := Some lsp\<rparr>
                in case parentOf (crv_switches v) (cx_UUID lsp) of
                     None \<Rightarrow> Ok chain
                   | Some ls \<Rightarrow> Ok (chain\<lparr>ch_ParentSwitch := Some ls\<rparr>))
           | None \<Rightarrow> (case firstWhere (\<lambda>lrp. cx_Name lrp = cbn_LogicalPort pb) (crv_lrps v) of
               None \<Rightarrow> Ok chain
             | Some lrp \<Rightarrow>
                 (let chain = chain\<lparr>ch_LRP := Some lrp\<rparr>
                  in case parentOf (crv_routers v) (cx_UUID lrp) of
                       None \<Rightarrow> Ok chain
                     | Some lr \<Rightarrow> Ok (chain\<lparr>ch_ParentRouter := Some lr\<rparr>)))))"

section \<open>Live interfaces\<close>

record LiveInterface =
  li_SystemID :: string
  li_IfaceID :: string
  li_LinkState :: string
  li_Error :: string

record OvsBinding =
  ob_UUID :: string
  ob_LogicalPort :: string
  ob_Type :: string
  ob_Up :: "bool option"
  ob_Chassis :: string
  ob_BoundHere :: bool
  ob_Datapath :: string
  ob_DatapathUUID :: string

record Correlation =
  co_IfaceID :: string
  co_Bound :: bool
  co_Binding :: "OvsBinding option"
  co_Drift :: "(string \<times> arg list) list"

definition datapathLabel :: "DatapathBinding \<Rightarrow> string" where
  "datapathLabel dp =
    (let name = strAt (dp_ExternalIDs dp) ''name''; name2 = strAt (dp_ExternalIDs dp) ''name2''
     in if name \<noteq> [] then name else if name2 \<noteq> [] then name2 else ''tunnel_key '' @ Itoa (dp_TunnelKey dp))"

definition drift :: "CorBinding \<Rightarrow> LiveInterface \<Rightarrow> (string \<times> arg list) list" where
  "drift pb live =
    (if cbn_Up pb \<noteq> Some True then []
     else (if li_LinkState live = ''down'' then [(''SB reports the port up but the OVS interface link_state is down'', [])] else [])
        @ (if li_Error live \<noteq> [] then [(''SB reports the port up but the OVS interface reports error: %s'', [AStr (li_Error live)])] else []))"

definition resolveChassis :: "cor_view \<Rightarrow> CorBinding \<Rightarrow> string \<Rightarrow> OvsBinding \<Rightarrow> OvsBinding" where
  "resolveChassis v pb systemID b = (case cbn_Chassis pb of
     None \<Rightarrow> b
   | Some u \<Rightarrow> if u = [] then b
       else (case getRow cch_UUID u (crv_chassis v) of
           None \<Rightarrow> b
         | Some ch \<Rightarrow> b\<lparr>ob_Chassis := cch_Name ch, ob_BoundHere := (cch_Name ch = systemID)\<rparr>))"

definition resolveDatapath :: "cor_view \<Rightarrow> CorBinding \<Rightarrow> OvsBinding \<Rightarrow> OvsBinding" where
  "resolveDatapath v pb b =
    (if cbn_Datapath pb = [] then b
     else let b = b\<lparr>ob_DatapathUUID := cbn_Datapath pb\<rparr>
          in case getRow dp_UUID (cbn_Datapath pb) (crv_datapaths v) of
               None \<Rightarrow> b
             | Some dp \<Rightarrow> b\<lparr>ob_Datapath := datapathLabel dp\<rparr>)"

definition ForInterface :: "cor_view \<Rightarrow> LiveInterface \<Rightarrow> Correlation result" where
  "ForInterface v live =
    (if li_IfaceID live = [] then Ok \<lparr>co_IfaceID = [], co_Bound = False, co_Binding = None, co_Drift = []\<rparr>
     else case cacheGet cbn_LogicalPort (li_IfaceID live) (crv_bindings v) of
         Err err \<Rightarrow>
           if errors_Is err ErrNotFound
           then Ok \<lparr>co_IfaceID = li_IfaceID live, co_Bound = False, co_Binding = None, co_Drift = []\<rparr>
           else Err (Wrapf ''getting port binding for iface-id %s: %w'' [AStr (li_IfaceID live)] err)
       | Ok pb \<Rightarrow>
           (let b = \<lparr>ob_UUID = cbn_UUID pb, ob_LogicalPort = cbn_LogicalPort pb, ob_Type = cbn_Type pb, ob_Up = cbn_Up pb,
                  ob_Chassis = [], ob_BoundHere = False, ob_Datapath = [], ob_DatapathUUID = []\<rparr>;
                b = resolveDatapath v pb (resolveChassis v pb (li_SystemID live) b)
            in Ok \<lparr>co_IfaceID = li_IfaceID live, co_Bound = True, co_Binding = Some b, co_Drift = drift pb live\<rparr>))"

section \<open>All views tell the same story\<close>

lemma find_distinct:
  assumes "distinct (map f xs)" "x \<in> set xs"
  shows "find (\<lambda>y. f y = f x) xs = Some x"
  using assms by (induction xs) (auto simp: image_iff)

lemma firstWhere_distinct: "distinct (map f xs) \<Longrightarrow> x \<in> set xs \<Longrightarrow> firstWhere (\<lambda>y. f y = f x) (Ok xs) = Some x"
  by (simp add: firstWhere_find find_distinct)

lemma cacheGet_Ok: "cacheGet f u rows = Ok r \<Longrightarrow> f r = u \<and> (\<exists>rs. rows = Ok rs \<and> r \<in> set rs)"
  by (auto simp: cacheGet_def find_Some_iff split: sum.splits option.splits)

lemma findBinding_Some:
  "findBinding v n = Some pb \<Longrightarrow> cbn_LogicalPort pb = n \<and> (\<exists>pbs. crv_bindings v = Ok pbs \<and> pb \<in> set pbs)"
  unfolding findBinding_def by (drule firstWhere_Some) simp

text \<open>What resolving a binding adds does not depend on the rest of the chain.\<close>

lemma resolveBindingDetails_fields:
  "ch_PortBinding (resolveBindingDetails v pb chain) = ch_PortBinding chain"
  "ch_LSP (resolveBindingDetails v pb chain) = ch_LSP chain"
  "ch_LRP (resolveBindingDetails v pb chain) = ch_LRP chain"
  "resolveBindingDetails v pb (chain\<lparr>ch_LSP := x\<rparr>) = (resolveBindingDetails v pb chain)\<lparr>ch_LSP := x\<rparr>"
  "resolveBindingDetails v pb (chain\<lparr>ch_LRP := x\<rparr>) = (resolveBindingDetails v pb chain)\<lparr>ch_LRP := x\<rparr>"
  by (simp_all add: resolveBindingDetails_def split: option.split)

lemma resolveBindingDetails_chassis:
  assumes "ch_Chassis (resolveBindingDetails v pb chain) = Some c" "ch_Chassis chain = None" "ch_Encaps chain = []"
  shows "cbn_Chassis pb = Some (cch_UUID c) \<and> cch_UUID c \<noteq> [] \<and> cacheGet cch_UUID (cch_UUID c) (crv_chassis v) = Ok c
    \<and> ch_Encaps (resolveBindingDetails v pb chain) = encapsOf v c"
proof (cases "cbn_Chassis pb")
  case None
  with assms(1,2) show ?thesis by (simp add: resolveBindingDetails_def split: option.splits)
next
  case (Some u)
  have u: "u \<noteq> []" "getRow cch_UUID u (crv_chassis v) = Some c"
    using assms(1,2) Some by (auto simp: resolveBindingDetails_def split: option.splits if_splits)
  then have "cacheGet cch_UUID u (crv_chassis v) = Ok c" by (simp add: getRow_def split: sum.splits)
  moreover from cacheGet_Ok [OF this] have "cch_UUID c = u" by simp
  ultimately show ?thesis using Some u assms(3) by (simp add: resolveBindingDetails_def split: option.split)
qed

definition chainOf :: "cor_view \<Rightarrow> CorPort \<Rightarrow> CorBinding \<Rightarrow> PortBindingChain" where
  "chainOf v lsp pb = (let chain = resolveBindingDetails v pb (emptyChain\<lparr>ch_LSP := Some lsp, ch_PortBinding := Some pb\<rparr>)
     in case parentOf (crv_switches v) (cx_UUID lsp) of None \<Rightarrow> chain | Some ls \<Rightarrow> chain\<lparr>ch_ParentSwitch := Some ls\<rparr>)"

lemma LSPDetail_bound:
  assumes "LSPDetail v u = Ok chain" "ch_PortBinding chain = Some pb"
  shows "\<exists>lsp. cacheGet cx_UUID u (crv_lsps v) = Ok lsp \<and> findBinding v (cx_Name lsp) = Some pb \<and> chain = chainOf v lsp pb"
proof -
  from assms(1) obtain lsp where l: "cacheGet cx_UUID u (crv_lsps v) = Ok lsp" by (auto simp: LSPDetail_def split: sum.splits)
  then have u: "cx_UUID lsp = u" using cacheGet_Ok by metis
  have c: "chain = (case parentOf (crv_switches v) u of None \<Rightarrow> lspChain v lsp | Some ls \<Rightarrow> (lspChain v lsp)\<lparr>ch_ParentSwitch := Some ls\<rparr>)"
    using assms(1) l by (simp add: LSPDetail_def split: option.splits)
  then have "ch_PortBinding (lspChain v lsp) = Some pb" using assms(2) by (simp split: option.splits)
  then have b: "findBinding v (cx_Name lsp) = Some pb"
    by (cases "findBinding v (cx_Name lsp)") (simp_all add: lspChain_def withBinding_def emptyChain_def resolveBindingDetails_fields)
  then have "lspChain v lsp = resolveBindingDetails v pb (emptyChain\<lparr>ch_LSP := Some lsp, ch_PortBinding := Some pb\<rparr>)"
    by (simp add: lspChain_def withBinding_def)
  then have "chain = chainOf v lsp pb" using c u by (simp add: chainOf_def split: option.split)
  with l b show ?thesis by blast
qed


text \<open>A port of one switch, bound on a chassis with one tunnel endpoint.\<close>

definition corExample :: cor_view where
  "corExample = \<lparr>crv_lsps = Ok [\<lparr>cx_UUID = ''l'', cx_Name = ''vm1''\<rparr>], crv_lrps = Ok [\<lparr>cx_UUID = ''q'', cx_Name = ''gw''\<rparr>],
     crv_switches = Ok [\<lparr>cq_UUID = ''s'', cq_Ports = [''l''], cq_Nat = []\<rparr>],
     crv_routers = Ok [\<lparr>cq_UUID = ''r'', cq_Ports = [''q''], cq_Nat = []\<rparr>], crv_nats = Ok [],
     crv_bindings = Ok [\<lparr>cbn_UUID = ''b'', cbn_LogicalPort = ''vm1'', cbn_Type = [], cbn_Up = Some True, cbn_Chassis = Some ''c'', cbn_Datapath = ''d''\<rparr>,
       \<lparr>cbn_UUID = ''bq'', cbn_LogicalPort = ''gw'', cbn_Type = ''patch'', cbn_Up = None, cbn_Chassis = None, cbn_Datapath = ''e''\<rparr>,
       \<lparr>cbn_UUID = ''bcr'', cbn_LogicalPort = ''cr-gw'', cbn_Type = ''chassisredirect'', cbn_Up = None, cbn_Chassis = Some ''c'', cbn_Datapath = ''e''\<rparr>],
     crv_chassis = Ok [\<lparr>cch_UUID = ''c'', cch_Name = ''node'', cch_Encaps = [''t'']\<rparr>], crv_privates = Ok [], crv_encaps = Ok [''t''],
     crv_datapaths = Ok []\<rparr>"


text \<open>
  The binding of a gateway router port that has the chassis is the one whose name starts with \<^verbatim>\<open>cr-\<close>. The port also has a
  binding under its own name, without a chassis, and that is the one the chain takes: the other is tried only when there is
  none. So the router port shows no chassis, and the binding that has one shows no router port.
\<close>

lemma gateway_port_without_chassis:
  "ch_Chassis (projr (LRPDetail corExample ''q'')) = None"
  "ch_Chassis (projr (PortBindingDetail corExample ''bcr'')) = Some \<lparr>cch_UUID = ''c'', cch_Name = ''node'', cch_Encaps = [''t'']\<rparr>"
  "ch_LRP (projr (PortBindingDetail corExample ''bcr'')) = None"
  by code_simp+

end
