(* ===== verification/Api_Server.thy ===== *)
theory Api_Server
  imports Api_Auth Cluster_Registry
begin

text \<open>
  The HTTP server around the handlers: \<^verbatim>\<open>internal/api/server.go\<close>, \<^verbatim>\<open>deadline.go\<close>, \<^verbatim>\<open>recover.go\<close>, \<^verbatim>\<open>response.go\<close>,
  \<^verbatim>\<open>internal/telemetry/middleware.go\<close> and \<^verbatim>\<open>internal/api/handler/cluster_proxy.go\<close>, chained as in \<^verbatim>\<open>run\<close> of
  \<^verbatim>\<open>cmd/northwatch/main.go\<close>: authentication, deadline, metrics, recovery, stale marker, mux.

  \<^item> A handler gets the name of the token that authenticated the request, the request and the state of the application, and
    replies with what it does to the response writer, how it ends and the pattern the mux matched (\<^verbatim>\<open>r.Pattern\<close>).
  \<^item> The writer is that of \<^verbatim>\<open>net/http\<close>: the first status wins, writing a body implies status 200, and headers set after that
    are not sent. Handlers write final statuses only.
  \<^item> Paths are not percent-encoded. Durations are not measured, so the histogram has the labels of the counter.
\<close>

section \<open>Replies\<close>

datatype 'b payload = ErrorMsg string | Payload 'b

datatype 'b wact = HSet string string | WHeader int | WBody "'b payload" | SetWriteDeadline int | ClearDeadlines

datatype outcome = Returned | Panicked string | AbortHandler

record 'b reply =
  re_acts :: "'b wact list"
  re_out :: outcome
  re_pattern :: string

type_synonym ('b, 's) handler = "string option \<Rightarrow> Request \<Rightarrow> 's \<Rightarrow> 'b reply \<times> 's"

definition WriteJSON :: "int \<Rightarrow> 'b payload \<Rightarrow> 'b wact list" where
  "WriteJSON status v = [HSet ''Content-Type'' ''application/json'', WHeader status, WBody v]"

definition WriteError :: "int \<Rightarrow> string \<Rightarrow> 'b wact list" where
  "WriteError status msg = WriteJSON status (ErrorMsg msg)"

text \<open>The writer of \<^verbatim>\<open>net/http\<close>.\<close>

record 'b writer =
  wr_status :: "int option"
  wr_header :: "(string, string) gomap"
  wr_body :: "'b payload list"
  wr_deadline :: "int option"

definition newWriter :: "'b writer" where
  "newWriter = \<lparr>wr_status = None, wr_header = [], wr_body = [], wr_deadline = None\<rparr>"

fun wr_act :: "'b wact \<Rightarrow> 'b writer \<Rightarrow> 'b writer" where
  "wr_act (HSet k v) w = (if wr_status w = None then w\<lparr>wr_header := AList.update k v (wr_header w)\<rparr> else w)"
| "wr_act (WHeader status) w = (if wr_status w = None then w\<lparr>wr_status := Some status\<rparr> else w)"
| "wr_act (WBody b) w =
     w\<lparr>wr_status := (if wr_status w = None then Some 200 else wr_status w), wr_body := wr_body w @ [b]\<rparr>"
| "wr_act (SetWriteDeadline t) w = w\<lparr>wr_deadline := Some t\<rparr>"
| "wr_act ClearDeadlines w = w\<lparr>wr_deadline := None\<rparr>"

definition sent :: "'b wact list \<Rightarrow> 'b writer \<Rightarrow> 'b writer" where
  "sent acts w = fold wr_act acts w"

text \<open>What the client gets: a handler that writes nothing is answered with 200.\<close>

definition answered :: "'b reply \<Rightarrow> int" where
  "answered rep = (case wr_status (sent (re_acts rep) newWriter) of None \<Rightarrow> 200 | Some s \<Rightarrow> s)"

section \<open>Middleware\<close>

definition RecoverMiddleware :: "('b, 's) handler \<Rightarrow> ('b, 's) handler" where
  "RecoverMiddleware next actor r s =
    (let (rep, s) = next actor r s
     in case re_out rep of
          Panicked _ \<Rightarrow> (rep\<lparr>re_acts := re_acts rep @ WriteError 500 ''internal server error'', re_out := Returned\<rparr>, s)
        | _ \<Rightarrow> (rep, s))"

definition staleHeader :: string where
  "staleHeader = ''X-Northwatch-Stale''"

definition staleHeaderMiddleware :: "('s \<Rightarrow> bool) option \<Rightarrow> ('b, 's) handler \<Rightarrow> ('b, 's) handler" where
  "staleHeaderMiddleware ready next actor r s =
    (let stale = (case ready of None \<Rightarrow> False | Some isReady \<Rightarrow>
           HasPrefix (rq_Path r) ''/api/v1/'' \<and> \<not> HasPrefix (rq_Path r) ''/api/v1/clusters/'' \<and> \<not> isReady s);
         (rep, s) = next actor r s
     in (if stale then rep\<lparr>re_acts := HSet staleHeader ''true'' # re_acts rep\<rparr> else rep, s))"

definition HasSuffix :: "string \<Rightarrow> string \<Rightarrow> bool" where
  "HasSuffix s p = HasPrefix (rev s) (rev p)"

definition isWebSocketPath :: "string \<Rightarrow> bool" where
  "isWebSocketPath path = (path = ''/api/v1/ws'' \<or> (HasPrefix path ''/api/v1/clusters/'' \<and> HasSuffix path ''/ws''))"

definition DeadlineMiddleware :: "int \<Rightarrow> int \<Rightarrow> ('b, 's) handler \<Rightarrow> ('b, 's) handler" where
  "DeadlineMiddleware writeTimeout now next actor r s =
    (let (rep, s) = next actor r s
     in (rep\<lparr>re_acts := (if isWebSocketPath (rq_Path r) then ClearDeadlines else SetWriteDeadline (now + writeTimeout)) # re_acts rep\<rparr>, s))"

subsection \<open>Metrics\<close>

type_synonym metrics = "(string \<times> string \<times> string, int) gomap"

definition unmatchedLabel :: string where
  "unmatchedLabel = ''unmatched''"

definition routeLabel :: "string \<Rightarrow> string" where
  "routeLabel pattern =
    (if pattern = [] then unmatchedLabel
     else case cutByte (CHR '' '') pattern of Some (meth, path) \<Rightarrow> path | None \<Rightarrow> pattern)"

text \<open>The writer the middleware puts in front, which remembers the status.\<close>

record responseWriter =
  rw_status :: int
  rw_wroteHeader :: bool

fun rw_act :: "'b wact \<Rightarrow> responseWriter \<Rightarrow> responseWriter" where
  "rw_act (WHeader code) rw = (if \<not> rw_wroteHeader rw then \<lparr>rw_status = code, rw_wroteHeader = True\<rparr> else rw)"
| "rw_act (WBody b) rw = (if \<not> rw_wroteHeader rw then rw\<lparr>rw_wroteHeader := True\<rparr> else rw)"
| "rw_act _ rw = rw"

text \<open>What follows \<^verbatim>\<open>next.ServeHTTP\<close> is not reached when the handler aborts.\<close>

definition metricsWrap :: "('b, 's) handler \<Rightarrow> ('b, metrics \<times> 's) handler" where
  "metricsWrap next actor r ms =
    (let (rep, s) = next actor r (snd ms);
         rw = fold rw_act (re_acts rep) \<lparr>rw_status = 200, rw_wroteHeader = False\<rparr>
     in if re_out rep = Returned
        then (rep, bump (rq_Method r, routeLabel (re_pattern rep), Itoa (rw_status rw)) (fst ms), s)
        else (rep, fst ms, s))"

subsection \<open>Authentication\<close>

text \<open>The middleware of \<open>Api_Auth\<close> around a handler; without tokens it is not installed.\<close>

definition authWrap ::
    "(string \<Rightarrow> 'd) \<Rightarrow> (string, string) gomap \<Rightarrow> int \<Rightarrow> int \<Rightarrow> ('b, 's) handler \<Rightarrow> ('b, authThrottle \<times> 's) handler" where
  "authWrap sha tokens now now' next actor r ts =
    (let (outcome, t) = AuthMiddleware sha tokens now now' r (fst ts)
     in case outcome of
          Served name \<Rightarrow> (let (rep, s) = next name r (snd ts) in (rep, t, s))
        | Throttled secs \<Rightarrow> (\<lparr>re_acts = HSet ''Retry-After'' (Itoa secs) # WriteError 429 ''too many authentication failures'',
            re_out = Returned, re_pattern = []\<rparr>, t, snd ts)
        | Unauthorized \<Rightarrow> (\<lparr>re_acts = HSet ''WWW-Authenticate'' (''Bearer realm='' @ [CHR 0x22] @ ''northwatch'' @ [CHR 0x22]) # WriteError 401 ''authentication required'',
            re_out = Returned, re_pattern = []\<rparr>, t, snd ts))"

section \<open>The cluster proxy\<close>

type_synonym ('b, 's) ClusterProxy = "(string, ('b, 's) handler) gomap"

definition cp_Add :: "string \<Rightarrow> ('b, 's) handler \<Rightarrow> ('b, 's) ClusterProxy \<Rightarrow> ('b, 's) ClusterProxy" where
  "cp_Add name mux p = AList.update name mux p"

definition cp_Remove :: "string \<Rightarrow> ('b, 's) ClusterProxy \<Rightarrow> ('b, 's) ClusterProxy" where
  "cp_Remove name p = AList.delete name p"

definition cp_lookup :: "string \<Rightarrow> ('b, 's) ClusterProxy \<Rightarrow> ('b, 's) handler option" where
  "cp_lookup name p = map_of p name"

text \<open>The proxy at start: a mux for every cluster of the registry.\<close>

definition RegisterClusterProxy :: "'sub ClusterRegistry \<Rightarrow> ('sub Cluster \<Rightarrow> ('b, 's) handler) \<Rightarrow> ('b, 's) ClusterProxy" where
  "RegisterClusterProxy reg registerRoutes =
    fold (\<lambda>c p. case c of None \<Rightarrow> p | Some c \<Rightarrow> cp_Add (cl_Name c) (registerRoutes c) p) (cr_List reg) []"

text \<open>The pattern \<^verbatim>\<open>/api/v1/clusters/{cluster}/{path...}\<close> on a clean path: the name of the cluster and the rest.\<close>

fun joinSlash :: "string list \<Rightarrow> string" where
  "joinSlash [] = []"
| "joinSlash [s] = s"
| "joinSlash (s # ss) = s @ CHR ''/'' # joinSlash ss"

definition cleanSegs :: "string list \<Rightarrow> bool" where
  "cleanSegs segs = ([] \<notin> set (butlast segs) \<and> ''.'' \<notin> set segs \<and> ''..'' \<notin> set segs)"

definition clusterRoute :: "string \<Rightarrow> (string \<times> string) option" where
  "clusterRoute path = (case splitByte (CHR ''/'') path of
     [] # a # v # c # name # seg # segs \<Rightarrow>
       if a = ''api'' \<and> v = ''v1'' \<and> c = ''clusters'' \<and> cleanSegs (name # seg # segs)
       then Some (name, joinSlash (seg # segs)) else None
   | _ \<Rightarrow> None)"

definition clusterPattern :: string where
  "clusterPattern = ''/api/v1/clusters/{cluster}/{path...}''"

definition rewritten :: "string \<Rightarrow> Request \<Rightarrow> Request" where
  "rewritten rest r = r\<lparr>rq_Path := ''/api/v1/'' @ rest\<rparr>"

text \<open>\<open>ready\<close> tells of a cluster whether its databases are ready, \<open>None\<close> when it has none. The pattern that the cluster's own
  mux matches is recorded on the copy of the request and lost with it.\<close>

definition dispatch ::
    "'sub ClusterRegistry \<Rightarrow> ('sub Cluster \<Rightarrow> 's \<Rightarrow> bool) option \<Rightarrow> ('b, 's) ClusterProxy \<Rightarrow> string \<Rightarrow> string \<Rightarrow> ('b, 's) handler" where
  "dispatch reg ready p name rest actor r s =
    (case cp_lookup name p of
       None \<Rightarrow> (\<lparr>re_acts = WriteError 404 (''unknown cluster: '' @ name), re_out = Returned, re_pattern = []\<rparr>, s)
     | Some subMux \<Rightarrow>
         (let stale = (case (cr_Get name reg, ready) of (Some c, Some isReady) \<Rightarrow> \<not> isReady c s | _ \<Rightarrow> False);
              (rep, s) = subMux actor (rewritten rest r) s
          in (if stale then rep\<lparr>re_acts := HSet staleHeader ''true'' # re_acts rep\<rparr> else rep, s)))"

definition proxyMethods :: "string list" where
  "proxyMethods = [''GET'', ''POST'', ''PUT'', ''PATCH'', ''DELETE'']"

text \<open>A request with method \<^verbatim>\<open>HEAD\<close> matches the pattern of \<^verbatim>\<open>GET\<close>.\<close>

definition patternMethod :: "string \<Rightarrow> string" where
  "patternMethod meth = (if meth = ''HEAD'' then ''GET'' else meth)"

text \<open>The main mux. No other route lies below \<^verbatim>\<open>/api/v1/clusters/{cluster}/\<close>; the other routes, with the catch-all, the user
  interface and what the mux answers itself, are \<open>routes\<close>.\<close>

definition mainMux ::
    "('b, 's) handler \<Rightarrow> 'sub ClusterRegistry \<Rightarrow> ('sub Cluster \<Rightarrow> 's \<Rightarrow> bool) option \<Rightarrow> ('b, 's) ClusterProxy \<Rightarrow> ('b, 's) handler" where
  "mainMux routes reg ready p actor r s =
    (case (if patternMethod (rq_Method r) \<in> set proxyMethods then clusterRoute (rq_Path r) else None) of
       None \<Rightarrow> routes actor r s
     | Some (name, rest) \<Rightarrow>
         (let (rep, s) = dispatch reg ready p name rest actor r s
          in (rep\<lparr>re_pattern := patternMethod (rq_Method r) @ CHR '' '' # clusterPattern\<rparr>, s)))"

section \<open>The server\<close>

text \<open>The handler of \<^verbatim>\<open>NewServer\<close> with the wrappers of \<^verbatim>\<open>run\<close>.\<close>

definition innerChain :: "int \<Rightarrow> int \<Rightarrow> ('s \<Rightarrow> bool) option \<Rightarrow> ('b, 's) handler \<Rightarrow> ('b, metrics \<times> 's) handler" where
  "innerChain writeTimeout now ready mux =
    DeadlineMiddleware writeTimeout now (metricsWrap (RecoverMiddleware (staleHeaderMiddleware ready mux)))"

definition serveHTTP ::
    "(string \<Rightarrow> 'd) \<Rightarrow> (string, string) gomap \<Rightarrow> int \<Rightarrow> int \<Rightarrow> int \<Rightarrow> ('s \<Rightarrow> bool) option \<Rightarrow> ('b, 's) handler \<Rightarrow>
      ('b, authThrottle \<times> metrics \<times> 's) handler" where
  "serveHTTP sha tokens writeTimeout now now' ready mux =
    authWrap sha tokens now now' (innerChain writeTimeout now' ready mux)"

section \<open>Listing clusters\<close>

record clusterInfo =
  ci_Name :: string
  ci_Label :: string
  ci_Ready :: bool
  ci_Mode :: string
  ci_Snapshot :: "ClusterSnapshotMeta option"

definition clusterInfoOf :: "('sub Cluster \<Rightarrow> bool) \<Rightarrow> 'sub Cluster \<Rightarrow> clusterInfo" where
  "clusterInfoOf ready c = \<lparr>ci_Name = cl_Name c, ci_Label = cl_Label c, ci_Ready = ready c,
     ci_Mode = (if cl_Mode c = [] then ''live'' else cl_Mode c), ci_Snapshot = cl_Snapshot c\<rparr>"

definition listClusters :: "('sub Cluster \<Rightarrow> bool) \<Rightarrow> 'sub ClusterRegistry \<Rightarrow> clusterInfo list" where
  "listClusters ready reg = List.map_filter (map_option (clusterInfoOf ready)) (cr_List reg)"

section \<open>Every request is answered\<close>

text \<open>The status is that of the first action that sets one.\<close>

fun first_status :: "'b wact list \<Rightarrow> int option" where
  "first_status [] = None"
| "first_status (WHeader c # acts) = Some c"
| "first_status (WBody b # acts) = Some 200"
| "first_status (a # acts) = first_status acts"

lemma first_status_append: "first_status (xs @ ys) = (case first_status xs of None \<Rightarrow> first_status ys | Some c \<Rightarrow> Some c)"
  by (induction xs rule: first_status.induct) simp_all

lemma sent_status: "wr_status (sent acts w) = (case wr_status w of None \<Rightarrow> first_status acts | Some c \<Rightarrow> Some c)"
  unfolding sent_def
proof (induction acts arbitrary: w)
  case (Cons a acts)
  then show ?case by (cases a) (simp_all split: option.split)
qed (simp split: option.split)

lemma answered_first: "answered rep = (case first_status (re_acts rep) of None \<Rightarrow> 200 | Some c \<Rightarrow> c)"
  by (simp add: answered_def sent_status newWriter_def)

lemma recorder_done: "rw_wroteHeader rw \<Longrightarrow> fold rw_act acts rw = rw"
proof (induction acts)
  case (Cons a acts)
  then show ?case by (cases a) simp_all
qed simp

text \<open>The recorder agrees with the writer it wraps.\<close>

lemma recorder_status:
  "rw_status (fold rw_act acts \<lparr>rw_status = 200, rw_wroteHeader = False\<rparr>) = (case first_status acts of None \<Rightarrow> 200 | Some c \<Rightarrow> c)"
  by (induction acts rule: first_status.induct) (simp_all add: recorder_done)

lemma WriteError_status: "first_status (WriteError c msg) = Some c"
  by (simp add: WriteError_def WriteJSON_def)

lemma staleHeaderMiddleware_reply:
  assumes "mux actor r s = (rep0, s0)"
  shows "\<exists>pre. staleHeaderMiddleware ready mux actor r s = (rep0\<lparr>re_acts := pre @ re_acts rep0\<rparr>, s0) \<and> first_status pre = None"
  unfolding staleHeaderMiddleware_def Let_def assms prod.case
  by (auto intro: exI [of _ "[HSet staleHeader ''true'']"] exI [of _ "[]"])

lemma RecoverMiddleware_reply:
  assumes "mux actor r s = (rep0, s0)"
  shows "\<exists>rep. RecoverMiddleware mux actor r s = (rep, s0) \<and> re_pattern rep = re_pattern rep0
    \<and> re_out rep = (if re_out rep0 = AbortHandler then AbortHandler else Returned)
    \<and> first_status (re_acts rep) = (case first_status (re_acts rep0) of
          Some c \<Rightarrow> Some c | None \<Rightarrow> (case re_out rep0 of Panicked _ \<Rightarrow> Some 500 | _ \<Rightarrow> None))"
  unfolding RecoverMiddleware_def assms
  by (cases "re_out rep0") (simp_all add: first_status_append WriteError_status split: option.split)

lemma metricsWrap_reply:
  assumes "inner actor r s = (rep, s0)"
  shows "metricsWrap inner actor r (m, s) =
    (rep, if re_out rep = Returned then bump (rq_Method r, routeLabel (re_pattern rep), Itoa (answered rep)) m else m, s0)"
  unfolding metricsWrap_def by (simp add: assms recorder_status answered_first)

text \<open>What the inner chain makes of the reply of the mux.\<close>

lemma innerChain_reply:
  assumes "mux actor r s = (rep0, s0)" "innerChain wt now ready mux actor r (m, s) = (rep, m', s')"
  shows "s' = s0" "re_pattern rep = re_pattern rep0"
    and "re_out rep0 = AbortHandler \<Longrightarrow> re_out rep = AbortHandler \<and> m' = m"
    and "re_out rep0 \<noteq> AbortHandler \<Longrightarrow> re_out rep = Returned
      \<and> m' = bump (rq_Method r, routeLabel (re_pattern rep0), Itoa (answered rep)) m"
    and "first_status (re_acts rep) = (case first_status (re_acts rep0) of
          Some c \<Rightarrow> Some c | None \<Rightarrow> (case re_out rep0 of Panicked _ \<Rightarrow> Some 500 | _ \<Rightarrow> None))"
proof -
  obtain pre where pre: "staleHeaderMiddleware ready mux actor r s = (rep0\<lparr>re_acts := pre @ re_acts rep0\<rparr>, s0)" "first_status pre = None"
    using staleHeaderMiddleware_reply [where mux = mux and ready = ready, OF assms(1)] by blast
  from RecoverMiddleware_reply [where mux = "staleHeaderMiddleware ready mux", OF pre(1)] obtain rep1 where
    rec: "RecoverMiddleware (staleHeaderMiddleware ready mux) actor r s = (rep1, s0)" "re_pattern rep1 = re_pattern rep0"
      "re_out rep1 = (if re_out rep0 = AbortHandler then AbortHandler else Returned)"
      "first_status (re_acts rep1) = (case first_status (re_acts rep0) of
          Some c \<Rightarrow> Some c | None \<Rightarrow> (case re_out rep0 of Panicked _ \<Rightarrow> Some 500 | _ \<Rightarrow> None))"
    by (auto simp: first_status_append pre(2) cong del: option.case_cong_weak)
  define dl where "dl = (if isWebSocketPath (rq_Path r) then ClearDeadlines else SetWriteDeadline (now + wt) :: 'a wact)"
  have "first_status (dl # re_acts rep1) = first_status (re_acts rep1)" by (simp add: dl_def)
  moreover have "rep = rep1\<lparr>re_acts := dl # re_acts rep1\<rparr>" "s' = s0"
    "m' = (if re_out rep1 = Returned then bump (rq_Method r, routeLabel (re_pattern rep1), Itoa (answered rep1)) m else m)"
    using assms(2) unfolding innerChain_def DeadlineMiddleware_def metricsWrap_reply [where inner = "RecoverMiddleware (staleHeaderMiddleware ready mux)", OF rec(1)] dl_def [symmetric]
    by simp_all
  ultimately show "s' = s0" "re_pattern rep = re_pattern rep0"
    "re_out rep0 = AbortHandler \<Longrightarrow> re_out rep = AbortHandler \<and> m' = m"
    "re_out rep0 \<noteq> AbortHandler \<Longrightarrow> re_out rep = Returned
      \<and> m' = bump (rq_Method r, routeLabel (re_pattern rep0), Itoa (answered rep)) m"
    "first_status (re_acts rep) = (case first_status (re_acts rep0) of
          Some c \<Rightarrow> Some c | None \<Rightarrow> (case re_out rep0 of Panicked _ \<Rightarrow> Some 500 | _ \<Rightarrow> None))"
    using rec(2-4) by (simp_all add: answered_first)
qed

lemma serveHTTP_cases:
  assumes "serveHTTP sha tokens wt now now' ready mux actor0 r (t, m, s) = (rep, t', m', s')"
  obtains (served) actor where "fst (AuthMiddleware sha tokens now now' r t) = Served actor"
      "innerChain wt now' ready mux actor r (m, s) = (rep, m', s')"
  | (throttled) secs where "fst (AuthMiddleware sha tokens now now' r t) = Throttled secs" "answered rep = 429" "m' = m" "s' = s"
  | (unauthorized) "fst (AuthMiddleware sha tokens now now' r t) = Unauthorized" "answered rep = 401" "m' = m" "s' = s"
  using assms
  by (cases "fst (AuthMiddleware sha tokens now now' r t)")
     (auto simp: serveHTTP_def authWrap_def Let_def answered_first WriteError_status split: prod.splits)

text \<open>
  C11. Every request is answered and counted.  A request that passes authentication reaches the mux once; unless the handler
  aborts on purpose it returns, also when it panics: then the client gets status 500 if nothing was written before and the
  status already sent otherwise; and exactly one request is counted, under its method, the matched route and the status the
  client got.  A request that authentication rejects is answered 401 or 429 without reaching the mux.
\<close>

theorem request_answered:
  assumes "serveHTTP sha tokens wt now now' ready mux actor0 r (t, m, s) = (rep, t', m', s')"
  shows "case fst (AuthMiddleware sha tokens now now' r t) of
      Served actor \<Rightarrow>
        (let (rep0, s0) = mux actor r s; began = wr_status (sent (re_acts rep0) newWriter)
         in s' = s0
          \<and> (re_out rep0 = AbortHandler \<longrightarrow> re_out rep = AbortHandler \<and> m' = m)
          \<and> (re_out rep0 = Returned \<longrightarrow> answered rep = answered rep0)
          \<and> (\<forall>v. re_out rep0 = Panicked v \<longrightarrow> answered rep = (case began of None \<Rightarrow> 500 | Some c \<Rightarrow> c))
          \<and> (re_out rep0 \<noteq> AbortHandler \<longrightarrow> re_out rep = Returned
              \<and> m' = bump (rq_Method r, routeLabel (re_pattern rep0), Itoa (answered rep)) m))
    | Throttled _ \<Rightarrow> answered rep = 429 \<and> m' = m \<and> s' = s
    | Unauthorized \<Rightarrow> answered rep = 401 \<and> m' = m \<and> s' = s"
  using assms
proof (cases rule: serveHTTP_cases)
  case (served actor)
  obtain rep0 s0 where mux: "mux actor r s = (rep0, s0)" by force
  note i = innerChain_reply [where mux = mux, OF mux served(2)]
  have "wr_status (sent (re_acts rep0) newWriter) = first_status (re_acts rep0)" by (simp add: sent_status newWriter_def)
  with i show ?thesis by (auto simp: served(1) mux answered_first split: option.split)
qed simp_all

text \<open>A handler that panics after setting a header.\<close>

definition panickingMux :: "(unit, unit) handler" where
  "panickingMux actor r s = (\<lparr>re_acts = [HSet ''Content-Type'' ''text/plain''], re_out = Panicked ''nil map'', re_pattern = ''GET /''\<rparr>, s)"

theorem request_answered_witness:
  "answered (fst (serveHTTP (\<lambda>s. s) [] 60 0 0 None panickingMux None (sample_request\<lparr>rq_Method := ''GET''\<rparr>) ([], [], ()))) = 500"
proof -
  let ?r = "sample_request\<lparr>rq_Method := ''GET''\<rparr>"
  obtain rep t' m' s' where s: "serveHTTP (\<lambda>s. s) [] 60 0 0 None panickingMux None ?r ([], [], ()) = (rep, t', m', s')" by (metis prod.exhaust)
  have "fst (AuthMiddleware (\<lambda>s. s) [] 0 0 ?r []) = Served None" by (simp add: AuthMiddleware_def requiresAuth_def)
  with request_answered [OF s] show ?thesis unfolding s by (simp add: panickingMux_def sent_def newWriter_def)
qed

text \<open>The recorded method is the client's: requests with made-up methods add a time series each.\<close>

lemma metrics_method_unbounded:
  assumes "mux actor r s = (rep0, s0)" "innerChain wt now ready mux actor r ([], s) = (rep, m', s')" "re_out rep0 \<noteq> AbortHandler"
  shows "map fst m' = [(rq_Method r, routeLabel (re_pattern rep0), Itoa (answered rep))]"
  using innerChain_reply(4) [where mux = mux, OF assms] by (simp add: bump_def)

section \<open>Requests to a cluster\<close>

lemma splitByte_not_Nil [simp]: "splitByte sep s \<noteq> []"
  by (induction s) (auto split: list.splits)

lemma joinSlash_Cons: "ss \<noteq> [] \<Longrightarrow> joinSlash (s # ss) = s @ CHR ''/'' # joinSlash ss"
  by (cases ss) simp_all

lemma joinSlash_split: "joinSlash (splitByte (CHR ''/'') s) = s"
proof (induction s)
  case (Cons c s)
  then show ?case
    by (cases "splitByte (CHR ''/'') s"; cases "tl (splitByte (CHR ''/'') s)") (auto simp: joinSlash_Cons)
qed simp

lemma clusterRoute_path:
  assumes "clusterRoute path = Some (name, rest)"
  shows "path = ''/api/v1/clusters/'' @ name @ ''/'' @ rest" "name \<noteq> []"
proof -
  from assms obtain seg segs where s: "splitByte (CHR ''/'') path = [] # ''api'' # ''v1'' # ''clusters'' # name # seg # segs"
      "rest = joinSlash (seg # segs)" "cleanSegs (name # seg # segs)"
    by (auto simp: clusterRoute_def split: list.splits if_splits)
  from joinSlash_split [of path] show "path = ''/api/v1/clusters/'' @ name @ ''/'' @ rest" unfolding s by simp
  from s(3) show "name \<noteq> []" by (auto simp: cleanSegs_def)
qed

text \<open>The rewritten request is gated as the original is.\<close>

lemma rewritten_gate:
  assumes "clusterRoute (rq_Path r) = Some (name, rest)"
  shows "requiresAuth (rewritten rest r) = requiresAuth r"
    and "requiresAuth r = (rq_Method r \<notin> {''GET'', ''HEAD'', ''OPTIONS''})"
    and "\<not> (HasPrefix (rq_Path r) ''/api/v1/'' \<and> \<not> HasPrefix (rq_Path r) ''/api/v1/clusters/'')"
  by (simp_all add: requiresAuth_def rewritten_def HasPrefix_def clusterRoute_path(1) [OF assms])

definition sets_stale :: "'b wact list \<Rightarrow> bool" where
  "sets_stale acts = (\<exists>v. HSet staleHeader v \<in> set acts)"

lemma header_kept: "\<forall>v. HSet k v \<notin> set acts \<Longrightarrow> map_of (wr_header (sent acts w)) k = map_of (wr_header w) k"
  unfolding sent_def
proof (induction acts arbitrary: w)
  case (Cons a acts)
  then show ?case by (cases a) auto
qed simp

lemma stale_innerChain:
  assumes "mux actor r s = (rep0, s0)" "innerChain wt now ready mux actor r (m, s) = (rep, m', s')"
    "\<not> (HasPrefix (rq_Path r) ''/api/v1/'' \<and> \<not> HasPrefix (rq_Path r) ''/api/v1/clusters/'')"
  shows "\<exists>dl suf. re_acts rep = dl # re_acts rep0 @ suf \<and> \<not> sets_stale [dl] \<and> first_status [dl] = None
    \<and> (suf = [] \<or> suf = WriteError 500 ''internal server error'')"
proof -
  have "staleHeaderMiddleware ready mux actor r s = (rep0, s0)"
    using assms(3) by (auto simp: staleHeaderMiddleware_def assms(1) split: option.split)
  then show ?thesis using assms(2)
    by (cases "re_out rep0")
       (auto simp: innerChain_def DeadlineMiddleware_def metricsWrap_def RecoverMiddleware_def sets_stale_def Let_def split: if_splits)
qed

lemma clusterPattern_label:
  assumes "meth \<in> set proxyMethods"
  shows "routeLabel (meth @ CHR '' '' # clusterPattern) = clusterPattern"
proof -
  have "CHR '' '' \<notin> set meth" using assms by (auto simp: proxyMethods_def)
  from cutByte_append [OF this, of clusterPattern] show ?thesis by (simp add: routeLabel_def)
qed

lemma keys_bump: "set (gokeys (bump k m)) = insert k (set (gokeys m))"
  by (simp add: bump_def dom_update)

lemma Served_token:
  assumes "fst (AuthMiddleware sha tokens now now' r t) = Served actor" "requiresAuth r"
  shows "\<exists>n tok. actor = Some n \<and> (n, tok) \<in> set tokens \<and> sha (bearerToken (rq_Authorization r)) = sha tok"
proof -
  from assms obtain n where "lookupActor sha (tokenDigests sha tokens) (bearerToken (rq_Authorization r)) = Some n" "actor = Some n"
    by (cases "lookupActor sha (tokenDigests sha tokens) (bearerToken (rq_Authorization r))")
       (auto simp: AuthMiddleware_def split: prod.splits if_splits)
  with lookupActor_sound show ?thesis by fast
qed

text \<open>The reply of the proxy, and what the client sees of the marker.\<close>

definition marked :: "'b reply \<Rightarrow> bool" where
  "marked rep = (map_of (wr_header (sent (re_acts rep) newWriter)) staleHeader = Some ''true'')"

definition unready :: "'sub ClusterRegistry \<Rightarrow> ('sub Cluster \<Rightarrow> 's \<Rightarrow> bool) option \<Rightarrow> string \<Rightarrow> 's \<Rightarrow> bool" where
  "unready reg ready name s = (\<exists>c isReady. cr_Get name reg = Some c \<and> ready = Some isReady \<and> \<not> isReady c s)"

lemma dispatch_found:
  assumes "cp_lookup name p = Some h" "h actor (rewritten rest r) s = (hrep, hs)"
  shows "dispatch reg ready p name rest actor r s =
    (hrep\<lparr>re_acts := (if unready reg ready name s then [HSet staleHeader ''true''] else []) @ re_acts hrep\<rparr>, hs)"
  using assms by (auto simp: dispatch_def unready_def Let_def split: option.split)

lemma mainMux_cluster:
  assumes "clusterRoute (rq_Path r) = Some (name, rest)" "patternMethod (rq_Method r) \<in> set proxyMethods"
    "dispatch reg ready p name rest actor r s = (drep, ds)"
  shows "mainMux routes reg ready p actor r s = (drep\<lparr>re_pattern := patternMethod (rq_Method r) @ CHR '' '' # clusterPattern\<rparr>, ds)"
  using assms by (simp add: mainMux_def)

lemma marked_prefix:
  assumes "re_acts rep = dl # (if u then [HSet staleHeader ''true''] else []) @ acts @ suf" "\<not> sets_stale [dl]" "\<not> sets_stale acts"
    "suf = [] \<or> suf = WriteError 500 ''internal server error''" "first_status [dl] = None"
  shows "marked rep = u"
proof -
  let ?w = "wr_act dl newWriter"
  have dl: "map_of (wr_header ?w) staleHeader = None" "wr_status ?w = None"
    using assms(2,5) by (cases dl; auto simp: newWriter_def sets_stale_def)+
  have "\<forall>v. HSet staleHeader v \<notin> set (acts @ suf)"
    using assms(3,4) by (auto simp: sets_stale_def WriteError_def WriteJSON_def staleHeader_def)
  note kept = header_kept [OF this]
  have "sent (re_acts rep) newWriter = sent (acts @ suf) (if u then wr_act (HSet staleHeader ''true'') ?w else ?w)"
    by (simp add: assms(1) sent_def)
  then show ?thesis unfolding marked_def kept using dl by (auto simp: kept simp del: map_of_eq_Some_iff)
qed

text \<open>
  C10. The gate and the marker hold behind the proxy.  A request below \<^verbatim>\<open>/api/v1/clusters/NAME/\<close> that passes authentication
  reaches the mux of cluster NAME and no other, with its path rewritten and nothing else changed, and is answered 404 when there
  is none; the state changes only as that mux changes it, so an unauthenticated request can change it only with a method that
  reads, and any other carries a configured token, whose name is the actor; the answer is marked stale exactly when the
  databases of this cluster are not ready; and whatever is in the path the request is counted under the one proxy pattern.
\<close>

theorem proxied_request:
  assumes "clusterRoute (rq_Path r) = Some (name, rest)" "patternMethod (rq_Method r) \<in> set proxyMethods"
    and "serveHTTP sha tokens wt now now' own (mainMux routes reg ready p) actor0 r (t, m, s) = (rep, t', m', s')"
  shows "case fst (AuthMiddleware sha tokens now now' r t) of
      Served actor \<Rightarrow>
        (case cp_lookup name p of
           None \<Rightarrow> answered rep = 404 \<and> s' = s
         | Some h \<Rightarrow> (let (hrep, hs) = h actor (rewritten rest r) s
             in s' = hs \<and> (\<not> sets_stale (re_acts hrep) \<longrightarrow> marked rep = unready reg ready name s)))
        \<and> (rq_Method r \<notin> {''GET'', ''HEAD''} \<longrightarrow>
            (\<exists>n tok. actor = Some n \<and> (n, tok) \<in> set tokens \<and> sha (bearerToken (rq_Authorization r)) = sha tok))
        \<and> (\<forall>(meth, label, status) \<in> set (gokeys m'). (meth, label, status) \<in> set (gokeys m) \<or> (meth = rq_Method r \<and> label = clusterPattern))
    | _ \<Rightarrow> s' = s \<and> m' = m"
  using assms(3)
proof (cases rule: serveHTTP_cases)
  case (served actor)
  let ?mux = "mainMux routes reg ready p"
  obtain drep ds where d: "dispatch reg ready p name rest actor r s = (drep, ds)" by force
  define mrep where "mrep = drep\<lparr>re_pattern := patternMethod (rq_Method r) @ CHR '' '' # clusterPattern\<rparr>"
  note mux = mainMux_cluster [OF assms(1,2) d, of routes, folded mrep_def]
  note i = innerChain_reply [where mux = ?mux, OF mux served(2)]
  have label: "routeLabel (re_pattern mrep) = clusterPattern" by (simp add: mrep_def clusterPattern_label [OF assms(2)])
  have counted: "\<forall>(meth, label, status) \<in> set (gokeys m'). (meth, label, status) \<in> set (gokeys m) \<or> (meth = rq_Method r \<and> label = clusterPattern)"
    using i(3,4) label by (cases "re_out mrep = AbortHandler") (auto simp: keys_bump simp del: set_map)
  have gate: "\<exists>n tok. actor = Some n \<and> (n, tok) \<in> set tokens \<and> sha (bearerToken (rq_Authorization r)) = sha tok"
    if "rq_Method r \<notin> {''GET'', ''HEAD''}"
    using Served_token [OF served(1)] rewritten_gate(2) [OF assms(1)] that assms(2) by (auto simp: proxyMethods_def patternMethod_def)
  have "case cp_lookup name p of
           None \<Rightarrow> answered rep = 404 \<and> s' = s
         | Some h \<Rightarrow> (let (hrep, hs) = h actor (rewritten rest r) s
             in s' = hs \<and> (\<not> sets_stale (re_acts hrep) \<longrightarrow> marked rep = unready reg ready name s))"
  proof (cases "cp_lookup name p")
    case None
    with d i(1,5) show ?thesis by (auto simp: dispatch_def mrep_def answered_first WriteError_status)
  next
    case (Some h)
    obtain hrep hs where h: "h actor (rewritten rest r) s = (hrep, hs)" by force
    note f = dispatch_found [where h = h, OF Some h, where reg = reg and ready = ready]
    from d f have dr: "re_acts mrep = (if unready reg ready name s then [HSet staleHeader ''true''] else []) @ re_acts hrep" "ds = hs"
      unfolding mrep_def by auto
    from stale_innerChain [where mux = ?mux, OF mux served(2) rewritten_gate(3) [OF assms(1)]] obtain dl suf where
      "re_acts rep = dl # re_acts mrep @ suf" "\<not> sets_stale [dl]" "first_status [dl] = None"
      "suf = [] \<or> suf = WriteError 500 ''internal server error''" by blast
    then have "\<not> sets_stale (re_acts hrep) \<longrightarrow> marked rep = unready reg ready name s"
      using marked_prefix [of rep dl "unready reg ready name s" "re_acts hrep" suf] unfolding dr(1) append_assoc by blast
    with i(1) dr(2) show ?thesis by (simp add: Some h)
  qed
  with counted gate show ?thesis by (simp add: served(1))
qed simp_all

text \<open>A mux that answers every request and remembers who asked, on a cluster whose databases are not ready.\<close>

definition noteMux :: "(unit, string list) handler" where
  "noteMux actor r s = (\<lparr>re_acts = [WHeader 204], re_out = Returned, re_pattern = ''POST /api/v1/x''\<rparr>, rq_Path r # s)"

definition prodRequest :: Request where
  "prodRequest = sample_request\<lparr>rq_Path := ''/api/v1/clusters/prod/x''\<rparr>"

definition prodCluster :: "unit Cluster" where
  "prodCluster = \<lparr>cl_Name = ''prod'', cl_Label = ''Production'', cl_Mode = [], cl_Snapshot = None, cl_Subsystems = ()\<rparr>"

theorem proxied_request_witness:
  "\<exists>rep t' m'. serveHTTP (\<lambda>s. s) [(''ops'', ''s3cret'')] 60 0 0 None
      (mainMux noteMux (cr_Register ''prod'' prodCluster NewClusterRegistry) (Some (\<lambda>c s. False)) (cp_Add ''prod'' noteMux [])) None
      prodRequest (newAuthThrottle, [], []) = (rep, t', m', [''/api/v1/x'']) \<and> marked rep"
proof -
  let ?reg = "cr_Register ''prod'' prodCluster NewClusterRegistry" and ?p = "cp_Add ''prod'' noteMux []"
  obtain rep t' m' s' where s: "serveHTTP (\<lambda>s. s) [(''ops'', ''s3cret'')] 60 0 0 None
      (mainMux noteMux ?reg (Some (\<lambda>c s. False)) ?p) None prodRequest (newAuthThrottle, [], []) = (rep, t', m', s')"
    by (metis prod.exhaust)
  have a: "fst (AuthMiddleware (\<lambda>s. s) [(''ops'', ''s3cret'')] 0 0 prodRequest newAuthThrottle) = Served (Some ''ops'')" by code_simp
  have c: "clusterRoute (rq_Path prodRequest) = Some (''prod'', ''x'')" "patternMethod (rq_Method prodRequest) \<in> set proxyMethods" by code_simp+
  have u: "unready ?reg (Some (\<lambda>c s. False)) ''prod'' x" for x
    by (simp add: unready_def cr_Get_def cr_Register_def NewClusterRegistry_def)
  from proxied_request [OF c s] have "s' = [''/api/v1/x''] \<and> marked rep"
    unfolding a by (simp add: cp_lookup_def cp_Add_def noteMux_def rewritten_def prodRequest_def sets_stale_def u)
  with s show ?thesis by blast
qed

text \<open>The mux registered for a cluster at start-up is found under its name.\<close>

lemma proxy_initial:
  assumes "cr_ok reg" "\<And>n c. cr_Get n reg = Some c \<Longrightarrow> cl_Name c = n"
  shows "cp_lookup name (RegisterClusterProxy reg f) = map_option f (cr_Get name reg)"
proof -
  have "cp_lookup name (fold (\<lambda>c p. case c of None \<Rightarrow> p | Some c \<Rightarrow> cp_Add (cl_Name c) (f c) p) (map (\<lambda>n. cr_Get n reg) ns) q)
      = (if name \<in> set ns \<and> cr_Get name reg \<noteq> None then map_option f (cr_Get name reg) else cp_lookup name q)" for ns q
  proof (induction ns arbitrary: q)
    case (Cons n ns)
    then show ?case using assms(2) [of n] by (cases "cr_Get n reg") (auto simp: cp_lookup_def cp_Add_def)
  qed simp
  from this [of "cr_order reg" "[]"] show ?thesis
    using in_step_map_of [of "cr_clusters reg" "cr_order reg" name] assms(1)
    by (auto simp: RegisterClusterProxy_def cr_List_def cr_Get_def [abs_def] cr_ok_def cp_lookup_def simp del: map_of_eq_Some_iff)
qed

text \<open>A row of a cluster whose identifier is \<^verbatim>\<open>ws\<close>, or any other path below a cluster that ends in it, gets no write deadline.\<close>

lemma deadline_exempt_suffix:
  "isWebSocketPath (''/api/v1/clusters/'' @ path @ ''/ws'')"
  by (simp add: isWebSocketPath_def HasPrefix_def HasSuffix_def)

end
