(* ===== verification/Api_Handlers.thy ===== *)
theory Api_Handlers
  imports Api_Write History_Diff Alert_Engine Snapshot_Session
begin

text \<open>
  The handlers in front of the components that keep state: \<^verbatim>\<open>failover.go\<close>, \<^verbatim>\<open>alerts.go\<close>, \<^verbatim>\<open>history.go\<close> and
  \<^verbatim>\<open>snapshot_load.go\<close> of \<^verbatim>\<open>internal/api/handler\<close>.

  \<^item> As in \<open>Api_Write\<close>, decoding a JSON body is a parameter; so are \<^verbatim>\<open>time.ParseDuration\<close> and the RFC 3339 form of a time.
  \<^item> A response is a status and a body; \<open>HInternal\<close> is the generic body of an internal error.
\<close>

section \<open>Responses\<close>

datatype 'a hbody = HText string | HError error | HInternal | HBody 'a | HEmpty

type_synonym 'a hresponse = "nat \<times> 'a hbody"

text \<open>\<^verbatim>\<open>decodeJSONBody\<close> has answered when it fails.\<close>

definition decoded :: "'b \<Rightarrow> bool \<Rightarrow> 'b body_read \<Rightarrow> 'a hresponse + 'b" where
  "decoded zero allowEmpty b = (case decodeJSONBody zero allowEmpty b of
     Inl (status, WbText msg) \<Rightarrow> Inl (status, HText msg)
   | Inl (status, _) \<Rightarrow> Inl (status, HEmpty)
   | Inr x \<Rightarrow> Inr x)"

section \<open>Failover\<close>

definition writeFailoverError :: "error \<Rightarrow> 'a hresponse" where
  "writeFailoverError err = (if IsInputError err then (400, HError err) else (500, HInternal))"

definition planned :: "Plan result \<times> ('w, 'op) Engine \<Rightarrow> Plan hresponse \<times> ('w, 'op) Engine" where
  "planned r = (case r of (Err err, e) \<Rightarrow> (writeFailoverError err, e) | (Ok plan, e) \<Rightarrow> ((200, HBody plan), e))"

definition handleFailover ::
    "'w env \<Rightarrow> (groups \<Rightarrow> groups) \<Rightarrow> ('w \<Rightarrow> ha_view) \<Rightarrow> (string \<times> string) body_read \<Rightarrow> 'w \<Rightarrow> ('w, 'op) Engine \<Rightarrow>
      Plan hresponse \<times> ('w, 'op) Engine" where
  "handleFailover env order view b w e = (case decoded ([], []) False b of
     Inl resp \<Rightarrow> (resp, e)
   | Inr (groupName, targetChassis) \<Rightarrow>
       if groupName = [] then ((400, HText ''group_name is required''), e)
       else if targetChassis = [] then ((400, HText ''target_chassis is required''), e)
       else planned (Failover env order view groupName targetChassis w e))"

definition handleEvacuate ::
    "'w env \<Rightarrow> (groups \<Rightarrow> groups) \<Rightarrow> ('w \<Rightarrow> ha_view) \<Rightarrow> string body_read \<Rightarrow> 'w \<Rightarrow> ('w, 'op) Engine \<Rightarrow>
      Plan hresponse \<times> ('w, 'op) Engine" where
  "handleEvacuate env order view b w e = (case decoded [] False b of
     Inl resp \<Rightarrow> (resp, e)
   | Inr chassisName \<Rightarrow>
       if chassisName = [] then ((400, HText ''chassis_name is required''), e)
       else planned (Evacuate env order view chassisName w e))"

definition handleRestore ::
    "'w env \<Rightarrow> (groups \<Rightarrow> groups) \<Rightarrow> ('w \<Rightarrow> ha_view) \<Rightarrow> string body_read \<Rightarrow> 'w \<Rightarrow> ('w, 'op) Engine \<Rightarrow>
      Plan hresponse \<times> ('w, 'op) Engine" where
  "handleRestore env order view b w e = (case decoded [] False b of
     Inl resp \<Rightarrow> (resp, e)
   | Inr chassisName \<Rightarrow>
       if chassisName = [] then ((400, HText ''chassis_name is required''), e)
       else planned (Restore env order view chassisName w e))"

section \<open>Alerts\<close>

definition handleSetRuleEnabled :: "string \<Rightarrow> bool body_read \<Rightarrow> AlertEngine \<Rightarrow> (string \<times> bool) hresponse \<times> AlertEngine" where
  "handleSetRuleEnabled name b e = (case decoded False False b of
     Inl resp \<Rightarrow> (resp, e)
   | Inr enabled \<Rightarrow> (case SetRuleEnabled name enabled e of
       (Some err, e) \<Rightarrow> ((404, HError err), e)
     | (None, e) \<Rightarrow> ((200, HBody (name, enabled)), e)))"

definition handleListSilences :: "int \<Rightarrow> AlertEngine \<Rightarrow> Silence list hresponse" where
  "handleListSilences now e = (200, HBody (ListSilences now e))"

record silence_body =
  sb_Rule :: string
  sb_Matchers :: "(string, string) gomap"
  sb_Duration :: string
  sb_Comment :: string

text \<open>\<open>now\<close> is read by the handler, \<open>now'\<close> by \<^verbatim>\<open>AddSilence\<close>, which names the silence after it.\<close>

definition handleCreateSilence ::
    "(string \<Rightarrow> int option) \<Rightarrow> int \<Rightarrow> int \<Rightarrow> silence_body body_read \<Rightarrow> AlertEngine \<Rightarrow> Silence hresponse \<times> AlertEngine" where
  "handleCreateSilence parseDuration now now' b e =
    (case decoded \<lparr>sb_Rule = [], sb_Matchers = [], sb_Duration = [], sb_Comment = []\<rparr> False b of
       Inl resp \<Rightarrow> (resp, e)
     | Inr body \<Rightarrow>
         if sb_Rule body = [] \<and> sb_Matchers body = []
         then ((400, HText (''at least one of '' @ quoted ''rule'' @ '' or '' @ quoted ''matchers'' @ '' is required'')), e)
         else case (if sb_Duration body = [] then Some 3600000000000 else parseDuration (sb_Duration body)) of
             None \<Rightarrow> ((400, HText ''invalid duration format''), e)
           | Some duration \<Rightarrow>
               (let s = \<lparr>sl_ID = [], sl_CreatedAt = Some now, sl_ExpiresAt = now + duration, sl_Rule = sb_Rule body,
                      sl_Matchers = sb_Matchers body, sl_Comment = sb_Comment body\<rparr>;
                    (sid, e) = AddSilence now' s e
                in ((201, HBody (s\<lparr>sl_ID := sid\<rparr>)), e)))"

definition handleDeleteSilence :: "string \<Rightarrow> AlertEngine \<Rightarrow> unit hresponse \<times> AlertEngine" where
  "handleDeleteSilence sid e = (case RemoveSilence sid e of
     (Some err, e) \<Rightarrow> ((404, HError err), e)
   | (None, e) \<Rightarrow> ((204, HEmpty), e))"

section \<open>History\<close>

definition handleListSnapshots :: "fault \<Rightarrow> HStore \<Rightarrow> SnapshotMeta list hresponse" where
  "handleListSnapshots fault s = (case ListSnapshots fault s of Err err \<Rightarrow> (500, HInternal) | Ok ms \<Rightarrow> (200, HBody ms))"

definition handleCreateSnapshot ::
    "codec \<Rightarrow> fault \<Rightarrow> int \<Rightarrow> 'w TableSource list \<Rightarrow> 'w \<Rightarrow> string body_read \<Rightarrow> HStore \<Rightarrow> SnapshotMeta hresponse \<times> HStore" where
  "handleCreateSnapshot co fault now srcs w b s = (case decoded [] True b of
     Inl resp \<Rightarrow> (resp, s)
   | Inr label \<Rightarrow> (case TakeSnapshot co fault now srcs w ''manual'' label s of
       (Err err, s) \<Rightarrow> ((500, HInternal), s)
     | (Ok meta, s) \<Rightarrow> ((201, HBody meta), s)))"

definition handleDiffSnapshots ::
    "codec \<Rightarrow> fault \<Rightarrow> fault \<Rightarrow> string \<Rightarrow> string \<Rightarrow> string \<Rightarrow> HStore \<Rightarrow> DiffResult hresponse" where
  "handleDiffSnapshots co fault fault' fromStr toStr tableFilter s =
    (if fromStr = [] \<or> toStr = [] then (400, HText ''from and to query parameters are required'')
     else case Atoi fromStr of
         None \<Rightarrow> (400, HText ''invalid from parameter'')
       | Some fromID \<Rightarrow> (case Atoi toStr of
           None \<Rightarrow> (400, HText ''invalid to parameter'')
         | Some toID \<Rightarrow> (case DiffSnapshots co fault fault' fromID toID tableFilter s of
             Err err \<Rightarrow> (500, HInternal)
           | Ok d \<Rightarrow> (200, HBody d))))"

definition notFoundOr500 :: "error \<Rightarrow> 'a hresponse" where
  "notFoundOr500 err = (if errors_Is err ErrNotFound then (404, HText ''snapshot not found'') else (500, HInternal))"

definition withID :: "string \<Rightarrow> (int \<Rightarrow> 'a hresponse) \<Rightarrow> 'a hresponse" where
  "withID raw f = (case Atoi raw of None \<Rightarrow> (400, HText ''invalid snapshot id'') | Some sid \<Rightarrow> f sid)"

definition handleGetSnapshot :: "fault \<Rightarrow> string \<Rightarrow> HStore \<Rightarrow> SnapshotMeta hresponse" where
  "handleGetSnapshot fault raw s = withID raw (\<lambda>sid. case GetSnapshot fault sid s of
     Err err \<Rightarrow> notFoundOr500 err | Ok m \<Rightarrow> (200, HBody m))"

definition handleGetSnapshotRows :: "codec \<Rightarrow> fault \<Rightarrow> string \<Rightarrow> string \<Rightarrow> string \<Rightarrow> HStore \<Rightarrow> SnapshotRow list hresponse" where
  "handleGetSnapshotRows co fault raw database table s = withID raw (\<lambda>sid. case GetSnapshotRows co fault sid database table s of
     Err err \<Rightarrow> (500, HInternal) | Ok rows \<Rightarrow> (200, HBody rows))"

definition handleDeleteSnapshot :: "fault \<Rightarrow> string \<Rightarrow> HStore \<Rightarrow> unit hresponse \<times> HStore" where
  "handleDeleteSnapshot fault raw s = (case Atoi raw of
     None \<Rightarrow> ((400, HText ''invalid snapshot id''), s)
   | Some sid \<Rightarrow> (case DeleteSnapshot fault sid s of
       (Some err, s) \<Rightarrow> (notFoundOr500 err, s)
     | (None, s) \<Rightarrow> ((204, HEmpty), s)))"

definition handleExportSnapshot ::
    "codec \<Rightarrow> fault \<Rightarrow> fault \<Rightarrow> string \<Rightarrow> HStore \<Rightarrow> (SnapshotMeta \<times> SnapshotRow list) hresponse" where
  "handleExportSnapshot co fault fault' raw s = withID raw (\<lambda>sid. case ExportSnapshot co fault fault' sid s of
     Err err \<Rightarrow> notFoundOr500 err | Ok x \<Rightarrow> (200, HBody x))"

definition handleImportSnapshot ::
    "codec \<Rightarrow> fault \<Rightarrow> int \<Rightarrow> SnapshotMeta \<times> SnapshotRow list \<Rightarrow> (SnapshotMeta \<times> SnapshotRow list) body_read \<Rightarrow> HStore \<Rightarrow>
      SnapshotMeta hresponse \<times> HStore" where
  "handleImportSnapshot co fault now zero b s = (case decoded zero False b of
     Inl resp \<Rightarrow> (resp, s)
   | Inr export \<Rightarrow> (case ImportSnapshot co fault now export s of
       (Err err, s) \<Rightarrow> ((500, HInternal), s)
     | (Ok meta, s) \<Rightarrow> ((201, HBody meta), s)))"

definition parseTime :: "(string \<Rightarrow> int option) \<Rightarrow> string \<Rightarrow> int option" where
  "parseTime rfc3339 raw = (case rfc3339 raw of
     Some t \<Rightarrow> Some t
   | None \<Rightarrow> map_option (\<lambda>ms. ms * 1000000) (Atoi raw))"

record event_params =
  ep_database :: string
  ep_table :: string
  ep_type :: string
  ep_limit :: string
  ep_since :: string
  ep_until :: string

text \<open>An optional parameter: absent when it is empty, \<open>None\<close> when it does not parse.\<close>

definition optional :: "(string \<Rightarrow> 'a option) \<Rightarrow> string \<Rightarrow> 'a option option" where
  "optional parse raw = (if raw = [] then Some None else map_option Some (parse raw))"

definition handleQueryEvents ::
    "(string \<Rightarrow> int option) \<Rightarrow> codec \<Rightarrow> fault \<Rightarrow> event_params \<Rightarrow> HStore \<Rightarrow> EventRecord list hresponse" where
  "handleQueryEvents rfc3339 co fault q s = (case optional Atoi (ep_limit q) of
     None \<Rightarrow> (400, HText ''invalid limit parameter'')
   | Some limit \<Rightarrow> (case optional (parseTime rfc3339) (ep_since q) of
       None \<Rightarrow> (400, HText ''invalid since parameter: use RFC3339 or Unix millis'')
     | Some since \<Rightarrow> (case optional (parseTime rfc3339) (ep_until q) of
         None \<Rightarrow> (400, HText ''invalid until parameter: use RFC3339 or Unix millis'')
       | Some until \<Rightarrow>
           (case QueryEvents co fault \<lparr>eq_Since = since, eq_Until = until, eq_Database = ep_database q, eq_Table = ep_table q,
                  eq_Type = ep_type q, eq_Limit = (case limit of None \<Rightarrow> 0 | Some n \<Rightarrow> n)\<rparr> s of
              Err err \<Rightarrow> (500, HInternal)
            | Ok events \<Rightarrow> (200, HBody events)))))"

section \<open>Loading snapshots\<close>

definition loadResponse :: "Loaded result \<Rightarrow> Loaded hresponse" where
  "loadResponse r = (case r of
     Err err \<Rightarrow>
       if errors_Is err ErrNotFound then (404, HText ''snapshot not found'')
       else if errors_Is err ErrTooManyLoaded \<or> errors_Is err ErrLoadInProgress then (409, HError err)
       else (500, HInternal)
   | Ok ld \<Rightarrow> (200, HBody ld))"

definition handleUnloadSnapshot :: "string \<Rightarrow> 'sub Manager \<Rightarrow> unit hresponse \<times> 'sub Manager" where
  "handleUnloadSnapshot raw m = (case Atoi raw of
     None \<Rightarrow> ((400, HText ''invalid snapshot id''), m)
   | Some sid \<Rightarrow> (case Unload sid m of
       (Some err, m) \<Rightarrow> (if errors_Is err ErrNotLoaded then (404, HText ''snapshot not loaded'') else (500, HInternal), m)
     | (None, m) \<Rightarrow> ((204, HEmpty), m)))"

section \<open>Silences over the API\<close>

lemma decoded_status: "decoded zero allowEmpty b = Inl (status, body) \<Longrightarrow> status \<in> {400, 413}"
  by (cases b) (auto simp: decoded_def decodeJSONBody_def split: if_splits)

lemma handleCreateSilence_created:
  assumes "handleCreateSilence parseDuration now now' b e = ((201, HBody s), e')"
  shows "sl_ID s = ''silence-'' @ Itoa now'" "e' = e\<lparr>ae_silences := AList.update (sl_ID s) s (ae_silences e)\<rparr>"
    "sl_CreatedAt s = Some now" "sl_Rule s \<noteq> [] \<or> sl_Matchers s \<noteq> []"
  using assms decoded_status [of _ False b 201]
  by (auto simp: handleCreateSilence_def AddSilence_def Let_def split: sum.splits if_splits option.splits)

lemma update_fresh: "k \<notin> fst ` set m \<Longrightarrow> AList.update k v m = m @ [(k, v)]"
  by (induction m) auto

text \<open>
  C22. A silence does what it says and leaves no trace.  A silence created over the API under a fresh name hides, until it
  expires, exactly the firing alerts that it matches, and nothing afterwards; it is listed as long; and deleting it over the
  API restores the engine as it was before.
\<close>

theorem silence_roundtrip:
  assumes "handleCreateSilence parseDuration now now' b e = ((201, HBody s), e')" "map_of (ae_silences e) (sl_ID s) = None"
  shows "(\<forall>t. ActiveAlerts t e' = (if t \<le> sl_ExpiresAt s then filter (\<lambda>a. \<not> sl_Matches s a) (ActiveAlerts t e) else ActiveAlerts t e))
    \<and> (\<forall>t. ListSilences t e' = ListSilences t e @ (if t \<le> sl_ExpiresAt s then [s] else []))
    \<and> handleDeleteSilence (sl_ID s) e' = ((204, HEmpty), e)"
proof -
  note c = handleCreateSilence_created [OF assms(1)]
  have fresh: "sl_ID s \<notin> set (gokeys (ae_silences e))" using assms(2) by (simp add: map_of_eq_None_iff)
  then have e': "e' = e\<lparr>ae_silences := ae_silences e @ [(sl_ID s, s)]\<rparr>" unfolding c(2) by (simp add: update_fresh)
  have "ActiveAlerts t e' = (if t \<le> sl_ExpiresAt s then filter (\<lambda>a. \<not> sl_Matches s a) (ActiveAlerts t e) else ActiveAlerts t e)" for t
    by (auto simp: e' ActiveAlerts_def isSilenced_def IsExpired_def intro!: filter_cong)
  moreover have "ListSilences t e' = ListSilences t e @ (if t \<le> sl_ExpiresAt s then [s] else [])" for t
    by (simp add: e' ListSilences_def IsExpired_def)
  moreover have "AList.delete (sl_ID s) (ae_silences e @ [(sl_ID s, s)]) = ae_silences e"
    using fresh by (force simp: AList.delete_eq intro: filter_True)
  then have "handleDeleteSilence (sl_ID s) e' = ((204, HEmpty), e)"
    by (simp add: e' handleDeleteSilence_def RemoveSilence_def map_add_def assms(2))
  ultimately show ?thesis by blast
qed

definition bfdSilence :: silence_body where
  "bfdSilence = \<lparr>sb_Rule = ''bfd_down'', sb_Matchers = [], sb_Duration = [], sb_Comment = ''maintenance''\<rparr>"

theorem silence_roundtrip_witness:
  "\<exists>s e'. handleCreateSilence (\<lambda>d. None) 5 7 (BodyOk bfdSilence) (NewAlertEngine 0) = ((201, HBody s), e')
    \<and> handleDeleteSilence (sl_ID s) e' = ((204, HEmpty), NewAlertEngine 0)"
proof -
  have "\<exists>s e'. handleCreateSilence (\<lambda>d. None) 5 7 (BodyOk bfdSilence) (NewAlertEngine 0) = ((201, HBody s), e')"
    by (simp add: handleCreateSilence_def decoded_def decodeJSONBody_def bfdSilence_def AddSilence_def Let_def)
  then obtain s e' where s: "handleCreateSilence (\<lambda>d. None) 5 7 (BodyOk bfdSilence) (NewAlertEngine 0) = ((201, HBody s), e')" by blast
  from silence_roundtrip [OF s] s show ?thesis by (auto simp: NewAlertEngine_def)
qed

text \<open>A negative duration is accepted: the silence is created, but never in force nor listed.\<close>

lemma negative_silence_accepted:
  assumes "parseDuration d = Some n" "n < 0" "d \<noteq> []" "rule \<noteq> []"
  shows "\<exists>s e'. handleCreateSilence parseDuration now now' (BodyOk \<lparr>sb_Rule = rule, sb_Matchers = m, sb_Duration = d, sb_Comment = c\<rparr>) e
      = ((201, HBody s), e') \<and> IsExpired s now"
  using assms by (simp add: handleCreateSilence_def decoded_def decodeJSONBody_def AddSilence_def IsExpired_def Let_def)

section \<open>Snapshots over the API\<close>

lemma find_id: "find (\<lambda>m. sm_ID m = sid) (map fst xs) = None \<longleftrightarrow> sid \<notin> set (map (\<lambda>x. sm_ID (fst x)) xs)"
  by (induction xs) auto

lemma handleGetSnapshot_status:
  "fst (handleGetSnapshot None raw s) = (case Atoi raw of None \<Rightarrow> 400 | Some sid \<Rightarrow> if sid \<in> set (snapshot_ids s) then 200 else 404)"
proof (cases "Atoi raw")
  case (Some sid)
  have "fst (handleGetSnapshot None raw s) = (if find (\<lambda>m. sm_ID m = sid) (map fst (hs_snapshots s)) \<noteq> None then 200 else 404)"
    by (cases "find (\<lambda>m. sm_ID m = sid) (map fst (hs_snapshots s))")
       (simp_all add: handleGetSnapshot_def withID_def GetSnapshot_def notFoundOr500_def Some)
  then show ?thesis unfolding find_id Some by (simp only: option.simps not_not)
qed (simp add: handleGetSnapshot_def withID_def)

lemma snapshot_ids_deleteWhere: "snapshot_ids (snd (deleteWhere (\<lambda>m. sm_ID m = sid) s)) = filter (\<lambda>i. i \<noteq> sid) (snapshot_ids s)"
  by (simp add: deleteWhere_def case_prod_unfold filter_map comp_def)

lemma deleteWhere_count: "fst (deleteWhere (\<lambda>m. sm_ID m = sid) s) = 0 \<longleftrightarrow> sid \<notin> set (snapshot_ids s)"
  by (auto simp: deleteWhere_def filter_empty_conv)

lemma deleteWhere_none:
  assumes "hs_inv s" "sid \<notin> set (snapshot_ids s)"
  shows "snd (deleteWhere (\<lambda>m. sm_ID m = sid) s) = s"
proof -
  have "filter (\<lambda>(m, h). sm_ID m \<noteq> sid) (hs_snapshots s) = hs_snapshots s"
    using assms(2) by (intro filter_True) force
  moreover have "map sm_ID (filter (\<lambda>m. sm_ID m = sid) (map fst (hs_snapshots s))) = []"
    using assms(2) by (auto simp: filter_empty_conv)
  ultimately show ?thesis by (simp add: deleteWhere_def)
qed

lemma handleDeleteSnapshot_found:
  assumes "Atoi raw = Some sid"
  shows "handleDeleteSnapshot None raw s = ((if sid \<in> set (snapshot_ids s) then (204, HEmpty) else (404, HText ''snapshot not found'')),
    snd (deleteWhere (\<lambda>m. sm_ID m = sid) s))"
  using deleteWhere_count [of sid s]
  by (auto simp: handleDeleteSnapshot_def assms DeleteSnapshot_def notFoundOr500_def simp del: set_map split: prod.splits)

lemma rows_unknown:
  assumes "hs_inv s" "sid \<notin> set (snapshot_ids s)"
  shows "GetSnapshotRows co None sid db tbl s = Ok []"
proof -
  have "filter (\<lambda>r. st_snapshot r = sid \<and> Q r) (hs_rows s) = []" for Q
    using assms by (auto simp: filter_empty_conv hs_inv_def)
  then show ?thesis by (simp add: GetSnapshotRows_def)
qed

text \<open>
  Deleting a snapshot over the API.  The answer is 204 exactly when the path names a stored snapshot, 404 when it names
  none, 400 when it is no number; with any other answer the store is unchanged; after a 204 the snapshot and its rows are gone,
  getting, exporting and deleting it answer 404, and every other snapshot has its metadata and rows as before.
\<close>

theorem delete_snapshot_api:
  assumes "hs_inv s" "handleDeleteSnapshot None raw s = ((status, body), s')"
  shows "hs_inv s'
    \<and> status = (case Atoi raw of None \<Rightarrow> 400 | Some sid \<Rightarrow> if sid \<in> set (snapshot_ids s) then 204 else 404)
    \<and> (status \<noteq> 204 \<longrightarrow> s' = s)
    \<and> (status = 204 \<longrightarrow> fst (handleGetSnapshot None raw s') = 404 \<and> fst (handleExportSnapshot co None None raw s') = 404
        \<and> fst (fst (handleDeleteSnapshot None raw s')) = 404
        \<and> (\<forall>sid. if Atoi raw = Some sid then GetSnapshotRows co None sid db tbl s' = Ok []
             else (sid \<in> set (snapshot_ids s') \<longleftrightarrow> sid \<in> set (snapshot_ids s))
                \<and> (sid \<in> set (snapshot_ids s) \<longrightarrow> GetSnapshotRows co None sid db tbl s' = GetSnapshotRows co None sid db tbl s)))"
proof (cases "Atoi raw")
  case None
  with assms show ?thesis by (auto simp: handleDeleteSnapshot_def)
next
  case (Some sid)
  let ?s' = "snd (deleteWhere (\<lambda>m. sm_ID m = sid) s)"
  note st = handleDeleteSnapshot_found [OF Some]
  have s': "s' = ?s'" "status = (if sid \<in> set (snapshot_ids s) then 204 else 404)" using st [of s] assms(2) by (simp_all del: set_map split: if_splits)
  have ids: "set (snapshot_ids ?s') = set (snapshot_ids s) - {sid}" unfolding snapshot_ids_deleteWhere by auto
  have inv: "hs_inv ?s'" by (rule hs_inv_deleteWhere [OF assms(1)])
  have gone: "sid \<notin> set (snapshot_ids ?s')" unfolding ids by simp
  then have "GetSnapshotRows co None sid db tbl ?s' = Ok []" by (rule rows_unknown [OF inv])
  moreover have "fst (handleGetSnapshot None raw ?s') = 404" "fst (fst (handleDeleteSnapshot None raw ?s')) = 404"
    using gone handleGetSnapshot_status [of raw ?s'] st [of ?s'] by (simp_all add: Some del: set_map)
  moreover have "find (\<lambda>m. sm_ID m = sid) (map fst (hs_snapshots ?s')) = None" using gone unfolding find_id .
  then have "fst (handleExportSnapshot co None None raw ?s') = 404"
    by (simp add: handleExportSnapshot_def withID_def Some ExportSnapshot_def GetSnapshot_def notFoundOr500_def)
  moreover have "GetSnapshotRows co None i db tbl ?s' = GetSnapshotRows co None i db tbl s" if i: "i \<noteq> sid" "i \<in> set (snapshot_ids s)" for i
  proof -
    from i(2) obtain m h where m: "(m, h) \<in> set (hs_snapshots s)" "sm_ID m = i" by auto
    have "rows_of (sm_ID m) ?s' = rows_of (sm_ID m) s"
      by (rule rows_of_deleteWhere [OF assms(1) m(1)]) (use i(1) m(2) in simp)
    then show ?thesis unfolding m(2) by (rule GetSnapshotRows_cong)
  qed
  ultimately have "fst (handleGetSnapshot None raw s') = 404 \<and> fst (handleExportSnapshot co None None raw s') = 404
        \<and> fst (fst (handleDeleteSnapshot None raw s')) = 404
        \<and> (\<forall>sid. if Atoi raw = Some sid then GetSnapshotRows co None sid db tbl s' = Ok []
             else (sid \<in> set (snapshot_ids s') \<longleftrightarrow> sid \<in> set (snapshot_ids s))
                \<and> (sid \<in> set (snapshot_ids s) \<longrightarrow> GetSnapshotRows co None sid db tbl s' = GetSnapshotRows co None sid db tbl s))"
    unfolding s'(1) Some ids by (simp del: set_map)
  moreover have "status \<noteq> 204 \<longrightarrow> s' = s" unfolding s' using deleteWhere_none [OF assms(1), of sid] by (simp del: set_map split: if_split)
  moreover have "hs_inv s'" unfolding s'(1) by (rule inv)
  moreover have "status = (case Atoi raw of None \<Rightarrow> 400 | Some sid \<Rightarrow> if sid \<in> set (snapshot_ids s) then 204 else 404)"
    unfolding Some option.simps by (rule s'(2))
  ultimately show ?thesis by metis
qed

theorem delete_snapshot_api_witness:
  "fst (fst (handleDeleteSnapshot None ''2'' sample_store)) = 204 \<and> fst (handleGetSnapshot None ''2'' (snd (handleDeleteSnapshot None ''2'' sample_store))) = 404"
proof -
  have inv: "hs_inv sample_store" by (simp add: sample_store_def hs_inv_CreateSnapshot)
  obtain status body s' where d: "handleDeleteSnapshot None ''2'' sample_store = ((status, body), s')" by (metis prod.exhaust)
  have "Atoi ''2'' = Some 2" "2 \<in> set (snapshot_ids sample_store)" by code_simp+
  with delete_snapshot_api [OF inv d, of sample_codec "[]" "[]"] show ?thesis unfolding d by simp
qed

text \<open>
  Rows and differences of a snapshot that does not exist are answered with 200 and an empty result, where its metadata and its
  export are answered with 404.
\<close>

lemma unknown_snapshot_is_empty:
  assumes "hs_inv s" "Atoi raw = Some sid" "sid \<notin> set (snapshot_ids s)" "raw \<noteq> []"
  shows "handleGetSnapshotRows co None raw db tbl s = (200, HBody [])" "fst (handleGetSnapshot None raw s) = 404"
    and "handleDiffSnapshots co None None raw raw [] s = (200, HBody \<lparr>dr_FromID = sid, dr_ToID = sid, dr_Tables = []\<rparr>)"
  using assms(2-4)
  by (simp_all add: handleGetSnapshotRows_def withID_def rows_unknown [OF assms(1,3)] handleGetSnapshot_status handleDiffSnapshots_def
      DiffSnapshots_def splitFilter_def diffTables_def groupRows_def Let_def del: set_map split: prod.split)

section \<open>Failover over the API\<close>

text \<open>A planning request that the rate limiter refuses is answered with 500, where the other planning requests get 429.\<close>

lemma failover_rate_limited_is_500:
  assumes "fst (Failover env order view g c w e) = Err ErrRateLimited" "g \<noteq> []" "c \<noteq> []"
  shows "fst (handleFailover env order view (BodyOk (g, c)) w e) = (500, HInternal)" "fst (writeEngineError ErrRateLimited) = 429"
  using assms
  by (auto simp: handleFailover_def decoded_def decodeJSONBody_def planned_def writeFailoverError_def writeEngineError_def split: prod.split)

end
