(* ===== verification/Ovsdb_Client.thy ===== *)
theory Ovsdb_Client
  imports Cluster_Registry
begin

text \<open>
  \<^verbatim>\<open>internal/ovsdb/client.go\<close>: the monitors that fill the caches of the northbound and southbound databases, how they are built,
  suspended for a snapshot session and resumed, and which clients are closed when connecting fails.

  \<^item> The libovsdb client is a parameter: a state of type \<open>'c\<close> and the operations of \<open>mon_ops\<close> on it, with cookies of type \<open>'k\<close>.
    What it promises about the monitors that are live on the server is \<open>mon_law\<close>, after RFC 7047 (monitor, monitor_cancel).
  \<^item> A context that ends during a staged load is the argument \<open>expired\<close>, asked before each wait.
\<close>

section \<open>Options and clients\<close>

record MonitorOptions =
  mn_BatchDelay :: int
  mn_SkipTables :: "string list"
  mn_SkipServerMonitors :: bool

record ('c, 'k) mon_ops =
  mo_MonitorAll :: "'c \<Rightarrow> 'k result \<times> 'c"
  mo_Monitor :: "string list \<Rightarrow> 'c \<Rightarrow> 'k result \<times> 'c"
  mo_Cancel :: "'k \<Rightarrow> 'c \<Rightarrow> error option \<times> 'c"
  mo_Purge :: "'c \<Rightarrow> 'c"
  mo_Connect :: "'c \<Rightarrow> error option \<times> 'c"
  mo_Connected :: "'c \<Rightarrow> bool"

text \<open>The best-effort monitor of the \<^verbatim>\<open>_Server\<close> database of one endpoint.\<close>

record 'c MemberMonitor =
  mb_Endpoint :: string
  mb_Client :: "'c option"

record ('c, 'k) OVNDatabases =
  od_NB :: 'c
  od_SB :: 'c
  od_NBServers :: "'c MemberMonitor list"
  od_SBServers :: "'c MemberMonitor list"
  od_nbModel :: "string list"
  od_sbModel :: "string list"
  od_mon :: MonitorOptions
  od_nbCookies :: "'k list"
  od_sbCookies :: "'k list"
  od_suspended :: bool

definition endpointList :: "string \<Rightarrow> string list" where
  "endpointList addr = filter (\<lambda>p. p \<noteq> []) (map TrimSpace (splitByte (CHR '','') addr))"

section \<open>Building the monitors\<close>

text \<open>A database model is the list of its table names, in the order the map of types is visited.\<close>

definition skipped :: "string list \<Rightarrow> string \<Rightarrow> bool" where
  "skipped skip name = (name \<in> set (filter (\<lambda>s. s \<noteq> []) (map TrimSpace skip)))"

definition monitoredTables :: "string list \<Rightarrow> string list \<Rightarrow> string list" where
  "monitoredTables types skip = sort_slice (<) (filter (\<lambda>name. \<not> skipped skip name) types)"

text \<open>The staged load: \<open>i\<close> tables are loaded, with the cookies so far.\<close>

fun stagedLoad ::
    "('c, 'k) mon_ops \<Rightarrow> (nat \<Rightarrow> error option) \<Rightarrow> string list \<Rightarrow> nat \<Rightarrow> 'k list \<Rightarrow> 'c \<Rightarrow> 'k list result \<times> 'c" where
  "stagedLoad ops expired [] i cookies c = (Ok cookies, c)"
| "stagedLoad ops expired (t # ts) i cookies c =
    (case (if i > 0 then expired i else None) of
       Some err \<Rightarrow> (Err err, c)
     | None \<Rightarrow> (case mo_Monitor ops [t] c of
         (Err err, c) \<Rightarrow> (Err (Wrapf ''monitoring table %s: %w'' [AStr t] err), c)
       | (Ok ck, c) \<Rightarrow> stagedLoad ops expired ts (Suc i) (cookies @ [ck]) c))"

definition one :: "'k result \<times> 'c \<Rightarrow> 'k list result \<times> 'c" where
  "one r = (case r of (Err err, c) \<Rightarrow> (Err err, c) | (Ok ck, c) \<Rightarrow> (Ok [ck], c))"

definition startMonitor ::
    "('c, 'k) mon_ops \<Rightarrow> (nat \<Rightarrow> error option) \<Rightarrow> string list \<Rightarrow> MonitorOptions \<Rightarrow> 'c \<Rightarrow> 'k list result \<times> 'c" where
  "startMonitor ops expired types mon c =
    (if mn_BatchDelay mon \<le> 0 \<and> mn_SkipTables mon = [] then one (mo_MonitorAll ops c)
     else let tables = monitoredTables types (mn_SkipTables mon)
          in if tables = [] then (Err (Errorf ''no tables left to monitor after applying skip list'' []), c)
             else if mn_BatchDelay mon \<le> 0 then one (mo_Monitor ops tables c)
             else stagedLoad ops expired tables 0 [] c)"

definition ConnectTimeout :: "MonitorOptions \<Rightarrow> int \<Rightarrow> string list \<Rightarrow> string list \<Rightarrow> int" where
  "ConnectTimeout m base nbModel sbModel =
    (if mn_BatchDelay m \<le> 0 then base
     else let n = length (monitoredTables nbModel (mn_SkipTables m)); s = length (monitoredTables sbModel (mn_SkipTables m))
          in base + mn_BatchDelay m * int (if s > n then s else n))"

section \<open>Connecting\<close>

text \<open>One database: the outcome of creating its client, when its context ends, and the text of an error.\<close>

record 'c dial =
  di_new :: "'c result"
  di_expired :: "nat \<Rightarrow> error option"
  di_render :: "error \<Rightarrow> string"

definition connectMonitor ::
    "('c, 'k) mon_ops \<Rightarrow> 'c dial \<Rightarrow> string \<Rightarrow> string list \<Rightarrow> MonitorOptions \<Rightarrow> 'c \<Rightarrow> 'k list result \<times> 'c" where
  "connectMonitor ops d addr types mon c = (case mo_Connect ops c of
     (Some err, c) \<Rightarrow> (Err (Wrapf ''connecting to %s: %w'' [AStr addr] (withSchemaHint (di_render d) err ''OVN'' ''24.03'')), c)
   | (None, c) \<Rightarrow> (case startMonitor ops (di_expired d) types mon c of
       (Err err, c) \<Rightarrow> (Err (Wrapf ''monitoring %s: %w'' [AStr addr] err), c)
     | (Ok cookies, c) \<Rightarrow> (Ok cookies, c)))"

text \<open>
  The monitors of \<^verbatim>\<open>_Server\<close>: \<open>full\<close> is the outcome of building its model, \<open>mk\<close> creates the client of an endpoint, which is
  connected on its own.  Also the clients that are closed.
\<close>

definition serverMonitor :: "('c, 'k) mon_ops \<Rightarrow> (string \<Rightarrow> 'c result) \<Rightarrow> string \<Rightarrow> 'c MemberMonitor \<times> 'c list" where
  "serverMonitor ops mk ep = (case mk ep of
     Err err \<Rightarrow> (\<lparr>mb_Endpoint = ep, mb_Client = None\<rparr>, [])
   | Ok c \<Rightarrow> (case mo_Connect ops c of
       (Some err, c) \<Rightarrow> (\<lparr>mb_Endpoint = ep, mb_Client = None\<rparr>, [c])
     | (None, c) \<Rightarrow> (case mo_MonitorAll ops c of
         (Err err, c) \<Rightarrow> (\<lparr>mb_Endpoint = ep, mb_Client = None\<rparr>, [c])
       | (Ok _, c) \<Rightarrow> (\<lparr>mb_Endpoint = ep, mb_Client = Some c\<rparr>, []))))"

definition connectServerMonitors ::
    "('c, 'k) mon_ops \<Rightarrow> error option \<Rightarrow> (string \<Rightarrow> 'c result) \<Rightarrow> string \<Rightarrow> 'c MemberMonitor list \<times> 'c list" where
  "connectServerMonitors ops full mk addr =
    (let eps = endpointList addr
     in if eps = [] then ([], [])
        else if full \<noteq> None then ([], [])
        else (map (fst \<circ> serverMonitor ops mk) eps, concat (map (snd \<circ> serverMonitor ops mk) eps)))"

text \<open>The result, and the clients that were closed. The two databases are dialled concurrently and independently.\<close>

definition Connect ::
    "('c, 'k) mon_ops \<Rightarrow> 'c dial \<Rightarrow> 'c dial \<Rightarrow> error option \<Rightarrow> (string \<Rightarrow> 'c result) \<Rightarrow> string \<Rightarrow> string \<Rightarrow> string list \<Rightarrow>
      string list \<Rightarrow> MonitorOptions \<Rightarrow> ('c, 'k) OVNDatabases result \<times> 'c list" where
  "Connect ops nb sb full mk nbAddr sbAddr nbModel sbModel mon = (case di_new nb of
     Err err \<Rightarrow> (Err (Wrapf ''creating NB client: %w'' [] err), [])
   | Ok nbClient \<Rightarrow> (case di_new sb of
       Err err \<Rightarrow> (Err (Wrapf ''creating SB client: %w'' [] err), [nbClient])
     | Ok sbClient \<Rightarrow>
         (case (connectMonitor ops nb nbAddr nbModel mon nbClient, connectMonitor ops sb sbAddr sbModel mon sbClient) of
            ((Err err, n), (_, s)) \<Rightarrow> (Err (Wrapf ''connecting to NB: %w'' [] err), [n, s])
          | ((Ok nbCookies, n), (Err err, s)) \<Rightarrow> (Err (Wrapf ''connecting to SB: %w'' [] err), [n, s])
          | ((Ok nbCookies, n), (Ok sbCookies, s)) \<Rightarrow>
              (let (nbServers, nbClosed) = (if mn_SkipServerMonitors mon then ([], []) else connectServerMonitors ops full mk nbAddr);
                   (sbServers, sbClosed) = (if mn_SkipServerMonitors mon then ([], []) else connectServerMonitors ops full mk sbAddr)
               in (Ok \<lparr>od_NB = n, od_SB = s, od_NBServers = nbServers, od_SBServers = sbServers,
                       od_nbModel = nbModel, od_sbModel = sbModel, od_mon = mon,
                       od_nbCookies = nbCookies, od_sbCookies = sbCookies, od_suspended = False\<rparr>, nbClosed @ sbClosed)))))"

text \<open>The clients a call of \<open>Close\<close> closes.\<close>

definition od_Close :: "('c, 'k) OVNDatabases \<Rightarrow> 'c list" where
  "od_Close d = od_NB d # od_SB d # List.map_filter mb_Client (od_NBServers d) @ List.map_filter mb_Client (od_SBServers d)"

section \<open>Suspending and resuming\<close>

definition od_Ready :: "('c, 'k) mon_ops \<Rightarrow> ('c, 'k) OVNDatabases \<Rightarrow> bool" where
  "od_Ready ops d = (mo_Connected ops (od_NB d) \<and> mo_Connected ops (od_SB d) \<and> \<not> od_suspended d)"

fun cancelAll :: "('c, 'k) mon_ops \<Rightarrow> string \<Rightarrow> 'k list \<Rightarrow> 'c \<Rightarrow> (string \<times> error) list \<times> 'c" where
  "cancelAll ops db [] c = ([], c)"
| "cancelAll ops db (ck # cks) c =
    (let (err, c) = mo_Cancel ops ck c; (errs, c) = cancelAll ops db cks c
     in (case err of None \<Rightarrow> errs | Some e \<Rightarrow> (db, e) # errs, c))"

definition SuspendMonitors :: "('c, 'k) mon_ops \<Rightarrow> ('c, 'k) OVNDatabases \<Rightarrow> error option \<times> ('c, 'k) OVNDatabases" where
  "SuspendMonitors ops d =
    (if od_suspended d then (None, d)
     else let (nbErrs, n) = cancelAll ops ''NB: '' (od_nbCookies d) (od_NB d);
              (sbErrs, s) = cancelAll ops ''SB: '' (od_sbCookies d) (od_SB d);
              d = d\<lparr>od_NB := mo_Purge ops n, od_SB := mo_Purge ops s, od_nbCookies := [], od_sbCookies := [], od_suspended := True\<rparr>;
              errs = nbErrs @ sbErrs
          in if errs \<noteq> []
             then (Some (Errorf ''cancelling monitors: %s'' (concat (map (\<lambda>(db, e). [AStr db, AErr e]) errs))), d)
             else (None, d))"

definition ResumeMonitors ::
    "('c, 'k) mon_ops \<Rightarrow> (nat \<Rightarrow> error option) \<Rightarrow> ('c, 'k) OVNDatabases \<Rightarrow> error option \<times> ('c, 'k) OVNDatabases" where
  "ResumeMonitors ops expired d =
    (if \<not> od_suspended d then (None, d)
     else case startMonitor ops expired (od_nbModel d) (od_mon d) (od_NB d) of
         (Err err, n) \<Rightarrow> (Some (Wrapf ''re-monitoring NB: %w'' [] err), d\<lparr>od_NB := n\<rparr>)
       | (Ok nbCookies, n) \<Rightarrow> (case startMonitor ops expired (od_sbModel d) (od_mon d) (od_SB d) of
           (Err err, s) \<Rightarrow> (Some (Wrapf ''re-monitoring SB: %w'' [] err), d\<lparr>od_NB := n, od_SB := s\<rparr>)
         | (Ok sbCookies, s) \<Rightarrow> (None, d\<lparr>od_NB := n, od_SB := s, od_nbCookies := nbCookies, od_sbCookies := sbCookies,
             od_suspended := False\<rparr>)))"

section \<open>What the client library promises\<close>

text \<open>\<open>live\<close> lists the monitors that are live on the server with their tables, \<open>tables\<close> the tables of the model.\<close>

definition mon_law :: "('c, 'k) mon_ops \<Rightarrow> ('c \<Rightarrow> ('k \<times> string list) list) \<Rightarrow> ('c \<Rightarrow> string list) \<Rightarrow> bool" where
  "mon_law ops live tables = (\<forall>c.
     (\<forall>r c'. mo_MonitorAll ops c = (r, c') \<longrightarrow> tables c' = tables c \<and>
        (case r of Err _ \<Rightarrow> live c' = live c | Ok k \<Rightarrow> k \<notin> fst ` set (live c) \<and> live c' = live c @ [(k, tables c)])) \<and>
     (\<forall>ts r c'. mo_Monitor ops ts c = (r, c') \<longrightarrow> tables c' = tables c \<and>
        (case r of Err _ \<Rightarrow> live c' = live c | Ok k \<Rightarrow> k \<notin> fst ` set (live c) \<and> live c' = live c @ [(k, ts)])) \<and>
     (\<forall>k c'. mo_Cancel ops k c = (None, c') \<longrightarrow> tables c' = tables c \<and> live c' = filter (\<lambda>m. fst m \<noteq> k) (live c)) \<and>
     live (mo_Purge ops c) = live c \<and> tables (mo_Purge ops c) = tables c \<and>
     (\<forall>c'. mo_Connect ops c = (None, c') \<longrightarrow> live c' = live c \<and> tables c' = tables c))"

lemma mon_lawD:
  assumes "mon_law ops live tables"
  shows "mo_MonitorAll ops c = (Ok k, c') \<Longrightarrow> tables c' = tables c \<and> k \<notin> fst ` set (live c) \<and> live c' = live c @ [(k, tables c)]"
    and "mo_Monitor ops ts c = (Ok k, c') \<Longrightarrow> tables c' = tables c \<and> k \<notin> fst ` set (live c) \<and> live c' = live c @ [(k, ts)]"
    and "mo_Cancel ops k c = (None, c') \<Longrightarrow> tables c' = tables c \<and> live c' = filter (\<lambda>m. fst m \<noteq> k) (live c)"
    and "live (mo_Purge ops c) = live c" "tables (mo_Purge ops c) = tables c"
    and "mo_Connect ops c = (None, c') \<Longrightarrow> live c' = live c \<and> tables c' = tables c"
proof -
  note law = assms [unfolded mon_law_def, THEN spec [of _ c]]
  note all = law [THEN conjunct1, rule_format]
    and some = law [THEN conjunct2, THEN conjunct1, rule_format]
    and cancel = law [THEN conjunct2, THEN conjunct2, THEN conjunct1, rule_format]
    and purge = law [THEN conjunct2, THEN conjunct2, THEN conjunct2]
  show "mo_MonitorAll ops c = (Ok k, c') \<Longrightarrow> tables c' = tables c \<and> k \<notin> fst ` set (live c) \<and> live c' = live c @ [(k, tables c)]"
    using all [of "Ok k" c'] by simp
  show "mo_Monitor ops ts c = (Ok k, c') \<Longrightarrow> tables c' = tables c \<and> k \<notin> fst ` set (live c) \<and> live c' = live c @ [(k, ts)]"
    using some [of ts "Ok k" c'] by simp
  show "mo_Cancel ops k c = (None, c') \<Longrightarrow> tables c' = tables c \<and> live c' = filter (\<lambda>m. fst m \<noteq> k) (live c)"
    by (rule cancel)
  show "live (mo_Purge ops c) = live c" "tables (mo_Purge ops c) = tables c" using purge by simp_all
  show "mo_Connect ops c = (None, c') \<Longrightarrow> live c' = live c \<and> tables c' = tables c" using purge by simp
qed

section \<open>Every table is monitored exactly once\<close>

definition wanted :: "MonitorOptions \<Rightarrow> string list \<Rightarrow> string list" where
  "wanted mon types = filter (\<lambda>name. \<not> skipped (mn_SkipTables mon) name) types"

definition adds :: "('c \<Rightarrow> ('k \<times> string list) list) \<Rightarrow> ('c \<Rightarrow> string list) \<Rightarrow> 'c \<Rightarrow> 'k list \<Rightarrow> string list \<Rightarrow> 'c \<Rightarrow> bool" where
  "adds live tables c ks ts c' = (tables c' = tables c \<and> distinct (map fst (live c')) \<and>
     (\<exists>new. live c' = live c @ new \<and> map fst new = ks \<and> mset (concat (map snd new)) = mset ts))"

lemma stagedLoad_Ok:
  assumes "mon_law ops live tables" "stagedLoad ops expired ts i ks0 c = (Ok ks, c')" "distinct (map fst (live c))"
  shows "\<exists>ks'. ks = ks0 @ ks' \<and> adds live tables c ks' ts c'"
  using assms(2,3)
proof (induction ts arbitrary: i ks0 c)
  case (Cons t ts)
  from Cons.prems(1) obtain k c1 where k: "mo_Monitor ops [t] c = (Ok k, c1)" "stagedLoad ops expired ts (Suc i) (ks0 @ [k]) c1 = (Ok ks, c')"
    by (auto split: option.splits prod.splits sum.splits if_splits)
  note l = mon_lawD(2) [OF assms(1) k(1)]
  from l Cons.prems(2) have "distinct (map fst (live c1))" by auto
  from Cons.IH [OF k(2) this] obtain ks' where ks': "ks = (ks0 @ [k]) @ ks'" "adds live tables c1 ks' ts c'" by blast
  from ks'(2) obtain new where new: "tables c' = tables c1" "distinct (map fst (live c'))" "live c' = live c1 @ new"
      "map fst new = ks'" "mset (concat (map snd new)) = mset ts"
    unfolding adds_def by blast
  have "adds live tables c (k # ks') (t # ts) c'"
    unfolding adds_def by (intro conjI exI [of _ "(k, [t]) # new"]) (use l new in simp_all)
  with ks'(1) show ?case by (intro exI [of _ "k # ks'"]) simp
qed (simp add: adds_def)

lemma startMonitor_Ok:
  assumes "mon_law ops live tables" "startMonitor ops expired (tables c) mon c = (Ok ks, c')" "distinct (map fst (live c))"
  shows "adds live tables c ks (wanted mon (tables c)) c'"
proof -
  let ?ts = "monitoredTables (tables c) (mn_SkipTables mon)"
  have ts: "mset ?ts = mset (wanted mon (tables c))" by (simp add: monitoredTables_def wanted_def)
  consider (all) k where "mo_MonitorAll ops c = (Ok k, c')" "ks = [k]" "mn_SkipTables mon = []"
    | (single) k where "mo_Monitor ops ?ts c = (Ok k, c')" "ks = [k]"
    | (staged) "stagedLoad ops expired ?ts 0 [] c = (Ok ks, c')"
    using assms(2) by (auto simp: startMonitor_def one_def split: if_splits prod.splits sum.splits)
  then show ?thesis
  proof cases
    case all
    have "wanted mon (tables c) = tables c" by (simp add: wanted_def skipped_def all(3))
    with mon_lawD(1) [OF assms(1) all(1)] all(2) assms(3) show ?thesis by (auto simp: adds_def)
  next
    case single
    with mon_lawD(2) [OF assms(1) single(1)] assms(3) ts show ?thesis by (auto simp: adds_def)
  next
    case staged
    from stagedLoad_Ok [OF assms(1) staged assms(3)] ts show ?thesis by (auto simp: adds_def)
  qed
qed

lemma cancelAll_Ok:
  assumes "mon_law ops live tables" "cancelAll ops db ks c = ([], c')"
  shows "tables c' = tables c \<and> live c' = filter (\<lambda>m. fst m \<notin> set ks) (live c)"
  using assms(2)
proof (induction ks arbitrary: c)
  case (Cons k ks)
  from Cons.prems obtain c1 where k: "mo_Cancel ops k c = (None, c1)" "cancelAll ops db ks c1 = ([], c')"
    by (auto split: prod.splits option.splits)
  from Cons.IH [OF k(2)] mon_lawD(3) [OF assms(1) k(1)] show ?case by (auto intro: filter_cong)
qed simp

text \<open>The remembered cookies are those of the live monitors, which cover the wanted tables once; nothing is live while suspended.\<close>

definition covers :: "('c \<Rightarrow> ('k \<times> string list) list) \<Rightarrow> ('c \<Rightarrow> string list) \<Rightarrow> MonitorOptions \<Rightarrow> string list \<Rightarrow> bool \<Rightarrow> 'k list \<Rightarrow> 'c \<Rightarrow> bool" where
  "covers live tables mon types suspended ks c = (tables c = types \<and> map fst (live c) = ks \<and> distinct ks \<and>
     mset (concat (map snd (live c))) = (if suspended then {#} else mset (wanted mon types)) \<and> (suspended \<longrightarrow> live c = []))"

definition tracked :: "('c \<Rightarrow> ('k \<times> string list) list) \<Rightarrow> ('c \<Rightarrow> string list) \<Rightarrow> ('c, 'k) OVNDatabases \<Rightarrow> bool" where
  "tracked live tables d =
    (covers live tables (od_mon d) (od_nbModel d) (od_suspended d) (od_nbCookies d) (od_NB d) \<and>
     covers live tables (od_mon d) (od_sbModel d) (od_suspended d) (od_sbCookies d) (od_SB d))"

lemma startMonitor_covers:
  assumes "mon_law ops live tables" "startMonitor ops expired types mon c = (Ok ks, c')" "live c = []" "tables c = types"
  shows "covers live tables mon types False ks c'"
  using startMonitor_Ok [of ops live tables expired c mon ks c'] assms by (auto simp: adds_def covers_def)

lemma cancelAll_covers:
  assumes "mon_law ops live tables" "cancelAll ops db ks c = ([], c')" "covers live tables mon types b ks c"
  shows "covers live tables mon types True [] (mo_Purge ops c')"
proof -
  from assms(3) have "ks = map fst (live c)" unfolding covers_def by simp
  then have "set ks = fst ` set (live c)" by force
  then have "live c' = []" using cancelAll_Ok [OF assms(1,2)] by (simp add: filter_empty_conv)
  then show ?thesis using cancelAll_Ok [OF assms(1,2)] assms(3) mon_lawD(4,5) [OF assms(1), of c'] by (simp add: covers_def)
qed

lemma SuspendMonitors_tracked:
  assumes "mon_law ops live tables" "tracked live tables d" "SuspendMonitors ops d = (None, d')"
  shows "tracked live tables d' \<and> od_suspended d' \<and> od_mon d' = od_mon d \<and> od_nbModel d' = od_nbModel d \<and> od_sbModel d' = od_sbModel d"
proof (cases "od_suspended d")
  case False
  obtain ne n where n: "cancelAll ops ''NB: '' (od_nbCookies d) (od_NB d) = (ne, n)" by force
  obtain se s where s: "cancelAll ops ''SB: '' (od_sbCookies d) (od_SB d) = (se, s)" by force
  from assms(3) False n s have e: "ne = []" "se = []"
    and d': "d' = d\<lparr>od_NB := mo_Purge ops n, od_SB := mo_Purge ops s, od_nbCookies := [], od_sbCookies := [], od_suspended := True\<rparr>"
    by (auto simp: SuspendMonitors_def split: if_splits)
  with assms(2) n s cancelAll_covers [OF assms(1)] show ?thesis by (auto simp: tracked_def)
qed (use assms in \<open>simp add: SuspendMonitors_def\<close>)

lemma ResumeMonitors_tracked:
  assumes "mon_law ops live tables" "tracked live tables d" "ResumeMonitors ops expired d = (None, d')"
  shows "tracked live tables d' \<and> \<not> od_suspended d' \<and> od_mon d' = od_mon d \<and> od_nbModel d' = od_nbModel d \<and> od_sbModel d' = od_sbModel d"
proof (cases "od_suspended d")
  case True
  with assms(3) obtain nks n sks s where r: "startMonitor ops expired (od_nbModel d) (od_mon d) (od_NB d) = (Ok nks, n)"
      "startMonitor ops expired (od_sbModel d) (od_mon d) (od_SB d) = (Ok sks, s)"
      "d' = d\<lparr>od_NB := n, od_SB := s, od_nbCookies := nks, od_sbCookies := sks, od_suspended := False\<rparr>"
    by (auto simp: ResumeMonitors_def split: prod.splits sum.splits)
  with True assms(2) startMonitor_covers [OF assms(1) r(1)] startMonitor_covers [OF assms(1) r(2)] show ?thesis
    by (auto simp: tracked_def covers_def)
qed (use assms in \<open>simp add: ResumeMonitors_def\<close>)

text \<open>A call that succeeded, a sequence of such calls.\<close>

datatype mon_call = Suspend | Resume "nat \<Rightarrow> error option"

fun mon_step :: "('c, 'k) mon_ops \<Rightarrow> mon_call \<Rightarrow> ('c, 'k) OVNDatabases \<Rightarrow> error option \<times> ('c, 'k) OVNDatabases" where
  "mon_step ops Suspend d = SuspendMonitors ops d"
| "mon_step ops (Resume expired) d = ResumeMonitors ops expired d"

fun mon_run :: "('c, 'k) mon_ops \<Rightarrow> mon_call list \<Rightarrow> ('c, 'k) OVNDatabases \<Rightarrow> ('c, 'k) OVNDatabases option" where
  "mon_run ops [] d = Some d"
| "mon_run ops (call # calls) d = (case mon_step ops call d of (None, d) \<Rightarrow> mon_run ops calls d | (Some _, _) \<Rightarrow> None)"

definition same_conf :: "('c, 'k) OVNDatabases \<Rightarrow> ('c, 'k) OVNDatabases \<Rightarrow> bool" where
  "same_conf d d' = (od_mon d' = od_mon d \<and> od_nbModel d' = od_nbModel d \<and> od_sbModel d' = od_sbModel d)"

lemma mon_step_tracked:
  assumes "mon_law ops live tables" "tracked live tables d" "mon_step ops call d = (None, d')"
  shows "tracked live tables d' \<and> same_conf d d'"
proof (cases call)
  case Suspend
  from SuspendMonitors_tracked [OF assms(1,2)] assms(3) Suspend show ?thesis by (simp add: same_conf_def)
next
  case (Resume expired)
  from ResumeMonitors_tracked [OF assms(1,2)] assms(3) Resume show ?thesis by (simp add: same_conf_def)
qed

lemma mon_run_tracked:
  assumes "mon_law ops live tables"
  shows "mon_run ops calls d = Some d' \<Longrightarrow> tracked live tables d \<Longrightarrow> tracked live tables d' \<and> same_conf d d'"
proof (induction calls arbitrary: d)
  case (Cons call calls)
  from Cons.prems(1) obtain d1 where d1: "mon_step ops call d = (None, d1)" "mon_run ops calls d1 = Some d'"
    by (auto split: prod.splits option.splits)
  from mon_step_tracked [OF assms Cons.prems(2) d1(1)] Cons.IH [OF d1(2)] show ?case by (simp add: same_conf_def)
qed (simp add: same_conf_def)

lemma connectMonitor_covers:
  assumes "mon_law ops live tables" "connectMonitor ops d addr types mon c = (Ok ks, c')" "live c = []" "tables c = types"
  shows "covers live tables mon types False ks c'"
proof -
  from assms(2) obtain c1 where c1: "mo_Connect ops c = (None, c1)" "startMonitor ops (di_expired d) types mon c1 = (Ok ks, c')"
    by (auto simp: connectMonitor_def split: prod.splits option.splits sum.splits)
  from mon_lawD(6) [OF assms(1) c1(1)] assms(3,4) startMonitor_covers [OF assms(1) c1(2)] show ?thesis by simp
qed

lemma Connect_Ok:
  assumes "Connect ops nb sb full mk nbAddr sbAddr nbModel sbModel mon = (Ok d, shut)"
  obtains n0 n s0 s where "di_new nb = Ok n0" "di_new sb = Ok s0"
    "connectMonitor ops nb nbAddr nbModel mon n0 = (Ok (od_nbCookies d), n)"
    "connectMonitor ops sb sbAddr sbModel mon s0 = (Ok (od_sbCookies d), s)"
    "od_NB d = n" "od_SB d = s" "od_mon d = mon" "od_nbModel d = nbModel" "od_sbModel d = sbModel" "\<not> od_suspended d"
  using assms by (auto simp: Connect_def Let_def split: sum.splits prod.splits)

lemma Connect_tracked:
  assumes "mon_law ops live tables"
    and "Connect ops nb sb full mk nbAddr sbAddr nbModel sbModel mon = (Ok d, shut)"
    and "\<forall>c. di_new nb = Ok c \<longrightarrow> live c = [] \<and> tables c = nbModel" "\<forall>c. di_new sb = Ok c \<longrightarrow> live c = [] \<and> tables c = sbModel"
  shows "tracked live tables d \<and> od_mon d = mon \<and> od_nbModel d = nbModel \<and> od_sbModel d = sbModel"
  using assms(2)
proof (cases rule: Connect_Ok)
  case (1 n0 n s0 s)
  with assms(3,4) connectMonitor_covers [OF assms(1) 1(3)] connectMonitor_covers [OF assms(1) 1(4)]
  show ?thesis by (simp add: tracked_def)
qed

text \<open>
  C34. From connecting through any sequence of successful suspensions and resumptions, every table that is not skipped is monitored
  exactly once, and none while the monitors are suspended.
\<close>

theorem monitors_exact:
  assumes "mon_law ops live tables"
    and "Connect ops nb sb full mk nbAddr sbAddr nbModel sbModel mon = (Ok d0, shut)"
    and "\<forall>c. di_new nb = Ok c \<longrightarrow> live c = [] \<and> tables c = nbModel" "\<forall>c. di_new sb = Ok c \<longrightarrow> live c = [] \<and> tables c = sbModel"
    and "mon_run ops calls d0 = Some d"
  shows "(od_suspended d \<longrightarrow> live (od_NB d) = [] \<and> live (od_SB d) = []) \<and>
    (\<not> od_suspended d \<longrightarrow>
       mset (concat (map snd (live (od_NB d)))) = mset (wanted mon nbModel) \<and>
       mset (concat (map snd (live (od_SB d)))) = mset (wanted mon sbModel))"
proof -
  note d0 = Connect_tracked [OF assms(1,2,3,4)]
  with mon_run_tracked [OF assms(1) assms(5)] have "tracked live tables d" "same_conf d0 d" by simp_all
  with d0 show ?thesis by (auto simp: tracked_def covers_def same_conf_def)
qed

text \<open>A client that lists its monitors beside the tables of its model.\<close>

definition list_ops :: "(string list \<times> (nat \<times> string list) list, nat) mon_ops" where
  "list_ops = \<lparr>mo_MonitorAll = (\<lambda>(ts, ms). let k = Suc (sum_list (map fst ms)) in (Ok k, (ts, ms @ [(k, ts)]))),
     mo_Monitor = (\<lambda>sel (ts, ms). let k = Suc (sum_list (map fst ms)) in (Ok k, (ts, ms @ [(k, sel)]))),
     mo_Cancel = (\<lambda>k (ts, ms). (None, (ts, filter (\<lambda>m. fst m \<noteq> k) ms))),
     mo_Purge = (\<lambda>c. c), mo_Connect = (\<lambda>c. (None, c)), mo_Connected = (\<lambda>_. True)\<rparr>"

lemma fresh_key: "Suc (sum_list (map fst ms)) \<notin> fst ` set ms" for ms :: "(nat \<times> 'a) list"
proof
  assume "Suc (sum_list (map fst ms)) \<in> fst ` set ms"
  then have "Suc (sum_list (map fst ms)) \<in> set (map fst ms)" by force
  from member_le_sum_list [OF this] show False by simp
qed

lemma list_ops_law: "mon_law list_ops snd fst"
  unfolding mon_law_def list_ops_def by (auto simp: Let_def fresh_key split: prod.splits)

definition ex_mon :: MonitorOptions where
  "ex_mon = \<lparr>mn_BatchDelay = 5, mn_SkipTables = ['' FDB ''], mn_SkipServerMonitors = True\<rparr>"

definition ex_dial :: "string list \<Rightarrow> (string list \<times> (nat \<times> string list) list) dial" where
  "ex_dial ts = \<lparr>di_new = Ok (ts, []), di_expired = (\<lambda>_. None), di_render = (\<lambda>_. [])\<rparr>"

definition ex_dbs :: "(string list \<times> (nat \<times> string list) list, nat) OVNDatabases" where
  "ex_dbs = \<lparr>od_NB = ([''ACL''], [(1, [''ACL''])]),
     od_SB = ([''FDB'', ''Encap'', ''Chassis''], [(1, [''Chassis'']), (2, [''Encap''])]),
     od_NBServers = [], od_SBServers = [], od_nbModel = [''ACL''], od_sbModel = [''FDB'', ''Encap'', ''Chassis''], od_mon = ex_mon,
     od_nbCookies = [1], od_sbCookies = [1, 2], od_suspended = False\<rparr>"

lemma ex_tables:
  "monitoredTables [''ACL''] ['' FDB ''] = [''ACL'']"
  "monitoredTables [''FDB'', ''Encap'', ''Chassis''] ['' FDB ''] = [''Chassis'', ''Encap'']"
  by code_simp+

lemmas ex_simps = ex_tables ex_mon_def list_ops_def startMonitor_def one_def Let_def numeral_2_eq_2

lemma ex_Connect:
  "Connect list_ops (ex_dial [''ACL'']) (ex_dial [''FDB'', ''Encap'', ''Chassis'']) None (\<lambda>_. Err ErrNotFound) ''n'' ''s''
     [''ACL''] [''FDB'', ''Encap'', ''Chassis''] ex_mon = (Ok ex_dbs, [])"
  by (simp add: Connect_def connectMonitor_def ex_dial_def ex_dbs_def ex_simps)

lemma ex_Suspend:
  "SuspendMonitors list_ops ex_dbs = (None, ex_dbs\<lparr>od_NB := ([''ACL''], []), od_SB := ([''FDB'', ''Encap'', ''Chassis''], []),
     od_nbCookies := [], od_sbCookies := [], od_suspended := True\<rparr>)"
  by (simp add: SuspendMonitors_def ex_dbs_def ex_simps)

lemma ex_Resume:
  "ResumeMonitors list_ops (\<lambda>_. None) (ex_dbs\<lparr>od_NB := ([''ACL''], []), od_SB := ([''FDB'', ''Encap'', ''Chassis''], []),
     od_nbCookies := [], od_sbCookies := [], od_suspended := True\<rparr>) = (None, ex_dbs)"
  by (simp add: ResumeMonitors_def ex_dbs_def ex_simps)

theorem monitors_exact_witness:
  "mon_run list_ops [Suspend, Resume (\<lambda>_. None)] ex_dbs = Some ex_dbs \<and>
   mset (concat (map snd (snd (od_SB ex_dbs)))) = mset (wanted ex_mon [''FDB'', ''Encap'', ''Chassis''])"
proof -
  have run: "mon_run list_ops [Suspend, Resume (\<lambda>_. None)] ex_dbs = Some ex_dbs" by (simp add: ex_Suspend ex_Resume)
  have "\<not> od_suspended ex_dbs" by (simp add: ex_dbs_def)
  with monitors_exact [OF list_ops_law ex_Connect _ _ run] run show ?thesis by (simp add: ex_dial_def)
qed

section \<open>What goes wrong when a call fails\<close>

text \<open>
  A resume whose second staged load is cut short forgets the cookies of the first.  The next one succeeds, monitors the tables of
  the northbound database a second time, and the suspension after it leaves a monitor streaming, which no call can cancel.
\<close>

definition ex_cut :: "nat \<Rightarrow> error option" where
  "ex_cut = (\<lambda>_. Some (ErrOther ''context deadline exceeded''))"

lemma resume_failure_leaks:
  shows "\<exists>err d1 d2 d3.
    ResumeMonitors list_ops ex_cut (snd (SuspendMonitors list_ops ex_dbs)) = (Some err, d1) \<and>
    ResumeMonitors list_ops (\<lambda>_. None) d1 = (None, d2) \<and> map snd (snd (od_NB d2)) = [[''ACL''], [''ACL'']] \<and>
    SuspendMonitors list_ops d2 = (None, d3) \<and> snd (od_NB d3) \<noteq> [] \<and> od_nbCookies d3 = []"
  by (simp add: ex_Suspend ResumeMonitors_def SuspendMonitors_def ex_cut_def ex_dbs_def ex_simps)

section \<open>No client is left open\<close>

text \<open>\<open>cid\<close> identifies a client, through every operation on it.\<close>

definition same_client :: "('c, 'k) mon_ops \<Rightarrow> ('c \<Rightarrow> 'i) \<Rightarrow> bool" where
  "same_client ops cid = (\<forall>c. cid (snd (mo_MonitorAll ops c)) = cid c \<and> (\<forall>ts. cid (snd (mo_Monitor ops ts c)) = cid c) \<and>
     cid (snd (mo_Connect ops c)) = cid c)"

lemma same_clientD:
  assumes "same_client ops cid"
  shows "mo_MonitorAll ops c = (r, c') \<Longrightarrow> cid c' = cid c" "mo_Monitor ops ts c = (r, c') \<Longrightarrow> cid c' = cid c"
    "mo_Connect ops c = (e, c') \<Longrightarrow> cid c' = cid c"
  using assms unfolding same_client_def by (metis snd_conv)+

lemma stagedLoad_cid:
  assumes "same_client ops cid"
  shows "stagedLoad ops expired ts i ks c = (r, c') \<Longrightarrow> cid c' = cid c"
proof (induction ts arbitrary: i ks c)
  case (Cons t ts)
  then show ?case
    by (auto split: if_splits option.splits prod.splits sum.splits dest: same_clientD(2) [OF assms])
qed simp

lemma connectMonitor_cid:
  assumes "same_client ops cid" "connectMonitor ops d addr types mon c = (r, c')"
  shows "cid c' = cid c"
proof -
  obtain e c1 where c1: "mo_Connect ops c = (e, c1)" by force
  obtain q c2 where c2: "startMonitor ops (di_expired d) types mon c1 = (q, c2)" by force
  from c2 have "cid c2 = cid c1"
    by (auto simp: startMonitor_def one_def Let_def split: if_splits prod.splits sum.splits
      dest: same_clientD(1,2) [OF assms(1)] stagedLoad_cid [OF assms(1)])
  moreover from assms(2) c1 c2 have "c' = c1 \<or> c' = c2"
    by (auto simp: connectMonitor_def split: option.splits sum.splits)
  ultimately show ?thesis using same_clientD(3) [OF assms(1) c1] by auto
qed

definition held :: "('c \<Rightarrow> 'i) \<Rightarrow> 'c MemberMonitor list \<Rightarrow> 'i multiset" where
  "held cid ms = mset (map cid (List.map_filter mb_Client ms))"

definition made :: "('c \<Rightarrow> 'i) \<Rightarrow> (string \<Rightarrow> 'c result) \<Rightarrow> string list \<Rightarrow> 'i multiset" where
  "made cid mk eps = mset (map cid (List.map_filter (\<lambda>ep. case mk ep of Err _ \<Rightarrow> None | Ok c \<Rightarrow> Some c) eps))"

lemma held_Nil: "held cid [] = {#}"
  by (simp add: held_def List.map_filter_def)

lemma serverMonitor_cid:
  assumes "same_client ops cid"
  shows "mset (map cid (snd (serverMonitor ops mk ep))) + held cid [fst (serverMonitor ops mk ep)] = made cid mk [ep]"
  using same_clientD(1,3) [OF assms]
  by (auto simp: serverMonitor_def held_def made_def List.map_filter_def split: sum.splits prod.splits option.splits)

lemma held_made_Cons:
  "held cid (m # ms) = held cid [m] + held cid ms" "made cid mk (ep # eps) = made cid mk [ep] + made cid mk eps"
  by (simp_all add: held_def made_def List.map_filter_def)

lemma connectServerMonitors_cid:
  assumes "same_client ops cid" "connectServerMonitors ops full mk addr = (ms, cs)"
  shows "mset (map cid cs) + held cid ms = (if full = None then made cid mk (endpointList addr) else {#})"
proof -
  have "mset (map cid (concat (map (snd \<circ> serverMonitor ops mk) eps))) + held cid (map (fst \<circ> serverMonitor ops mk) eps) =
    made cid mk eps" for eps
  proof (induction eps)
    case (Cons ep eps)
    from serverMonitor_cid [OF assms(1), of mk ep, symmetric] Cons [symmetric] show ?case
      by (subst held_made_Cons(2), subst list.map(2), subst held_made_Cons(1)) (simp add: ac_simps comp_def)
  qed (simp add: held_def made_def List.map_filter_def)
  with assms(2) show ?thesis
    by (auto simp: connectServerMonitors_def Let_def held_def made_def List.map_filter_def split: if_splits)
qed

text \<open>The clients a connection attempt creates; those of the members only when both databases are connected.\<close>

definition clients_made ::
    "('c \<Rightarrow> 'i) \<Rightarrow> 'c dial \<Rightarrow> 'c dial \<Rightarrow> error option \<Rightarrow> (string \<Rightarrow> 'c result) \<Rightarrow> string \<Rightarrow> string \<Rightarrow> bool \<Rightarrow> 'i multiset" where
  "clients_made cid nb sb full mk nbAddr sbAddr members = (case di_new nb of
     Err _ \<Rightarrow> {#}
   | Ok n \<Rightarrow> {#cid n#} + (case di_new sb of
       Err _ \<Rightarrow> {#}
     | Ok s \<Rightarrow> {#cid s#} + (if members \<and> full = None then made cid mk (endpointList nbAddr) + made cid mk (endpointList sbAddr) else {#})))"

lemma od_Close_mset:
  "image_mset cid (mset (od_Close d)) = {#cid (od_NB d), cid (od_SB d)#} + held cid (od_NBServers d) + held cid (od_SBServers d)"
  by (simp add: od_Close_def held_def List.map_filter_def multiset.map_comp)

text \<open>Each of them is closed exactly once: by the attempt when it fails or the member cannot be monitored, else by \<open>Close\<close>.\<close>

theorem Connect_no_leak:
  assumes "same_client ops cid" "Connect ops nb sb full mk nbAddr sbAddr nbModel sbModel mon = (r, shut)"
  shows "mset (map cid shut) + (case r of Err _ \<Rightarrow> {#} | Ok d \<Rightarrow> mset (map cid (od_Close d))) =
    clients_made cid nb sb full mk nbAddr sbAddr ((\<exists>d. r = Ok d) \<and> \<not> mn_SkipServerMonitors mon)"
proof (cases "\<exists>n0 s0. di_new nb = Ok n0 \<and> di_new sb = Ok s0")
  case True
  then obtain n0 s0 where new: "di_new nb = Ok n0" "di_new sb = Ok s0" by blast
  obtain q n where n: "connectMonitor ops nb nbAddr nbModel mon n0 = (q, n)" by force
  obtain p s where s: "connectMonitor ops sb sbAddr sbModel mon s0 = (p, s)" by force
  note ids = connectMonitor_cid [OF assms(1) n] connectMonitor_cid [OF assms(1) s]
  obtain nms ncs where nms: "connectServerMonitors ops full mk nbAddr = (nms, ncs)" by force
  obtain sms scs where sms: "connectServerMonitors ops full mk sbAddr = (sms, scs)" by force
  note mem = connectServerMonitors_cid [OF assms(1) nms] connectServerMonitors_cid [OF assms(1) sms]
  have mem2: "mset (map cid ncs) + (mset (map cid scs) + (held cid nms + held cid sms)) =
      (if full = None then made cid mk (endpointList nbAddr) + made cid mk (endpointList sbAddr) else {#})"
  proof (cases full)
    case None
    with mem [symmetric] show ?thesis by (simp add: ac_simps)
  next
    case (Some e)
    with mem show ?thesis by simp
  qed
  show ?thesis
  proof (cases "\<exists>a b. q = Ok a \<and> p = Ok b")
    case True
    then obtain a b where "q = Ok a" "p = Ok b" by blast
    then show ?thesis using assms(2) new n s nms sms ids mem2
      by (cases "mn_SkipServerMonitors mon")
        (auto simp: Connect_def clients_made_def od_Close_mset held_Nil ac_simps)
  next
    case False
    then show ?thesis using assms(2) new n s ids
      by (cases q; cases p) (auto simp: Connect_def clients_made_def)
  qed
next
  case False
  with assms(2) show ?thesis by (cases "di_new nb"; cases "di_new sb") (auto simp: Connect_def clients_made_def)
qed

lemma list_ops_same: "same_client list_ops fst"
  by (auto simp: same_client_def list_ops_def Let_def split: prod.splits)

theorem Connect_no_leak_witness:
  "mset (map fst []) + mset (map fst (od_Close ex_dbs)) =
   clients_made fst (ex_dial [''ACL'']) (ex_dial [''FDB'', ''Encap'', ''Chassis'']) None (\<lambda>_. Err ErrNotFound) ''n'' ''s'' False"
  using Connect_no_leak [OF list_ops_same ex_Connect] by (simp add: ex_mon_def)

section \<open>The deadline of a staged load\<close>

text \<open>
  A server that answers at once is loaded within the time \<open>ConnectTimeout\<close> adds to its base: a context that ends only when the
  waits so far exceed that time does not cut the load of either database short.
\<close>

lemma stagedLoad_complete:
  assumes "\<And>t c. \<exists>k c'. mo_Monitor ops [t] c = (Ok k, c')" "\<And>j. 0 < j \<Longrightarrow> j < i + length ts \<Longrightarrow> expired j = None"
  shows "\<exists>ks c'. stagedLoad ops expired ts i ks0 c = (Ok ks, c')"
  using assms(2)
proof (induction ts arbitrary: i ks0 c)
  case (Cons t ts)
  obtain k c1 where k: "mo_Monitor ops [t] c = (Ok k, c1)" using assms(1) by blast
  from Cons.prems have "expired j = None" if "0 < j" "j < Suc i + length ts" for j using that by simp
  from Cons.IH [of "Suc i" "ks0 @ [k]" c1, OF this] obtain ks c' where "stagedLoad ops expired ts (Suc i) (ks0 @ [k]) c1 = (Ok ks, c')" by blast
  with k Cons.prems [of i] show ?case by (cases "i = 0") simp_all
qed simp

theorem ConnectTimeout_enough:
  assumes "\<And>ts c. \<exists>k c'. mo_Monitor ops ts c = (Ok k, c')" "\<And>c. \<exists>k c'. mo_MonitorAll ops c = (Ok k, c')"
    and "\<And>j. int j * mn_BatchDelay mon < ConnectTimeout mon base nbModel sbModel - base \<Longrightarrow> expired j = None"
    and "types \<in> {nbModel, sbModel}" "wanted mon types \<noteq> []"
  shows "\<exists>ks c'. startMonitor ops expired types mon c = (Ok ks, c')"
proof -
  let ?ts = "monitoredTables types (mn_SkipTables mon)"
  have "set ?ts = set (wanted mon types)" by (auto simp: monitoredTables_def wanted_def)
  then have ne: "?ts \<noteq> []" using assms(5) by force
  show ?thesis
  proof (cases "mn_BatchDelay mon \<le> 0")
    case True
    obtain k c' where "mo_Monitor ops ?ts c = (Ok k, c')" using assms(1) by blast
    moreover obtain k2 c2 where "mo_MonitorAll ops c = (Ok k2, c2)" using assms(2) by blast
    ultimately show ?thesis using True ne by (simp add: startMonitor_def one_def Let_def)
  next
    case False
    have "expired j = None" if j: "0 < j" "j < 0 + length ?ts" for j
    proof (rule assms(3))
      let ?n = "length (monitoredTables nbModel (mn_SkipTables mon))" and ?s = "length (monitoredTables sbModel (mn_SkipTables mon))"
      from j assms(4) have "int j < int (if ?s > ?n then ?s else ?n)" by auto
      with False show "int j * mn_BatchDelay mon < ConnectTimeout mon base nbModel sbModel - base"
        by (simp add: ConnectTimeout_def Let_def mult.commute)
    qed
    with stagedLoad_complete [of ops 0 ?ts expired "[]" c] assms(1) False ne show ?thesis by (simp add: startMonitor_def Let_def)
  qed
qed

theorem ConnectTimeout_enough_witness:
  "\<exists>ks c'. startMonitor list_ops (\<lambda>j. if j < 2 then None else Some ErrNotFound) [''Encap'', ''Chassis''] ex_mon ([], []) = (Ok ks, c')"
proof (rule ConnectTimeout_enough [where base = 30 and nbModel = "[''ACL'']" and sbModel = "[''Encap'', ''Chassis'']"])
  show "\<exists>k c'. mo_Monitor list_ops ts c = (Ok k, c')" "\<exists>k c'. mo_MonitorAll list_ops c = (Ok k, c')" for ts c
    by (simp_all add: list_ops_def Let_def split_beta)
  have "monitoredTables [''ACL''] ['' FDB ''] = [''ACL'']" "monitoredTables [''Encap'', ''Chassis''] ['' FDB ''] = [''Chassis'', ''Encap'']"
    by code_simp+
  then have "ConnectTimeout ex_mon 30 [''ACL''] [''Encap'', ''Chassis''] = 40" by (simp add: ConnectTimeout_def ex_mon_def)
  then show "int j * mn_BatchDelay ex_mon < ConnectTimeout ex_mon 30 [''ACL''] [''Encap'', ''Chassis''] - 30 \<Longrightarrow>
      (if j < 2 then None else Some ErrNotFound) = None" for j
    by (simp add: ex_mon_def)
  have "wanted ex_mon [''Encap'', ''Chassis''] = [''Encap'', ''Chassis'']" by code_simp
  then show "wanted ex_mon [''Encap'', ''Chassis''] \<noteq> []" by simp
qed simp

end
