(* ===== verification/Spec2Isabelle.thy ===== *)
theory Spec2Isabelle
  imports Write_Example History_Diff Alert_Monitor Api_Auth Api_Paging Snapshot_Session Flow_Diff Telemetry_Propagation Enrich_Cache
    Trace_Store Gateway_Analyzer Ovs_Health Debug_Stale Debug_AclAudit Debug_Diagnostics Debug_Connectivity Router_NextHop
    Search_Engine Telemetry_Querier App_Config Inventory_Builder Api_Write Snapshot_Replay
    Api_Topology Api_Trace Correlate Api_Server Api_Handlers Ovsdb_Client
begin

text \<open>
  A verification library for Northwatch, a server that watches an OVN installation: it mirrors the northbound (NB, what is
  intended) and southbound (SB, what is realized) databases through libovsdb, and the OVS databases of the chassis, answers
  queries about them over HTTP, keeps a history of snapshots and events, raises alerts, and writes back to NB and SB in two
  steps, a preview and an apply.

  \<^bold>\<open>How the parts interact.\<close> A request passes authentication, deadline, metrics, recovery and stale marker, then the mux, which
  serves the default cluster or hands the request to the mux of a named cluster (\<open>Api_Auth\<close>, \<open>Api_Server\<close>); the handlers
  (\<open>Api_Write\<close>, \<open>Api_Handlers\<close>, \<open>Api_Topology\<close>, \<open>Api_Trace\<close>, \<open>Api_Paging\<close>) call the components. The write engine validates
  operations against the registry of tables, caches the plan it shows, snapshots the history store, runs the transaction with
  wait operations on the values shown, and records the outcome in the audit store of the same SQLite database. Changes of the
  caches reach the event hub through the bridge; flow diff, propagation tracker, history and alerts subscribe to it. A stored
  snapshot can be loaded as a further cluster, during which the live monitors are suspended.

  \<^bold>\<open>Conventions\<close> (\<open>NW_Prelude\<close>). Go maps are association lists with distinct keys, and their order is that of one execution of
  \<^verbatim>\<open>range\<close>; where the runtime may choose it, the order is an argument or a theorem holds for every permutation. Errors are
  values of \<open>error + 'a\<close>; messages stay format and arguments. Times are integers of nanoseconds, clock readings are arguments.
  State is passed explicitly. Counters that wrap are words, \<^verbatim>\<open>strconv.Atoi\<close> has its 64-bit range. A record has the columns
  a component reads. \<^verbatim>\<open>sort.Slice\<close> is insertion sort, with which Go's agrees up to twelve elements and for distinct keys.

  \<^bold>\<open>Shared theories.\<close>
  \<^item> \<open>NW_Prelude\<close>, \<open>NW_Strings\<close>, \<open>NW_IP\<close>: maps, errors, sorting, \<^verbatim>\<open>strings\<close>, \<^verbatim>\<open>net\<close>; \<open>NW_GoValues\<close>, \<open>NW_Json\<close>:
    typed Go values and JSON documents; \<open>NW_Models\<close>, \<open>NW_Rows\<close>: row structs of \<^verbatim>\<open>internal/ovsdb\<close>; \<open>NW_Cache\<close>, \<open>NW_Columns\<close>:
    listings that may fail, \<^verbatim>\<open>Get\<close>, \<^verbatim>\<open>WhereCache\<close>, string columns; \<open>NW_Severity\<close>: \<^verbatim>\<open>internal/severity\<close>.
  \<^item> Interfaces as locales, each interpreted on the definitions of the components that provide it: \<open>ring_store\<close> (\<open>NW_Ring\<close>;
    \<open>Flow_Diff\<close>, \<open>Telemetry_Propagation\<close>), \<open>ttl_store\<close> (\<open>NW_TTL\<close>; \<open>Write_PlanCache\<close>, \<open>Enrich_Cache\<close>, \<open>Trace_Store\<close>),
    \<open>ordered_registry\<close> (\<open>NW_Registry\<close>; \<open>Cluster_Registry\<close> twice), \<open>alert_rule\<close> (\<open>Alert_Monitor\<close>; the six built-in rules).

  \<^bold>\<open>The write path\<close> (\<^verbatim>\<open>internal/write\<close>, \<^verbatim>\<open>internal/impact\<close>).
  \<^item> \<open>Write_Hydrate\<close> (\<^verbatim>\<open>hydrate.go\<close>, \<^verbatim>\<open>ovsdb/modelmap.go\<close>): JSON maps to row structs and back; round trip and type safety.
  \<^item> \<open>Impact\<close>: the reference graph and the walk over it; sound, complete up to its limits, bounded, terminating.
  \<^item> \<open>Write_Registry\<close>, \<open>Write_Validate\<close> (\<^verbatim>\<open>types.go\<close>, \<^verbatim>\<open>registry.go\<close>, \<^verbatim>\<open>validate.go\<close>): what exactly is accepted.
  \<^item> \<open>Write_PlanCache\<close> (with the rate limiter), \<open>Write_Audit\<close>, \<open>Write_Engine\<close> (\<^verbatim>\<open>engine.go\<close>), \<open>Write_Failover\<close>.
  \<^item> \<open>Write_Safety\<close>: a plan is applied at most once, with its token, while fresh; no lost update; a stale apply changes nothing;
    a previewed plan can be applied; rollback. The OVSDB server is a parameter with named laws (\<open>wait_law\<close> and others from
    RFC 7047); \<open>Write_Example\<close> has a server that satisfies them and runs the engine against it.

  \<^bold>\<open>History and snapshots.\<close>
  \<^item> \<open>History_Store\<close>, \<open>History_Diff\<close> (\<^verbatim>\<open>internal/history\<close>): SQLite tables as lists, with gzip, SHA-256 and the text of JSON in a
    \<open>codec\<close> parameter; retention, export and import, differences.
  \<^item> \<open>Snapshot_Session\<close> (\<^verbatim>\<open>internal/snapshotsession\<close>): the critical sections of load, unload, drain and close as an inductive
    step relation over any interleaving of threads; the live monitors are suspended exactly while snapshots are loaded.
  \<^item> \<open>Snapshot_Replay\<close> (\<^verbatim>\<open>internal/snapshot\<close>): replaying a snapshot into an in-memory server leaves no dangling reference, serving
    leaks nothing, waiting for it ends.

  \<^item> \<open>Ovsdb_Client\<close> (\<^verbatim>\<open>internal/ovsdb/client.go\<close>): connecting, and the monitors that a session suspends and resumes; every
    wanted table is monitored exactly once, no client is left open, the deadline leaves time for a staged load.

  \<^bold>\<open>Events, alerts, telemetry.\<close> \<open>Events_Hub\<close> (\<^verbatim>\<open>internal/events\<close>), \<open>Flow_Diff\<close> (\<^verbatim>\<open>internal/flowdiff\<close>), \<open>Telemetry_Propagation\<close>,
  \<open>Telemetry_Querier\<close> (\<^verbatim>\<open>internal/telemetry\<close>), \<open>Alert_Engine\<close>, \<open>Alert_Rules\<close>, \<open>Alert_Monitor\<close> (\<^verbatim>\<open>internal/alert\<close>): delivery and
  drops of events, the ring as the log it refines, the life cycle and paging of alerts, the rules.

  \<^bold>\<open>Analyses.\<close> \<open>Inventory_Liveness\<close>, \<open>Inventory_Builder\<close> (\<^verbatim>\<open>internal/inventory\<close>), \<open>Gateway_Analyzer\<close> (\<^verbatim>\<open>internal/gateway\<close>),
  \<open>Ovs_Health\<close>, \<open>Debug_Stale\<close>, \<open>Debug_AclAudit\<close>, \<open>Debug_Diagnostics\<close>, \<open>Debug_Connectivity\<close> (\<^verbatim>\<open>internal/debug\<close>),
  \<open>Router_NextHop\<close>, \<open>Search_Engine\<close>, \<open>Correlate\<close> (\<^verbatim>\<open>internal/correlate\<close>, \<^verbatim>\<open>internal/ovscorrelate\<close>): functions of the listings
  of the caches; the verdicts are characterized by what the rows say, and two ways to the same answer agree.

  \<^bold>\<open>Server.\<close> \<open>App_Config\<close> (\<^verbatim>\<open>internal/config\<close> and the start-up check of \<^verbatim>\<open>cmd/northwatch\<close>), \<open>Api_Auth\<close>, \<open>Api_Server\<close> (server,
  middleware, proxy, chain), \<open>Api_Write\<close>, \<open>Api_Handlers\<close>, \<open>Api_Paging\<close>, \<open>Api_Topology\<close>, \<open>Api_Trace\<close>, \<open>Trace_Store\<close>,
  \<open>Cluster_Registry\<close> (with the pool of OVS connections), \<open>Enrich_Cache\<close>: no unauthenticated write from the command line to the
  database, bounded guessing, every request answered and counted, isolation of clusters.

  \<^bold>\<open>Termination.\<close> Recursion is structural except for \<open>setField\<close> (depth of the type), the walk of \<open>Impact\<close> (the remaining depth,
  then the work list), the IPv6 parser (the rest of the input) and \<open>waitReady\<close> (the time to its deadline), each with its measure.
  The loop that connects an OVS member may run forever: it is the partial function \<open>supervise\<close>, with the theorem of when it
  returns. No definition uses fuel.

  \<^bold>\<open>Parameters.\<close> SHA-256 and HMAC (no collision among the inputs is a hypothesis where it matters), gzip, the encoders of JSON and
  CSV, \<^verbatim>\<open>flag\<close> and the file system, the OVSDB client and server, the HTTP transport, the clock and random identifiers.

  \<^bold>\<open>Not modelled.\<close> The libovsdb client itself and the generated methods of the row structs; the
  providers of \<^verbatim>\<open>internal/enrich\<close>, which are HTTP calls; the simulator \<^verbatim>\<open>internal/ovnsim\<close> and test helpers; handlers that only
  render rows (tables by UUID, NAT and load balancer views, exports, web socket, UI, API description); goroutines and tickers
  outside \<open>Snapshot_Session\<close>, whose bodies are modelled as the steps they run; SQL migrations; log output.
\<close>

end
